(* ===== verification/Prelude.thy ===== *)
theory Prelude
  imports Main "HOL-Library.Sublist" "HOL-Library.List_Lexorder" "HOL-Library.Char_ord"
begin

text \<open>
  Shared vocabulary of the development: the parts of the Go language and of its standard library
  that the modelled packages use, and the generic lemmas the component theories share.

  A Go \<open>string\<close> is a sequence of bytes and an Isabelle \<open>char\<close> is a byte, so \<open>string\<close> models it
  without any restriction on the contents. A Go \<open>rune\<close> is a code point, an \<open>int\<close> here, and the
  conversion \<open>[]rune(s)\<close> is the UTF-8 decoder \<open>runes\<close> below.
\<close>

section \<open>Collections of facts\<close>

named_theorems go_strings \<open>definitions of the modelled functions of package strings\<close>
named_theorems go_numbers \<open>definitions of the modelled functions of package strconv\<close>

type_synonym rune = int

text \<open>The value of a Go \<open>int\<close> expression: two's complement wrap-around at 64 bits.\<close>

definition int64 :: "int \<Rightarrow> int" where
  "int64 x = (x + 2 ^ 63) mod 2 ^ 64 - 2 ^ 63"

lemma int64_id: "- (2 ^ 63) \<le> x \<Longrightarrow> x < 2 ^ 63 \<Longrightarrow> int64 x = x"
  by (simp add: int64_def)

section \<open>Package strings\<close>

abbreviation HasPrefix :: "string \<Rightarrow> string \<Rightarrow> bool" where
  "HasPrefix s p \<equiv> prefix p s"

abbreviation HasSuffix :: "string \<Rightarrow> string \<Rightarrow> bool" where
  "HasSuffix s p \<equiv> suffix p s"

definition TrimPrefix :: "string \<Rightarrow> string \<Rightarrow> string" where
  "TrimPrefix s p = (if HasPrefix s p then drop (length p) s else s)"

definition TrimSuffix :: "string \<Rightarrow> string \<Rightarrow> string" where
  "TrimSuffix s p = (if HasSuffix s p then take (length s - length p) s else s)"

text \<open>\<open>strings.CutPrefix\<close>: the rest of the string when the prefix is there.\<close>

definition CutPrefix :: "string \<Rightarrow> string \<Rightarrow> string option" where
  "CutPrefix s p = (if HasPrefix s p then Some (drop (length p) s) else None)"

text \<open>\<open>strings.Contains\<close> by scanning, and \<open>strings.ContainsAny\<close> for a set of ASCII bytes.\<close>

fun Contains :: "string \<Rightarrow> string \<Rightarrow> bool" where
  "Contains s p \<longleftrightarrow> HasPrefix s p \<or> (case s of [] \<Rightarrow> False | _ # s' \<Rightarrow> Contains s' p)"

declare Contains.simps [simp del]

definition ContainsAny :: "string \<Rightarrow> string \<Rightarrow> bool" where
  "ContainsAny s cs \<longleftrightarrow> (\<exists>c\<in>set s. c \<in> set cs)"

text \<open>\<open>strings.Trim(s, cutset)\<close> for a cutset of ASCII bytes.\<close>

definition TrimLeft :: "string \<Rightarrow> char set \<Rightarrow> string" where
  "TrimLeft s cs = dropWhile (\<lambda>c. c \<in> cs) s"

definition TrimRight :: "string \<Rightarrow> char set \<Rightarrow> string" where
  "TrimRight s cs = rev (dropWhile (\<lambda>c. c \<in> cs) (rev s))"

definition Trim :: "string \<Rightarrow> char set \<Rightarrow> string" where
  "Trim s cs = TrimRight (TrimLeft s cs) cs"

text \<open>\<open>strings.Split(s, sep)\<close> for a separator of one byte, and \<open>strings.Join\<close>.\<close>

fun Split :: "string \<Rightarrow> char \<Rightarrow> string list" where
  "Split [] sep = [[]]"
| "Split (c # s) sep =
     (if c = sep then [] # Split s sep
      else (case Split s sep of [] \<Rightarrow> [[c]] | part # parts \<Rightarrow> (c # part) # parts))"

fun Join :: "string list \<Rightarrow> string \<Rightarrow> string" where
  "Join [] sep = []"
| "Join [x] sep = x"
| "Join (x # y # xs) sep = x @ sep @ Join (y # xs) sep"

text \<open>\<open>strings.Cut(s, sep)\<close> for a separator of one byte: before, after, found.\<close>

fun Cut :: "string \<Rightarrow> char \<Rightarrow> string \<times> string \<times> bool" where
  "Cut [] sep = ([], [], False)"
| "Cut (c # s) sep =
     (if c = sep then ([], s, True)
      else (case Cut s sep of (b, a, found) \<Rightarrow> (c # b, a, found)))"

subsection \<open>TrimSpace\<close>

text \<open>
  \<open>strings.TrimSpace\<close> removes the code points with the Unicode White\_Space property from both
  ends. Their UTF-8 encodings are listed; a string starts (ends) with such a code point exactly
  when it starts (ends) with one of these byte sequences, since the lead byte fixes the length
  of an encoding and none of them occurs inside the encoding of another code point.
\<close>

definition space_encodings :: "string list" where
  "space_encodings =
     [[CHR 0x09], [CHR 0x0A], [CHR 0x0B], [CHR 0x0C], [CHR 0x0D], [CHR 0x20],
      [CHR 0xC2, CHR 0x85], [CHR 0xC2, CHR 0xA0], [CHR 0xE1, CHR 0x9A, CHR 0x80],
      [CHR 0xE2, CHR 0x80, CHR 0x80], [CHR 0xE2, CHR 0x80, CHR 0x81],
      [CHR 0xE2, CHR 0x80, CHR 0x82], [CHR 0xE2, CHR 0x80, CHR 0x83],
      [CHR 0xE2, CHR 0x80, CHR 0x84], [CHR 0xE2, CHR 0x80, CHR 0x85],
      [CHR 0xE2, CHR 0x80, CHR 0x86], [CHR 0xE2, CHR 0x80, CHR 0x87],
      [CHR 0xE2, CHR 0x80, CHR 0x88], [CHR 0xE2, CHR 0x80, CHR 0x89],
      [CHR 0xE2, CHR 0x80, CHR 0x8A], [CHR 0xE2, CHR 0x80, CHR 0xA8],
      [CHR 0xE2, CHR 0x80, CHR 0xA9], [CHR 0xE2, CHR 0x80, CHR 0xAF],
      [CHR 0xE2, CHR 0x81, CHR 0x9F], [CHR 0xE3, CHR 0x80, CHR 0x80]]"

definition leading_space :: "string list \<Rightarrow> string \<Rightarrow> string option" where
  "leading_space sps s = find (\<lambda>sp. sp \<noteq> [] \<and> prefix sp s) sps"

function trim_front :: "string list \<Rightarrow> string \<Rightarrow> string" where
  "trim_front sps s =
     (case leading_space sps s of None \<Rightarrow> s | Some sp \<Rightarrow> trim_front sps (drop (length sp) s))"
  by pat_completeness auto
termination
proof (relation "measure (\<lambda>(sps, s). length s)")
  fix sps s sp
  assume "leading_space sps s = Some sp"
  then have "sp \<noteq> []" and "prefix sp s"
    by (auto simp: leading_space_def find_Some_iff)
  then show "((sps, drop (length sp) s), (sps, s)) \<in> measure (\<lambda>(sps, s). length s)"
    by (cases s) auto
qed simp

declare trim_front.simps [simp del]

lemma trim_front_code [code]:
  "trim_front sps s =
     (if leading_space sps s = None then s
      else trim_front sps (drop (length (the (leading_space sps s))) s))"
  by (simp add: trim_front.simps [of sps s] split: option.split)

definition TrimSpace :: "string \<Rightarrow> string" where
  "TrimSpace s =
     rev (trim_front (map rev space_encodings) (rev (trim_front space_encodings s)))"

text \<open>A trimmed string starts and ends with no space, so trimming twice is trimming once.\<close>

lemma trim_front_prefix: "\<exists>p. s = p @ trim_front sps s"
proof (induction sps s rule: trim_front.induct)
  case (1 sps s)
  show ?case
  proof (cases "leading_space sps s")
    case None
    then show ?thesis by (simp add: trim_front.simps [of sps s])
  next
    case (Some sp)
    then have "prefix sp s" by (auto simp: leading_space_def find_Some_iff)
    with 1 [OF Some] Some show ?thesis
      by (auto simp: trim_front.simps [of sps s] prefix_def)
        (metis append_assoc)
  qed
qed

lemma leading_space_trim_front: "leading_space sps (trim_front sps s) = None"
proof (induction sps s rule: trim_front.induct)
  case (1 sps s)
  then show ?case by (simp add: trim_front.simps [of sps s] split: option.split)
qed

lemma leading_space_prefix:
  "leading_space sps (u @ v) = None \<Longrightarrow> leading_space sps u = None"
  by (auto simp: leading_space_def find_None_iff)

lemma trim_front_id: "leading_space sps s = None \<Longrightarrow> trim_front sps s = s"
  by (simp add: trim_front.simps [of sps s])

lemma TrimSpace_idem [simp]: "TrimSpace (TrimSpace s) = TrimSpace s"
proof -
  define f where "f = trim_front space_encodings s"
  define b where "b = trim_front (map rev space_encodings) (rev f)"
  obtain p where "rev f = p @ b" using trim_front_prefix [of "rev f" "map rev space_encodings"] by (auto simp: b_def)
  then have "f = rev b @ rev p" by (metis rev_append rev_rev_ident)
  then have "leading_space space_encodings (rev b) = None"
    using leading_space_trim_front [of space_encodings s] leading_space_prefix f_def by metis
  moreover have "leading_space (map rev space_encodings) b = None"
    by (simp add: b_def leading_space_trim_front)
  ultimately show ?thesis
    by (simp add: TrimSpace_def trim_front_id flip: f_def b_def)
qed

section \<open>Package strconv\<close>

definition is_digit :: "char \<Rightarrow> bool" where
  "is_digit c \<longleftrightarrow> 48 \<le> (of_char c :: int) \<and> of_char c \<le> (57 :: int)"

definition digit_val :: "char \<Rightarrow> int" where
  "digit_val c = of_char c - 48"

definition digits_val :: "string \<Rightarrow> int" where
  "digits_val s = fold (\<lambda>c n. 10 * n + digit_val c) s 0"

datatype num_error = ErrSyntax | ErrRange

definition parse_uint :: "nat \<Rightarrow> string \<Rightarrow> num_error + int" where
  "parse_uint bits s =
     (if s = [] \<or> \<not> list_all is_digit s then Inl ErrSyntax
      else if digits_val s < 2 ^ bits then Inr (digits_val s) else Inl ErrRange)"

text \<open>\<open>strconv.ParseInt(s, 10, bits)\<close>, and \<open>strconv.Atoi\<close> on a 64-bit platform.\<close>

definition parse_int :: "nat \<Rightarrow> string \<Rightarrow> num_error + int" where
  "parse_int bits s =
     (let neg = (s \<noteq> [] \<and> hd s = CHR ''-'');
          body = (if s \<noteq> [] \<and> (hd s = CHR ''-'' \<or> hd s = CHR ''+'') then tl s else s)
      in if body = [] \<or> \<not> list_all is_digit body then Inl ErrSyntax
         else if neg then
           (if digits_val body \<le> 2 ^ (bits - 1) then Inr (- digits_val body) else Inl ErrRange)
         else (if digits_val body < 2 ^ (bits - 1) then Inr (digits_val body) else Inl ErrRange))"

definition Atoi :: "string \<Rightarrow> num_error + int" where
  "Atoi s = parse_int 64 s"

lemmas go_string_defs [go_strings] =
  TrimPrefix_def TrimSuffix_def CutPrefix_def TrimLeft_def TrimRight_def Trim_def ContainsAny_def
lemmas go_number_defs [go_numbers] =
  parse_uint_def parse_int_def Atoi_def is_digit_def digit_val_def digits_val_def

lemma digits_val_nonneg: "list_all is_digit s \<Longrightarrow> 0 \<le> digits_val s"
proof -
  have "list_all is_digit s \<Longrightarrow> 0 \<le> n \<Longrightarrow> 0 \<le> fold (\<lambda>c n. 10 * n + digit_val c) s n" for n :: int
  proof (induction s arbitrary: n)
    case (Cons c s)
    then have "0 \<le> 10 * n + digit_val c" by (simp add: digit_val_def is_digit_def)
    with Cons show ?case by simp
  qed simp
  then show "list_all is_digit s \<Longrightarrow> 0 \<le> digits_val s" by (simp add: digits_val_def)
qed

text \<open>A parsed integer fits its width.\<close>

lemma parse_int_bounds:
  assumes "parse_int bits s = Inr n"
  shows "- (2 ^ (bits - 1)) \<le> n \<and> n < 2 ^ (bits - 1)"
proof -
  let ?B = "2 ^ (bits - 1) :: int"
  have B: "0 < ?B" by simp
  from assms obtain body where "list_all is_digit body"
    and "n = - digits_val body \<and> digits_val body \<le> ?B \<or> n = digits_val body \<and> digits_val body < ?B"
    by (auto simp: parse_int_def Let_def split: if_splits)
  with digits_val_nonneg [of body] B show ?thesis by linarith
qed

section \<open>Splitting, joining and trimming\<close>

lemma Split_not_Nil [simp]: "Split s sep \<noteq> []"
  by (induction s) (auto split: list.splits)

lemma Split_no_sep: "sep \<notin> set s \<Longrightarrow> Split s sep = [s]"
  by (induction s) auto

lemma Split_append_sep: "sep \<notin> set a \<Longrightarrow> Split (a @ sep # s) sep = a # Split s sep"
  by (induction a) auto

lemma sort_key_Nil_iff [simp]: "sort_key f xs = [] \<longleftrightarrow> xs = []"
  by (metis length_0_conv length_sort)

lemma Split_append: "Split (a @ sep # b) sep = Split a sep @ Split b sep"
  by (induction a) (auto split: list.splits)

lemma Split_Join:
  "ms \<noteq> [] \<Longrightarrow> \<forall>m\<in>set ms. sep \<notin> set m \<Longrightarrow> Split (Join ms [sep]) sep = ms"
  by (induction ms "[sep]" rule: Join.induct) (auto simp: Split_no_sep Split_append_sep)

lemma Join_Split: "Join (Split s sep) [sep] = s"
proof (induction s)
  case (Cons c s)
  then show ?case
    by (cases "Split s sep") (auto, metis Join.simps(2,3) Cons append_Cons list.exhaust)
qed simp

lemma Split_parts_no_sep: "p \<in> set (Split s sep) \<Longrightarrow> sep \<notin> set p"
  by (induction s arbitrary: p) (auto split: list.splits if_splits)

lemma length_Join:
  "ms \<noteq> [] \<Longrightarrow> length (Join ms [sep]) = sum_list (map length ms) + length ms - 1"
  by (induction ms "[sep]" rule: Join.induct) (auto simp: Suc_le_eq)

lemma hd_Join: "ms \<noteq> [] \<Longrightarrow> hd ms \<noteq> [] \<Longrightarrow> hd (Join ms sep) = hd (hd ms) \<and> Join ms sep \<noteq> []"
  by (induction ms sep rule: Join.induct) auto

lemma last_Join: "ms \<noteq> [] \<Longrightarrow> last ms \<noteq> [] \<Longrightarrow> last (Join ms sep) = last (last ms) \<and> Join ms sep \<noteq> []"
  by (induction ms sep rule: Join.induct) auto

lemma Contains_iff: "Contains s p \<longleftrightarrow> (\<exists>a b. s = a @ p @ b)"
proof (induction s)
  case Nil
  then show ?case by (auto simp: Contains.simps [of "[]"])
next
  case (Cons c s)
  have "Contains (c # s) p \<longleftrightarrow> prefix p (c # s) \<or> Contains s p" by (simp add: Contains.simps [of "c # s"])
  also have "\<dots> \<longleftrightarrow> (\<exists>a b. c # s = a @ p @ b)"
  proof
    assume "prefix p (c # s) \<or> Contains s p"
    with Cons.IH show "\<exists>a b. c # s = a @ p @ b" by (metis append_Cons append_Nil prefixE)
  next
    assume "\<exists>a b. c # s = a @ p @ b"
    then obtain a b where ab: "c # s = a @ p @ b" by blast
    with Cons.IH show "prefix p (c # s) \<or> Contains s p" by (cases a) auto
  qed
  finally show ?case .
qed

lemma Contains_char: "Contains s [c] \<longleftrightarrow> c \<in> set s"
  unfolding Contains_iff by (auto simp: in_set_conv_decomp)

text \<open>The printable ASCII bytes other than the space: no white space starts or ends with one.\<close>

definition plain :: "char \<Rightarrow> bool" where
  "plain c \<longleftrightarrow> 0x21 \<le> (of_char c :: int) \<and> of_char c \<le> (0x7E :: int)"

lemma plain_not_space:
  assumes "plain c"
  shows "leading_space space_encodings (c # s) = None" "leading_space (map rev space_encodings) (c # s) = None"
proof -
  have "\<forall>sp\<in>set space_encodings. sp \<noteq> [] \<and> \<not> plain (hd sp) \<and> \<not> plain (last sp)"
    by (simp add: space_encodings_def plain_def)
  with assms show "leading_space space_encodings (c # s) = None"
    "leading_space (map rev space_encodings) (c # s) = None"
    by (fastforce simp: leading_space_def find_None_iff prefix_Cons hd_rev)+
qed

lemma TrimSpace_plain:
  assumes "s \<noteq> []" "plain (hd s)" "plain (last s)"
  shows "TrimSpace s = s"
proof -
  have "leading_space space_encodings s = None"
    using assms(1,2) plain_not_space(1) by (metis list.collapse)
  moreover have "leading_space (map rev space_encodings) (rev s) = None"
    using assms(1,3) plain_not_space(2) by (metis hd_rev list.collapse rev_is_Nil_conv)
  ultimately show ?thesis by (simp add: TrimSpace_def trim_front_id)
qed

lemma length_trim_front: "length (trim_front sps s) \<le> length s"
  using trim_front_prefix [of s sps] by (metis length_append le_add2)

lemma length_TrimSpace: "length (TrimSpace s) \<le> length s"
  using length_trim_front [of space_encodings s]
    length_trim_front [of "map rev space_encodings" "rev (trim_front space_encodings s)"]
  by (simp add: TrimSpace_def)

lemma set_trim_front: "set (trim_front sps s) \<subseteq> set s"
  using trim_front_prefix [of s sps] by (metis set_append Un_upper2)

lemma set_TrimSpace: "set (TrimSpace s) \<subseteq> set s"
  using set_trim_front [of space_encodings s]
    set_trim_front [of "map rev space_encodings" "rev (trim_front space_encodings s)"]
  by (auto simp: TrimSpace_def)

lemma Cut_append: "c \<notin> set a \<Longrightarrow> Cut (a @ c # b) c = (a, b, True)"
  by (induction a) auto

lemma Cut_result:
  "Cut s c = (b, a, found) \<Longrightarrow> c \<notin> set b \<and> s = (if found then b @ c # a else b) \<and> (found \<longleftrightarrow> c \<in> set s)"
proof (induction s arbitrary: b a found)
  case (Cons x s)
  obtain b' a' f' where cut: "Cut s c = (b', a', f')" by (cases "Cut s c")
  from Cons.IH [OF cut] have IH: "c \<notin> set b'" "s = (if f' then b' @ c # a' else b')" "f' \<longleftrightarrow> c \<in> set s"
    by blast+
  show ?case
  proof (cases "x = c")
    case True
    with Cons.prems show ?thesis by auto
  next
    case False
    with Cons.prems cut have "b = x # b'" "a = a'" "found = f'" by auto
    with False IH show ?thesis by (cases f') auto
  qed
qed simp

section \<open>Code points\<close>

text \<open>
  \<open>[]rune(s)\<close>: UTF-8 decoding, where every byte that does not start a valid encoding becomes
  U+FFFD. The ranges of the second byte exclude overlong encodings, surrogates and code points
  above U+10FFFF.
\<close>

definition is_cont :: "int \<Rightarrow> bool" where
  "is_cont b \<longleftrightarrow> 0x80 \<le> b \<and> b \<le> 0xBF"

definition second_ok :: "int \<Rightarrow> int \<Rightarrow> bool" where
  "second_ok b0 b1 \<longleftrightarrow>
     (if b0 = 0xE0 then 0xA0 \<le> b1 \<and> b1 \<le> 0xBF
      else if b0 = 0xED then 0x80 \<le> b1 \<and> b1 \<le> 0x9F
      else if b0 = 0xF0 then 0x90 \<le> b1 \<and> b1 \<le> 0xBF
      else if b0 = 0xF4 then 0x80 \<le> b1 \<and> b1 \<le> 0x8F
      else is_cont b1)"

definition decode_rune :: "int list \<Rightarrow> rune \<times> nat" where
  "decode_rune bs =
     (let b0 = bs ! 0; b1 = bs ! 1; b2 = bs ! 2; b3 = bs ! 3; n = length bs
      in if b0 < 0x80 then (b0, 1)
         else if 0xC2 \<le> b0 \<and> b0 \<le> 0xDF \<and> 2 \<le> n \<and> is_cont b1
           then ((b0 - 0xC0) * 64 + (b1 - 0x80), 2)
         else if 0xE0 \<le> b0 \<and> b0 \<le> 0xEF \<and> 3 \<le> n \<and> second_ok b0 b1 \<and> is_cont b2
           then ((b0 - 0xE0) * 4096 + (b1 - 0x80) * 64 + (b2 - 0x80), 3)
         else if 0xF0 \<le> b0 \<and> b0 \<le> 0xF4 \<and> 4 \<le> n \<and> second_ok b0 b1 \<and> is_cont b2 \<and> is_cont b3
           then ((b0 - 0xF0) * 262144 + (b1 - 0x80) * 4096 + (b2 - 0x80) * 64 + (b3 - 0x80), 4)
         else (0xFFFD, 1))"

lemma decode_rune_progress: "0 < snd (decode_rune bs)"
  by (simp add: decode_rune_def Let_def)

function decode_runes :: "int list \<Rightarrow> rune list" where
  "decode_runes bs =
     (if bs = [] then []
      else (case decode_rune bs of (r, n) \<Rightarrow> r # decode_runes (drop n bs)))"
  by pat_completeness auto
termination
proof (relation "measure length")
  fix bs :: "int list" and r n
  assume "bs \<noteq> []" and "(r, n) = decode_rune bs"
  then show "(drop n bs, bs) \<in> measure length"
    using decode_rune_progress [of bs] by (metis diff_less in_measure length_drop length_greater_0_conv snd_conv)
qed simp

declare decode_runes.simps [simp del]

definition runes :: "string \<Rightarrow> rune list" where
  "runes s = decode_runes (map of_char s)"

text \<open>\<open>strings.Builder.WriteRune\<close>: UTF-8 encoding; a value that is no code point is U+FFFD.\<close>

definition encode_rune :: "rune \<Rightarrow> string" where
  "encode_rune r0 =
     (let r = (if r0 < 0 \<or> 0x10FFFF < r0 \<or> (0xD800 \<le> r0 \<and> r0 \<le> 0xDFFF) then 0xFFFD else r0)
      in map char_of
          (if r < 0x80 then [r]
           else if r < 0x800 then [0xC0 + r div 64, 0x80 + r mod 64]
           else if r < 0x10000 then [0xE0 + r div 4096, 0x80 + r div 64 mod 64, 0x80 + r mod 64]
           else [0xF0 + r div 262144, 0x80 + r div 4096 mod 64, 0x80 + r div 64 mod 64, 0x80 + r mod 64]))"

text \<open>\<open>unicode.IsSpace\<close> and \<open>unicode.IsControl\<close>.\<close>

definition IsSpace :: "rune \<Rightarrow> bool" where
  "IsSpace r \<longleftrightarrow>
     (0x09 \<le> r \<and> r \<le> 0x0D) \<or> r = 0x20 \<or> r = 0x85 \<or> r = 0xA0 \<or> r = 0x1680 \<or>
     (0x2000 \<le> r \<and> r \<le> 0x200A) \<or> r = 0x2028 \<or> r = 0x2029 \<or> r = 0x202F \<or> r = 0x205F \<or> r = 0x3000"

definition IsControl :: "rune \<Rightarrow> bool" where
  "IsControl r \<longleftrightarrow> (0 \<le> r \<and> r < 0x20) \<or> (0x7F \<le> r \<and> r < 0xA0)"

end
