(* ===== verification/Pattern.thy ===== *)
theory Pattern
  imports Prelude
begin

text \<open>
  The pattern matcher of generated form validation, \<open>runtime/validation/pattern.go\<close>: a regular
  expression parser and a backtracking-free matcher that computes, for every node and start
  position, the list of positions where a match may end.

  The parser keeps an index into the pattern; the model keeps the runes that are left, since every
  test of the code looks at or after the index only. The mutually recursive parser functions take
  fuel; \<open>compilePattern\<close> supplies an amount that is shown to be enough for every pattern.
\<close>

section \<open>Nodes\<close>

datatype classPart =
    LiteralClassPart rune
  | RangeClassPart rune rune
  | ShorthandClassPart rune

datatype patternNode =
    EmptyNode
  | LiteralNode rune
  | AnyNode
  | ShorthandNode rune
  | SequenceNode "patternNode list"
  | AlternationNode "patternNode list"
  | RepeatNode patternNode int int
  | ClassNode bool "classPart list"

text \<open>Code points of the pattern syntax.\<close>

abbreviation ch :: "char \<Rightarrow> rune" where
  "ch c \<equiv> of_char c"

definition isASCIIDigit :: "rune \<Rightarrow> bool" where
  "isASCIIDigit r \<longleftrightarrow> ch CHR ''0'' \<le> r \<and> r \<le> ch CHR ''9''"

definition matchShorthand :: "rune \<Rightarrow> rune \<Rightarrow> bool" where
  "matchShorthand kind r =
     (if kind = ch CHR ''d'' then ch CHR ''0'' \<le> r \<and> r \<le> ch CHR ''9''
      else if kind = ch CHR ''D'' then r < ch CHR ''0'' \<or> ch CHR ''9'' < r
      else if kind = ch CHR ''w'' then
        r = ch CHR ''_'' \<or> (ch CHR ''0'' \<le> r \<and> r \<le> ch CHR ''9'')
          \<or> (ch CHR ''A'' \<le> r \<and> r \<le> ch CHR ''Z'') \<or> (ch CHR ''a'' \<le> r \<and> r \<le> ch CHR ''z'')
      else if kind = ch CHR ''W'' then
        r \<noteq> ch CHR ''_'' \<and> (r < ch CHR ''0'' \<or> ch CHR ''9'' < r)
          \<and> (r < ch CHR ''A'' \<or> ch CHR ''Z'' < r) \<and> (r < ch CHR ''a'' \<or> ch CHR ''z'' < r)
      else if kind = ch CHR ''s'' then r = 9 \<or> r = 10 \<or> r = 12 \<or> r = 13 \<or> r = 32
      else if kind = ch CHR ''S'' then r \<noteq> 9 \<and> r \<noteq> 10 \<and> r \<noteq> 12 \<and> r \<noteq> 13 \<and> r \<noteq> 32
      else False)"

fun classPart_match :: "classPart \<Rightarrow> rune \<Rightarrow> bool" where
  "classPart_match (LiteralClassPart c) r \<longleftrightarrow> r = c"
| "classPart_match (RangeClassPart lo hi) r \<longleftrightarrow> lo \<le> r \<and> r \<le> hi"
| "classPart_match (ShorthandClassPart kind) r \<longleftrightarrow> matchShorthand kind r"

section \<open>Matching\<close>

text \<open>\<open>uniquePositions\<close> keeps the first occurrence of every position.\<close>

fun uniquePositions_loop :: "nat set \<Rightarrow> nat list \<Rightarrow> nat list" where
  "uniquePositions_loop seen [] = []"
| "uniquePositions_loop seen (p # ps) =
     (if p \<in> seen then uniquePositions_loop seen ps
      else p # uniquePositions_loop (insert p seen) ps)"

definition uniquePositions :: "nat list \<Rightarrow> nat list" where
  "uniquePositions ps = (if length ps < 2 then ps else uniquePositions_loop {} ps)"

text \<open>The loop of \<open>sequenceNode.match\<close> over the children, given as their match functions.\<close>

fun sequence_loop :: "(nat \<Rightarrow> nat list) list \<Rightarrow> nat list \<Rightarrow> nat list" where
  "sequence_loop [] positions = positions"
| "sequence_loop (child # children) positions =
     (let positions' = uniquePositions (concat (map child positions))
      in if positions' = [] then [] else sequence_loop children positions')"

text \<open>
  The loop of \<open>repeatNode.match\<close>. \<open>current\<close> is \<open>positionsByCount[count]\<close>; a child match that
  consumes nothing is dropped.
\<close>

definition repeat_next :: "(nat \<Rightarrow> nat list) \<Rightarrow> nat list \<Rightarrow> nat list" where
  "repeat_next child current =
     uniquePositions (concat (map (\<lambda>p. filter (\<lambda>q. q \<noteq> p) (child p)) current))"

function repeat_loop ::
  "(nat \<Rightarrow> nat list) \<Rightarrow> int \<Rightarrow> int \<Rightarrow> int \<Rightarrow> nat list \<Rightarrow> nat list \<Rightarrow> nat list" where
  "repeat_loop child minimum limit count current accepted =
     (if limit < count then accepted
      else let accepted' = (if minimum \<le> count then accepted @ current else accepted)
           in if count = limit then accepted'
              else let next = repeat_next child current
                   in if next = [] then accepted'
                      else repeat_loop child minimum limit (count + 1) next accepted')"
  by pat_completeness auto
termination
  by (relation "measure (\<lambda>(child, minimum, limit, count, current, accepted). nat (limit + 1 - count))") auto

declare repeat_loop.simps [simp del]

definition repeat_limit :: "int \<Rightarrow> int \<Rightarrow> nat \<Rightarrow> nat \<Rightarrow> int" where
  "repeat_limit minimum maximum len position =
     (let bound = int64 (int len - int position + minimum)
      in if maximum < 0 \<or> bound < maximum then bound else maximum)"

fun node_match :: "patternNode \<Rightarrow> rune list \<Rightarrow> nat \<Rightarrow> nat list" where
  "node_match EmptyNode v p = [p]"
| "node_match (LiteralNode c) v p = (if p < length v \<and> v ! p = c then [p + 1] else [])"
| "node_match AnyNode v p = (if p < length v then [p + 1] else [])"
| "node_match (ShorthandNode kind) v p =
     (if p < length v \<and> matchShorthand kind (v ! p) then [p + 1] else [])"
| "node_match (SequenceNode ns) v p = sequence_loop (map (\<lambda>n. node_match n v) ns) [p]"
| "node_match (AlternationNode ns) v p = uniquePositions (concat (map (\<lambda>n. node_match n v p) ns))"
| "node_match (RepeatNode n minimum maximum) v p =
     uniquePositions
       (repeat_loop (node_match n v) minimum (repeat_limit minimum maximum (length v) p) 0 [p] [])"
| "node_match (ClassNode neg ps) v p =
     (if p < length v \<and> (if neg then \<not> list_ex (\<lambda>part. classPart_match part (v ! p)) ps
                         else list_ex (\<lambda>part. classPart_match part (v ! p)) ps)
      then [p + 1] else [])"

definition compiledPattern_match :: "patternNode \<Rightarrow> rune list \<Rightarrow> bool" where
  "compiledPattern_match root v \<longleftrightarrow> list_ex (\<lambda>p. p = length v) (node_match root v 0)"

section \<open>Parsing\<close>

text \<open>
  One constructor per error the parser reports; \<open>OutOfFuel\<close> is not an error of the code, it says
  that the bound on the recursion was reached.
\<close>

datatype patternError =
    UnexpectedToken rune
  | UnexpectedGroupTerminator
  | QuantifierNoTarget rune
  | UnexpectedEnd
  | UnicodeClassUnsupported
  | UnterminatedClass
  | PosixClassUnsupported
  | NegatedShorthandInClass
  | RangeNeedsLiterals
  | InvalidClassRange
  | UnsupportedGroupOperator
  | UnterminatedGroup
  | InvalidRepeatCount
  | RepeatCountOutOfRange
  | OutOfFuel

type_synonym 'a patternResult = "patternError + ('a \<times> rune list)"

definition in_runes :: "rune \<Rightarrow> string \<Rightarrow> bool" where
  "in_runes r cs \<longleftrightarrow> r \<in> set (map ch cs)"

fun parseEscape :: "rune list \<Rightarrow> patternNode patternResult" where
  "parseEscape [] = Inr (LiteralNode (ch CHR 0x5C), [])"
| "parseEscape (current # rest) =
     (if in_runes current ''dDwWsS'' then Inr (ShorthandNode current, rest)
      else if in_runes current ''pP'' then Inl UnicodeClassUnsupported
      else Inr (LiteralNode current, rest))"

text \<open>\<open>parseClassPart\<close>: the part, whether it is a literal, and what is left.\<close>

fun parseClassPart :: "rune list \<Rightarrow> (classPart \<times> bool) patternResult" where
  "parseClassPart [] = Inl UnterminatedClass"
| "parseClassPart (current # rest) =
     (if current = ch CHR ''['' \<and> rest \<noteq> [] \<and> hd rest = ch CHR '':'' then Inl PosixClassUnsupported
      else if current \<noteq> ch CHR 0x5C then Inr ((LiteralClassPart current, True), rest)
      else (case rest of
              [] \<Rightarrow> Inr ((LiteralClassPart (ch CHR 0x5C), True), [])
            | escaped # rest' \<Rightarrow>
                (if in_runes escaped ''DWS'' then Inl NegatedShorthandInClass
                 else if in_runes escaped ''dws'' then Inr ((ShorthandClassPart escaped, False), rest')
                 else if in_runes escaped ''pP'' then Inl UnicodeClassUnsupported
                 else Inr ((LiteralClassPart escaped, True), rest'))))"

lemma parseClassPart_decreasing:
  "parseClassPart rest = Inr (x, rest') \<Longrightarrow> length rest' < length rest"
  by (cases rest) (auto split: if_splits list.splits)

fun classPart_rune :: "classPart \<Rightarrow> rune" where
  "classPart_rune (LiteralClassPart c) = c"
| "classPart_rune _ = 0"

text \<open>The loop of \<open>parseClass\<close> with the parts collected so far.\<close>

function parseClass_loop :: "bool \<Rightarrow> classPart list \<Rightarrow> rune list \<Rightarrow> patternNode patternResult" where
  "parseClass_loop neg acc rest =
     (if rest = [] then Inl UnterminatedClass
      else if hd rest = ch CHR '']'' \<and> acc \<noteq> [] then Inr (ClassNode neg acc, tl rest)
      else (case parseClassPart rest of
              Inl e \<Rightarrow> Inl e
            | Inr ((first, firstLiteral), rest1) \<Rightarrow>
                (if firstLiteral \<and> 1 < length rest1 \<and> rest1 ! 0 = ch CHR ''-'' \<and> rest1 ! 1 \<noteq> ch CHR '']''
                 then (case parseClassPart (tl rest1) of
                         Inl e \<Rightarrow> Inl e
                       | Inr ((second, secondLiteral), rest2) \<Rightarrow>
                           (if \<not> secondLiteral then Inl RangeNeedsLiterals
                            else if classPart_rune second < classPart_rune first then Inl InvalidClassRange
                            else parseClass_loop neg
                                   (acc @ [RangeClassPart (classPart_rune first) (classPart_rune second)]) rest2))
                 else parseClass_loop neg (acc @ [first]) rest1)))"
  by pat_completeness auto
termination
  by (relation "measure (\<lambda>(neg, acc, rest). length rest)")
    (force dest!: parseClassPart_decreasing)+

declare parseClass_loop.simps [simp del]

definition parseClass :: "rune list \<Rightarrow> patternNode patternResult" where
  "parseClass rest =
     (if rest \<noteq> [] \<and> hd rest = ch CHR ''^'' then parseClass_loop True [] (tl rest)
      else parseClass_loop False [] rest)"

definition rune_digits :: "rune list \<Rightarrow> string" where
  "rune_digits rs = map (\<lambda>r. char_of r) rs"

text \<open>
  \<open>readBraceQuantifier\<close> on the runes after the opening brace: \<open>Inr None\<close> is the result
  \<open>ok = false\<close>, where the index is put back and the brace becomes a literal.
\<close>

definition readBraceQuantifier :: "rune list \<Rightarrow> patternError + (int \<times> int \<times> rune list) option" where
  "readBraceQuantifier rest =
     (let minDigits = takeWhile isASCIIDigit rest; rest1 = dropWhile isASCIIDigit rest
      in if minDigits = [] then Inr None
         else case Atoi (rune_digits minDigits) of
           Inl _ \<Rightarrow> Inl RepeatCountOutOfRange
         | Inr minimum \<Rightarrow>
             (case (if rest1 \<noteq> [] \<and> hd rest1 = ch CHR '',''
                    then (let maxDigits = takeWhile isASCIIDigit (tl rest1);
                              rest2 = dropWhile isASCIIDigit (tl rest1)
                          in if maxDigits = [] then Inr (- 1, rest2)
                             else case Atoi (rune_digits maxDigits) of
                                    Inl _ \<Rightarrow> Inl RepeatCountOutOfRange
                                  | Inr m \<Rightarrow> Inr (m, rest2))
                    else Inr (minimum, rest1)) of
                Inl e \<Rightarrow> Inl e
              | Inr (maximum, rest3) \<Rightarrow>
                  (if rest3 = [] \<or> hd rest3 \<noteq> ch CHR ''}'' then Inr None
                   else if 0 \<le> maximum \<and> maximum < minimum then Inl InvalidRepeatCount
                   else Inr (Some (minimum, maximum, tl rest3)))))"

definition readQuantifier :: "rune list \<Rightarrow> patternError + (int \<times> int \<times> rune list) option" where
  "readQuantifier rest =
     (if hd rest = ch CHR ''*'' then Inr (Some (0, - 1, tl rest))
      else if hd rest = ch CHR ''+'' then Inr (Some (1, - 1, tl rest))
      else if hd rest = ch CHR ''?'' then Inr (Some (0, 1, tl rest))
      else if hd rest = ch CHR ''{'' then readBraceQuantifier (tl rest)
      else Inr None)"

definition parseQuantifier :: "patternNode \<Rightarrow> rune list \<Rightarrow> patternNode patternResult" where
  "parseQuantifier atom rest =
     (if rest = [] then Inr (atom, rest)
      else case readQuantifier rest of
        Inl e \<Rightarrow> Inl e
      | Inr None \<Rightarrow> Inr (atom, rest)
      | Inr (Some (minimum, maximum, rest')) \<Rightarrow>
          (if rest' \<noteq> [] \<and> hd rest' = ch CHR ''?'' then Inl (QuantifierNoTarget (hd rest'))
           else Inr (RepeatNode atom minimum maximum, rest')))"

definition finish_sequence :: "patternNode list \<Rightarrow> patternNode" where
  "finish_sequence nodes =
     (case nodes of [] \<Rightarrow> EmptyNode | [n] \<Rightarrow> n | _ \<Rightarrow> SequenceNode nodes)"

definition finish_expression :: "patternNode list \<Rightarrow> patternNode" where
  "finish_expression alternatives =
     (case alternatives of [n] \<Rightarrow> n | _ \<Rightarrow> AlternationNode alternatives)"

text \<open>
  \<open>parseExpression\<close>, \<open>parseSequence\<close>, \<open>parseAtom\<close> and \<open>parseGroup\<close>, the loops of the first two
  with what they have collected. \<open>stop\<close> is 0 outside a group.
\<close>

function (sequential) parseExpression :: "nat \<Rightarrow> rune \<Rightarrow> patternNode list \<Rightarrow> rune list \<Rightarrow> patternNode patternResult"
and parseSequence :: "nat \<Rightarrow> rune \<Rightarrow> patternNode list \<Rightarrow> rune list \<Rightarrow> patternNode patternResult"
and parseAtom :: "nat \<Rightarrow> rune list \<Rightarrow> patternNode patternResult"
and parseGroup :: "nat \<Rightarrow> rune list \<Rightarrow> patternNode patternResult" where
  "parseExpression 0 stop alternatives rest = Inl OutOfFuel"
| "parseExpression (Suc fuel) stop alternatives rest =
     (case parseSequence fuel stop [] rest of
        Inl e \<Rightarrow> Inl e
      | Inr (s, rest1) \<Rightarrow>
          (if rest1 = [] \<or> hd rest1 \<noteq> ch CHR ''|'' then Inr (finish_expression (alternatives @ [s]), rest1)
           else parseExpression fuel stop (alternatives @ [s]) (tl rest1)))"
| "parseSequence 0 stop nodes rest = Inl OutOfFuel"
| "parseSequence (Suc fuel) stop nodes rest =
     (if rest = [] then Inr (finish_sequence nodes, rest)
      else if hd rest = ch CHR ''|'' \<or> (stop \<noteq> 0 \<and> hd rest = stop) then Inr (finish_sequence nodes, rest)
      else if hd rest = ch CHR '')'' \<and> stop = 0 then Inl UnexpectedGroupTerminator
      else if in_runes (hd rest) ''*+?}'' then Inl (QuantifierNoTarget (hd rest))
      else case parseAtom fuel rest of
             Inl e \<Rightarrow> Inl e
           | Inr (atom, rest1) \<Rightarrow>
               (case parseQuantifier atom rest1 of
                  Inl e \<Rightarrow> Inl e
                | Inr (atom', rest2) \<Rightarrow> parseSequence fuel stop (nodes @ [atom']) rest2))"
| "parseAtom 0 rest = Inl OutOfFuel"
| "parseAtom (Suc fuel) rest =
     (if rest = [] then Inl UnexpectedEnd
      else if hd rest = ch CHR 0x5C then parseEscape (tl rest)
      else if hd rest = ch CHR ''.'' then Inr (AnyNode, tl rest)
      else if hd rest = ch CHR ''['' then parseClass (tl rest)
      else if hd rest = ch CHR ''('' then parseGroup fuel (tl rest)
      else Inr (LiteralNode (hd rest), tl rest))"
| "parseGroup 0 rest = Inl OutOfFuel"
| "parseGroup (Suc fuel) rest =
     (case (if rest \<noteq> [] \<and> hd rest = ch CHR ''?''
            then (if tl rest = [] \<or> hd (tl rest) \<noteq> ch CHR '':'' then Inl UnsupportedGroupOperator
                  else Inr (tl (tl rest)))
            else Inr rest) of
        Inl e \<Rightarrow> Inl e
      | Inr rest1 \<Rightarrow>
          (case parseExpression fuel (ch CHR '')'') [] rest1 of
             Inl e \<Rightarrow> Inl e
           | Inr (grp, rest2) \<Rightarrow>
               (if rest2 = [] \<or> hd rest2 \<noteq> ch CHR '')'' then Inl UnterminatedGroup
                else Inr (grp, tl rest2))))"
  by pat_completeness auto
termination
  by (relation "measure (case_sum (case_sum fst fst) (case_sum fst fst))") auto

section \<open>Entry points\<close>

text \<open>The number of backslashes right before the end of \<open>before\<close> is odd.\<close>

definition patternRuneEscaped :: "rune list \<Rightarrow> bool" where
  "patternRuneEscaped before \<longleftrightarrow> odd (length (takeWhile (\<lambda>r. r = ch CHR 0x5C) (rev before)))"

definition strip_anchors :: "rune list \<Rightarrow> rune list" where
  "strip_anchors source =
     (let source1 = (if source \<noteq> [] \<and> hd source = ch CHR ''^'' then tl source else source)
      in if source1 \<noteq> [] \<and> last source1 = ch CHR ''$'' \<and> \<not> patternRuneEscaped (butlast source1)
         then butlast source1 else source1)"

definition pattern_fuel :: "rune list \<Rightarrow> nat" where
  "pattern_fuel source = 4 * length source + 3"

definition compilePattern :: "string \<Rightarrow> patternError + patternNode" where
  "compilePattern pattern =
     (let source = strip_anchors (runes pattern)
      in case parseExpression (pattern_fuel source) 0 [] source of
           Inl e \<Rightarrow> Inl e
         | Inr (root, rest) \<Rightarrow> (if rest \<noteq> [] then Inl (UnexpectedToken (hd rest)) else Inr root))"

definition ValidatePattern :: "string \<Rightarrow> patternError option" where
  "ValidatePattern pattern = (case compilePattern pattern of Inl e \<Rightarrow> Some e | Inr _ \<Rightarrow> None)"

definition MatchPattern :: "string \<Rightarrow> string \<Rightarrow> patternError + bool" where
  "MatchPattern pattern value =
     (case compilePattern pattern of
        Inl e \<Rightarrow> Inl e
      | Inr root \<Rightarrow> Inr (compiledPattern_match root (runes value)))"

section \<open>The language of a pattern\<close>

text \<open>
  The reference semantics: the set of rune sequences a node denotes, in the usual reading of
  regular expressions, where \<open>x{m,n}\<close> is between \<open>m\<close> and \<open>n\<close> copies of \<open>x\<close>.
\<close>

definition conc :: "rune list set \<Rightarrow> rune list set \<Rightarrow> rune list set" where
  "conc A B = {u @ w | u w. u \<in> A \<and> w \<in> B}"

fun conc_list :: "rune list set list \<Rightarrow> rune list set" where
  "conc_list [] = {[]}"
| "conc_list (A # As) = conc A (conc_list As)"

fun conc_pow :: "rune list set \<Rightarrow> nat \<Rightarrow> rune list set" where
  "conc_pow A 0 = {[]}"
| "conc_pow A (Suc k) = conc (conc_pow A k) A"

definition class_accepts :: "bool \<Rightarrow> classPart list \<Rightarrow> rune \<Rightarrow> bool" where
  "class_accepts neg ps r \<longleftrightarrow> list_ex (\<lambda>part. classPart_match part r) ps \<noteq> neg"

fun lang :: "patternNode \<Rightarrow> rune list set" where
  "lang EmptyNode = {[]}"
| "lang (LiteralNode c) = {[c]}"
| "lang AnyNode = {[r] | r. True}"
| "lang (ShorthandNode kind) = {[r] | r. matchShorthand kind r}"
| "lang (SequenceNode ns) = conc_list (map lang ns)"
| "lang (AlternationNode ns) = \<Union> (set (map lang ns))"
| "lang (RepeatNode n minimum maximum) =
     \<Union> {conc_pow (lang n) k | k. minimum \<le> int k \<and> (maximum < 0 \<or> int k \<le> maximum)}"
| "lang (ClassNode neg ps) = {[r] | r. class_accepts neg ps r}"

text \<open>The language the matcher recognises: a repetition counts non-empty copies only.\<close>

fun match_lang :: "patternNode \<Rightarrow> rune list set" where
  "match_lang (SequenceNode ns) = conc_list (map match_lang ns)"
| "match_lang (AlternationNode ns) = \<Union> (set (map match_lang ns))"
| "match_lang (RepeatNode n minimum maximum) =
     \<Union> {conc_pow (match_lang n - {[]}) k | k. minimum \<le> int k \<and> (maximum < 0 \<or> int k \<le> maximum)}"
| "match_lang n = lang n"

fun nullable :: "patternNode \<Rightarrow> bool" where
  "nullable EmptyNode \<longleftrightarrow> True"
| "nullable (SequenceNode ns) \<longleftrightarrow> list_all nullable ns"
| "nullable (AlternationNode ns) \<longleftrightarrow> list_ex nullable ns"
| "nullable (RepeatNode n minimum maximum) \<longleftrightarrow>
     (if minimum \<le> 0 then True else nullable n \<and> (maximum < 0 \<or> minimum \<le> maximum))"
| "nullable _ \<longleftrightarrow> False"

text \<open>Every repetition that must iterate at least once has a body that consumes something.\<close>

fun repeat_ok :: "patternNode \<Rightarrow> bool" where
  "repeat_ok (SequenceNode ns) \<longleftrightarrow> list_all repeat_ok ns"
| "repeat_ok (AlternationNode ns) \<longleftrightarrow> list_all repeat_ok ns"
| "repeat_ok (RepeatNode n minimum maximum) \<longleftrightarrow> repeat_ok n \<and> (minimum \<le> 0 \<or> \<not> nullable n)"
| "repeat_ok _ \<longleftrightarrow> True"

text \<open>What the parser guarantees of the nodes it builds.\<close>

fun classPart_wf :: "classPart \<Rightarrow> bool" where
  "classPart_wf (RangeClassPart lo hi) \<longleftrightarrow> lo \<le> hi"
| "classPart_wf _ \<longleftrightarrow> True"

fun node_wf :: "patternNode \<Rightarrow> bool" where
  "node_wf (SequenceNode ns) \<longleftrightarrow> 2 \<le> length ns \<and> list_all node_wf ns"
| "node_wf (AlternationNode ns) \<longleftrightarrow> 2 \<le> length ns \<and> list_all node_wf ns"
| "node_wf (RepeatNode n minimum maximum) \<longleftrightarrow>
     node_wf n \<and> 0 \<le> minimum \<and> minimum < 2 ^ 63 \<and> (maximum = - 1 \<or> minimum \<le> maximum \<and> maximum < 2 ^ 63)"
| "node_wf (ClassNode neg ps) \<longleftrightarrow> ps \<noteq> [] \<and> list_all classPart_wf ps"
| "node_wf _ \<longleftrightarrow> True"

section \<open>Positions\<close>

definition ends :: "rune list set \<Rightarrow> rune list \<Rightarrow> nat \<Rightarrow> nat set" where
  "ends A v p = {q. p \<le> q \<and> q \<le> length v \<and> take (q - p) (drop p v) \<in> A}"

lemma ends_bounds: "q \<in> ends A v p \<Longrightarrow> p \<le> q \<and> q \<le> length v"
  by (simp add: ends_def)

lemma ends_eps: "p \<le> length v \<Longrightarrow> ends {[]} v p = {p}"
  by (auto simp: ends_def)

lemma ends_Union: "ends (\<Union> \<A>) v p = (\<Union>A\<in>\<A>. ends A v p)"
  by (auto simp: ends_def)

lemma slice_split:
  assumes "p \<le> m" and "m \<le> q"
  shows "take (q - p) (drop p v) = take (m - p) (drop p v) @ take (q - m) (drop m v)"
proof -
  have "q - p = (m - p) + (q - m)" using assms by simp
  then have "take (q - p) (drop p v) = take (m - p) (drop p v) @ take (q - m) (drop (m - p) (drop p v))"
    by (simp only: take_add)
  then show ?thesis using assms by (simp add: drop_drop)
qed

lemma ends_conc: "ends (conc A B) v p = (\<Union>m\<in>ends A v p. ends B v m)"
proof (intro set_eqI iffI)
  fix q assume q: "q \<in> ends (conc A B) v p"
  then obtain u w where uw: "take (q - p) (drop p v) = u @ w" "u \<in> A" "w \<in> B"
    by (auto simp: ends_def conc_def)
  have pq: "p \<le> q" "q \<le> length v" using q by (auto simp: ends_def)
  let ?m = "p + length u"
  have len: "length u + length w = q - p"
    using arg_cong [OF uw(1), of length] pq by simp
  then have m: "p \<le> ?m" "?m \<le> q" using pq by auto
  then have "take (?m - p) (drop p v) @ take (q - ?m) (drop ?m v) = u @ w"
    using slice_split [of p ?m q v] uw(1) by simp
  moreover have "length (take (?m - p) (drop p v)) = length u" using pq m by simp
  ultimately have "take (?m - p) (drop p v) = u" and "take (q - ?m) (drop ?m v) = w"
    by (auto simp: append_eq_append_conv)
  then have "?m \<in> ends A v p" and "q \<in> ends B v ?m"
    using uw m pq by (auto simp: ends_def)
  then show "q \<in> (\<Union>m\<in>ends A v p. ends B v m)" by blast
next
  fix q assume "q \<in> (\<Union>m\<in>ends A v p. ends B v m)"
  then obtain m where m: "m \<in> ends A v p" "q \<in> ends B v m" by blast
  then have "take (q - p) (drop p v) = take (m - p) (drop p v) @ take (q - m) (drop m v)"
    by (intro slice_split) (auto simp: ends_def)
  with m show "q \<in> ends (conc A B) v p"
    by (auto simp: ends_def conc_def)
qed

lemma ends_nonempty: "p \<le> length v \<Longrightarrow> ends (A - {[]}) v p = ends A v p - {p}"
  by (auto simp: ends_def)

lemma ends_single:
  "p \<le> length v \<Longrightarrow>
     ends {[r] | r. P r} v p = (if p < length v \<and> P (v ! p) then {p + 1} else {})"
proof -
  assume p: "p \<le> length v"
  have "q \<in> ends {[r] | r. P r} v p \<longleftrightarrow> p < length v \<and> P (v ! p) \<and> q = p + 1" for q
  proof
    assume q: "q \<in> ends {[r] | r. P r} v p"
    then obtain r where r: "take (q - p) (drop p v) = [r]" "P r" by (auto simp: ends_def)
    have "q - p \<le> length v - p" using q by (auto simp: ends_def)
    then have "q - p = 1" using arg_cong [OF r(1), of length] by simp
    moreover from this have "p < length v" using q by (auto simp: ends_def)
    ultimately show "p < length v \<and> P (v ! p) \<and> q = p + 1"
      using r by (auto simp: take_Suc hd_drop_conv_nth)
  next
    assume "p < length v \<and> P (v ! p) \<and> q = p + 1"
    then show "q \<in> ends {[r] | r. P r} v p"
      by (auto simp: ends_def take_Suc hd_drop_conv_nth)
  qed
  then show ?thesis by auto
qed

lemma conc_pow_ends_length:
  "[] \<notin> A \<Longrightarrow> q \<in> ends (conc_pow A k) v p \<Longrightarrow> p + k \<le> q"
proof (induction k arbitrary: q)
  case 0
  then show ?case by (auto simp: ends_def)
next
  case (Suc k)
  then obtain m where m: "m \<in> ends (conc_pow A k) v p" "q \<in> ends A v m"
    by (auto simp: ends_conc)
  with Suc.prems(1) have "m \<noteq> q" by (auto simp: ends_def)
  with m Suc show ?case by (fastforce simp: ends_def)
qed

section \<open>The matcher computes the positions of its language\<close>

lemma set_uniquePositions_loop: "set (uniquePositions_loop seen ps) = set ps - seen"
  by (induction seen ps rule: uniquePositions_loop.induct) auto

lemma set_uniquePositions [simp]: "set (uniquePositions ps) = set ps"
  by (simp add: uniquePositions_def set_uniquePositions_loop)

lemma distinct_uniquePositions: "distinct (uniquePositions ps)"
proof -
  have "distinct (uniquePositions_loop seen ps)" for seen
    by (induction seen ps rule: uniquePositions_loop.induct) (auto simp: set_uniquePositions_loop)
  then show ?thesis
    by (auto simp: uniquePositions_def less_2_cases_iff length_Suc_conv)
qed

lemma set_sequence_loop:
  assumes "\<And>f A p. (f, A) \<in> set (zip fs As) \<Longrightarrow> p \<le> length v \<Longrightarrow> set (f p) = ends A v p"
    and "length fs = length As" and "set ps \<subseteq> {..length v}"
  shows "set (sequence_loop fs ps) = (\<Union>p\<in>set ps. ends (conc_list As) v p)"
  using assms
proof (induction fs arbitrary: As ps)
  case Nil
  then have "ends (conc_list As) v p = {p}" if "p \<in> set ps" for p
    using that by (auto simp: ends_eps)
  then show ?case by simp
next
  case (Cons f fs)
  from Cons.prems(2) obtain A As' where As: "As = A # As'" by (cases As) auto
  let ?next = "uniquePositions (concat (map f ps))"
  have f: "set (f p) = ends A v p" if "p \<in> set ps" for p
    using Cons.prems(1) [of f A p] Cons.prems(3) that by (auto simp: As)
  then have nxt: "set ?next = (\<Union>p\<in>set ps. ends A v p)" by simp
  then have sub: "set ?next \<subseteq> {..length v}" by (auto dest: ends_bounds)
  have "set (sequence_loop fs ?next) = (\<Union>p\<in>set ?next. ends (conc_list As') v p)"
    using Cons.prems sub by (intro Cons.IH) (auto simp: As)
  then have "set (sequence_loop (f # fs) ps) = (\<Union>p\<in>set ?next. ends (conc_list As') v p)"
    using nxt by (cases "?next = []") (simp_all add: Let_def del: set_uniquePositions)
  also have "\<dots> = (\<Union>p\<in>set ps. ends (conc_list As) v p)"
    unfolding nxt by (simp add: As ends_conc)
  finally show ?case .
qed

lemma set_repeat_next:
  assumes "\<And>p. p \<le> length v \<Longrightarrow> set (f p) = ends A v p"
    and "set ps = ends (conc_pow (A - {[]}) k) v p0"
  shows "set (repeat_next f ps) = ends (conc_pow (A - {[]}) (Suc k)) v p0"
proof -
  have "set (filter (\<lambda>q. q \<noteq> p) (f p)) = ends (A - {[]}) v p" if "p \<in> set ps" for p
    using assms that by (auto simp: ends_nonempty dest: ends_bounds)
  then show ?thesis
    using assms(2) by (auto simp: repeat_next_def ends_conc)
qed

lemma ends_pow_empty:
  assumes "ends (conc_pow A k) v p = {}" and "k \<le> j"
  shows "ends (conc_pow A j) v p = {}"
  using assms(2)
  by (induction j rule: dec_induct) (simp_all add: assms(1) ends_conc)

lemma repeat_range_step:
  "int k \<le> limit \<Longrightarrow> (\<exists>j. int k \<le> int j \<and> int j \<le> limit \<and> P j) \<longleftrightarrow>
     P k \<or> (\<exists>j. int (Suc k) \<le> int j \<and> int j \<le> limit \<and> P j)"
proof -
  assume "int k \<le> limit"
  moreover have "int k \<le> int j \<longleftrightarrow> j = k \<or> int (Suc k) \<le> int j" for j by auto
  ultimately show ?thesis by metis
qed

lemma set_repeat_loop:
  assumes "\<And>p. p \<le> length v \<Longrightarrow> set (f p) = ends A v p"
    and "count = int k" and "set current = ends (conc_pow (A - {[]}) k) v p0"
  shows "set (repeat_loop f minimum limit count current accepted) =
    set accepted \<union> {q. \<exists>j. int k \<le> int j \<and> int j \<le> limit \<and>
      (minimum \<le> int j \<and> q \<in> ends (conc_pow (A - {[]}) j) v p0)}"
  using assms
proof (induction f minimum limit count current accepted arbitrary: k rule: repeat_loop.induct)
  case (1 f minimum limit count current accepted)
  let ?acc = "if minimum \<le> count then accepted @ current else accepted"
  let ?next = "repeat_next f current"
  let ?E = "\<lambda>j. ends (conc_pow (A - {[]}) j) v p0"
  define R where "R k = {q. \<exists>j. int k \<le> int j \<and> int j \<le> limit \<and> (minimum \<le> int j \<and> q \<in> ?E j)}" for k
  note unfold = repeat_loop.simps [of f minimum limit count current accepted] Let_def
  have nxt: "set ?next = ?E (Suc k)"
    using set_repeat_next [of v f A current k p0] "1.prems" by blast
  have step: "set accepted \<union> R k = set ?acc \<union> R (Suc k)" if "\<not> limit < count"
    using that repeat_range_step [of k limit] "1.prems"(2,3) by (auto simp: R_def)
  have "set (repeat_loop f minimum limit count current accepted) = set accepted \<union> R k"
  proof (cases "limit < count")
    case True
    then have "R k = {}" using "1.prems"(2) by (auto simp: R_def)
    with True show ?thesis by (simp add: unfold)
  next
    case False
    consider "count = limit" | "count \<noteq> limit" "?next = []" | "count \<noteq> limit" "?next \<noteq> []"
      by blast
    then show ?thesis
    proof cases
      case 1
      then have "R (Suc k) = {}" using \<open>count = int k\<close> by (auto simp: R_def)
      with 1 step [OF False] show ?thesis unfolding unfold by simp
    next
      case 2
      then have "?E j = {}" if "Suc k \<le> j" for j
        using nxt ends_pow_empty [OF _ that] by simp
      then have "R (Suc k) = {}" by (auto simp: R_def)
      with 2 False step [OF False] show ?thesis by (simp add: unfold)
    next
      case 3
      have "set (repeat_loop f minimum limit (count + 1) ?next ?acc) = set ?acc \<union> R (Suc k)"
        using "1.IH" [OF False refl 3(1) refl 3(2) "1.prems"(1), of "Suc k"] "1.prems"(2) nxt
        by (simp add: R_def)
      with 3 False step [OF False] show ?thesis by (simp add: unfold)
    qed
  qed
  then show ?case by (simp only: R_def)
qed

lemma repeat_limit_exact:
  assumes "q \<in> ends (conc_pow (A - {[]}) j) v p" and "minimum \<le> int j" and "0 \<le> minimum"
    and "length v < 2 ^ 62"
  shows "int j \<le> repeat_limit minimum maximum (length v) p \<longleftrightarrow> maximum < 0 \<or> int j \<le> maximum"
proof -
  have j: "p + j \<le> length v"
    using conc_pow_ends_length [of "A - {[]}" q j v p] assms(1) ends_bounds by fastforce
  then have "int64 (int (length v) - int p + minimum) = int (length v) - int p + minimum"
    using assms(2-4) by (intro int64_id) auto
  with j assms(3) show ?thesis by (auto simp: repeat_limit_def Let_def)
qed

lemma node_match_positions:
  assumes "node_wf n" and "length v < 2 ^ 62" and "p \<le> length v"
  shows "set (node_match n v p) = ends (match_lang n) v p"
  using assms
proof (induction n v p rule: node_match.induct)
  case (1 v p)
  then show ?case by (simp add: ends_eps)
next
  case (2 c v p)
  then show ?case using ends_single [of p v "\<lambda>r. r = c"] by simp
next
  case (3 v p)
  then show ?case using ends_single [of p v "\<lambda>r. True"] by simp
next
  case (4 kind v p)
  then show ?case using ends_single [of p v "matchShorthand kind"] by simp
next
  case (5 ns v p)
  have "set (sequence_loop (map (\<lambda>n. node_match n v) ns) [p]) =
    (\<Union>p\<in>set [p]. ends (conc_list (map match_lang ns)) v p)"
    using 5 by (intro set_sequence_loop) (auto simp: set_zip list_all_length)
  then show ?case by simp
next
  case (6 ns v p)
  then have "set (node_match n v p) = ends (match_lang n) v p" if "n \<in> set ns" for n
    using that by (auto simp: list_all_iff)
  then show ?case by (auto simp: ends_Union)
next
  case (7 n minimum maximum v p)
  have "set (repeat_loop (node_match n v) minimum (repeat_limit minimum maximum (length v) p) 0 [p] []) =
    set [] \<union> {q. \<exists>j. int 0 \<le> int j \<and> int j \<le> repeat_limit minimum maximum (length v) p \<and>
      (minimum \<le> int j \<and> q \<in> ends (conc_pow (match_lang n - {[]}) j) v p)}"
    using 7 by (intro set_repeat_loop) (auto simp: ends_eps)
  also have "\<dots> = ends (match_lang (RepeatNode n minimum maximum)) v p"
    using repeat_limit_exact [of _ "match_lang n" _ v p minimum maximum] 7(2-)
    by (auto simp: ends_Union)
  finally show ?case by simp
next
  case (8 neg ps v p)
  then show ?case using ends_single [of p v "class_accepts neg ps"] by (simp add: class_accepts_def)
qed

lemma compiledPattern_match_lang:
  assumes "node_wf root" and "length v < 2 ^ 62"
  shows "compiledPattern_match root v \<longleftrightarrow> v \<in> match_lang root"
  using node_match_positions [OF assms, of 0]
  by (simp add: compiledPattern_match_def list_ex_iff ends_def)

section \<open>The language of the matcher against the reference semantics\<close>

lemma conc_mono: "A \<subseteq> C \<Longrightarrow> B \<subseteq> D \<Longrightarrow> conc A B \<subseteq> conc C D"
  by (auto simp: conc_def)

lemma conc_pow_mono: "A \<subseteq> B \<Longrightarrow> conc_pow A k \<subseteq> conc_pow B k"
  by (induction k) (auto dest: conc_mono)

lemma conc_list_mono: "list_all2 (\<subseteq>) As Bs \<Longrightarrow> conc_list As \<subseteq> conc_list Bs"
  by (induction rule: list_all2_induct) (simp_all add: conc_mono)

lemma match_lang_sub_lang: "match_lang n \<subseteq> lang n"
proof (induction n rule: match_lang.induct)
  case (1 ns)
  then show ?case by (auto simp: list_all2_conv_all_nth intro!: conc_list_mono)
next
  case (3 n minimum maximum)
  then have "conc_pow (match_lang n - {[]}) k \<subseteq> conc_pow (lang n) k" for k
    by (intro conc_pow_mono) auto
  then show ?case by fastforce
qed auto

lemma conc_eps_iff: "[] \<in> conc A B \<longleftrightarrow> [] \<in> A \<and> [] \<in> B"
  by (auto simp: conc_def)

lemma conc_pow_eps_iff: "[] \<in> conc_pow A k \<longleftrightarrow> k = 0 \<or> [] \<in> A"
  by (induction k) (auto simp: conc_eps_iff)

lemma conc_list_eps_iff: "[] \<in> conc_list As \<longleftrightarrow> (\<forall>A\<in>set As. [] \<in> A)"
  by (induction As) (auto simp: conc_eps_iff)

lemma nullable_iff: "nullable n \<longleftrightarrow> [] \<in> lang n"
proof (induction n rule: nullable.induct)
  case (4 n minimum maximum)
  have "[] \<in> lang (RepeatNode n minimum maximum) \<longleftrightarrow>
    (\<exists>k. minimum \<le> int k \<and> (maximum < 0 \<or> int k \<le> maximum) \<and> (k = 0 \<or> [] \<in> lang n))"
    by (auto simp: conc_pow_eps_iff)
  also have "\<dots> \<longleftrightarrow> nullable (RepeatNode n minimum maximum)"
  proof (cases "minimum \<le> 0")
    case True
    then show ?thesis by (auto intro: exI [of _ 0])
  next
    case False
    then show ?thesis using 4 by (auto intro: exI [of _ "nat minimum"])
  qed
  finally show ?case ..
qed (auto simp: conc_list_eps_iff list_all_iff list_ex_iff)

lemma conc_pow_drop_eps: "w \<in> conc_pow A k \<Longrightarrow> \<exists>j\<le>k. w \<in> conc_pow (A - {[]}) j"
proof (induction k arbitrary: w)
  case (Suc k)
  then obtain u x where w: "w = u @ x" "u \<in> conc_pow A k" "x \<in> A"
    by (auto simp: conc_def)
  with Suc.IH obtain j where j: "j \<le> k" "u \<in> conc_pow (A - {[]}) j" by blast
  show ?case
  proof (cases "x = []")
    case True
    then show ?thesis using w j by (auto intro: le_SucI)
  next
    case False
    with w j have "w \<in> conc_pow (A - {[]}) (Suc j)" by (auto simp: conc_def)
    with j(1) show ?thesis by (meson Suc_le_mono)
  qed
qed auto

lemma match_lang_eq_lang: "repeat_ok n \<Longrightarrow> match_lang n = lang n"
proof (induction n rule: repeat_ok.induct)
  case (1 ns)
  then have "map match_lang ns = map lang ns" by (auto simp: list_all_iff)
  then show ?case by (simp only: match_lang.simps lang.simps)
next
  case (2 ns)
  then have "map match_lang ns = map lang ns" by (auto simp: list_all_iff)
  then show ?case by (simp only: match_lang.simps lang.simps)
next
  case (3 n minimum maximum)
  then have eq: "match_lang n = lang n" by simp
  show ?case
  proof (cases "nullable n")
    case True
    with 3 have minimum: "minimum \<le> 0" by simp
    have "lang (RepeatNode n minimum maximum) \<subseteq> match_lang (RepeatNode n minimum maximum)"
    proof
      fix w assume "w \<in> lang (RepeatNode n minimum maximum)"
      then obtain k where k: "w \<in> conc_pow (lang n) k" "maximum < 0 \<or> int k \<le> maximum" by auto
      then obtain j where "j \<le> k" "w \<in> conc_pow (lang n - {[]}) j"
        using conc_pow_drop_eps by blast
      with k(2) minimum eq show "w \<in> match_lang (RepeatNode n minimum maximum)"
        by (auto intro!: exI [of _ "conc_pow (lang n - {[]}) j"] exI [of _ j])
    qed
    with match_lang_sub_lang show ?thesis by blast
  next
    case False
    then have "lang n - {[]} = lang n" by (simp add: nullable_iff)
    with eq show ?thesis by simp
  qed
qed auto


section \<open>The parser\<close>

lemma parseEscape_suffix: "parseEscape rest = Inr (n, rest') \<Longrightarrow> length rest' \<le> length rest"
  by (cases rest) (auto split: if_splits)

text \<open>
  The equation of the class loop by cases of its result, shared by the proofs about it: either the
  class is closed, or one or two parts are read and the loop goes on with what is left.
\<close>

lemma parseClassPart_error: "parseClassPart rest = Inl e \<Longrightarrow> e \<noteq> OutOfFuel"
  by (cases rest) (auto split: if_splits list.splits)

lemma parseClass_loop_step:
  assumes "parseClass_loop neg acc rest = res"
  obtains (close) "rest \<noteq> []" "acc \<noteq> []" "res = Inr (ClassNode neg acc, tl rest)"
  | (part) p b rest1 where "parseClassPart rest = Inr ((p, b), rest1)"
      "res = parseClass_loop neg (acc @ [p]) rest1"
  | (range) p q rest1 rest2 where "parseClassPart rest = Inr ((p, True), rest1)" "1 < length rest1"
      "parseClassPart (tl rest1) = Inr ((q, True), rest2)" "classPart_rune p \<le> classPart_rune q"
      "res = parseClass_loop neg (acc @ [RangeClassPart (classPart_rune p) (classPart_rune q)]) rest2"
  | (error) e where "res = Inl e" "e \<noteq> OutOfFuel"
  using assms unfolding parseClass_loop.simps [of neg acc rest]
  by (auto split: if_splits sum.splits prod.splits dest: parseClassPart_error simp: not_less)

definition class_post :: "classPart list \<Rightarrow> rune list \<Rightarrow> patternNode patternResult \<Rightarrow> bool" where
  "class_post acc rest res \<longleftrightarrow>
     (case res of
        Inl e \<Rightarrow> e \<noteq> OutOfFuel
      | Inr (n, rest') \<Rightarrow> length rest' < length rest \<and> (list_all classPart_wf acc \<longrightarrow> node_wf n))"

lemma parseClassPart_wf: "parseClassPart rest = Inr ((p, b), rest') \<Longrightarrow> classPart_wf p"
  by (cases rest) (auto split: if_splits list.splits)

lemma parseClass_loop_post: "class_post acc rest (parseClass_loop neg acc rest)"
proof (induction rest arbitrary: acc rule: length_induct)
  case (1 rest)
  from refl [of "parseClass_loop neg acc rest"] show ?case
  proof (cases rule: parseClass_loop_step)
    case (part p b rest1)
    then have "length rest1 < length rest" by (auto dest: parseClassPart_decreasing)
    with 1 part parseClassPart_wf [OF part(1)] show ?thesis
      by (fastforce simp: class_post_def split: sum.splits)
  next
    case (range p q rest1 rest2)
    then have "length rest2 < length rest"
      by (auto dest!: parseClassPart_decreasing)
    with 1 range show ?thesis
      by (fastforce simp: class_post_def split: sum.splits)
  qed (auto simp: class_post_def)
qed

lemma parseClass_post: "class_post [] rest (parseClass rest) \<or> rest \<noteq> [] \<and> class_post [] (tl rest) (parseClass rest)"
  by (simp add: parseClass_def parseClass_loop_post)

lemma parseClass_suffix: "parseClass rest = Inr (n, rest') \<Longrightarrow> length rest' \<le> length rest"
  using parseClass_post [of rest] by (auto simp: class_post_def)

lemma parseClass_error: "parseClass rest = Inl e \<Longrightarrow> e \<noteq> OutOfFuel"
  using parseClass_post [of rest] by (auto simp: class_post_def)

lemma parseClass_wf: "parseClass rest = Inr (n, rest') \<Longrightarrow> node_wf n"
  using parseClass_post [of rest] by (auto simp: class_post_def)

lemma readBraceQuantifier_suffix:
  "readBraceQuantifier rest = Inr (Some (lo, hi, rest')) \<Longrightarrow> length rest' \<le> length rest"
  by (auto simp: readBraceQuantifier_def Let_def split: if_splits sum.splits)
    (metis diff_le_self dropWhile_eq_drop le_trans length_drop length_tl)+

lemma readQuantifier_suffix:
  "rest \<noteq> [] \<Longrightarrow> readQuantifier rest = Inr (Some (lo, hi, rest')) \<Longrightarrow> length rest' \<le> length rest"
  by (auto simp: readQuantifier_def split: if_splits dest!: readBraceQuantifier_suffix)

lemma parseQuantifier_suffix:
  "parseQuantifier atom rest = Inr (n, rest') \<Longrightarrow> length rest' \<le> length rest"
  by (auto simp: parseQuantifier_def split: if_splits sum.splits option.splits
      dest: readQuantifier_suffix)

lemma parse_suffix:
  "parseExpression fuel stop alts rest = Inr (n, rest') \<Longrightarrow> length rest' \<le> length rest"
  "parseSequence fuel stop nodes rest = Inr (n, rest') \<Longrightarrow> length rest' \<le> length rest"
  "parseAtom fuel rest = Inr (n, rest') \<Longrightarrow> length rest' < length rest"
  "parseGroup fuel rest = Inr (n, rest') \<Longrightarrow> length rest' \<le> length rest"
proof (induction fuel stop alts rest and fuel stop nodes rest and fuel rest and fuel rest
    arbitrary: n rest' and n rest' and n rest' and n rest'
    rule: parseExpression_parseSequence_parseAtom_parseGroup.induct)
  case (2 fuel stop alts rest)
  from "2.prems" obtain s rest1 where s: "parseSequence fuel stop [] rest = Inr (s, rest1)"
    by (auto split: sum.splits)
  then have "length rest1 \<le> length rest" by (rule "2.IH"(1))
  with "2.prems" s "2.IH"(2) [OF s refl] show ?case
    by (auto split: if_splits)
next
  case (4 fuel stop nodes rest)
  show ?case
  proof (cases "finish_sequence nodes = n \<and> rest' = rest")
    case False
    with "4.prems" obtain atom rest1 atom' rest2 where
      atom: "parseAtom fuel rest = Inr (atom, rest1)"
        "parseQuantifier atom rest1 = Inr (atom', rest2)"
        "parseSequence fuel stop (nodes @ [atom']) rest2 = Inr (n, rest')"
      and guards: "rest \<noteq> []" "\<not> (hd rest = ch CHR ''|'' \<or> stop \<noteq> 0 \<and> hd rest = stop)"
        "\<not> (hd rest = ch CHR '')'' \<and> stop = 0)" "\<not> in_runes (hd rest) ''*+?}''"
      by (auto split: if_splits sum.splits prod.splits)
    from "4.IH"(1) [OF guards atom(1)] parseQuantifier_suffix [OF atom(2)]
      "4.IH"(2) [OF guards atom(1) refl atom(2) refl atom(3)]
    show ?thesis by simp
  qed simp
next
  case (6 fuel rest)
  from "6.prems" "6.IH" show ?case
    by (cases rest) (auto split: if_splits dest!: parseEscape_suffix parseClass_suffix)
next
  case (8 fuel rest)
  from "8.prems" "8.IH" show ?case
    by (auto split: if_splits sum.splits prod.splits)
      (metis One_nat_def diff_le_self dual_order.trans length_tl)+
qed auto


lemma parseQuantifier_error: "parseQuantifier atom rest = Inl e \<Longrightarrow> e \<noteq> OutOfFuel"
  by (auto simp: parseQuantifier_def readQuantifier_def readBraceQuantifier_def Let_def
      split: if_splits sum.splits option.splits)

lemma parseEscape_error: "parseEscape rest = Inl e \<Longrightarrow> e \<noteq> OutOfFuel"
  by (cases rest) (auto split: if_splits)

lemma parse_fuel_enough:
  "4 * length rest + 3 \<le> fuel \<Longrightarrow> parseExpression fuel stop alts rest \<noteq> Inl OutOfFuel"
  "4 * length rest + 2 \<le> fuel \<Longrightarrow> parseSequence fuel stop nodes rest \<noteq> Inl OutOfFuel"
  "4 * length rest + 1 \<le> fuel \<Longrightarrow> parseAtom fuel rest \<noteq> Inl OutOfFuel"
  "4 * length rest + 4 \<le> fuel \<Longrightarrow> parseGroup fuel rest \<noteq> Inl OutOfFuel"
proof (induction fuel stop alts rest and fuel stop nodes rest and fuel rest and fuel rest
    rule: parseExpression_parseSequence_parseAtom_parseGroup.induct)
  case (2 fuel stop alts rest)
  show ?case
  proof (cases "parseSequence fuel stop [] rest")
    case (Inl e)
    then show ?thesis using 2 by auto
  next
    case (Inr x)
    obtain s rest1 where x: "x = (s, rest1)" by (cases x)
    with Inr have "length rest1 \<le> length rest" by (auto dest: parse_suffix(2))
    then show ?thesis using Inr x 2 by (cases rest1) auto
  qed
next
  case (4 fuel stop nodes rest)
  have IH1: "parseAtom fuel rest \<noteq> Inl OutOfFuel" if "rest \<noteq> []"
    "\<not> (hd rest = ch CHR ''|'' \<or> stop \<noteq> 0 \<and> hd rest = stop)"
    "\<not> (hd rest = ch CHR '')'' \<and> stop = 0)" "\<not> in_runes (hd rest) ''*+?}''"
    using "4.IH"(1) [OF that] "4.prems" by simp
  show ?case
  proof
    assume fail: "parseSequence (Suc fuel) stop nodes rest = Inl OutOfFuel"
    then obtain atom rest1 atom' rest2 where
      atom: "parseAtom fuel rest = Inr (atom, rest1)"
        "parseQuantifier atom rest1 = Inr (atom', rest2)"
        "parseSequence fuel stop (nodes @ [atom']) rest2 = Inl OutOfFuel"
      and guards: "rest \<noteq> []" "\<not> (hd rest = ch CHR ''|'' \<or> stop \<noteq> 0 \<and> hd rest = stop)"
        "\<not> (hd rest = ch CHR '')'' \<and> stop = 0)" "\<not> in_runes (hd rest) ''*+?}''"
      using IH1 by (auto split: if_splits sum.splits prod.splits dest: parseQuantifier_error)
    have "length rest2 < length rest"
      using parse_suffix(3) [OF atom(1)] parseQuantifier_suffix [OF atom(2)] by simp
    with "4.IH"(2) [OF guards atom(1) refl atom(2) refl] atom(3) "4.prems" show False by simp
  qed
next
  case (6 fuel rest)
  show ?case
  proof (cases rest)
    case (Cons c rest1)
    then have "parseGroup fuel rest1 \<noteq> Inl OutOfFuel" if "c = ch CHR ''(''"
      using "6.IH" "6.prems" that by simp
    with Cons show ?thesis by (auto dest: parseEscape_error parseClass_error)
  qed simp
next
  case (8 fuel rest)
  let ?open = "if rest \<noteq> [] \<and> hd rest = ch CHR ''?''
            then (if tl rest = [] \<or> hd (tl rest) \<noteq> ch CHR '':'' then Inl UnsupportedGroupOperator
                  else Inr (tl (tl rest)))
            else Inr rest"
  show ?case
  proof (cases ?open)
    case (Inl e)
    then have "e \<noteq> OutOfFuel" by (auto split: if_splits)
    with Inl show ?thesis by (auto split: if_splits)
  next
    case (Inr rest1)
    then have "length rest1 \<le> length rest" by (auto split: if_splits)
    with "8.IH" [OF Inr] "8.prems" have "parseExpression fuel (ch CHR '')'') [] rest1 \<noteq> Inl OutOfFuel"
      by simp
    with Inr show ?thesis by (auto split: if_splits sum.splits prod.splits)
  qed
qed auto

lemma parseSequence_stop0:
  "parseSequence fuel 0 nodes rest = Inr (n, rest') \<Longrightarrow> rest' = [] \<or> hd rest' = ch CHR ''|''"
proof (induction fuel arbitrary: nodes rest)
  case (Suc fuel)
  from Suc.prems show ?case
    by (auto split: if_splits sum.splits prod.splits dest: Suc.IH)
qed simp

lemma parseExpression_stop0: "parseExpression fuel 0 alts rest = Inr (n, rest') \<Longrightarrow> rest' = []"
proof (induction fuel arbitrary: alts rest)
  case (Suc fuel)
  from Suc.prems show ?case
    by (auto split: if_splits sum.splits prod.splits dest: Suc.IH parseSequence_stop0)
qed simp


lemma rune_digits_props:
  assumes "list_all isASCIIDigit ds"
  shows "list_all is_digit (rune_digits ds)"
    and "rune_digits ds = [] \<or> hd (rune_digits ds) \<notin> {CHR ''-'', CHR ''+''}"
proof -
  have r: "of_char (char_of r :: char) = r" if "isASCIIDigit r" for r :: int
    using that by (simp add: isASCIIDigit_def)
  then show "list_all is_digit (rune_digits ds)"
    using assms by (auto simp: rune_digits_def list_all_iff is_digit_def isASCIIDigit_def)
  have "char_of r \<noteq> c" if digit: "isASCIIDigit r" and c: "of_char c < (48 :: int)" for r :: int and c
  proof
    assume "char_of r = c"
    then have "r = of_char c" using r [OF digit] by metis
    with digit c show False by (simp add: isASCIIDigit_def)
  qed
  then show "rune_digits ds = [] \<or> hd (rune_digits ds) \<notin> {CHR ''-'', CHR ''+''}"
    using assms by (cases ds) (auto simp: rune_digits_def)
qed

lemma Atoi_rune_digits:
  assumes "list_all isASCIIDigit ds" and "Atoi (rune_digits ds) = Inr n"
  shows "0 \<le> n \<and> n < 2 ^ 63"
proof -
  from assms rune_digits_props [OF assms(1)] have "n = digits_val (rune_digits ds)"
    by (auto simp: Atoi_def parse_int_def Let_def split: if_splits)
  moreover from assms(2) have "n < 2 ^ 63"
    using parse_int_bounds [of 64 "rune_digits ds" n] by (simp add: Atoi_def)
  ultimately show ?thesis
    using digits_val_nonneg [OF rune_digits_props(1) [OF assms(1)]] by simp
qed

lemma all_takeWhile: "list_all P (takeWhile P xs)"
  by (induction xs) auto

lemma readBraceQuantifier_wf:
  "readBraceQuantifier rest = Inr (Some (lo, hi, rest')) \<Longrightarrow>
     0 \<le> lo \<and> lo < 2 ^ 63 \<and> (hi = - 1 \<or> lo \<le> hi \<and> hi < 2 ^ 63)"
  by (auto simp: readBraceQuantifier_def Let_def split: if_splits sum.splits
      dest!: Atoi_rune_digits [OF all_takeWhile])

lemma parseQuantifier_wf:
  "node_wf atom \<Longrightarrow> parseQuantifier atom rest = Inr (n, rest') \<Longrightarrow> node_wf n"
  by (auto simp: parseQuantifier_def readQuantifier_def split: if_splits sum.splits option.splits
      dest!: readBraceQuantifier_wf)

lemma finish_sequence_wf: "list_all node_wf ns \<Longrightarrow> node_wf (finish_sequence ns)"
  by (auto simp: finish_sequence_def split: list.splits)

lemma finish_expression_wf: "ns \<noteq> [] \<Longrightarrow> list_all node_wf ns \<Longrightarrow> node_wf (finish_expression ns)"
  by (auto simp: finish_expression_def split: list.splits)

lemma parseEscape_wf: "parseEscape rest = Inr (n, rest') \<Longrightarrow> node_wf n"
  by (cases rest) (auto split: if_splits)

lemma parse_wf:
  "list_all node_wf alts \<Longrightarrow> parseExpression fuel stop alts rest = Inr (n, rest') \<Longrightarrow> node_wf n"
  "list_all node_wf nodes \<Longrightarrow> parseSequence fuel stop nodes rest = Inr (n, rest') \<Longrightarrow> node_wf n"
  "parseAtom fuel rest = Inr (n, rest') \<Longrightarrow> node_wf n"
  "parseGroup fuel rest = Inr (n, rest') \<Longrightarrow> node_wf n"
proof (induction fuel stop alts rest and fuel stop nodes rest and fuel rest and fuel rest
    arbitrary: n rest' and n rest' and n rest' and n rest'
    rule: parseExpression_parseSequence_parseAtom_parseGroup.induct)
  case (2 fuel stop alts rest)
  from "2.prems"(2) obtain s rest1 where s: "parseSequence fuel stop [] rest = Inr (s, rest1)"
    by (auto split: sum.splits)
  then have "node_wf s" using "2.IH"(1) by simp
  with "2.prems" s "2.IH"(2) [OF s refl] show ?case
    by (auto split: if_splits intro: finish_expression_wf)
next
  case (4 fuel stop nodes rest)
  show ?case
  proof (cases "n = finish_sequence nodes")
    case False
    with "4.prems" obtain atom rest1 atom' rest2 where
      atom: "parseAtom fuel rest = Inr (atom, rest1)"
        "parseQuantifier atom rest1 = Inr (atom', rest2)"
        "parseSequence fuel stop (nodes @ [atom']) rest2 = Inr (n, rest')"
      and guards: "rest \<noteq> []" "\<not> (hd rest = ch CHR ''|'' \<or> stop \<noteq> 0 \<and> hd rest = stop)"
        "\<not> (hd rest = ch CHR '')'' \<and> stop = 0)" "\<not> in_runes (hd rest) ''*+?}''"
      by (auto split: if_splits sum.splits prod.splits)
    from "4.IH"(1) [OF guards atom(1)] have "node_wf atom'"
      using parseQuantifier_wf [OF _ atom(2)] by simp
    with "4.IH"(2) [OF guards atom(1) refl atom(2) refl _ atom(3)] "4.prems"(1)
    show ?thesis by simp
  qed (use "4.prems" finish_sequence_wf in simp)
next
  case (6 fuel rest)
  then show ?case
    by (cases rest) (auto split: if_splits dest: parseEscape_wf parseClass_wf)
next
  case (8 fuel rest)
  then show ?case
    by (auto split: if_splits sum.splits prod.splits)
qed auto

section \<open>Properties of the entry points\<close>

lemma compilePattern_wf: "compilePattern pattern = Inr root \<Longrightarrow> node_wf root"
  by (auto simp: compilePattern_def Let_def split: sum.splits prod.splits if_splits
      dest: parse_wf(1) [of "[]", simplified])

text \<open>The error "unexpected pattern token" of \<open>compilePattern\<close> is not one of the parser's.\<close>

lemma parseClass_loop_no_token: "parseClass_loop neg acc rest \<noteq> Inl (UnexpectedToken r)"
proof (induction rest arbitrary: acc rule: length_induct)
  case (1 rest)
  have part: "parseClassPart xs \<noteq> Inl (UnexpectedToken r)" for xs
    by (cases xs) (auto split: list.splits)
  then show ?case
    unfolding parseClass_loop.simps [of neg acc rest] using 1
    by (auto split: sum.splits prod.splits dest!: parseClassPart_decreasing)
qed

lemma parse_no_token:
  "parseExpression fuel stop alts rest \<noteq> Inl (UnexpectedToken r)"
  "parseSequence fuel stop nodes rest \<noteq> Inl (UnexpectedToken r)"
  "parseAtom fuel rest \<noteq> Inl (UnexpectedToken r)"
  "parseGroup fuel rest \<noteq> Inl (UnexpectedToken r)"
proof (induction fuel stop alts rest and fuel stop nodes rest and fuel rest and fuel rest
    rule: parseExpression_parseSequence_parseAtom_parseGroup.induct)
  case (4 fuel stop nodes rest)
  have quantifier: "parseQuantifier atom xs \<noteq> Inl (UnexpectedToken r)" for atom xs
    by (auto simp: parseQuantifier_def readQuantifier_def readBraceQuantifier_def Let_def
        split: if_splits sum.splits option.splits)
  with 4 show ?case by (auto split: sum.splits prod.splits)
next
  case (6 fuel rest)
  have "parseEscape xs \<noteq> Inl (UnexpectedToken r)" for xs by (cases xs) auto
  with 6 show ?case by (auto simp: parseClass_def parseClass_loop_no_token)
qed (auto split: sum.splits prod.splits)

text \<open>
  C1: for every pattern that compiles and whose counted repetitions have bodies that consume
  something, \<open>MatchPattern\<close> answers whether the whole value is in the language of the pattern.
\<close>

theorem MatchPattern_correct:
  assumes "compilePattern pattern = Inr root" and "repeat_ok root" and "length (runes value) < 2 ^ 62"
  shows "MatchPattern pattern value = Inr (runes value \<in> lang root)"
  using assms compiledPattern_match_lang [OF compilePattern_wf [OF assms(1)] assms(3)]
  by (simp add: MatchPattern_def match_lang_eq_lang)

text \<open>
  Whatever the pattern, a value the matcher accepts is in the language of the pattern.
\<close>

theorem MatchPattern_sound:
  assumes "compilePattern pattern = Inr root" and "length (runes value) < 2 ^ 62"
    and "MatchPattern pattern value = Inr True"
  shows "runes value \<in> lang root"
  using assms compiledPattern_match_lang [OF compilePattern_wf [OF assms(1)] assms(2)]
    match_lang_sub_lang [of root]
  by (auto simp: MatchPattern_def)

text \<open>
  Compiling a pattern always ends with a node or with an error of the parser: the bound on the
  recursion is never reached and no rune of the pattern is left over, so the error "unexpected
  pattern token" cannot happen.
\<close>

theorem compilePattern_total:
  "compilePattern pattern \<noteq> Inl OutOfFuel \<and> compilePattern pattern \<noteq> Inl (UnexpectedToken r)"
proof -
  let ?src = "strip_anchors (runes pattern)"
  have "parseExpression (pattern_fuel ?src) 0 [] ?src \<noteq> Inl OutOfFuel"
    by (rule parse_fuel_enough) (simp add: pattern_fuel_def)
  then show ?thesis
    using parse_no_token(1) parseExpression_stop0
    by (auto simp: compilePattern_def Let_def split: sum.splits prod.splits)
qed

text \<open>
  A counted repetition of a body that can match the empty sequence denotes the empty sequence,
  but the matcher rejects it: iterations that consume nothing are dropped before they are counted.
\<close>

theorem repeat_rejects_empty:
  assumes "node_wf (RepeatNode n minimum maximum)" and "nullable n" and "1 \<le> minimum"
  shows "[] \<in> lang (RepeatNode n minimum maximum) \<and> \<not> compiledPattern_match (RepeatNode n minimum maximum) []"
proof
  have "nullable (RepeatNode n minimum maximum)" using assms by auto
  then show "[] \<in> lang (RepeatNode n minimum maximum)" by (simp only: nullable_iff)
  have "[] \<notin> conc_pow (match_lang n - {[]}) k" if "minimum \<le> int k" for k
    using that assms(3) by (simp add: conc_pow_eps_iff)
  then have "[] \<notin> match_lang (RepeatNode n minimum maximum)" by auto
  then show "\<not> compiledPattern_match (RepeatNode n minimum maximum) []"
    using compiledPattern_match_lang [OF assms(1), of "[]"] by simp
qed

theorem repeat_rejects_empty_witness:
  "compilePattern ''(a?){2}'' = Inr (RepeatNode (RepeatNode (LiteralNode 97) 0 1) 2 2) \<and>
   [] \<in> lang (RepeatNode (RepeatNode (LiteralNode 97) 0 1) 2 2) \<and>
   \<not> compiledPattern_match (RepeatNode (RepeatNode (LiteralNode 97) 0 1) 2 2) []"
proof -
  have "compilePattern ''(a?){2}'' = Inr (RepeatNode (RepeatNode (LiteralNode 97) 0 1) 2 2)"
    by code_simp
  moreover have "node_wf (RepeatNode (RepeatNode (LiteralNode 97) 0 1) 2 2)" by simp
  ultimately show ?thesis using repeat_rejects_empty [of "RepeatNode (LiteralNode 97) 0 1" 2 2] by simp
qed

theorem MatchPattern_correct_witness:
  "MatchPattern ''^a+b$'' ''aab'' = Inr (runes ''aab'' \<in> lang (SequenceNode [RepeatNode (LiteralNode 97) 1 (- 1), LiteralNode 98]))"
proof -
  have c: "compilePattern ''^a+b$'' = Inr (SequenceNode [RepeatNode (LiteralNode 97) 1 (- 1), LiteralNode 98])"
    by code_simp
  have l: "length (runes ''aab'') = 3" by code_simp
  then show ?thesis using MatchPattern_correct [OF c, of "''aab''"] by simp
qed

theorem MatchPattern_sound_witness:
  "MatchPattern ''(a*)+'' ''aa'' = Inr True \<and>
   runes ''aa'' \<in> lang (RepeatNode (RepeatNode (LiteralNode 97) 0 (- 1)) 1 (- 1))"
proof -
  have c: "compilePattern ''(a*)+'' = Inr (RepeatNode (RepeatNode (LiteralNode 97) 0 (- 1)) 1 (- 1))"
    by code_simp
  have m: "MatchPattern ''(a*)+'' ''aa'' = Inr True" by code_simp
  have l: "length (runes ''aa'') = 2" by code_simp
  show ?thesis using MatchPattern_sound [OF c _ m] m l by simp
qed

end
