(* ===== verification/Http.thy ===== *)
theory Http
  imports Prelude
begin

text \<open>
  The parts of package net/http and its neighbours the runtime packages write their responses
  with: canonical header keys, header maps, a response writer whose first status wins,
  \<open>http.Error\<close>, decimal printing and \<open>net.SplitHostPort\<close>.
\<close>

section \<open>Letters\<close>

definition is_upper :: "char \<Rightarrow> bool" where
  "is_upper c \<longleftrightarrow> 65 \<le> (of_char c :: int) \<and> of_char c \<le> (90 :: int)"

definition is_lower :: "char \<Rightarrow> bool" where
  "is_lower c \<longleftrightarrow> 97 \<le> (of_char c :: int) \<and> of_char c \<le> (122 :: int)"

definition to_lower :: "char \<Rightarrow> char" where
  "to_lower c = (if is_upper c then char_of (of_char c + 32 :: int) else c)"

definition to_upper :: "char \<Rightarrow> char" where
  "to_upper c = (if is_lower c then char_of (of_char c - 32 :: int) else c)"

text \<open>\<open>strings.ToLower\<close> and \<open>strings.ToUpper\<close> on ASCII strings.\<close>

definition ToLower :: "string \<Rightarrow> string" where
  "ToLower s = map to_lower s"

definition ToUpper :: "string \<Rightarrow> string" where
  "ToUpper s = map to_upper s"

section \<open>Decimal printing\<close>

fun nat_digits :: "nat \<Rightarrow> string" where
  "nat_digits n =
     (if n < 10 then [char_of (48 + n)] else nat_digits (n div 10) @ [char_of (48 + n mod 10)])"

declare nat_digits.simps [simp del]

definition Itoa :: "int \<Rightarrow> string" where
  "Itoa i = (if i < 0 then CHR ''-'' # nat_digits (nat (- i)) else nat_digits (nat i))"

section \<open>Headers and responses\<close>

definition token_char :: "char \<Rightarrow> bool" where
  "token_char c \<longleftrightarrow>
     c \<in> set ''!#$%&*+-.^_`|~0123456789'' \<or> c = CHR 0x27 \<or> is_upper c \<or> is_lower c"

fun canonical_bytes :: "bool \<Rightarrow> string \<Rightarrow> string" where
  "canonical_bytes upper [] = []"
| "canonical_bytes upper (c # s) =
     (if upper then to_upper c else to_lower c) # canonical_bytes (c = CHR ''-'') s"

text \<open>\<open>textproto.CanonicalMIMEHeaderKey\<close>: a key that is not a token is left as it is.\<close>

definition CanonicalMIMEHeaderKey :: "string \<Rightarrow> string" where
  "CanonicalMIMEHeaderKey s = (if list_all token_char s then canonical_bytes True s else s)"

type_synonym header = "string \<Rightarrow> string list"

definition header_Set :: "header \<Rightarrow> string \<Rightarrow> string \<Rightarrow> header" where
  "header_Set h k v = h(CanonicalMIMEHeaderKey k := [v])"

definition header_Add :: "header \<Rightarrow> string \<Rightarrow> string \<Rightarrow> header" where
  "header_Add h k v = h(CanonicalMIMEHeaderKey k := h (CanonicalMIMEHeaderKey k) @ [v])"

definition header_Del :: "header \<Rightarrow> string \<Rightarrow> header" where
  "header_Del h k = h(CanonicalMIMEHeaderKey k := [])"

definition header_Values :: "header \<Rightarrow> string \<Rightarrow> string list" where
  "header_Values h k = h (CanonicalMIMEHeaderKey k)"

definition header_Get :: "header \<Rightarrow> string \<Rightarrow> string" where
  "header_Get h k = (case header_Values h k of [] \<Rightarrow> [] | v # _ \<Rightarrow> v)"

record writer =
  w_header :: header
  w_status :: "int option"
  w_body :: string

definition new_writer :: writer where
  "new_writer = \<lparr>w_header = (\<lambda>_. []), w_status = None, w_body = []\<rparr>"

definition set_header :: "string \<Rightarrow> string \<Rightarrow> writer \<Rightarrow> writer" where
  "set_header k v w = w\<lparr>w_header := header_Set (w_header w) k v\<rparr>"

text \<open>
  The first status that is written is the status of the response; a body implies 200. \<open>net/http\<close> panics on a
  status below 100 or above 999, and sends an informational status (1xx but 101) without fixing the status of
  the response; neither is modelled, so that what is shown about responses is about final statuses.
\<close>

definition WriteHeader :: "int \<Rightarrow> writer \<Rightarrow> writer" where
  "WriteHeader status w = (case w_status w of None \<Rightarrow> w\<lparr>w_status := Some status\<rparr> | Some _ \<Rightarrow> w)"

definition write_body :: "string \<Rightarrow> writer \<Rightarrow> writer" where
  "write_body s w = (let w' = WriteHeader 200 w in w'\<lparr>w_body := w_body w' @ s\<rparr>)"

definition http_Error :: "string \<Rightarrow> int \<Rightarrow> writer \<Rightarrow> writer" where
  "http_Error message status w =
     (let w1 = w\<lparr>w_header := header_Del (w_header w) ''Content-Length''\<rparr>;
          w2 = set_header ''Content-Type'' ''text/plain; charset=utf-8'' w1;
          w3 = set_header ''X-Content-Type-Options'' ''nosniff'' w2
      in write_body (message @ [CHR 0x0A]) (WriteHeader status w3))"

section \<open>net.SplitHostPort\<close>

fun index_byte :: "string \<Rightarrow> char \<Rightarrow> nat option" where
  "index_byte [] c = None"
| "index_byte (x # xs) c = (if x = c then Some 0 else map_option Suc (index_byte xs c))"

definition last_index_byte :: "string \<Rightarrow> char \<Rightarrow> nat option" where
  "last_index_byte s c = map_option (\<lambda>i. length s - 1 - i) (index_byte (rev s) c)"

text \<open>\<open>None\<close> stands for every error the function reports; its caller only tests for one.\<close>

definition SplitHostPort :: "string \<Rightarrow> (string \<times> string) option" where
  "SplitHostPort hp =
     (case last_index_byte hp CHR '':'' of
        None \<Rightarrow> None
      | Some i \<Rightarrow>
          (if hd hp = CHR ''['' then
             (case index_byte hp CHR '']'' of
                None \<Rightarrow> None
              | Some e \<Rightarrow>
                  (if e + 1 \<noteq> i then None
                   else if CHR ''['' \<in> set (drop 1 hp) \<or> CHR '']'' \<in> set (drop (e + 1) hp) then None
                   else Some (take (e - 1) (drop 1 hp), drop (i + 1) hp)))
           else if CHR '':'' \<in> set (take i hp) then None
           else if CHR ''['' \<in> set hp \<or> CHR '']'' \<in> set hp then None
           else Some (take i hp, drop (i + 1) hp)))"

section \<open>Lemmas\<close>

lemma header_Get_Set [simp]: "header_Get (header_Set h k v) k = v"
  by (simp add: header_Get_def header_Set_def header_Values_def)

lemma header_Get_Set_other:
  "CanonicalMIMEHeaderKey k \<noteq> CanonicalMIMEHeaderKey k' \<Longrightarrow> header_Get (header_Set h k v) k' = header_Get h k'"
  by (simp add: header_Get_def header_Set_def header_Values_def)

lemma set_header_fields [simp]:
  "w_status (set_header k v w) = w_status w" "w_body (set_header k v w) = w_body w"
  "w_header (set_header k v w) = header_Set (w_header w) k v"
  by (simp_all add: set_header_def)

lemma WriteHeader_fields [simp]:
  "w_header (WriteHeader s w) = w_header w" "w_body (WriteHeader s w) = w_body w"
  "w_status (WriteHeader s w) = (case w_status w of None \<Rightarrow> Some s | Some t \<Rightarrow> Some t)"
  by (auto simp: WriteHeader_def split: option.splits)

lemma write_body_fields [simp]:
  "w_header (write_body s w) = w_header w" "w_body (write_body s w) = w_body w @ s"
  "w_status (write_body s w) = (case w_status w of None \<Rightarrow> Some 200 | Some t \<Rightarrow> Some t)"
  by (simp_all add: write_body_def Let_def)

lemma http_Error_status: "w_status w = None \<Longrightarrow> w_status (http_Error m s w) = Some s"
  by (simp add: http_Error_def Let_def)

subsection \<open>Reading back printed integers\<close>

lemma digit_char_code: "m < 10 \<Longrightarrow> (of_char (char_of (48 + m :: nat)) :: int) = 48 + int m"
proof -
  assume "m < 10"
  then have "(of_char (char_of (48 + m :: nat)) :: nat) = 48 + m" by simp
  then have "int (of_char (char_of (48 + m :: nat))) = 48 + int m" by simp
  then show ?thesis by (simp only: of_nat_of_char)
qed

lemma nat_digits_digit: "list_all is_digit (nat_digits n) \<and> nat_digits n \<noteq> []"
proof (induction n rule: nat_digits.induct)
  case (1 n)
  have digit: "is_digit (char_of (48 + m))" if "m < 10" for m :: nat
    using digit_char_code [OF that] that by (simp add: is_digit_def)
  show ?case
    by (cases "n < 10") (use 1 digit in \<open>simp_all add: nat_digits.simps [of n]\<close>)
qed

lemma digits_val_append: "digits_val (s @ [c]) = 10 * digits_val s + digit_val c"
  by (simp add: digits_val_def)

lemma digits_val_nat_digits: "digits_val (nat_digits n) = int n"
proof (induction n rule: nat_digits.induct)
  case (1 n)
  have digit: "digit_val (char_of (48 + m)) = int m" if "m < 10" for m :: nat
    using digit_char_code [OF that] by (simp add: digit_val_def)
  show ?case
  proof (cases "n < 10")
    case True
    then show ?thesis by (simp add: nat_digits.simps [of n] digits_val_def digit)
  next
    case False
    with 1 have "digits_val (nat_digits n) = 10 * int (n div 10) + int (n mod 10)"
      by (simp add: nat_digits.simps [of n] digits_val_append digit)
    then show ?thesis by presburger
  qed
qed

lemma Atoi_Itoa: "- (2 ^ 63) \<le> i \<Longrightarrow> i < 2 ^ 63 \<Longrightarrow> Atoi (Itoa i) = Inr i"
proof -
  assume i: "- (2 ^ 63) \<le> i" "i < 2 ^ 63"
  note digits = nat_digits_digit [of "nat i"] nat_digits_digit [of "nat (- i)"]
  have "hd (nat_digits n) \<noteq> CHR ''-'' \<and> hd (nat_digits n) \<noteq> CHR ''+''" for n
    using nat_digits_digit [of n] by (cases "nat_digits n") (auto simp: is_digit_def)
  with i digits show ?thesis
    by (auto simp: Atoi_def parse_int_def Itoa_def Let_def digits_val_nat_digits)
qed

end
