(* ===== verification/RateLimit.thy ===== *)
theory RateLimit
  imports Http
begin

text \<open>
  \<open>runtime/ratelimit\<close>: the fixed-window limiter and its two stores.

  A \<open>time.Time\<close> is an integer number of nanoseconds, the zero time is \<open>None\<close> where the code
  tests for it, a \<open>time.Duration\<close> is an integer number of nanoseconds. A cancelled context is
  the error it carries. Counters are integers without a bound: a counter of the code would have
  to see \<open>2 ^ 63\<close> requests in one window to wrap.
\<close>

section \<open>Data\<close>

datatype rl_error =
    CtxErr string
  | KeyEmpty
  | LimitTooSmall
  | WindowNotPositive
  | StoreRequired
  | RequestRequired
  | RedisClientRequired
  | RedisError string
  | RedisReplyTooShort

record rl_result =
  res_Key :: string
  res_Limit :: int
  res_Remaining :: int
  res_Reset :: "int option"
  res_RetryAfter :: int
  res_Allowed :: bool

record memoryEntry =
  me_count :: int
  me_reset :: int

record inMemoryStore =
  ims_entries :: "string \<rightharpoonup> memoryEntry"
  ims_cleanupInterval :: int
  ims_nextCleanup :: "int option"

definition defaultCleanupInterval :: int where
  "defaultCleanupInterval = 60 * 10 ^ 9"

section \<open>The in-memory store\<close>

definition NewInMemoryStore :: "int \<Rightarrow> inMemoryStore" where
  "NewInMemoryStore cleanupInterval =
     \<lparr>ims_entries = Map.empty,
      ims_cleanupInterval = (if cleanupInterval \<le> 0 then defaultCleanupInterval else cleanupInterval),
      ims_nextCleanup = None\<rparr>"

definition drop_expired :: "int \<Rightarrow> (string \<rightharpoonup> memoryEntry) \<Rightarrow> (string \<rightharpoonup> memoryEntry)" where
  "drop_expired now m =
     (\<lambda>k. case m k of None \<Rightarrow> None | Some e \<Rightarrow> if \<not> now < me_reset e then None else Some e)"

definition cleanupExpired :: "int \<Rightarrow> inMemoryStore \<Rightarrow> inMemoryStore" where
  "cleanupExpired now store =
     (if (case ims_nextCleanup store of None \<Rightarrow> False | Some t \<Rightarrow> now < t) then store
      else store\<lparr>ims_entries := drop_expired now (ims_entries store),
                 ims_nextCleanup := Some (now + ims_cleanupInterval store)\<rparr>)"

text \<open>\<open>time.Time.Sub\<close> saturates at the bounds of a duration.\<close>

definition time_Sub :: "int \<Rightarrow> int \<Rightarrow> int" where
  "time_Sub a b = max (- (2 ^ 63)) (min (2 ^ 63 - 1) (a - b))"

definition next_entry :: "memoryEntry option \<Rightarrow> int \<Rightarrow> int \<Rightarrow> memoryEntry" where
  "next_entry old window now =
     (let entry = (case old of None \<Rightarrow> \<lparr>me_count = 0, me_reset = 0\<rparr> | Some e \<Rightarrow> e);
          entry' = (if me_count entry = 0 \<or> \<not> now < me_reset entry
                    then \<lparr>me_count = 0, me_reset = now + window\<rparr> else entry)
      in entry'\<lparr>me_count := me_count entry' + 1\<rparr>)"

definition take_result :: "string \<Rightarrow> int \<Rightarrow> int \<Rightarrow> memoryEntry \<Rightarrow> rl_result" where
  "take_result key limit now entry =
     (let remaining = limit - me_count entry;
          allowed = (me_count entry \<le> limit);
          retry = time_Sub (me_reset entry) now
      in \<lparr>res_Key = key, res_Limit = limit,
          res_Remaining = (if remaining < 0 then 0 else remaining),
          res_Reset = Some (me_reset entry),
          res_RetryAfter = (if allowed then 0 else if retry < 0 then 0 else retry),
          res_Allowed = allowed\<rparr>)"

definition InMemoryStore_Take ::
  "inMemoryStore \<Rightarrow> string option \<Rightarrow> string \<Rightarrow> int \<Rightarrow> int \<Rightarrow> int \<Rightarrow> (rl_error + rl_result) \<times> inMemoryStore" where
  "InMemoryStore_Take store ctx key limit window now =
     (case ctx of
        Some err \<Rightarrow> (Inl (CtxErr err), store)
      | None \<Rightarrow>
          if TrimSpace key = [] then (Inl KeyEmpty, store)
          else if limit < 1 then (Inl LimitTooSmall, store)
          else if window \<le> 0 then (Inl WindowNotPositive, store)
          else
            let store1 = (if ims_cleanupInterval store \<le> 0
                          then store\<lparr>ims_cleanupInterval := defaultCleanupInterval\<rparr> else store);
                entry = next_entry (ims_entries store1 key) window now;
                store2 = store1\<lparr>ims_entries := (ims_entries store1)(key \<mapsto> entry)\<rparr>
            in (Inr (take_result key limit now entry), cleanupExpired now store2))"

section \<open>The Redis store\<close>

text \<open>
  The client runs the script against a server that is not part of this repository: it is the
  parameter \<open>eval\<close>, from the server state, the key and the three arguments to the reply.
\<close>

definition durationMillis :: "int \<Rightarrow> int" where
  "durationMillis duration =
     (let millis = (if 0 \<le> duration then duration div 10 ^ 6 else - ((- duration) div 10 ^ 6));
          millis' = (if duration mod 10 ^ 6 \<noteq> 0 then millis + 1 else millis)
      in if millis' < 1 then 1 else millis')"

definition NewRedisStore :: "bool \<Rightarrow> string \<Rightarrow> rl_error + string" where
  "NewRedisStore hasClient keyPrefix =
     (if \<not> hasClient then Inl RedisClientRequired
      else Inr (if keyPrefix = [] then ''gowdk:ratelimit:'' else keyPrefix))"

definition RedisStore_Take ::
  "('r \<Rightarrow> string option \<Rightarrow> string \<Rightarrow> string list \<Rightarrow> (string + int list) \<times> 'r) \<Rightarrow> string \<Rightarrow>
   'r \<Rightarrow> string option \<Rightarrow> string \<Rightarrow> int \<Rightarrow> int \<Rightarrow> int \<Rightarrow> (rl_error + rl_result) \<times> 'r" where
  "RedisStore_Take eval keyPrefix server ctx key limit window now =
     (if TrimSpace key = [] then (Inl KeyEmpty, server)
      else if limit < 1 then (Inl LimitTooSmall, server)
      else if window \<le> 0 then (Inl WindowNotPositive, server)
      else
        let windowMillis = durationMillis window;
            nowMillis = now div 10 ^ 6
        in case eval server ctx (keyPrefix @ key) [Itoa limit, Itoa windowMillis, Itoa nowMillis] of
             (Inl err, server') \<Rightarrow> (Inl (RedisError err), server')
           | (Inr values, server') \<Rightarrow>
               if length values < 3 then (Inl RedisReplyTooShort, server')
               else
                 let resetMillis = (if values ! 2 > 0 then values ! 2 else nowMillis + windowMillis);
                     allowed = (values ! 0 = 1);
                     reset = resetMillis * 10 ^ 6;
                     retry = time_Sub reset now
                 in (Inr \<lparr>res_Key = key, res_Limit = limit,
                          res_Remaining = (if values ! 1 < 0 then 0 else values ! 1),
                          res_Reset = Some reset,
                          res_RetryAfter = (if allowed then 0 else if retry < 0 then 0 else retry),
                          res_Allowed = allowed\<rparr>, server'))"

section \<open>The limiter\<close>

record request =
  rq_RemoteAddr :: string

record limiter =
  lim_limit :: int
  lim_window :: int
  lim_keyFunc :: "request \<Rightarrow> string"
  lim_limitHandler :: "writer \<Rightarrow> request \<Rightarrow> rl_result \<Rightarrow> writer"
  lim_errorHandler :: "writer \<Rightarrow> request \<Rightarrow> rl_error \<Rightarrow> writer"

definition KeyByRemoteAddr :: "request \<Rightarrow> string" where
  "KeyByRemoteAddr rq =
     (case SplitHostPort (rq_RemoteAddr rq) of
        Some (host, _) \<Rightarrow> host
      | None \<Rightarrow> TrimSpace (rq_RemoteAddr rq))"

text \<open>
  \<open>int64(math.Ceil(duration.Seconds()))\<close>: the next whole second, exactly for durations below
  \<open>2 ^ 22\<close> seconds, whose nanoseconds a float64 number of seconds still separates.
\<close>

definition retryAfterSeconds :: "int \<Rightarrow> int" where
  "retryAfterSeconds duration = (if duration \<le> 0 then 0 else - ((- duration) div 10 ^ 9))"

definition HeaderLimit :: string where "HeaderLimit = ''X-RateLimit-Limit''"
definition HeaderRemaining :: string where "HeaderRemaining = ''X-RateLimit-Remaining''"
definition HeaderReset :: string where "HeaderReset = ''X-RateLimit-Reset''"

definition WriteHeaders :: "writer \<Rightarrow> rl_result \<Rightarrow> writer" where
  "WriteHeaders w r =
     (let w1 = set_header HeaderLimit (Itoa (res_Limit r)) w;
          w2 = set_header HeaderRemaining (Itoa (max (res_Remaining r) 0)) w1;
          w3 = (case res_Reset r of
                  None \<Rightarrow> w2
                | Some t \<Rightarrow> set_header HeaderReset (Itoa (t div 10 ^ 9)) w2)
      in if \<not> res_Allowed r
         then set_header ''Retry-After'' (Itoa (retryAfterSeconds (res_RetryAfter r))) w3 else w3)"

definition DefaultLimitHandler :: "writer \<Rightarrow> request \<Rightarrow> rl_result \<Rightarrow> writer" where
  "DefaultLimitHandler w rq r = http_Error ''Too Many Requests'' 429 w"

definition DefaultErrorHandler :: "writer \<Rightarrow> request \<Rightarrow> rl_error \<Rightarrow> writer" where
  "DefaultErrorHandler w rq err =
     http_Error ''GOWDK rate limit error'' 500
       (set_header ''X-GOWDK-Error-Code'' ''request_failed'' (set_header ''Cache-Control'' ''no-store'' w))"

text \<open>\<open>New\<close>: an option that is \<open>nil\<close> in the code is \<open>None\<close> here.\<close>

definition New ::
  "int \<Rightarrow> int \<Rightarrow> bool \<Rightarrow> (request \<Rightarrow> string) option \<Rightarrow> (writer \<Rightarrow> request \<Rightarrow> rl_result \<Rightarrow> writer) option \<Rightarrow>
   (writer \<Rightarrow> request \<Rightarrow> rl_error \<Rightarrow> writer) option \<Rightarrow> rl_error + limiter" where
  "New limit window hasStore keyFunc limitHandler errorHandler =
     (if limit < 1 then Inl LimitTooSmall
      else if window \<le> 0 then Inl WindowNotPositive
      else if \<not> hasStore then Inl StoreRequired
      else Inr \<lparr>lim_limit = limit, lim_window = window,
                lim_keyFunc = (case keyFunc of None \<Rightarrow> KeyByRemoteAddr | Some f \<Rightarrow> f),
                lim_limitHandler = (case limitHandler of None \<Rightarrow> DefaultLimitHandler | Some f \<Rightarrow> f),
                lim_errorHandler = (case errorHandler of None \<Rightarrow> DefaultErrorHandler | Some f \<Rightarrow> f)\<rparr>)"

type_synonym 's take_fn =
  "'s \<Rightarrow> string option \<Rightarrow> string \<Rightarrow> int \<Rightarrow> int \<Rightarrow> int \<Rightarrow> (rl_error + rl_result) \<times> 's"

definition AllowRequest ::
  "'s take_fn \<Rightarrow> limiter \<Rightarrow> string option \<Rightarrow> int \<Rightarrow> request option \<Rightarrow> 's \<Rightarrow> (rl_error + rl_result) \<times> 's" where
  "AllowRequest take_op lim ctx now rq s =
     (case rq of
        None \<Rightarrow> (Inl RequestRequired, s)
      | Some r \<Rightarrow>
          let key = TrimSpace (lim_keyFunc lim r)
          in if key = [] then (Inl KeyEmpty, s)
             else take_op s ctx key (lim_limit lim) (lim_window lim) now)"

text \<open>
  A limiter that \<open>New\<close> returns has both handlers, so the default handlers \<open>HandleError\<close> and
  \<open>HandleLimit\<close> fall back on are those of a limiter that is \<open>nil\<close>, \<open>None\<close> here.
\<close>

definition HandleError :: "limiter option \<Rightarrow> writer \<Rightarrow> request \<Rightarrow> rl_error \<Rightarrow> writer" where
  "HandleError lim w rq err =
     (case lim of None \<Rightarrow> DefaultErrorHandler w rq err | Some l \<Rightarrow> lim_errorHandler l w rq err)"

definition HandleLimit :: "limiter option \<Rightarrow> writer \<Rightarrow> request \<Rightarrow> rl_result \<Rightarrow> writer" where
  "HandleLimit lim w rq r =
     (case lim of None \<Rightarrow> DefaultLimitHandler w rq r | Some l \<Rightarrow> lim_limitHandler l w rq r)"

definition NotFound :: "writer \<Rightarrow> request \<Rightarrow> writer" where
  "NotFound w rq = http_Error ''404 page not found'' 404 w"

definition Middleware ::
  "'s take_fn \<Rightarrow> limiter \<Rightarrow> (writer \<Rightarrow> request \<Rightarrow> writer) option \<Rightarrow> string option \<Rightarrow> int \<Rightarrow> request \<Rightarrow> writer \<Rightarrow> 's \<Rightarrow>
   writer \<times> 's" where
  "Middleware take_op lim nxt ctx now rq w s =
     (case AllowRequest take_op lim ctx now (Some rq) s of
        (Inl err, s') \<Rightarrow> (lim_errorHandler lim w rq err, s')
      | (Inr r, s') \<Rightarrow>
          let w' = WriteHeaders w r
          in (if \<not> res_Allowed r then lim_limitHandler lim w' rq r
              else (case nxt of None \<Rightarrow> NotFound | Some h \<Rightarrow> h) w' rq, s'))"

section \<open>Sequences of calls\<close>

record take_call =
  tc_ctx :: "string option"
  tc_key :: string
  tc_limit :: int
  tc_window :: int
  tc_now :: int

fun take_run :: "'s take_fn \<Rightarrow> 's \<Rightarrow> take_call list \<Rightarrow> (rl_error + rl_result) list" where
  "take_run take_op s [] = []"
| "take_run take_op s (c # cs) =
     (case take_op s (tc_ctx c) (tc_key c) (tc_limit c) (tc_window c) (tc_now c) of
        (r, s') \<Rightarrow> r # take_run take_op s' cs)"

definition same_window :: "rl_result \<Rightarrow> rl_error + rl_result \<Rightarrow> bool" where
  "same_window r x = (case x of Inl _ \<Rightarrow> False | Inr r' \<Rightarrow> res_Key r' = res_Key r \<and> res_Reset r' = res_Reset r)"

text \<open>
  The number of earlier results that counted against the window of \<open>r\<close>: the reference the
  store's counters are compared with.
\<close>

definition window_hits :: "(rl_error + rl_result) list \<Rightarrow> rl_result \<Rightarrow> int" where
  "window_hits hist r = int (length (filter (same_window r) hist))"

text \<open>
  The end of the window a call falls into: the end reported last for its key while that is still to
  come, and otherwise the length of the call's window from now.
\<close>

definition last_reset :: "(rl_error + rl_result) list \<Rightarrow> string \<Rightarrow> int option" where
  "last_reset hist k =
     fold (\<lambda>x acc. case x of Inl _ \<Rightarrow> acc | Inr r \<Rightarrow> if res_Key r = k then res_Reset r else acc) hist None"

definition window_end :: "(rl_error + rl_result) list \<Rightarrow> take_call \<Rightarrow> int" where
  "window_end hist c =
     (case last_reset hist (tc_key c) of
        None \<Rightarrow> tc_now c + tc_window c
      | Some t \<Rightarrow> if tc_now c < t then t else tc_now c + tc_window c)"

definition fixed_window :: "(rl_error + rl_result) list \<Rightarrow> take_call \<Rightarrow> rl_result \<Rightarrow> bool" where
  "fixed_window hist c r \<longleftrightarrow>
     res_Key r = tc_key c \<and> res_Limit r = tc_limit c \<and>
     (res_Allowed r \<longleftrightarrow> window_hits hist r < tc_limit c) \<and>
     res_Remaining r = max 0 (tc_limit c - window_hits hist r - 1) \<and>
     res_Reset r = Some (window_end hist c) \<and>
     res_RetryAfter r = (if res_Allowed r then 0 else min (2 ^ 63 - 1) (window_end hist c - tc_now c))"

section \<open>The invariant of the in-memory store\<close>

definition resets_of :: "(rl_error + rl_result) list \<Rightarrow> string \<Rightarrow> int set" where
  "resets_of hist k = {t. \<exists>r. Inr r \<in> set hist \<and> res_Key r = k \<and> res_Reset r = Some t}"

definition hits_at :: "(rl_error + rl_result) list \<Rightarrow> string \<Rightarrow> int \<Rightarrow> nat" where
  "hits_at hist k t =
     length (filter (\<lambda>x. case x of Inl _ \<Rightarrow> False | Inr r \<Rightarrow> res_Key r = k \<and> res_Reset r = Some t) hist)"

fun entry_inv :: "(rl_error + rl_result) list \<Rightarrow> int \<Rightarrow> string \<Rightarrow> memoryEntry option \<Rightarrow> bool" where
  "entry_inv hist T k None \<longleftrightarrow> (\<forall>t\<in>resets_of hist k. t \<le> T)"
| "entry_inv hist T k (Some e) \<longleftrightarrow>
     1 \<le> me_count e \<and> me_count e = int (hits_at hist k (me_reset e)) \<and>
     last_reset hist k = Some (me_reset e) \<and>
     (\<forall>t\<in>resets_of hist k. t \<le> me_reset e)"

definition store_inv :: "(rl_error + rl_result) list \<Rightarrow> int \<Rightarrow> inMemoryStore \<Rightarrow> bool" where
  "store_inv hist T s \<longleftrightarrow> (\<forall>k. entry_inv hist T k (ims_entries s k))"

lemma resets_of_simps [simp]:
  "resets_of [] k = {}"
  "resets_of (hist @ [Inl e]) k = resets_of hist k"
  "resets_of (hist @ [Inr r]) k =
     (if res_Key r = k then {t. res_Reset r = Some t} \<union> resets_of hist k else resets_of hist k)"
  by (auto simp: resets_of_def)

lemma hits_at_simps [simp]:
  "hits_at (hist @ [Inl e]) k t = hits_at hist k t"
  "hits_at (hist @ [Inr r]) k t =
     (if res_Key r = k \<and> res_Reset r = Some t then Suc (hits_at hist k t) else hits_at hist k t)"
  by (auto simp: hits_at_def)

lemma last_reset_simps [simp]:
  "last_reset [] k = None"
  "last_reset (hist @ [Inl e]) k = last_reset hist k"
  "last_reset (hist @ [Inr r]) k = (if res_Key r = k then res_Reset r else last_reset hist k)"
  by (simp_all add: last_reset_def)

lemma last_reset_in: "last_reset hist k = Some t \<Longrightarrow> t \<in> resets_of hist k"
proof (induction hist rule: rev_induct)
  case (snoc x hist)
  then show ?case by (cases x) (auto split: if_splits)
qed simp

lemma hits_at_fresh: "t \<notin> resets_of hist k \<Longrightarrow> hits_at hist k t = 0"
  by (auto simp: hits_at_def resets_of_def filter_empty_conv split: sum.splits)

lemma window_hits_at:
  "res_Reset r = Some t \<Longrightarrow> window_hits hist r = int (hits_at hist (res_Key r) t)"
  by (auto simp: window_hits_def hits_at_def same_window_def intro!: arg_cong [where f = length] filter_cong
    split: sum.splits)

lemma store_inv_empty: "store_inv [] T (NewInMemoryStore ci)"
  by (simp add: store_inv_def NewInMemoryStore_def)

lemma entry_inv_later: "entry_inv hist T k oe \<Longrightarrow> T \<le> T' \<Longrightarrow> entry_inv hist T' k oe"
  by (cases oe) fastforce+

lemma store_inv_later: "store_inv hist T s \<Longrightarrow> T \<le> T' \<Longrightarrow> store_inv hist T' s"
  unfolding store_inv_def using entry_inv_later by blast

lemma entry_inv_other:
  "(case x of Inl _ \<Rightarrow> True | Inr r \<Rightarrow> res_Key r \<noteq> k) \<Longrightarrow> entry_inv (hist @ [x]) T k oe = entry_inv hist T k oe"
  by (cases x; cases oe) auto

lemma store_inv_cleanup:
  assumes "store_inv hist T s"
  shows "store_inv hist T (cleanupExpired T s)"
proof -
  have "entry_inv hist T k (drop_expired T m k)" if "entry_inv hist T k (m k)" for m k
    using that by (cases "m k") (auto simp: drop_expired_def)
  with assms show ?thesis by (simp add: store_inv_def cleanupExpired_def)
qed

text \<open>The entry a hit leaves: it continues the window of the history or opens a later one.\<close>

lemma next_entry_inv:
  fixes k :: string
  assumes "store_inv hist T s" "T \<le> now" "0 < window"
  defines "e \<equiv> next_entry (ims_entries s k) window now"
  shows "me_count e = int (hits_at hist k (me_reset e)) + 1"
    "tc_key c = k \<Longrightarrow> tc_now c = now \<Longrightarrow> tc_window c = window \<Longrightarrow> me_reset e = window_end hist c" "now < me_reset e"
    "\<forall>t\<in>resets_of hist k. t \<le> me_reset e"
proof -
  have inv: "entry_inv hist T k (ims_entries s k)" using assms(1) by (simp add: store_inv_def)
  have fresh: "hits_at hist k (now + window) = 0 \<and> (\<forall>t\<in>resets_of hist k. t \<le> now + window)"
    if "\<forall>t\<in>resets_of hist k. t \<le> now"
    using that assms(3) by (fastforce intro!: hits_at_fresh)
  consider e' where "ims_entries s k = Some e'" "now < me_reset e'"
      "e = e'\<lparr>me_count := me_count e' + 1\<rparr>"
    | "e = \<lparr>me_count = 1, me_reset = now + window\<rparr>" "\<forall>t\<in>resets_of hist k. t \<le> now"
  proof (cases "ims_entries s k")
    case None
    with inv assms(2) show ?thesis by (intro that(2)) (auto simp: e_def next_entry_def)
  next
    case (Some e')
    with inv have "\<forall>t\<in>resets_of hist k. t \<le> me_reset e'" "me_count e' \<noteq> 0" by auto
    with Some that show ?thesis by (cases "now < me_reset e'") (fastforce simp: e_def next_entry_def)+
  qed
  then have "me_count e = int (hits_at hist k (me_reset e)) + 1 \<and> now < me_reset e \<and>
      (\<forall>t\<in>resets_of hist k. t \<le> me_reset e) \<and>
      (tc_key c = k \<longrightarrow> tc_now c = now \<longrightarrow> tc_window c = window \<longrightarrow> me_reset e = window_end hist c)"
  proof cases
    case 1
    with inv show ?thesis by (auto simp: window_end_def)
  next
    case 2
    have "window_end hist c = now + window" if "tc_key c = k" "tc_now c = now" "tc_window c = window"
      using that 2(2) last_reset_in [of hist k] by (fastforce simp: window_end_def split: option.split)
    with 2 fresh assms(3) show ?thesis by auto
  qed
  then show "me_count e = int (hits_at hist k (me_reset e)) + 1"
    "tc_key c = k \<Longrightarrow> tc_now c = now \<Longrightarrow> tc_window c = window \<Longrightarrow> me_reset e = window_end hist c" "now < me_reset e"
    "\<forall>t\<in>resets_of hist k. t \<le> me_reset e" by blast+
qed

lemma Take_step:
  assumes inv: "store_inv hist T s" and T: "T \<le> tc_now c"
    and step: "InMemoryStore_Take s (tc_ctx c) (tc_key c) (tc_limit c) (tc_window c) (tc_now c) = (x, s')"
  shows "store_inv (hist @ [x]) (tc_now c) s'" "\<And>r. x = Inr r \<Longrightarrow> fixed_window hist c r"
proof -
  let ?e = "next_entry (ims_entries s (tc_key c)) (tc_window c) (tc_now c)"
  let ?r = "take_result (tc_key c) (tc_limit c) (tc_now c) ?e"
  have err: "(\<exists>e. x = Inl e \<and> s' = s) \<or>
      0 < tc_window c \<and> x = Inr ?r \<and>
      (\<exists>s1. s' = cleanupExpired (tc_now c) s1 \<and> ims_entries s1 = (ims_entries s)(tc_key c \<mapsto> ?e))"
    using step by (auto simp: InMemoryStore_Take_def Let_def split: option.splits if_splits)
  note e = next_entry_inv [OF inv T, where window = "tc_window c" and k = "tc_key c"]
  show "store_inv (hist @ [x]) (tc_now c) s'"
  proof (cases x)
    case (Inl e)
    with err store_inv_later [OF inv T] show ?thesis by (auto simp: store_inv_def entry_inv_other)
  next
    case (Inr r)
    with err obtain s1 where w: "0 < tc_window c" and r: "r = ?r" and s': "s' = cleanupExpired (tc_now c) s1"
      and s1: "ims_entries s1 = (ims_entries s)(tc_key c \<mapsto> ?e)" by auto
    have key: "res_Key r = tc_key c" "res_Reset r = Some (me_reset ?e)"
      by (simp_all add: r take_result_def Let_def)
    have "store_inv (hist @ [Inr r]) (tc_now c) s1"
      using store_inv_later [OF inv T] e(1,3,4) [OF w] by (simp add: store_inv_def s1 key entry_inv_other)
    with Inr s' show ?thesis by (simp add: store_inv_cleanup)
  qed
  show "fixed_window hist c r" if "x = Inr r" for r
  proof -
    from err that have w: "0 < tc_window c" and r: "r = ?r" by auto
    from e(2) [OF w, where c = c] have "me_reset ?e = window_end hist c" by simp
    with e(1,3) [OF w] show ?thesis
      by (auto simp: r fixed_window_def window_hits_at take_result_def Let_def time_Sub_def)
  qed
qed

lemma take_run_fixed_window:
  assumes "store_inv hist T s" "sorted (map tc_now cs)" "\<forall>c\<in>set cs. T \<le> tc_now c"
    and "i < length cs" "take_run InMemoryStore_Take s cs ! i = Inr r"
  shows "fixed_window (hist @ take i (take_run InMemoryStore_Take s cs)) (cs ! i) r"
  using assms
proof (induction cs arbitrary: hist T s i)
  case (Cons c cs)
  obtain x s' where step:
    "InMemoryStore_Take s (tc_ctx c) (tc_key c) (tc_limit c) (tc_window c) (tc_now c) = (x, s')"
    by fastforce
  note inv = Take_step [OF Cons.prems(1) _ step]
  show ?case
  proof (cases i)
    case 0
    with Cons.prems step inv show ?thesis by simp
  next
    case (Suc j)
    have "fixed_window ((hist @ [x]) @ take j (take_run InMemoryStore_Take s' cs)) (cs ! j) r"
      by (rule Cons.IH [where T = "tc_now c"]) (use Cons.prems Suc step inv in auto)
    with Suc step show ?thesis by simp
  qed
qed simp

lemma sorted_from_hd: "sorted (map tc_now cs) \<Longrightarrow> \<forall>c\<in>set cs. tc_now (hd cs) \<le> tc_now c"
  by (cases cs) auto

lemma length_take_run [simp]: "length (take_run f s cs) = length cs"
  by (induction cs arbitrary: s) (auto split: prod.splits)

definition allowed_at :: "(rl_error + rl_result) list \<Rightarrow> string \<Rightarrow> int \<Rightarrow> nat" where
  "allowed_at hist k t =
     length (filter (\<lambda>x. case x of
                           Inl _ \<Rightarrow> False
                         | Inr r \<Rightarrow> res_Key r = k \<and> res_Reset r = Some t \<and> res_Allowed r) hist)"

lemma allowed_at_run:
  fixes ci :: int
  assumes "sorted (map tc_now cs)" "\<forall>c\<in>set cs. tc_limit c = limit" "n \<le> length cs" "0 \<le> limit"
  defines "h \<equiv> take_run InMemoryStore_Take (NewInMemoryStore ci) cs"
  shows "int (allowed_at (take n h) k t) = min limit (int (hits_at (take n h) k t))"
  using assms(3)
proof (induction n)
  case 0
  then show ?case using assms(4) by (simp add: allowed_at_def hits_at_def)
next
  case (Suc n)
  have snoc: "take (Suc n) h = take n h @ [h ! n]"
    using Suc.prems by (simp add: h_def take_Suc_conv_app_nth)
  show ?case
  proof (cases "h ! n")
    case (Inl e)
    with Suc snoc show ?thesis by (simp add: allowed_at_def)
  next
    case (Inr r)
    have "fixed_window ([] @ take n h) (cs ! n) r"
      unfolding h_def
      by (rule take_run_fixed_window [OF store_inv_empty [where T = "tc_now (hd cs)"]])
        (use assms Suc.prems Inr sorted_from_hd in \<open>auto simp: h_def\<close>)
    moreover have "tc_limit (cs ! n) = limit" using assms(2) Suc.prems by simp
    ultimately have "res_Allowed r \<longleftrightarrow> int (hits_at (take n h) (res_Key r) t) < limit" if "res_Reset r = Some t"
      using that by (simp add: fixed_window_def window_hits_at)
    with Suc Inr snoc show ?thesis by (auto simp: allowed_at_def)
  qed
qed

section \<open>The contract of a store\<close>

text \<open>
  What \<open>Limiter\<close> relies on in a \<open>Store\<close>: arguments that make no sense are refused without an
  effect, and a decision repeats its key and limit, never reports a negative number, and asks
  an admitted caller to wait for nothing.
\<close>

locale rate_store =
  fixes take_op :: "'s take_fn"
  assumes take_invalid:
      "TrimSpace key = [] \<or> limit < 1 \<or> window \<le> 0 \<Longrightarrow> \<exists>e. take_op s ctx key limit window now = (Inl e, s)"
    and take_decision:
      "take_op s ctx key limit window now = (Inr r, s') \<Longrightarrow>
       res_Key r = key \<and> res_Limit r = limit \<and> 0 \<le> res_Remaining r \<and>
       0 \<le> res_RetryAfter r \<and> res_RetryAfter r < 2 ^ 63 \<and> (res_Allowed r \<longrightarrow> res_RetryAfter r = 0)"
begin

lemma run_decisions:
  "Inr r \<in> set (take_run take_op s cs) \<Longrightarrow>
   \<exists>c\<in>set cs. res_Key r = tc_key c \<and> res_Limit r = tc_limit c \<and> TrimSpace (tc_key c) \<noteq> [] \<and>
     1 \<le> tc_limit c \<and> 0 < tc_window c"
proof (induction cs arbitrary: s)
  case (Cons c cs)
  obtain x s' where step: "take_op s (tc_ctx c) (tc_key c) (tc_limit c) (tc_window c) (tc_now c) = (x, s')"
    by fastforce
  with take_invalid [of "tc_key c" "tc_limit c" "tc_window c" s "tc_ctx c" "tc_now c"]
  have "TrimSpace (tc_key c) \<noteq> [] \<and> 1 \<le> tc_limit c \<and> 0 < tc_window c" if "x = Inr r"
    using that by fastforce
  with Cons step take_decision [of s _ _ _ _ _ r s'] show ?case by fastforce
qed simp

lemma AllowRequest_decision:
  assumes "AllowRequest take_op lim ctx now (Some rq) s = (Inr r, s')"
  shows "res_Key r = TrimSpace (lim_keyFunc lim rq)" "res_Limit r = lim_limit lim" "0 \<le> res_Remaining r"
    "0 \<le> res_RetryAfter r" "res_RetryAfter r < 2 ^ 63" "TrimSpace (lim_keyFunc lim rq) \<noteq> []"
  using assms take_decision by (auto simp: AllowRequest_def Let_def split: if_splits)

end

lemma take_result_decision:
  "let r = take_result key limit now e in
     res_Key r = key \<and> res_Limit r = limit \<and> 0 \<le> res_Remaining r \<and> 0 \<le> res_RetryAfter r \<and>
     res_RetryAfter r < 2 ^ 63 \<and> (res_Allowed r \<longrightarrow> res_RetryAfter r = 0)"
  by (auto simp: take_result_def Let_def time_Sub_def)

interpretation memory: rate_store InMemoryStore_Take
proof
  fix key s ctx and limit window now :: int
  assume "TrimSpace key = [] \<or> limit < 1 \<or> window \<le> 0"
  then show "\<exists>e. InMemoryStore_Take s ctx key limit window now = (Inl e, s)"
    by (auto simp: InMemoryStore_Take_def split: option.splits)
next
  fix s ctx key limit window now r s'
  assume "InMemoryStore_Take s ctx key limit window now = (Inr r, s')"
  then have "r = take_result key limit now (next_entry (ims_entries s key) window now)"
    by (auto simp: InMemoryStore_Take_def Let_def split: option.splits if_splits)
  with take_result_decision show "res_Key r = key \<and> res_Limit r = limit \<and> 0 \<le> res_Remaining r \<and>
      0 \<le> res_RetryAfter r \<and> res_RetryAfter r < 2 ^ 63 \<and> (res_Allowed r \<longrightarrow> res_RetryAfter r = 0)"
    by (metis (no_types))
qed

interpretation redis: rate_store "RedisStore_Take eval keyPrefix" for eval keyPrefix
proof
  fix key s ctx and limit window now :: int
  assume "TrimSpace key = [] \<or> limit < 1 \<or> window \<le> 0"
  then show "\<exists>e. RedisStore_Take eval keyPrefix s ctx key limit window now = (Inl e, s)"
    by (auto simp: RedisStore_Take_def)
next
  fix s ctx key limit window now r s'
  assume "RedisStore_Take eval keyPrefix s ctx key limit window now = (Inr r, s')"
  then show "res_Key r = key \<and> res_Limit r = limit \<and> 0 \<le> res_Remaining r \<and>
      0 \<le> res_RetryAfter r \<and> res_RetryAfter r < 2 ^ 63 \<and> (res_Allowed r \<longrightarrow> res_RetryAfter r = 0)"
    by (auto simp: RedisStore_Take_def Let_def time_Sub_def split: if_splits prod.splits sum.splits)
qed

section \<open>Responses\<close>

lemma canonical_rate_headers [simp]:
  "CanonicalMIMEHeaderKey HeaderLimit = ''X-Ratelimit-Limit''"
  "CanonicalMIMEHeaderKey HeaderRemaining = ''X-Ratelimit-Remaining''"
  "CanonicalMIMEHeaderKey HeaderReset = ''X-Ratelimit-Reset''"
  "CanonicalMIMEHeaderKey ''Retry-After'' = ''Retry-After''"
  "CanonicalMIMEHeaderKey ''Content-Type'' = ''Content-Type''"
  "CanonicalMIMEHeaderKey ''Content-Length'' = ''Content-Length''"
  "CanonicalMIMEHeaderKey ''X-Content-Type-Options'' = ''X-Content-Type-Options''"
  "CanonicalMIMEHeaderKey ''Cache-Control'' = ''Cache-Control''"
  "CanonicalMIMEHeaderKey ''X-GOWDK-Error-Code'' = ''X-Gowdk-Error-Code''"
  by code_simp+

lemma retryAfterSeconds_ceil:
  assumes "0 < d"
  shows "d \<le> retryAfterSeconds d * 10 ^ 9" "retryAfterSeconds d * 10 ^ 9 < d + 10 ^ 9" "1 \<le> retryAfterSeconds d"
proof -
  define q where "q = - d div 10 ^ 9"
  define m where "m = (- d) mod 10 ^ 9"
  have "- d = q * 10 ^ 9 + m" by (simp only: q_def m_def div_mult_mod_eq)
  moreover have "0 \<le> m" "m < 10 ^ 9" by (simp_all add: m_def)
  moreover have "retryAfterSeconds d = - q" using assms by (simp add: retryAfterSeconds_def q_def)
  ultimately show "d \<le> retryAfterSeconds d * 10 ^ 9" "retryAfterSeconds d * 10 ^ 9 < d + 10 ^ 9"
    "1 \<le> retryAfterSeconds d" using assms by simp_all
qed

lemma retryAfterSeconds_bounds: "d < 2 ^ 63 \<Longrightarrow> 0 \<le> retryAfterSeconds d \<and> retryAfterSeconds d < 2 ^ 63"
  using retryAfterSeconds_ceil [of d] by (cases "0 < d") (auto simp: retryAfterSeconds_def)

text \<open>The key the limiter passes on is trimmed and its limit and window are valid.\<close>

lemma New_limiter:
  assumes "New limit window hasStore keyFunc None None = Inr lim"
  shows "lim_limit lim = limit" "1 \<le> limit" "lim_window lim = window" "0 < window"
    "lim_limitHandler lim = DefaultLimitHandler" "lim_errorHandler lim = DefaultErrorHandler"
  using assms by (auto simp: New_def split: if_splits)

lemma AllowRequest_memory:
  assumes "New limit window hasStore keyFunc None None = Inr lim"
  shows "AllowRequest InMemoryStore_Take lim ctx now (Some rq) s =
     (if TrimSpace (lim_keyFunc lim rq) = [] then (Inl KeyEmpty, s)
      else case ctx of Some err \<Rightarrow> (Inl (CtxErr err), s)
         | None \<Rightarrow> InMemoryStore_Take s None (TrimSpace (lim_keyFunc lim rq)) limit window now)"
  using New_limiter [OF assms]
  by (simp add: AllowRequest_def InMemoryStore_Take_def Let_def split: option.split)

lemma Itoa_zero: "Itoa 0 = ''0''"
  by code_simp

lemma new_writer_status [simp]: "w_status new_writer = None"
  by (simp add: new_writer_def)

lemma Take_blocked:
  "InMemoryStore_Take s ctx key limit window now = (Inr r, s') \<Longrightarrow> \<not> res_Allowed r \<Longrightarrow> res_Remaining r = 0"
  by (auto simp: InMemoryStore_Take_def take_result_def Let_def split: option.splits if_splits)

lemma header_Get_diff [simp]:
  "CanonicalMIMEHeaderKey k \<noteq> CanonicalMIMEHeaderKey k' \<Longrightarrow> header_Get (header_Set h k v) k' = header_Get h k'"
  by (rule header_Get_Set_other)

lemma header_Get_http_Error:
  "CanonicalMIMEHeaderKey k \<notin> {''Content-Type'', ''Content-Length'', ''X-Content-Type-Options''} \<Longrightarrow>
   header_Get (w_header (http_Error m st w)) k = header_Get (w_header w) k"
  by (simp add: http_Error_def Let_def header_Get_def header_Values_def header_Del_def header_Set_def)

lemma WriteHeaders_blocked:
  assumes "\<not> res_Allowed r"
  shows "header_Get (w_header (WriteHeaders w r)) ''Retry-After'' = Itoa (retryAfterSeconds (res_RetryAfter r))"
    "header_Get (w_header (WriteHeaders w r)) HeaderRemaining = Itoa (max (res_Remaining r) 0)"
    "w_status (WriteHeaders w r) = w_status w"
  using assms by (auto simp: WriteHeaders_def Let_def split: option.split)

section \<open>Properties\<close>

text \<open>
  C3: Over any sequence of calls with times that do not go back, on a new in-memory store, every
  decision is the fixed-window decision: the request is admitted exactly when fewer than \<open>limit\<close>
  earlier hits of the same key counted against the same window, the remaining number is what is
  left after this hit, the window is the one opened last for the key while it lasts and otherwise a
  new one of exactly the given length from now, and a refused caller is told the time to its end. The deletion of expired entries never changes a decision.
\<close>

theorem take_run_is_fixed_window:
  assumes "sorted (map tc_now cs)" "i < length cs"
    and "take_run InMemoryStore_Take (NewInMemoryStore ci) cs ! i = Inr r"
  shows "fixed_window (take i (take_run InMemoryStore_Take (NewInMemoryStore ci) cs)) (cs ! i) r"
  using take_run_fixed_window [OF store_inv_empty [where T = "tc_now (hd cs)"] assms(1) _ assms(2,3)]
    sorted_from_hd [OF assms(1)] by simp

theorem take_run_is_fixed_window_witness:
  "let mk = (\<lambda>now. \<lparr>tc_ctx = None, tc_key = ''k'', tc_limit = 1, tc_window = 10, tc_now = now\<rparr>);
       cs = [mk 0, mk 5, mk 20];
       h = take_run InMemoryStore_Take (NewInMemoryStore 1) cs
   in (\<exists>r. h ! 1 = Inr r \<and> \<not> res_Allowed r \<and> fixed_window (take 1 h) (cs ! 1) r)"
proof -
  define mk where "mk = (\<lambda>now. \<lparr>tc_ctx = None, tc_key = ''k'', tc_limit = 1, tc_window = 10, tc_now = now\<rparr>)"
  let ?r = "\<lparr>res_Key = ''k'', res_Limit = 1, res_Remaining = 0, res_Reset = Some 10, res_RetryAfter = 5, res_Allowed = False\<rparr>"
  have "take_run InMemoryStore_Take (NewInMemoryStore 1) [mk 0, mk 5, mk 20] ! 1 = Inr ?r"
    unfolding mk_def by code_simp
  with take_run_is_fixed_window [of "[mk 0, mk 5, mk 20]" 1 1 ?r] show ?thesis
    by (auto simp: Let_def mk_def)
qed

text \<open>
  With one limit, the requests admitted in one window of a key are exactly the first
  \<open>limit\<close> hits of that window, or all of them when there are fewer.
\<close>

theorem window_admits_limit:
  assumes "sorted (map tc_now cs)" "\<forall>c\<in>set cs. tc_limit c = limit" "0 \<le> limit"
  shows "int (allowed_at (take_run InMemoryStore_Take (NewInMemoryStore ci) cs) k t) =
         min limit (int (hits_at (take_run InMemoryStore_Take (NewInMemoryStore ci) cs) k t))"
  using allowed_at_run [OF assms(1,2) order_refl assms(3), of ci k t] by simp

theorem window_admits_limit_witness:
  "let mk = (\<lambda>now. \<lparr>tc_ctx = None, tc_key = ''k'', tc_limit = 1, tc_window = 10, tc_now = now\<rparr>);
       h = take_run InMemoryStore_Take (NewInMemoryStore 1) [mk 0, mk 3]
   in int (allowed_at h ''k'' 10) = min 1 (int (hits_at h ''k'' 10)) \<and> hits_at h ''k'' 10 = 2"
proof -
  define mk where "mk = (\<lambda>now. \<lparr>tc_ctx = None, tc_key = ''k'', tc_limit = 1, tc_window = 10, tc_now = now\<rparr>)"
  have "hits_at (take_run InMemoryStore_Take (NewInMemoryStore 1) [mk 0, mk 3]) ''k'' 10 = 2"
    unfolding mk_def by code_simp
  with window_admits_limit [of "[mk 0, mk 3]" 1 1 "''k''" 10] show ?thesis
    by (simp add: Let_def mk_def)
qed

text \<open>
  The middleware with the default handlers answers a fresh response writer in three ways: 500
  with \<open>no-store\<close> and an unchanged store, exactly when the key is blank or the context is
  cancelled; 429 with no requests remaining and a \<open>Retry-After\<close> that reads back as the whole
  seconds to the end of the window; or the wrapped handler, called only for an admitted request.
\<close>

theorem Middleware_answers:
  assumes lim: "New limit window hasStore keyFunc None None = Inr lim"
    and run: "Middleware InMemoryStore_Take lim nxt ctx now rq new_writer s = (w, s')"
  shows "case AllowRequest InMemoryStore_Take lim ctx now (Some rq) s of
           (Inl e, _) \<Rightarrow> (TrimSpace (lim_keyFunc lim rq) = [] \<or> ctx \<noteq> None) \<and> s' = s \<and>
              w_status w = Some 500 \<and> header_Get (w_header w) ''Cache-Control'' = ''no-store''
         | (Inr r, s'') \<Rightarrow> TrimSpace (lim_keyFunc lim rq) \<noteq> [] \<and> ctx = None \<and> s' = s'' \<and>
              (if res_Allowed r
               then w = (case nxt of None \<Rightarrow> NotFound | Some h \<Rightarrow> h) (WriteHeaders new_writer r) rq
               else w_status w = Some 429 \<and> header_Get (w_header w) HeaderRemaining = ''0'' \<and>
                    Atoi (header_Get (w_header w) ''Retry-After'') = Inr (retryAfterSeconds (res_RetryAfter r)))"
proof (cases "AllowRequest InMemoryStore_Take lim ctx now (Some rq) s")
  case (Pair x s'')
  note L = New_limiter [OF lim] and A = AllowRequest_memory [OF lim, of ctx now rq s]
  show ?thesis
  proof (cases x)
    case (Inl e)
    with Pair A have "(TrimSpace (lim_keyFunc lim rq) = [] \<or> ctx \<noteq> None) \<and> s'' = s"
      using L(2,4) by (auto simp: InMemoryStore_Take_def Let_def split: if_splits option.splits)
    with Pair Inl run L show ?thesis
      by (auto simp: Middleware_def DefaultErrorHandler_def header_Get_http_Error http_Error_status)
  next
    case (Inr r)
    have "res_RetryAfter r < 2 ^ 63"
      by (rule memory.AllowRequest_decision(5)) (use Pair Inr in simp)
    then have "Atoi (Itoa (retryAfterSeconds (res_RetryAfter r))) = Inr (retryAfterSeconds (res_RetryAfter r))"
      using retryAfterSeconds_bounds [of "res_RetryAfter r"] by (intro Atoi_Itoa) auto
    moreover have "Itoa (max (res_Remaining r) 0) = ''0''" if "\<not> res_Allowed r"
    proof -
      have "res_Remaining r = 0"
        using Pair Inr A that Take_blocked by (auto split: if_splits option.splits)
      then show ?thesis by (simp add: Itoa_zero)
    qed
    moreover have "TrimSpace (lim_keyFunc lim rq) \<noteq> [] \<and> ctx = None"
      using Pair Inr A by (auto split: if_splits option.splits)
    moreover have "Middleware InMemoryStore_Take lim nxt ctx now rq new_writer s =
        (if \<not> res_Allowed r then http_Error ''Too Many Requests'' 429 (WriteHeaders new_writer r)
         else (case nxt of None \<Rightarrow> NotFound | Some h \<Rightarrow> h) (WriteHeaders new_writer r) rq, s'')"
      using L(5) by (simp add: Middleware_def Pair Inr Let_def DefaultLimitHandler_def)
    ultimately show ?thesis using run Pair Inr
      by (cases "res_Allowed r") (auto simp: header_Get_http_Error WriteHeaders_blocked http_Error_status)
  qed
qed

theorem Middleware_answers_witness:
  "\<exists>lim w s'. New 1 (10 ^ 9) True (Some (\<lambda>_. ''  '')) None None = Inr lim \<and>
     Middleware InMemoryStore_Take lim None None 0 \<lparr>rq_RemoteAddr = ''''\<rparr> new_writer (NewInMemoryStore 1) = (w, s') \<and>
     w_status w = Some 500 \<and> s' = NewInMemoryStore 1"
proof -
  let ?lim = "\<lparr>lim_limit = 1, lim_window = 10 ^ 9, lim_keyFunc = (\<lambda>_. ''  ''),
    lim_limitHandler = DefaultLimitHandler, lim_errorHandler = DefaultErrorHandler\<rparr>"
  let ?rq = "\<lparr>rq_RemoteAddr = ''''\<rparr> :: request"
  have lim: "New 1 (10 ^ 9) True (Some (\<lambda>_. ''  '')) None None = Inr ?lim"
    by (simp add: New_def)
  obtain w s' where run: "Middleware InMemoryStore_Take ?lim None None 0 ?rq new_writer (NewInMemoryStore 1) = (w, s')"
    by fastforce
  have "TrimSpace ''  '' = []" by code_simp
  then have "AllowRequest InMemoryStore_Take ?lim None 0 (Some ?rq) (NewInMemoryStore 1) = (Inl KeyEmpty, NewInMemoryStore 1)"
    by (simp add: AllowRequest_def)
  with Middleware_answers [OF lim run] lim run show ?thesis by auto
qed

end
