(* ===== verification/Paths.thy ===== *)
theory Paths
  imports Prelude
begin

text \<open>
  \<open>path.Clean\<close>: the shortest slash-separated path equivalent to its argument by lexical
  processing. The library's in-place loop keeps the elements it has written; here they are the
  list \<open>out\<close>, the last one first.
\<close>

fun clean_parts :: "bool \<Rightarrow> string list \<Rightarrow> string list \<Rightarrow> string list" where
  "clean_parts rooted out [] = rev out"
| "clean_parts rooted out (p # ps) =
     (if p = [] \<or> p = ''.'' then clean_parts rooted out ps
      else if p = ''..'' then
        (case out of
           [] \<Rightarrow> clean_parts rooted (if rooted then [] else [''..'']) ps
         | x # xs \<Rightarrow> clean_parts rooted (if x = ''..'' then ''..'' # out else xs) ps)
      else clean_parts rooted (p # out) ps)"

definition Clean :: "string \<Rightarrow> string" where
  "Clean p =
     (if p = [] then ''.''
      else
        let rooted = (hd p = CHR ''/'');
            s = Join (clean_parts rooted [] (Split p CHR ''/'')) ''/''
        in if rooted then CHR ''/'' # s else if s = [] then ''.'' else s)"

section \<open>Normal form\<close>

text \<open>Elements of a clean path: no empty or dot element, and parent elements only at the front.\<close>

definition clean_elem :: "string \<Rightarrow> bool" where
  "clean_elem p \<longleftrightarrow> p \<noteq> [] \<and> p \<noteq> ''.'' \<and> CHR ''/'' \<notin> set p"

definition clean_list :: "bool \<Rightarrow> string list \<Rightarrow> bool" where
  "clean_list rooted ps \<longleftrightarrow>
     list_all clean_elem ps \<and>
     (\<exists>n qs. ps = replicate n ''..'' @ qs \<and> ''..'' \<notin> set qs \<and> (rooted \<longrightarrow> n = 0))"

lemma clean_list_Nil [simp]: "clean_list rooted []"
  by (simp add: clean_list_def)

lemma clean_list_snoc:
  assumes "clean_list rooted ps" "clean_elem p" "p \<noteq> ''..''"
  shows "clean_list rooted (ps @ [p])"
proof -
  obtain n qs where "ps = replicate n ''..'' @ qs" "''..'' \<notin> set qs" "rooted \<longrightarrow> n = 0"
    using assms(1) by (auto simp: clean_list_def)
  then have "\<exists>n' qs'. ps @ [p] = replicate n' ''..'' @ qs' \<and> ''..'' \<notin> set qs' \<and> (rooted \<longrightarrow> n' = 0)"
    using assms(3) by (intro exI [of _ n] exI [of _ "qs @ [p]"]) auto
  with assms show ?thesis by (simp add: clean_list_def)
qed

lemma clean_list_butlast:
  assumes "clean_list rooted (ps @ [p])" "p \<noteq> ''..''"
  shows "clean_list rooted ps"
proof -
  obtain n qs where *: "ps @ [p] = replicate n ''..'' @ qs" "''..'' \<notin> set qs" "rooted \<longrightarrow> n = 0"
    using assms(1) by (auto simp: clean_list_def)
  then obtain qs' where "qs = qs' @ [p]"
    using assms(2) by (cases qs rule: rev_cases) (auto simp flip: replicate_append_same, metis append_Nil2 append_is_Nil_conv last_replicate last_snoc replicate_empty)
  with * have "ps = replicate n ''..'' @ qs'" by simp
  with * \<open>qs = qs' @ [p]\<close> assms(1) show ?thesis by (fastforce simp: clean_list_def)
qed

lemma clean_list_dotdot:
  assumes "clean_list False ps" "ps = [] \<or> last ps = ''..''"
  shows "clean_list False (ps @ [''..''])"
proof -
  obtain n qs where *: "ps = replicate n ''..'' @ qs" "''..'' \<notin> set qs"
    using assms(1) by (auto simp: clean_list_def)
  have "qs = []"
    using * assms(2) by (cases qs rule: rev_cases) auto
  then have "ps @ [''..''] = replicate (Suc n) ''..'' @ []"
    using * by (simp add: replicate_append_same)
  then have "\<exists>n' qs'. ps @ [''..''] = replicate n' ''..'' @ qs' \<and> ''..'' \<notin> set qs'"
    by (metis empty_iff list.set(1))
  with assms(1) show ?thesis by (auto simp: clean_list_def clean_elem_def)
qed

lemma clean_list_rooted: "clean_list True ps \<Longrightarrow> ''..'' \<notin> set ps"
  by (auto simp: clean_list_def)

lemma clean_parts_clean:
  assumes "clean_list rooted (rev out)" "\<forall>p\<in>set ps. CHR ''/'' \<notin> set p"
  shows "clean_list rooted (clean_parts rooted out ps)"
  using assms
proof (induction rooted out ps rule: clean_parts.induct)
  case (2 rooted out p ps)
  consider (skip) "p = [] \<or> p = ''.''" | (up) "p = ''..''" | (elem) "p \<noteq> []" "p \<noteq> ''.''" "p \<noteq> ''..''" by blast
  then show ?case
  proof cases
    case skip
    with 2 show ?thesis by auto
  next
    case up
    show ?thesis
    proof (cases out)
      case Nil
      with 2 up clean_list_dotdot [of "[]"] show ?thesis by (cases rooted) auto
    next
      case (Cons x xs)
      have "clean_list rooted (rev (if x = ''..'' then ''..'' # out else xs))"
      proof (cases "x = ''..''")
        case True
        with Cons 2(5) have "rooted = False" using clean_list_rooted [of "rev out"] by (cases rooted) auto
        with True Cons 2(5) clean_list_dotdot [of "rev out"] show ?thesis by auto
      next
        case False
        with Cons 2(5) clean_list_butlast [of rooted "rev xs" x] show ?thesis by simp
      qed
      with 2 up Cons show ?thesis by auto
    qed
  next
    case elem
    with 2 clean_list_snoc [of rooted "rev out" p] show ?thesis by (simp add: clean_elem_def)
  qed
qed simp

lemma clean_parts_elems:
  "list_all clean_elem qs \<Longrightarrow> ''..'' \<notin> set qs \<Longrightarrow> clean_parts rooted out qs = rev out @ qs"
  by (induction qs arbitrary: out) (auto simp: clean_elem_def)

lemma clean_parts_ups:
  "clean_parts False (replicate k ''..'') (replicate n ''..'' @ qs) = clean_parts False (replicate (k + n) ''..'') qs"
proof (induction n arbitrary: k)
  case (Suc n)
  then show ?case using Suc [of "Suc k"] by (cases k) auto
qed simp

lemma clean_parts_id:
  assumes "clean_list rooted ps"
  shows "clean_parts rooted [] ps = ps"
proof -
  obtain n qs where ps: "ps = replicate n ''..'' @ qs" "''..'' \<notin> set qs" "rooted \<longrightarrow> n = 0"
    using assms unfolding clean_list_def by blast
  have "list_all clean_elem qs" using assms ps(1) by (simp add: clean_list_def)
  note ps = ps this
  show ?thesis
  proof (cases rooted)
    case True
    with ps show ?thesis by (simp add: clean_parts_elems)
  next
    case False
    with ps clean_parts_ups [of 0 n qs] show ?thesis by (simp add: clean_parts_elems)
  qed
qed

section \<open>Clean paths\<close>

lemma Split_Clean_parts:
  assumes "clean_list rooted ps" "ps \<noteq> []"
  shows "Split (Join ps ''/'') CHR ''/'' = ps" "Join ps ''/'' \<noteq> []" "hd (Join ps ''/'') \<noteq> CHR ''/''"
proof -
  have elems: "\<forall>p\<in>set ps. clean_elem p" using assms(1) by (auto simp: clean_list_def list_all_iff)
  then show "Split (Join ps ''/'') CHR ''/'' = ps"
    using assms(2) by (intro Split_Join) (auto simp: clean_elem_def)
  from elems assms(2) have "clean_elem (hd ps)" by simp
  then obtain c cs where "hd ps = c # cs" "c \<noteq> CHR ''/''"
    by (cases "hd ps") (auto simp: clean_elem_def)
  with assms(2) show "Join ps ''/'' \<noteq> []" "hd (Join ps ''/'') \<noteq> CHR ''/''"
    by (simp_all add: hd_Join)
qed

lemma Clean_parts_cases:
  obtains (dot) "Clean p = ''.''" | (parts) rooted ps where "clean_list rooted ps" "rooted \<or> ps \<noteq> []"
    "Clean p = (if rooted then ''/'' else []) @ Join ps ''/''" "p \<noteq> []" "rooted \<longleftrightarrow> hd p = CHR ''/''"
proof (cases "p = []")
  case True
  then show ?thesis using dot by (simp add: Clean_def)
next
  case False
  define rooted where "rooted \<longleftrightarrow> hd p = CHR ''/''"
  define ps where "ps = clean_parts rooted [] (Split p CHR ''/'')"
  have clean: "clean_list rooted ps"
    unfolding ps_def by (rule clean_parts_clean) (auto dest: Split_parts_no_sep)
  have c: "Clean p = (if rooted then CHR ''/'' # Join ps ''/'' else if Join ps ''/'' = [] then ''.'' else Join ps ''/'')"
    using False by (simp add: Clean_def Let_def rooted_def ps_def)
  show ?thesis
  proof (cases "rooted \<or> ps \<noteq> []")
    case True
    with c clean Split_Clean_parts(2) [OF clean] have "Clean p = (if rooted then ''/'' else []) @ Join ps ''/''" by auto
    with parts clean True False rooted_def show ?thesis by blast
  next
    case False
    with c dot show ?thesis by simp
  qed
qed

lemma Clean_idem: "Clean (Clean p) = Clean p"
proof (cases p rule: Clean_parts_cases)
  case dot
  then show ?thesis by simp code_simp
next
  case (parts rooted ps)
  show ?thesis
  proof (cases "ps = []")
    case True
    with parts have "Clean p = ''/''" by simp
    then show ?thesis by simp code_simp
  next
    case False
    note s = Split_Clean_parts [OF parts(1) False]
    show ?thesis
      using parts(1,3) s clean_parts_id [OF parts(1)]
      by (cases rooted) (simp_all add: Clean_def [of "Join ps _"] Clean_def [of "CHR ''/'' # Join ps _"] Let_def)
  qed
qed

end
