(* ===== verification/TraceContext.thy ===== *)
theory TraceContext
  imports Prelude "HOL-Library.Word"
begin

unbundle bit_operations_syntax

text \<open>
  \<open>runtime/trace\<close>, the part that carries identity: W3C trace contexts (\<open>types.go\<close>), samplers
  (\<open>tracer.go\<close>, \<open>sampler_policy.go\<close>) and the start of spans (\<open>tracer.go\<close>, \<open>span.go\<close>).

  The tests on code points below only admit ASCII, and a byte above 0x7F is always part of a
  code point above 0x7F, so they are written on the bytes. A tracer is an address of a heap of
  tracers, the default tracer is at address 0. The identifiers an \<open>IDGenerator\<close> returns are
  arguments of \<open>Start\<close>.
\<close>

section \<open>Identifiers\<close>

definition lower_hex :: "char \<Rightarrow> bool" where
  "lower_hex c \<longleftrightarrow> c \<in> set ''0123456789abcdef''"

definition validHexID :: "string \<Rightarrow> nat \<Rightarrow> bool" where
  "validHexID value len \<longleftrightarrow>
     length value = len \<and> list_all lower_hex value \<and> list_ex (\<lambda>r. r \<noteq> CHR ''0'') value"

definition TraceID_Valid :: "string \<Rightarrow> bool" where
  "TraceID_Valid t = validHexID t 32"

definition SpanID_Valid :: "string \<Rightarrow> bool" where
  "SpanID_Valid t = validHexID t 16"

definition validLowerHex :: "string \<Rightarrow> nat \<Rightarrow> bool" where
  "validLowerHex value len \<longleftrightarrow> length value = len \<and> list_all lower_hex value"

record TraceContext =
  tc_TraceID :: string
  tc_SpanID :: string
  tc_Sampled :: bool
  tc_Remote :: bool
  tc_TraceState :: string

definition zeroTraceContext :: TraceContext where
  "zeroTraceContext =
     \<lparr>tc_TraceID = [], tc_SpanID = [], tc_Sampled = False, tc_Remote = False, tc_TraceState = []\<rparr>"

section \<open>Headers\<close>

datatype trace_error =
    TraceparentTooLong
  | TraceparentFields
  | TraceparentVersion
  | TraceparentUnsupported
  | TraceparentTraceID
  | TraceparentSpanID
  | TraceparentFlags
  | TracestateTooLong
  | TracestateTooMany
  | TracestateEmptyMember
  | TracestateInvalidMember
  | TracestateWhitespace
  | TracestateDuplicated

definition hex_digit :: "char \<Rightarrow> int" where
  "hex_digit c = (if is_digit c then digit_val c else of_char c - 87)"

definition hex_val :: "string \<Rightarrow> int" where
  "hex_val s = fold (\<lambda>c n. 16 * n + hex_digit c) s 0"

definition parseTraceparent :: "string \<Rightarrow> trace_error + TraceContext" where
  "parseTraceparent value =
     (if 256 < length value then Inl TraceparentTooLong
      else case Split (TrimSpace value) CHR ''-'' of
        [p0, p1, p2, p3] \<Rightarrow>
          if \<not> validLowerHex p0 2 then Inl TraceparentVersion
          else if p0 \<noteq> ''00'' then Inl TraceparentUnsupported
          else if \<not> TraceID_Valid p1 then Inl TraceparentTraceID
          else if \<not> SpanID_Valid p2 then Inl TraceparentSpanID
          else if \<not> validLowerHex p3 2 then Inl TraceparentFlags
          else Inr \<lparr>tc_TraceID = p1, tc_SpanID = p2, tc_Sampled = (hex_val p3 mod 2 = 1),
                    tc_Remote = True, tc_TraceState = []\<rparr>
      | _ \<Rightarrow> Inl TraceparentFields)"

definition lower_letter :: "char \<Rightarrow> bool" where
  "lower_letter c \<longleftrightarrow> c \<in> set ''abcdefghijklmnopqrstuvwxyz''"

fun key_part_chars :: "bool \<Rightarrow> bool \<Rightarrow> string \<Rightarrow> bool" where
  "key_part_chars first requireLetterStart [] \<longleftrightarrow> True"
| "key_part_chars first requireLetterStart (r # s) \<longleftrightarrow>
     (lower_letter r \<or> is_digit r \<and> (\<not> requireLetterStart \<or> \<not> first) \<or> \<not> first \<and> r \<in> set ''_-*/'') \<and>
     key_part_chars False requireLetterStart s"

definition validTracestateKeyPart :: "string \<Rightarrow> bool \<Rightarrow> nat \<Rightarrow> bool" where
  "validTracestateKeyPart value requireLetterStart maxLength \<longleftrightarrow>
     value \<noteq> [] \<and> length value \<le> maxLength \<and> key_part_chars True requireLetterStart value"

definition validTracestateKey :: "string \<Rightarrow> bool" where
  "validTracestateKey key \<longleftrightarrow>
     length key \<le> 256 \<and>
     (case Cut key CHR ''@'' of
        (left, right, hasTenant) \<Rightarrow>
          if hasTenant then validTracestateKeyPart left False 241 \<and> validTracestateKeyPart right True 14
          else validTracestateKeyPart left True 256)"

definition value_char :: "char \<Rightarrow> bool" where
  "value_char c \<longleftrightarrow> 0x20 \<le> (of_char c :: int) \<and> of_char c \<le> (0x7E :: int) \<and> c \<noteq> CHR '','' \<and> c \<noteq> CHR ''=''"

definition validTracestateValue :: "string \<Rightarrow> bool" where
  "validTracestateValue value \<longleftrightarrow>
     length value \<le> 256 \<and> \<not> HasPrefix value '' '' \<and> \<not> HasSuffix value '' '' \<and> list_all value_char value"

fun tracestate_loop :: "string list \<Rightarrow> string list \<Rightarrow> string list \<Rightarrow> trace_error + string list" where
  "tracestate_loop [] seen normalized = Inr normalized"
| "tracestate_loop (raw # members) seen normalized =
     (let member = TrimSpace raw
      in if member = [] then Inl TracestateEmptyMember
         else case Cut member CHR ''='' of
           (key, memberValue, ok) \<Rightarrow>
             if \<not> ok \<or> key = [] then Inl TracestateInvalidMember
             else if key \<noteq> TrimSpace key \<or> memberValue \<noteq> TrimSpace memberValue then Inl TracestateWhitespace
             else if \<not> validTracestateKey key \<or> \<not> validTracestateValue memberValue then Inl TracestateInvalidMember
             else if key \<in> set seen then Inl TracestateDuplicated
             else tracestate_loop members (key # seen) (normalized @ [key @ ''='' @ memberValue]))"

definition parseTracestate :: "string \<Rightarrow> trace_error + string" where
  "parseTracestate value =
     (if value = [] then Inr []
      else if 512 < length value then Inl TracestateTooLong
      else
        let value' = TrimSpace value
        in if value' = [] then Inr []
           else
             let members = Split value' CHR '',''
             in if 32 < length members then Inl TracestateTooMany
                else map_sum id (\<lambda>normalized. Join normalized '','') (tracestate_loop members [] []))"

definition ParseTraceContext :: "string \<Rightarrow> string \<Rightarrow> trace_error + TraceContext" where
  "ParseTraceContext traceparent tracestate =
     (case parseTraceparent traceparent of
        Inl err \<Rightarrow> Inl err
      | Inr traceContext \<Rightarrow>
          Inr (case parseTracestate tracestate of
                 Inl _ \<Rightarrow> traceContext
               | Inr traceState \<Rightarrow> traceContext\<lparr>tc_TraceState := traceState\<rparr>))"

definition ParseTraceparent :: "string \<Rightarrow> trace_error + TraceContext" where
  "ParseTraceparent value = ParseTraceContext value []"

definition Traceparent :: "TraceContext \<Rightarrow> string" where
  "Traceparent tc =
     (if \<not> TraceID_Valid (tc_TraceID tc) \<or> \<not> SpanID_Valid (tc_SpanID tc) then []
      else ''00-'' @ tc_TraceID tc @ ''-'' @ tc_SpanID tc @ ''-'' @ (if tc_Sampled tc then ''01'' else ''00''))"

section \<open>Contexts\<close>

text \<open>A span, as far as a context carries it.\<close>

record span =
  sp_tracer :: nat
  sp_traceID :: string
  sp_spanID :: string
  sp_parentSpanID :: string
  sp_traceState :: string
  sp_name :: string
  sp_surface :: string
  sp_lane :: string

record ctx =
  ctx_Err :: "string option"
  ctx_span :: "span option"
  ctx_traceContext :: "TraceContext option"
  ctx_tracer :: "nat option"

definition Background :: ctx where
  "Background = \<lparr>ctx_Err = None, ctx_span = None, ctx_traceContext = None, ctx_tracer = None\<rparr>"

definition Span_TraceContext :: "span \<Rightarrow> TraceContext" where
  "Span_TraceContext s =
     \<lparr>tc_TraceID = sp_traceID s, tc_SpanID = sp_spanID s, tc_Sampled = True, tc_Remote = False,
      tc_TraceState = sp_traceState s\<rparr>"

text \<open>The value and the flag the function returns.\<close>

definition TraceContextFromContext :: "ctx \<Rightarrow> TraceContext \<times> bool" where
  "TraceContextFromContext c =
     (case ctx_span c of
        Some s \<Rightarrow> (Span_TraceContext s, True)
      | None \<Rightarrow>
          (case ctx_traceContext c of
             None \<Rightarrow> (zeroTraceContext, False)
           | Some tc \<Rightarrow> (tc, TraceID_Valid (tc_TraceID tc) \<and> SpanID_Valid (tc_SpanID tc))))"

definition ContextWithTraceContext :: "ctx \<Rightarrow> TraceContext \<Rightarrow> ctx" where
  "ContextWithTraceContext c tc =
     (if \<not> TraceID_Valid (tc_TraceID tc) \<or> \<not> SpanID_Valid (tc_SpanID tc) then c
      else
        let tc' = (if tc_TraceState tc \<noteq> []
                   then (case parseTracestate (tc_TraceState tc) of
                           Inl _ \<Rightarrow> tc\<lparr>tc_TraceState := []\<rparr>
                         | Inr traceState \<Rightarrow> tc\<lparr>tc_TraceState := traceState\<rparr>)
                   else tc)
        in c\<lparr>ctx_traceContext := Some tc'\<rparr>)"

definition ContextWithTracer :: "ctx \<Rightarrow> nat \<Rightarrow> ctx" where
  "ContextWithTracer c tracer = c\<lparr>ctx_tracer := Some tracer\<rparr>"

definition TracerFromContext :: "ctx \<Rightarrow> nat option" where
  "TracerFromContext c = (case ctx_span c of Some s \<Rightarrow> Some (sp_tracer s) | None \<Rightarrow> ctx_tracer c)"

text \<open>A carrier is its \<open>Get\<close>; \<open>Inject\<close> returns the pairs it sets, in order.\<close>

definition Extract :: "ctx \<Rightarrow> (string \<Rightarrow> string) \<Rightarrow> ctx" where
  "Extract c get =
     (case ParseTraceContext (get ''traceparent'') (get ''tracestate'') of
        Inl _ \<Rightarrow> c
      | Inr tc \<Rightarrow> ContextWithTraceContext c tc)"

definition Inject :: "ctx \<Rightarrow> (string \<times> string) list" where
  "Inject c =
     (case TraceContextFromContext c of
        (tc, ok) \<Rightarrow>
          if \<not> ok then []
          else (let value = Traceparent tc in if value \<noteq> [] then [(''traceparent'', value)] else []) @
               (case parseTracestate (tc_TraceState tc) of
                  Inl _ \<Rightarrow> []
                | Inr traceState \<Rightarrow> if traceState \<noteq> [] then [(''tracestate'', traceState)] else []))"

section \<open>Samplers\<close>

record SamplingContext =
  sc_TraceID :: string
  sc_ParentSpanID :: string
  sc_HasParent :: bool
  sc_ParentSampled :: bool
  sc_Name :: string
  sc_Surface :: string
  sc_Lane :: string

datatype sampler =
    StaticSampler bool
  | RatioSampler "64 word"
  | SamplerFunc "SamplingContext \<Rightarrow> bool"

definition AlwaysOn :: sampler where "AlwaysOn = StaticSampler True"
definition AlwaysOff :: sampler where "AlwaysOff = StaticSampler False"

text \<open>The first sixteen hexadecimal digits of the trace id as an unsigned 64-bit number.\<close>

definition ratio_step :: "64 word \<Rightarrow> char \<Rightarrow> 64 word" where
  "ratio_step value c =
     (let value' = push_bit 4 value
      in if is_digit c then value' OR word_of_int (of_char c - 48)
         else if c \<in> set ''abcdef'' then value' OR word_of_int (of_char c - 97 + 10)
         else value')"

definition ratio_value :: "string \<Rightarrow> 64 word" where
  "ratio_value bytes = foldl ratio_step 0 (take 16 bytes)"

fun Sample :: "sampler \<Rightarrow> SamplingContext \<Rightarrow> bool" where
  "Sample (StaticSampler v) sc \<longleftrightarrow> v"
| "Sample (RatioSampler threshold) sc \<longleftrightarrow>
     TraceID_Valid (sc_TraceID sc) \<and> ratio_value (sc_TraceID sc) \<le> threshold"
| "Sample (SamplerFunc fn) sc \<longleftrightarrow> fn sc"

definition ParentBasedSampler :: "sampler option \<Rightarrow> sampler" where
  "ParentBasedSampler root =
     (let root' = (case root of None \<Rightarrow> AlwaysOn | Some s \<Rightarrow> s)
      in SamplerFunc (\<lambda>sc. if sc_HasParent sc then sc_ParentSampled sc else Sample root' sc))"

record SamplerRule =
  sr_Match :: "(SamplingContext \<Rightarrow> bool) option"
  sr_Keep :: bool

fun first_rule :: "SamplerRule list \<Rightarrow> SamplingContext \<Rightarrow> bool option" where
  "first_rule [] sc = None"
| "first_rule (r # rules) sc =
     (case sr_Match r of
        Some m \<Rightarrow> if m sc then Some (sr_Keep r) else first_rule rules sc
      | None \<Rightarrow> first_rule rules sc)"

definition RuleSampler :: "sampler option \<Rightarrow> SamplerRule list \<Rightarrow> sampler" where
  "RuleSampler base rules =
     (let base' = (case base of None \<Rightarrow> AlwaysOn | Some s \<Rightarrow> s)
      in SamplerFunc (\<lambda>sc. case first_rule rules sc of Some keep \<Rightarrow> keep | None \<Rightarrow> Sample base' sc))"

definition MatchSpanName :: "string \<Rightarrow> SamplingContext \<Rightarrow> bool" where
  "MatchSpanName name sc \<longleftrightarrow> sc_Name sc = name"

definition MatchSpanNamePrefix :: "string \<Rightarrow> SamplingContext \<Rightarrow> bool" where
  "MatchSpanNamePrefix p sc \<longleftrightarrow> HasPrefix (sc_Name sc) p"

definition MatchLane :: "string \<Rightarrow> SamplingContext \<Rightarrow> bool" where
  "MatchLane lane sc \<longleftrightarrow> sc_Lane sc = lane"

definition MatchSurface :: "string \<Rightarrow> SamplingContext \<Rightarrow> bool" where
  "MatchSurface surface sc \<longleftrightarrow> sc_Surface sc = surface"

definition DropSpansNamed :: "string \<Rightarrow> SamplerRule" where
  "DropSpansNamed name = \<lparr>sr_Match = Some (MatchSpanName name), sr_Keep = False\<rparr>"

definition KeepSpansNamed :: "string \<Rightarrow> SamplerRule" where
  "KeepSpansNamed name = \<lparr>sr_Match = Some (MatchSpanName name), sr_Keep = True\<rparr>"

section \<open>Starting spans\<close>

record tracer =
  tr_sampler :: "sampler option"
  tr_sampledSpans :: "64 word"

type_synonym tracers = "nat \<Rightarrow> tracer"

record startConfig =
  cfg_tracer :: "nat option"
  cfg_surface :: string
  cfg_lane :: string

definition always_off :: "sampler option \<Rightarrow> bool" where
  "always_off s = (s = Some (StaticSampler False))"

text \<open>
  \<open>Tracer.Start\<close> for the tracer at address \<open>t\<close>; \<open>newTraceID\<close> and \<open>newSpanID\<close> are what its
  generator returns.
\<close>

definition Tracer_Start ::
  "tracers \<Rightarrow> nat \<Rightarrow> string \<Rightarrow> string \<Rightarrow> ctx \<Rightarrow> string \<Rightarrow> startConfig \<Rightarrow> tracers \<times> ctx \<times> span option" where
  "Tracer_Start heap t newTraceID newSpanID c name cfg =
     (let tr = (case cfg_tracer cfg of None \<Rightarrow> t | Some t' \<Rightarrow> t')
      in if always_off (tr_sampler (heap tr)) then (heap, c, None)
         else
           case TraceContextFromContext c of (parent, hasParent) \<Rightarrow>
             let traceID = (if TraceID_Valid (tc_TraceID parent) then tc_TraceID parent else newTraceID);
                 traceState = (if TraceID_Valid (tc_TraceID parent) then tc_TraceState parent else [])
             in if \<not> TraceID_Valid traceID \<or> \<not> SpanID_Valid newSpanID then (heap, c, None)
                else
                  let sc = \<lparr>sc_TraceID = traceID, sc_ParentSpanID = tc_SpanID parent,
                            sc_HasParent = hasParent, sc_ParentSampled = (hasParent \<and> tc_Sampled parent),
                            sc_Name = name, sc_Surface = cfg_surface cfg, sc_Lane = cfg_lane cfg\<rparr>;
                      tcx = \<lparr>tc_TraceID = traceID, tc_SpanID = newSpanID, tc_Sampled = True,
                             tc_Remote = False, tc_TraceState = traceState\<rparr>
                  in if (case tr_sampler (heap tr) of None \<Rightarrow> False | Some s \<Rightarrow> \<not> Sample s sc)
                     then (heap, ContextWithTraceContext c (tcx\<lparr>tc_Sampled := False\<rparr>), None)
                     else
                       let sp = \<lparr>sp_tracer = tr, sp_traceID = traceID, sp_spanID = newSpanID,
                                 sp_parentSpanID = (if hasParent then tc_SpanID parent else []),
                                 sp_traceState = traceState, sp_name = name,
                                 sp_surface = cfg_surface cfg, sp_lane = cfg_lane cfg\<rparr>;
                           heap' = heap(tr := (heap tr)\<lparr>tr_sampledSpans := tr_sampledSpans (heap tr) + 1\<rparr>);
                           c1 = (ContextWithTracer c tr)\<lparr>ctx_span := Some sp\<rparr>
                       in (heap', ContextWithTraceContext c1 tcx, Some sp))"

definition Start ::
  "tracers \<Rightarrow> string \<Rightarrow> string \<Rightarrow> ctx \<Rightarrow> string \<Rightarrow> startConfig \<Rightarrow> tracers \<times> ctx \<times> span option" where
  "Start heap newTraceID newSpanID c name cfg =
     Tracer_Start heap (case TracerFromContext c of Some t \<Rightarrow> t | None \<Rightarrow> 0) newTraceID newSpanID c name cfg"

section \<open>Headers read back\<close>

lemma lower_hex_plain: "lower_hex c \<Longrightarrow> plain c \<and> c \<noteq> CHR ''-'' \<and> c \<noteq> CHR '',''"
  by (auto simp: lower_hex_def plain_def)

lemma validHexID_chars:
  "validHexID s n \<Longrightarrow> CHR ''-'' \<notin> set s \<and> length s = n"
  using lower_hex_plain by (auto simp: validHexID_def list_all_iff)

lemma parseTraceparent_Traceparent:
  assumes "TraceID_Valid (tc_TraceID tc)" "SpanID_Valid (tc_SpanID tc)"
  shows "parseTraceparent (Traceparent tc) = Inr (tc\<lparr>tc_Remote := True, tc_TraceState := []\<rparr>)"
proof -
  define flags where "flags = (if tc_Sampled tc then ''01'' else ''00'')"
  have s: "Traceparent tc = ''00'' @ CHR ''-'' # tc_TraceID tc @ CHR ''-'' # tc_SpanID tc @ CHR ''-'' # flags"
    using assms by (simp add: Traceparent_def flags_def)
  have chars: "CHR ''-'' \<notin> set (tc_TraceID tc)" "CHR ''-'' \<notin> set (tc_SpanID tc)"
    and len: "length (tc_TraceID tc) = 32" "length (tc_SpanID tc) = 16"
    using assms validHexID_chars by (auto simp: TraceID_Valid_def SpanID_Valid_def)
  have "TrimSpace (Traceparent tc) = Traceparent tc"
    by (rule TrimSpace_plain) (auto simp: s flags_def plain_def)
  moreover have "Split (Traceparent tc) CHR ''-'' = [''00'', tc_TraceID tc, tc_SpanID tc, flags]"
    unfolding s using chars by (subst Split_append_sep, simp)+ (simp add: flags_def)
  moreover have "length (Traceparent tc) \<le> 256" using len by (simp add: s flags_def)
  moreover have "validLowerHex ''00'' 2" "validLowerHex flags 2" "hex_val flags mod 2 = 1 \<longleftrightarrow> tc_Sampled tc"
    by (simp_all add: flags_def validLowerHex_def lower_hex_def hex_val_def hex_digit_def is_digit_def digit_val_def)
  ultimately show ?thesis using assms by (simp add: parseTraceparent_def)
qed

lemma parseTraceparent_valid:
  assumes "parseTraceparent v = Inr tc"
  shows "TraceID_Valid (tc_TraceID tc)" "SpanID_Valid (tc_SpanID tc)" "tc_Remote tc" "tc_TraceState tc = []"
  using assms by (auto simp: parseTraceparent_def split: if_splits list.splits)

subsection \<open>Tracestate\<close>

lemma key_part_chars_char:
  "key_part_chars first req s \<Longrightarrow> c \<in> set s \<Longrightarrow> plain c \<and> c \<noteq> CHR '','' \<and> c \<noteq> CHR ''='' \<and> c \<noteq> CHR ''@''"
proof (induction s arbitrary: first)
  case (Cons r s)
  have "plain r \<and> r \<noteq> CHR '','' \<and> r \<noteq> CHR ''='' \<and> r \<noteq> CHR ''@''"
    if "lower_letter r \<or> is_digit r \<or> r \<in> set ''_-*/''"
    using that by (auto simp: lower_letter_def plain_def is_digit_def)
  with Cons show ?case by auto
qed simp

lemma validTracestateKey_chars:
  assumes "validTracestateKey key"
  shows "key \<noteq> []" "c \<in> set key \<Longrightarrow> plain c \<and> c \<noteq> CHR '','' \<and> c \<noteq> CHR ''=''"
proof -
  obtain l r f where cut: "Cut key CHR ''@'' = (l, r, f)" by (cases "Cut key CHR ''@''")
  have at: "plain CHR ''@''" by (simp add: plain_def)
  show "key \<noteq> []"
    using assms cut by (auto simp: validTracestateKey_def validTracestateKeyPart_def)
  show "plain c \<and> c \<noteq> CHR '','' \<and> c \<noteq> CHR ''=''" if "c \<in> set key"
    using assms cut that Cut_result [OF cut] key_part_chars_char at
    by (fastforce simp: validTracestateKey_def validTracestateKeyPart_def split: if_splits)
qed

lemma value_char_plain: "value_char c \<Longrightarrow> c \<noteq> CHR '' '' \<Longrightarrow> plain c"
proof -
  assume "value_char c" "c \<noteq> CHR '' ''"
  then have "(of_char c :: int) \<noteq> of_char CHR '' ''" by (simp only: of_char_eq_iff not_False_eq_True)
  with \<open>value_char c\<close> show "plain c" by (simp add: value_char_def plain_def)
qed

text \<open>A member of a normalised tracestate.\<close>

definition good_member :: "string \<Rightarrow> bool" where
  "good_member m \<longleftrightarrow> m \<noteq> [] \<and> plain (hd m) \<and> plain (last m) \<and> CHR '','' \<notin> set m"

lemma member_good:
  assumes "validTracestateKey key" "validTracestateValue v"
  shows "good_member (key @ ''='' @ v)" "Cut (key @ ''='' @ v) CHR ''='' = (key, v, True)"
proof -
  note k = validTracestateKey_chars [OF assms(1)]
  have v: "list_all value_char v" using assms(2) by (simp add: validTracestateValue_def)
  have "plain (last (key @ ''='' @ v))"
  proof (cases "v = []")
    case True
    then show ?thesis by (simp add: plain_def)
  next
    case False
    then have "v = butlast v @ [last v]" by simp
    then have "last v \<noteq> CHR '' ''"
      using assms(2) unfolding validTracestateValue_def suffix_def by metis
    with False v show ?thesis by (simp add: list_all_iff value_char_plain)
  qed
  moreover have "plain (hd (key @ ''='' @ v))" using k by simp
  moreover have "CHR '','' \<notin> set (key @ ''='' @ v)" using k v by (auto simp: list_all_iff value_char_def)
  ultimately show "good_member (key @ ''='' @ v)" using k by (simp add: good_member_def)
  show "Cut (key @ ''='' @ v) CHR ''='' = (key, v, True)" using k Cut_append [of "CHR ''=''" key v] by auto
qed

lemma good_member_trim: "good_member m \<Longrightarrow> TrimSpace m = m"
  by (auto simp: good_member_def intro: TrimSpace_plain)

lemma tracestate_loop_normal:
  assumes "tracestate_loop ms seen norm = Inr out"
  shows "\<exists>ns. out = norm @ ns \<and> length ns = length ms \<and> list_all good_member ns \<and>
    sum_list (map length ns) \<le> sum_list (map length ms) \<and>
    (\<forall>norm'. tracestate_loop ns seen norm' = Inr (norm' @ ns))"
  using assms
proof (induction ms arbitrary: seen norm)
  case (Cons raw ms)
  define m where "m = TrimSpace raw"
  obtain key v ok where cut: "Cut m CHR ''='' = (key, v, ok)" by (cases "Cut m CHR ''=''")
  with Cons.prems have guards: "m \<noteq> []" ok "key \<noteq> []" "key = TrimSpace key" "v = TrimSpace v"
      "validTracestateKey key" "validTracestateValue v" "key \<notin> set seen"
    and rec: "tracestate_loop ms (key # seen) (norm @ [key @ ''='' @ v]) = Inr out"
    by (auto simp: m_def [symmetric] Let_def split: if_splits)
  obtain ns where ns: "out = (norm @ [key @ ''='' @ v]) @ ns" "length ns = length ms" "list_all good_member ns"
      "sum_list (map length ns) \<le> sum_list (map length ms)"
      "\<forall>norm'. tracestate_loop ns (key # seen) norm' = Inr (norm' @ ns)"
    using Cons.IH [OF rec] by blast
  note good = member_good [OF guards(6,7)]
  have m: "m = key @ ''='' @ v" using Cut_result [OF cut] guards(2) by simp
  have "length m \<le> length raw" by (simp add: m_def length_TrimSpace)
  moreover have "tracestate_loop (m # ns) seen norm' = Inr (norm' @ m # ns)" for norm'
    using good_member_trim [OF good(1)] good(2) guards ns(5) by (simp add: m Let_def)
  ultimately show ?case
    using ns good(1) by (intro exI [of _ "m # ns"]) (auto simp: m)
qed simp

lemma parseTracestate_idem:
  assumes "parseTracestate v = Inr s"
  shows "parseTracestate s = Inr s"
proof (cases "s = []")
  case False
  define ms where "ms = Split (TrimSpace v) CHR '',''"
  have v: "length v \<le> 512" "length ms \<le> 32"
    "map_sum id (\<lambda>normalized. Join normalized '','') (tracestate_loop ms [] []) = Inr s"
    using assms False by (auto simp: parseTracestate_def ms_def Let_def split: if_splits)
  then obtain out where loop: "tracestate_loop ms [] [] = Inr out" and s: "s = Join out '',''"
    by (cases "tracestate_loop ms [] []") auto
  obtain ns where ns: "out = ns" "length ns = length ms" "list_all good_member ns"
      "sum_list (map length ns) \<le> sum_list (map length ms)" "tracestate_loop ns [] [] = Inr ns"
    using tracestate_loop_normal [OF loop] by (metis append_Nil)
  have ne: "ns \<noteq> []" using ns(2) by (auto simp: ms_def)
  have good: "good_member (hd ns)" "good_member (last ns)" "\<forall>m\<in>set ns. CHR '','' \<notin> set m"
    using ns(3) ne by (auto simp: list_all_iff good_member_def)
  have "length s \<le> length (Join ms '','')"
    using ns(2,4) ne by (simp add: s ns(1) length_Join ms_def)
  also have "\<dots> = length (TrimSpace v)" by (simp add: ms_def Join_Split)
  finally have "length s \<le> 512" using v(1) length_TrimSpace [of v] by linarith
  moreover have "TrimSpace s = s"
    using good(1,2) hd_Join [OF ne, of "'',''"] last_Join [OF ne, of "'',''"]
    by (intro TrimSpace_plain) (auto simp: s ns(1) good_member_def)
  moreover have "Split s CHR '','' = ns" using Split_Join [OF ne good(3)] by (simp add: s ns(1))
  ultimately show ?thesis using False ns(2,5) v(2) by (simp add: parseTracestate_def Let_def s ns(1))
qed (simp add: parseTracestate_def)

lemma parseTracestate_Nil [simp]: "parseTracestate [] = Inr []"
  by (simp add: parseTracestate_def)

section \<open>Chains of spans\<close>

text \<open>Each span is started from the context the start before it returned.\<close>

record start_step =
  st_newTraceID :: string
  st_newSpanID :: string
  st_name :: string
  st_cfg :: startConfig

fun start_chain :: "tracers \<Rightarrow> ctx \<Rightarrow> start_step list \<Rightarrow> span option list" where
  "start_chain heap c [] = []"
| "start_chain heap c (st # sts) =
     (case Start heap (st_newTraceID st) (st_newSpanID st) c (st_name st) (st_cfg st) of
        (heap', c', sp) \<Rightarrow> sp # start_chain heap' c' sts)"

definition all_sampler :: "sampler \<Rightarrow> tracers \<Rightarrow> bool" where
  "all_sampler s heap \<longleftrightarrow> (\<forall>t. tr_sampler (heap t) = Some s)"

definition ids_valid :: "start_step list \<Rightarrow> bool" where
  "ids_valid sts \<longleftrightarrow> list_all (\<lambda>st. TraceID_Valid (st_newTraceID st) \<and> SpanID_Valid (st_newSpanID st)) sts"

definition child_decision :: "ctx \<Rightarrow> string \<Rightarrow> bool \<Rightarrow> bool" where
  "child_decision c traceID keep \<longleftrightarrow>
     (\<exists>tc. TraceContextFromContext c = (tc, True) \<and> tc_TraceID tc = traceID \<and> tc_Sampled tc = keep) \<and>
     TraceID_Valid traceID"

definition span_decision :: "string \<Rightarrow> bool \<Rightarrow> span option \<Rightarrow> bool" where
  "span_decision traceID keep sp \<longleftrightarrow>
     (if keep then \<exists>s. sp = Some s \<and> sp_traceID s = traceID else sp = None)"

lemma TraceContextFromContext_with:
  assumes "TraceID_Valid (tc_TraceID tc)" "SpanID_Valid (tc_SpanID tc)" "ctx_span c = None"
  shows "\<exists>state. TraceContextFromContext (ContextWithTraceContext c tc) = (tc\<lparr>tc_TraceState := state\<rparr>, True)"
proof -
  have "\<exists>state. ContextWithTraceContext c tc = c\<lparr>ctx_traceContext := Some (tc\<lparr>tc_TraceState := state\<rparr>)\<rparr>"
  proof (cases "tc_TraceState tc = []")
    case True
    with assms(1,2) show ?thesis by (intro exI [of _ "[]"], cases tc) (simp add: ContextWithTraceContext_def)
  next
    case False
    with assms(1,2) show ?thesis
      by (cases "parseTracestate (tc_TraceState tc)") (auto simp: ContextWithTraceContext_def Let_def)
  qed
  with assms show ?thesis by (auto simp: TraceContextFromContext_def)
qed

lemma Background_fields [simp]:
  "ctx_span Background = None" "ctx_traceContext Background = None" "ctx_tracer Background = None"
  by (simp_all add: Background_def)

lemma ctx_span_with [simp]: "ctx_span (ContextWithTraceContext c tc) = ctx_span c"
  by (simp add: ContextWithTraceContext_def Let_def)

lemma TraceContextFromContext_span:
  "ctx_span c = Some s \<Longrightarrow> TraceContextFromContext c = (Span_TraceContext s, True)"
  by (simp add: TraceContextFromContext_def)

lemma Start_parent_based:
  assumes sampler: "all_sampler (ParentBasedSampler root) heap" and child: "child_decision c traceID keep"
    and valid: "SpanID_Valid newSpan" and start: "Start heap newTrace newSpan c name cfg = (heap', c', sp)"
  shows "all_sampler (ParentBasedSampler root) heap'" "child_decision c' traceID keep" "span_decision traceID keep sp"
proof -
  from child obtain tc where tc: "TraceContextFromContext c = (tc, True)" "tc_TraceID tc = traceID"
      "tc_Sampled tc = keep" "TraceID_Valid traceID"
    by (auto simp: child_decision_def)
  have no_span: "ctx_span c = None" if "\<not> keep"
    using tc that by (auto simp: TraceContextFromContext_def Span_TraceContext_def split: option.splits)
  show "all_sampler (ParentBasedSampler root) heap'"
    using start sampler tc valid
    by (auto simp: Start_def Tracer_Start_def Let_def all_sampler_def split: if_splits)
  show "span_decision traceID keep sp"
    using start sampler tc valid
    by (auto simp: Start_def Tracer_Start_def Let_def all_sampler_def always_off_def ParentBasedSampler_def
        span_decision_def split: if_splits)
  show "child_decision c' traceID keep"
  proof (cases keep)
    case True
    then have "\<exists>s. ctx_span c' = Some s \<and> sp_traceID s = traceID"
      using start sampler tc valid
      by (auto simp: Start_def Tracer_Start_def Let_def all_sampler_def always_off_def ParentBasedSampler_def
          split: if_splits)
    with True tc(4) show ?thesis
      by (auto simp: child_decision_def TraceContextFromContext_span Span_TraceContext_def)
  next
    case False
    have "c' = ContextWithTraceContext c \<lparr>tc_TraceID = traceID, tc_SpanID = newSpan, tc_Sampled = False,
        tc_Remote = False, tc_TraceState = tc_TraceState tc\<rparr>"
      using start sampler tc valid False
      by (auto simp: Start_def Tracer_Start_def Let_def all_sampler_def always_off_def ParentBasedSampler_def
          split: if_splits)
    with TraceContextFromContext_with [of "\<lparr>tc_TraceID = traceID, tc_SpanID = newSpan, tc_Sampled = False,
        tc_Remote = False, tc_TraceState = tc_TraceState tc\<rparr>" c] no_span False tc(4) valid
    show ?thesis by (auto simp: child_decision_def)
  qed
qed

lemma start_chain_parent_based:
  assumes "all_sampler (ParentBasedSampler root) heap" "child_decision c traceID keep" "ids_valid sts"
  shows "\<forall>sp\<in>set (start_chain heap c sts). span_decision traceID keep sp"
  using assms
proof (induction sts arbitrary: heap c)
  case (Cons st sts)
  obtain heap' c' sp where start:
    "Start heap (st_newTraceID st) (st_newSpanID st) c (st_name st) (st_cfg st) = (heap', c', sp)"
    by (metis surj_pair)
  have "SpanID_Valid (st_newSpanID st)" using Cons.prems by (simp add: ids_valid_def)
  note step = Start_parent_based [OF Cons.prems(1,2) this start]
  with Cons.IH [OF step(1,2)] Cons.prems(3) start show ?case by (simp add: ids_valid_def)
qed simp

lemma Start_root:
  assumes "all_sampler (ParentBasedSampler root) heap" "TraceID_Valid newTrace" "SpanID_Valid newSpan"
    and "ctx_span c = None" "ctx_traceContext c = None"
    and start: "Start heap newTrace newSpan c name cfg = (heap', c', sp)"
  shows "\<exists>keep. all_sampler (ParentBasedSampler root) heap' \<and> child_decision c' newTrace keep \<and>
    span_decision newTrace keep sp"
proof -
  have from_c: "TraceContextFromContext c = (zeroTraceContext, False)" "\<not> TraceID_Valid []"
    using assms(4,5) by (simp_all add: TraceContextFromContext_def TraceID_Valid_def validHexID_def)
  have heap: "all_sampler (ParentBasedSampler root) heap'"
    using start assms by (auto simp: Start_def Tracer_Start_def Let_def all_sampler_def split: if_splits prod.splits)
  show ?thesis
  proof (cases sp)
    case None
    with start assms from_c have
      "c' = ContextWithTraceContext c \<lparr>tc_TraceID = newTrace, tc_SpanID = newSpan, tc_Sampled = False,
        tc_Remote = False, tc_TraceState = []\<rparr>"
      by (auto simp: Start_def Tracer_Start_def Let_def all_sampler_def always_off_def ParentBasedSampler_def
          zeroTraceContext_def split: if_splits)
    with TraceContextFromContext_with [of "\<lparr>tc_TraceID = newTrace, tc_SpanID = newSpan, tc_Sampled = False,
        tc_Remote = False, tc_TraceState = []\<rparr>" c] assms heap None show ?thesis
      by (intro exI [of _ False]) (auto simp: child_decision_def span_decision_def)
  next
    case (Some s)
    with start assms from_c have "ctx_span c' = Some s" "sp_traceID s = newTrace"
      by (auto simp: Start_def Tracer_Start_def Let_def zeroTraceContext_def split: if_splits)
    with assms heap Some show ?thesis
      by (intro exI [of _ True])
        (auto simp: child_decision_def span_decision_def TraceContextFromContext_span Span_TraceContext_def)
  qed
qed

section \<open>Properties\<close>

text \<open>
  The traceparent header of a valid trace context parses back to that context, marked as
  remote and without vendor state.
\<close>

theorem Traceparent_roundtrip:
  assumes "TraceID_Valid (tc_TraceID tc)" "SpanID_Valid (tc_SpanID tc)"
  shows "ParseTraceparent (Traceparent tc) = Inr (tc\<lparr>tc_Remote := True, tc_TraceState := []\<rparr>)"
  using assms by (simp add: ParseTraceparent_def ParseTraceContext_def parseTraceparent_Traceparent)

theorem Traceparent_roundtrip_witness:
  "ParseTraceparent ''00-4bf92f3577b34da6a3ce929d0e0e4736-00f067aa0ba902b7-01'' =
     Inr \<lparr>tc_TraceID = ''4bf92f3577b34da6a3ce929d0e0e4736'', tc_SpanID = ''00f067aa0ba902b7'',
          tc_Sampled = True, tc_Remote = True, tc_TraceState = []\<rparr>"
proof -
  let ?tc = "\<lparr>tc_TraceID = ''4bf92f3577b34da6a3ce929d0e0e4736'', tc_SpanID = ''00f067aa0ba902b7'',
    tc_Sampled = True, tc_Remote = False, tc_TraceState = []\<rparr>"
  have "TraceID_Valid (tc_TraceID ?tc)" "SpanID_Valid (tc_SpanID ?tc)" by code_simp+
  with Traceparent_roundtrip [of ?tc] show ?thesis by (simp add: Traceparent_def)
qed

text \<open>
  C4: Whatever headers a request carries, the headers injected from the context they were
  extracted into extract to the same context: propagation is stable after one hop, and an
  invalid header leaves no trace.
\<close>

theorem Extract_Inject:
  "Extract Background (\<lambda>k. case map_of (Inject (Extract Background get)) k of None \<Rightarrow> [] | Some v \<Rightarrow> v) =
   Extract Background get"
proof (cases "ParseTraceContext (get ''traceparent'') (get ''tracestate'')")
  case (Inl e)
  have "ParseTraceContext [] [] = Inl TraceparentFields" by code_simp
  moreover have "Inject Background = []" by code_simp
  ultimately show ?thesis by (simp add: Extract_def Inl)
next
  case (Inr tc)
  then obtain tc0 where tc0: "parseTraceparent (get ''traceparent'') = Inr tc0"
    and tc: "tc = (case parseTracestate (get ''tracestate'') of Inl _ \<Rightarrow> tc0 | Inr s \<Rightarrow> tc0\<lparr>tc_TraceState := s\<rparr>)"
    by (auto simp: ParseTraceContext_def split: sum.splits)
  note valid = parseTraceparent_valid [OF tc0]
  have state: "parseTracestate (tc_TraceState tc) = Inr (tc_TraceState tc)"
    using valid(4) parseTracestate_idem by (auto simp: tc split: sum.split)
  have v: "TraceID_Valid (tc_TraceID tc)" "SpanID_Valid (tc_SpanID tc)" "tc_Remote tc"
    using valid by (auto simp: tc split: sum.split)
  have c: "Extract Background get = Background\<lparr>ctx_traceContext := Some tc\<rparr>"
    using v state by (simp add: Extract_def Inr ContextWithTraceContext_def Let_def)
  have inj: "Inject (Extract Background get) = (''traceparent'', Traceparent tc) #
      (if tc_TraceState tc \<noteq> [] then [(''tracestate'', tc_TraceState tc)] else [])"
    using v state
    by (simp add: c Inject_def TraceContextFromContext_def Let_def Traceparent_def)
  have "ParseTraceContext (Traceparent tc) (tc_TraceState tc) = Inr tc"
    using parseTraceparent_Traceparent [OF v(1,2)] state v(3) by (simp add: ParseTraceContext_def)
  moreover have "(case map_of (Inject (Extract Background get)) ''traceparent'' of None \<Rightarrow> [] | Some v \<Rightarrow> v) = Traceparent tc"
    "(case map_of (Inject (Extract Background get)) ''tracestate'' of None \<Rightarrow> [] | Some v \<Rightarrow> v) = tc_TraceState tc"
    by (simp_all add: inj)
  ultimately show ?thesis by (simp add: Extract_def [of Background "\<lambda>k. _ k"] Extract_def [of Background get] Inr)
qed

text \<open>
  C5: Under a parent-based sampler a trace stays whole: of the spans started one from the other,
  starting at a context without a parent, either none is recorded or all are, with one trace id.
\<close>

theorem parent_based_trace_is_whole:
  assumes "all_sampler (ParentBasedSampler root) heap" "ids_valid sts"
    and "ctx_span c = None" "ctx_traceContext c = None"
  shows "\<exists>traceID keep. \<forall>sp\<in>set (start_chain heap c sts). span_decision traceID keep sp"
proof (cases sts)
  case (Cons st sts')
  obtain heap' c' sp where start:
    "Start heap (st_newTraceID st) (st_newSpanID st) c (st_name st) (st_cfg st) = (heap', c', sp)"
    by (metis surj_pair)
  have "TraceID_Valid (st_newTraceID st)" "SpanID_Valid (st_newSpanID st)" "ids_valid sts'"
    using assms(2) Cons by (simp_all add: ids_valid_def)
  with Start_root [OF assms(1) _ _ assms(3,4) start] start_chain_parent_based [of root heap' c' _ _ sts'] start Cons
  show ?thesis by fastforce
qed simp

theorem parent_based_trace_is_whole_witness:
  "\<exists>traceID keep. \<forall>sp\<in>set (start_chain (\<lambda>_. \<lparr>tr_sampler = Some (ParentBasedSampler None), tr_sampledSpans = 0\<rparr>)
      Background [\<lparr>st_newTraceID = ''4bf92f3577b34da6a3ce929d0e0e4736'', st_newSpanID = ''00f067aa0ba902b7'',
        st_name = ''GET /'', st_cfg = \<lparr>cfg_tracer = None, cfg_surface = [], cfg_lane = []\<rparr>\<rparr>]).
     span_decision traceID keep sp"
proof -
  let ?st = "\<lparr>st_newTraceID = ''4bf92f3577b34da6a3ce929d0e0e4736'', st_newSpanID = ''00f067aa0ba902b7'',
        st_name = ''GET /'', st_cfg = \<lparr>cfg_tracer = None, cfg_surface = [], cfg_lane = []\<rparr>\<rparr>"
  have "ids_valid [?st]" by code_simp
  then show ?thesis
    by (intro parent_based_trace_is_whole) (simp_all add: all_sampler_def Background_def)
qed

text \<open>
  A span that the sampler drops under an active span leaves that span the parent: the
  returned context still answers with the sampled identity of the active span, so a span
  started from it under a parent-based sampler is recorded. The unsampled identity that
  \<open>Start\<close> puts into the context is not the one a descendant reads.
\<close>

theorem dropped_under_active_span:
  assumes "ctx_span c = Some s" "Start heap newTrace newSpan c name cfg = (heap', c', None)"
  shows "TraceContextFromContext c' = (Span_TraceContext s, True) \<and> tc_Sampled (fst (TraceContextFromContext c'))"
proof -
  have "ctx_span c' = Some s"
    using assms by (auto simp: Start_def Tracer_Start_def Let_def split: if_splits prod.splits)
  then show ?thesis by (simp add: TraceContextFromContext_span Span_TraceContext_def)
qed

theorem dropped_under_active_span_witness:
  "let sampler = RuleSampler (Some (ParentBasedSampler None)) [DropSpansNamed ''health''];
       heap = (\<lambda>_. \<lparr>tr_sampler = Some sampler, tr_sampledSpans = 0\<rparr>);
       sp = \<lparr>sp_tracer = 0, sp_traceID = ''4bf92f3577b34da6a3ce929d0e0e4736'', sp_spanID = ''00f067aa0ba902b7'',
             sp_parentSpanID = [], sp_traceState = [], sp_name = ''GET /'', sp_surface = [], sp_lane = []\<rparr>;
       c = Background\<lparr>ctx_span := Some sp\<rparr>;
       cfg = \<lparr>cfg_tracer = None, cfg_surface = [], cfg_lane = []\<rparr>;
       c' = fst (snd (Start heap '''' ''00f067aa0ba902b8'' c ''health'' cfg))
   in snd (snd (Start heap '''' ''00f067aa0ba902b8'' c ''health'' cfg)) = None \<and>
      tc_Sampled (fst (TraceContextFromContext c')) \<and>
      snd (snd (Start heap '''' ''00f067aa0ba902b9'' c' ''query'' cfg)) \<noteq> None"
proof -
  define heap :: tracers where
    "heap = (\<lambda>_. \<lparr>tr_sampler = Some (RuleSampler (Some (ParentBasedSampler None)) [DropSpansNamed ''health'']), tr_sampledSpans = 0\<rparr>)"
  define sp where "sp = \<lparr>sp_tracer = 0, sp_traceID = ''4bf92f3577b34da6a3ce929d0e0e4736'', sp_spanID = ''00f067aa0ba902b7'',
             sp_parentSpanID = [], sp_traceState = [], sp_name = ''GET /'', sp_surface = [], sp_lane = []\<rparr>"
  define c where "c = Background\<lparr>ctx_span := Some sp\<rparr>"
  define cfg where "cfg = \<lparr>cfg_tracer = None, cfg_surface = [], cfg_lane = []\<rparr>"
  obtain h c' r where start: "Start heap '''' ''00f067aa0ba902b8'' c ''health'' cfg = (h, c', r)"
    by (metis surj_pair)
  have valid: "TraceID_Valid (sp_traceID sp)" "SpanID_Valid ''00f067aa0ba902b8''" "SpanID_Valid ''00f067aa0ba902b9''"
    by (simp_all add: sp_def) code_simp+
  have span: "TraceContextFromContext c = (Span_TraceContext sp, True)" by (simp add: c_def TraceContextFromContext_def)
  have r: "r = None"
    using start valid span
    by (auto simp: Start_def Tracer_Start_def heap_def cfg_def Let_def RuleSampler_def always_off_def
        DropSpansNamed_def MatchSpanName_def Span_TraceContext_def split: if_splits)
  then have drop: "TraceContextFromContext c' = (Span_TraceContext sp, True) \<and> tc_Sampled (fst (TraceContextFromContext c'))"
    by (intro dropped_under_active_span [of c sp heap]) (use start in \<open>simp_all add: c_def\<close>)
  then have "snd (snd (Start heap '''' ''00f067aa0ba902b9'' c' ''query'' cfg)) \<noteq> None"
    using valid
    by (simp add: Start_def Tracer_Start_def heap_def cfg_def Let_def RuleSampler_def always_off_def
        DropSpansNamed_def MatchSpanName_def ParentBasedSampler_def Span_TraceContext_def)
  with drop r start show ?thesis
    by (simp add: Span_TraceContext_def Let_def heap_def [symmetric] sp_def [symmetric] c_def [symmetric] cfg_def [symmetric])
qed

end
