(* ===== verification/TraceSnapshot.thy ===== *)
theory TraceSnapshot
  imports Http Paths TraceContext
begin

text \<open>
  \<open>runtime/trace\<close>, the part that bounds and prints completed spans: source paths (\<open>source.go\<close>),
  snapshots and their limits (\<open>snapshot.go\<close>), and the console sink (\<open>sink.go\<close>).

  The JSON encoder and the text of a duration belong to the standard library and are
  parameters: \<open>encode\<close> is the encoding of a snapshot (\<open>None\<close> when it fails) and \<open>durationText\<close>
  the text of \<open>time.Duration\<close>. Times are nanoseconds.
\<close>

section \<open>Source paths\<close>

datatype SourcePathMode = SourcePathRelative | SourcePathAbsolute

record SourcePolicy =
  pol_Mode :: SourcePathMode
  pol_ProjectRoot :: string

definition to_slash :: "string \<Rightarrow> string" where
  "to_slash s = map (\<lambda>c. if c = CHR 0x5C then CHR ''/'' else c) s"

definition isASCIILetter :: "char \<Rightarrow> bool" where
  "isASCIILetter c \<longleftrightarrow> is_lower c \<or> is_upper c"

definition drop_drive :: "string \<Rightarrow> string" where
  "drop_drive s = (if 2 \<le> length s \<and> s ! 1 = CHR '':'' \<and> isASCIILetter (s ! 0) then drop 2 s else s)"

function drop_up :: "string \<Rightarrow> string" where
  "drop_up s = (if HasPrefix s ''../'' then drop_up (drop 3 s) else s)"
  by pat_completeness auto
termination
  by (relation "measure length") (auto simp: prefix_def)

declare drop_up.simps [simp del]

definition reduceToProjectRelative :: "string \<Rightarrow> string \<Rightarrow> string" where
  "reduceToProjectRelative slashed root =
     (let cleanRoot = Clean (to_slash root);
          clean = Clean slashed;
          rel = TrimPrefix clean (cleanRoot @ ''/'');
          trimmed = drop_up (Clean (TrimLeft (drop_drive slashed) {CHR ''/''}))
      in if root \<noteq> [] \<and> clean = cleanRoot then ''.''
         else if root \<noteq> [] \<and> rel \<noteq> clean then rel
         else if trimmed = [] \<or> trimmed = ''.'' \<or> trimmed = ''..'' then []
         else trimmed)"

definition NormalizeSourceFile :: "string \<Rightarrow> SourcePolicy \<Rightarrow> string" where
  "NormalizeSourceFile file policy =
     (if file = [] then []
      else
        let slashed = to_slash file
        in if pol_Mode policy = SourcePathAbsolute then Clean slashed
           else reduceToProjectRelative slashed (pol_ProjectRoot policy))"

section \<open>Snapshots\<close>

datatype gofloat = Finite int | NaN | Inf

text \<open>
  The dynamic types of an attribute value the code distinguishes; \<open>ASmall\<close> stands for \<open>int8\<close>,
  \<open>int16\<close>, \<open>int32\<close>, \<open>uint8\<close> and \<open>uint16\<close>, \<open>AUint\<close> for \<open>uint\<close> and \<open>uint64\<close>.
\<close>

datatype attr_value =
    ANil
  | AString string
  | ABool bool
  | AInt int
  | ASmall int
  | AInt64 int
  | AUint32 int
  | AUint int
  | AFloat32 gofloat
  | AFloat64 gofloat
  | AStrings "string list"
  | ABools "bool list"
  | AInts "int list"
  | AInt64s "int list"
  | AFloat64s "gofloat list"
  | AAny "attr_value list"
  | AOther

record Attribute =
  at_Key :: string
  at_Value :: attr_value

record Event =
  ev_Time :: int
  ev_Level :: string
  ev_Message :: string
  ev_Attributes :: "Attribute list"

record SourceRef =
  sr_File :: string
  sr_Line :: int
  sr_Column :: int
  sr_OwnerKind :: string
  sr_OwnerID :: string

record Snapshot =
  sn_TraceID :: string
  sn_SpanID :: string
  sn_ParentSpanID :: string
  sn_Name :: string
  sn_Surface :: string
  sn_Lane :: string
  sn_Source :: SourceRef
  sn_Attributes :: "Attribute list"
  sn_Events :: "Event list"
  sn_StatusCode :: string
  sn_StatusMessage :: string
  sn_StartTime :: int
  sn_EndTime :: int
  sn_DurationNS :: int

definition limitString :: "string \<Rightarrow> nat \<Rightarrow> string" where
  "limitString value maxBytes = (if maxBytes = 0 \<or> length value \<le> maxBytes then value else take maxBytes value)"

abbreviation maxAttributeStringBytes :: nat where "maxAttributeStringBytes \<equiv> 2048"
abbreviation maxAttributeArrayLength :: nat where "maxAttributeArrayLength \<equiv> 32"
abbreviation maxAttributeCount :: nat where "maxAttributeCount \<equiv> 64"
abbreviation maxAttributeKeyBytes :: nat where "maxAttributeKeyBytes \<equiv> 128"
abbreviation maxEventCount :: nat where "maxEventCount \<equiv> 64"
abbreviation maxSnapshotEncodedBytes :: int where "maxSnapshotEncodedBytes \<equiv> 65536"

fun is_finite :: "gofloat \<Rightarrow> bool" where
  "is_finite (Finite _) = True"
| "is_finite _ = False"

fun any_strings :: "attr_value list \<Rightarrow> string list option" where
  "any_strings [] = Some []"
| "any_strings (AString s # vs) = map_option ((#) (limitString s maxAttributeStringBytes)) (any_strings vs)"
| "any_strings (_ # vs) = None"

fun any_bools :: "attr_value list \<Rightarrow> bool list option" where
  "any_bools [] = Some []"
| "any_bools (ABool b # vs) = map_option ((#) b) (any_bools vs)"
| "any_bools (_ # vs) = None"

fun any_floats :: "attr_value list \<Rightarrow> gofloat list option" where
  "any_floats [] = Some []"
| "any_floats (AFloat64 f # vs) = (if is_finite f then map_option ((#) f) (any_floats vs) else None)"
| "any_floats (_ # vs) = None"

definition normalizeAnyArray :: "attr_value list \<Rightarrow> attr_value option" where
  "normalizeAnyArray values =
     (case take maxAttributeArrayLength values of
        [] \<Rightarrow> Some (AStrings [])
      | AString s # vs \<Rightarrow> map_option AStrings (any_strings (AString s # vs))
      | ABool b # vs \<Rightarrow> map_option ABools (any_bools (ABool b # vs))
      | AFloat64 f # vs \<Rightarrow> map_option AFloat64s (any_floats (AFloat64 f # vs))
      | _ \<Rightarrow> None)"

fun normalizeAttributeValue :: "attr_value \<Rightarrow> attr_value option" where
  "normalizeAttributeValue ANil = None"
| "normalizeAttributeValue (AString s) = Some (AString (limitString s maxAttributeStringBytes))"
| "normalizeAttributeValue (ABool b) = Some (ABool b)"
| "normalizeAttributeValue (AInt i) = Some (AInt i)"
| "normalizeAttributeValue (ASmall i) = Some (AInt i)"
| "normalizeAttributeValue (AInt64 i) = Some (AInt64 i)"
| "normalizeAttributeValue (AUint32 i) = Some (AInt64 i)"
| "normalizeAttributeValue (AUint i) = (if i > 2 ^ 63 - 1 then None else Some (AInt64 i))"
| "normalizeAttributeValue (AFloat32 f) = Some (AFloat64 f)"
| "normalizeAttributeValue (AFloat64 f) = (if is_finite f then Some (AFloat64 f) else None)"
| "normalizeAttributeValue (AStrings ss) =
     Some (AStrings (map (\<lambda>s. limitString s maxAttributeStringBytes) (take maxAttributeArrayLength ss)))"
| "normalizeAttributeValue (ABools bs) = Some (ABools (take maxAttributeArrayLength bs))"
| "normalizeAttributeValue (AInts is) = Some (AInts (take maxAttributeArrayLength is))"
| "normalizeAttributeValue (AInt64s is) = Some (AInt64s (take maxAttributeArrayLength is))"
| "normalizeAttributeValue (AFloat64s fs) =
     (if list_all is_finite (take maxAttributeArrayLength fs)
      then Some (AFloat64s (take maxAttributeArrayLength fs)) else None)"
| "normalizeAttributeValue (AAny vs) = normalizeAnyArray vs"
| "normalizeAttributeValue AOther = None"

definition normalizeAttribute :: "Attribute \<Rightarrow> Attribute option" where
  "normalizeAttribute attr =
     (let key = limitString (TrimSpace (at_Key attr)) maxAttributeKeyBytes
      in if key = [] then None
         else map_option (\<lambda>v. \<lparr>at_Key = key, at_Value = v\<rparr>) (normalizeAttributeValue (at_Value attr)))"

definition cloneAttributes :: "Attribute list \<Rightarrow> Attribute list" where
  "cloneAttributes attrs = List.map_filter normalizeAttribute (take maxAttributeCount attrs)"

definition cloneEvents :: "Event list \<Rightarrow> Event list" where
  "cloneEvents events =
     map (\<lambda>event. event\<lparr>ev_Level := limitString (ev_Level event) 32,
                       ev_Message := limitString (ev_Message event) 1024,
                       ev_Attributes := cloneAttributes (ev_Attributes event)\<rparr>) (take maxEventCount events)"

definition normalizeSnapshotSource :: "SourcePolicy \<Rightarrow> Snapshot \<Rightarrow> Snapshot" where
  "normalizeSnapshotSource policy s =
     s\<lparr>sn_Source := (sn_Source s)\<lparr>sr_File := NormalizeSourceFile (sr_File (sn_Source s)) policy\<rparr>\<rparr>"

definition cloneSnapshot :: "SourcePolicy \<Rightarrow> Snapshot \<Rightarrow> Snapshot" where
  "cloneSnapshot policy s0 =
     (let s = normalizeSnapshotSource policy s0;
          src = sn_Source s
      in s\<lparr>sn_Name := limitString (sn_Name s) 512,
           sn_StatusMessage := limitString (sn_StatusMessage s) 1024,
           sn_Source := src\<lparr>sr_File := limitString (sr_File src) 512,
                            sr_OwnerKind := limitString (sr_OwnerKind src) maxAttributeStringBytes,
                            sr_OwnerID := limitString (sr_OwnerID src) maxAttributeStringBytes\<rparr>,
           sn_Attributes := cloneAttributes (sn_Attributes s),
           sn_Events := cloneEvents (sn_Events s)\<rparr>)"

definition snapshotEncodedSize :: "(Snapshot \<Rightarrow> string option) \<Rightarrow> Snapshot \<Rightarrow> int" where
  "snapshotEncodedSize encode s =
     (case encode s of None \<Rightarrow> maxSnapshotEncodedBytes + 1 | Some encoded \<Rightarrow> int (length encoded))"

datatype snapshot_error =
    InvalidPayload
  | NameTooLarge
  | StatusTooLarge
  | TooManyAttributes
  | AttributeKeyInvalid
  | AttributeUnsupported
  | TooManyEvents
  | EventTooLarge
  | EventTooManyAttributes
  | EventAttributeKeyInvalid
  | EventAttributeUnsupported
  | CannotEncode
  | SpanTooLarge

fun check_attributes :: "snapshot_error \<Rightarrow> snapshot_error \<Rightarrow> Attribute list \<Rightarrow> snapshot_error option" where
  "check_attributes bad_key bad_value [] = None"
| "check_attributes bad_key bad_value (attr # attrs) =
     (if length (TrimSpace (at_Key attr)) = 0 \<or> maxAttributeKeyBytes < length (at_Key attr) then Some bad_key
      else if normalizeAttributeValue (at_Value attr) = None then Some bad_value
      else check_attributes bad_key bad_value attrs)"

fun check_events :: "Event list \<Rightarrow> snapshot_error option" where
  "check_events [] = None"
| "check_events (event # events) =
     (if 32 < length (ev_Level event) \<or> 1024 < length (ev_Message event) then Some EventTooLarge
      else if maxAttributeCount < length (ev_Attributes event) then Some EventTooManyAttributes
      else case check_attributes EventAttributeKeyInvalid EventAttributeUnsupported (ev_Attributes event) of
        Some err \<Rightarrow> Some err
      | None \<Rightarrow> check_events events)"

definition validateSnapshot :: "(Snapshot \<Rightarrow> string option) \<Rightarrow> SourcePolicy \<Rightarrow> Snapshot \<Rightarrow> snapshot_error option" where
  "validateSnapshot encode policy s =
     (if \<not> TraceID_Valid (sn_TraceID s) \<or> \<not> SpanID_Valid (sn_SpanID s) then Some InvalidPayload
      else if 512 < length (sn_Name s) then Some NameTooLarge
      else if 1024 < length (sn_StatusMessage s) then Some StatusTooLarge
      else if maxAttributeCount < length (sn_Attributes s) then Some TooManyAttributes
      else case check_attributes AttributeKeyInvalid AttributeUnsupported (sn_Attributes s) of
        Some err \<Rightarrow> Some err
      | None \<Rightarrow>
          if maxEventCount < length (sn_Events s) then Some TooManyEvents
          else case check_events (sn_Events s) of
            Some err \<Rightarrow> Some err
          | None \<Rightarrow>
              (case encode (cloneSnapshot policy s) of
                 None \<Rightarrow> Some CannotEncode
               | Some encoded \<Rightarrow>
                   if maxSnapshotEncodedBytes < int (length encoded) then Some SpanTooLarge else None))"

section \<open>The console sink\<close>

definition isControlRune :: "rune \<Rightarrow> bool" where
  "isControlRune r \<longleftrightarrow> r < 0x20 \<or> (0x7F \<le> r \<and> r \<le> 0x9F)"

definition needsControlEscape :: "rune \<Rightarrow> bool" where
  "needsControlEscape r \<longleftrightarrow> r = 0x5C \<or> isControlRune r"

definition hex_char :: "int \<Rightarrow> char" where
  "hex_char d = char_of (if d < 10 then 48 + d else 87 + d)"

definition escape_rune :: "rune \<Rightarrow> string" where
  "escape_rune r =
     (if r = 0x5C then [CHR 0x5C, CHR 0x5C]
      else if r = 0x0A then [CHR 0x5C, CHR ''n'']
      else if r = 0x0D then [CHR 0x5C, CHR ''r'']
      else if r = 0x09 then [CHR 0x5C, CHR ''t'']
      else if isControlRune r then [CHR 0x5C, CHR ''x'', hex_char (r div 16), hex_char (r mod 16)]
      else encode_rune r)"

definition escapeControl :: "string \<Rightarrow> string" where
  "escapeControl value =
     (if value = [] \<or> \<not> list_ex needsControlEscape (runes value) then value
      else concat (map escape_rune (runes value)))"

definition formatConsoleSpan :: "(int \<Rightarrow> string) \<Rightarrow> Snapshot \<Rightarrow> string" where
  "formatConsoleSpan durationText s =
     escapeControl (sn_Name s) @ '' trace='' @ escapeControl (sn_TraceID s) @
     '' span='' @ escapeControl (sn_SpanID s) @ '' parent='' @ escapeControl (sn_ParentSpanID s) @
     '' surface='' @ escapeControl (sn_Surface s) @ '' lane='' @ escapeControl (sn_Lane s) @
     '' duration='' @ durationText (sn_DurationNS s) @ '' status='' @ escapeControl (sn_StatusCode s) @
     (if sn_StatusMessage s \<noteq> [] then '' message='' @ escapeControl (sn_StatusMessage s) else []) @
     (if sr_File (sn_Source s) \<noteq> []
      then '' source='' @ escapeControl (sr_File (sn_Source s)) @ '':'' @ Itoa (sr_Line (sn_Source s)) else []) @
     (if sn_Events s \<noteq> []
      then '' events='' @ Join (map (\<lambda>e. escapeControl (ev_Message e)) (sn_Events s)) ''|'' else []) @
     [CHR 0x0A]"

section \<open>Printed lines\<close>

text \<open>A byte that neither ends a line nor starts a 7-bit control sequence.\<close>

definition printable :: "char \<Rightarrow> bool" where
  "printable c \<longleftrightarrow> 0x20 \<le> (of_char c :: int) \<and> of_char c \<noteq> (0x7F :: int)"

lemma decode_rune_consumed:
  assumes "decode_rune bs = (r, n)" "bs \<noteq> []" "b \<in> set (take n bs)" "b < 0x80"
  shows "b = r"
proof -
  obtain b0 bs' where bs: "bs = b0 # bs'" using assms(2) by (cases bs) auto
  have two: "take 2 bs = [bs ! 0, bs ! 1]" if "2 \<le> length bs"
    using that by (cases bs; cases "tl bs") auto
  have three: "take 3 bs = [bs ! 0, bs ! 1, bs ! 2]" if "3 \<le> length bs"
    using that by (cases bs; cases "tl bs"; cases "tl (tl bs)") auto
  have four: "take 4 bs = [bs ! 0, bs ! 1, bs ! 2, bs ! 3]" if "4 \<le> length bs"
    using that by (cases bs; cases "tl bs"; cases "tl (tl bs)"; cases "tl (tl (tl bs))") auto
  have cont: "is_cont x \<Longrightarrow> \<not> x < 0x80" "second_ok x y \<Longrightarrow> \<not> y < 0x80" for x y
    by (auto simp: is_cont_def second_ok_def split: if_splits)
  show ?thesis
    using assms(1,3,4) two three four cont
    by (auto simp: decode_rune_def Let_def bs split: if_splits)
qed

lemma ascii_rune: "b \<in> set bs \<Longrightarrow> b < 0x80 \<Longrightarrow> b \<in> set (decode_runes bs)"
proof (induction bs rule: decode_runes.induct)
  case (1 bs)
  obtain r n where d: "decode_rune bs = (r, n)" by (cases "decode_rune bs")
  have ne: "bs \<noteq> []" using 1(2) by auto
  have "b \<in> set (take n bs) \<or> b \<in> set (drop n bs)" using 1(2) by (metis Un_iff append_take_drop_id set_append)
  then show ?case
  proof
    assume "b \<in> set (take n bs)"
    then have "b = r" using decode_rune_consumed [OF d ne] 1(3) by blast
    then show ?thesis using d ne by (simp add: decode_runes.simps [of bs])
  next
    assume "b \<in> set (drop n bs)"
    with 1(1) [OF ne d [symmetric]] 1(3) show ?thesis
      using d ne by (simp add: decode_runes.simps [of bs])
  qed
qed

lemma of_char_nonneg: "(0 :: int) \<le> of_char c"
  by (metis of_nat_0_le_iff of_nat_of_char)

lemma of_char_char_of_int: "0 \<le> i \<Longrightarrow> i < 256 \<Longrightarrow> (of_char (char_of i) :: int) = i" for i :: int
  by simp

lemma encode_rune_printable:
  assumes "\<not> isControlRune r" "c \<in> set (encode_rune r)"
  shows "printable c"
proof -
  define q where "q = (if r < 0 \<or> 0x10FFFF < r \<or> (0xD800 \<le> r \<and> r \<le> 0xDFFF) then 0xFFFD else r)"
  have q: "\<not> isControlRune q" "0 \<le> q" "q \<le> 0x10FFFF"
    using assms(1) by (auto simp: q_def isControlRune_def)
  obtain i :: int where c: "c = char_of i" and i: "0x20 \<le> i" "i < 256" "i \<noteq> 0x7F"
    using assms(2) q unfolding encode_rune_def Let_def q_def [symmetric] isControlRune_def
    by (auto split: if_splits)
  then show ?thesis using of_char_char_of_int [of i] by (simp add: printable_def)
qed

lemma hex_char_printable: "0 \<le> d \<Longrightarrow> d < 16 \<Longrightarrow> printable (hex_char d)"
  using of_char_char_of_int [of "48 + d"] of_char_char_of_int [of "87 + d"]
  by (auto simp: hex_char_def printable_def)

lemma decode_runes_nonneg: "\<forall>b\<in>set bs. 0 \<le> b \<Longrightarrow> r \<in> set (decode_runes bs) \<Longrightarrow> 0 \<le> r"
proof (induction bs rule: decode_runes.induct)
  case (1 bs)
  have ne: "bs \<noteq> []" using 1(3) by (auto simp: decode_runes.simps [of bs])
  obtain r' n where d: "decode_rune bs = (r', n)" by (cases "decode_rune bs")
  have "0 \<le> bs ! 0" using ne 1(2) by (cases bs) auto
  then have "0 \<le> r'"
    using d by (auto simp: decode_rune_def Let_def is_cont_def second_ok_def split: if_splits)
  moreover have "\<forall>b\<in>set (drop n bs). 0 \<le> b" using 1(2) by (meson in_set_dropD)
  ultimately show ?case
    using 1(1) [OF ne d [symmetric]] 1(3) d ne by (auto simp: decode_runes.simps [of bs])
qed

lemma escape_rune_printable:
  assumes "c \<in> set (escape_rune r)" "0 \<le> r"
  shows "printable c"
proof (cases "isControlRune r \<and> r \<notin> {0x0A, 0x0D, 0x09}")
  case True
  then have "0 \<le> r div 16" "r div 16 < 16" "0 \<le> r mod 16" "r mod 16 < 16"
    using assms(2) by (auto simp: isControlRune_def)
  with assms(1) True hex_char_printable show ?thesis
    by (auto simp: escape_rune_def printable_def split: if_splits)
next
  case False
  with assms(1) encode_rune_printable show ?thesis
    by (auto simp: escape_rune_def printable_def split: if_splits)
qed

lemma escapeControl_printable:
  assumes "c \<in> set (escapeControl value)"
  shows "printable c"
proof (cases "list_ex needsControlEscape (runes value)")
  case True
  have "0 \<le> r" if "r \<in> set (runes value)" for r
    using that by (intro decode_runes_nonneg [of "map of_char value"]) (auto simp: runes_def of_char_nonneg)
  with True assms escape_rune_printable show ?thesis by (auto simp: escapeControl_def split: if_splits)
next
  case False
  then have "c \<in> set value" using assms by (simp add: escapeControl_def)
  show ?thesis
  proof (rule ccontr)
    assume "\<not> printable c"
    then have c: "(of_char c :: int) < 0x80" "isControlRune (of_char c)"
      by (auto simp: printable_def isControlRune_def)
    have "of_char c \<in> set (map of_char value :: int list)" using \<open>c \<in> set value\<close> by simp
    then have "of_char c \<in> set (runes value)" using ascii_rune c(1) by (simp add: runes_def)
    with False c(2) show False by (auto simp: list_ex_iff needsControlEscape_def)
  qed
qed

lemma set_Join: "c \<in> set (Join ms sep) \<Longrightarrow> c \<in> set sep \<or> (\<exists>m\<in>set ms. c \<in> set m)"
  by (induction ms sep rule: Join.induct) auto

lemma printable_Itoa: "c \<in> set (Itoa i) \<Longrightarrow> printable c"
proof -
  have "is_digit c \<Longrightarrow> printable c" for c by (auto simp: is_digit_def printable_def)
  moreover have "printable CHR ''-''" by (simp add: printable_def)
  moreover assume "c \<in> set (Itoa i)"
  ultimately show ?thesis
    using nat_digits_digit by (auto simp: Itoa_def list_all_iff split: if_splits)
qed

section \<open>Relative source paths\<close>

definition relative_path :: "string \<Rightarrow> bool" where
  "relative_path s \<longleftrightarrow> \<not> HasPrefix s ''/'' \<and> ''..'' \<notin> set (Split s CHR ''/'')"

lemma Clean_not_Nil: "Clean p \<noteq> []"
  by (cases p rule: Clean_parts_cases) (auto dest: Split_Clean_parts(2))

lemma drop_up_ups:
  "drop_up (Join (replicate n ''..'' @ ps) ''/'') = (if ps = [] then drop_up (Join (replicate n ''..'') ''/'') else drop_up (Join ps ''/''))"
proof (induction n)
  case (Suc n)
  show ?case
  proof (cases "replicate n ''..'' @ ps")
    case Nil
    then show ?thesis by simp
  next
    case (Cons q qs)
    then have "Join (replicate (Suc n) ''..'' @ ps) ''/'' = ''../'' @ Join (replicate n ''..'' @ ps) ''/''" by simp
    then have "drop_up (Join (replicate (Suc n) ''..'' @ ps) ''/'') = drop_up (Join (replicate n ''..'' @ ps) ''/'')"
      by (subst drop_up.simps) simp
    moreover have "drop_up (Join (replicate (Suc n) ''..'') ''/'') = drop_up (Join (replicate n ''..'') ''/'')" if "ps = []"
      using calculation that by simp
    ultimately show ?thesis using Suc by auto
  qed
qed simp

lemma drop_up_replicate: "0 < n \<Longrightarrow> drop_up (Join (replicate n ''..'') ''/'') = ''..''"
proof (induction n)
  case (Suc n)
  show ?case
  proof (cases n)
    case 0
    then show ?thesis by (simp add: drop_up.simps)
  next
    case (Suc m)
    with Suc.IH drop_up_ups [of 1 "replicate n ''..''"] show ?thesis by simp
  qed
qed simp

lemma drop_up_clean:
  assumes "clean_list False ps" "ps \<noteq> []"
  shows "drop_up (Join ps ''/'') = ''..'' \<or> relative_path (drop_up (Join ps ''/''))"
proof -
  obtain n qs where ps: "ps = replicate n ''..'' @ qs" "''..'' \<notin> set qs"
    using assms(1) unfolding clean_list_def by blast
  show ?thesis
  proof (cases "qs = []")
    case True
    with ps assms(2) show ?thesis by (simp add: drop_up_replicate)
  next
    case False
    have elems: "list_all clean_elem qs" using assms(1) ps by (simp add: clean_list_def)
    with ps(2) have "clean_list False qs" unfolding clean_list_def by (metis append_Nil replicate_0)
    note s = Split_Clean_parts [OF this False]
    have "\<not> HasPrefix (Join qs ''/'') ''../''"
    proof
      assume "HasPrefix (Join qs ''/'') ''../''"
      then obtain r where "Join qs ''/'' = ''..'' @ CHR ''/'' # r" by (auto simp: prefix_def)
      then have "Split (Join qs ''/'') CHR ''/'' = ''..'' # Split r CHR ''/''" by simp
      with s(1) ps(2) show False by auto
    qed
    then have "drop_up (Join ps ''/'') = Join qs ''/''"
      using False by (simp add: ps(1) drop_up_ups) (simp add: drop_up.simps)
    moreover have "relative_path (Join qs ''/'')"
      using s ps(2) by (cases "Join qs ''/''") (auto simp: relative_path_def)
    ultimately show ?thesis by simp
  qed
qed

text \<open>The rest of a clean path after a clean prefix that does not start with a parent element.\<close>

lemma clean_rest_relative:
  assumes "Clean p = root @ CHR ''/'' # rel" "root \<noteq> []" "\<not> HasPrefix root ''..''"
  shows "relative_path rel"
proof (cases p rule: Clean_parts_cases)
  case dot
  with assms(1,2) show ?thesis by (cases root) auto
next
  case (parts rooted ps)
  have ps: "ps \<noteq> []" using parts assms(1,2) by (cases rooted; cases root) auto
  note s = Split_Clean_parts [OF parts(1) ps]
  have split: "Split (Clean p) CHR ''/'' = Split root CHR ''/'' @ Split rel CHR ''/''"
    using assms(1) Split_append by simp
  have "Split (Clean p) CHR ''/'' = (if rooted then [[]] else []) @ ps" using parts(3) s(1) by auto
  with split have eq: "(if rooted then [[]] else []) @ ps = Split root CHR ''/'' @ Split rel CHR ''/''" by simp
  obtain r rs where root: "Split root CHR ''/'' = r # rs" by (cases "Split root CHR ''/''") auto
  have sub: "\<exists>us. ps = us @ Split rel CHR ''/'' \<and> (\<not> rooted \<longrightarrow> us = r # rs)"
    using eq root by (cases rooted) auto
  then obtain us where us: "ps = us @ Split rel CHR ''/''" "\<not> rooted \<longrightarrow> us = r # rs" by blast
  obtain n qs where pq: "ps = replicate n ''..'' @ qs" "''..'' \<notin> set qs" "rooted \<longrightarrow> n = 0"
    using parts(1) unfolding clean_list_def by blast
  have "''..'' \<notin> set (Split rel CHR ''/'')"
  proof
    assume up: "''..'' \<in> set (Split rel CHR ''/'')"
    have "r \<noteq> ''..''"
    proof
      assume "r = ''..''"
      then have "root = Join (''..'' # rs) ''/''" using Join_Split [of root "CHR ''/''"] root by simp
      with assms(3) show False by (cases rs) auto
    qed
    moreover have "\<not> rooted" using up pq us by auto
    ultimately have "n = 0" using us pq(1) by (cases n) auto
    with pq us up show False by auto
  qed
  moreover have "[] \<notin> set (Split rel CHR ''/'')"
    using parts(1) us by (auto simp: clean_list_def list_all_iff clean_elem_def)
  then have "\<not> HasPrefix rel ''/''" by (cases rel) auto
  ultimately show ?thesis by (simp add: relative_path_def)
qed

lemma reduce_relative:
  assumes "root = [] \<or> \<not> HasPrefix (Clean (to_slash root)) ''..''"
  shows "relative_path (reduceToProjectRelative slashed root)"
proof -
  define q where "q = TrimLeft (drop_drive slashed) {CHR ''/''}"
  define trimmed where "trimmed = drop_up (Clean q)"
  have base: "relative_path ''.''" "relative_path []" by (simp_all add: relative_path_def)
  have "relative_path (TrimPrefix (Clean slashed) (Clean (to_slash root) @ ''/''))"
    if "root \<noteq> []" "TrimPrefix (Clean slashed) (Clean (to_slash root) @ ''/'') \<noteq> Clean slashed"
  proof -
    from that obtain rel where "Clean slashed = (Clean (to_slash root) @ ''/'') @ rel"
      by (auto simp: TrimPrefix_def prefix_def split: if_splits)
    then show ?thesis
      using clean_rest_relative [of slashed "Clean (to_slash root)" rel] assms that(1) Clean_not_Nil
      by (simp add: TrimPrefix_def)
  qed
  moreover have "trimmed = ''.'' \<or> trimmed = ''..'' \<or> relative_path trimmed"
  proof (cases q rule: Clean_parts_cases)
    case dot
    then show ?thesis by (simp add: trimmed_def drop_up.simps)
  next
    case (parts rooted ps)
    have "\<not> rooted" using parts(4,5) hd_dropWhile [of "\<lambda>c. c \<in> {CHR ''/''}" "drop_drive slashed"]
      by (auto simp: q_def TrimLeft_def)
    with parts drop_up_clean [of ps] show ?thesis by (auto simp: trimmed_def)
  qed
  ultimately show ?thesis
    using base by (auto simp: reduceToProjectRelative_def Let_def q_def [symmetric] trimmed_def [symmetric])
qed

section \<open>Bounds of a snapshot\<close>

lemma length_limitString: "0 < n \<Longrightarrow> length (limitString s n) \<le> n"
  by (simp add: limitString_def)

fun value_bounded :: "attr_value \<Rightarrow> bool" where
  "value_bounded (AString s) \<longleftrightarrow> length s \<le> maxAttributeStringBytes"
| "value_bounded (AStrings ss) \<longleftrightarrow>
     length ss \<le> maxAttributeArrayLength \<and> list_all (\<lambda>s. length s \<le> maxAttributeStringBytes) ss"
| "value_bounded (ABools bs) \<longleftrightarrow> length bs \<le> maxAttributeArrayLength"
| "value_bounded (AInts is) \<longleftrightarrow> length is \<le> maxAttributeArrayLength"
| "value_bounded (AInt64s is) \<longleftrightarrow> length is \<le> maxAttributeArrayLength"
| "value_bounded (AFloat64s fs) \<longleftrightarrow> length fs \<le> maxAttributeArrayLength"
| "value_bounded (ABool _) \<longleftrightarrow> True"
| "value_bounded (AInt _) \<longleftrightarrow> True"
| "value_bounded (AInt64 _) \<longleftrightarrow> True"
| "value_bounded (AFloat64 _) \<longleftrightarrow> True"
| "value_bounded _ \<longleftrightarrow> False"

definition attribute_bounded :: "Attribute \<Rightarrow> bool" where
  "attribute_bounded a \<longleftrightarrow>
     at_Key a \<noteq> [] \<and> length (at_Key a) \<le> maxAttributeKeyBytes \<and> value_bounded (at_Value a)"

definition attributes_bounded :: "Attribute list \<Rightarrow> bool" where
  "attributes_bounded as \<longleftrightarrow> length as \<le> maxAttributeCount \<and> list_all attribute_bounded as"

definition snapshot_bounded :: "Snapshot \<Rightarrow> bool" where
  "snapshot_bounded s \<longleftrightarrow>
     length (sn_Name s) \<le> 512 \<and> length (sn_StatusMessage s) \<le> 1024 \<and>
     length (sr_File (sn_Source s)) \<le> 512 \<and> length (sr_OwnerKind (sn_Source s)) \<le> maxAttributeStringBytes \<and>
     length (sr_OwnerID (sn_Source s)) \<le> maxAttributeStringBytes \<and> attributes_bounded (sn_Attributes s) \<and>
     length (sn_Events s) \<le> maxEventCount \<and>
     list_all (\<lambda>e. length (ev_Level e) \<le> 32 \<and> length (ev_Message e) \<le> 1024 \<and>
                   attributes_bounded (ev_Attributes e)) (sn_Events s)"

lemma any_strings_bounded:
  "any_strings vs = Some ss \<Longrightarrow> length ss = length vs \<and> list_all (\<lambda>s. length s \<le> maxAttributeStringBytes) ss"
  by (induction vs arbitrary: ss rule: any_strings.induct) (auto simp: length_limitString)

lemma any_bools_length: "any_bools vs = Some bs \<Longrightarrow> length bs = length vs"
  by (induction vs arbitrary: bs rule: any_bools.induct) auto

lemma any_floats_length: "any_floats vs = Some fs \<Longrightarrow> length fs = length vs"
  by (induction vs arbitrary: fs rule: any_floats.induct) (auto split: if_splits)

lemma normalizeAnyArray_bounded:
  assumes "normalizeAnyArray vs = Some w"
  shows "value_bounded w"
proof -
  let ?vs = "take maxAttributeArrayLength vs"
  have "w = AStrings [] \<or> (\<exists>ss. w = AStrings ss \<and> any_strings ?vs = Some ss) \<or>
      (\<exists>bs. w = ABools bs \<and> any_bools ?vs = Some bs) \<or> (\<exists>fs. w = AFloat64s fs \<and> any_floats ?vs = Some fs)"
    using assms by (auto simp: normalizeAnyArray_def split: list.splits attr_value.splits)
  then show ?thesis
    using any_strings_bounded [of ?vs] any_bools_length [of ?vs] any_floats_length [of ?vs] by fastforce
qed

lemma normalizeAttributeValue_bounded: "normalizeAttributeValue v = Some w \<Longrightarrow> value_bounded w"
  by (cases v) (auto simp: length_limitString list_all_iff normalizeAnyArray_bounded split: if_splits)

lemma normalizeAttribute_bounded: "normalizeAttribute a = Some b \<Longrightarrow> attribute_bounded b"
  using normalizeAttributeValue_bounded
  by (auto simp: normalizeAttribute_def attribute_bounded_def Let_def length_limitString split: if_splits)

lemma cloneAttributes_bounded: "attributes_bounded (cloneAttributes as)"
proof -
  have "length (List.map_filter normalizeAttribute xs) \<le> length xs" for xs
    by (simp add: List.map_filter_def)
  from this [of "take maxAttributeCount as"] show ?thesis
    by (auto simp: attributes_bounded_def cloneAttributes_def list_all_iff List.map_filter_def
        intro: normalizeAttribute_bounded)
qed

section \<open>Properties\<close>

text \<open>
  In relative mode the path of a span's source file never starts with a slash and has no
  parent element, whatever the recorded path is, unless the configured project root itself
  starts with a parent element.
\<close>

theorem NormalizeSourceFile_relative:
  assumes "pol_Mode policy = SourcePathRelative"
    and "pol_ProjectRoot policy = [] \<or> \<not> HasPrefix (Clean (to_slash (pol_ProjectRoot policy))) ''..''"
  shows "\<not> HasPrefix (NormalizeSourceFile file policy) ''/'' \<and>
         ''..'' \<notin> set (Split (NormalizeSourceFile file policy) CHR ''/'')"
  using assms reduce_relative [OF assms(2)]
  by (auto simp: NormalizeSourceFile_def relative_path_def Let_def)

theorem NormalizeSourceFile_relative_witness:
  "let f = NormalizeSourceFile ''/home/me/app/../app/main.gwdk'' \<lparr>pol_Mode = SourcePathRelative, pol_ProjectRoot = ''/home/me''\<rparr>
   in f = ''app/main.gwdk'' \<and> \<not> HasPrefix f ''/'' \<and> ''..'' \<notin> set (Split f CHR ''/'')"
proof -
  let ?pol = "\<lparr>pol_Mode = SourcePathRelative, pol_ProjectRoot = ''/home/me''\<rparr>"
  have "NormalizeSourceFile ''/home/me/app/../app/main.gwdk'' ?pol = ''app/main.gwdk''" by code_simp
  moreover have "\<not> HasPrefix (Clean (to_slash (pol_ProjectRoot ?pol))) ''..''" by code_simp
  ultimately show ?thesis
    using NormalizeSourceFile_relative [of ?pol "''/home/me/app/../app/main.gwdk''"] by (simp add: Let_def)
qed

text \<open>
  A line the console sink writes has one byte below 0x20, the newline at its end, and no DEL:
  no field of a span can start another line or a 7-bit escape sequence.
\<close>

theorem formatConsoleSpan_one_line:
  assumes "\<forall>c\<in>set (durationText (sn_DurationNS s)). printable c"
  shows "\<exists>line. formatConsoleSpan durationText s = line @ [CHR 0x0A] \<and> (\<forall>c\<in>set line. printable c)"
proof -
  obtain line where line: "formatConsoleSpan durationText s = line @ [CHR 0x0A]"
    by (simp add: formatConsoleSpan_def)
  have lit: "\<forall>c\<in>set ('' trace= span= parent= surface= lane= duration= status= message= source=: events=|''). printable c"
    by (simp add: printable_def)
  have "printable c" if "c \<in> set line" for c
  proof -
    have "c \<in> set (butlast (formatConsoleSpan durationText s))" using that line by simp
    then have "c \<in> set (butlast (formatConsoleSpan durationText s @ []))" by simp
    with that line lit assms show ?thesis
      by (auto simp: formatConsoleSpan_def butlast_append dest!: set_Join escapeControl_printable printable_Itoa split: if_splits)
  qed
  with line show ?thesis by blast
qed

theorem formatConsoleSpan_one_line_witness:
  "let s = \<lparr>sn_TraceID = ''4bf92f3577b34da6a3ce929d0e0e4736'', sn_SpanID = ''00f067aa0ba902b7'', sn_ParentSpanID = [],
            sn_Name = ''GET /'' @ [CHR 0x0A] @ ''forged'', sn_Surface = ''backend'', sn_Lane = ''route'',
            sn_Source = \<lparr>sr_File = [], sr_Line = 0, sr_Column = 0, sr_OwnerKind = [], sr_OwnerID = []\<rparr>,
            sn_Attributes = [], sn_Events = [], sn_StatusCode = ''ok'', sn_StatusMessage = [],
            sn_StartTime = 0, sn_EndTime = 5, sn_DurationNS = 5\<rparr>
   in \<exists>line. formatConsoleSpan (\<lambda>d. Itoa d @ ''ns'') s = line @ [CHR 0x0A] \<and> (\<forall>c\<in>set line. printable c)"
proof -
  have "\<forall>c\<in>set (Itoa 5 @ ''ns''). printable c"
    using printable_Itoa [of _ 5] by (auto simp: printable_def)
  then show ?thesis unfolding Let_def by (intro formatConsoleSpan_one_line) simp
qed

text \<open>
  A cloned snapshot is within the limits on the fields of a span: names, messages, paths, attribute keys
  and strings are truncated, attributes, events and arrays are cut at their maximal number, and
  only the supported scalar and array types are left.
\<close>

lemma cloneSnapshot_bounded: "snapshot_bounded (cloneSnapshot policy s)"
  by (simp add: snapshot_bounded_def cloneSnapshot_def normalizeSnapshotSource_def Let_def length_limitString
      cloneAttributes_bounded cloneEvents_def list_all_iff)

text \<open>
  Two limits of these guarantees. A drive letter behind a slash is not removed, so the result
  can be an absolute Windows path and a second application changes it. And the console sink
  copies a byte above 0x7F that is not part of a valid encoding, such as the 8-bit control
  sequence introducer 0x9B.
\<close>

lemma drive_letter_survives:
  "let pol = \<lparr>pol_Mode = SourcePathRelative, pol_ProjectRoot = []\<rparr>
   in NormalizeSourceFile ''/C:/Users/me/a.go'' pol = ''C:/Users/me/a.go'' \<and>
      NormalizeSourceFile (NormalizeSourceFile ''/C:/Users/me/a.go'' pol) pol = ''Users/me/a.go''"
  by code_simp

lemma c1_byte_survives: "escapeControl [CHR 0x9B, CHR ''2'', CHR ''J''] = [CHR 0x9B, CHR ''2'', CHR ''J'']"
  by code_simp

end
