(* ===== verification/TraceExport.thy ===== *)
theory TraceExport
  imports TraceSnapshot
begin

text \<open>
  \<open>runtime/trace\<close>, the part that stores and exports completed spans: the ring sink (\<open>ring.go\<close>)
  and the export queue with its single worker (\<open>export_queue.go\<close>, \<open>tracer.go\<close>).

  The methods hold a mutex, so each is one function of the state. The export queue is a step
  relation over those functions in which any number of goroutines end spans while workers run;
  the spans that were accepted and those that reached the sink are logged in the state.
\<close>

section \<open>The ring sink\<close>

definition zeroSnapshot :: Snapshot where
  "zeroSnapshot =
     \<lparr>sn_TraceID = [], sn_SpanID = [], sn_ParentSpanID = [], sn_Name = [], sn_Surface = [], sn_Lane = [],
      sn_Source = \<lparr>sr_File = [], sr_Line = 0, sr_Column = 0, sr_OwnerKind = [], sr_OwnerID = []\<rparr>,
      sn_Attributes = [], sn_Events = [], sn_StatusCode = [], sn_StatusMessage = [],
      sn_StartTime = 0, sn_EndTime = 0, sn_DurationNS = 0\<rparr>"

record RingSink =
  rs_limit :: nat
  rs_start :: nat
  rs_count :: nat
  rs_dropped :: "64 word"
  rs_totalBytes :: int
  rs_spans :: "Snapshot list"
  rs_sizes :: "int list"

abbreviation maxRingStoredBytes :: int where "maxRingStoredBytes \<equiv> 1048576"

definition NewRingSink :: "int \<Rightarrow> RingSink" where
  "NewRingSink limit =
     (let n = (if limit \<le> 0 then 256 else nat limit)
      in \<lparr>rs_limit = n, rs_start = 0, rs_count = 0, rs_dropped = 0, rs_totalBytes = 0,
          rs_spans = replicate n zeroSnapshot, rs_sizes = replicate n 0\<rparr>)"

definition dropOldestLocked :: "RingSink \<Rightarrow> RingSink" where
  "dropOldestLocked s =
     s\<lparr>rs_totalBytes := rs_totalBytes s - rs_sizes s ! rs_start s,
       rs_spans := (rs_spans s)[rs_start s := zeroSnapshot],
       rs_sizes := (rs_sizes s)[rs_start s := 0],
       rs_start := (rs_start s + 1) mod rs_limit s,
       rs_count := rs_count s - 1,
       rs_dropped := rs_dropped s + 1\<rparr>"

function make_room :: "int \<Rightarrow> RingSink \<Rightarrow> RingSink" where
  "make_room sz s =
     (if 0 < rs_count s \<and> (rs_count s = rs_limit s \<or> rs_totalBytes s + sz > maxRingStoredBytes)
      then make_room sz (dropOldestLocked s) else s)"
  by pat_completeness auto
termination
  by (relation "measure (\<lambda>(sz, s). rs_count s)") (auto simp: dropOldestLocked_def)

declare make_room.simps [simp del]

definition store_span :: "Snapshot \<Rightarrow> int \<Rightarrow> RingSink \<Rightarrow> RingSink" where
  "store_span span sz s =
     (let index = (rs_start s + rs_count s) mod rs_limit s
      in s\<lparr>rs_spans := (rs_spans s)[index := span],
           rs_sizes := (rs_sizes s)[index := sz],
           rs_totalBytes := rs_totalBytes s + sz,
           rs_count := rs_count s + 1\<rparr>)"

definition RingSink_RecordSpan ::
  "(Snapshot \<Rightarrow> string option) \<Rightarrow> SourcePolicy \<Rightarrow> string option \<Rightarrow> Snapshot \<Rightarrow> RingSink \<Rightarrow> string option \<times> RingSink" where
  "RingSink_RecordSpan encode policy ctxErr span0 s =
     (case ctxErr of
        Some err \<Rightarrow> (Some err, s)
      | None \<Rightarrow>
          let span = cloneSnapshot policy span0;
              sz = snapshotEncodedSize encode span
          in if sz > maxSnapshotEncodedBytes then (None, s\<lparr>rs_dropped := rs_dropped s + 1\<rparr>)
             else (None, store_span span sz (make_room sz s)))"

definition RingSink_Spans :: "SourcePolicy \<Rightarrow> RingSink \<Rightarrow> Snapshot list" where
  "RingSink_Spans policy s =
     map (\<lambda>offset. cloneSnapshot policy (rs_spans s ! ((rs_start s + offset) mod rs_limit s))) [0..<rs_count s]"

section \<open>The export queue\<close>

record export_tracer =
  et_hasSink :: bool
  et_queue :: "Snapshot list"
  et_capacity :: int
  et_workerRunning :: bool
  et_inFlight :: bool
  et_accepted :: "64 word"
  et_completed :: "64 word"
  et_dropped :: "64 word"
  et_exported :: "64 word"
  et_failures :: "64 word"
  et_timeouts :: "64 word"
  et_lastNS :: int
  et_maxNS :: int

abbreviation DefaultExportQueueSize :: int where "DefaultExportQueueSize \<equiv> 256"

text \<open>\<open>NewTracer\<close> with \<open>WithExportQueueSize\<close>: a size that is not positive keeps the default.\<close>

definition NewExportTracer :: "bool \<Rightarrow> int \<Rightarrow> export_tracer" where
  "NewExportTracer hasSink sz =
     \<lparr>et_hasSink = hasSink, et_queue = [], et_capacity = (if sz > 0 then sz else DefaultExportQueueSize),
      et_workerRunning = False, et_inFlight = False, et_accepted = 0, et_completed = 0, et_dropped = 0,
      et_exported = 0, et_failures = 0, et_timeouts = 0, et_lastNS = 0, et_maxNS = 0\<rparr>"

text \<open>The flag tells whether the caller starts a worker.\<close>

definition enqueueExport :: "Snapshot \<Rightarrow> export_tracer \<Rightarrow> export_tracer \<times> bool" where
  "enqueueExport snapshot t =
     (if \<not> et_hasSink t then (t, False)
      else
        let t1 = (if et_capacity t \<le> 0 then t\<lparr>et_capacity := DefaultExportQueueSize\<rparr> else t)
        in if int (length (et_queue t1)) \<ge> et_capacity t1 then (t1\<lparr>et_dropped := et_dropped t1 + 1\<rparr>, False)
           else (t1\<lparr>et_queue := et_queue t1 @ [snapshot], et_accepted := et_accepted t1 + 1,
                    et_workerRunning := True\<rparr>, \<not> et_workerRunning t1))"

definition nextExport :: "export_tracer \<Rightarrow> export_tracer \<times> Snapshot option" where
  "nextExport t =
     (case et_queue t of
        [] \<Rightarrow> (t\<lparr>et_workerRunning := False, et_inFlight := False\<rparr>, None)
      | snapshot # queue \<Rightarrow> (t\<lparr>et_queue := queue, et_inFlight := True\<rparr>, Some snapshot))"

definition finishExport :: "export_tracer \<Rightarrow> export_tracer" where
  "finishExport t = t\<lparr>et_inFlight := False, et_completed := et_completed t + 1\<rparr>"

text \<open>\<open>exportOne\<close>: \<open>failed\<close> and \<open>timedOut\<close> are the outcome of the sink, a panic included.\<close>

definition recordExport :: "int \<Rightarrow> bool \<Rightarrow> bool \<Rightarrow> export_tracer \<Rightarrow> export_tracer" where
  "recordExport duration failed timedOut t =
     (let ns = (if duration < 0 then 0 else duration);
          t1 = t\<lparr>et_lastNS := ns, et_maxNS := (if ns \<le> et_maxNS t then et_maxNS t else ns)\<rparr>;
          t2 = (if timedOut then t1\<lparr>et_timeouts := et_timeouts t1 + 1\<rparr> else t1)
      in if failed then t2\<lparr>et_failures := et_failures t2 + 1\<rparr> else t2\<lparr>et_exported := et_exported t2 + 1\<rparr>)"

definition exportOne :: "int \<Rightarrow> bool \<Rightarrow> bool \<Rightarrow> export_tracer \<Rightarrow> export_tracer" where
  "exportOne duration sinkFailed timedOut t = recordExport duration (sinkFailed \<or> timedOut) timedOut t"

text \<open>A goroutine of \<open>drainExports\<close> is before \<open>nextExport\<close>, in \<open>exportOne\<close> or before \<open>finishExport\<close>.\<close>

datatype worker = AtNext | Exporting Snapshot | Finishing

record export_state =
  es_tracer :: export_tracer
  es_workers :: "worker list"
  es_log :: "Snapshot list"
  es_sunk :: "Snapshot list"

definition spawn :: "Snapshot \<Rightarrow> export_state \<Rightarrow> export_state" where
  "spawn x s =
     (case enqueueExport x (es_tracer s) of
        (t, start) \<Rightarrow>
          s\<lparr>es_tracer := t,
            es_workers := es_workers s @ (if start then [AtNext] else []),
            es_log := es_log s @ (if et_accepted t \<noteq> et_accepted (es_tracer s) then [x] else [])\<rparr>)"

inductive worker_step :: "export_state \<Rightarrow> export_state \<Rightarrow> bool" where
  stop:
    "i < length (es_workers s) \<Longrightarrow> es_workers s ! i = AtNext \<Longrightarrow> nextExport (es_tracer s) = (t, None) \<Longrightarrow>
     worker_step s (s\<lparr>es_tracer := t, es_workers := take i (es_workers s) @ drop (Suc i) (es_workers s)\<rparr>)"
| pick:
    "i < length (es_workers s) \<Longrightarrow> es_workers s ! i = AtNext \<Longrightarrow> nextExport (es_tracer s) = (t, Some x) \<Longrightarrow>
     worker_step s (s\<lparr>es_tracer := t, es_workers := (es_workers s)[i := Exporting x]\<rparr>)"
| export:
    "i < length (es_workers s) \<Longrightarrow> es_workers s ! i = Exporting x \<Longrightarrow>
     worker_step s (s\<lparr>es_tracer := exportOne duration failed timedOut (es_tracer s),
                      es_workers := (es_workers s)[i := Finishing], es_sunk := es_sunk s @ [x]\<rparr>)"
| finish:
    "i < length (es_workers s) \<Longrightarrow> es_workers s ! i = Finishing \<Longrightarrow>
     worker_step s (s\<lparr>es_tracer := finishExport (es_tracer s), es_workers := (es_workers s)[i := AtNext]\<rparr>)"

inductive export_step :: "export_state \<Rightarrow> export_state \<Rightarrow> bool" where
  enqueue: "export_step s (spawn x s)"
| work: "worker_step s s' \<Longrightarrow> export_step s s'"

inductive_cases worker_stepE: "worker_step s s'"
inductive_cases export_stepE: "export_step s s'"

definition export_init :: "bool \<Rightarrow> int \<Rightarrow> export_state" where
  "export_init hasSink sz = \<lparr>es_tracer = NewExportTracer hasSink sz, es_workers = [], es_log = [], es_sunk = []\<rparr>"

inductive export_reachable :: "bool \<Rightarrow> int \<Rightarrow> export_state \<Rightarrow> bool" for hasSink sz where
  init: "export_reachable hasSink sz (export_init hasSink sz)"
| step: "export_reachable hasSink sz s \<Longrightarrow> export_step s s' \<Longrightarrow> export_reachable hasSink sz s'"

text \<open>
  \<open>Flush\<close> waits until the count of completed exports reaches the count accepted at its call, or until
  its context ends. It looks at the count under the lock and waits without it, so that other goroutines
  step in between; \<open>cancel\<close> is the error of the context when it ends, \<open>None\<close> for a context that does not.
\<close>

definition flush_caught_up :: "64 word \<Rightarrow> export_state \<Rightarrow> bool" where
  "flush_caught_up target s \<longleftrightarrow> \<not> et_completed (es_tracer s) < target"

datatype flush = Checking "64 word" | Waiting "64 word" | Returned "string option"

definition Flush :: "export_state \<Rightarrow> flush" where
  "Flush s = Checking (et_accepted (es_tracer s))"

inductive flush_step :: "string option \<Rightarrow> export_state \<times> flush \<Rightarrow> export_state \<times> flush \<Rightarrow> bool" for cancel where
  check_done: "flush_caught_up target s \<Longrightarrow> flush_step cancel (s, Checking target) (s, Returned None)"
| check_wait: "\<not> flush_caught_up target s \<Longrightarrow> flush_step cancel (s, Checking target) (s, Waiting target)"
| notified: "flush_step cancel (s, Waiting target) (s, Checking target)"
| cancelled: "cancel = Some err \<Longrightarrow> flush_step cancel (s, Waiting target) (s, Returned (Some err))"
| others: "export_step s s' \<Longrightarrow> flush_step cancel (s, fl) (s', fl)"

section \<open>The ring as a list\<close>

definition contents :: "RingSink \<Rightarrow> (Snapshot \<times> int) list" where
  "contents s =
     map (\<lambda>offset. (rs_spans s ! ((rs_start s + offset) mod rs_limit s),
                    rs_sizes s ! ((rs_start s + offset) mod rs_limit s))) [0..<rs_count s]"

definition bytes :: "(Snapshot \<times> int) list \<Rightarrow> int" where
  "bytes xs = sum_list (map snd xs)"

definition ring_inv :: "RingSink \<Rightarrow> bool" where
  "ring_inv s \<longleftrightarrow>
     0 < rs_limit s \<and> length (rs_spans s) = rs_limit s \<and> length (rs_sizes s) = rs_limit s \<and>
     rs_start s < rs_limit s \<and> rs_count s \<le> rs_limit s \<and>
     rs_totalBytes s = bytes (contents s) \<and> rs_totalBytes s \<le> maxRingStoredBytes"

fun spec_room :: "nat \<Rightarrow> int \<Rightarrow> (Snapshot \<times> int) list \<Rightarrow> (Snapshot \<times> int) list" where
  "spec_room limit sz [] = []"
| "spec_room limit sz (x # xs) =
     (if length (x # xs) = limit \<or> bytes (x # xs) + sz > maxRingStoredBytes then spec_room limit sz xs
      else x # xs)"

lemma length_contents [simp]: "length (contents s) = rs_count s"
  by (simp add: contents_def)

lemma contents_dropOldest:
  assumes "ring_inv s" "0 < rs_count s"
  shows "contents (dropOldestLocked s) = tl (contents s)"
    "hd (contents s) = (rs_spans s ! rs_start s, rs_sizes s ! rs_start s)"
proof -
  let ?n = "rs_limit s"
  have inv: "0 < ?n" "rs_start s < ?n" "rs_count s \<le> ?n" using assms(1) by (auto simp: ring_inv_def)
  have shift: "((rs_start s + 1) mod ?n + j) mod ?n = (rs_start s + Suc j) mod ?n" for j
    by (simp add: mod_add_left_eq)
  have neq: "rs_start s \<noteq> (rs_start s + Suc j) mod ?n" if "Suc j < rs_count s" for j
  proof -
    have "Suc j < ?n" using that inv by simp
    then show ?thesis using inv by (auto simp: mod_if)
  qed
  have "contents s = map (\<lambda>offset. (rs_spans s ! ((rs_start s + offset) mod ?n), rs_sizes s ! ((rs_start s + offset) mod ?n)))
      (0 # map Suc [0..<rs_count s - 1])"
    using assms(2) by (simp add: contents_def map_Suc_upt upt_conv_Cons flip: upt_rec)
  then have c: "contents s = (rs_spans s ! rs_start s, rs_sizes s ! rs_start s) #
      map (\<lambda>j. (rs_spans s ! ((rs_start s + Suc j) mod ?n), rs_sizes s ! ((rs_start s + Suc j) mod ?n))) [0..<rs_count s - 1]"
    using inv by (simp add: o_def)
  then show "hd (contents s) = (rs_spans s ! rs_start s, rs_sizes s ! rs_start s)" by simp
  have d: "rs_start (dropOldestLocked s) = (rs_start s + 1) mod ?n" "rs_count (dropOldestLocked s) = rs_count s - 1"
      "rs_limit (dropOldestLocked s) = ?n" "rs_spans (dropOldestLocked s) = (rs_spans s)[rs_start s := zeroSnapshot]"
      "rs_sizes (dropOldestLocked s) = (rs_sizes s)[rs_start s := 0]"
    by (simp_all add: dropOldestLocked_def)
  have "contents (dropOldestLocked s) =
      map (\<lambda>j. (rs_spans s ! ((rs_start s + Suc j) mod ?n), rs_sizes s ! ((rs_start s + Suc j) mod ?n))) [0..<rs_count s - 1]"
    unfolding contents_def d shift by (rule map_cong [OF refl]) (use neq in auto)
  with c show "contents (dropOldestLocked s) = tl (contents s)" by simp
qed

lemma ring_inv_dropOldest:
  assumes "ring_inv s" "0 < rs_count s" "\<forall>x\<in>set (contents s). 0 \<le> snd x"
  shows "ring_inv (dropOldestLocked s)"
proof -
  note c = contents_dropOldest [OF assms(1,2)]
  have ne: "contents s \<noteq> []" using assms(2) by (metis length_contents length_greater_0_conv)
  then have "bytes (contents s) = rs_sizes s ! rs_start s + bytes (tl (contents s))"
    using c(2) by (cases "contents s") (auto simp: bytes_def)
  moreover have "0 \<le> rs_sizes s ! rs_start s" using c(2) assms(3) ne by (metis hd_in_set snd_conv)
  ultimately show ?thesis
    using assms(1,2) c(1) by (auto simp: ring_inv_def dropOldestLocked_def)
qed

lemma make_room_refines:
  assumes "ring_inv s" "\<forall>x\<in>set (contents s). 0 \<le> snd x" "0 \<le> sz" "sz \<le> maxRingStoredBytes"
  shows "ring_inv (make_room sz s) \<and> contents (make_room sz s) = spec_room (rs_limit s) sz (contents s) \<and>
    rs_limit (make_room sz s) = rs_limit s \<and> rs_count (make_room sz s) < rs_limit s \<and>
    rs_totalBytes (make_room sz s) + sz \<le> maxRingStoredBytes \<and>
    rs_dropped (make_room sz s) + of_nat (rs_count (make_room sz s)) = rs_dropped s + of_nat (rs_count s)"
  using assms
proof (induction sz s rule: make_room.induct)
  case (1 sz s)
  show ?case
  proof (cases "0 < rs_count s \<and> (rs_count s = rs_limit s \<or> rs_totalBytes s + sz > maxRingStoredBytes)")
    case True
    note c = contents_dropOldest [OF 1(2)]
    obtain x xs where xs: "contents s = x # xs"
      using True by (cases "contents s") (auto simp flip: length_contents)
    have tl: "contents (dropOldestLocked s) = xs" using c True xs by simp
    have "ring_inv (dropOldestLocked s)" using ring_inv_dropOldest 1(2,3) True by blast
    note IH = 1(1) [OF True this]
    have "rs_totalBytes s = bytes (contents s)" using 1(2) by (simp add: ring_inv_def)
    then have "spec_room (rs_limit s) sz (contents s) = spec_room (rs_limit s) sz xs"
      using True xs length_contents [of s] by auto
    moreover have "rs_dropped (dropOldestLocked s) + of_nat (rs_count (dropOldestLocked s)) = rs_dropped s + of_nat (rs_count s)"
      using True by (cases "rs_count s") (auto simp: dropOldestLocked_def)
    moreover have "rs_limit (dropOldestLocked s) = rs_limit s" by (simp add: dropOldestLocked_def)
    ultimately show ?thesis using IH 1(3-5) True tl xs by (simp add: make_room.simps [of sz s])
  next
    case False
    have room: "rs_count s < rs_limit s" "rs_totalBytes s + sz \<le> maxRingStoredBytes"
      using False 1(2,5) by (auto simp: ring_inv_def bytes_def contents_def)
    moreover have "spec_room (rs_limit s) sz (contents s) = contents s"
      using False 1(2) length_contents [of s] by (cases "contents s") (auto simp: ring_inv_def)
    ultimately show ?thesis using False 1(2) by (simp add: make_room.simps [of sz s])
  qed
qed

lemma store_span_refines:
  assumes "ring_inv s" "rs_count s < rs_limit s" "rs_totalBytes s + sz \<le> maxRingStoredBytes"
  shows "ring_inv (store_span x sz s)" "contents (store_span x sz s) = contents s @ [(x, sz)]"
proof -
  let ?n = "rs_limit s" and ?i = "(rs_start s + rs_count s) mod rs_limit s"
  have inv: "0 < ?n" "rs_start s < ?n" "length (rs_spans s) = ?n" "length (rs_sizes s) = ?n"
    using assms(1) by (auto simp: ring_inv_def)
  then have "?i < ?n" by simp
  moreover have "?i \<noteq> (rs_start s + j) mod ?n" if "j < rs_count s" for j
    using that assms(2) inv by (auto simp: mod_if)
  ultimately show c: "contents (store_span x sz s) = contents s @ [(x, sz)]"
    using inv by (auto simp: contents_def store_span_def Let_def)
  show "ring_inv (store_span x sz s)"
    using assms c by (auto simp: ring_inv_def) (auto simp: store_span_def Let_def bytes_def ring_inv_def)
qed

text \<open>Room is made from the old end and only as much as is needed.\<close>

lemma spec_room_suffix: "suffix (spec_room limit sz xs) xs"
  by (induction xs) (auto simp: suffix_Cons)

section \<open>Histories of the ring\<close>

fun record_all :: "(Snapshot \<Rightarrow> string option) \<Rightarrow> SourcePolicy \<Rightarrow> Snapshot list \<Rightarrow> RingSink \<Rightarrow> RingSink" where
  "record_all encode policy [] s = s"
| "record_all encode policy (x # xs) s =
     record_all encode policy xs (snd (RingSink_RecordSpan encode policy None x s))"

definition accepted :: "(Snapshot \<Rightarrow> string option) \<Rightarrow> SourcePolicy \<Rightarrow> Snapshot list \<Rightarrow> (Snapshot \<times> int) list" where
  "accepted encode policy xs =
     filter (\<lambda>x. snd x \<le> maxSnapshotEncodedBytes)
       (map (\<lambda>x. (cloneSnapshot policy x, snapshotEncodedSize encode (cloneSnapshot policy x))) xs)"

definition spec_record :: "nat \<Rightarrow> (Snapshot \<times> int) list \<Rightarrow> (Snapshot \<times> int) \<Rightarrow> (Snapshot \<times> int) list" where
  "spec_record limit xs x = spec_room limit (snd x) xs @ [x]"

lemma encoded_size_nonneg: "0 \<le> snapshotEncodedSize encode x"
  by (simp add: snapshotEncodedSize_def split: option.split)

definition ring_ok :: "RingSink \<Rightarrow> bool" where
  "ring_ok s \<longleftrightarrow> ring_inv s \<and> (\<forall>x\<in>set (contents s). 0 \<le> snd x)"

lemma record_step:
  fixes x :: Snapshot and encode :: "Snapshot \<Rightarrow> string option" and policy :: SourcePolicy
  assumes "ring_ok s"
  defines "s' \<equiv> snd (RingSink_RecordSpan encode policy None x s)"
  shows "ring_ok s'" "rs_limit s' = rs_limit s"
    "contents s' = foldl (spec_record (rs_limit s)) (contents s) (accepted encode policy [x])"
    "rs_dropped s' + of_nat (rs_count s') = rs_dropped s + of_nat (rs_count s) + 1"
proof -
  let ?x = "cloneSnapshot policy x"
  let ?sz = "snapshotEncodedSize encode ?x"
  have inv: "ring_inv s" "\<forall>x\<in>set (contents s). 0 \<le> snd x" using assms(1) by (auto simp: ring_ok_def)
  consider (large) "?sz > maxSnapshotEncodedBytes" "s' = s\<lparr>rs_dropped := rs_dropped s + 1\<rparr>"
    | (ok) "?sz \<le> maxSnapshotEncodedBytes" "s' = store_span ?x ?sz (make_room ?sz s)"
    by (force simp: s'_def RingSink_RecordSpan_def Let_def)
  then have "ring_ok s' \<and> rs_limit s' = rs_limit s \<and>
      contents s' = foldl (spec_record (rs_limit s)) (contents s) (accepted encode policy [x]) \<and>
      rs_dropped s' + of_nat (rs_count s') = rs_dropped s + of_nat (rs_count s) + 1"
  proof cases
    case large
    then have "contents s' = contents s" by (simp add: contents_def)
    with large inv show ?thesis by (simp add: ring_ok_def ring_inv_def accepted_def)
  next
    case ok
    note room = make_room_refines [OF inv encoded_size_nonneg [of encode ?x]]
    have "rs_count s' = rs_count (make_room ?sz s) + 1" "rs_dropped s' = rs_dropped (make_room ?sz s)"
        "rs_limit s' = rs_limit (make_room ?sz s)"
      by (simp_all add: ok store_span_def Let_def)
    moreover have "set (spec_room (rs_limit s) ?sz (contents s)) \<subseteq> set (contents s)"
      by (meson set_mono_suffix spec_room_suffix)
    ultimately show ?thesis
      using room store_span_refines [of "make_room ?sz s" ?sz ?x] ok inv encoded_size_nonneg [of encode ?x]
      by (auto simp: ring_ok_def accepted_def spec_record_def)
  qed
  then show "ring_ok s'" "rs_limit s' = rs_limit s"
    "contents s' = foldl (spec_record (rs_limit s)) (contents s) (accepted encode policy [x])"
    "rs_dropped s' + of_nat (rs_count s') = rs_dropped s + of_nat (rs_count s) + 1" by blast+
qed

lemma record_all_refines:
  fixes xs :: "Snapshot list" and encode :: "Snapshot \<Rightarrow> string option" and policy :: SourcePolicy
  assumes "ring_ok s"
  defines "s' \<equiv> record_all encode policy xs s"
  shows "ring_ok s' \<and> rs_limit s' = rs_limit s \<and>
    contents s' = foldl (spec_record (rs_limit s)) (contents s) (accepted encode policy xs) \<and>
    rs_dropped s' + of_nat (rs_count s') = rs_dropped s + of_nat (rs_count s) + of_nat (length xs)"
  unfolding s'_def using assms(1)
proof (induction xs arbitrary: s)
  case (Cons x xs)
  note step = record_step [OF Cons.prems, of encode policy x]
  have "accepted encode policy (x # xs) = accepted encode policy [x] @ accepted encode policy xs"
    by (simp add: accepted_def)
  with Cons.IH [OF step(1)] step(2,3,4) show ?case by (simp add: algebra_simps)
qed (simp add: accepted_def)

lemma spec_record_suffix: "suffix (foldl (spec_record limit) ys xs) (ys @ xs)"
proof (induction xs arbitrary: ys)
  case (Cons x xs)
  have "suffix (spec_record limit ys x) (ys @ [x])"
    by (simp add: spec_record_def spec_room_suffix)
  then have "suffix (spec_record limit ys x @ xs) ((ys @ [x]) @ xs)" by (auto simp: suffix_def)
  with Cons [of "spec_record limit ys x"] show ?case by (auto intro: suffix_order.trans)
qed simp

lemma ring_ok_new: "ring_ok (NewRingSink limit)" "contents (NewRingSink limit) = []"
  by (simp_all add: NewRingSink_def ring_ok_def ring_inv_def contents_def bytes_def Let_def)

section \<open>The invariant of the export queue\<close>

fun picked :: "worker list \<Rightarrow> Snapshot list" where
  "picked [Exporting x] = [x]"
| "picked _ = []"

definition export_inv :: "export_state \<Rightarrow> bool" where
  "export_inv s \<longleftrightarrow>
     (let t = es_tracer s
      in 0 < et_capacity t \<and> int (length (et_queue t)) \<le> et_capacity t \<and>
         length (es_workers s) \<le> 1 \<and> (et_workerRunning t \<longleftrightarrow> es_workers s \<noteq> []) \<and>
         (es_workers s = [] \<longrightarrow> et_queue t = []) \<and>
         (et_inFlight t \<longleftrightarrow> es_workers s = [Finishing] \<or> picked (es_workers s) \<noteq> []) \<and>
         es_log s = es_sunk s @ picked (es_workers s) @ et_queue t \<and>
         (es_workers s = [Finishing] \<longrightarrow> es_sunk s \<noteq> []) \<and>
         et_accepted t = of_nat (length (es_log s)) \<and>
         et_completed t + (if es_workers s = [Finishing] then 1 else 0) = of_nat (length (es_sunk s)))"

lemma one_worker:
  assumes "export_inv s" "i < length (es_workers s)" "es_workers s ! i = w"
  shows "i = 0" "es_workers s = [w]"
  using assms by (auto simp: export_inv_def Let_def length_Suc_conv le_Suc_eq)

lemma recordExport_fields [simp]:
  "et_queue (exportOne d f to t) = et_queue t" "et_capacity (exportOne d f to t) = et_capacity t"
  "et_workerRunning (exportOne d f to t) = et_workerRunning t" "et_inFlight (exportOne d f to t) = et_inFlight t"
  "et_accepted (exportOne d f to t) = et_accepted t" "et_completed (exportOne d f to t) = et_completed t"
  "et_hasSink (exportOne d f to t) = et_hasSink t"
  by (simp_all add: exportOne_def recordExport_def Let_def)

lemma export_inv_init: "export_inv (export_init hasSink sz)"
  by (simp add: export_inv_def export_init_def NewExportTracer_def)

lemma export_inv_worker:
  assumes "export_inv s" "worker_step s s'"
  shows "export_inv s'"
  using assms(2)
proof (cases rule: worker_step.cases)
  case (stop i t)
  note w = one_worker [OF assms(1) stop(2,3)]
  from stop(4) have "et_queue (es_tracer s) = []" "t = (es_tracer s)\<lparr>et_workerRunning := False, et_inFlight := False\<rparr>"
    by (auto simp: nextExport_def split: list.splits)
  with assms(1) w stop show ?thesis by (auto simp: export_inv_def Let_def)
next
  case (pick i t x)
  note w = one_worker [OF assms(1) pick(2,3)]
  from pick(4) obtain q where "et_queue (es_tracer s) = x # q" "t = (es_tracer s)\<lparr>et_queue := q, et_inFlight := True\<rparr>"
    by (auto simp: nextExport_def split: list.splits)
  with assms(1) w pick show ?thesis by (auto simp: export_inv_def Let_def)
next
  case (export i x duration failed timedOut)
  note w = one_worker [OF assms(1) export(2,3)]
  with assms(1) export show ?thesis by (auto simp: export_inv_def Let_def)
next
  case (finish i)
  note w = one_worker [OF assms(1) finish(2,3)]
  with assms(1) finish show ?thesis by (auto simp: export_inv_def Let_def finishExport_def)
qed

lemma export_inv_spawn:
  assumes "export_inv s"
  shows "export_inv (spawn x s)"
proof -
  let ?t = "es_tracer s"
  have cap: "0 < et_capacity ?t" using assms by (simp add: export_inv_def Let_def)
  have "spawn x s =
      (if \<not> et_hasSink ?t then s
       else if et_capacity ?t \<le> int (length (et_queue ?t)) then s\<lparr>es_tracer := ?t\<lparr>et_dropped := et_dropped ?t + 1\<rparr>\<rparr>
       else s\<lparr>es_tracer := ?t\<lparr>et_queue := et_queue ?t @ [x], et_accepted := et_accepted ?t + 1, et_workerRunning := True\<rparr>,
         es_workers := es_workers s @ (if et_workerRunning ?t then [] else [AtNext]), es_log := es_log s @ [x]\<rparr>)"
    using cap by (simp add: spawn_def enqueueExport_def Let_def)
  then consider (same) "spawn x s = s" | (dropped) "spawn x s = s\<lparr>es_tracer := ?t\<lparr>et_dropped := et_dropped ?t + 1\<rparr>\<rparr>"
    | (added) "int (length (et_queue ?t)) < et_capacity ?t"
      "spawn x s = s\<lparr>es_tracer := ?t\<lparr>et_queue := et_queue ?t @ [x], et_accepted := et_accepted ?t + 1, et_workerRunning := True\<rparr>,
         es_workers := es_workers s @ (if et_workerRunning ?t then [] else [AtNext]), es_log := es_log s @ [x]\<rparr>"
    by (auto split: if_splits)
  then show ?thesis
  proof cases
    case added
    have "picked (es_workers s @ (if et_workerRunning ?t then [] else [AtNext])) = picked (es_workers s)"
      using assms by (auto simp: export_inv_def Let_def)
    with assms added show ?thesis by (auto simp: export_inv_def Let_def)
  qed (use assms in \<open>auto simp: export_inv_def Let_def\<close>)
qed

lemma export_inv_step: "export_inv s \<Longrightarrow> export_step s s' \<Longrightarrow> export_inv s'"
  by (erule export_stepE) (auto intro: export_inv_spawn export_inv_worker)

lemma export_reachable_inv: "export_reachable hasSink sz s \<Longrightarrow> export_inv s"
  by (induction rule: export_reachable.induct) (auto intro: export_inv_init export_inv_step)

lemma export_step_log: "export_step s s' \<Longrightarrow> prefix (es_log s) (es_log s')"
  by (auto elim!: export_stepE worker_stepE simp: spawn_def split: prod.split)

lemma export_steps_log: "export_step\<^sup>*\<^sup>* s s' \<Longrightarrow> prefix (es_log s) (es_log s')"
  by (induction rule: rtranclp_induct) (auto dest: export_step_log intro: prefix_order.trans)

lemma export_steps_inv: "export_step\<^sup>*\<^sup>* s s' \<Longrightarrow> export_inv s \<Longrightarrow> export_inv s'"
  by (induction rule: rtranclp_induct) (auto dest: export_inv_step)

text \<open>The work that is left: each step of a worker decreases it.\<close>

fun worker_weight :: "worker \<Rightarrow> nat" where
  "worker_weight AtNext = 1"
| "worker_weight (Exporting _) = 3"
| "worker_weight Finishing = 2"

definition export_work :: "export_state \<Rightarrow> nat" where
  "export_work s = 4 * length (et_queue (es_tracer s)) + sum_list (map worker_weight (es_workers s))"

lemma worker_step_work:
  assumes "export_inv s" "worker_step s s'"
  shows "export_work s' < export_work s"
  using assms(2)
proof (cases rule: worker_step.cases)
  case (stop i t)
  with one_worker [OF assms(1) stop(2,3)] show ?thesis
    by (auto simp: export_work_def nextExport_def split: list.splits)
next
  case (pick i t x)
  with one_worker [OF assms(1) pick(2,3)] show ?thesis
    by (auto simp: export_work_def nextExport_def split: list.splits)
next
  case (export i x duration failed timedOut)
  with one_worker [OF assms(1) export(2,3)] show ?thesis by (auto simp: export_work_def)
next
  case (finish i)
  with one_worker [OF assms(1) finish(2,3)] show ?thesis by (auto simp: export_work_def finishExport_def)
qed

lemma worker_can_step:
  assumes "export_inv s" "es_workers s \<noteq> []"
  shows "\<exists>s'. worker_step s s'"
proof -
  obtain w where w: "es_workers s = [w]"
    using assms by (cases "es_workers s") (auto simp: export_inv_def Let_def)
  show ?thesis
  proof (cases w)
    case AtNext
    then show ?thesis
      using w worker_step.stop [of 0 s] worker_step.pick [of 0 s]
      by (cases "nextExport (es_tracer s)"; cases "snd (nextExport (es_tracer s))") fastforce+
  next
    case (Exporting x)
    then show ?thesis using w worker_step.export [of 0 s x] by fastforce
  next
    case Finishing
    then show ?thesis using w worker_step.finish [of 0 s] by fastforce
  qed
qed

section \<open>Runs of Flush\<close>

lemma worker_step_sunk: "worker_step s s' \<Longrightarrow> prefix (es_sunk s) (es_sunk s')"
  by (auto elim!: worker_stepE)

lemma export_step_sunk: "export_step s s' \<Longrightarrow> prefix (es_sunk s) (es_sunk s')"
  by (auto elim!: export_stepE dest: worker_step_sunk simp: spawn_def split: prod.split)

lemma unat_length: "length xs < 2 ^ 64 \<Longrightarrow> unat (of_nat (length xs) :: 64 word) = length xs"
  by (simp add: unat_of_nat take_bit_nat_eq_self)

lemma caught_up_delivered:
  assumes "export_inv s0" "export_step\<^sup>*\<^sup>* s0 s" "flush_caught_up (et_accepted (es_tracer s0)) s" "length (es_log s) < 2 ^ 64"
  shows "prefix (es_log s0) (es_sunk s)"
proof -
  have inv: "export_inv s" by (rule export_steps_inv [OF assms(2,1)])
  have log: "prefix (es_log s0) (es_log s)" by (rule export_steps_log [OF assms(2)])
  have sunk: "prefix (es_sunk s) (es_log s)" using inv by (auto simp: export_inv_def Let_def)
  have lens: "length (es_log s0) < 2 ^ 64" "length (es_sunk s) < 2 ^ 64"
    using prefix_length_le [OF log] prefix_length_le [OF sunk] assms(4) by linarith+
  have acc: "unat (et_accepted (es_tracer s0)) = length (es_log s0)"
  proof -
    have "et_accepted (es_tracer s0) = of_nat (length (es_log s0))" using assms(1) unfolding export_inv_def Let_def by blast
    then show ?thesis using unat_length [OF lens(1)] by (simp only:)
  qed
  have "unat (et_completed (es_tracer s)) \<le> length (es_sunk s)"
  proof (cases "es_workers s = [Finishing]")
    case True
    then have completed: "et_completed (es_tracer s) + 1 = of_nat (length (es_sunk s))" "es_sunk s \<noteq> []"
      using inv by (auto simp: export_inv_def Let_def)
    then have "et_completed (es_tracer s) = of_nat (length (es_sunk s) - 1)"
      by (simp add: of_nat_diff Suc_leI flip: eq_diff_eq)
    then show ?thesis using lens(2) by (simp add: unat_of_nat take_bit_nat_eq_self)
  next
    case False
    then show ?thesis using inv lens(2) by (simp add: export_inv_def Let_def unat_of_nat take_bit_nat_eq_self)
  qed
  then have "length (es_log s0) \<le> length (es_sunk s)"
    using assms(3) acc by (simp add: flush_caught_up_def word_less_nat_alt)
  with log sunk show ?thesis by (meson prefix_length_prefix)
qed

definition flush_inv :: "string option \<Rightarrow> export_state \<Rightarrow> export_state \<Rightarrow> flush \<Rightarrow> bool" where
  "flush_inv cancel s0 s fl \<longleftrightarrow>
     (case fl of
        Checking target \<Rightarrow> target = et_accepted (es_tracer s0)
      | Waiting target \<Rightarrow> target = et_accepted (es_tracer s0)
      | Returned None \<Rightarrow> prefix (es_log s0) (es_sunk s)
      | Returned (Some err) \<Rightarrow> cancel = Some err)"

lemma flush_run:
  assumes "(flush_step cancel)\<^sup>*\<^sup>* (s0, fl0) (s, fl)" "fl0 = Flush s0" "export_inv s0"
  shows "export_step\<^sup>*\<^sup>* s0 s \<and> (length (es_log s) < 2 ^ 64 \<longrightarrow> flush_inv cancel s0 s fl)"
  using assms(1)
proof (induction s fl rule: rtranclp_induct2)
  case refl
  then show ?case using assms(2) by (simp add: flush_inv_def Flush_def)
next
  case (step s fl s' fl')
  from step.hyps(2) show ?case
  proof cases
    case (check_done target)
    with step.IH caught_up_delivered [OF assms(3), of s] show ?thesis by (auto simp: flush_inv_def)
  next
    case others
    then have log: "prefix (es_log s) (es_log s')" and sunk: "prefix (es_sunk s) (es_sunk s')"
      by (auto dest: export_step_log export_step_sunk)
    from others step.IH have "export_step\<^sup>*\<^sup>* s0 s'" by auto
    moreover have "flush_inv cancel s0 s' fl'" if "length (es_log s') < 2 ^ 64"
    proof -
      from that log have "length (es_log s) < 2 ^ 64" by (meson le_less_trans prefix_length_le)
      with step.IH others sunk show ?thesis
        by (auto simp: flush_inv_def split: flush.splits option.splits intro: prefix_order.trans)
    qed
    ultimately show ?thesis by blast
  qed (use step.IH in \<open>auto simp: flush_inv_def\<close>)
qed

section \<open>Properties\<close>

text \<open>
  C7: After any spans are recorded in a new ring, the ring holds a suffix of the accepted spans
  in their order, at most its limit of them and at most one mebibyte, room having been made
  from the oldest only as needed; and every recorded span is stored or counted as dropped
  (modulo the 64 bits of the counter).
\<close>

theorem RingSink_history:
  "let s = record_all encode policy xs (NewRingSink limit); lim = (if limit \<le> 0 then 256 else nat limit)
     in contents s = foldl (spec_record lim) [] (accepted encode policy xs) \<and>
        suffix (contents s) (accepted encode policy xs) \<and>
        rs_count s \<le> lim \<and> rs_totalBytes s = bytes (contents s) \<and> rs_totalBytes s \<le> maxRingStoredBytes \<and>
        RingSink_Spans policy s = map (cloneSnapshot policy \<circ> fst) (contents s) \<and>
        rs_dropped s + of_nat (rs_count s) = of_nat (length xs)"
proof -
  let ?s = "record_all encode policy xs (NewRingSink limit)"
  have lim: "rs_limit (NewRingSink limit) = (if limit \<le> 0 then 256 else nat limit)" "rs_dropped (NewRingSink limit) = 0" "rs_count (NewRingSink limit) = 0"
    by (simp_all add: NewRingSink_def Let_def)
  note r = record_all_refines [OF ring_ok_new(1), of encode policy xs limit]
  have "RingSink_Spans policy ?s = map (cloneSnapshot policy \<circ> fst) (contents ?s)"
    by (simp add: RingSink_Spans_def contents_def)
  moreover have "suffix (contents ?s) (accepted encode policy xs)"
    using r ring_ok_new(2) spec_record_suffix [of "rs_limit (NewRingSink limit)" "[]" "accepted encode policy xs"] by simp
  ultimately show ?thesis
    using r lim ring_ok_new(2) by (auto simp: Let_def ring_ok_def ring_inv_def)
qed

text \<open>
  C6: Every span a ring holds is within all limits of the package: its name, message, source, attributes
  and events are cut to their limits, and it has an encoding of at most 64 kibibytes. What \<open>Spans\<close>
  returns, which is copied once more, is within the limits of the fields.
\<close>

theorem RingSink_bounded:
  "list_all (\<lambda>(x, sz). snapshot_bounded x \<and>
       (\<exists>text. encode x = Some text \<and> sz = int (length text) \<and> length text \<le> 64 * 1024))
     (contents (record_all encode policy xs (NewRingSink limit))) \<and>
   list_all snapshot_bounded (RingSink_Spans policy (record_all encode policy xs (NewRingSink limit)))"
proof -
  let ?s = "record_all encode policy xs (NewRingSink limit)"
  have "suffix (contents ?s) (accepted encode policy xs)"
    using record_all_refines [OF ring_ok_new(1), of encode policy xs limit] ring_ok_new(2)
      spec_record_suffix [of "rs_limit (NewRingSink limit)" "[]" "accepted encode policy xs"] by simp
  then have sub: "set (contents ?s) \<subseteq> set (accepted encode policy xs)" by (rule set_mono_suffix)
  have "snapshot_bounded x \<and> (\<exists>text. encode x = Some text \<and> sz = int (length text) \<and> length text \<le> 64 * 1024)"
    if "(x, sz) \<in> set (contents ?s)" for x sz
  proof -
    from that sub obtain y where "x = cloneSnapshot policy y" "sz = snapshotEncodedSize encode x" "sz \<le> maxSnapshotEncodedBytes"
      by (auto simp: accepted_def)
    then show ?thesis using cloneSnapshot_bounded [of policy y] by (auto simp: snapshotEncodedSize_def split: option.splits)
  qed
  moreover have "list_all snapshot_bounded (RingSink_Spans policy ?s)"
    by (simp add: RingSink_Spans_def list_all_iff cloneSnapshot_bounded)
  ultimately show ?thesis by (auto simp: list_all_iff)
qed

text \<open>
  C2: In every reachable state of the export queue there is at most one worker, the queue is
  within its capacity, spans reach the sink in the order they were accepted and none is lost
  or duplicated, and a waiting span always has a worker that will take it.
\<close>

theorem export_queue_safe:
  assumes "export_reachable hasSink sz s"
  shows "int (length (et_queue (es_tracer s))) \<le> et_capacity (es_tracer s) \<and> length (es_workers s) \<le> 1 \<and>
    es_log s = es_sunk s @ picked (es_workers s) @ et_queue (es_tracer s) \<and>
    et_accepted (es_tracer s) = et_completed (es_tracer s) + of_nat (length (et_queue (es_tracer s))) +
      (if et_inFlight (es_tracer s) then 1 else 0) \<and>
    (et_queue (es_tracer s) \<noteq> [] \<longrightarrow> es_workers s \<noteq> [])"
proof -
  have inv: "export_inv s" by (rule export_reachable_inv [OF assms])
  then consider "es_workers s = []" | w where "es_workers s = [w]"
    by (cases "es_workers s") (auto simp: export_inv_def Let_def)
  then show ?thesis
  proof cases
    case (2 w)
    with inv show ?thesis by (cases w) (auto simp: export_inv_def Let_def)
  qed (use inv in \<open>auto simp: export_inv_def Let_def\<close>)
qed

theorem export_queue_safe_witness:
  "let s = spawn zeroSnapshot (export_init True 1) in export_reachable True 1 s \<and> length (es_workers s) \<le> 1"
proof -
  have r: "export_reachable True 1 (spawn zeroSnapshot (export_init True 1))"
    by (intro export_reachable.step [OF export_reachable.init] export_step.enqueue)
  with export_queue_safe [OF r] show ?thesis by (simp add: Let_def)
qed

text \<open>
  C8: \<open>Flush\<close>, called in any reachable state and interleaved with any other goroutines, returns without
  an error only when every span accepted before its call has been handed to the sink, in order; it
  returns an error only when its context has ended, and even then the spans that are not delivered
  yet are still with the worker or in the queue. The counter of accepted spans has not wrapped.
\<close>

theorem Flush_complete:
  assumes "export_reachable hasSink sz s0" "(flush_step cancel)\<^sup>*\<^sup>* (s0, Flush s0) (s, Returned r)"
    and "length (es_log s) < 2 ^ 64"
  shows "case r of
      None \<Rightarrow> prefix (es_log s0) (es_sunk s)
    | Some err \<Rightarrow> cancel = Some err \<and> prefix (es_log s0) (es_sunk s @ picked (es_workers s) @ et_queue (es_tracer s))"
proof -
  have inv0: "export_inv s0" by (rule export_reachable_inv [OF assms(1)])
  have run: "export_step\<^sup>*\<^sup>* s0 s" "flush_inv cancel s0 s (Returned r)"
    using flush_run [OF assms(2) refl inv0] assms(3) by auto
  have "prefix (es_log s0) (es_log s)" by (rule export_steps_log [OF run(1)])
  moreover have "es_log s = es_sunk s @ picked (es_workers s) @ et_queue (es_tracer s)"
    using export_steps_inv [OF run(1) inv0] by (simp add: export_inv_def Let_def)
  ultimately show ?thesis using run(2) by (auto simp: flush_inv_def split: option.splits)
qed

theorem Flush_complete_witness:
  "\<exists>s. (flush_step None)\<^sup>*\<^sup>* (spawn zeroSnapshot (export_init True 1), Flush (spawn zeroSnapshot (export_init True 1))) (s, Returned None) \<and>
       es_sunk s = [zeroSnapshot] \<and> prefix (es_log (spawn zeroSnapshot (export_init True 1))) (es_sunk s)"
proof -
  define s0 where "s0 = spawn zeroSnapshot (export_init True 1)"
  define s1 where "s1 = s0\<lparr>es_tracer := fst (nextExport (es_tracer s0)), es_workers := [Exporting zeroSnapshot]\<rparr>"
  define s2 where "s2 = s1\<lparr>es_tracer := exportOne 5 False False (es_tracer s1), es_workers := [Finishing], es_sunk := [zeroSnapshot]\<rparr>"
  define s3 where "s3 = s2\<lparr>es_tracer := finishExport (es_tracer s2), es_workers := [AtNext]\<rparr>"
  have r: "export_reachable True 1 s0"
    unfolding s0_def by (intro export_reachable.step [OF export_reachable.init] export_step.enqueue)
  have s0: "es_workers s0 = [AtNext]" "et_queue (es_tracer s0) = [zeroSnapshot]" "es_sunk s0 = []"
      "et_accepted (es_tracer s0) = 1" "et_completed (es_tracer s0) = 0"
    by (simp_all add: s0_def spawn_def enqueueExport_def export_init_def NewExportTracer_def)
  have "worker_step s0 s1"
    using worker_step.pick [of 0 s0 "fst (nextExport (es_tracer s0))" zeroSnapshot] s0
    by (simp add: s1_def nextExport_def)
  moreover have "worker_step s1 s2"
    using worker_step.export [of 0 s1 zeroSnapshot 5 False False] s0 by (simp add: s1_def s2_def)
  moreover have "worker_step s2 s3"
    using worker_step.finish [of 0 s2] by (simp add: s2_def s3_def)
  ultimately have "(flush_step None)\<^sup>*\<^sup>* (s0, Flush s0) (s3, Flush s0)"
    by (meson export_step.work flush_step.others r_into_rtranclp rtranclp.rtrancl_into_rtrancl)
  moreover have "flush_caught_up (et_accepted (es_tracer s0)) s3" and s3: "es_sunk s3 = [zeroSnapshot]" "length (es_log s3) < 2 ^ 64"
    using s0 by (simp_all add: flush_caught_up_def s3_def s2_def s1_def finishExport_def nextExport_def s0_def spawn_def enqueueExport_def
        export_init_def NewExportTracer_def)
  ultimately have steps: "(flush_step None)\<^sup>*\<^sup>* (s0, Flush s0) (s3, Returned None)"
    using flush_step.check_done [of "et_accepted (es_tracer s0)" s3 None]
    by (auto simp: Flush_def intro: rtranclp.rtrancl_into_rtrancl)
  with Flush_complete [OF r steps s3(2)] s3(1) show ?thesis unfolding s0_def by auto
qed

text \<open>
  C9: \<open>Flush\<close> cannot wait forever on an idle queue: while a span accepted before is not
  completed, a worker has a step to take, and every step of a worker decreases the work left.
\<close>

theorem Flush_progress:
  assumes "export_reachable hasSink sz s"
  shows "(flush_caught_up (et_accepted (es_tracer s)) s \<or> (\<exists>s'. worker_step s s')) \<and>
         (\<forall>s'. worker_step s s' \<longrightarrow> export_work s' < export_work s)"
proof -
  have inv: "export_inv s" by (rule export_reachable_inv [OF assms])
  have "flush_caught_up (et_accepted (es_tracer s)) s" if "es_workers s = []"
    using inv that by (auto simp: export_inv_def Let_def flush_caught_up_def)
  with worker_can_step [OF inv] worker_step_work [OF inv] show ?thesis by blast
qed

theorem Flush_progress_witness:
  "let s = spawn zeroSnapshot (export_init True 1)
   in flush_caught_up (et_accepted (es_tracer s)) s \<or> (\<exists>s'. worker_step s s')"
proof -
  have r: "export_reachable True 1 (spawn zeroSnapshot (export_init True 1))"
    by (intro export_reachable.step [OF export_reachable.init] export_step.enqueue)
  from Flush_progress [OF r] show ?thesis by (simp add: Let_def)
qed

end
