(* ===== verification/Contracts.thy ===== *)
theory Contracts
  imports TraceContext "HOL-Library.Product_Lexorder" "HOL-Library.Multiset"
begin

text \<open>
  \<open>runtime/contracts\<close>: the registry of queries, commands, events and jobs, its role checks, the
  execution of contracts, the events a command records and their dispatch.

  A Go type is its \<open>typeName\<close>, a value of type \<open>any\<close> is a value with its type name. A Go map
  is the list of its pairs in the order an iteration visits them. Handlers run in a world
  \<open>'w\<close> of the application; a command handler returns the \<open>Emit\<close> calls it made. The
  identifiers \<open>NewEventID\<close> draws are the argument \<open>newID\<close>. Spans are not modelled: without a
  tracer in the context \<open>startContractSpan\<close> returns the context as it is. Messages of errors
  are left out, their kind, contract and cause are kept.
\<close>

section \<open>Data\<close>

type_synonym role = string

datatype kind = Query | Command | EventKind | Job

fun kind_string :: "kind \<Rightarrow> string" where
  "kind_string Query = ''query''"
| "kind_string Command = ''command''"
| "kind_string EventKind = ''event''"
| "kind_string Job = ''job''"

type_synonym category = string

abbreviation DomainEvent :: category where "DomainEvent \<equiv> ''domain''"
abbreviation IntegrationEvent :: category where "IntegrationEvent \<equiv> ''integration''"
abbreviation PresentationEvent :: category where "PresentationEvent \<equiv> ''presentation''"
abbreviation RoleAny :: role where "RoleAny \<equiv> ''any''"

datatype errorKind =
    ErrDuplicateHandler
  | ErrMissingHandler
  | ErrUnsupportedHandler
  | ErrNilHandler
  | ErrNoEventRecorder
  | ErrSubscriberFailed
  | ErrRoleNotAllowed

text \<open>An error is a contract error or one of the application, which may wrap others.\<close>

datatype cerror =
    ContractError errorKind string "cerror option"
  | AppError string "cerror list"

fun as_contract :: "cerror \<Rightarrow> errorKind option" and as_contracts :: "cerror list \<Rightarrow> errorKind option" where
  "as_contract (ContractError k _ _) = Some k"
| "as_contract (AppError _ es) = as_contracts es"
| "as_contracts [] = None"
| "as_contracts (e # es) = (case as_contract e of Some k \<Rightarrow> Some k | None \<Rightarrow> as_contracts es)"

definition Is :: "cerror \<Rightarrow> errorKind \<Rightarrow> bool" where
  "Is err k \<longleftrightarrow> as_contract err = Some k"

datatype 'v any = Any (any_type: string) (any_val: 'v)

record 'v EventEnvelope =
  ee_ID :: string
  ee_TraceParent :: string
  ee_Audience :: "string list"
  ee_Category :: category
  ee_Type :: string
  ee_Value :: "'v any"

record QueryInvalidation =
  qi_EventCategory :: category
  qi_EventType :: string
  qi_QueryType :: string

record Metadata =
  md_Kind :: kind
  md_EventCategory :: category
  md_Type :: string
  md_Result :: string
  md_Handlers :: int
  md_Roles :: "role list"

record 'v emit_call =
  em_category :: category
  em_type :: string
  em_value :: "'v any"
  em_audience :: "string list"

type_synonym ('v, 'w) query_handler = "ctx \<Rightarrow> 'v \<Rightarrow> 'w \<Rightarrow> (cerror + 'v) \<times> 'w"
type_synonym ('v, 'w) command_handler = "ctx \<Rightarrow> 'v \<Rightarrow> 'w \<Rightarrow> (cerror + 'v) \<times> 'v emit_call list \<times> 'w"
type_synonym ('v, 'w) event_handler = "ctx \<Rightarrow> 'v \<Rightarrow> 'w \<Rightarrow> cerror option \<times> 'w"

record ('v, 'w) queryEntry =
  qe_query :: string
  qe_result :: string
  qe_handler :: "('v, 'w) query_handler"
  qe_roles :: "role list"

record ('v, 'w) commandEntry =
  ce_command :: string
  ce_result :: string
  ce_handler :: "('v, 'w) command_handler"
  ce_roles :: "role list"

record ('v, 'w) eventEntry =
  ve_dispatch :: "(ctx \<Rightarrow> 'v any \<Rightarrow> 'w \<Rightarrow> cerror option \<times> 'w) option"
  ve_roles :: "role list"

record ('v, 'w) jobEntry =
  je_job :: string
  je_handler :: "('v, 'w) event_handler"
  je_roles :: "role list"

record ('v, 'w) registry =
  rg_queries :: "(string \<times> ('v, 'w) queryEntry) list"
  rg_commands :: "(string \<times> ('v, 'w) commandEntry) list"
  rg_events :: "((category \<times> string) \<times> ('v, 'w) eventEntry list) list"
  rg_jobs :: "(string \<times> ('v, 'w) jobEntry) list"
  rg_invalidations :: "QueryInvalidation list"

definition NewRegistry :: "('v, 'w) registry" where
  "NewRegistry = \<lparr>rg_queries = [], rg_commands = [], rg_events = [], rg_jobs = [], rg_invalidations = []\<rparr>"

section \<open>Roles\<close>

definition rolesAllow :: "role list \<Rightarrow> role \<Rightarrow> bool" where
  "rolesAllow roles role \<longleftrightarrow>
     (if role = [] \<or> roles = [] then True else list_ex (\<lambda>candidate. candidate = role \<or> candidate = RoleAny) roles)"

definition roleMayExecute :: "role list \<Rightarrow> role \<Rightarrow> bool" where
  "roleMayExecute roles role \<longleftrightarrow>
     (if role = [] then True
      else if roles = [] then False
      else list_ex (\<lambda>candidate. candidate = role \<or> candidate = RoleAny) roles)"

definition eventEntriesForRole :: "('v, 'w) eventEntry list \<Rightarrow> role \<Rightarrow> ('v, 'w) eventEntry list" where
  "eventEntriesForRole entries role =
     (if role = [] then entries else filter (\<lambda>entry. rolesAllow (ve_roles entry) role) entries)"

definition eventsForCategory :: "'v EventEnvelope list \<Rightarrow> category \<Rightarrow> 'v EventEnvelope list" where
  "eventsForCategory events cat = filter (\<lambda>event. ee_Category event = cat) events"

definition eventRoles :: "('v, 'w) eventEntry list \<Rightarrow> role list" where
  "eventRoles entries = sort (remdups (concat (map ve_roles entries)))"

section \<open>Registration\<close>

text \<open>A registry that is \<open>nil\<close>, or a handler that is \<open>nil\<close>, is \<open>None\<close>.\<close>

definition RegisterQuery ::
  "string \<Rightarrow> string \<Rightarrow> ('v, 'w) query_handler option \<Rightarrow> role list \<Rightarrow> ('v, 'w) registry option \<Rightarrow>
   cerror + ('v, 'w) registry" where
  "RegisterQuery query result handler roles registry =
     (case handler of
        None \<Rightarrow> Inl (ContractError ErrNilHandler query None)
      | Some h \<Rightarrow>
          (case registry of
             None \<Rightarrow> Inl (ContractError ErrNilHandler query None)
           | Some r \<Rightarrow>
               if map_of (rg_queries r) query \<noteq> None then Inl (ContractError ErrDuplicateHandler query None)
               else Inr (r\<lparr>rg_queries := (query, \<lparr>qe_query = query, qe_result = result, qe_handler = h, qe_roles = roles\<rparr>)
                           # rg_queries r\<rparr>)))"

definition RegisterCommand ::
  "string \<Rightarrow> string \<Rightarrow> ('v, 'w) command_handler option \<Rightarrow> role list \<Rightarrow> ('v, 'w) registry option \<Rightarrow>
   cerror + ('v, 'w) registry" where
  "RegisterCommand command result handler roles registry =
     (case handler of
        None \<Rightarrow> Inl (ContractError ErrNilHandler command None)
      | Some h \<Rightarrow>
          (case registry of
             None \<Rightarrow> Inl (ContractError ErrNilHandler command None)
           | Some r \<Rightarrow>
               if map_of (rg_commands r) command \<noteq> None then Inl (ContractError ErrDuplicateHandler command None)
               else Inr (r\<lparr>rg_commands := (command, \<lparr>ce_command = command, ce_result = result, ce_handler = h, ce_roles = roles\<rparr>)
                           # rg_commands r\<rparr>)))"

definition RegisterJob ::
  "string \<Rightarrow> ('v, 'w) event_handler option \<Rightarrow> role list \<Rightarrow> ('v, 'w) registry option \<Rightarrow> cerror + ('v, 'w) registry" where
  "RegisterJob job handler roles registry =
     (case handler of
        None \<Rightarrow> Inl (ContractError ErrNilHandler job None)
      | Some h \<Rightarrow>
          (case registry of
             None \<Rightarrow> Inl (ContractError ErrNilHandler job None)
           | Some r \<Rightarrow>
               if map_of (rg_jobs r) job \<noteq> None then Inl (ContractError ErrDuplicateHandler job None)
               else Inr (r\<lparr>rg_jobs := (job, \<lparr>je_job = job, je_handler = h, je_roles = roles\<rparr>) # rg_jobs r\<rparr>)))"

text \<open>The type assertion in front of an event handler.\<close>

definition eventDispatcher :: "string \<Rightarrow> ('v, 'w) event_handler \<Rightarrow> ctx \<Rightarrow> 'v any \<Rightarrow> 'w \<Rightarrow> cerror option \<times> 'w" where
  "eventDispatcher typ handler c value w =
     (if any_type value \<noteq> typ then (Some (ContractError ErrUnsupportedHandler typ None), w)
      else handler c (any_val value) w)"

fun update_pairs :: "'k \<Rightarrow> 'a \<Rightarrow> ('k \<times> 'a) list \<Rightarrow> ('k \<times> 'a) list" where
  "update_pairs k v [] = [(k, v)]"
| "update_pairs k v ((k', v') # ps) = (if k = k' then (k, v) # ps else (k', v') # update_pairs k v ps)"

definition event_entries :: "('v, 'w) registry \<Rightarrow> category \<times> string \<Rightarrow> ('v, 'w) eventEntry list" where
  "event_entries r key = (case map_of (rg_events r) key of None \<Rightarrow> [] | Some entries \<Rightarrow> entries)"

definition registerEvent ::
  "category \<Rightarrow> string \<Rightarrow> ('v, 'w) event_handler option \<Rightarrow> role list \<Rightarrow> ('v, 'w) registry option \<Rightarrow>
   cerror + ('v, 'w) registry" where
  "registerEvent cat typ handler roles registry =
     (case handler of
        None \<Rightarrow> Inl (ContractError ErrNilHandler typ None)
      | Some h \<Rightarrow>
          (case registry of
             None \<Rightarrow> Inl (ContractError ErrNilHandler typ None)
           | Some r \<Rightarrow>
               Inr (r\<lparr>rg_events := update_pairs (cat, typ)
                       (event_entries r (cat, typ) @ [\<lparr>ve_dispatch = Some (eventDispatcher typ h), ve_roles = roles\<rparr>])
                       (rg_events r)\<rparr>)))"

definition RegisterInvalidation :: "string \<Rightarrow> string \<Rightarrow> ('v, 'w) registry option \<Rightarrow> cerror + ('v, 'w) registry" where
  "RegisterInvalidation event query registry =
     (case registry of
        None \<Rightarrow> Inl (ContractError ErrNilHandler [] None)
      | Some r \<Rightarrow>
          let invalidation = \<lparr>qi_EventCategory = DomainEvent, qi_EventType = event, qi_QueryType = query\<rparr>
          in if invalidation \<in> set (rg_invalidations r) then Inr r
             else Inr (r\<lparr>rg_invalidations := rg_invalidations r @ [invalidation]\<rparr>))"

section \<open>Metadata\<close>

definition metadata_key :: "Metadata \<Rightarrow> string \<times> string \<times> string" where
  "metadata_key m = (kind_string (md_Kind m), md_EventCategory m, md_Type m)"

definition query_metadata :: "role \<Rightarrow> string \<times> ('v, 'w) queryEntry \<Rightarrow> Metadata list" where
  "query_metadata role p =
     (let entry = snd p
      in if roleMayExecute (qe_roles entry) role
         then [\<lparr>md_Kind = Query, md_EventCategory = [], md_Type = qe_query entry, md_Result = qe_result entry,
                md_Handlers = 1, md_Roles = qe_roles entry\<rparr>] else [])"

definition command_metadata :: "role \<Rightarrow> string \<times> ('v, 'w) commandEntry \<Rightarrow> Metadata list" where
  "command_metadata role p =
     (let entry = snd p
      in if roleMayExecute (ce_roles entry) role
         then [\<lparr>md_Kind = Command, md_EventCategory = [], md_Type = ce_command entry, md_Result = ce_result entry,
                md_Handlers = 1, md_Roles = ce_roles entry\<rparr>] else [])"

definition event_metadata :: "role \<Rightarrow> (category \<times> string) \<times> ('v, 'w) eventEntry list \<Rightarrow> Metadata list" where
  "event_metadata role p =
     (let key = fst p; allowedEntries = eventEntriesForRole (snd p) role
      in if 0 < length allowedEntries
         then [\<lparr>md_Kind = EventKind, md_EventCategory = fst key, md_Type = snd key, md_Result = [],
                md_Handlers = int (length allowedEntries), md_Roles = eventRoles allowedEntries\<rparr>] else [])"

definition job_metadata :: "role \<Rightarrow> string \<times> ('v, 'w) jobEntry \<Rightarrow> Metadata list" where
  "job_metadata role p =
     (let entry = snd p
      in if rolesAllow (je_roles entry) role
         then [\<lparr>md_Kind = Job, md_EventCategory = [], md_Type = je_job entry, md_Result = [],
                md_Handlers = 1, md_Roles = je_roles entry\<rparr>] else [])"

definition contractsForRole :: "('v, 'w) registry \<Rightarrow> role \<Rightarrow> Metadata list" where
  "contractsForRole r role =
     sort_key metadata_key
       (concat (map (query_metadata role) (rg_queries r)) @ concat (map (command_metadata role) (rg_commands r)) @
        concat (map (event_metadata role) (rg_events r)) @ concat (map (job_metadata role) (rg_jobs r)))"

definition Contracts :: "('v, 'w) registry option \<Rightarrow> Metadata list" where
  "Contracts registry = (case registry of None \<Rightarrow> [] | Some r \<Rightarrow> contractsForRole r [])"

definition ContractsForRole :: "('v, 'w) registry option \<Rightarrow> role \<Rightarrow> Metadata list" where
  "ContractsForRole registry role = (case registry of None \<Rightarrow> [] | Some r \<Rightarrow> contractsForRole r role)"

definition invalidation_key :: "QueryInvalidation \<Rightarrow> string \<times> string \<times> string" where
  "invalidation_key q = (qi_EventCategory q, qi_EventType q, qi_QueryType q)"

definition Invalidations :: "('v, 'w) registry option \<Rightarrow> QueryInvalidation list" where
  "Invalidations registry =
     (case registry of None \<Rightarrow> [] | Some r \<Rightarrow> sort_key invalidation_key (rg_invalidations r))"

section \<open>Audiences and recorded events\<close>

fun normalize_labels :: "string list \<Rightarrow> string list \<Rightarrow> string list" where
  "normalize_labels [] out = out"
| "normalize_labels (label0 # audience) out =
     (let trimmed = TrimSpace label0;
          label = (if 128 < length trimmed then take 128 trimmed else trimmed)
      in if trimmed = [] then normalize_labels audience out
         else if label \<in> set out then normalize_labels audience out
         else if length (out @ [label]) = 16 then out @ [label]
         else normalize_labels audience (out @ [label]))"

definition normalizeAudience :: "string list \<Rightarrow> string list" where
  "normalizeAudience audience = (if audience = [] then [] else normalize_labels audience [])"

definition AudienceLabels :: "'v EventEnvelope \<Rightarrow> string list" where
  "AudienceLabels event = normalizeAudience (ee_Audience event)"

text \<open>\<open>emitWithAudience\<close> outside of a command has no recorder.\<close>

definition emitWithAudience ::
  "'v emit_call \<Rightarrow> 'v emit_call list option \<Rightarrow> cerror + 'v emit_call list" where
  "emitWithAudience call recorder =
     (case recorder of
        None \<Rightarrow> Inl (ContractError ErrNoEventRecorder (em_type call) None)
      | Some events \<Rightarrow> Inr (events @ [call\<lparr>em_audience := normalizeAudience (em_audience call)\<rparr>]))"

fun record_calls :: "'v emit_call list \<Rightarrow> 'v emit_call list \<Rightarrow> 'v emit_call list" where
  "record_calls [] events = events"
| "record_calls (call # calls) events =
     (case emitWithAudience call (Some events) of Inl _ \<Rightarrow> events | Inr events' \<Rightarrow> record_calls calls events')"

definition EnsureEventID :: "string \<Rightarrow> 'v EventEnvelope \<Rightarrow> 'v EventEnvelope" where
  "EnsureEventID newID event = (if ee_ID event = [] then event\<lparr>ee_ID := newID\<rparr> else event)"

definition traceparentFromContext :: "ctx \<Rightarrow> string" where
  "traceparentFromContext c =
     (case TraceContextFromContext c of (tc, ok) \<Rightarrow> if \<not> ok then [] else Traceparent tc)"

definition contextWithEventTraceparent :: "ctx \<Rightarrow> 'v EventEnvelope \<Rightarrow> ctx" where
  "contextWithEventTraceparent c event =
     (if ee_TraceParent event = [] then c
      else Extract c (\<lambda>key. if key = ''traceparent'' then ee_TraceParent event else []))"

definition envelopes :: "(nat \<Rightarrow> string) \<Rightarrow> ctx \<Rightarrow> 'v emit_call list \<Rightarrow> 'v EventEnvelope list" where
  "envelopes newID c events =
     map (\<lambda>i. let event = events ! i
              in EnsureEventID (newID i)
                   \<lparr>ee_ID = [], ee_TraceParent = traceparentFromContext c, ee_Audience = em_audience event,
                    ee_Category = em_category event, ee_Type = em_type event, ee_Value = em_value event\<rparr>)
       [0..<length events]"

section \<open>Publishing\<close>

fun publish_entries ::
  "ctx \<Rightarrow> string \<Rightarrow> 'v any \<Rightarrow> role \<Rightarrow> ('v, 'w) eventEntry list \<Rightarrow> 'w \<Rightarrow> cerror option \<times> 'w" where
  "publish_entries c typ value role [] w = (None, w)"
| "publish_entries c typ value role (entry # entries) w =
     (if \<not> rolesAllow (ve_roles entry) role then publish_entries c typ value role entries w
      else
        case ve_dispatch entry of
          None \<Rightarrow> (Some (ContractError ErrUnsupportedHandler typ None), w)
        | Some dispatch \<Rightarrow>
            (case dispatch c value w of
               (None, w') \<Rightarrow> publish_entries c typ value role entries w'
             | (Some err, w') \<Rightarrow>
                 if Is err ErrUnsupportedHandler then (Some err, w')
                 else (Some (ContractError ErrSubscriberFailed typ (Some err)), w')))"

definition publishEnvelopeForRole ::
  "ctx \<Rightarrow> ('v, 'w) registry option \<Rightarrow> 'v EventEnvelope \<Rightarrow> role \<Rightarrow> 'w \<Rightarrow> cerror option \<times> 'w" where
  "publishEnvelopeForRole c registry event role w =
     (case registry of
        None \<Rightarrow> (Some (ContractError ErrNilHandler (ee_Type event) None), w)
      | Some r \<Rightarrow>
          publish_entries (contextWithEventTraceparent c event) (ee_Type event) (ee_Value event) role
            (event_entries r (ee_Category event, ee_Type event)) w)"

fun publishEnvelopesForRole ::
  "ctx \<Rightarrow> ('v, 'w) registry option \<Rightarrow> 'v EventEnvelope list \<Rightarrow> role \<Rightarrow> 'w \<Rightarrow> cerror option \<times> 'w" where
  "publishEnvelopesForRole c registry [] role w = (None, w)"
| "publishEnvelopesForRole c registry (event # events) role w =
     (case publishEnvelopeForRole c registry event role w of
        (Some err, w') \<Rightarrow> (Some err, w')
      | (None, w') \<Rightarrow> publishEnvelopesForRole c registry events role w')"

type_synonym ('v, 'w) sink =
  "ctx \<Rightarrow> ('v, 'w) registry option \<Rightarrow> role \<Rightarrow> 'v EventEnvelope list \<Rightarrow> 'w \<Rightarrow> cerror option \<times> 'w"

type_synonym ('v, 'w) events_fn = "ctx \<Rightarrow> 'v EventEnvelope list \<Rightarrow> 'w \<Rightarrow> cerror option \<times> 'w"

definition eventsWithTraceparent :: "ctx \<Rightarrow> 'v EventEnvelope list \<Rightarrow> 'v EventEnvelope list" where
  "eventsWithTraceparent c events =
     (let traceparent = traceparentFromContext c
      in if traceparent = [] then events
         else map (\<lambda>event. if ee_TraceParent event = [] then event\<lparr>ee_TraceParent := traceparent\<rparr> else event) events)"

definition PublishEventsToBroker :: "('v, 'w) events_fn option \<Rightarrow> ('v, 'w) events_fn" where
  "PublishEventsToBroker broker c events w =
     (case broker of
        None \<Rightarrow> (Some (ContractError ErrNilHandler [] None), w)
      | Some publish \<Rightarrow> if events = [] then (None, w) else publish c (eventsWithTraceparent c events) w)"

definition SendPresentationEventsToFanout :: "('v, 'w) events_fn option \<Rightarrow> ('v, 'w) events_fn" where
  "SendPresentationEventsToFanout fanout c events w =
     (case fanout of
        None \<Rightarrow> (Some (ContractError ErrNilHandler [] None), w)
      | Some send \<Rightarrow>
          let presentation = eventsForCategory events PresentationEvent
          in if presentation = [] then (None, w) else send c (eventsWithTraceparent c presentation) w)"

definition InProcessCommandEventSink :: "('v, 'w) sink" where
  "InProcessCommandEventSink c registry role events w =
     (if events = [] then (None, w)
      else if registry = None then (Some (ContractError ErrNilHandler [] None), w)
      else publishEnvelopesForRole c registry events role w)"

definition OutboxCommandEventSink :: "('v, 'w) events_fn option \<Rightarrow> ('v, 'w) sink" where
  "OutboxCommandEventSink outbox c registry role events w =
     (if events = [] then (None, w)
      else case outbox of None \<Rightarrow> (Some (ContractError ErrNilHandler [] None), w) | Some store \<Rightarrow> store c events w)"

definition BrokerCommandEventSink :: "('v, 'w) events_fn option \<Rightarrow> ('v, 'w) sink" where
  "BrokerCommandEventSink broker c registry role events w =
     (if events = [] then (None, w) else PublishEventsToBroker broker c events w)"

definition PresentationFanoutCommandEventSink :: "('v, 'w) events_fn option \<Rightarrow> ('v, 'w) sink" where
  "PresentationFanoutCommandEventSink fanout c registry role events w =
     (if events = [] then (None, w) else SendPresentationEventsToFanout fanout c events w)"

fun run_sinks :: "('v, 'w) sink list \<Rightarrow> ('v, 'w) sink" where
  "run_sinks [] c registry role events w = (None, w)"
| "run_sinks (sink # sinks) c registry role events w =
     (case sink c registry role events w of
        (Some err, w') \<Rightarrow> (Some err, w')
      | (None, w') \<Rightarrow> run_sinks sinks c registry role events w')"

definition CompositeCommandEventSink :: "('v, 'w) sink option list \<Rightarrow> ('v, 'w) sink" where
  "CompositeCommandEventSink sinks c registry role events w =
     (if events = [] then (None, w) else run_sinks (List.map_filter id sinks) c registry role events w)"

definition DispatchCommandEvents :: "('v, 'w) sink option \<Rightarrow> ('v, 'w) sink" where
  "DispatchCommandEvents sink c registry role events w =
     (if events = [] then (None, w)
      else (case sink of None \<Rightarrow> InProcessCommandEventSink | Some s \<Rightarrow> s) c registry role events w)"

section \<open>Execution\<close>

text \<open>
  The handler of an entry was registered for the types of its names, so the type assertion
  succeeds exactly when the result type is the one asked for.
\<close>

definition executeQuery ::
  "ctx \<Rightarrow> ('v, 'w) registry option \<Rightarrow> string \<Rightarrow> string \<Rightarrow> 'v \<Rightarrow> role \<Rightarrow> 'w \<Rightarrow> (cerror + 'v) \<times> 'w" where
  "executeQuery c registry contract result query role w =
     (case registry of
        None \<Rightarrow> (Inl (ContractError ErrNilHandler contract None), w)
      | Some r \<Rightarrow>
          (case map_of (rg_queries r) contract of
             None \<Rightarrow> (Inl (ContractError ErrMissingHandler contract None), w)
           | Some entry \<Rightarrow>
               if \<not> roleMayExecute (qe_roles entry) role then (Inl (ContractError ErrRoleNotAllowed contract None), w)
               else if qe_result entry \<noteq> result then (Inl (ContractError ErrUnsupportedHandler contract None), w)
               else qe_handler entry c query w))"

definition runCommand ::
  "ctx \<Rightarrow> ('v, 'w) registry option \<Rightarrow> string \<Rightarrow> string \<Rightarrow> 'v \<Rightarrow> role \<Rightarrow> 'w \<Rightarrow> (cerror + 'v \<times> 'v emit_call list) \<times> 'w" where
  "runCommand c registry contract result command role w =
     (case registry of
        None \<Rightarrow> (Inl (ContractError ErrNilHandler contract None), w)
      | Some r \<Rightarrow>
          (case map_of (rg_commands r) contract of
             None \<Rightarrow> (Inl (ContractError ErrMissingHandler contract None), w)
           | Some entry \<Rightarrow>
               if \<not> roleMayExecute (ce_roles entry) role then (Inl (ContractError ErrRoleNotAllowed contract None), w)
               else if ce_result entry \<noteq> result then (Inl (ContractError ErrUnsupportedHandler contract None), w)
               else
                 (case ce_handler entry c command w of
                    (Inl err, _, w') \<Rightarrow> (Inl err, w')
                  | (Inr value, calls, w') \<Rightarrow> (Inr (value, record_calls calls []), w'))))"

definition executeCommandWithSink ::
  "(nat \<Rightarrow> string) \<Rightarrow> ctx \<Rightarrow> ('v, 'w) registry option \<Rightarrow> ('v, 'w) sink option \<Rightarrow> string \<Rightarrow> string \<Rightarrow> 'v \<Rightarrow> role \<Rightarrow> 'w \<Rightarrow>
   (cerror + 'v) \<times> 'w" where
  "executeCommandWithSink newID c registry sink contract result command role w =
     (case runCommand c registry contract result command role w of
        (Inl err, w') \<Rightarrow> (Inl err, w')
      | (Inr (value, recorder), w') \<Rightarrow>
          (case DispatchCommandEvents sink c registry role (envelopes newID c recorder) w' of
             (Some err, w'') \<Rightarrow> (Inl err, w'')
           | (None, w'') \<Rightarrow> (Inr value, w'')))"

definition captureCommandEvents ::
  "(nat \<Rightarrow> string) \<Rightarrow> ctx \<Rightarrow> ('v, 'w) registry option \<Rightarrow> string \<Rightarrow> string \<Rightarrow> 'v \<Rightarrow> role \<Rightarrow> 'w \<Rightarrow>
   (cerror + 'v \<times> 'v EventEnvelope list) \<times> 'w" where
  "captureCommandEvents newID c registry contract result command role w =
     (case runCommand c registry contract result command role w of
        (Inl err, w') \<Rightarrow> (Inl err, w')
      | (Inr (value, recorder), w') \<Rightarrow> (Inr (value, envelopes newID c recorder), w'))"

definition executeCommandToOutbox ::
  "(nat \<Rightarrow> string) \<Rightarrow> ctx \<Rightarrow> ('v, 'w) registry option \<Rightarrow> ('v, 'w) events_fn option \<Rightarrow> string \<Rightarrow> string \<Rightarrow> 'v \<Rightarrow> role \<Rightarrow> 'w \<Rightarrow>
   (cerror + 'v) \<times> 'w" where
  "executeCommandToOutbox newID c registry outbox contract result command role w =
     (if outbox = None then (Inl (ContractError ErrNilHandler contract None), w)
      else executeCommandWithSink newID c registry (Some (OutboxCommandEventSink outbox)) contract result command role w)"

definition executeCommandToBroker ::
  "(nat \<Rightarrow> string) \<Rightarrow> ctx \<Rightarrow> ('v, 'w) registry option \<Rightarrow> ('v, 'w) events_fn option \<Rightarrow> string \<Rightarrow> string \<Rightarrow> 'v \<Rightarrow> role \<Rightarrow> 'w \<Rightarrow>
   (cerror + 'v) \<times> 'w" where
  "executeCommandToBroker newID c registry broker contract result command role w =
     (if broker = None then (Inl (ContractError ErrNilHandler contract None), w)
      else executeCommandWithSink newID c registry (Some (BrokerCommandEventSink broker)) contract result command role w)"

definition executeCommandToPresentationFanout ::
  "(nat \<Rightarrow> string) \<Rightarrow> ctx \<Rightarrow> ('v, 'w) registry option \<Rightarrow> ('v, 'w) events_fn option \<Rightarrow> string \<Rightarrow> string \<Rightarrow> 'v \<Rightarrow> role \<Rightarrow> 'w \<Rightarrow>
   (cerror + 'v) \<times> 'w" where
  "executeCommandToPresentationFanout newID c registry fanout contract result command role w =
     (if fanout = None then (Inl (ContractError ErrNilHandler contract None), w)
      else executeCommandWithSink newID c registry (Some (PresentationFanoutCommandEventSink fanout))
             contract result command role w)"

definition executeJob ::
  "ctx \<Rightarrow> ('v, 'w) registry option \<Rightarrow> string \<Rightarrow> 'v \<Rightarrow> role \<Rightarrow> 'w \<Rightarrow> cerror option \<times> 'w" where
  "executeJob c registry contract job role w =
     (case registry of
        None \<Rightarrow> (Some (ContractError ErrNilHandler contract None), w)
      | Some r \<Rightarrow>
          (case map_of (rg_jobs r) contract of
             None \<Rightarrow> (Some (ContractError ErrMissingHandler contract None), w)
           | Some entry \<Rightarrow>
               if \<not> rolesAllow (je_roles entry) role then (Some (ContractError ErrRoleNotAllowed contract None), w)
               else je_handler entry c job w))"

section \<open>Query invalidation\<close>

definition sortedKeys :: "string list \<Rightarrow> string list" where
  "sortedKeys values = sort (remdups values)"

definition matching_invalidations ::
  "QueryInvalidation list \<Rightarrow> 'v EventEnvelope list \<Rightarrow> ('v EventEnvelope \<times> QueryInvalidation) list" where
  "matching_invalidations invalidations events =
     concat (map (\<lambda>event.
       map (Pair event)
         (filter (\<lambda>i. \<not> (qi_EventCategory i \<noteq> ee_Category event \<or> qi_EventType i \<noteq> ee_Type event \<or> qi_QueryType i = []))
            invalidations)) events)"

definition invalidatedQueries ::
  "QueryInvalidation list \<Rightarrow> 'v EventEnvelope list \<Rightarrow> string list \<times> string list \<times> string list" where
  "invalidatedQueries invalidations events =
     (let ms = matching_invalidations invalidations events
      in (sortedKeys (map (\<lambda>(event, i). qi_QueryType i) ms),
          sortedKeys (map (\<lambda>(event, i). ee_Category event @ '':'' @ ee_Type event) ms),
          sortedKeys (filter (\<lambda>s. s \<noteq> []) (map (\<lambda>(event, i). ee_ID event) ms))))"

definition InvalidatedQueryTypes :: "QueryInvalidation list \<Rightarrow> 'v EventEnvelope list \<Rightarrow> string list" where
  "InvalidatedQueryTypes invalidations events = fst (invalidatedQueries invalidations events)"

definition InvalidatedEventIDs :: "QueryInvalidation list \<Rightarrow> 'v EventEnvelope list \<Rightarrow> string list" where
  "InvalidatedEventIDs invalidations events = snd (snd (invalidatedQueries invalidations events))"

text \<open>
  The notice the sink sends; \<open>notice\<close> injects it into the values of the application. An error of
  the fanout is ignored.
\<close>

definition QueryInvalidationCommandEventSink ::
  "(string list \<times> string list \<times> string list \<Rightarrow> 'v any) \<Rightarrow> ('v, 'w) events_fn option \<Rightarrow> QueryInvalidation list \<Rightarrow> ('v, 'w) sink" where
  "QueryInvalidationCommandEventSink notice fanout invalidations c registry role events w =
     (case fanout of
        None \<Rightarrow> (None, w)
      | Some send \<Rightarrow>
          if events = [] \<or> invalidations = [] then (None, w)
          else
            let res = invalidatedQueries invalidations events
            in if fst res = [] then (None, w)
               else (None, snd (send c [\<lparr>ee_ID = [], ee_TraceParent = [], ee_Audience = [], ee_Category = PresentationEvent,
                                         ee_Type = ''gowdk.query.invalidate'', ee_Value = notice res\<rparr>] w)))"

section \<open>The invariant of a registry\<close>

definition registry_inv :: "('v, 'w) registry \<Rightarrow> bool" where
  "registry_inv r \<longleftrightarrow>
     distinct (map fst (rg_queries r)) \<and> distinct (map fst (rg_commands r)) \<and>
     distinct (map fst (rg_events r)) \<and> distinct (map fst (rg_jobs r)) \<and> distinct (rg_invalidations r) \<and>
     (\<forall>(k, e)\<in>set (rg_queries r). qe_query e = k) \<and> (\<forall>(k, e)\<in>set (rg_commands r). ce_command e = k) \<and>
     (\<forall>(k, e)\<in>set (rg_jobs r). je_job e = k)"

lemma registry_inv_new: "registry_inv NewRegistry"
  by (simp add: registry_inv_def NewRegistry_def)

lemma fst_update_pairs:
  "map fst (update_pairs k v ps) = map fst ps @ (if k \<in> fst ` set ps then [] else [k])"
  by (induction k v ps rule: update_pairs.induct) auto

lemma map_of_update_pairs: "map_of (update_pairs k v ps) = (map_of ps)(k \<mapsto> v)"
  by (induction k v ps rule: update_pairs.induct) auto

text \<open>What the registry operations promise: they keep the invariant, and add without replacing.\<close>

lemma registry_inv_register:
  assumes "registry_inv r"
  shows "RegisterQuery q res qh roles (Some r) = Inr r' \<Longrightarrow> registry_inv r'"
    "RegisterCommand q res ch roles (Some r) = Inr r' \<Longrightarrow> registry_inv r'"
    "RegisterJob q jh roles (Some r) = Inr r' \<Longrightarrow> registry_inv r'"
    "registerEvent cat q eh roles (Some r) = Inr r' \<Longrightarrow> registry_inv r'"
    "RegisterInvalidation e q (Some r) = Inr r' \<Longrightarrow> registry_inv r'"
proof -
  show "RegisterQuery q res qh roles (Some r) = Inr r' \<Longrightarrow> registry_inv r'"
    using assms by (auto simp: RegisterQuery_def registry_inv_def map_of_eq_None_iff split: option.splits if_splits)
  show "RegisterCommand q res ch roles (Some r) = Inr r' \<Longrightarrow> registry_inv r'"
    using assms by (auto simp: RegisterCommand_def registry_inv_def map_of_eq_None_iff split: option.splits if_splits)
  show "RegisterJob q jh roles (Some r) = Inr r' \<Longrightarrow> registry_inv r'"
    using assms by (auto simp: RegisterJob_def registry_inv_def map_of_eq_None_iff split: option.splits if_splits)
  show "registerEvent cat q eh roles (Some r) = Inr r' \<Longrightarrow> registry_inv r'"
    using assms by (auto simp: registerEvent_def registry_inv_def fst_update_pairs split: option.splits)
  show "RegisterInvalidation e q (Some r) = Inr r' \<Longrightarrow> registry_inv r'"
    using assms by (auto simp: RegisterInvalidation_def registry_inv_def Let_def split: if_splits)
qed

inductive registered :: "('v, 'w) registry \<Rightarrow> bool" where
  new: "registered NewRegistry"
| query: "registered r \<Longrightarrow> RegisterQuery q res qh roles (Some r) = Inr r' \<Longrightarrow> registered r'"
| command: "registered r \<Longrightarrow> RegisterCommand q res ch roles (Some r) = Inr r' \<Longrightarrow> registered r'"
| job: "registered r \<Longrightarrow> RegisterJob q jh roles (Some r) = Inr r' \<Longrightarrow> registered r'"
| event: "registered r \<Longrightarrow> registerEvent cat q eh roles (Some r) = Inr r' \<Longrightarrow> registered r'"
| invalidation: "registered r \<Longrightarrow> RegisterInvalidation e q (Some r) = Inr r' \<Longrightarrow> registered r'"

lemma registered_inv: "registered r \<Longrightarrow> registry_inv r"
  by (induction rule: registered.induct) (auto intro: registry_inv_new registry_inv_register)

lemma metadata_kinds:
  "m \<in> set (query_metadata role q) \<Longrightarrow> md_Kind m = Query"
  "m \<in> set (command_metadata role p) \<Longrightarrow> md_Kind m = Command"
  "m \<in> set (event_metadata role e) \<Longrightarrow> md_Kind m = EventKind"
  "m \<in> set (job_metadata role j) \<Longrightarrow> md_Kind m = Job"
  by (simp_all add: query_metadata_def command_metadata_def event_metadata_def job_metadata_def Let_def split: if_splits)

lemma contracts_commands:
  "m \<in> set (contractsForRole r role) \<and> md_Kind m = Command \<longleftrightarrow> (\<exists>p\<in>set (rg_commands r). m \<in> set (command_metadata role p))"
  using metadata_kinds by (fastforce simp: contractsForRole_def)

lemma contracts_queries:
  "m \<in> set (contractsForRole r role) \<and> md_Kind m = Query \<longleftrightarrow> (\<exists>p\<in>set (rg_queries r). m \<in> set (query_metadata role p))"
  using metadata_kinds by (fastforce simp: contractsForRole_def)

lemma command_metadata_iff:
  assumes "registry_inv r"
  shows "(\<exists>m\<in>set (contractsForRole r role). md_Kind m = Command \<and> md_Type m = contract) \<longleftrightarrow>
    (\<exists>entry. map_of (rg_commands r) contract = Some entry \<and> roleMayExecute (ce_roles entry) role)"
proof -
  have inv: "distinct (map fst (rg_commands r))" "\<forall>p\<in>set (rg_commands r). ce_command (snd p) = fst p"
    using assms by (auto simp: registry_inv_def)
  have "(\<exists>m\<in>set (contractsForRole r role). md_Kind m = Command \<and> md_Type m = contract) \<longleftrightarrow>
      (\<exists>p\<in>set (rg_commands r). \<exists>m\<in>set (command_metadata role p). md_Type m = contract)"
    using contracts_commands by metis
  also have "\<dots> \<longleftrightarrow> (\<exists>p\<in>set (rg_commands r). roleMayExecute (ce_roles (snd p)) role \<and> fst p = contract)"
    using inv(2) by (auto simp: command_metadata_def Let_def)
  also have "\<dots> \<longleftrightarrow> (\<exists>entry. map_of (rg_commands r) contract = Some entry \<and> roleMayExecute (ce_roles entry) role)"
    using inv(1) by force
  finally show ?thesis .
qed

lemma query_metadata_iff:
  assumes "registry_inv r"
  shows "(\<exists>m\<in>set (contractsForRole r role). md_Kind m = Query \<and> md_Type m = contract) \<longleftrightarrow>
    (\<exists>entry. map_of (rg_queries r) contract = Some entry \<and> roleMayExecute (qe_roles entry) role)"
proof -
  have inv: "distinct (map fst (rg_queries r))" "\<forall>p\<in>set (rg_queries r). qe_query (snd p) = fst p"
    using assms by (auto simp: registry_inv_def)
  have "(\<exists>m\<in>set (contractsForRole r role). md_Kind m = Query \<and> md_Type m = contract) \<longleftrightarrow>
      (\<exists>p\<in>set (rg_queries r). \<exists>m\<in>set (query_metadata role p). md_Type m = contract)"
    using contracts_queries by metis
  also have "\<dots> \<longleftrightarrow> (\<exists>p\<in>set (rg_queries r). roleMayExecute (qe_roles (snd p)) role \<and> fst p = contract)"
    using inv(2) by (auto simp: query_metadata_def Let_def)
  also have "\<dots> \<longleftrightarrow> (\<exists>entry. map_of (rg_queries r) contract = Some entry \<and> roleMayExecute (qe_roles entry) role)"
    using inv(1) by force
  finally show ?thesis .
qed

text \<open>The keys of the metadata are distinct, so the sorted list does not depend on the order of the maps.\<close>

lemma concat_metadata_keys:
  assumes "distinct (map key ps)" "\<forall>p\<in>set ps. \<forall>m\<in>set (f p). metadata_key m = g (key p) \<and> length (f p) \<le> 1" "inj g"
  shows "distinct (map metadata_key (concat (map f ps)))"
  using assms(1,2)
proof (induction ps)
  case (Cons p ps)
  have IH: "distinct (map metadata_key (concat (map f ps)))"
    by (rule Cons.IH) (use Cons.prems in auto)
  have "metadata_key ` set (concat (map f ps)) \<subseteq> g ` key ` set ps"
    using Cons.prems(2) by (auto intro!: imageI)
  moreover have "metadata_key ` set (f p) \<subseteq> {g (key p)}" using Cons.prems(2) by auto
  moreover have "g (key p) \<notin> g ` key ` set ps" using Cons.prems(1) assms(3) by (auto dest: injD)
  moreover have "A \<subseteq> G \<Longrightarrow> B \<subseteq> {x} \<Longrightarrow> x \<notin> G \<Longrightarrow> B \<inter> A = {}" for A B G and x :: "string \<times> string \<times> string" by blast
  ultimately have "metadata_key ` set (f p) \<inter> metadata_key ` set (concat (map f ps)) = {}" by meson
  moreover have "length (f p) \<le> 1" using Cons.prems(2) by (cases "f p") auto
  then have "distinct (map metadata_key (f p))" by (cases "f p") auto
  ultimately show ?case using IH by (simp only: list.map concat.simps map_append distinct_append set_map simp_thms)
qed simp

lemma metadata_keys_distinct:
  assumes "registry_inv r"
  shows "distinct (map metadata_key
    (concat (map (query_metadata role) (rg_queries r)) @ concat (map (command_metadata role) (rg_commands r)) @
     concat (map (event_metadata role) (rg_events r)) @ concat (map (job_metadata role) (rg_jobs r))))"
proof -
  let ?Q = "concat (map (query_metadata role) (rg_queries r))"
  let ?C = "concat (map (command_metadata role) (rg_commands r))"
  let ?E = "concat (map (event_metadata role) (rg_events r))"
  let ?J = "concat (map (job_metadata role) (rg_jobs r))"
  have "distinct (map metadata_key ?Q)"
    by (rule concat_metadata_keys [where key = fst and g = "\<lambda>t. (''query'', [], t)"])
      (use assms in \<open>auto simp: registry_inv_def query_metadata_def metadata_key_def Let_def inj_def split: if_splits\<close>)
  moreover have "distinct (map metadata_key ?C)"
    by (rule concat_metadata_keys [where key = fst and g = "\<lambda>t. (''command'', [], t)"])
      (use assms in \<open>auto simp: registry_inv_def command_metadata_def metadata_key_def Let_def inj_def split: if_splits\<close>)
  moreover have "distinct (map metadata_key ?E)"
    by (rule concat_metadata_keys [where key = fst and g = "\<lambda>(c, t). (''event'', c, t)"])
      (use assms in \<open>auto simp: registry_inv_def event_metadata_def metadata_key_def Let_def inj_def split: if_splits\<close>)
  moreover have "distinct (map metadata_key ?J)"
    by (rule concat_metadata_keys [where key = fst and g = "\<lambda>t. (''job'', [], t)"])
      (use assms in \<open>auto simp: registry_inv_def job_metadata_def metadata_key_def Let_def inj_def split: if_splits\<close>)
  moreover have "metadata_key ` set ?Q \<subseteq> {k. fst k = ''query''}" "metadata_key ` set ?C \<subseteq> {k. fst k = ''command''}"
      "metadata_key ` set ?E \<subseteq> {k. fst k = ''event''}" "metadata_key ` set ?J \<subseteq> {k. fst k = ''job''}"
    using metadata_kinds by (fastforce simp: metadata_key_def)+
  ultimately show ?thesis by fastforce
qed

lemma mset_concat_map: "mset xs = mset ys \<Longrightarrow> mset (concat (map f xs)) = mset (concat (map f ys))"
  by (metis (no_types) mset_concat mset_map image_mset.compositionality sum_mset_sum_list)

lemma sort_key_mset_eq:
  assumes "mset xs = mset ys" "distinct (map f xs)"
  shows "sort_key f xs = sort_key f ys"
proof (rule properties_for_sort_key)
  show "mset (sort_key f ys) = mset xs" using assms(1) by simp
  show "sorted (map f (sort_key f ys))" by simp
  show "filter (\<lambda>x. f k = f x) (sort_key f ys) = filter (\<lambda>x. f k = f x) xs" if "k \<in> set (sort_key f ys)" for k
  proof -
    have single: "filter (\<lambda>x. f k = f x) zs = [k]" if "distinct (map f zs)" "k \<in> set zs" for zs
      using that by (induction zs) (auto simp: filter_empty_conv image_iff)
    have "distinct (map f ys)" using assms by (metis mset_eq_imp_distinct_iff mset_map)
    then have "distinct (map f (sort_key f ys))" by (metis mset_eq_imp_distinct_iff mset_map mset_sort)
    moreover have "k \<in> set xs" using that assms(1) by (metis mset_eq_setD set_sort)
    ultimately show ?thesis using single that assms(2) by metis
  qed
qed

section \<open>Recorded events\<close>

lemma normalize_labels_inv:
  assumes "distinct out" "length out < 16" "\<forall>l\<in>set out. l \<noteq> [] \<and> length l \<le> 128"
  shows "distinct (normalize_labels audience out) \<and> length (normalize_labels audience out) \<le> 16 \<and>
    (\<forall>l\<in>set (normalize_labels audience out). l \<noteq> [] \<and> length l \<le> 128)"
  using assms
proof (induction audience arbitrary: out)
  case (Cons label0 audience)
  define label where "label = (if 128 < length (TrimSpace label0) then take 128 (TrimSpace label0) else TrimSpace label0)"
  have label: "length label \<le> 128" "TrimSpace label0 \<noteq> [] \<Longrightarrow> label \<noteq> []" by (auto simp: label_def)
  have eq: "normalize_labels (label0 # audience) out =
      (if TrimSpace label0 = [] then normalize_labels audience out
       else if label \<in> set out then normalize_labels audience out
       else if length (out @ [label]) = 16 then out @ [label] else normalize_labels audience (out @ [label]))"
    by (simp add: label_def Let_def)
  show ?case
  proof (cases "TrimSpace label0 = [] \<or> label \<in> set out")
    case True
    then have "normalize_labels (label0 # audience) out = normalize_labels audience out" unfolding eq by auto
    with Cons.IH [OF Cons.prems] show ?thesis by simp
  next
    case False
    then have inv: "distinct (out @ [label])" "\<forall>l\<in>set (out @ [label]). l \<noteq> [] \<and> length l \<le> 128"
      using Cons.prems label by auto
    show ?thesis
    proof (cases "length (out @ [label]) = 16")
      case True
      with False have "normalize_labels (label0 # audience) out = out @ [label]" unfolding eq by simp
      with inv True show ?thesis by simp
    next
      case len: False
      with False have "normalize_labels (label0 # audience) out = normalize_labels audience (out @ [label])"
        unfolding eq by simp
      moreover have "length (out @ [label]) < 16" using len Cons.prems(2) by simp
      ultimately show ?thesis using Cons.IH [OF inv(1) _ inv(2)] by simp
    qed
  qed
qed auto

lemma record_calls_append:
  "record_calls calls events = events @ map (\<lambda>call. call\<lparr>em_audience := normalizeAudience (em_audience call)\<rparr>) calls"
  by (induction calls arbitrary: events) (simp_all add: emitWithAudience_def)

lemma length_envelopes [simp]: "length (envelopes newID c events) = length events"
  by (simp add: envelopes_def)

lemma nth_envelopes:
  "i < length events \<Longrightarrow>
   envelopes newID c events ! i =
     \<lparr>ee_ID = newID i, ee_TraceParent = traceparentFromContext c, ee_Audience = em_audience (events ! i),
      ee_Category = em_category (events ! i), ee_Type = em_type (events ! i), ee_Value = em_value (events ! i)\<rparr>"
  by (simp add: envelopes_def EnsureEventID_def Let_def)

section \<open>Dispatch as one sequence of calls\<close>

text \<open>The calls a batch makes: for each event in order, its subscribers in the order they were registered.\<close>

definition subscriber_calls ::
  "ctx \<Rightarrow> ('v, 'w) registry \<Rightarrow> role \<Rightarrow> 'v EventEnvelope list \<Rightarrow>
   (ctx \<times> 'v EventEnvelope \<times> ('v, 'w) eventEntry) list" where
  "subscriber_calls c r role events =
     concat (map (\<lambda>event. map (\<lambda>entry. (contextWithEventTraceparent c event, event, entry))
       (filter (\<lambda>entry. rolesAllow (ve_roles entry) role) (event_entries r (ee_Category event, ee_Type event)))) events)"

text \<open>Run calls until one fails; the failure is reported as the code reports it.\<close>

fun run_calls :: "(ctx \<times> 'v EventEnvelope \<times> ('v, 'w) eventEntry) list \<Rightarrow> 'w \<Rightarrow> cerror option \<times> 'w" where
  "run_calls [] w = (None, w)"
| "run_calls ((c, event, entry) # calls) w =
     (case ve_dispatch entry of
        None \<Rightarrow> (Some (ContractError ErrUnsupportedHandler (ee_Type event) None), w)
      | Some dispatch \<Rightarrow>
          (case dispatch c (ee_Value event) w of
             (None, w') \<Rightarrow> run_calls calls w'
           | (Some err, w') \<Rightarrow>
               (Some (if Is err ErrUnsupportedHandler then err
                      else ContractError ErrSubscriberFailed (ee_Type event) (Some err)), w')))"

lemma run_calls_append:
  "run_calls (xs @ ys) w = (case run_calls xs w of (Some err, w') \<Rightarrow> (Some err, w') | (None, w') \<Rightarrow> run_calls ys w')"
  by (induction xs w rule: run_calls.induct) (auto split: option.split prod.split)

lemma publish_entries_calls:
  "publish_entries c (ee_Type event) (ee_Value event) role entries w =
   run_calls (map (\<lambda>entry. (c, event, entry)) (filter (\<lambda>entry. rolesAllow (ve_roles entry) role) entries)) w"
  by (induction c "ee_Type event" "ee_Value event" role entries w rule: publish_entries.induct)
    (auto split: option.split prod.split)

lemma publishEnvelopes_calls:
  "publishEnvelopesForRole c (Some r) events role w = run_calls (subscriber_calls c r role events) w"
proof (induction events arbitrary: w)
  case (Cons event events)
  have "publishEnvelopeForRole c (Some r) event role w = run_calls (subscriber_calls c r role [event]) w"
    by (simp add: publishEnvelopeForRole_def publish_entries_calls subscriber_calls_def)
  moreover have "subscriber_calls c r role (event # events) = subscriber_calls c r role [event] @ subscriber_calls c r role events"
    by (simp add: subscriber_calls_def)
  ultimately show ?case by (simp add: Cons run_calls_append split: prod.split option.split)
qed (simp add: subscriber_calls_def)

section \<open>Properties\<close>

text \<open>
  C11: A role executes a command only if the command names it or \<open>any\<close>, the contracts listed for
  a role are exactly those it may execute, and a refused command runs no handler, dispatches no
  event and leaves the world as it was.
\<close>

theorem command_fail_closed:
  assumes "registered r" "map_of (rg_commands r) contract = Some entry" "role \<noteq> []"
  shows "((\<exists>m\<in>set (ContractsForRole (Some r) role). md_Kind m = Command \<and> md_Type m = contract) \<longleftrightarrow>
          role \<in> set (ce_roles entry) \<or> RoleAny \<in> set (ce_roles entry)) \<and>
         (\<not> (role \<in> set (ce_roles entry) \<or> RoleAny \<in> set (ce_roles entry)) \<longrightarrow>
          executeCommandWithSink newID c (Some r) sink contract result command role w =
            (Inl (ContractError ErrRoleNotAllowed contract None), w))"
proof -
  have may: "roleMayExecute (ce_roles entry) role \<longleftrightarrow> role \<in> set (ce_roles entry) \<or> RoleAny \<in> set (ce_roles entry)"
    using assms(3) by (auto simp: roleMayExecute_def list_ex_iff)
  have "executeCommandWithSink newID c (Some r) sink contract result command role w =
      (Inl (ContractError ErrRoleNotAllowed contract None), w)" if "\<not> roleMayExecute (ce_roles entry) role"
    using assms(2) that by (simp add: executeCommandWithSink_def runCommand_def)
  with may command_metadata_iff [OF registered_inv [OF assms(1)], of role contract] assms(2) show ?thesis
    by (simp add: ContractsForRole_def)
qed

theorem command_fail_closed_witness:
  "let h = (\<lambda>c v w. (Inr v, [], w + (1 :: int)));
       entry = \<lparr>ce_command = ''app.Pay'', ce_result = ''app.Paid'', ce_handler = h, ce_roles = []\<rparr>;
       r = NewRegistry\<lparr>rg_commands := [(''app.Pay'', entry)]\<rparr>
   in executeCommandWithSink (\<lambda>_. ''id'') Background (Some r) None ''app.Pay'' ''app.Paid'' (7 :: int) ''web'' 0 =
        (Inl (ContractError ErrRoleNotAllowed ''app.Pay'' None), 0)"
proof -
  define h :: "(int, int) command_handler" where "h = (\<lambda>c v w. (Inr v, [], w + 1))"
  define entry where "entry = \<lparr>ce_command = ''app.Pay'', ce_result = ''app.Paid'', ce_handler = h, ce_roles = []\<rparr>"
  define r where "r = NewRegistry\<lparr>rg_commands := [(''app.Pay'', entry)]\<rparr>"
  have "RegisterCommand ''app.Pay'' ''app.Paid'' (Some h) [] (Some NewRegistry) = Inr r"
    by (simp add: RegisterCommand_def r_def entry_def NewRegistry_def)
  then have "registered r" by (rule registered.command [OF registered.new])
  with command_fail_closed [of r "''app.Pay''" entry "''web''" "\<lambda>_. ''id''" Background None "''app.Paid''" 7 0]
  show ?thesis by (simp add: Let_def r_def entry_def h_def)
qed

text \<open>
  Publishing a batch of events makes one sequence of calls: event by event, the subscribers
  the role may reach in the order they were registered, each in the context of its event's
  trace, until the first failure, which is reported as an unsupported handler or as a failed
  subscriber with its cause.
\<close>

theorem publish_is_call_sequence:
  "publishEnvelopesForRole c (Some r) events role w = run_calls (subscriber_calls c r role events) w"
  by (rule publishEnvelopes_calls)

text \<open>
  A command that fails dispatches nothing. A command that succeeds dispatches, after its
  handler has returned, exactly the events it recorded, in their order, with the identifiers
  drawn for them and with normalised audiences, and its result is returned only if every
  subscriber succeeded.
\<close>

theorem command_events_after_success:
  assumes "map_of (rg_commands r) contract = Some entry" "roleMayExecute (ce_roles entry) role" "ce_result entry = result"
  shows "\<exists>events. length events = length (fst (snd (ce_handler entry c command w))) \<and>
     (\<forall>i < length events. ee_ID (events ! i) = newID i \<and>
        ee_Category (events ! i) = em_category (fst (snd (ce_handler entry c command w)) ! i) \<and>
        ee_Type (events ! i) = em_type (fst (snd (ce_handler entry c command w)) ! i) \<and>
        ee_Value (events ! i) = em_value (fst (snd (ce_handler entry c command w)) ! i) \<and>
        ee_Audience (events ! i) = normalizeAudience (em_audience (fst (snd (ce_handler entry c command w)) ! i))) \<and>
     executeCommandWithSink newID c (Some r) None contract result command role w =
       (case ce_handler entry c command w of
          (Inl err, _, w') \<Rightarrow> (Inl err, w')
        | (Inr value, _, w') \<Rightarrow>
            (case run_calls (subscriber_calls c r role events) w' of
               (Some err, w'') \<Rightarrow> (Inl err, w'')
             | (None, w'') \<Rightarrow> (Inr value, w'')))"
proof -
  obtain res calls w' where h: "ce_handler entry c command w = (res, calls, w')" by (metis surj_pair)
  define events where "events = envelopes newID c (record_calls calls [])"
  have fields: "length events = length calls"
    "i < length calls \<Longrightarrow> events ! i =
       \<lparr>ee_ID = newID i, ee_TraceParent = traceparentFromContext c, ee_Audience = normalizeAudience (em_audience (calls ! i)),
        ee_Category = em_category (calls ! i), ee_Type = em_type (calls ! i), ee_Value = em_value (calls ! i)\<rparr>" for i
    by (simp_all add: events_def record_calls_append nth_envelopes)
  have dispatch: "DispatchCommandEvents None c (Some r) role events v = run_calls (subscriber_calls c r role events) v" for v
    by (cases "events = []")
      (simp_all add: DispatchCommandEvents_def InProcessCommandEventSink_def subscriber_calls_def publishEnvelopes_calls)
  have "executeCommandWithSink newID c (Some r) None contract result command role w =
       (case res of
          Inl err \<Rightarrow> (Inl err, w')
        | Inr value \<Rightarrow>
            (case run_calls (subscriber_calls c r role events) w' of
               (Some err, w'') \<Rightarrow> (Inl err, w'')
             | (None, w'') \<Rightarrow> (Inr value, w'')))"
    using assms h dispatch by (cases res) (simp_all add: executeCommandWithSink_def runCommand_def flip: events_def)
  with fields h show ?thesis by (intro exI [of _ events]) (cases res; simp)
qed

theorem command_events_after_success_witness:
  "let h = (\<lambda>c v w. (Inr v, [\<lparr>em_category = DomainEvent, em_type = ''app.Paid'', em_value = Any ''app.Paid'' v, em_audience = []\<rparr>], w + (1 :: int)));
       sub = \<lparr>ve_dispatch = Some (eventDispatcher ''app.Paid'' (\<lambda>c v w. (None, w + v))), ve_roles = []\<rparr>;
       entry = \<lparr>ce_command = ''app.Pay'', ce_result = ''int'', ce_handler = h, ce_roles = [''web'']\<rparr>;
       r = NewRegistry\<lparr>rg_commands := [(''app.Pay'', entry)], rg_events := [((DomainEvent, ''app.Paid''), [sub])]\<rparr>
   in executeCommandWithSink (\<lambda>_. ''id'') Background (Some r) None ''app.Pay'' ''int'' (7 :: int) ''web'' 0 = (Inr 7, 8)"
proof -
  define h :: "(int, int) command_handler" where
    "h = (\<lambda>c v w. (Inr v, [\<lparr>em_category = DomainEvent, em_type = ''app.Paid'', em_value = Any ''app.Paid'' v, em_audience = []\<rparr>], w + 1))"
  define sub :: "(int, int) eventEntry" where
    "sub = \<lparr>ve_dispatch = Some (eventDispatcher ''app.Paid'' (\<lambda>c v w. (None, w + v))), ve_roles = []\<rparr>"
  define entry where "entry = \<lparr>ce_command = ''app.Pay'', ce_result = ''int'', ce_handler = h, ce_roles = [''web'']\<rparr>"
  define r where "r = NewRegistry\<lparr>rg_commands := [(''app.Pay'', entry)], rg_events := [((DomainEvent, ''app.Paid''), [sub])]\<rparr>"
  have "map_of (rg_commands r) ''app.Pay'' = Some entry" "roleMayExecute (ce_roles entry) ''web''" "ce_result entry = ''int''"
    by (simp_all add: r_def entry_def roleMayExecute_def)
  from command_events_after_success [OF this, of Background 7 0 "\<lambda>_. ''id''"]
  obtain events where ev: "length events = 1" "ee_Category (events ! 0) = DomainEvent" "ee_Type (events ! 0) = ''app.Paid''"
      "ee_Value (events ! 0) = Any ''app.Paid'' 7"
    and run: "executeCommandWithSink (\<lambda>_. ''id'') Background (Some r) None ''app.Pay'' ''int'' 7 ''web'' 0 =
      (case run_calls (subscriber_calls Background r ''web'' events) 1 of
        (Some err, w'') \<Rightarrow> (Inl err, w'') | (None, w'') \<Rightarrow> (Inr 7, w''))"
    by (auto simp: entry_def h_def)
  obtain e where e: "events = [e]" using ev(1) by (cases events) auto
  have "subscriber_calls Background r ''web'' events = [(contextWithEventTraceparent Background e, e, sub)]"
    using ev by (simp add: e subscriber_calls_def event_entries_def r_def sub_def rolesAllow_def)
  then have "run_calls (subscriber_calls Background r ''web'' events) 1 = (None, 8)"
    using ev by (simp add: e sub_def eventDispatcher_def)
  with run show ?thesis by (simp add: Let_def r_def entry_def h_def sub_def)
qed

text \<open>
  The metadata of a registry does not depend on the order in which Go iterates over its maps:
  two listings of the same maps give the same sorted list.
\<close>

theorem contractsForRole_deterministic:
  assumes "registry_inv r"
    and "mset (rg_queries r) = mset (rg_queries r')" "mset (rg_commands r) = mset (rg_commands r')"
    and "mset (rg_events r) = mset (rg_events r')" "mset (rg_jobs r) = mset (rg_jobs r')"
  shows "contractsForRole r role = contractsForRole r' role"
proof -
  show ?thesis
    unfolding contractsForRole_def
    by (intro sort_key_mset_eq metadata_keys_distinct [OF assms(1)])
      (simp add: mset_concat_map [OF assms(2)] mset_concat_map [OF assms(3)] mset_concat_map [OF assms(4)]
        mset_concat_map [OF assms(5)] del: mset_concat)
qed

theorem contractsForRole_deterministic_witness:
  "let e = (\<lambda>name. \<lparr>je_job = name, je_handler = (\<lambda>c v w. (None, w)), je_roles = []\<rparr> :: (int, int) jobEntry);
       r = NewRegistry\<lparr>rg_jobs := [(''a'', e ''a''), (''b'', e ''b'')]\<rparr>;
       r' = NewRegistry\<lparr>rg_jobs := [(''b'', e ''b''), (''a'', e ''a'')]\<rparr>
   in contractsForRole r ''cron'' = contractsForRole r' ''cron''"
  unfolding Let_def
  by (intro contractsForRole_deterministic) (simp_all add: registry_inv_def NewRegistry_def add_mset_commute)

text \<open>
  The queries a command's events invalidate are those some registered edge leads to, sorted
  and without repetition, and the identifiers reported are those of the events such an edge
  starts from.
\<close>

theorem invalidatedQueries_spec:
  "let qs = InvalidatedQueryTypes invalidations events; ids = InvalidatedEventIDs invalidations events
   in sorted qs \<and> distinct qs \<and> sorted ids \<and> distinct ids \<and>
      (\<forall>q. q \<in> set qs \<longleftrightarrow> q \<noteq> [] \<and>
         (\<exists>event\<in>set events. \<lparr>qi_EventCategory = ee_Category event, qi_EventType = ee_Type event, qi_QueryType = q\<rparr> \<in> set invalidations)) \<and>
      (\<forall>i. i \<in> set ids \<longleftrightarrow> i \<noteq> [] \<and>
         (\<exists>event\<in>set events. ee_ID event = i \<and> (\<exists>q. q \<noteq> [] \<and>
            \<lparr>qi_EventCategory = ee_Category event, qi_EventType = ee_Type event, qi_QueryType = q\<rparr> \<in> set invalidations)))"
proof -
  have pairs: "set (matching_invalidations invalidations events) =
      {(event, i). event \<in> set events \<and> i \<in> set invalidations \<and> qi_EventCategory i = ee_Category event \<and>
        qi_EventType i = ee_Type event \<and> qi_QueryType i \<noteq> []}"
    by (auto simp: matching_invalidations_def)
  have edge: "(\<exists>i\<in>set invalidations. qi_EventCategory i = a \<and> qi_EventType i = b \<and> qi_QueryType i = q) \<longleftrightarrow>
      \<lparr>qi_EventCategory = a, qi_EventType = b, qi_QueryType = q\<rparr> \<in> set invalidations" for a b q
  proof
    assume "\<exists>i\<in>set invalidations. qi_EventCategory i = a \<and> qi_EventType i = b \<and> qi_QueryType i = q"
    then obtain i where "i \<in> set invalidations" "i = \<lparr>qi_EventCategory = a, qi_EventType = b, qi_QueryType = q\<rparr>" by fastforce
    then show "\<lparr>qi_EventCategory = a, qi_EventType = b, qi_QueryType = q\<rparr> \<in> set invalidations" by simp
  qed force
  have qs: "q \<in> set (InvalidatedQueryTypes invalidations events) \<longleftrightarrow> q \<noteq> [] \<and>
      (\<exists>event\<in>set events. \<lparr>qi_EventCategory = ee_Category event, qi_EventType = ee_Type event, qi_QueryType = q\<rparr> \<in> set invalidations)" for q
    unfolding edge [symmetric]
    by (auto simp: InvalidatedQueryTypes_def invalidatedQueries_def sortedKeys_def Let_def pairs image_iff)
  have ids: "i \<in> set (InvalidatedEventIDs invalidations events) \<longleftrightarrow> i \<noteq> [] \<and>
      (\<exists>event\<in>set events. ee_ID event = i \<and> (\<exists>q. q \<noteq> [] \<and>
        \<lparr>qi_EventCategory = ee_Category event, qi_EventType = ee_Type event, qi_QueryType = q\<rparr> \<in> set invalidations))" for i
    unfolding edge [symmetric]
    by (auto simp: InvalidatedEventIDs_def invalidatedQueries_def sortedKeys_def Let_def pairs image_iff)
  show ?thesis
    unfolding Let_def using qs ids
    by (simp add: InvalidatedQueryTypes_def InvalidatedEventIDs_def invalidatedQueries_def sortedKeys_def Let_def)
qed

end
