(* ===== verification/Worker.thy ===== *)
theory Worker
  imports Contracts
begin

text \<open>
  \<open>runtime/contracts\<close>, delivery: the bounded store of seen event identifiers (\<open>seenstore.go\<close>),
  the event worker (\<open>worker.go\<close>) and the in-memory broker (\<open>membroker/membroker.go\<close>).

  A list element of \<open>container/list\<close> is a handle with its value, and the map of the store goes
  from identifiers to handles. The state of a worker has the application's world, the state of
  the source and the state of the seen store. A context that is cancelled carries its error.
  The loop of the worker has fuel, \<open>None\<close> stands for a run that is not over; logging is left out.
\<close>

section \<open>The memory seen store\<close>

record memorySeenStore =
  ss_limit :: nat
  ss_order :: "(nat \<times> string) list"
  ss_items :: "(string \<times> nat) list"
  ss_next :: nat

definition NewMemorySeenStore :: "int \<Rightarrow> memorySeenStore" where
  "NewMemorySeenStore limit =
     \<lparr>ss_limit = (if limit \<le> 0 then 10000 else nat limit), ss_order = [], ss_items = [], ss_next = 0\<rparr>"

definition MoveToBack :: "nat \<Rightarrow> memorySeenStore \<Rightarrow> memorySeenStore" where
  "MoveToBack e s =
     s\<lparr>ss_order := filter (\<lambda>p. fst p \<noteq> e) (ss_order s) @ filter (\<lambda>p. fst p = e) (ss_order s)\<rparr>"

definition PushBack :: "string \<Rightarrow> memorySeenStore \<Rightarrow> memorySeenStore" where
  "PushBack v s =
     s\<lparr>ss_order := ss_order s @ [(ss_next s, v)],
       ss_items := update_pairs v (ss_next s) (ss_items s),
       ss_next := ss_next s + 1\<rparr>"

function evict :: "memorySeenStore \<Rightarrow> memorySeenStore" where
  "evict s =
     (if ss_limit s < length (ss_items s)
      then (case ss_order s of
              [] \<Rightarrow> s
            | (e, v) # rest \<Rightarrow>
                evict (s\<lparr>ss_items := filter (\<lambda>p. fst p \<noteq> v) (ss_items s), ss_order := rest\<rparr>))
      else s)"
  by pat_completeness auto
termination
  by (relation "measure (\<lambda>s. length (ss_order s))") auto

declare evict.simps [simp del]

definition markSeenLocked :: "string \<Rightarrow> memorySeenStore \<Rightarrow> memorySeenStore" where
  "markSeenLocked v s =
     (case map_of (ss_items s) v of Some e \<Rightarrow> MoveToBack e s | None \<Rightarrow> evict (PushBack v s))"

definition id_required :: cerror where
  "id_required = AppError ''event id is required'' []"

definition ctx_error :: "string \<Rightarrow> cerror" where
  "ctx_error m = AppError m []"

definition Seen :: "ctx \<Rightarrow> string \<Rightarrow> memorySeenStore \<Rightarrow> (cerror + bool) \<times> memorySeenStore" where
  "Seen c v s =
     (case ctx_Err c of
        Some err \<Rightarrow> (Inl (ctx_error err), s)
      | None \<Rightarrow>
          if v = [] then (Inl id_required, s)
          else case map_of (ss_items s) v of
            Some e \<Rightarrow> (Inr True, MoveToBack e s)
          | None \<Rightarrow> (Inr False, s))"

definition MarkSeen :: "ctx \<Rightarrow> string \<Rightarrow> memorySeenStore \<Rightarrow> cerror option \<times> memorySeenStore" where
  "MarkSeen c v s =
     (case ctx_Err c of
        Some err \<Rightarrow> (Some (ctx_error err), s)
      | None \<Rightarrow> if v = [] then (Some id_required, s) else (None, markSeenLocked v s))"

definition MarkIfNew :: "ctx \<Rightarrow> string \<Rightarrow> memorySeenStore \<Rightarrow> (cerror + bool) \<times> memorySeenStore" where
  "MarkIfNew c v s =
     (case ctx_Err c of
        Some err \<Rightarrow> (Inl (ctx_error err), s)
      | None \<Rightarrow>
          if v = [] then (Inl id_required, s)
          else case map_of (ss_items s) v of
            Some e \<Rightarrow> (Inr False, MoveToBack e s)
          | None \<Rightarrow> (Inr True, markSeenLocked v s))"

section \<open>The worker\<close>

record ('v, 'b) EventBatch =
  eb_Events :: "'v EventEnvelope list"
  eb_Ack :: "(ctx \<Rightarrow> 'b \<Rightarrow> cerror option \<times> 'b) option"
  eb_Nack :: "(ctx \<Rightarrow> cerror \<Rightarrow> 'b \<Rightarrow> cerror option \<times> 'b) option"

type_synonym ('v, 'b) receive_fn = "ctx \<Rightarrow> 'b \<Rightarrow> (cerror + ('v, 'b) EventBatch) \<times> 'b"

record 's seen_ops =
  so_Seen :: "ctx \<Rightarrow> string \<Rightarrow> 's \<Rightarrow> (cerror + bool) \<times> 's"
  so_MarkSeen :: "ctx \<Rightarrow> string \<Rightarrow> 's \<Rightarrow> cerror option \<times> 's"

record ('w, 'b, 's) worker_state =
  wk_world :: 'w
  wk_source :: 'b
  wk_seen :: 's

definition ErrEventSourceClosed :: cerror where
  "ErrEventSourceClosed = AppError ''event source closed'' []"

text \<open>\<open>errors.Is(err, ErrEventSourceClosed)\<close>\<close>

fun is_closed :: "cerror \<Rightarrow> bool" where
  "is_closed (AppError m es) \<longleftrightarrow> AppError m es = ErrEventSourceClosed \<or> list_ex is_closed es"
| "is_closed (ContractError _ _ cause) \<longleftrightarrow> (case cause of None \<Rightarrow> False | Some e \<Rightarrow> is_closed e)"

definition ackEventBatch :: "ctx \<Rightarrow> ('v, 'b) EventBatch \<Rightarrow> 'b \<Rightarrow> cerror option \<times> 'b" where
  "ackEventBatch c batch b = (case eb_Ack batch of None \<Rightarrow> (None, b) | Some ack \<Rightarrow> ack c b)"

fun unseen_loop ::
  "ctx \<Rightarrow> 's seen_ops \<Rightarrow> 'v EventEnvelope list \<Rightarrow> 'v EventEnvelope list \<Rightarrow> string list \<Rightarrow> 's \<Rightarrow>
   (cerror + 'v EventEnvelope list \<times> string list) \<times> 's" where
  "unseen_loop c ops [] out delivered s = (Inr (out, delivered), s)"
| "unseen_loop c ops (event # events) out delivered s =
     (if ee_ID event = [] then unseen_loop c ops events (out @ [event]) delivered s
      else if ee_ID event \<in> set delivered then unseen_loop c ops events out delivered s
      else
        case so_Seen ops c (ee_ID event) s of
          (Inl err, s') \<Rightarrow> (Inl err, s')
        | (Inr True, s') \<Rightarrow> unseen_loop c ops events out delivered s'
        | (Inr False, s') \<Rightarrow> unseen_loop c ops events (out @ [event]) (delivered @ [ee_ID event]) s')"

definition unseenEvents ::
  "ctx \<Rightarrow> 's seen_ops option \<Rightarrow> 'v EventEnvelope list \<Rightarrow> 's \<Rightarrow>
   (cerror + 'v EventEnvelope list \<times> string list) \<times> 's" where
  "unseenEvents c seen events s =
     (case seen of None \<Rightarrow> (Inr (events, []), s) | Some ops \<Rightarrow> unseen_loop c ops events [] [] s)"

fun mark_loop :: "ctx \<Rightarrow> 's seen_ops \<Rightarrow> string list \<Rightarrow> 's \<Rightarrow> cerror option \<times> 's" where
  "mark_loop c ops [] s = (None, s)"
| "mark_loop c ops (v # vs) s =
     (case so_MarkSeen ops c v s of
        (Some err, s') \<Rightarrow> (Some err, s')
      | (None, s') \<Rightarrow> mark_loop c ops vs s')"

definition markSeenEvents :: "ctx \<Rightarrow> 's seen_ops option \<Rightarrow> string list \<Rightarrow> 's \<Rightarrow> cerror option \<times> 's" where
  "markSeenEvents c seen ids s = (case seen of None \<Rightarrow> (None, s) | Some ops \<Rightarrow> mark_loop c ops ids s)"

record dispatchResult =
  dr_nacked :: bool
  dr_eventCount :: int
  dr_cause :: "cerror option"

definition zeroResult :: dispatchResult where
  "zeroResult = \<lparr>dr_nacked = False, dr_eventCount = 0, dr_cause = None\<rparr>"

text \<open>\<open>publish\<close> is \<open>PublishEnvelopesForRole\<close> for the worker's registry and role.\<close>

definition dispatchEventBatch ::
  "(ctx \<Rightarrow> 'v EventEnvelope list \<Rightarrow> 'w \<Rightarrow> cerror option \<times> 'w) \<Rightarrow> ctx \<Rightarrow> ('v, 'b) EventBatch \<Rightarrow> 's seen_ops option \<Rightarrow>
   ('w, 'b, 's) worker_state \<Rightarrow> (cerror + dispatchResult) \<times> ('w, 'b, 's) worker_state" where
  "dispatchEventBatch publish c batch seen st =
     (let ack = (\<lambda>st. case ackEventBatch c batch (wk_source st) of
                        (Some err, b) \<Rightarrow> (Inl err, st\<lparr>wk_source := b\<rparr>)
                      | (None, b) \<Rightarrow> (Inr zeroResult, st\<lparr>wk_source := b\<rparr>))
      in if eb_Events batch = [] then ack st
         else
           case unseenEvents c seen (eb_Events batch) (wk_seen st) of
             (Inl err, s) \<Rightarrow> (Inl err, st\<lparr>wk_seen := s\<rparr>)
           | (Inr (events, deliveredIDs), s) \<Rightarrow>
               let st1 = st\<lparr>wk_seen := s\<rparr>
               in if events = [] then ack st1
                  else
                    case publish c events (wk_world st1) of
                      (Some err, w) \<Rightarrow>
                        let st2 = st1\<lparr>wk_world := w\<rparr>
                        in (case eb_Nack batch of
                              None \<Rightarrow> (Inl err, st2)
                            | Some nack \<Rightarrow>
                                (case nack c err (wk_source st2) of
                                   (Some nackErr, b) \<Rightarrow> (Inl (AppError [] [err, nackErr]), st2\<lparr>wk_source := b\<rparr>)
                                 | (None, b) \<Rightarrow>
                                     (Inr \<lparr>dr_nacked = True, dr_eventCount = int (length events), dr_cause = Some err\<rparr>,
                                      st2\<lparr>wk_source := b\<rparr>)))
                    | (None, w) \<Rightarrow>
                        let st2 = st1\<lparr>wk_world := w\<rparr>
                        in (case ack st2 of
                              (Inl err, st3) \<Rightarrow> (Inl err, st3)
                            | (Inr res, st3) \<Rightarrow>
                                (case markSeenEvents c seen deliveredIDs (wk_seen st3) of
                                   (Some err, s') \<Rightarrow> (Inl err, st3\<lparr>wk_seen := s'\<rparr>)
                                 | (None, s') \<Rightarrow> (Inr res, st3\<lparr>wk_seen := s'\<rparr>))))"

record EventWorkerRetry =
  er_Role :: role
  er_Attempt :: int
  er_EventCount :: int
  er_Cause :: "cerror option"

definition ConstantEventWorkerBackoff :: "int \<Rightarrow> EventWorkerRetry \<Rightarrow> int" where
  "ConstantEventWorkerBackoff delay retry = (if delay \<le> 0 then 0 else delay)"

definition retryDelay :: "(EventWorkerRetry \<Rightarrow> int) option \<Rightarrow> EventWorkerRetry \<Rightarrow> int" where
  "retryDelay backoff retry =
     (case backoff of None \<Rightarrow> 0 | Some f \<Rightarrow> let delay = f retry in if delay \<le> 0 then 0 else delay)"

definition waitEventWorkerBackoff :: "ctx \<Rightarrow> int \<Rightarrow> cerror option" where
  "waitEventWorkerBackoff c delay = (if delay \<le> 0 then None else map_option ctx_error (ctx_Err c))"

text \<open>
  The context may be cancelled while the worker runs: \<open>c n\<close> is the context as it is at the \<open>n\<close>-th stage.
  A pass of the loop has three stages: it looks at the context and receives, it looks again after an error or
  dispatches, and it waits.
\<close>

fun worker_loop ::
  "nat \<Rightarrow> (ctx \<Rightarrow> 'v EventEnvelope list \<Rightarrow> 'w \<Rightarrow> cerror option \<times> 'w) \<Rightarrow> (nat \<Rightarrow> ctx) \<Rightarrow> nat \<Rightarrow> role \<Rightarrow> ('v, 'b) receive_fn \<Rightarrow>
   's seen_ops option \<Rightarrow> (EventWorkerRetry \<Rightarrow> int) option \<Rightarrow> int \<Rightarrow> ('w, 'b, 's) worker_state \<Rightarrow>
   (cerror option \<times> ('w, 'b, 's) worker_state) option" where
  "worker_loop 0 publish c n role receive seen backoff nackedAttempts st = None"
| "worker_loop (Suc fuel) publish c n role receive seen backoff nackedAttempts st =
     (case ctx_Err (c n) of
        Some err \<Rightarrow> Some (Some (ctx_error err), st)
      | None \<Rightarrow>
          (case receive (c n) (wk_source st) of
             (Inl err, b) \<Rightarrow>
               Some (if is_closed err then None
                     else (case ctx_Err (c (n + 1)) of Some ctxErr \<Rightarrow> Some (ctx_error ctxErr) | None \<Rightarrow> Some err),
                     st\<lparr>wk_source := b\<rparr>)
           | (Inr batch, b) \<Rightarrow>
               (case dispatchEventBatch publish (c (n + 1)) batch seen (st\<lparr>wk_source := b\<rparr>) of
                  (Inl err, st') \<Rightarrow> Some (Some err, st')
                | (Inr result, st') \<Rightarrow>
                    if dr_nacked result then
                      let attempts = nackedAttempts + 1;
                          delay = retryDelay backoff \<lparr>er_Role = role, er_Attempt = attempts,
                                    er_EventCount = dr_eventCount result, er_Cause = dr_cause result\<rparr>
                      in (case waitEventWorkerBackoff (c (n + 2)) delay of
                            Some err \<Rightarrow> Some (Some err, st')
                          | None \<Rightarrow> worker_loop fuel publish c (n + 3) role receive seen backoff attempts st')
                    else worker_loop fuel publish c (n + 3) role receive seen backoff 0 st')))"

definition runEventWorkerForRole ::
  "nat \<Rightarrow> (nat \<Rightarrow> ctx) \<Rightarrow> ('v, 'w) registry option \<Rightarrow> role \<Rightarrow> ('v, 'b) receive_fn option \<Rightarrow> 's seen_ops option \<Rightarrow>
   (EventWorkerRetry \<Rightarrow> int) option \<Rightarrow> ('w, 'b, 's) worker_state \<Rightarrow> (cerror option \<times> ('w, 'b, 's) worker_state) option" where
  "runEventWorkerForRole fuel c registry role source seen backoff st =
     (case source of
        None \<Rightarrow> Some (Some (ContractError ErrNilHandler [] None), st)
      | Some receive \<Rightarrow>
          worker_loop fuel (\<lambda>c events w. publishEnvelopesForRole c registry events role w) c 0 role receive seen backoff 0 st)"

section \<open>The in-memory broker\<close>

record 'v Broker =
  mb_batchSize :: nat
  mb_nextID :: "64 word"
  mb_records :: "(64 word \<times> 'v EventEnvelope) list"

definition WithBatchSize :: "int \<Rightarrow> 'v Broker \<Rightarrow> 'v Broker" where
  "WithBatchSize n broker = (if 0 < n then broker\<lparr>mb_batchSize := nat n\<rparr> else broker)"

definition NewBroker :: "('v Broker \<Rightarrow> 'v Broker) option list \<Rightarrow> 'v Broker" where
  "NewBroker options =
     fold (\<lambda>opt broker. case opt of None \<Rightarrow> broker | Some f \<Rightarrow> f broker) options
       \<lparr>mb_batchSize = 100, mb_nextID = 0, mb_records = []\<rparr>"

fun append_events :: "(nat \<Rightarrow> string) \<Rightarrow> nat \<Rightarrow> 'v EventEnvelope list \<Rightarrow> 'v Broker \<Rightarrow> 'v Broker" where
  "append_events newID i [] b = b"
| "append_events newID i (event # events) b =
     append_events newID (Suc i) events
       (b\<lparr>mb_nextID := mb_nextID b + 1,
          mb_records := mb_records b @ [(mb_nextID b + 1, EnsureEventID (newID i) event)]\<rparr>)"

definition PublishEvents :: "(nat \<Rightarrow> string) \<Rightarrow> ctx \<Rightarrow> 'v EventEnvelope list \<Rightarrow> 'v Broker \<Rightarrow> cerror option \<times> 'v Broker" where
  "PublishEvents newID c events b =
     (case ctx_Err c of
        Some err \<Rightarrow> (Some (ctx_error err), b)
      | None \<Rightarrow> (None, append_events newID 0 events b))"

definition broker_ack :: "64 word list \<Rightarrow> ctx \<Rightarrow> 'v Broker \<Rightarrow> cerror option \<times> 'v Broker" where
  "broker_ack acked c b =
     (case ctx_Err c of
        Some err \<Rightarrow> (Some (ctx_error err), b)
      | None \<Rightarrow> (None, b\<lparr>mb_records := filter (\<lambda>r. fst r \<notin> set acked) (mb_records b)\<rparr>))"

definition ReceiveEventBatch :: "('v, 'v Broker) receive_fn" where
  "ReceiveEventBatch c b =
     (case ctx_Err c of
        Some err \<Rightarrow> (Inl (ctx_error err), b)
      | None \<Rightarrow>
          if mb_records b = [] then (Inl ErrEventSourceClosed, b)
          else
            let selected = take (mb_batchSize b) (mb_records b)
            in (Inr \<lparr>eb_Events = map snd selected, eb_Ack = Some (broker_ack (map fst selected)), eb_Nack = None\<rparr>, b))"

definition Len :: "'v Broker \<Rightarrow> nat" where
  "Len b = length (mb_records b)"

section \<open>The seen store as a list\<close>

text \<open>The identifiers from the least to the most recently used.\<close>

definition window :: "memorySeenStore \<Rightarrow> string list" where
  "window s = map snd (ss_order s)"

definition linked :: "memorySeenStore \<Rightarrow> bool" where
  "linked s \<longleftrightarrow>
     0 < ss_limit s \<and> distinct (map fst (ss_order s)) \<and> distinct (map snd (ss_order s)) \<and>
     distinct (map fst (ss_items s)) \<and> set (ss_items s) = (\<lambda>(e, v). (v, e)) ` set (ss_order s) \<and>
     (\<forall>(e, v)\<in>set (ss_order s). e < ss_next s)"

definition seen_inv :: "memorySeenStore \<Rightarrow> bool" where
  "seen_inv s \<longleftrightarrow> linked s \<and> length (ss_order s) \<le> ss_limit s"

lemma linked_length: "linked s \<Longrightarrow> length (ss_items s) = length (ss_order s)"
proof -
  assume l: "linked s"
  then have d: "distinct (ss_items s)" "distinct (ss_order s)" by (auto simp: linked_def distinct_map)
  have "inj_on (\<lambda>(e, v). (v, e)) (set (ss_order s))" by (auto simp: inj_on_def)
  with l have "card (set (ss_items s)) = card (set (ss_order s))" by (simp add: linked_def card_image)
  with d show ?thesis by (simp add: distinct_card)
qed

lemma linked_lookup:
  assumes "linked s"
  shows "map_of (ss_items s) v = Some e \<longleftrightarrow> (e, v) \<in> set (ss_order s)" "map_of (ss_items s) v = None \<longleftrightarrow> v \<notin> set (window s)"
proof -
  have mem: "(v, e) \<in> set (ss_items s) \<longleftrightarrow> (e, v) \<in> set (ss_order s)" for e v
    using assms by (auto simp: linked_def)
  have "distinct (map fst (ss_items s))" using assms by (simp add: linked_def)
  then show "map_of (ss_items s) v = Some e \<longleftrightarrow> (e, v) \<in> set (ss_order s)" using mem by simp
  have "v \<in> fst ` set (ss_items s) \<longleftrightarrow> v \<in> snd ` set (ss_order s)" using mem by force
  then show "map_of (ss_items s) v = None \<longleftrightarrow> v \<notin> set (window s)"
    by (simp add: map_of_eq_None_iff window_def)
qed

lemma filter_handle:
  assumes "distinct (map fst ps)" "distinct (map snd ps)" "(e, v) \<in> set ps"
  shows "filter (\<lambda>p. fst p = e) ps = [(e, v)]" "map snd (filter (\<lambda>p. fst p \<noteq> e) ps) = filter (\<lambda>x. x \<noteq> v) (map snd ps)"
proof -
  show "filter (\<lambda>p. fst p = e) ps = [(e, v)]"
    using assms(1,3) by (induction ps) (auto simp: filter_empty_conv image_iff rev_image_eqI)
  have "fst p \<noteq> e \<longleftrightarrow> snd p \<noteq> v" if "p \<in> set ps" for p
    using that assms by (metis (no_types, lifting) distinct_map inj_onD fst_conv snd_conv)
  then show "map snd (filter (\<lambda>p. fst p \<noteq> e) ps) = filter (\<lambda>x. x \<noteq> v) (map snd ps)"
    by (simp add: filter_map o_def cong: filter_cong)
qed

lemma MoveToBack_window:
  assumes "seen_inv s" "map_of (ss_items s) v = Some e"
  shows "window (MoveToBack e s) = filter (\<lambda>x. x \<noteq> v) (window s) @ [v]" "seen_inv (MoveToBack e s)"
proof -
  have l: "linked s" "distinct (map fst (ss_order s))" "distinct (map snd (ss_order s))" "(e, v) \<in> set (ss_order s)"
    using assms linked_lookup(1) by (auto simp: seen_inv_def linked_def)
  note f = filter_handle [OF l(2-4)]
  have order: "ss_order (MoveToBack e s) = filter (\<lambda>p. fst p \<noteq> e) (ss_order s) @ [(e, v)]"
    by (simp add: MoveToBack_def f)
  then show "window (MoveToBack e s) = filter (\<lambda>x. x \<noteq> v) (window s) @ [v]" by (simp add: window_def f)
  have "mset (ss_order (MoveToBack e s)) = mset (ss_order s)"
    by (simp add: MoveToBack_def)
  then have perm: "set (ss_order (MoveToBack e s)) = set (ss_order s)" "length (ss_order (MoveToBack e s)) = length (ss_order s)"
      "distinct (map fst (ss_order (MoveToBack e s)))" "distinct (map snd (ss_order (MoveToBack e s)))"
    using l(2,3) by (metis mset_eq_setD, metis mset_eq_length, metis mset_eq_imp_distinct_iff mset_map,
        metis mset_eq_imp_distinct_iff mset_map)
  with assms(1) show "seen_inv (MoveToBack e s)"
    by (auto simp: seen_inv_def linked_def MoveToBack_def [of e s])
qed

lemma update_pairs_new: "k \<notin> fst ` set ps \<Longrightarrow> update_pairs k v ps = ps @ [(k, v)]"
  by (induction k v ps rule: update_pairs.induct) auto

lemma PushBack_linked:
  assumes "linked s" "v \<notin> set (window s)"
  shows "linked (PushBack v s)" "window (PushBack v s) = window s @ [v]"
proof -
  have v: "v \<notin> fst ` set (ss_items s)" using linked_lookup(2) [OF assms(1)] assms(2) by (simp add: map_of_eq_None_iff)
  then have items: "update_pairs v (ss_next s) (ss_items s) = ss_items s @ [(v, ss_next s)]"
    by (rule update_pairs_new)
  show "linked (PushBack v s)"
    using assms v by (auto simp: linked_def PushBack_def items window_def)
  show "window (PushBack v s) = window s @ [v]" by (simp add: PushBack_def window_def)
qed

lemma evict_window:
  assumes "linked s"
  shows "linked (evict s) \<and> window (evict s) = drop (length (window s) - ss_limit s) (window s) \<and>
    ss_limit (evict s) = ss_limit s"
  using assms
proof (induction s rule: evict.induct)
  case (1 s)
  have len: "length (ss_items s) = length (ss_order s)" using linked_length 1(2) by blast
  show ?case
  proof (cases "ss_limit s < length (ss_items s)")
    case True
    then obtain e v rest where order: "ss_order s = (e, v) # rest" using len by (cases "ss_order s") auto
    define s' where "s' = s\<lparr>ss_items := filter (\<lambda>p. fst p \<noteq> v) (ss_items s), ss_order := rest\<rparr>"
    have "linked s'"
      using 1(2) by (auto simp: linked_def s'_def order distinct_map_filter image_iff)
    with 1(1) [OF True order refl] have IH: "linked (evict s')" "ss_limit (evict s') = ss_limit s'"
        "window (evict s') = drop (length (window s') - ss_limit s') (window s')"
      by (simp_all add: s'_def)
    have "evict s = evict s'" using True order by (simp add: evict.simps [of s] s'_def)
    moreover have "window s = v # window s'" "ss_limit s' = ss_limit s" by (simp_all add: window_def s'_def order)
    moreover have "ss_limit s < length (window s)" using True len by (simp add: window_def)
    ultimately show ?thesis using IH by (simp add: drop_Cons' Suc_diff_le)
  next
    case False
    with 1(2) len show ?thesis by (simp add: evict.simps [of s] window_def)
  qed
qed

lemma markSeenLocked_window:
  assumes "seen_inv s"
  shows "seen_inv (markSeenLocked v s)"
    "window (markSeenLocked v s) =
      (let xs = filter (\<lambda>x. x \<noteq> v) (window s) @ [v] in drop (length xs - ss_limit s) xs)"
proof -
  have l: "linked s" "length (window s) \<le> ss_limit s" using assms by (auto simp: seen_inv_def window_def)
  have "seen_inv (markSeenLocked v s) \<and> window (markSeenLocked v s) =
      (let xs = filter (\<lambda>x. x \<noteq> v) (window s) @ [v] in drop (length xs - ss_limit s) xs)"
  proof (cases "map_of (ss_items s) v")
    case None
    then have v: "v \<notin> set (window s)" using linked_lookup(2) [OF l(1)] by simp
    then have "filter (\<lambda>x. x \<noteq> v) (window s) = window s" by (auto simp: filter_id_conv)
    moreover have "ss_limit (PushBack v s) = ss_limit s" by (simp add: PushBack_def)
    moreover note p = PushBack_linked [OF l(1) v]
    moreover note e = evict_window [OF p(1)]
    ultimately have w: "linked (evict (PushBack v s))" "ss_limit (evict (PushBack v s)) = ss_limit s"
        "window (evict (PushBack v s)) =
          (let xs = filter (\<lambda>x. x \<noteq> v) (window s) @ [v] in drop (length xs - ss_limit s) xs)"
      by (simp_all add: Let_def)
    have "length (window (evict (PushBack v s))) \<le> ss_limit s" unfolding w(3) by (simp add: Let_def)
    then have "length (ss_order (evict (PushBack v s))) \<le> ss_limit s" by (simp add: window_def)
    with w None show ?thesis by (simp add: markSeenLocked_def seen_inv_def)
  next
    case (Some e)
    note m = MoveToBack_window [OF assms Some]
    have "length (window (MoveToBack e s)) \<le> ss_limit s"
      using m(2) by (simp add: seen_inv_def window_def MoveToBack_def)
    with m Some show ?thesis by (simp add: markSeenLocked_def Let_def)
  qed
  then show "seen_inv (markSeenLocked v s)"
    "window (markSeenLocked v s) =
      (let xs = filter (\<lambda>x. x \<noteq> v) (window s) @ [v] in drop (length xs - ss_limit s) xs)" by blast+
qed

section \<open>Stores of seen identifiers\<close>

text \<open>The events a consumer that has already seen some identifiers still has to handle.\<close>

fun fresh_events :: "string set \<Rightarrow> 'v EventEnvelope list \<Rightarrow> 'v EventEnvelope list" where
  "fresh_events seen [] = []"
| "fresh_events seen (event # events) =
     (if ee_ID event = [] then event # fresh_events seen events
      else if ee_ID event \<in> seen then fresh_events seen events
      else event # fresh_events (insert (ee_ID event) seen) events)"

definition event_ids :: "'v EventEnvelope list \<Rightarrow> string list" where
  "event_ids events = filter (\<lambda>v. v \<noteq> []) (map ee_ID events)"

lemma event_ids_simps [simp]:
  "event_ids [] = []" "event_ids (e # es) = (if ee_ID e = [] then event_ids es else ee_ID e # event_ids es)"
  "event_ids (es @ es') = event_ids es @ event_ids es'"
  by (simp_all add: event_ids_def)

lemma fresh_events_append:
  "fresh_events seen (xs @ ys) = fresh_events seen xs @ fresh_events (seen \<union> set (event_ids xs)) ys"
proof (induction seen xs rule: fresh_events.induct)
  case (2 seen event events)
  then show ?case by (auto simp: insert_absorb intro: arg_cong [where f = "\<lambda>A. fresh_events A ys"])
qed simp

lemma fresh_events_ids:
  "distinct (event_ids (fresh_events seen events))"
  "set (event_ids (fresh_events seen events)) = set (event_ids events) - seen"
  by (induction seen events rule: fresh_events.induct) auto

text \<open>
  The contract of a \<open>SeenStore\<close>: it answers from a finite set of identifiers, marking adds to the
  set, and nothing is forgotten while the set fits the store's capacity.
\<close>

locale seen_store =
  fixes ops :: "'s seen_ops"
    and inv :: "'s \<Rightarrow> bool"
    and ids :: "'s \<Rightarrow> string set"
    and cap :: "'s \<Rightarrow> nat"
    and ok :: "string \<Rightarrow> bool"
  assumes seen_ok:
      "inv s \<Longrightarrow> ctx_Err c = None \<Longrightarrow> v \<noteq> [] \<Longrightarrow> ok v \<Longrightarrow>
       \<exists>s'. so_Seen ops c v s = (Inr (v \<in> ids s), s') \<and> inv s' \<and> ids s' = ids s \<and> cap s' = cap s"
    and mark_ok:
      "inv s \<Longrightarrow> ctx_Err c = None \<Longrightarrow> v \<noteq> [] \<Longrightarrow> ok v \<Longrightarrow>
       \<exists>s'. so_MarkSeen ops c v s = (None, s') \<and> inv s' \<and> cap s' = cap s \<and> v \<in> ids s' \<and> ids s' \<subseteq> insert v (ids s) \<and>
         (card (insert v (ids s)) \<le> cap s \<longrightarrow> ids s' = insert v (ids s))"
    and ids_finite: "inv s \<Longrightarrow> finite (ids s)"
begin

lemma unseen_loop_fresh:
  assumes "inv s" "ctx_Err c = None" "list_all ok (event_ids events)"
  shows "\<exists>s'. unseen_loop c ops events out delivered s =
      (Inr (out @ fresh_events (ids s \<union> set delivered) events,
            delivered @ event_ids (fresh_events (ids s \<union> set delivered) events)), s') \<and>
      inv s' \<and> ids s' = ids s \<and> cap s' = cap s"
  using assms
proof (induction events arbitrary: out delivered s)
  case (Cons event events)
  consider (none) "ee_ID event = []" | (dup) "ee_ID event \<noteq> []" "ee_ID event \<in> set delivered"
    | (new) "ee_ID event \<noteq> []" "ee_ID event \<notin> set delivered" by blast
  then show ?case
  proof cases
    case none
    with Cons.IH [of s "out @ [event]" delivered] Cons.prems show ?thesis by (simp add: event_ids_def)
  next
    case dup
    with Cons.IH [of s out delivered] Cons.prems show ?thesis by (simp add: event_ids_def)
  next
    case new
    obtain s1 where s1: "so_Seen ops c (ee_ID event) s = (Inr (ee_ID event \<in> ids s), s1)" "inv s1" "ids s1 = ids s" "cap s1 = cap s"
      using seen_ok [OF Cons.prems(1,2) new(1)] new(1) Cons.prems(3) by (auto simp: event_ids_def)
    show ?thesis
    proof (cases "ee_ID event \<in> ids s")
      case True
      with Cons.IH [of s1 out delivered] Cons.prems new s1 show ?thesis by (simp add: event_ids_def)
    next
      case False
      have eq: "ids s1 \<union> set (delivered @ [ee_ID event]) = insert (ee_ID event) (ids s \<union> set delivered)" using s1(3) by simp
      show ?thesis
        using Cons.IH [OF s1(2) Cons.prems(2), of "out @ [event]" "delivered @ [ee_ID event]", unfolded eq] new s1 False Cons.prems(3)
        by (simp add: event_ids_def)
    qed
  qed
qed simp

lemma mark_loop_adds:
  assumes "inv s" "ctx_Err c = None" "[] \<notin> set vs" "card (ids s \<union> set vs) \<le> cap s" "list_all ok vs"
  shows "\<exists>s'. mark_loop c ops vs s = (None, s') \<and> inv s' \<and> ids s' = ids s \<union> set vs \<and> cap s' = cap s"
  using assms
proof (induction vs arbitrary: s)
  case (Cons v vs)
  have "card (insert v (ids s)) \<le> cap s"
    using Cons.prems(4) ids_finite [OF Cons.prems(1)]
    by (meson card_mono finite_UnI finite_set insert_subset le_trans list.set_intros(1) subset_Un_eq sup_ge1 sup_ge2 subsetD)
  then obtain s1 where s1: "so_MarkSeen ops c v s = (None, s1)" "inv s1" "cap s1 = cap s" "ids s1 = insert v (ids s)"
    using mark_ok [OF Cons.prems(1,2), of v] Cons.prems(3,5) by auto
  with Cons.IH [of s1] Cons.prems show ?case by auto
qed auto

text \<open>A batch whose new events are handled and that is acknowledged: the new events are marked.\<close>

lemma dispatch_fresh:
  assumes "inv (wk_seen st)" "ctx_Err c = None" "card (ids (wk_seen st) \<union> set (event_ids (eb_Events batch))) \<le> cap (wk_seen st)"
    and good: "list_all ok (event_ids (eb_Events batch))"
    and publish: "publish c (fresh_events (ids (wk_seen st)) (eb_Events batch)) (wk_world st) = (None, w')" "\<And>w. publish c [] w = (None, w)"
    and ack: "ackEventBatch c batch (wk_source st) = (None, b')"
  shows "\<exists>s'. dispatchEventBatch publish c batch (Some ops) st =
      (Inr zeroResult, st\<lparr>wk_world := w', wk_source := b', wk_seen := s'\<rparr>) \<and>
      inv s' \<and> ids s' = ids (wk_seen st) \<union> set (event_ids (eb_Events batch)) \<and> cap s' = cap (wk_seen st)"
proof (cases "eb_Events batch = []")
  case True
  with assms show ?thesis
    by (intro exI [of _ "wk_seen st"]) (simp add: dispatchEventBatch_def)
next
  case False
  let ?s = "wk_seen st" and ?events = "eb_Events batch"
  let ?f = "fresh_events (ids ?s) ?events"
  obtain s1 where s1: "unseen_loop c ops ?events [] [] ?s = (Inr (?f, event_ids ?f), s1)" "inv s1" "ids s1 = ids ?s" "cap s1 = cap ?s"
    using unseen_loop_fresh [OF assms(1,2) good, of "[]" "[]"] by auto
  have f: "set (event_ids ?f) = set (event_ids ?events) - ids ?s" "[] \<notin> set (event_ids ?f)"
    by (simp_all add: fresh_events_ids) (auto simp: event_ids_def)
  have un: "ids s1 \<union> set (event_ids ?f) = ids ?s \<union> set (event_ids ?events)" using f(1) s1(3) by auto
  show ?thesis
  proof (cases "?f = []")
    case True
    then have "set (event_ids ?events) \<subseteq> ids ?s" using f(1) by auto
    with False True s1 ack publish show ?thesis
      by (intro exI [of _ s1]) (auto simp: dispatchEventBatch_def unseenEvents_def)
  next
    case ne: False
    obtain s2 where "mark_loop c ops (event_ids ?f) s1 = (None, s2)" "inv s2"
        "ids s2 = ids ?s \<union> set (event_ids ?events)" "cap s2 = cap ?s"
      using mark_loop_adds [OF s1(2) assms(2) f(2)] assms(3) s1(4) un good f(1) by (auto simp: list_all_iff)
    with False ne s1 ack publish show ?thesis
      by (intro exI [of _ s2])
        (simp add: dispatchEventBatch_def unseenEvents_def markSeenEvents_def Let_def)
  qed
qed

end


section \<open>The memory store meets the contract\<close>

abbreviation memory_seen_ops :: "memorySeenStore seen_ops" where
  "memory_seen_ops \<equiv> \<lparr>so_Seen = Seen, so_MarkSeen = MarkSeen\<rparr>"

lemma evict_limit: "ss_limit (evict s) = ss_limit s"
  by (induction s rule: evict.induct) (subst evict.simps, auto split: list.splits)

lemma markSeenLocked_limit: "ss_limit (markSeenLocked v s) = ss_limit s"
  by (simp add: markSeenLocked_def MoveToBack_def PushBack_def evict_limit split: option.splits)

lemma window_distinct: "seen_inv s \<Longrightarrow> distinct (window s)" "seen_inv s \<Longrightarrow> length (window s) \<le> ss_limit s"
  by (auto simp: seen_inv_def linked_def window_def)

lemma seen_inv_new: "seen_inv (NewMemorySeenStore limit)" "window (NewMemorySeenStore limit) = []"
  by (auto simp: seen_inv_def linked_def NewMemorySeenStore_def window_def)

lemma new_limit: "0 < limit \<Longrightarrow> ss_limit (NewMemorySeenStore limit) = nat limit"
  by (simp add: NewMemorySeenStore_def)

lemma Seen_window:
  assumes "seen_inv s" "ctx_Err c = None" "v \<noteq> []"
  shows "\<exists>s'. Seen c v s = (Inr (v \<in> set (window s)), s') \<and> seen_inv s' \<and> ss_limit s' = ss_limit s \<and>
    window s' = (if v \<in> set (window s) then filter (\<lambda>x. x \<noteq> v) (window s) @ [v] else window s)"
proof (cases "map_of (ss_items s) v")
  case None
  then have "v \<notin> set (window s)" using assms(1) linked_lookup(2) [of s v] by (auto simp: seen_inv_def)
  then show ?thesis using assms None by (simp add: Seen_def)
next
  case (Some e)
  then have "v \<in> set (window s)" using assms(1) linked_lookup(2) [of s v] by (auto simp: seen_inv_def)
  moreover have "ss_limit (MoveToBack e s) = ss_limit s" by (simp add: MoveToBack_def)
  ultimately show ?thesis using assms Some MoveToBack_window [OF assms(1) Some] by (simp add: Seen_def)
qed

lemma mark_members:
  fixes xs :: "string list" and v :: string
  assumes "distinct xs" "0 < n"
  defines "ys \<equiv> filter (\<lambda>x. x \<noteq> v) xs @ [v]"
  shows "v \<in> set (drop (length ys - n) ys)" "set (drop (length ys - n) ys) \<subseteq> insert v (set xs)"
    "card (insert v (set xs)) \<le> n \<Longrightarrow> set (drop (length ys - n) ys) = insert v (set xs)"
proof -
  have ys: "set ys = insert v (set xs)" "distinct ys" using assms(1) by (auto simp: ys_def)
  have "length ys - n \<le> length (filter (\<lambda>x. x \<noteq> v) xs)" using assms(2) by (simp add: ys_def)
  then show "v \<in> set (drop (length ys - n) ys)" by (simp add: ys_def)
  show "set (drop (length ys - n) ys) \<subseteq> insert v (set xs)" using set_drop_subset [of "length ys - n" ys] ys(1) by simp
  show "set (drop (length ys - n) ys) = insert v (set xs)" if "card (insert v (set xs)) \<le> n"
    using that ys distinct_card [OF ys(2)] by simp
qed

interpretation memory_seen: seen_store memory_seen_ops seen_inv "\<lambda>s. set (window s)" ss_limit "\<lambda>_. True"
proof unfold_locales
  fix s :: memorySeenStore and c :: ctx and v :: string
  assume *: "seen_inv s" "ctx_Err c = None" "v \<noteq> []"
  from Seen_window [OF *] obtain s' where "Seen c v s = (Inr (v \<in> set (window s)), s')" "seen_inv s'" "ss_limit s' = ss_limit s"
      "window s' = (if v \<in> set (window s) then filter (\<lambda>x. x \<noteq> v) (window s) @ [v] else window s)" by blast
  then show "\<exists>s'. so_Seen memory_seen_ops c v s = (Inr (v \<in> set (window s)), s') \<and> seen_inv s' \<and>
      set (window s') = set (window s) \<and> ss_limit s' = ss_limit s"
    by (intro exI [of _ s']) auto
  have "0 < ss_limit s" using *(1) by (simp add: seen_inv_def linked_def)
  note m = mark_members [OF window_distinct(1) [OF *(1)] this, of v]
  have "MarkSeen c v s = (None, markSeenLocked v s)" using * by (simp add: MarkSeen_def)
  with m show "\<exists>s'. so_MarkSeen memory_seen_ops c v s = (None, s') \<and> seen_inv s' \<and> ss_limit s' = ss_limit s \<and>
      v \<in> set (window s') \<and> set (window s') \<subseteq> insert v (set (window s)) \<and>
      (card (insert v (set (window s))) \<le> ss_limit s \<longrightarrow> set (window s') = insert v (set (window s)))"
    using markSeenLocked_window [OF *(1), of v]
    by (intro exI [of _ "markSeenLocked v s"]) (simp add: markSeenLocked_limit Let_def)
qed simp

text \<open>
  C13: The bounded store is a list of the most recently used identifiers: looking an identifier up
  answers membership and moves it to the end, marking one puts it at the end and drops the oldest
  ones above the limit, and no operation that reports an error changes the store.\<close>

theorem MemorySeenStore_is_lru:
  assumes "seen_inv s"
  shows "(if ctx_Err c = None \<and> v \<noteq> []
     then fst (Seen c v s) = Inr (v \<in> set (window s)) \<and> fst (MarkSeen c v s) = None \<and>
       fst (MarkIfNew c v s) = Inr (v \<notin> set (window s)) \<and>
       window (snd (Seen c v s)) = (if v \<in> set (window s) then filter (\<lambda>x. x \<noteq> v) (window s) @ [v] else window s) \<and>
       (let xs = filter (\<lambda>x. x \<noteq> v) (window s) @ [v]
        in window (snd (MarkSeen c v s)) = drop (length xs - ss_limit s) xs \<and>
           window (snd (MarkIfNew c v s)) = drop (length xs - ss_limit s) xs)
     else snd (Seen c v s) = s \<and> snd (MarkSeen c v s) = s \<and> snd (MarkIfNew c v s) = s) \<and>
    seen_inv (snd (Seen c v s)) \<and> seen_inv (snd (MarkSeen c v s)) \<and> seen_inv (snd (MarkIfNew c v s))"
proof (cases "ctx_Err c = None \<and> v \<noteq> []")
  case True
  then have ok: "ctx_Err c = None" "v \<noteq> []" by auto
  note m = markSeenLocked_window [OF assms, of v]
  have "MarkIfNew c v s = (Inr (v \<notin> set (window s)), markSeenLocked v s)"
    using ok assms linked_lookup(2) [of s v]
    by (auto simp: MarkIfNew_def markSeenLocked_def seen_inv_def split: option.splits)
  moreover have "MarkSeen c v s = (None, markSeenLocked v s)" using ok by (simp add: MarkSeen_def)
  moreover obtain s' where "Seen c v s = (Inr (v \<in> set (window s)), s')" "seen_inv s'"
      "window s' = (if v \<in> set (window s) then filter (\<lambda>x. x \<noteq> v) (window s) @ [v] else window s)"
    using Seen_window [OF assms ok] by blast
  ultimately show ?thesis using True m by (simp add: Let_def)
next
  case False
  then have "snd (Seen c v s) = s" "snd (MarkSeen c v s) = s" "snd (MarkIfNew c v s) = s"
    by (auto simp: Seen_def MarkSeen_def MarkIfNew_def split: option.splits)
  with False assms show ?thesis by (simp only: if_False)
qed

theorem MemorySeenStore_is_lru_witness:
  "seen_inv (NewMemorySeenStore 2) \<and>
   window (snd (MarkSeen Background ''a'' (NewMemorySeenStore 2))) = [''a'']"
  using MemorySeenStore_is_lru [OF seen_inv_new(1) [of 2], of Background "''a''"]
  by (simp add: seen_inv_new new_limit Background_def Let_def)

text \<open>
  Sources that are drained: a batch is a prefix of what is pending, acknowledging it removes exactly
  that prefix, and an empty source says that it is closed.
\<close>

locale event_source =
  fixes receive :: "('v, 'b) receive_fn"
    and inv :: "'b \<Rightarrow> bool"
    and pending :: "'b \<Rightarrow> 'v EventEnvelope list"
  assumes receive_empty:
      "inv b \<Longrightarrow> ctx_Err c = None \<Longrightarrow> pending b = [] \<Longrightarrow> \<exists>err. receive c b = (Inl err, b) \<and> is_closed err"
    and receive_batch:
      "inv b \<Longrightarrow> ctx_Err c = None \<Longrightarrow> pending b \<noteq> [] \<Longrightarrow>
       \<exists>k ack nack b'. 0 < k \<and> receive c b = (Inr \<lparr>eb_Events = take k (pending b), eb_Ack = Some ack, eb_Nack = nack\<rparr>, b) \<and>
         ack c b = (None, b') \<and> inv b' \<and> pending b' = drop k (pending b)"
begin

text \<open>A worker whose subscribers accept every event delivers all of them in order, whatever the source does with a failed batch.\<close>

lemma worker_delivers:
  assumes publish_append: "\<And>xs ys w. publish c (xs @ ys) w =
      (case publish c xs w of (Some err, w') \<Rightarrow> (Some err, w') | (None, w') \<Rightarrow> publish c ys w')"
    and publish_nil: "\<And>w. publish c [] w = (None, w)"
    and "inv (wk_source st)" "ctx_Err c = None" "length (pending (wk_source st)) < fuel"
    and "publish c (pending (wk_source st)) (wk_world st) = (None, w')"
  shows "\<exists>st'. worker_loop fuel publish (\<lambda>_. c) m role receive None backoff n st = Some (None, st') \<and>
    wk_world st' = w' \<and> inv (wk_source st') \<and> pending (wk_source st') = []"
  using assms(3-)
proof (induction fuel arbitrary: st n m)
  case (Suc fuel)
  let ?q = "pending (wk_source st)"
  show ?case
  proof (cases "?q = []")
    case True
    then show ?thesis using receive_empty [OF Suc.prems(1,2)] Suc.prems(1,2,4) by (auto simp: publish_nil)
  next
    case False
    obtain k ack nack b' where b: "0 < k"
        "receive c (wk_source st) = (Inr \<lparr>eb_Events = take k ?q, eb_Ack = Some ack, eb_Nack = nack\<rparr>, wk_source st)"
        "ack c (wk_source st) = (None, b')" "inv b'" "pending b' = drop k ?q"
      using receive_batch [OF Suc.prems(1,2) False] by blast
    have ne: "take k ?q \<noteq> []" using False b(1) by simp
    obtain w1 where w1: "publish c (take k ?q) (wk_world st) = (None, w1)" "publish c (drop k ?q) w1 = (None, w')"
      using publish_append [of "take k ?q" "drop k ?q" "wk_world st"] Suc.prems(4)
      by (auto split: prod.splits option.splits)
    let ?st = "st\<lparr>wk_world := w1, wk_source := b'\<rparr>"
    have "length (drop k ?q) < fuel" using b(1) Suc.prems(3) False by (cases ?q) auto
    then obtain st' where IH: "worker_loop fuel publish (\<lambda>_. c) (m + 3) role receive None backoff 0 ?st = Some (None, st')"
        "wk_world st' = w'" "inv (wk_source st')" "pending (wk_source st') = []"
      using Suc.IH [where st = ?st and n = 0 and m = "m + 3"] b(4,5) Suc.prems(2) w1(2) by auto
    have "worker_loop (Suc fuel) publish (\<lambda>_. c) m role receive None backoff n st = worker_loop fuel publish (\<lambda>_. c) (m + 3) role receive None backoff 0 ?st"
      using b(2,3) ne Suc.prems(2) w1(1)
      by (simp add: dispatchEventBatch_def unseenEvents_def ackEventBatch_def markSeenEvents_def zeroResult_def Let_def)
    with IH show ?thesis by auto
  qed
qed simp

end

text \<open>A source that takes no batch back: the worker stops at the first event that fails.\<close>

locale nackless_source = event_source receive inv pending
  for receive :: "('v, 'b) receive_fn" and inv pending +
  assumes nackless: "receive c b = (Inr batch, b') \<Longrightarrow> eb_Nack batch = None"
begin

lemma receive_without_nack:
  assumes "inv b" "ctx_Err c = None" "pending b \<noteq> []"
  shows "\<exists>k ack b'. 0 < k \<and> receive c b = (Inr \<lparr>eb_Events = take k (pending b), eb_Ack = Some ack, eb_Nack = None\<rparr>, b) \<and>
    ack c b = (None, b') \<and> inv b' \<and> pending b' = drop k (pending b)"
proof -
  obtain k ack nack b' where b: "0 < k"
      "receive c b = (Inr \<lparr>eb_Events = take k (pending b), eb_Ack = Some ack, eb_Nack = nack\<rparr>, b)"
      "ack c b = (None, b')" "inv b'" "pending b' = drop k (pending b)"
    using receive_batch [OF assms] by blast
  from nackless [OF b(2)] have "nack = None" by simp
  with b show ?thesis by blast
qed

lemma worker_drains:
  assumes publish_append: "\<And>xs ys w. publish c (xs @ ys) w =
      (case publish c xs w of (Some err, w') \<Rightarrow> (Some err, w') | (None, w') \<Rightarrow> publish c ys w')"
    and publish_nil: "\<And>w. publish c [] w = (None, w)"
    and "inv (wk_source st)" "ctx_Err c = None" "length (pending (wk_source st)) < fuel"
  shows "\<exists>err st' j. worker_loop fuel publish (\<lambda>_. c) m role receive None backoff n st = Some (err, st') \<and>
    publish c (pending (wk_source st)) (wk_world st) = (err, wk_world st') \<and>
    fst (publish c (take j (pending (wk_source st))) (wk_world st)) = None \<and>
    pending (wk_source st') = drop j (pending (wk_source st)) \<and>
    (err = None \<longleftrightarrow> pending (wk_source st') = [])"
  using assms(3-)
proof (induction fuel arbitrary: st n m)
  case (Suc fuel)
  let ?q = "pending (wk_source st)"
  show ?case
  proof (cases "?q = []")
    case True
    then show ?thesis using receive_empty [OF Suc.prems(1,2)] Suc.prems(2) by (auto simp: publish_nil)
  next
    case False
    obtain k ack b' where b: "0 < k"
        "receive c (wk_source st) = (Inr \<lparr>eb_Events = take k ?q, eb_Ack = Some ack, eb_Nack = None\<rparr>, wk_source st)"
        "ack c (wk_source st) = (None, b')" "inv b'" "pending b' = drop k ?q"
      using receive_without_nack [OF Suc.prems(1,2) False] by blast
    have ne: "take k ?q \<noteq> []" using False b(1) by simp
    have split: "publish c ?q w = (case publish c (take k ?q) w of (Some err, w') \<Rightarrow> (Some err, w') | (None, w') \<Rightarrow> publish c (drop k ?q) w')" for w
      using publish_append [of "take k ?q" "drop k ?q" w] by simp
    obtain r w1 where w1: "publish c (take k ?q) (wk_world st) = (r, w1)" by fastforce
    show ?thesis
    proof (cases r)
      case (Some err)
      then show ?thesis using w1 b(2) ne False split [of "wk_world st"] Suc.prems(2)
        by (intro exI [of _ "Some err"] exI [of _ "st\<lparr>wk_world := w1\<rparr>"] exI [of _ "0 :: nat"])
          (simp add: dispatchEventBatch_def unseenEvents_def publish_nil)
    next
      case None
      let ?st = "st\<lparr>wk_world := w1, wk_source := b'\<rparr>"
      have "length (drop k ?q) < fuel" using b(1) Suc.prems(3) False by (cases ?q) auto
      then obtain err st' j where IH: "worker_loop fuel publish (\<lambda>_. c) (m + 3) role receive None backoff 0 ?st = Some (err, st')"
          "publish c (drop k ?q) w1 = (err, wk_world st')" "fst (publish c (take j (drop k ?q)) w1) = None"
          "pending (wk_source st') = drop j (drop k ?q)" "err = None \<longleftrightarrow> pending (wk_source st') = []"
        using Suc.IH [where st = ?st and n = 0 and m = "m + 3"] b(4,5) Suc.prems(2) by auto
      have "worker_loop (Suc fuel) publish (\<lambda>_. c) m role receive None backoff n st = worker_loop fuel publish (\<lambda>_. c) (m + 3) role receive None backoff 0 ?st"
        using b(2,3) ne Suc.prems(2) w1 None
        by (simp add: dispatchEventBatch_def unseenEvents_def ackEventBatch_def markSeenEvents_def zeroResult_def Let_def)
      moreover have "fst (publish c (take (k + j) ?q) (wk_world st)) = None"
        using IH(3) w1 None publish_append [of "take k ?q" "take j (drop k ?q)" "wk_world st"] by (simp add: take_add)
      ultimately show ?thesis using IH w1 None split [of "wk_world st"]
        by (intro exI [of _ err] exI [of _ st'] exI [of _ "k + j"]) (simp add: add.commute)
    qed
  qed
qed simp

end

text \<open>
  A worker that remembers what it has handled: the events a source delivers again, within one batch or
  in a later one, are acknowledged and skipped.
\<close>

locale deduplicating_worker =
  source: event_source receive source_inv pending + store: seen_store ops inv ids cap ok
  for receive :: "('v, 'b) receive_fn" and source_inv pending
    and ops :: "'s seen_ops" and inv ids cap ok
begin

lemma worker_handles_fresh:
  assumes publish_append: "\<And>xs ys w. publish c (xs @ ys) w =
      (case publish c xs w of (Some err, w') \<Rightarrow> (Some err, w') | (None, w') \<Rightarrow> publish c ys w')"
    and publish_nil: "\<And>w. publish c [] w = (None, w)"
    and "source_inv (wk_source st)" "inv (wk_seen st)" "ctx_Err c = None" "length (pending (wk_source st)) < fuel"
    and "card (ids (wk_seen st) \<union> set (event_ids (pending (wk_source st)))) \<le> cap (wk_seen st)"
    and "list_all ok (event_ids (pending (wk_source st)))"
    and "publish c (fresh_events (ids (wk_seen st)) (pending (wk_source st))) (wk_world st) = (None, w')"
  shows "\<exists>st'. worker_loop fuel publish (\<lambda>_. c) m role receive (Some ops) backoff n st = Some (None, st') \<and>
    wk_world st' = w' \<and> source_inv (wk_source st') \<and> pending (wk_source st') = [] \<and> inv (wk_seen st') \<and>
    ids (wk_seen st') = ids (wk_seen st) \<union> set (event_ids (pending (wk_source st)))"
  using assms(3-)
proof (induction fuel arbitrary: st n m)
  case (Suc fuel)
  let ?q = "pending (wk_source st)" and ?A = "ids (wk_seen st)"
  show ?case
  proof (cases "?q = []")
    case True
    then show ?thesis using source.receive_empty [OF Suc.prems(1,3)] Suc.prems by (auto simp: publish_nil)
  next
    case False
    obtain k ack nack b' where b: "0 < k"
        "receive c (wk_source st) = (Inr \<lparr>eb_Events = take k ?q, eb_Ack = Some ack, eb_Nack = nack\<rparr>, wk_source st)"
        "ack c (wk_source st) = (None, b')" "source_inv b'" "pending b' = drop k ?q"
      using source.receive_batch [OF Suc.prems(1,3) False] by blast
    let ?B = "?A \<union> set (event_ids (take k ?q))"
    have split: "event_ids ?q = event_ids (take k ?q) @ event_ids (drop k ?q)"
      "fresh_events ?A ?q = fresh_events ?A (take k ?q) @ fresh_events ?B (drop k ?q)"
      by (simp_all only: append_take_drop_id flip: event_ids_simps(3) fresh_events_append)
    obtain w1 where w1: "publish c (fresh_events ?A (take k ?q)) (wk_world st) = (None, w1)"
        "publish c (fresh_events ?B (drop k ?q)) w1 = (None, w')"
      using publish_append [of "fresh_events ?A (take k ?q)" "fresh_events ?B (drop k ?q)" "wk_world st"] Suc.prems(7)
      by (auto simp flip: split(2) split: prod.splits option.splits)
    have un: "?B \<union> set (event_ids (drop k ?q)) = ?A \<union> set (event_ids ?q)" by (auto simp: split(1))
    have "finite (?A \<union> set (event_ids ?q))" using store.ids_finite [OF Suc.prems(2)] by simp
    then have "card ?B \<le> card (?A \<union> set (event_ids ?q))" by (rule card_mono) (use un in blast)
    then have fits: "card ?B \<le> cap (wk_seen st)" using Suc.prems(5) by linarith
    have good: "list_all ok (event_ids (take k ?q))" "list_all ok (event_ids (drop k ?q))"
      using Suc.prems(6) by (simp_all add: split(1))
    obtain s1 where s1: "dispatchEventBatch publish c \<lparr>eb_Events = take k ?q, eb_Ack = Some ack, eb_Nack = nack\<rparr> (Some ops) st =
        (Inr zeroResult, st\<lparr>wk_world := w1, wk_source := b', wk_seen := s1\<rparr>)" "inv s1" "ids s1 = ?B" "cap s1 = cap (wk_seen st)"
      using store.dispatch_fresh [of st c "\<lparr>eb_Events = take k ?q, eb_Ack = Some ack, eb_Nack = nack\<rparr>" publish w1 b']
        Suc.prems(2,3) fits good(1) w1(1) publish_nil b(3) by (auto simp: ackEventBatch_def)
    let ?st = "st\<lparr>wk_world := w1, wk_source := b', wk_seen := s1\<rparr>"
    have "length (drop k ?q) < fuel" using b(1) Suc.prems(4) False by (cases ?q) auto
    then obtain st' where IH: "worker_loop fuel publish (\<lambda>_. c) (m + 3) role receive (Some ops) backoff 0 ?st = Some (None, st')"
        "wk_world st' = w'" "source_inv (wk_source st')" "pending (wk_source st') = []" "inv (wk_seen st')"
        "ids (wk_seen st') = ?B \<union> set (event_ids (drop k ?q))"
      using Suc.IH [where st = ?st and n = 0 and m = "m + 3"] b(4,5) s1 Suc.prems(3,5) good(2) w1(2) un by auto
    have "worker_loop (Suc fuel) publish (\<lambda>_. c) m role receive (Some ops) backoff n st =
        worker_loop fuel publish (\<lambda>_. c) (m + 3) role receive (Some ops) backoff 0 ?st"
      using b(2) s1(1) Suc.prems(3) by (simp add: zeroResult_def)
    with IH un show ?thesis by auto
  qed
qed simp

end

section \<open>The memory broker is such a source\<close>

definition broker_inv :: "'v Broker \<Rightarrow> bool" where
  "broker_inv b \<longleftrightarrow>
     0 < mb_batchSize b \<and> length (mb_records b) < 2 ^ 64 \<and>
     map fst (mb_records b) = map (\<lambda>i. mb_nextID b - of_nat i) (rev [0..<length (mb_records b)])"

lemma broker_inv_new: "broker_inv (NewBroker (map (map_option WithBatchSize) sizes) :: 'v Broker)"
proof -
  have "broker_inv (fold (\<lambda>opt broker. case opt of None \<Rightarrow> broker | Some f \<Rightarrow> f broker) (map (map_option WithBatchSize) sizes) b)"
    if "broker_inv b" for b :: "'v Broker"
    using that by (induction sizes arbitrary: b) (auto simp: broker_inv_def WithBatchSize_def split: option.splits)
  then show ?thesis by (simp add: NewBroker_def broker_inv_def)
qed

lemma broker_inv_distinct: "broker_inv b \<Longrightarrow> distinct (map fst (mb_records b))"
proof -
  assume b: "broker_inv b"
  then have len: "length (mb_records b) < 2 ^ 64" by (simp add: broker_inv_def)
  have "inj_on (\<lambda>i. mb_nextID b - of_nat i) {0..<length (mb_records b)}"
  proof (rule inj_onI)
    fix i j assume "i \<in> {0..<length (mb_records b)}" "j \<in> {0..<length (mb_records b)}" "mb_nextID b - of_nat i = mb_nextID b - of_nat j"
    then have "(of_nat i :: 64 word) = of_nat j" "i < 2 ^ 64" "j < 2 ^ 64" using len by auto
    then show "i = j" by (simp add: word_of_nat_eq_iff take_bit_nat_eq_self)
  qed
  then show ?thesis using b by (simp add: broker_inv_def distinct_map)
qed

lemma rev_upt_Suc: "rev [0..<Suc n] = map Suc (rev [0..<n]) @ [0]"
  by (simp add: upt_conv_Cons map_Suc_upt [symmetric] rev_map del: upt_Suc)

lemma append_events_inv:
  assumes "broker_inv b" "length (mb_records b) + length events < 2 ^ 64"
  shows "broker_inv (append_events newID i events b) \<and>
    map snd (mb_records (append_events newID i events b)) =
      map snd (mb_records b) @ map (\<lambda>(j, event). EnsureEventID (newID j) event) (enumerate i events)"
  using assms
proof (induction newID i events b rule: append_events.induct)
  case (2 newID i event events b)
  let ?b = "b\<lparr>mb_nextID := mb_nextID b + 1, mb_records := mb_records b @ [(mb_nextID b + 1, EnsureEventID (newID i) event)]\<rparr>"
  have "broker_inv ?b" using 2(2,3) unfolding broker_inv_def by (simp add: rev_upt_Suc o_def del: upt_Suc)
  with 2 show ?case by simp
qed simp

lemma filter_acked:
  assumes "distinct (map fst xs)"
  shows "filter (\<lambda>r. fst r \<notin> set (map fst (take k xs))) xs = drop k xs"
proof -
  have "distinct (map fst (take k xs) @ map fst (drop k xs))" using assms by (metis append_take_drop_id map_append)
  then have "filter (\<lambda>r. fst r \<notin> set (map fst (take k xs))) (take k xs @ drop k xs) = drop k xs"
    unfolding filter_append by (auto simp: filter_empty_conv filter_id_conv disjoint_iff)
  then show ?thesis by simp
qed

interpretation membroker: nackless_source ReceiveEventBatch broker_inv "\<lambda>b. map snd (mb_records b)"
proof unfold_locales
  fix b :: "'v Broker" and c :: ctx
  assume b: "broker_inv b" "ctx_Err c = None"
  show "\<exists>err. ReceiveEventBatch c b = (Inl err, b) \<and> is_closed err" if "map snd (mb_records b) = []"
    using that b by (simp add: ReceiveEventBatch_def ErrEventSourceClosed_def)
  assume ne: "map snd (mb_records b) \<noteq> []"
  let ?k = "mb_batchSize b"
  let ?ack = "broker_ack (map fst (take ?k (mb_records b)))"
  let ?b = "b\<lparr>mb_records := drop ?k (mb_records b)\<rparr>"
  have ack: "?ack c b = (None, ?b)"
    using b filter_acked [OF broker_inv_distinct [OF b(1)], of ?k] by (simp add: broker_ack_def)
  have "drop ?k (rev [0..<length (mb_records b)]) = rev [0..<length (mb_records b) - ?k]"
    by (simp add: rev_drop [symmetric] drop_rev)
  moreover have "map fst (drop ?k (mb_records b)) = map (\<lambda>i. mb_nextID b - of_nat i) (drop ?k (rev [0..<length (mb_records b)]))"
    using b(1) by (simp add: broker_inv_def drop_map [symmetric])
  moreover have "length (mb_records b) - ?k < 2 ^ 64" using b(1) by (meson broker_inv_def diff_le_self le_less_trans)
  ultimately have "broker_inv ?b" using b(1) by (simp add: broker_inv_def)
  with b ne ack show "\<exists>k ack nack b'. 0 < k \<and>
      ReceiveEventBatch c b = (Inr \<lparr>eb_Events = take k (map snd (mb_records b)), eb_Ack = Some ack, eb_Nack = nack\<rparr>, b) \<and>
      ack c b = (None, b') \<and> broker_inv b' \<and> map snd (mb_records b') = drop k (map snd (mb_records b))"
    by (intro exI [of _ ?k] exI [of _ ?ack] exI [of _ "None"] exI [of _ ?b])
      (simp add: broker_inv_def ReceiveEventBatch_def take_map drop_map Let_def)
qed (auto simp: ReceiveEventBatch_def Let_def split: option.splits if_splits)

lemma publishEnvelopes_append:
  "publishEnvelopesForRole c registry (xs @ ys) role w =
     (case publishEnvelopesForRole c registry xs role w of
        (Some err, w') \<Rightarrow> (Some err, w') | (None, w') \<Rightarrow> publishEnvelopesForRole c registry ys role w')"
  by (induction xs arbitrary: w) (auto split: prod.splits option.splits)

interpretation dedup_broker: deduplicating_worker ReceiveEventBatch broker_inv "\<lambda>b. map snd (mb_records b)"
  memory_seen_ops seen_inv "\<lambda>s. set (window s)" ss_limit "\<lambda>_. True"
  by unfold_locales

text \<open>
  C10: A worker on the in-memory broker handles what was published, in order and across batches: it
  returns, the outcome and the effects are those of publishing the whole queue at once, a run without
  error leaves the broker empty, and after an error every event that was not handled is still queued,
  behind a prefix whose handling succeeded.\<close>

theorem membroker_worker_at_least_once:
  fixes st :: "('w, 'v Broker, 's) worker_state"
  assumes "broker_inv b" "ctx_Err c = None" "length (mb_records b) + length events < 2 ^ 64"
    and "wk_source st = snd (PublishEvents newID c events b)"
    and "length (mb_records b) + length events < fuel"
  shows "let queue = map snd (mb_records b) @ map (\<lambda>(i, event). EnsureEventID (newID i) event) (enumerate 0 events)
    in \<exists>err st' j. runEventWorkerForRole fuel (\<lambda>_. c) registry role (Some ReceiveEventBatch) None backoff st = Some (err, st') \<and>
      publishEnvelopesForRole c registry queue role (wk_world st) = (err, wk_world st') \<and>
      fst (publishEnvelopesForRole c registry (take j queue) role (wk_world st)) = None \<and>
      map snd (mb_records (wk_source st')) = drop j queue \<and>
      (err = None \<longleftrightarrow> mb_records (wk_source st') = [])"
proof -
  let ?queue = "map snd (mb_records b) @ map (\<lambda>(i, event). EnsureEventID (newID i) event) (enumerate 0 events)"
  have source: "wk_source st = append_events newID 0 events b" using assms(2,4) by (simp add: PublishEvents_def)
  with append_events_inv [OF assms(1,3), of newID 0]
  have "broker_inv (wk_source st)" "map snd (mb_records (wk_source st)) = ?queue" by simp_all
  with membroker.worker_drains [of "\<lambda>c events w. publishEnvelopesForRole c registry events role w" c st fuel 0 role backoff 0]
    assms(2,5) show ?thesis
    by (simp add: publishEnvelopes_append runEventWorkerForRole_def Let_def)
qed

theorem membroker_worker_at_least_once_witness:
  "let b = NewBroker [Some (WithBatchSize 1)];
       ev = \<lparr>ee_ID = ''a'', ee_TraceParent = [], ee_Audience = [], ee_Category = DomainEvent, ee_Type = ''T'', ee_Value = Any ''int'' (1 :: int)\<rparr>;
       st = \<lparr>wk_world = (0 :: int), wk_source = snd (PublishEvents (\<lambda>_. ''id'') Background [ev, ev] b), wk_seen = ()\<rparr>
   in \<exists>err st'. runEventWorkerForRole 3 (\<lambda>_. Background) (Some NewRegistry) ''web'' (Some ReceiveEventBatch) (None :: unit seen_ops option) None st = Some (err, st')"
  using membroker_worker_at_least_once [OF broker_inv_new [of "[Some 1]"], of Background
      "let ev = \<lparr>ee_ID = ''a'', ee_TraceParent = [], ee_Audience = [], ee_Category = DomainEvent, ee_Type = ''T'', ee_Value = Any ''int'' (1 :: int)\<rparr> in [ev, ev]"
      "\<lparr>wk_world = (0 :: int), wk_source = snd (PublishEvents (\<lambda>_. ''id'') Background
          (let ev = \<lparr>ee_ID = ''a'', ee_TraceParent = [], ee_Audience = [], ee_Category = DomainEvent, ee_Type = ''T'', ee_Value = Any ''int'' (1 :: int)\<rparr> in [ev, ev])
          (NewBroker [Some (WithBatchSize 1)])), wk_seen = ()\<rparr>" "\<lambda>_. ''id''" 3 "Some NewRegistry" "''web''" None]
  by (auto simp: Let_def NewBroker_def WithBatchSize_def Background_def)

text \<open>
  C12: A worker on the memory broker with a memory seen store, whose window has room for the identifiers
  seen and queued and whose subscribers accept the first delivery of each: it empties the broker, its
  effects are those of publishing the first delivery of each identifier that was not seen before, in
  their order, together with the events without an identifier, and it remembers all of them.
\<close>

theorem redelivery_handled_once:
  fixes st :: "('w, 'v Broker, memorySeenStore) worker_state" and b events newID
  defines "queue \<equiv> map snd (mb_records b) @ map (\<lambda>(i, event). EnsureEventID (newID i) event) (enumerate 0 events)"
  defines "seen \<equiv> set (window (wk_seen st))"
  assumes "broker_inv b" "seen_inv (wk_seen st)" "ctx_Err c = None" "length queue < 2 ^ 64" "length queue < fuel"
    and "wk_source st = snd (PublishEvents newID c events b)"
    and "card (seen \<union> set (event_ids queue)) \<le> ss_limit (wk_seen st)"
    and "publishEnvelopesForRole c registry (fresh_events seen queue) role (wk_world st) = (None, w')"
  shows "(\<exists>st'. runEventWorkerForRole fuel (\<lambda>_. c) registry role (Some ReceiveEventBatch)
        (Some \<lparr>so_Seen = Seen, so_MarkSeen = MarkSeen\<rparr>) backoff st = Some (None, st') \<and>
      wk_world st' = w' \<and> mb_records (wk_source st') = [] \<and> set (window (wk_seen st')) = seen \<union> set (event_ids queue)) \<and>
    distinct (event_ids (fresh_events seen queue)) \<and>
    set (event_ids (fresh_events seen queue)) = set (event_ids queue) - seen"
proof -
  have "length (mb_records b) + length events < 2 ^ 64" using assms(6) by (simp add: queue_def)
  moreover have "wk_source st = append_events newID 0 events b" using assms(5,8) by (simp add: PublishEvents_def)
  ultimately have "broker_inv (wk_source st)" "map snd (mb_records (wk_source st)) = queue"
    using append_events_inv [OF assms(3), of events newID 0] by (simp_all add: queue_def)
  with dedup_broker.worker_handles_fresh [of "\<lambda>c events w. publishEnvelopesForRole c registry events role w" c st fuel w' 0 role backoff 0]
    assms(4,5,7,9,10) show ?thesis
    by (auto simp: publishEnvelopes_append runEventWorkerForRole_def fresh_events_ids seen_def list_all_iff)
qed

definition example_event :: "string \<Rightarrow> int EventEnvelope" where
  "example_event v =
     \<lparr>ee_ID = v, ee_TraceParent = [], ee_Audience = [], ee_Category = DomainEvent, ee_Type = ''T'', ee_Value = Any ''int'' 1\<rparr>"

lemma example_event_simps [simp]:
  "ee_ID (example_event v) = v"
  "v \<noteq> [] \<Longrightarrow> EnsureEventID x (example_event v) = example_event v"
  "mb_records (NewBroker [Some (WithBatchSize 1)]) = []"
  by (simp_all add: example_event_def EnsureEventID_def NewBroker_def WithBatchSize_def)

theorem redelivery_handled_once_witness:
  "\<exists>st'. runEventWorkerForRole 4 (\<lambda>_. Background) (Some NewRegistry) ''web'' (Some ReceiveEventBatch)
      (Some \<lparr>so_Seen = Seen, so_MarkSeen = MarkSeen\<rparr>) None
      \<lparr>wk_world = (0 :: int), wk_source = snd (PublishEvents (\<lambda>_. ''id'') Background
         [example_event ''a'', example_event ''b'', example_event ''a''] (NewBroker [Some (WithBatchSize 1)])),
       wk_seen = NewMemorySeenStore 2\<rparr> = Some (None, st') \<and> set (window (wk_seen st')) = {''a'', ''b''}"
proof -
  let ?b = "NewBroker [Some (WithBatchSize 1)] :: int Broker"
  let ?events = "[example_event ''a'', example_event ''b'', example_event ''a'']"
  let ?st = "\<lparr>wk_world = (0 :: int), wk_source = snd (PublishEvents (\<lambda>_. ''id'') Background ?events ?b), wk_seen = NewMemorySeenStore 2\<rparr>"
  have inv: "broker_inv ?b" using broker_inv_new [of "[Some 1]"] by simp
  have publish: "publishEnvelopesForRole Background (Some NewRegistry) [example_event ''a'', example_event ''b''] ''web'' (0 :: int) = (None, 0)"
    by code_simp
  have twice: "{''a'', ''b'', ''a''} = {''a'', ''b''}" by auto
  show ?thesis
    using redelivery_handled_once [OF inv, of ?st Background "\<lambda>_. ''id''" ?events 4 "Some NewRegistry" "''web''" 0 None]
      publish seen_inv_new [of 2] new_limit [of 2]
    by (auto simp: Background_def twice)
qed

end
