(* ===== verification/ExprParse.thy ===== *)
theory ExprParse
  imports Prelude
begin

text \<open>
  \<open>internal/clientlang\<close>, syntax of the client expression language: the nodes (\<open>expr.go\<close>), the lexer
  (\<open>expr_lexer.go\<close>) and the parser (\<open>expr_parser.go\<close>).

  The source is its runes, the lexer an index into them, and the parser has the lexer, one buffered
  token and the first lexical error. The tables behind \<open>unicode.IsLetter\<close> and \<open>unicode.IsDigit\<close> are
  a parameter. The parser functions that recurse take \<open>parseConditional\<close> as an argument, the way
  \<open>parseBinary\<close> of the code takes the parser of the next level, and a bound for their loops;
  \<open>ParseExprWithSpans\<close> supplies a bound that is shown to be enough for every source.
\<close>

section \<open>Expressions\<close>

datatype ValueType =
  TypeUnknown | TypeString | TypeInt | TypeFloat | TypeBool | TypeNil | TypeObject | TypeArray

record ExprSourceSpan =
  StartColumn :: int
  EndColumn :: int

datatype expr =
  LiteralExpr ValueType string ExprSourceSpan
| IdentExpr string ExprSourceSpan
| MemberExpr expr string ExprSourceSpan
| IndexExpr expr expr ExprSourceSpan
| CallExpr string "expr list" ExprSourceSpan
| UnaryExpr string expr ExprSourceSpan
| BinaryExpr string expr expr ExprSourceSpan
| ConditionalExpr expr expr expr ExprSourceSpan
| SwitchExpr string expr "(expr \<times> expr) list" expr ExprSourceSpan

fun ExprSpan :: "expr \<Rightarrow> ExprSourceSpan" where
  "ExprSpan (LiteralExpr _ _ s) = s"
| "ExprSpan (IdentExpr _ s) = s"
| "ExprSpan (MemberExpr _ _ s) = s"
| "ExprSpan (IndexExpr _ _ s) = s"
| "ExprSpan (CallExpr _ _ s) = s"
| "ExprSpan (UnaryExpr _ _ s) = s"
| "ExprSpan (BinaryExpr _ _ _ s) = s"
| "ExprSpan (ConditionalExpr _ _ _ s) = s"
| "ExprSpan (SwitchExpr _ _ _ _ s) = s"

definition mergeExprSpans :: "ExprSourceSpan \<Rightarrow> ExprSourceSpan \<Rightarrow> ExprSourceSpan" where
  "mergeExprSpans left right =
     (if StartColumn left = 0 then right
      else if StartColumn right = 0 then left
      else \<lparr>StartColumn = StartColumn left, EndColumn = EndColumn right\<rparr>)"

section \<open>Quoted strings\<close>

text \<open>\<open>strconv.Unquote\<close> on a string in double quotes; \<open>None\<close> is \<open>ErrSyntax\<close>.\<close>

definition unhex :: "char \<Rightarrow> int option" where
  "unhex c =
     (let n = of_char c :: int
      in if 48 \<le> n \<and> n \<le> 57 then Some (n - 48)
         else if 97 \<le> n \<and> n \<le> 102 then Some (n - 87)
         else if 65 \<le> n \<and> n \<le> 70 then Some (n - 55)
         else None)"

fun hex_val :: "string \<Rightarrow> int \<Rightarrow> int option" where
  "hex_val [] v = Some v"
| "hex_val (c # cs) v = (case unhex c of None \<Rightarrow> None | Some x \<Rightarrow> hex_val cs (16 * v + x))"

definition valid_rune :: "int \<Rightarrow> bool" where
  "valid_rune r \<longleftrightarrow> (0 \<le> r \<and> r < 0xD800) \<or> (0xDFFF < r \<and> r \<le> 0x10FFFF)"

definition simple_escape :: "char \<Rightarrow> char option" where
  "simple_escape c =
     map_of [(CHR ''a'', CHR 0x07), (CHR ''b'', CHR 0x08), (CHR ''f'', CHR 0x0C), (CHR ''n'', CHR 0x0A),
             (CHR ''r'', CHR 0x0D), (CHR ''t'', CHR 0x09), (CHR ''v'', CHR 0x0B),
             (CHR 0x5C, CHR 0x5C), (CHR 0x22, CHR 0x22)] c"

definition octal :: "char \<Rightarrow> int option" where
  "octal c = (let n = of_char c :: int in if 48 \<le> n \<and> n \<le> 55 then Some (n - 48) else None)"

text \<open>The bytes of the next character and how many bytes of the source it takes.\<close>

definition UnquoteChar :: "string \<Rightarrow> (string \<times> nat) option" where
  "UnquoteChar s =
     (case s of
        [] \<Rightarrow> None
      | c # s1 \<Rightarrow>
          if 0x80 \<le> (of_char c :: int) then
            (case decode_rune (map of_char s) of (r, n) \<Rightarrow> Some (encode_rune r, n))
          else if c \<noteq> CHR 0x5C then Some ([c], 1)
          else
            (case s1 of
               [] \<Rightarrow> None
             | e # s2 \<Rightarrow>
                 (case simple_escape e of
                    Some b \<Rightarrow> Some ([b], 2)
                  | None \<Rightarrow>
                      if e = CHR ''x'' \<or> e = CHR ''u'' \<or> e = CHR ''U'' then
                        let n = (if e = CHR ''x'' then 2 else if e = CHR ''u'' then 4 else 8)
                        in if length s2 < n then None
                           else (case hex_val (take n s2) 0 of
                                   None \<Rightarrow> None
                                 | Some v \<Rightarrow>
                                     if e = CHR ''x'' then Some ([char_of v], 2 + n)
                                     else if valid_rune v then Some (encode_rune v, 2 + n)
                                     else None)
                      else
                        (case octal e of
                           None \<Rightarrow> None
                         | Some a \<Rightarrow>
                             (case s2 of
                                x # y # _ \<Rightarrow>
                                  (case (octal x, octal y) of
                                     (Some b, Some d) \<Rightarrow>
                                       let v = 64 * a + 8 * b + d
                                       in if 255 < v then None else Some ([char_of v], 4)
                                   | _ \<Rightarrow> None)
                              | _ \<Rightarrow> None)))))"

lemma UnquoteChar_progress: "UnquoteChar s = Some (b, n) \<Longrightarrow> 0 < n \<and> s \<noteq> []"
  using decode_rune_progress [of "map of_char s"]
  by (auto simp: UnquoteChar_def Let_def split: list.splits if_splits option.splits prod.splits)

function unquote_loop :: "string \<Rightarrow> string \<Rightarrow> (string \<times> string) option" where
  "unquote_loop out s =
     (case s of
        [] \<Rightarrow> None
      | c # s1 \<Rightarrow>
          if c = CHR 0x22 then Some (out, s1)
          else if c = CHR 0x0A then None
          else (case UnquoteChar s of None \<Rightarrow> None | Some (b, n) \<Rightarrow> unquote_loop (out @ b) (drop n s)))"
  by pat_completeness auto
termination
  by (relation "measure (\<lambda>(out, s). length s)") (auto dest: UnquoteChar_progress)

declare unquote_loop.simps [simp del]

definition Unquote :: "string \<Rightarrow> string option" where
  "Unquote s =
     (case s of
        c # s1 \<Rightarrow>
          if c = CHR 0x22 then
            (case unquote_loop [] s1 of Some (out, []) \<Rightarrow> Some out | _ \<Rightarrow> None)
          else None
      | [] \<Rightarrow> None)"

section \<open>The lexer\<close>

datatype tokenKind =
  tokenEOF | tokenError | tokenIdent | tokenString | tokenNumber | tokenBool | tokenNil | tokenOp
| tokenLParen | tokenRParen | tokenDot | tokenLBracket | tokenRBracket | tokenLBrace | tokenRBrace
| tokenComma | tokenColon

record exprToken =
  tk_kind :: tokenKind
  tk_value :: string
  tk_start :: nat
  tk_end :: nat

datatype parse_error =
  InvalidString
| UnterminatedString
| UnexpectedCharacter rune
| Expected string string
| UnexpectedToken string
| UnexpectedEnd
| MissingField string
| MissingBracket string
| MissingParen string
| NotCallable
| CallArgs string
| NoCases string
| NoDefault string
| TwoDefaults string
| OutOfFuel

record unicode =
  IsLetter :: "rune \<Rightarrow> bool"
  IsDigit :: "rune \<Rightarrow> bool"

text \<open>The tables restricted to ASCII, for examples.\<close>

definition ascii :: unicode where
  "ascii = \<lparr>IsLetter = (\<lambda>r. (65 \<le> r \<and> r \<le> 90) \<or> (97 \<le> r \<and> r \<le> 122)), IsDigit = (\<lambda>r. 48 \<le> r \<and> r \<le> 57)\<rparr>"

definition isExprIdentStart :: "unicode \<Rightarrow> rune \<Rightarrow> bool" where
  "isExprIdentStart u r \<longleftrightarrow> r = 0x5F \<or> IsLetter u r"

definition isExprIdentPart :: "unicode \<Rightarrow> rune \<Rightarrow> bool" where
  "isExprIdentPart u r \<longleftrightarrow> isExprIdentStart u r \<or> IsDigit u r"

text \<open>\<open>string(runes)\<close>, and the index after the longest run of runes that satisfy a predicate.\<close>

definition string_of :: "rune list \<Rightarrow> string" where
  "string_of rs = concat (map encode_rune rs)"

definition slice :: "rune list \<Rightarrow> nat \<Rightarrow> nat \<Rightarrow> string" where
  "slice src i j = string_of (take (j - i) (drop i src))"

definition scan :: "(rune \<Rightarrow> bool) \<Rightarrow> rune list \<Rightarrow> nat \<Rightarrow> nat" where
  "scan P src i = i + length (takeWhile P (drop i src))"

definition token :: "tokenKind \<Rightarrow> string \<Rightarrow> nat \<Rightarrow> nat \<Rightarrow> exprToken" where
  "token k v i j = \<lparr>tk_kind = k, tk_value = v, tk_start = i, tk_end = j\<rparr>"

definition lex_ident :: "unicode \<Rightarrow> rune list \<Rightarrow> nat \<Rightarrow> exprToken \<times> nat" where
  "lex_ident u src i =
     (let j = scan (isExprIdentPart u) src i;
          v = slice src i j
      in (if v = ''true'' \<or> v = ''false'' then token tokenBool v i j
          else if v = ''nil'' then token tokenNil v i j
          else token tokenIdent v i j, j))"

definition lex_number :: "unicode \<Rightarrow> rune list \<Rightarrow> nat \<Rightarrow> exprToken \<times> nat" where
  "lex_number u src i =
     (let j = scan (IsDigit u) src i;
          k = (if j < length src \<and> src ! j = 0x2E then scan (IsDigit u) src (j + 1) else j)
      in (token tokenNumber (slice src i k) i k, k))"

text \<open>The number of runes up to and with the closing quote.\<close>

fun string_end :: "bool \<Rightarrow> rune list \<Rightarrow> nat option" where
  "string_end escaped [] = None"
| "string_end escaped (r # rs) =
     (if escaped then map_option Suc (string_end False rs)
      else if r = 0x5C then map_option Suc (string_end True rs)
      else if r = 0x22 then Some 1
      else map_option Suc (string_end False rs))"

definition lex_string :: "rune list \<Rightarrow> nat \<Rightarrow> (parse_error + exprToken) \<times> nat" where
  "lex_string src i =
     (case string_end False (drop (i + 1) src) of
        None \<Rightarrow> (Inl UnterminatedString, length src)
      | Some n \<Rightarrow>
          let j = i + 1 + n; v = slice src i j
          in (case Unquote v of None \<Rightarrow> (Inl InvalidString, j) | Some _ \<Rightarrow> (Inr (token tokenString v i j), j)))"

definition operators :: "string list" where
  "operators =
     [''=='', ''!='', ''<='', ''>='', ''&&'', ''||'', ''+'', ''-'', ''*'', ''/'', ''%'', ''!'', ''<'', ''>'']"

definition runes_of :: "string \<Rightarrow> rune list" where
  "runes_of s = map of_char s"

definition lex_operator :: "rune list \<Rightarrow> nat \<Rightarrow> (parse_error + exprToken) \<times> nat" where
  "lex_operator src i =
     (case find (\<lambda>op. prefix (runes_of op) (drop i src)) operators of
        Some op \<Rightarrow> (Inr (token tokenOp op i (i + length op)), i + length op)
      | None \<Rightarrow> (Inl (UnexpectedCharacter (src ! i)), i))"

definition punctuation :: "rune \<Rightarrow> (tokenKind \<times> string) option" where
  "punctuation r =
     map_of [(0x28, tokenLParen, ''(''), (0x29, tokenRParen, '')''), (0x2E, tokenDot, ''.''),
             (0x5B, tokenLBracket, ''[''), (0x5D, tokenRBracket, '']''), (0x7B, tokenLBrace, ''{''),
             (0x7D, tokenRBrace, ''}''), (0x2C, tokenComma, '',''), (0x3A, tokenColon, '':'')] r"

definition lex_next :: "unicode \<Rightarrow> rune list \<Rightarrow> nat \<Rightarrow> (parse_error + exprToken) \<times> nat" where
  "lex_next u src i0 =
     (let i = scan IsSpace src i0
      in if i \<ge> length src then (Inr (token tokenEOF [] i i), i)
         else
           let r = src ! i
           in if isExprIdentStart u r then (case lex_ident u src i of (t, j) \<Rightarrow> (Inr t, j))
              else if IsDigit u r then (case lex_number u src i of (t, j) \<Rightarrow> (Inr t, j))
              else if r = 0x22 then lex_string src i
              else (case punctuation r of
                      Some (k, v) \<Rightarrow> (Inr (token k v i (i + 1)), i + 1)
                    | None \<Rightarrow> lex_operator src i))"

section \<open>The parser\<close>

record parser =
  ps_source :: "rune list"
  ps_index :: nat
  ps_buffer :: "exprToken option"
  ps_err :: "parse_error option"

definition peek :: "unicode \<Rightarrow> parser \<Rightarrow> exprToken \<times> parser" where
  "peek u st =
     (case ps_buffer st of
        Some t \<Rightarrow> (t, st)
      | None \<Rightarrow>
          (case lex_next u (ps_source st) (ps_index st) of
             (Inr t, j) \<Rightarrow> (t, st\<lparr>ps_index := j, ps_buffer := Some t\<rparr>)
           | (Inl e, j) \<Rightarrow>
               let t = token tokenError [] 0 0
               in (t, st\<lparr>ps_index := j, ps_buffer := Some t,
                          ps_err := (case ps_err st of None \<Rightarrow> Some e | Some e' \<Rightarrow> Some e')\<rparr>)))"

definition consume :: "unicode \<Rightarrow> parser \<Rightarrow> exprToken \<times> parser" where
  "consume u st = (case peek u st of (t, st') \<Rightarrow> (t, st'\<lparr>ps_buffer := None\<rparr>))"

type_synonym 'a presult = "(parse_error + 'a) \<times> parser"
type_synonym 'a pfun = "parser \<Rightarrow> 'a presult"

definition tokenSpan :: "exprToken \<Rightarrow> ExprSourceSpan" where
  "tokenSpan t = \<lparr>StartColumn = int (tk_start t) + 1, EndColumn = int (tk_end t) + 1\<rparr>"

text \<open>Sequencing, with early returns, and \<open>if token := parser.consume(); token.kind != k\<close>.\<close>

definition bindp :: "'a pfun \<Rightarrow> ('a \<Rightarrow> 'b pfun) \<Rightarrow> 'b pfun" where
  "bindp f g st = (case f st of (Inl e, st') \<Rightarrow> (Inl e, st') | (Inr x, st') \<Rightarrow> g x st')"

definition consumep :: "unicode \<Rightarrow> exprToken pfun" where
  "consumep u st = (case consume u st of (t, st') \<Rightarrow> (Inr t, st'))"

definition expect :: "unicode \<Rightarrow> (exprToken \<Rightarrow> bool) \<Rightarrow> (string \<Rightarrow> parse_error) \<Rightarrow> exprToken pfun" where
  "expect u ok err st =
     (case consume u st of (t, st') \<Rightarrow> if ok t then (Inr t, st') else (Inl (err (tk_value t)), st'))"

definition parsePrimary :: "unicode \<Rightarrow> expr pfun \<Rightarrow> expr pfun" where
  "parsePrimary u parseConditional st =
     (case consume u st of
        (t, st1) \<Rightarrow>
          (case tk_kind t of
             tokenIdent \<Rightarrow> (Inr (IdentExpr (tk_value t) (tokenSpan t)), st1)
           | tokenString \<Rightarrow> (Inr (LiteralExpr TypeString (tk_value t) (tokenSpan t)), st1)
           | tokenNumber \<Rightarrow>
               (Inr (LiteralExpr (if Contains (tk_value t) ''.'' then TypeFloat else TypeInt) (tk_value t) (tokenSpan t)), st1)
           | tokenBool \<Rightarrow> (Inr (LiteralExpr TypeBool (tk_value t) (tokenSpan t)), st1)
           | tokenNil \<Rightarrow> (Inr (LiteralExpr TypeNil (tk_value t) (tokenSpan t)), st1)
           | tokenLParen \<Rightarrow>
               bindp parseConditional (\<lambda>e.
               bindp (expect u (\<lambda>t. tk_kind t = tokenRParen) MissingParen) (\<lambda>_ st. (Inr e, st))) st1
           | _ \<Rightarrow> (Inl (if tk_value t \<noteq> [] then UnexpectedToken (tk_value t) else UnexpectedEnd), st1)))"

fun args_loop :: "nat \<Rightarrow> unicode \<Rightarrow> expr pfun \<Rightarrow> expr list \<Rightarrow> (expr list \<times> exprToken) pfun" where
  "args_loop 0 u parseConditional args st = (Inl OutOfFuel, st)"
| "args_loop (Suc n) u parseConditional args st =
     bindp parseConditional (\<lambda>arg.
     bindp (consumep u) (\<lambda>t st.
       if tk_kind t = tokenComma then args_loop n u parseConditional (args @ [arg]) st
       else if tk_kind t = tokenRParen then (Inr (args @ [arg], t), st)
       else (Inl (CallArgs (tk_value t)), st))) st"

definition parseCallArgs :: "nat \<Rightarrow> unicode \<Rightarrow> expr pfun \<Rightarrow> (expr list \<times> exprToken) pfun" where
  "parseCallArgs n u parseConditional =
     bindp (expect u (\<lambda>t. tk_kind t = tokenLParen) (Expected ''opening ( for helper call'')) (\<lambda>_ st.
       case peek u st of
         (t, st1) \<Rightarrow>
           if tk_kind t = tokenRParen then bindp (consumep u) (\<lambda>close st. (Inr ([], close), st)) st1
           else args_loop n u parseConditional [] st1)"

fun postfix_loop :: "nat \<Rightarrow> unicode \<Rightarrow> expr pfun \<Rightarrow> expr \<Rightarrow> expr pfun" where
  "postfix_loop 0 u parseConditional e st = (Inl OutOfFuel, st)"
| "postfix_loop (Suc n) u parseConditional e st =
     (case peek u st of
        (t, st1) \<Rightarrow>
          (case tk_kind t of
             tokenDot \<Rightarrow>
               bindp (consumep u) (\<lambda>_.
               bindp (expect u (\<lambda>t. tk_kind t = tokenIdent) MissingField) (\<lambda>name.
               postfix_loop n u parseConditional
                 (MemberExpr e (tk_value name) (mergeExprSpans (ExprSpan e) (tokenSpan name))))) st1
           | tokenLBracket \<Rightarrow>
               bindp (consumep u) (\<lambda>_.
               bindp parseConditional (\<lambda>index.
               bindp (expect u (\<lambda>t. tk_kind t = tokenRBracket) MissingBracket) (\<lambda>close.
               postfix_loop n u parseConditional
                 (IndexExpr e index (mergeExprSpans (ExprSpan e) (tokenSpan close)))))) st1
           | tokenLParen \<Rightarrow>
               (case e of
                  IdentExpr name s \<Rightarrow>
                    bindp (parseCallArgs n u parseConditional) (\<lambda>(args, close).
                    postfix_loop n u parseConditional
                      (CallExpr name args (mergeExprSpans s (tokenSpan close)))) st1
                | _ \<Rightarrow> (Inl NotCallable, st1))
           | _ \<Rightarrow> (Inr e, st1)))"

definition parsePostfix :: "nat \<Rightarrow> unicode \<Rightarrow> expr pfun \<Rightarrow> expr pfun" where
  "parsePostfix n u parseConditional = bindp (parsePrimary u parseConditional) (postfix_loop n u parseConditional)"

fun parseUnary :: "nat \<Rightarrow> unicode \<Rightarrow> expr pfun \<Rightarrow> expr pfun" where
  "parseUnary 0 u parseConditional st = (Inl OutOfFuel, st)"
| "parseUnary (Suc n) u parseConditional st =
     (case peek u st of
        (t, st1) \<Rightarrow>
          if tk_kind t = tokenOp \<and> (tk_value t = ''!'' \<or> tk_value t = ''-'') then
            bindp (consumep u) (\<lambda>_.
            bindp (parseUnary n u parseConditional) (\<lambda>e st.
              (Inr (UnaryExpr (tk_value t) e (mergeExprSpans (tokenSpan t) (ExprSpan e))), st))) st1
          else parsePostfix n u parseConditional st1)"

fun binary_loop :: "nat \<Rightarrow> unicode \<Rightarrow> expr pfun \<Rightarrow> string list \<Rightarrow> expr \<Rightarrow> expr pfun" where
  "binary_loop 0 u parseNext ops left st = (Inl OutOfFuel, st)"
| "binary_loop (Suc n) u parseNext ops left st =
     (case peek u st of
        (t, st1) \<Rightarrow>
          if tk_value t \<in> set ops \<and> tk_kind t = tokenOp then
            bindp (consumep u) (\<lambda>op.
            bindp parseNext (\<lambda>right.
            binary_loop n u parseNext ops
              (BinaryExpr (tk_value op) left right (mergeExprSpans (ExprSpan left) (ExprSpan right))))) st1
          else (Inr left, st1))"

definition parseBinary :: "nat \<Rightarrow> unicode \<Rightarrow> expr pfun \<Rightarrow> string list \<Rightarrow> expr pfun" where
  "parseBinary n u parseNext ops = bindp parseNext (binary_loop n u parseNext ops)"

definition parseMul :: "nat \<Rightarrow> unicode \<Rightarrow> expr pfun \<Rightarrow> expr pfun" where
  "parseMul n u parseConditional = parseBinary n u (parseUnary n u parseConditional) [''*'', ''/'', ''%'']"

definition parseAdd :: "nat \<Rightarrow> unicode \<Rightarrow> expr pfun \<Rightarrow> expr pfun" where
  "parseAdd n u parseConditional = parseBinary n u (parseMul n u parseConditional) [''+'', ''-'']"

definition parseCompare :: "nat \<Rightarrow> unicode \<Rightarrow> expr pfun \<Rightarrow> expr pfun" where
  "parseCompare n u parseConditional =
     parseBinary n u (parseAdd n u parseConditional) [''=='', ''!='', ''<'', ''<='', ''>'', ''>='']"

definition parseAnd :: "nat \<Rightarrow> unicode \<Rightarrow> expr pfun \<Rightarrow> expr pfun" where
  "parseAnd n u parseConditional = parseBinary n u (parseCompare n u parseConditional) [''&&'']"

definition parseOr :: "nat \<Rightarrow> unicode \<Rightarrow> expr pfun \<Rightarrow> expr pfun" where
  "parseOr n u parseConditional = parseBinary n u (parseAnd n u parseConditional) [''||'']"

fun switch_loop ::
  "nat \<Rightarrow> unicode \<Rightarrow> expr pfun \<Rightarrow> exprToken \<Rightarrow> expr \<Rightarrow> (expr \<times> expr) list \<Rightarrow> expr option \<Rightarrow> expr pfun" where
  "switch_loop 0 u parseConditional start value cases dflt st = (Inl OutOfFuel, st)"
| "switch_loop (Suc n) u parseConditional start value cases dflt st =
     (case peek u st of
        (t, st1) \<Rightarrow>
          if tk_kind t = tokenRBrace then
            (if cases = [] then (Inl (NoCases (tk_value start)), st1)
             else case dflt of
               None \<Rightarrow> (Inl (NoDefault (tk_value start)), st1)
             | Some d \<Rightarrow>
                 bindp (consumep u) (\<lambda>close st.
                   (Inr (SwitchExpr (tk_value start) value cases d (mergeExprSpans (tokenSpan start) (tokenSpan close))), st)) st1)
          else if tk_kind t = tokenIdent \<and> tk_value t = ''case'' then
            bindp (consumep u) (\<lambda>_.
            bindp parseConditional (\<lambda>match.
            bindp (expect u (\<lambda>t. tk_kind t = tokenColon) (Expected '': after case expression'')) (\<lambda>_.
            bindp parseConditional (\<lambda>e.
            switch_loop n u parseConditional start value (cases @ [(match, e)]) dflt)))) st1
          else if tk_kind t = tokenIdent \<and> tk_value t = ''default'' then
            bindp (consumep u) (\<lambda>_ st.
              if dflt \<noteq> None then (Inl (TwoDefaults (tk_value start)), st)
              else
                bindp (expect u (\<lambda>t. tk_kind t = tokenColon) (Expected '': after default'')) (\<lambda>_.
                bindp parseConditional (\<lambda>e.
                switch_loop n u parseConditional start value cases (Some e))) st) st1
          else (Inl (Expected (''case or default in '' @ tk_value start @ '' expression'') (tk_value t)), st1))"

definition parseSwitch :: "nat \<Rightarrow> unicode \<Rightarrow> expr pfun \<Rightarrow> expr pfun" where
  "parseSwitch n u parseConditional =
     bindp (consumep u) (\<lambda>start.
     bindp (parseOr n u parseConditional) (\<lambda>value.
     bindp (expect u (\<lambda>t. tk_kind t = tokenLBrace) (Expected (''opening { after '' @ tk_value start @ '' value''))) (\<lambda>_.
     switch_loop n u parseConditional start value [] None)))"

definition parseIf :: "nat \<Rightarrow> unicode \<Rightarrow> expr pfun \<Rightarrow> expr pfun" where
  "parseIf n u parseConditional =
     bindp (consumep u) (\<lambda>start.
     bindp (parseOr n u parseConditional) (\<lambda>cond.
     bindp (expect u (\<lambda>t. tk_kind t = tokenLBrace) (Expected ''opening { after if condition'')) (\<lambda>_.
     bindp parseConditional (\<lambda>thenExpr.
     bindp (expect u (\<lambda>t. tk_kind t = tokenRBrace) (Expected ''closing } after if branch'')) (\<lambda>_.
     bindp (expect u (\<lambda>t. tk_kind t = tokenIdent \<and> tk_value t = ''else'') (Expected ''else after if branch'')) (\<lambda>_.
     bindp (expect u (\<lambda>t. tk_kind t = tokenLBrace) (Expected ''opening { after else'')) (\<lambda>_.
     bindp parseConditional (\<lambda>elseExpr.
     bindp (expect u (\<lambda>t. tk_kind t = tokenRBrace) (Expected ''closing } after else branch'')) (\<lambda>close st.
       (Inr (ConditionalExpr cond thenExpr elseExpr (mergeExprSpans (tokenSpan start) (tokenSpan close))), st))))))))))"

fun parseConditional :: "nat \<Rightarrow> unicode \<Rightarrow> expr pfun" where
  "parseConditional 0 u st = (Inl OutOfFuel, st)"
| "parseConditional (Suc n) u st =
     (case peek u st of
        (t, st1) \<Rightarrow>
          if tk_kind t \<noteq> tokenIdent then parseOr (Suc n) u (parseConditional n u) st1
          else if tk_value t = ''switch'' \<or> tk_value t = ''match'' then parseSwitch (Suc n) u (parseConditional n u) st1
          else if tk_value t \<noteq> ''if'' then parseOr (Suc n) u (parseConditional n u) st1
          else parseIf (Suc n) u (parseConditional n u) st1)"

definition ParseExprWithSpans :: "unicode \<Rightarrow> string \<Rightarrow> parse_error + expr" where
  "ParseExprWithSpans u source =
     (let src = runes source
      in case parseConditional (length src + 2) u \<lparr>ps_source = src, ps_index = 0, ps_buffer = None, ps_err = None\<rparr> of
           (Inl e, st) \<Rightarrow> Inl (case ps_err st of Some e' \<Rightarrow> e' | None \<Rightarrow> e)
         | (Inr e, st) \<Rightarrow>
             (case peek u st of
                (t, st') \<Rightarrow>
                  if tk_kind t \<noteq> tokenEOF
                  then Inl (case ps_err st' of Some e' \<Rightarrow> e' | None \<Rightarrow> UnexpectedToken (tk_value t))
                  else Inr e))"

definition ParseExpr :: "unicode \<Rightarrow> string \<Rightarrow> parse_error + expr" where
  "ParseExpr u source = ParseExprWithSpans u source"


section \<open>Positions\<close>

text \<open>The nodes of an expression with spans that are not empty and nested like the nodes.\<close>

definition inside :: "ExprSourceSpan \<Rightarrow> ExprSourceSpan \<Rightarrow> bool" where
  "inside s s' \<longleftrightarrow> StartColumn s \<le> StartColumn s' \<and> EndColumn s' \<le> EndColumn s"

definition span_ok :: "ExprSourceSpan \<Rightarrow> bool" where
  "span_ok s \<longleftrightarrow> 1 \<le> StartColumn s \<and> StartColumn s < EndColumn s"

fun wf_spans :: "expr \<Rightarrow> bool" where
  "wf_spans (LiteralExpr _ _ s) \<longleftrightarrow> span_ok s"
| "wf_spans (IdentExpr _ s) \<longleftrightarrow> span_ok s"
| "wf_spans (MemberExpr x _ s) \<longleftrightarrow> span_ok s \<and> inside s (ExprSpan x) \<and> wf_spans x"
| "wf_spans (IndexExpr x i s) \<longleftrightarrow>
     span_ok s \<and> inside s (ExprSpan x) \<and> wf_spans x \<and> inside s (ExprSpan i) \<and> wf_spans i"
| "wf_spans (CallExpr _ args s) \<longleftrightarrow> span_ok s \<and> (\<forall>a\<in>set args. inside s (ExprSpan a) \<and> wf_spans a)"
| "wf_spans (UnaryExpr _ x s) \<longleftrightarrow> span_ok s \<and> inside s (ExprSpan x) \<and> wf_spans x"
| "wf_spans (BinaryExpr _ l r s) \<longleftrightarrow>
     span_ok s \<and> inside s (ExprSpan l) \<and> wf_spans l \<and> inside s (ExprSpan r) \<and> wf_spans r"
| "wf_spans (ConditionalExpr c t e s) \<longleftrightarrow>
     span_ok s \<and> inside s (ExprSpan c) \<and> wf_spans c \<and> inside s (ExprSpan t) \<and> wf_spans t \<and>
     inside s (ExprSpan e) \<and> wf_spans e"
| "wf_spans (SwitchExpr _ v cs d s) \<longleftrightarrow>
     span_ok s \<and> inside s (ExprSpan v) \<and> wf_spans v \<and>
     (\<forall>c\<in>set cs. inside s (ExprSpan (fst c)) \<and> wf_spans (fst c) \<and> inside s (ExprSpan (snd c)) \<and> wf_spans (snd c)) \<and>
     inside s (ExprSpan d) \<and> wf_spans d"

definition within :: "nat \<Rightarrow> nat \<Rightarrow> expr \<Rightarrow> bool" where
  "within lo hi e \<longleftrightarrow>
     int lo + 1 \<le> StartColumn (ExprSpan e) \<and> StartColumn (ExprSpan e) < EndColumn (ExprSpan e) \<and>
     EndColumn (ExprSpan e) \<le> int hi + 1 \<and> wf_spans e"

definition real :: "exprToken \<Rightarrow> bool" where
  "real t \<longleftrightarrow> tk_kind t \<noteq> tokenEOF \<and> tk_kind t \<noteq> tokenError"

text \<open>The position up to which a parser has consumed its source.\<close>

definition cpos :: "parser \<Rightarrow> nat" where
  "cpos st = (case ps_buffer st of Some t \<Rightarrow> if real t then tk_start t else ps_index st | None \<Rightarrow> ps_index st)"

definition pinv :: "parser \<Rightarrow> bool" where
  "pinv st \<longleftrightarrow>
     ps_index st \<le> length (ps_source st) \<and> ps_err st \<noteq> Some OutOfFuel \<and>
     (case ps_buffer st of Some t \<Rightarrow> real t \<longrightarrow> tk_start t < tk_end t \<and> tk_end t = ps_index st | None \<Rightarrow> True)"

definition left :: "parser \<Rightarrow> nat" where
  "left st = length (ps_source st) - cpos st"

definition adv :: "parser \<Rightarrow> parser \<Rightarrow> bool" where
  "adv st st' \<longleftrightarrow> ps_source st' = ps_source st \<and> cpos st \<le> cpos st'"

text \<open>A result that is not the end of the bound, with a property of the value.\<close>

definition outcome :: "('a \<Rightarrow> parser \<Rightarrow> bool) \<Rightarrow> 'a presult \<Rightarrow> bool" where
  "outcome Q r \<longleftrightarrow>
     pinv (snd r) \<and> (case fst r of Inl e \<Rightarrow> e \<noteq> OutOfFuel | Inr x \<Rightarrow> Q x (snd r))"

lemma outcome_simps [simp]:
  "outcome Q (Inr x, st) \<longleftrightarrow> pinv st \<and> Q x st" "outcome Q (Inl e, st) \<longleftrightarrow> pinv st \<and> e \<noteq> OutOfFuel"
  by (simp_all add: outcome_def)

lemma outcome_bindp:
  "outcome P (f st) \<Longrightarrow> (\<And>x st'. pinv st' \<Longrightarrow> P x st' \<Longrightarrow> outcome Q (g x st')) \<Longrightarrow> outcome Q (bindp f g st)"
  by (cases "f st"; cases "fst (f st)") (auto simp: outcome_def bindp_def)

lemma outcome_mono: "outcome P r \<Longrightarrow> (\<And>x st. P x st \<Longrightarrow> Q x st) \<Longrightarrow> outcome Q r"
  by (auto simp: outcome_def split: sum.splits)

lemma adv_refl [simp]: "adv st st"
  by (simp add: adv_def)

lemma adv_trans: "adv s1 s2 \<Longrightarrow> adv s2 s3 \<Longrightarrow> adv s1 s3"
  by (simp add: adv_def)

lemma adv_left: "adv s1 s2 \<Longrightarrow> left s2 \<le> left s1"
  by (auto simp: adv_def left_def)

lemma adv_left_less: "adv s1 s2 \<Longrightarrow> cpos s1 < cpos s2 \<Longrightarrow> pinv s2 \<Longrightarrow> cpos s2 \<le> length (ps_source s2) \<Longrightarrow> left s2 < left s1"
  by (auto simp: adv_def left_def)

lemma pinv_cpos: "pinv st \<Longrightarrow> cpos st \<le> length (ps_source st)"
  by (auto simp: pinv_def cpos_def split: option.splits)

section \<open>The lexer makes progress\<close>

lemma scan_bounds: "i \<le> scan P src i" "i \<le> length src \<Longrightarrow> scan P src i \<le> length src"
  by (auto simp: scan_def intro: order_trans [OF add_left_mono [OF length_takeWhile_le]])

lemma scan_progress: "i < length src \<Longrightarrow> P (src ! i) \<Longrightarrow> i < scan P src i"
  by (simp add: scan_def Cons_nth_drop_Suc [symmetric])

lemma string_end_bound: "string_end escaped rs = Some n \<Longrightarrow> n \<le> length rs"
  by (induction escaped rs arbitrary: n rule: string_end.induct) (auto split: if_splits)

lemma operators_nonempty: "op \<in> set operators \<Longrightarrow> op \<noteq> []"
  by (auto simp: operators_def)

lemma lex_operator_bounds:
  assumes "lex_operator src i = (r, j)" "i < length src"
  shows "j \<le> length src \<and> i \<le> j \<and> (case r of Inr t \<Rightarrow> real t \<and> tk_start t = i \<and> i < tk_end t \<and> tk_end t = j | Inl e \<Rightarrow> e \<noteq> OutOfFuel)"
proof (cases "find (\<lambda>op. prefix (runes_of op) (drop i src)) operators")
  case None
  with assms show ?thesis by (auto simp: lex_operator_def)
next
  case (Some op)
  then have op: "op \<noteq> []" "prefix (runes_of op) (drop i src)"
    using operators_nonempty by (auto simp: find_Some_iff)
  from op(2) have "length op \<le> length src - i" using prefix_length_le by (fastforce simp: runes_of_def)
  with Some assms op(1) show ?thesis by (auto simp: lex_operator_def token_def real_def)
qed

lemma lex_string_bounds:
  assumes "lex_string src i = (r, j)" "i < length src"
  shows "j \<le> length src \<and> i \<le> j \<and> (case r of Inr t \<Rightarrow> real t \<and> tk_start t = i \<and> i < tk_end t \<and> tk_end t = j | Inl e \<Rightarrow> e \<noteq> OutOfFuel)"
  using assms
  by (auto simp: lex_string_def token_def real_def Let_def split: option.splits dest: string_end_bound)

lemma lex_next_bounds:
  assumes "lex_next u src i = (r, j)" "i \<le> length src"
  shows "j \<le> length src \<and> i \<le> j \<and>
    (case r of Inr t \<Rightarrow> real t \<longrightarrow> i \<le> tk_start t \<and> tk_start t < tk_end t \<and> tk_end t = j | Inl e \<Rightarrow> e \<noteq> OutOfFuel)"
proof -
  let ?i = "scan IsSpace src i"
  have i: "i \<le> ?i" "?i \<le> length src" using scan_bounds assms(2) by auto
  show ?thesis
  proof (cases "?i < length src")
    case False
    with assms i show ?thesis by (auto simp: lex_next_def Let_def token_def real_def)
  next
    case True
    note parts = isExprIdentPart_def [of u "src ! ?i"] scan_progress [OF True] scan_bounds(2) [of _ src] True i
    have ident: "?i < scan (isExprIdentPart u) src ?i" if "isExprIdentStart u (src ! ?i)" using that parts by simp
    have num: "?i < scan (IsDigit u) src ?i" if "IsDigit u (src ! ?i)" using that parts by simp
    consider (ident) "isExprIdentStart u (src ! ?i)" | (num) "\<not> isExprIdentStart u (src ! ?i)" "IsDigit u (src ! ?i)"
      | (str) "\<not> isExprIdentStart u (src ! ?i)" "\<not> IsDigit u (src ! ?i)" "src ! ?i = 0x22"
      | (punct) k v where "\<not> isExprIdentStart u (src ! ?i)" "\<not> IsDigit u (src ! ?i)" "src ! ?i \<noteq> 0x22" "punctuation (src ! ?i) = Some (k, v)"
      | (op) "\<not> isExprIdentStart u (src ! ?i)" "\<not> IsDigit u (src ! ?i)" "src ! ?i \<noteq> 0x22" "punctuation (src ! ?i) = None"
      by fastforce
    then show ?thesis
    proof cases
      case ident
      with assms(1) parts \<open>isExprIdentStart u (src ! ?i) \<Longrightarrow> ?i < scan (isExprIdentPart u) src ?i\<close> show ?thesis
        by (auto simp: lex_next_def lex_ident_def Let_def token_def real_def)
    next
      case num
      let ?j = "scan (IsDigit u) src ?i"
      have "?j \<le> length src" "?j < length src \<Longrightarrow> scan (IsDigit u) src (?j + 1) \<le> length src" "?j \<le> scan (IsDigit u) src (?j + 1)"
        using scan_bounds i by (auto intro: Suc_leD)
      with num assms(1) \<open>IsDigit u (src ! ?i) \<Longrightarrow> ?i < ?j\<close> True i show ?thesis
        by (auto simp: lex_next_def lex_number_def Let_def token_def real_def split: if_splits)
    next
      case str
      with assms(1) True have "lex_string src ?i = (r, j)" by (simp add: lex_next_def Let_def)
      from lex_string_bounds [OF this True] i show ?thesis by (auto split: sum.splits)
    next
      case (punct k v)
      with assms(1) True have "r = Inr (token k v ?i (?i + 1))" "j = ?i + 1" by (auto simp: lex_next_def Let_def)
      with True i show ?thesis by (auto simp: token_def)
    next
      case op
      with assms(1) True have "lex_operator src ?i = (r, j)" by (simp add: lex_next_def Let_def)
      from lex_operator_bounds [OF this True] i show ?thesis by (auto split: sum.splits)
    qed
  qed
qed


section \<open>The parser ends within its bound\<close>

lemma peek_rule:
  assumes "pinv st" "peek u st = (t, st')"
  shows "pinv st'" "adv st st'" "ps_buffer st' = Some t"
    "real t \<Longrightarrow> cpos st' = tk_start t" "real t \<Longrightarrow> tk_start t < tk_end t" "real t \<Longrightarrow> tk_end t = ps_index st'"
proof -
  have "pinv st' \<and> adv st st' \<and> ps_buffer st' = Some t \<and>
      (real t \<longrightarrow> cpos st' = tk_start t \<and> tk_start t < tk_end t \<and> tk_end t = ps_index st')"
  proof (cases "ps_buffer st")
    case (Some t')
    with assms show ?thesis by (auto simp: peek_def pinv_def cpos_def)
  next
    case None
    obtain r j where r: "lex_next u (ps_source st) (ps_index st) = (r, j)" by fastforce
    have "ps_index st \<le> length (ps_source st)" using assms(1) by (simp add: pinv_def)
    from lex_next_bounds [OF r this] assms None r show ?thesis
      by (cases r) (auto simp: peek_def pinv_def cpos_def adv_def real_def token_def Let_def split: option.splits)
  qed
  then show "pinv st'" "adv st st'" "ps_buffer st' = Some t"
    "real t \<Longrightarrow> cpos st' = tk_start t" "real t \<Longrightarrow> tk_start t < tk_end t" "real t \<Longrightarrow> tk_end t = ps_index st'" by auto
qed

lemma consume_rule:
  assumes "pinv st" "consume u st = (t, st')"
  shows "pinv st'" "adv st st'"
    "real t \<Longrightarrow> cpos st \<le> tk_start t" "real t \<Longrightarrow> tk_start t < tk_end t" "real t \<Longrightarrow> tk_end t = cpos st'"
proof -
  obtain st1 where p: "peek u st = (t, st1)" "st' = st1\<lparr>ps_buffer := None\<rparr>"
    using assms(2) by (auto simp: consume_def split: prod.splits)
  note q = peek_rule [OF assms(1) p(1)]
  have "cpos st1 \<le> ps_index st1" using q(1) by (auto simp: pinv_def cpos_def split: option.splits)
  with q p(2) show "pinv st'" "adv st st'"
    "real t \<Longrightarrow> cpos st \<le> tk_start t" "real t \<Longrightarrow> tk_start t < tk_end t" "real t \<Longrightarrow> tk_end t = cpos st'"
    by (auto simp: pinv_def adv_def cpos_def)
qed

lemma consume_after_peek: "ps_buffer st = Some t \<Longrightarrow> consume u st = (t, st\<lparr>ps_buffer := None\<rparr>)"
  by (simp add: consume_def peek_def)

text \<open>What a step that consumed a token leaves.\<close>

definition took :: "parser \<Rightarrow> exprToken \<Rightarrow> parser \<Rightarrow> bool" where
  "took st t st' \<longleftrightarrow>
     adv st st' \<and> (real t \<longrightarrow> cpos st \<le> tk_start t \<and> tk_start t < tk_end t \<and> tk_end t = cpos st')"

lemma took_consume: "pinv st \<Longrightarrow> consume u st = (t, st') \<Longrightarrow> pinv st' \<and> took st t st'"
  using consume_rule by (auto simp: took_def)

lemma outcome_consumep:
  "pinv st \<Longrightarrow> ps_buffer st = Some t \<Longrightarrow> outcome (\<lambda>t' st'. t' = t \<and> took st t st') (consumep u st)"
  using took_consume [of st u t] by (simp add: consumep_def consume_after_peek)

lemma outcome_consumep_any: "pinv st \<Longrightarrow> outcome (\<lambda>t st'. took st t st') (consumep u st)"
  using took_consume [of st u] by (auto simp: consumep_def split: prod.splits)

lemma outcome_expect:
  assumes "pinv st" "\<And>t. ok t \<Longrightarrow> real t" "\<And>v. err v \<noteq> OutOfFuel"
  shows "outcome (\<lambda>t st'. real t \<and> took st t st') (expect u ok err st)"
  using took_consume [OF assms(1)] assms(2,3) by (auto simp: expect_def split: prod.splits)

definition parsed :: "parser \<Rightarrow> expr \<Rightarrow> parser \<Rightarrow> bool" where
  "parsed st e st' \<longleftrightarrow> adv st st' \<and> cpos st < cpos st' \<and> within (cpos st) (cpos st') e"

definition grown :: "nat \<Rightarrow> parser \<Rightarrow> expr \<Rightarrow> parser \<Rightarrow> bool" where
  "grown lo st e st' \<longleftrightarrow> adv st st' \<and> within lo (cpos st') e"

definition ends_on :: "nat \<Rightarrow> expr pfun \<Rightarrow> bool" where
  "ends_on k f \<longleftrightarrow> (\<forall>st. pinv st \<and> left st < k \<longrightarrow> outcome (parsed st) (f st))"

lemma ends_onD: "ends_on k f \<Longrightarrow> pinv st \<Longrightarrow> left st < k \<Longrightarrow> outcome (parsed st) (f st)"
  by (simp add: ends_on_def)

lemma within_mono: "within lo hi e \<Longrightarrow> lo' \<le> lo \<Longrightarrow> hi \<le> hi' \<Longrightarrow> within lo' hi' e"
  by (auto simp: within_def)

lemma within_span: "within lo hi e \<Longrightarrow> span_ok (ExprSpan e)"
  by (cases e) (auto simp: within_def)

lemma took_left: "took st t st' \<Longrightarrow> real t \<Longrightarrow> pinv st' \<Longrightarrow> left st' < left st"
  using pinv_cpos [of st'] by (auto simp: took_def adv_def left_def)

lemma parsed_left: "parsed st e st' \<Longrightarrow> pinv st' \<Longrightarrow> left st' < left st"
  using pinv_cpos [of st'] by (auto simp: parsed_def adv_def left_def)

lemmas kind_real = real_def
lemmas pos_simps = took_def parsed_def grown_def adv_def within_def inside_def span_ok_def tokenSpan_def mergeExprSpans_def

text \<open>The rules for sequences of steps.\<close>

lemma bind_expr:
  "ends_on k f \<Longrightarrow> pinv st \<Longrightarrow> left st < k \<Longrightarrow>
   (\<And>e st'. pinv st' \<Longrightarrow> parsed st e st' \<Longrightarrow> outcome Q (g e st')) \<Longrightarrow> outcome Q (bindp f g st)"
  by (rule outcome_bindp [where f = f and P = "parsed st"]) (auto dest: ends_onD)

lemma bind_expect:
  "pinv st \<Longrightarrow> (\<And>t. ok t \<Longrightarrow> real t) \<Longrightarrow> (\<And>v. err v \<noteq> OutOfFuel) \<Longrightarrow>
   (\<And>t st'. pinv st' \<Longrightarrow> real t \<Longrightarrow> took st t st' \<Longrightarrow> outcome Q (g t st')) \<Longrightarrow> outcome Q (bindp (expect u ok err) g st)"
  by (rule outcome_bindp [where f = "expect u ok err" and P = "\<lambda>t st'. real t \<and> took st t st'"])
    (auto intro: outcome_expect)

lemma bind_consume:
  "pinv st \<Longrightarrow> ps_buffer st = Some t \<Longrightarrow>
   (\<And>st'. pinv st' \<Longrightarrow> took st t st' \<Longrightarrow> outcome Q (g t st')) \<Longrightarrow> outcome Q (bindp (consumep u) g st)"
  by (rule outcome_bindp [where f = "consumep u" and P = "\<lambda>t' st'. t' = t \<and> took st t st'"])
    (auto intro: outcome_consumep)

lemma bind_consume_any:
  "pinv st \<Longrightarrow> (\<And>t st'. pinv st' \<Longrightarrow> took st t st' \<Longrightarrow> outcome Q (g t st')) \<Longrightarrow> outcome Q (bindp (consumep u) g st)"
  by (rule outcome_bindp [where f = "consumep u" and P = "\<lambda>t st'. took st t st'"])
    (auto intro: outcome_consumep_any)

lemma outcome_primary:
  assumes pc: "ends_on k pc" and st: "pinv st" "left st \<le> k"
  shows "outcome (parsed st) (parsePrimary u pc st)"
proof -
  obtain t st1 where c: "consume u st = (t, st1)" by fastforce
  have t: "pinv st1" "took st t st1" using took_consume [OF st(1) c] by auto
  show ?thesis
  proof (cases "tk_kind t = tokenLParen")
    case True
    then have r: "real t" by (simp add: real_def)
    with took_left [OF t(2) r t(1)] st(2) have "left st1 < k" by simp
    then have "outcome (parsed st) (bindp pc (\<lambda>e.
        bindp (expect u (\<lambda>t. tk_kind t = tokenRParen) MissingParen) (\<lambda>_ st. (Inr e, st))) st1)"
      by (intro bind_expr [OF pc t(1)] bind_expect) (use t(2) r in \<open>auto simp: pos_simps kind_real\<close>)
    with c True show ?thesis by (simp add: parsePrimary_def)
  next
    case False
    with c t show ?thesis
      by (cases "tk_kind t") (auto simp: parsePrimary_def pos_simps kind_real)
  qed
qed

lemma outcome_args:
  assumes pc: "ends_on k pc"
  shows "pinv st \<Longrightarrow> left st < k \<Longrightarrow> left st < n \<Longrightarrow> (\<forall>a\<in>set args. within lo (cpos st) a) \<Longrightarrow> lo \<le> cpos st \<Longrightarrow>
    outcome (\<lambda>(args, t) st'. adv st st' \<and> real t \<and> cpos st \<le> tk_start t \<and> tk_start t < tk_end t \<and> tk_end t = cpos st' \<and>
      (\<forall>a\<in>set args. within lo (cpos st') a)) (args_loop n u pc args st)"
proof (induction n arbitrary: args st)
  case (Suc n)
  show ?case
    unfolding args_loop.simps
  proof (rule bind_expr [OF pc Suc.prems(1,2)], rule bind_consume_any)
    fix arg st1 t st2
    assume st: "pinv st1" "parsed st arg st1" "pinv st2" "took st1 t st2"
    have left: "left st1 < left st" using parsed_left st by blast
    have args: "\<forall>a\<in>set (args @ [arg]). within lo (cpos st2) a" "lo \<le> cpos st2" "adv st st2"
      using st Suc.prems(4,5) by (auto simp: pos_simps)
    show "outcome (\<lambda>(args, t) st'. adv st st' \<and> real t \<and> cpos st \<le> tk_start t \<and> tk_start t < tk_end t \<and> tk_end t = cpos st' \<and>
        (\<forall>a\<in>set args. within lo (cpos st') a))
      (if tk_kind t = tokenComma then args_loop n u pc (args @ [arg]) st2
       else if tk_kind t = tokenRParen then (Inr (args @ [arg], t), st2)
       else (Inl (CallArgs (tk_value t)), st2))"
    proof (cases "tk_kind t = tokenComma")
      case True
      have "left st2 < left st1" using took_left [OF st(4) _ st(3)] True by (simp add: real_def)
      with left Suc.prems have "left st2 < k" "left st2 < n" by auto
      from outcome_mono [OF Suc.IH [OF st(3) this args(1,2)]] True args(3) show ?thesis
        by (auto simp: adv_def)
    next
      case False
      with st args show ?thesis by (auto simp: real_def pos_simps)
    qed
  qed assumption
qed simp


lemma left_less: "pinv st' \<Longrightarrow> ps_source st' = ps_source st \<Longrightarrow> cpos st < cpos st' \<Longrightarrow> left st' < left st"
  using pinv_cpos [of st'] by (auto simp: left_def)

definition called :: "parser \<Rightarrow> expr list \<times> exprToken \<Rightarrow> parser \<Rightarrow> bool" where
  "called st r st' \<longleftrightarrow>
     adv st st' \<and> cpos st \<le> tk_start (snd r) \<and> tk_start (snd r) < tk_end (snd r) \<and> tk_end (snd r) = cpos st' \<and>
     (\<forall>a\<in>set (fst r). within (cpos st) (cpos st') a)"

lemma outcome_call_args:
  assumes pc: "ends_on k pc" and st: "pinv st" "left st \<le> k" "left st \<le> n"
  shows "outcome (called st) (parseCallArgs n u pc st)"
  unfolding parseCallArgs_def
proof (rule bind_expect [OF st(1)])
  fix t st1
  assume t: "pinv st1" "real t" "took st t st1"
  have left: "left st1 < k" "left st1 < n" using took_left [OF t(3,2,1)] st by auto
  obtain t2 st2 where p: "peek u st1 = (t2, st2)" by fastforce
  note q = peek_rule [OF t(1) p]
  have left2: "left st2 < k" "left st2 < n" using left adv_left [OF q(2)] by auto
  have "cpos st \<le> cpos st2" "adv st st2" using t q(2) by (auto simp: took_def adv_def)
  then have args: "outcome (called st) (args_loop n u pc [] st2)"
    by (intro outcome_mono [OF outcome_args [OF pc q(1) left2, of "[]" "cpos st"]]) (auto simp: adv_def called_def)
  show "outcome (called st)
    (case peek u st1 of (t, st1) \<Rightarrow>
      if tk_kind t = tokenRParen then bindp (consumep u) (\<lambda>close st. (Inr ([], close), st)) st1
      else args_loop n u pc [] st1)"
  proof (cases "tk_kind t2 = tokenRParen")
    case True
    have "outcome (called st) (bindp (consumep u) (\<lambda>close st. (Inr ([], close), st)) st2)"
      by (rule bind_consume [OF q(1,3)]) (use True t q in \<open>auto simp: called_def took_def adv_def real_def\<close>)
    with True p show ?thesis by simp
  qed (use p args in simp)
qed (auto simp: real_def)

lemma bind_call_args:
  assumes "ends_on k pc" "pinv st" "left st \<le> k" "left st \<le> n"
    and "\<And>r st'. pinv st' \<Longrightarrow> called st r st' \<Longrightarrow> outcome Q (g r st')"
  shows "outcome Q (bindp (parseCallArgs n u pc) g st)"
  using outcome_bindp [where f = "parseCallArgs n u pc", OF outcome_call_args [OF assms(1-4)]] assms(5) by blast

lemma outcome_postfix_loop:
  assumes pc: "ends_on k pc"
  shows "pinv st \<Longrightarrow> left st \<le> k \<Longrightarrow> left st < n \<Longrightarrow> within lo (cpos st) e \<Longrightarrow>
    outcome (grown lo st) (postfix_loop n u pc e st)"
proof (induction n arbitrary: e st)
  case (Suc n)
  obtain t st1 where p: "peek u st = (t, st1)" by fastforce
  note q = peek_rule [OF Suc.prems(1) p]
  have e1: "within lo (cpos st1) e" using Suc.prems(4) q(2) by (auto simp: adv_def within_def)
  note span = within_span [OF e1]
  have left1: "left st1 \<le> k" "left st1 \<le> n" using adv_left [OF q(2)] Suc.prems by auto
  have step: "outcome (grown lo st) (postfix_loop n u pc e' st')"
    if "pinv st'" "adv st1 st'" "cpos st1 < cpos st'" "within lo (cpos st') e'" for e' st'
  proof -
    have "left st' < left st1" using that by (intro left_less) (auto simp: adv_def)
    then show ?thesis
      using outcome_mono [OF Suc.IH [OF that(1) _ _ that(4)]] left1 that(2,3) q(2) by (auto simp: grown_def adv_def)
  qed
  consider (dot) "tk_kind t = tokenDot" | (bracket) "tk_kind t = tokenLBracket" | (paren) "tk_kind t = tokenLParen"
    | (other) "tk_kind t \<notin> {tokenDot, tokenLBracket, tokenLParen}" by auto
  then show ?case
  proof cases
    case dot
    have "outcome (grown lo st) (bindp (consumep u) (\<lambda>_.
        bindp (expect u (\<lambda>t. tk_kind t = tokenIdent) MissingField) (\<lambda>name.
        postfix_loop n u pc (MemberExpr e (tk_value name) (mergeExprSpans (ExprSpan e) (tokenSpan name))))) st1)"
      by (intro bind_consume [OF q(1,3)] bind_expect step) (use dot e1 span in \<open>auto simp: pos_simps kind_real\<close>)
    with p dot show ?thesis by simp
  next
    case bracket
    have "outcome (grown lo st) (bindp (consumep u) (\<lambda>_. bindp pc (\<lambda>index.
        bindp (expect u (\<lambda>t. tk_kind t = tokenRBracket) MissingBracket) (\<lambda>close.
        postfix_loop n u pc (IndexExpr e index (mergeExprSpans (ExprSpan e) (tokenSpan close)))))) st1)"
    proof (intro bind_consume [OF q(1,3)] bind_expr [OF pc] bind_expect step)
      fix st2 assume "pinv st2" "took st1 t st2"
      then show "left st2 < k" using took_left [of st1 t st2] bracket left1 by (simp add: real_def)
    qed (use bracket e1 span in \<open>auto simp: pos_simps kind_real\<close>)
    with p bracket show ?thesis by simp
  next
    case paren
    have "outcome (grown lo st) (bindp (parseCallArgs n u pc) (\<lambda>(args, close).
        postfix_loop n u pc (CallExpr name args (mergeExprSpans s (tokenSpan close)))) st1)" if "e = IdentExpr name s" for name s
      by (rule bind_call_args [OF pc q(1) left1], clarsimp, intro step)
        (use that e1 span in \<open>auto simp: pos_simps called_def\<close>)
    with p paren q(1) show ?thesis by (cases e) auto
  next
    case other
    with p q(1,2) e1 show ?thesis by (cases "tk_kind t") (auto simp: grown_def)
  qed
qed simp

lemma outcome_postfix:
  assumes pc: "ends_on k pc" and st: "pinv st" "left st \<le> k" "left st \<le> n"
  shows "outcome (parsed st) (parsePostfix n u pc st)"
  unfolding parsePostfix_def
proof (rule outcome_bindp [where f = "parsePrimary u pc", OF outcome_primary [OF pc st(1,2)]])
  fix e st1 assume s: "pinv st1" "parsed st e st1"
  have "left st1 < left st" using parsed_left [OF s(2,1)] .
  then show "outcome (parsed st) (postfix_loop n u pc e st1)"
    using outcome_mono [OF outcome_postfix_loop [OF pc s(1), of n "cpos st" e]] s st by (auto simp: pos_simps)
qed

lemma outcome_unary:
  assumes pc: "ends_on k pc"
  shows "pinv st \<Longrightarrow> left st \<le> k \<Longrightarrow> left st < n \<Longrightarrow> outcome (parsed st) (parseUnary n u pc st)"
proof (induction n arbitrary: st)
  case (Suc n)
  obtain t st1 where p: "peek u st = (t, st1)" by fastforce
  note q = peek_rule [OF Suc.prems(1) p]
  have left1: "left st1 \<le> k" "left st1 \<le> n" using adv_left [OF q(2)] Suc.prems by auto
  show ?case
  proof (cases "tk_kind t = tokenOp \<and> (tk_value t = ''!'' \<or> tk_value t = ''-'')")
    case True
    then have r: "real t" by (simp add: real_def)
    have "outcome (parsed st) (bindp (consumep u) (\<lambda>_. bindp (parseUnary n u pc) (\<lambda>e st.
        (Inr (UnaryExpr (tk_value t) e (mergeExprSpans (tokenSpan t) (ExprSpan e))), st))) st1)"
    proof (rule bind_consume [OF q(1,3)])
      fix st2 assume s: "pinv st2" "took st1 t st2"
      have "left st2 < left st1" using took_left [OF s(2) r s(1)] .
      then have "outcome (parsed st2) (parseUnary n u pc st2)" using Suc.IH [OF s(1)] left1 by simp
      then show "outcome (parsed st) (bindp (parseUnary n u pc) (\<lambda>e st.
          (Inr (UnaryExpr (tk_value t) e (mergeExprSpans (tokenSpan t) (ExprSpan e))), st)) st2)"
        by (rule outcome_bindp [where f = "parseUnary n u pc"])
          (use s r q(2) in \<open>auto simp: pos_simps\<close>)
    qed
    with True p show ?thesis by simp
  next
    case False
    have "outcome (parsed st) (parsePostfix n u pc st1)"
      using outcome_mono [OF outcome_postfix [OF pc q(1) left1]] q(2) by (auto simp: pos_simps)
    with False p show ?thesis by auto
  qed
qed simp


lemma outcome_binary_loop:
  assumes f: "ends_on k f"
  shows "pinv st \<Longrightarrow> left st \<le> k \<Longrightarrow> left st < n \<Longrightarrow> within lo (cpos st) e \<Longrightarrow>
    outcome (grown lo st) (binary_loop n u f ops e st)"
proof (induction n arbitrary: e st)
  case (Suc n)
  obtain t st1 where p: "peek u st = (t, st1)" by fastforce
  note q = peek_rule [OF Suc.prems(1) p]
  have e1: "within lo (cpos st1) e" using Suc.prems(4) q(2) by (auto simp: adv_def within_def)
  have left1: "left st1 \<le> k" "left st1 \<le> n" using adv_left [OF q(2)] Suc.prems by auto
  show ?case
  proof (cases "tk_value t \<in> set ops \<and> tk_kind t = tokenOp")
    case True
    then have r: "real t" by (simp add: real_def)
    have "outcome (grown lo st) (bindp (consumep u) (\<lambda>op. bindp f (\<lambda>right. binary_loop n u f ops
        (BinaryExpr (tk_value op) e right (mergeExprSpans (ExprSpan e) (ExprSpan right))))) st1)"
    proof (intro bind_consume [OF q(1,3)] bind_expr [OF f])
      fix st2 right st3 assume s: "pinv st2" "took st1 t st2" "pinv st3" "parsed st2 right st3"
      have l: "left st3 < left st1" using took_left [OF s(2) r s(1)] parsed_left [OF s(4,3)] by simp
      have w: "within lo (cpos st3) (BinaryExpr (tk_value t) e right (mergeExprSpans (ExprSpan e) (ExprSpan right)))" "adv st1 st3"
        using s r e1 by (auto simp: pos_simps)
      show "outcome (grown lo st) (binary_loop n u f ops
          (BinaryExpr (tk_value t) e right (mergeExprSpans (ExprSpan e) (ExprSpan right))) st3)"
        using outcome_mono [OF Suc.IH [OF s(3) _ _ w(1)]] l left1 w(2) q(2) by (auto simp: grown_def adv_def)
    next
      fix st2 assume "pinv st2" "took st1 t st2"
      then show "left st2 < k" using took_left [of st1 t st2] r left1 by simp
    qed
    with True p show ?thesis by simp
  next
    case False
    with p q(1,2) e1 show ?thesis by (auto simp: grown_def)
  qed
qed simp

text \<open>
  Every level of binary operators ends when the next level does: the bound \<open>n\<close> of its loop covers
  the rest of the source.
\<close>

lemma ends_on_binary: "ends_on k f \<Longrightarrow> k \<le> n \<Longrightarrow> ends_on k (parseBinary n u f ops)"
  unfolding ends_on_def parseBinary_def
proof (intro allI impI)
  fix st assume f: "\<forall>st. pinv st \<and> left st < k \<longrightarrow> outcome (parsed st) (f st)" "k \<le> n" and st: "pinv st \<and> left st < k"
  then have ends: "ends_on k f" by (simp add: ends_on_def)
  show "outcome (parsed st) (bindp f (binary_loop n u f ops) st)"
  proof (rule bind_expr [OF ends])
    fix e st1 assume s: "pinv st1" "parsed st e st1"
    have "left st1 < left st" using parsed_left [OF s(2,1)] .
    then show "outcome (parsed st) (binary_loop n u f ops e st1)"
      using outcome_mono [OF outcome_binary_loop [OF ends s(1), of n "cpos st" e]] s st f(2) by (auto simp: pos_simps)
  qed (use st in auto)
qed

lemma ends_on_or: "ends_on k pc \<Longrightarrow> Suc k \<le> n \<Longrightarrow> ends_on (Suc k) (parseOr n u pc)"
  unfolding parseOr_def parseAnd_def parseCompare_def parseAdd_def parseMul_def
  by (intro ends_on_binary) (auto simp: ends_on_def intro: outcome_unary [unfolded ends_on_def])



lemma outcome_switch_loop:
  assumes pc: "ends_on k pc" and start: "real start" "lo \<le> tk_start start" "tk_start start < tk_end start"
  shows "pinv st \<Longrightarrow> left st \<le> k \<Longrightarrow> left st < n \<Longrightarrow> tk_end start \<le> cpos st \<Longrightarrow>
    within (tk_start start) (cpos st) v \<Longrightarrow> (\<forall>c\<in>set cs. within (tk_start start) (cpos st) (fst c) \<and> within (tk_start start) (cpos st) (snd c)) \<Longrightarrow>
    (case d of None \<Rightarrow> True | Some e \<Rightarrow> within (tk_start start) (cpos st) e) \<Longrightarrow>
    outcome (grown lo st) (switch_loop n u pc start v cs d st)"
proof (induction n arbitrary: cs d st)
  case (Suc n)
  obtain t st1 where p: "peek u st = (t, st1)" by fastforce
  note q = peek_rule [OF Suc.prems(1) p]
  let ?s = "tk_start start"
  have w1: "within ?s (cpos st1) v" "\<forall>c\<in>set cs. within ?s (cpos st1) (fst c) \<and> within ?s (cpos st1) (snd c)"
      "\<And>e. d = Some e \<Longrightarrow> within ?s (cpos st1) e" "tk_end start \<le> cpos st1"
    using Suc.prems(4-7) q(2) by (auto simp: adv_def within_def)
  have left1: "left st1 \<le> k" "left st1 \<le> n" using adv_left [OF q(2)] Suc.prems by auto
  have step: "outcome (grown lo st) (switch_loop n u pc start v cs' d' st')"
    if "pinv st'" "adv st1 st'" "cpos st1 < cpos st'"
      "\<forall>c\<in>set cs'. within ?s (cpos st') (fst c) \<and> within ?s (cpos st') (snd c)"
      "case d' of None \<Rightarrow> True | Some e \<Rightarrow> within ?s (cpos st') e" for cs' d' st'
  proof -
    have "left st' < left st1" using that by (intro left_less) (auto simp: adv_def)
    moreover have "tk_end start \<le> cpos st'" "within ?s (cpos st') v"
      using w1(1,4) that(3) by (auto simp: within_def)
    ultimately show ?thesis
      using outcome_mono [OF Suc.IH [OF that(1) _ _ _ _ that(4,5)]] left1 that(2,3) q(2) by (auto simp: grown_def adv_def)
  qed
  have less: "left st' < k" if "pinv st'" "adv st1 st'" "cpos st1 < cpos st'" for st'
    using that left1(1) left_less [of st' st1] by (auto simp: adv_def)
  consider (close) "tk_kind t = tokenRBrace" | (cs) "tk_kind t = tokenIdent" "tk_value t = ''case''"
    | (dflt) "tk_kind t = tokenIdent" "tk_value t = ''default''"
    | (other) "tk_kind t \<noteq> tokenRBrace" "\<not> (tk_kind t = tokenIdent \<and> (tk_value t = ''case'' \<or> tk_value t = ''default''))" by auto
  then show ?case
  proof cases
    case close
    have "outcome (grown lo st) (bindp (consumep u) (\<lambda>close st.
        (Inr (SwitchExpr (tk_value start) v cs e (mergeExprSpans (tokenSpan start) (tokenSpan close))), st)) st1)" if "d = Some e" for e
      by (rule bind_consume [OF q(1,3)])
        (use close that start w1 w1(3) [OF that] q(2) in \<open>auto simp: pos_simps kind_real\<close>)
    with p close q(1) show ?thesis by (cases d) auto
  next
    case cs
    have "outcome (grown lo st) (bindp (consumep u) (\<lambda>_. bindp pc (\<lambda>match.
        bindp (expect u (\<lambda>t. tk_kind t = tokenColon) (Expected '': after case expression'')) (\<lambda>_.
        bindp pc (\<lambda>e. switch_loop n u pc start v (cs @ [(match, e)]) d)))) st1)"
    proof (intro bind_consume [OF q(1,3)] bind_expr [OF pc] bind_expect step less)
      show "\<forall>c\<in>set (cs @ [(m, e)]). within ?s (cpos st5) (fst c) \<and> within ?s (cpos st5) (snd c)"
        if "took st1 t st2" "parsed st2 m st3" "took st3 t' st4" "parsed st4 e st5" for st2 m st3 t' st4 e st5
        using that cs w1 start by (auto simp: pos_simps kind_real)
      show "case d of None \<Rightarrow> True | Some e \<Rightarrow> within ?s (cpos st5) e"
        if "took st1 t st2" "parsed st2 m st3" "took st3 t' st4" "parsed st4 e st5" for st2 m st3 t' st4 e st5
        using that w1(3) by (auto simp: pos_simps split: option.splits)
    qed (use cs in \<open>auto simp: pos_simps kind_real\<close>)
    with p cs show ?thesis by simp
  next
    case dflt
    have "outcome (grown lo st) (bindp (expect u (\<lambda>t. tk_kind t = tokenColon) (Expected '': after default'')) (\<lambda>_.
        bindp pc (\<lambda>e. switch_loop n u pc start v cs (Some e))) st2)" if s: "pinv st2" "took st1 t st2" for st2
    proof (intro bind_expr [OF pc] bind_expect step less s(1))
      show "\<forall>c\<in>set cs. within ?s (cpos st4) (fst c) \<and> within ?s (cpos st4) (snd c)"
        if "took st2 t' st3" "parsed st3 e st4" for t' st3 e st4
        using that s w1(2) by (auto simp: pos_simps)
    qed (use dflt s w1(4) start in \<open>auto simp: pos_simps kind_real\<close>)
    then have "outcome (grown lo st) (bindp (consumep u) (\<lambda>_ st.
        if d \<noteq> None then (Inl (TwoDefaults (tk_value start)), st)
        else bindp (expect u (\<lambda>t. tk_kind t = tokenColon) (Expected '': after default'')) (\<lambda>_.
          bindp pc (\<lambda>e. switch_loop n u pc start v cs (Some e))) st) st1)"
      by (intro bind_consume [OF q(1,3)]) auto
    with p dflt show ?thesis by simp
  next
    case other
    with p q(1) show ?thesis by auto
  qed
qed simp


lemma outcome_switch:
  assumes pc: "ends_on k pc" and st: "pinv st" "ps_buffer st = Some t" "real t" "left st \<le> k" "k < n"
  shows "outcome (parsed st) (parseSwitch n u pc st)"
  unfolding parseSwitch_def
proof (intro bind_consume [OF st(1,2)] bind_expr [OF ends_on_or [OF pc]] bind_expect)
  fix st2 v st3 t' st4
  assume s: "pinv st2" "took st t st2" "pinv st3" "parsed st2 v st3" "pinv st4" "real t'" "took st3 t' st4"
  have "left st4 < left st" using took_left [OF s(2) st(3) s(1)] parsed_left [OF s(4,3)] took_left [OF s(7,6,5)] by simp
  then have l: "left st4 \<le> k" "left st4 < n" using st(4,5) by auto
  have w: "cpos st \<le> tk_start t" "tk_start t < tk_end t" "tk_end t \<le> cpos st4" "within (tk_start t) (cpos st4) v" "adv st st4"
    using s st(3) by (auto simp: pos_simps)
  show "outcome (parsed st) (switch_loop n u pc t v [] None st4)"
    using outcome_mono [OF outcome_switch_loop [OF pc st(3) w(1,2) s(5) l w(3,4), of "[]" None]] w
    by (auto simp: grown_def parsed_def adv_def)
next
  fix st2 assume "pinv st2" "took st t st2"
  then show "left st2 < Suc k" using took_left [of st t st2] st(3,4) by simp
qed (use st in \<open>auto simp: kind_real\<close>)

lemma outcome_if:
  assumes pc: "ends_on k pc" and st: "pinv st" "ps_buffer st = Some t" "real t" "left st \<le> k" "k < n"
  shows "outcome (parsed st) (parseIf n u pc st)"
proof -
  have less: "left st' < k" if "pinv st'" "adv st st'" "cpos st < cpos st'" for st'
    using that st(4) left_less [of st' st] by (auto simp: adv_def)
  then have less': "left st' < Suc k" if "pinv st'" "adv st st'" "cpos st < cpos st'" for st'
    using that less_SucI by blast
  show ?thesis
    unfolding parseIf_def
    by (intro bind_consume [OF st(1,2)] bind_expr [OF ends_on_or [OF pc]] bind_expr [OF pc] bind_expect less less')
      (use st in \<open>auto simp: pos_simps kind_real\<close>)
qed

lemma ends_on_conditional: "ends_on n (parseConditional n u)"
proof (induction n)
  case 0
  show ?case by (simp add: ends_on_def)
next
  case (Suc n)
  show ?case
    unfolding ends_on_def
  proof (intro allI impI)
    fix st assume st: "pinv st \<and> left st < Suc n"
    obtain t st1 where p: "peek u st = (t, st1)" by fastforce
    note q = peek_rule [OF conjunct1 [OF st] p]
    have left1: "left st1 \<le> n" using adv_left [OF q(2)] st by simp
    have up: "outcome (parsed st) r" if "outcome (parsed st1) r" for r
      using outcome_mono [OF that] q(2) by (auto simp: pos_simps)
    have "outcome (parsed st1) (parseOr (Suc n) u (parseConditional n u) st1)"
      using ends_onD [OF ends_on_or [OF Suc.IH] q(1), of "Suc n"] left1 by simp
    moreover have "outcome (parsed st1) (parseSwitch (Suc n) u (parseConditional n u) st1)"
      "outcome (parsed st1) (parseIf (Suc n) u (parseConditional n u) st1)" if "tk_kind t = tokenIdent"
      using that q(1,3) left1 outcome_switch [OF Suc.IH] outcome_if [OF Suc.IH] by (auto simp: real_def)
    ultimately show "outcome (parsed st) (parseConditional (Suc n) u st)" using p up by auto
  qed
qed

text \<open>
  C16: Parsing a client expression always ends with an expression or one of the errors of the lexer and
  the parser, and the spans of the expression are not empty, lie in the source, and contain the spans
  of the parts of their nodes.\<close>

theorem ParseExpr_total:
  "case ParseExpr u source of
     Inl err \<Rightarrow> err \<noteq> OutOfFuel
   | Inr e \<Rightarrow> wf_spans e \<and> EndColumn (ExprSpan e) \<le> int (length (runes source)) + 1"
proof -
  let ?src = "runes source"
  define st where "st = \<lparr>ps_source = ?src, ps_index = 0, ps_buffer = None, ps_err = None\<rparr>"
  have st: "pinv st" "left st < length ?src + 2" by (simp_all add: st_def pinv_def left_def cpos_def)
  obtain r st1 where r: "parseConditional (length ?src + 2) u st = (r, st1)" by fastforce
  have out: "outcome (parsed st) (r, st1)" using ends_onD [OF ends_on_conditional st, of u] r by simp
  obtain t st2 where p: "peek u st1 = (t, st2)" by fastforce
  have inv1: "pinv st1" using out by (simp add: outcome_def)
  have err: "ps_err st1 \<noteq> Some OutOfFuel" "ps_err st2 \<noteq> Some OutOfFuel"
    using inv1 peek_rule(1) [OF inv1 p] by (auto simp: pinv_def)
  have span: "EndColumn (ExprSpan e) \<le> int (length ?src) + 1" "wf_spans e" if "r = Inr e" for e
    using out that pinv_cpos [OF inv1] by (auto simp: pos_simps st_def)
  have "ParseExpr u source =
      (case r of Inl e \<Rightarrow> Inl (case ps_err st1 of Some e' \<Rightarrow> e' | None \<Rightarrow> e)
       | Inr e \<Rightarrow> if tk_kind t \<noteq> tokenEOF
           then Inl (case ps_err st2 of Some e' \<Rightarrow> e' | None \<Rightarrow> UnexpectedToken (tk_value t)) else Inr e)"
    using r p by (auto simp: ParseExpr_def ParseExprWithSpans_def Let_def st_def split: sum.splits)
  then show ?thesis using out err span by (auto simp: outcome_def split: sum.splits option.splits)
qed

end
