(* ===== verification/ExprCheck.thy ===== *)
theory ExprCheck
  imports ExprParse "HOL-Library.List_Lexorder" "HOL-Library.Char_ord" "HOL-Library.Multiset"
begin

text \<open>
  \<open>internal/clientlang\<close>, static checks of client expressions: the type checker (\<open>expr_check.go\<close> and the
  signatures of the built-ins in \<open>expr_builtins.go\<close>), the collection of names (\<open>expr_collect.go\<close>) and the
  canonical form (\<open>expr_canonical.go\<close>).

  The maps of symbols and helper functions are partial functions, the set of field names that the
  checker fills is a list without repetitions. An error carries the span that \<open>wrapExprError\<close> gives
  it, \<open>None\<close> before that. \<open>strconv.Quote\<close>, which depends on the tables of printable runes, is a
  parameter of the canonical form.
\<close>

section \<open>Names\<close>

fun shift :: "string \<Rightarrow> string list \<Rightarrow> string list" where
  "shift item [] = [item]"
| "shift item (v # vs) = (if item < v then v # shift item vs else item # v # vs)"

text \<open>The insertion sort of the code; the sorted part is kept from its end.\<close>

definition sortStrings :: "string list \<Rightarrow> string list" where
  "sortStrings xs = rev (fold shift xs [])"

definition sortedStringKeys :: "string list \<Rightarrow> string list" where
  "sortedStringKeys keys = (if keys = [] then [] else sortStrings keys)"

fun collectExprFields :: "expr \<Rightarrow> string list \<Rightarrow> string list" where
  "collectExprFields (LiteralExpr _ _ _) flds = flds"
| "collectExprFields (IdentExpr name _) flds = List.insert name flds"
| "collectExprFields (MemberExpr x _ _) flds = collectExprFields x flds"
| "collectExprFields (IndexExpr x i _) flds = collectExprFields i (collectExprFields x flds)"
| "collectExprFields (CallExpr _ args _) flds = fold collectExprFields args flds"
| "collectExprFields (UnaryExpr _ x _) flds = collectExprFields x flds"
| "collectExprFields (BinaryExpr _ l r _) flds = collectExprFields r (collectExprFields l flds)"
| "collectExprFields (ConditionalExpr c t e _) flds =
     collectExprFields e (collectExprFields t (collectExprFields c flds))"
| "collectExprFields (SwitchExpr _ v cases d _) flds =
     collectExprFields d
       (fold (\<lambda>item flds. collectExprFields (snd item) (collectExprFields (fst item) flds)) cases
         (collectExprFields v flds))"

fun collectExprCalls :: "expr \<Rightarrow> string list \<Rightarrow> string list" where
  "collectExprCalls (LiteralExpr _ _ _) calls = calls"
| "collectExprCalls (IdentExpr _ _) calls = calls"
| "collectExprCalls (MemberExpr x _ _) calls = collectExprCalls x calls"
| "collectExprCalls (IndexExpr x i _) calls = collectExprCalls i (collectExprCalls x calls)"
| "collectExprCalls (CallExpr name args _) calls = fold collectExprCalls args (List.insert name calls)"
| "collectExprCalls (UnaryExpr _ x _) calls = collectExprCalls x calls"
| "collectExprCalls (BinaryExpr _ l r _) calls = collectExprCalls r (collectExprCalls l calls)"
| "collectExprCalls (ConditionalExpr c t e _) calls =
     collectExprCalls e (collectExprCalls t (collectExprCalls c calls))"
| "collectExprCalls (SwitchExpr _ v cases d _) calls =
     collectExprCalls d
       (fold (\<lambda>item calls. collectExprCalls (snd item) (collectExprCalls (fst item) calls)) cases
         (collectExprCalls v calls))"

definition ExprFields :: "unicode \<Rightarrow> string \<Rightarrow> parse_error + string list" where
  "ExprFields u source =
     (case ParseExpr u source of Inl err \<Rightarrow> Inl err | Inr e \<Rightarrow> Inr (sortedStringKeys (collectExprFields e [])))"

definition ExprCalls :: "unicode \<Rightarrow> string \<Rightarrow> parse_error + string list" where
  "ExprCalls u source =
     (case ParseExpr u source of Inl err \<Rightarrow> Inl err | Inr e \<Rightarrow> Inr (sortedStringKeys (collectExprCalls e [])))"

fun exprPath :: "expr \<Rightarrow> string" where
  "exprPath (IdentExpr name _) = name"
| "exprPath (MemberExpr x name _) = (let base = exprPath x in if base = [] then [] else base @ ''.'' @ name)"
| "exprPath (IndexExpr x _ _) = (let base = exprPath x in if base = [] then [] else base @ ''[]'')"
| "exprPath _ = []"

section \<open>Types of operators\<close>

definition isNumericType :: "ValueType \<Rightarrow> bool" where
  "isNumericType t \<longleftrightarrow> t = TypeInt \<or> t = TypeFloat"

definition compatibleNumericType :: "ValueType \<Rightarrow> ValueType \<Rightarrow> bool" where
  "compatibleNumericType l r \<longleftrightarrow> isNumericType l \<and> isNumericType r"

datatype check_message =
  UnknownValue string
| FieldOf string ValueType
| UnknownField string
| IndexType ValueType
| CannotIndex ValueType
| BuiltinCount string int
| BuiltinArg string int ValueType
| UnknownHelper string
| HelperCount string int int
| HelperArg string int ValueType ValueType
| NotRequiresBool ValueType
| MinusRequiresNumber ValueType
| UnsupportedUnary string
| RequiresNumbers string
| NilOnlyScalar string
| NotComparable string
| RequiresNumbersOrStrings string
| RequiresBools string
| UnsupportedBinary string
| CondRequiresBool ValueType
| BranchNil
| BranchMismatch string ValueType ValueType
| CaseNil
| CaseMismatch ValueType ValueType

record check_error =
  ce_message :: check_message
  ce_span :: "ExprSourceSpan option"

definition wrapExprError :: "expr \<Rightarrow> check_error \<Rightarrow> check_error" where
  "wrapExprError e err = (case ce_span err of Some _ \<Rightarrow> err | None \<Rightarrow> err\<lparr>ce_span := Some (ExprSpan e)\<rparr>)"

definition wrapped :: "expr \<Rightarrow> check_message + ValueType \<Rightarrow> check_error + ValueType" where
  "wrapped e r =
     (case r of Inl m \<Rightarrow> Inl (wrapExprError e \<lparr>ce_message = m, ce_span = None\<rparr>) | Inr t \<Rightarrow> Inr t)"

definition mergeBranchTypes :: "ValueType \<Rightarrow> ValueType \<Rightarrow> string \<Rightarrow> check_message + ValueType" where
  "mergeBranchTypes l r label =
     (if l = TypeUnknown \<or> r = TypeUnknown then Inr TypeUnknown
      else if l = r then Inr l
      else if compatibleNumericType l r then (if l = TypeFloat \<or> r = TypeFloat then Inr TypeFloat else Inr TypeInt)
      else if l = TypeNil \<or> r = TypeNil then Inl BranchNil
      else Inl (BranchMismatch label l r))"

definition checkConditionalBranches :: "ValueType \<Rightarrow> ValueType \<Rightarrow> check_message + ValueType" where
  "checkConditionalBranches thenType elseType = mergeBranchTypes thenType elseType ''if''"

definition checkSwitchCaseType :: "ValueType \<Rightarrow> ValueType \<Rightarrow> check_message option" where
  "checkSwitchCaseType v m =
     (if v = TypeUnknown \<or> m = TypeUnknown then None
      else if v = TypeNil \<or> m = TypeNil then
        (let other = (if v = TypeNil then m else v)
         in if other = TypeNil \<or> other = TypeArray \<or> other = TypeObject then Some CaseNil else None)
      else if v = m \<or> compatibleNumericType v m then None
      else Some (CaseMismatch v m))"

definition checkBinaryExpr :: "string \<Rightarrow> ValueType \<Rightarrow> ValueType \<Rightarrow> check_message + ValueType" where
  "checkBinaryExpr op l r =
     (if l = TypeUnknown \<or> r = TypeUnknown then Inr TypeUnknown
      else if op \<in> set [''+'', ''-'', ''*'', ''/'', ''%''] then
        (if op = ''+'' \<and> l = TypeString \<and> r = TypeString then Inr TypeString
         else if \<not> isNumericType l \<or> \<not> isNumericType r then Inl (RequiresNumbers op)
         else if l = TypeFloat \<or> r = TypeFloat \<or> op = ''/'' then Inr TypeFloat
         else Inr TypeInt)
      else if op = ''=='' \<or> op = ''!='' then
        (if l = TypeNil \<or> r = TypeNil then
           (let other = (if r = TypeNil then l else r)
            in if other = TypeNil \<or> other = TypeArray \<or> other = TypeObject then Inl (NilOnlyScalar op) else Inr TypeBool)
         else if l \<noteq> r \<and> l \<noteq> TypeNil \<and> r \<noteq> TypeNil then Inl (NotComparable op)
         else Inr TypeBool)
      else if op \<in> set [''<'', ''<='', ''>'', ''>=''] then
        (if isNumericType l \<and> isNumericType r then Inr TypeBool
         else if l = TypeString \<and> r = TypeString then Inr TypeBool
         else Inl (RequiresNumbersOrStrings op))
      else if op = ''&&'' \<or> op = ''||'' then
        (if l \<noteq> TypeBool \<or> r \<noteq> TypeBool then Inl (RequiresBools op) else Inr TypeBool)
      else Inl (UnsupportedBinary op))"

definition checkUnaryExpr :: "string \<Rightarrow> ValueType \<Rightarrow> check_message + ValueType" where
  "checkUnaryExpr op t =
     (if op = ''!'' then
        (if t = TypeUnknown then Inr TypeUnknown else if t \<noteq> TypeBool then Inl (NotRequiresBool t) else Inr TypeBool)
      else if op = ''-'' then
        (if t = TypeUnknown then Inr TypeUnknown else if \<not> isNumericType t then Inl (MinusRequiresNumber t) else Inr t)
      else Inl (UnsupportedUnary op))"

section \<open>Built-ins\<close>

text \<open>
  The number of arguments of a built-in, which types its arguments may have, and the type of its result.
\<close>

definition string_arg :: "ValueType \<Rightarrow> bool" where
  "string_arg t \<longleftrightarrow> t = TypeUnknown \<or> t = TypeString"

definition number_arg :: "ValueType \<Rightarrow> bool" where
  "number_arg t \<longleftrightarrow> t = TypeUnknown \<or> isNumericType t"

definition builtin :: "string \<Rightarrow> (nat \<times> (nat \<Rightarrow> ValueType \<Rightarrow> bool) \<times> ValueType) option" where
  "builtin name =
     (if name = ''len'' then Some (1, \<lambda>_ t. t = TypeUnknown \<or> t = TypeString \<or> t = TypeArray, TypeInt)
      else if name = ''lower'' \<or> name = ''upper'' then Some (1, \<lambda>_. string_arg, TypeString)
      else if name = ''contains'' then Some (2, \<lambda>_. string_arg, TypeBool)
      else if name = ''string'' then Some (1, \<lambda>_ t. t \<noteq> TypeArray \<and> t \<noteq> TypeObject, TypeString)
      else if name = ''int'' then Some (1, \<lambda>_ t. string_arg t \<or> number_arg t, TypeInt)
      else if name = ''float'' then Some (1, \<lambda>_ t. string_arg t \<or> number_arg t, TypeFloat)
      else if name = ''fixed'' \<or> name = ''percent'' then
        Some (2, \<lambda>i t. if i = 0 then number_arg t else t = TypeUnknown \<or> t = TypeInt, TypeString)
      else if name = ''round'' then
        Some (2, \<lambda>i t. if i = 0 then number_arg t else t = TypeUnknown \<or> t = TypeInt, TypeFloat)
      else if name = ''formatTime'' then Some (2, \<lambda>i t. if i = 0 then number_arg t else string_arg t, TypeString)
      else None)"

record ExprFunction =
  ef_Params :: "ValueType list"
  ef_Return :: ValueType

type_synonym symbols = "string \<Rightarrow> ValueType option"
type_synonym helpers = "string \<Rightarrow> ExprFunction option"

text \<open>What a call requires of its arguments: an error for the argument, or \<open>None\<close>.\<close>

definition builtin_test :: "string \<Rightarrow> (nat \<Rightarrow> ValueType \<Rightarrow> bool) \<Rightarrow> nat \<Rightarrow> expr \<Rightarrow> ValueType \<Rightarrow> check_error option" where
  "builtin_test name ok i arg actual =
     (if ok i actual then None else Some \<lparr>ce_message = BuiltinArg name (int i + 1) actual, ce_span = None\<rparr>)"

definition helper_test :: "string \<Rightarrow> ValueType list \<Rightarrow> nat \<Rightarrow> expr \<Rightarrow> ValueType \<Rightarrow> check_error option" where
  "helper_test name params i arg actual =
     (let expected = params ! i
      in if expected \<noteq> TypeUnknown \<and> actual \<noteq> TypeUnknown \<and> expected \<noteq> actual \<and> \<not> compatibleNumericType actual expected
         then Some \<lparr>ce_message = HelperArg name (int i + 1) expected actual, ce_span = Some (ExprSpan arg)\<rparr>
         else None)"

section \<open>The checker\<close>

abbreviation fail :: "expr \<Rightarrow> check_message \<Rightarrow> check_error + ValueType" where
  "fail e m \<equiv> wrapped e (Inl m)"

definition member_type :: "symbols \<Rightarrow> expr \<Rightarrow> string \<Rightarrow> ValueType \<Rightarrow> check_error + ValueType" where
  "member_type symbols e name base =
     (let path = exprPath e
      in case (if path \<noteq> [] then symbols path else None) of
           Some t \<Rightarrow> Inr t
         | None \<Rightarrow>
             if base = TypeUnknown then Inr TypeUnknown
             else if base \<noteq> TypeObject \<and> base \<noteq> TypeArray then fail e (FieldOf name base)
             else if path \<noteq> [] then fail e (UnknownValue path)
             else fail e (UnknownField name))"

definition index_type :: "symbols \<Rightarrow> expr \<Rightarrow> expr \<Rightarrow> expr \<Rightarrow> ValueType \<Rightarrow> ValueType \<Rightarrow> check_error + ValueType" where
  "index_type symbols e x i base index =
     (if index \<noteq> TypeUnknown \<and> index \<noteq> TypeInt then fail i (IndexType index)
      else
        let path = exprPath e
        in case (if path \<noteq> [] then symbols path else None) of
             Some t \<Rightarrow> Inr t
           | None \<Rightarrow>
               if base = TypeUnknown then Inr TypeUnknown
               else if base \<noteq> TypeArray then fail x (CannotIndex base)
               else if path \<noteq> [] then fail e (UnknownValue path)
               else Inr TypeUnknown)"

type_synonym 'a cresult = "(check_error + 'a) \<times> string list"

definition bindc :: "'a cresult \<Rightarrow> ('a \<Rightarrow> string list \<Rightarrow> 'b cresult) \<Rightarrow> 'b cresult" where
  "bindc r g = (case r of (Inl err, flds) \<Rightarrow> (Inl err, flds) | (Inr x, flds) \<Rightarrow> g x flds)"

lemma bindc_cong [fundef_cong]:
  "r = r' \<Longrightarrow> (\<And>x flds. r' = (Inr x, flds) \<Longrightarrow> g x flds = g' x flds) \<Longrightarrow> bindc r g = bindc r' g'"
  by (cases r'; cases "fst r'") (auto simp: bindc_def)

fun check_args ::
  "(expr \<Rightarrow> string list \<Rightarrow> ValueType cresult) \<Rightarrow> (nat \<Rightarrow> expr \<Rightarrow> ValueType \<Rightarrow> check_error option) \<Rightarrow> nat \<Rightarrow> expr list \<Rightarrow>
   string list \<Rightarrow> unit cresult" where
  "check_args check test n [] flds = (Inr (), flds)"
| "check_args check test n (arg # args) flds =
     bindc (check arg flds) (\<lambda>actual flds.
       case test n arg actual of
         Some err \<Rightarrow> (Inl err, flds)
       | None \<Rightarrow> check_args check test (Suc n) args flds)"

fun check_cases ::
  "(expr \<Rightarrow> string list \<Rightarrow> ValueType cresult) \<Rightarrow> string \<Rightarrow> ValueType \<Rightarrow> ValueType option \<Rightarrow> (expr \<times> expr) list \<Rightarrow>
   string list \<Rightarrow> ValueType option cresult" where
  "check_cases check keyword valueType branchType [] flds = (Inr branchType, flds)"
| "check_cases check keyword valueType branchType ((m, v) # cases) flds =
     bindc (check m flds) (\<lambda>matchType flds.
       case checkSwitchCaseType valueType matchType of
         Some err \<Rightarrow> (Inl \<lparr>ce_message = err, ce_span = Some (ExprSpan m)\<rparr>, flds)
       | None \<Rightarrow>
           bindc (check v flds) (\<lambda>caseType flds.
             case branchType of
               None \<Rightarrow> check_cases check keyword valueType (Some caseType) cases flds
             | Some t \<Rightarrow>
                 (case mergeBranchTypes t caseType keyword of
                    Inl err \<Rightarrow> (Inl \<lparr>ce_message = err, ce_span = Some (ExprSpan v)\<rparr>, flds)
                  | Inr t' \<Rightarrow> check_cases check keyword valueType (Some t') cases flds)))"

lemma check_args_cong [fundef_cong]:
  assumes "args = args'" "flds = flds'" "\<And>a fs. a \<in> set args' \<Longrightarrow> check a fs = check' a fs"
  shows "check_args check test n args flds = check_args check' test n args' flds'"
  using assms(3) unfolding assms(1,2)
  by (induction check test n args' flds' rule: check_args.induct) (auto intro!: bindc_cong split: option.splits)

lemma check_cases_cong [fundef_cong]:
  assumes "cases = cases'" "flds = flds'" "\<And>m v fs. (m, v) \<in> set cases' \<Longrightarrow> check m fs = check' m fs"
    and "\<And>m v fs. (m, v) \<in> set cases' \<Longrightarrow> check v fs = check' v fs"
  shows "check_cases check keyword t b cases flds = check_cases check' keyword t b cases' flds'"
  using assms(3,4) unfolding assms(1,2)
proof (induction cases' arbitrary: b flds')
  case (Cons c cases)
  obtain m v where c: "c = (m, v)" by fastforce
  have "check m = check' m" using Cons.prems(1) [of m v] c by auto
  moreover have "check v = check' v" using Cons.prems(2) [of m v] c by auto
  moreover have "check_cases check keyword t b' cases fs = check_cases check' keyword t b' cases fs" for b' fs
    using Cons.IH Cons.prems by (metis list.set_intros(2))
  ultimately show ?case unfolding c check_cases.simps by presburger
qed simp

fun checkExpr :: "symbols \<Rightarrow> helpers \<Rightarrow> expr \<Rightarrow> string list \<Rightarrow> ValueType cresult" where
  "checkExpr symbols funs (LiteralExpr t v s) flds = (Inr t, flds)"
| "checkExpr symbols funs (IdentExpr name s) flds =
     (case symbols name of
        None \<Rightarrow> (fail (IdentExpr name s) (UnknownValue name), flds)
      | Some t \<Rightarrow> (Inr t, List.insert name flds))"
| "checkExpr symbols funs (MemberExpr x name s) flds =
     bindc (checkExpr symbols funs x flds) (\<lambda>base flds.
       (member_type symbols (MemberExpr x name s) name base, flds))"
| "checkExpr symbols funs (IndexExpr x i s) flds =
     bindc (checkExpr symbols funs x flds) (\<lambda>base flds.
     bindc (checkExpr symbols funs i flds) (\<lambda>index flds.
       (index_type symbols (IndexExpr x i s) x i base index, flds)))"
| "checkExpr symbols funs (CallExpr name args s) flds =
     (case builtin name of
        Some (arity, ok, result) \<Rightarrow>
          if length args \<noteq> arity then (fail (CallExpr name args s) (BuiltinCount name (int (length args))), flds)
          else
            (case check_args (checkExpr symbols funs) (builtin_test name ok) 0 args flds of
               (Inl err, flds) \<Rightarrow> (Inl (wrapExprError (CallExpr name args s) err), flds)
             | (Inr _, flds) \<Rightarrow> (Inr result, flds))
      | None \<Rightarrow>
          (case funs name of
             None \<Rightarrow> (fail (CallExpr name args s) (UnknownHelper name), flds)
           | Some f \<Rightarrow>
               if length args \<noteq> length (ef_Params f)
               then (fail (CallExpr name args s) (HelperCount name (int (length (ef_Params f))) (int (length args))), flds)
               else bindc (check_args (checkExpr symbols funs) (helper_test name (ef_Params f)) 0 args flds) (\<lambda>_ flds.
                 (Inr (ef_Return f), flds))))"
| "checkExpr symbols funs (UnaryExpr op x s) flds =
     bindc (checkExpr symbols funs x flds) (\<lambda>t flds.
       (wrapped (if op = ''!'' \<or> op = ''-'' then x else UnaryExpr op x s) (checkUnaryExpr op t), flds))"
| "checkExpr symbols funs (BinaryExpr op l r s) flds =
     bindc (checkExpr symbols funs l flds) (\<lambda>left flds.
     bindc (checkExpr symbols funs r flds) (\<lambda>right flds.
       (wrapped (BinaryExpr op l r s) (checkBinaryExpr op left right), flds)))"
| "checkExpr symbols funs (ConditionalExpr c t e s) flds =
     bindc (checkExpr symbols funs c flds) (\<lambda>cond flds.
       if cond \<noteq> TypeUnknown \<and> cond \<noteq> TypeBool then (fail c (CondRequiresBool cond), flds)
       else
         bindc (checkExpr symbols funs t flds) (\<lambda>thenType flds.
         bindc (checkExpr symbols funs e flds) (\<lambda>elseType flds.
           (wrapped (ConditionalExpr c t e s) (checkConditionalBranches thenType elseType), flds))))"
| "checkExpr symbols funs (SwitchExpr keyword v cases d s) flds =
     bindc (checkExpr symbols funs v flds) (\<lambda>valueType flds.
     bindc (check_cases (checkExpr symbols funs) keyword valueType None cases flds) (\<lambda>branchType flds.
     bindc (checkExpr symbols funs d flds) (\<lambda>defaultType flds.
       (wrapped (SwitchExpr keyword v cases d s)
          (mergeBranchTypes (case branchType of None \<Rightarrow> TypeUnknown | Some t \<Rightarrow> t) defaultType keyword), flds))))"

datatype expr_error = ParseFailed parse_error | CheckFailed check_error

definition CheckExprWithFunctions ::
  "unicode \<Rightarrow> string \<Rightarrow> symbols \<Rightarrow> helpers \<Rightarrow> expr_error + ValueType \<times> string list" where
  "CheckExprWithFunctions u source symbols funs =
     (case ParseExpr u source of
        Inl err \<Rightarrow> Inl (ParseFailed err)
      | Inr e \<Rightarrow>
          (case checkExpr symbols funs e [] of
             (Inl err, _) \<Rightarrow> Inl (CheckFailed err)
           | (Inr t, flds) \<Rightarrow> Inr (t, sortedStringKeys flds)))"

definition CheckExpr :: "unicode \<Rightarrow> string \<Rightarrow> symbols \<Rightarrow> expr_error + ValueType \<times> string list" where
  "CheckExpr u source symbols = CheckExprWithFunctions u source symbols (\<lambda>_. None)"

section \<open>The canonical form\<close>

fun canonicalExpr :: "(string \<Rightarrow> string) \<Rightarrow> expr \<Rightarrow> string" where
  "canonicalExpr Quote (LiteralExpr t v _) =
     (if t = TypeString then (case Unquote v of Some s \<Rightarrow> Quote s | None \<Rightarrow> v) else v)"
| "canonicalExpr Quote (IdentExpr name _) = name"
| "canonicalExpr Quote (MemberExpr x name _) = canonicalExpr Quote x @ ''.'' @ name"
| "canonicalExpr Quote (IndexExpr x i _) = canonicalExpr Quote x @ ''['' @ canonicalExpr Quote i @ '']''"
| "canonicalExpr Quote (CallExpr name args _) = name @ ''('' @ Join (map (canonicalExpr Quote) args) '','' @ '')''"
| "canonicalExpr Quote (UnaryExpr op x _) = op @ canonicalExpr Quote x"
| "canonicalExpr Quote (BinaryExpr op l r _) =
     ''('' @ canonicalExpr Quote l @ '' '' @ op @ '' '' @ canonicalExpr Quote r @ '')''"
| "canonicalExpr Quote (ConditionalExpr c t e _) =
     ''if '' @ canonicalExpr Quote c @ '' { '' @ canonicalExpr Quote t @ '' } else { '' @ canonicalExpr Quote e @ '' }''"
| "canonicalExpr Quote (SwitchExpr _ v cases d _) =
     Join
       ([''switch '' @ canonicalExpr Quote v @ '' {''] @
        map (\<lambda>item. ''case '' @ canonicalExpr Quote (fst item) @ '': '' @ canonicalExpr Quote (snd item)) cases @
        [''default: '' @ canonicalExpr Quote d, ''}'']) '' ''"

definition CanonicalExpr :: "(string \<Rightarrow> string) \<Rightarrow> unicode \<Rightarrow> string \<Rightarrow> parse_error + string" where
  "CanonicalExpr Quote u source =
     (case ParseExpr u source of Inl err \<Rightarrow> Inl err | Inr e \<Rightarrow> Inr (canonicalExpr Quote e))"


section \<open>The names the checker reports\<close>

lemma bindc_Inr: "bindc r g = (Inr y, fs') \<longleftrightarrow> (\<exists>x fs. r = (Inr x, fs) \<and> g x fs = (Inr y, fs'))"
  by (cases r; cases "fst r") (auto simp: bindc_def)

lemma wrapped_Inr: "wrapped e r = Inr t \<longleftrightarrow> r = Inr t"
  by (simp add: wrapped_def split: sum.splits)

lemmas check_success = bindc_Inr wrapped_Inr

lemma check_args_ConsE:
  assumes "check_args check test n (a # args) fs = (Inr r, fs')"
  obtains t fs1 where "check a fs = (Inr t, fs1)" "test n a t = None" "check_args check test (Suc n) args fs1 = (Inr r, fs')"
  using assms by (auto simp: bindc_Inr split: option.split_asm)

lemma check_cases_ConsE:
  assumes "check_cases check keyword t b ((m, v) # cases) fs = (Inr r, fs')"
  obtains tm fs1 tv fs2 b' where "check m fs = (Inr tm, fs1)" "checkSwitchCaseType t tm = None" "check v fs1 = (Inr tv, fs2)"
    "check_cases check keyword t (Some b') cases fs2 = (Inr r, fs')"
    "b' = tv \<and> b = None \<or> (\<exists>b0. b = Some b0 \<and> mergeBranchTypes b0 tv keyword = Inr b')"
proof -
  let ?rest = "\<lambda>caseType flds. case b of
         None \<Rightarrow> check_cases check keyword t (Some caseType) cases flds
       | Some t' \<Rightarrow> (case mergeBranchTypes t' caseType keyword of
           Inl err \<Rightarrow> (Inl \<lparr>ce_message = err, ce_span = Some (ExprSpan v)\<rparr>, flds)
         | Inr t'' \<Rightarrow> check_cases check keyword t (Some t'') cases flds)"
  from assms obtain tm fs1 where m: "check m fs = (Inr tm, fs1)"
      "(case checkSwitchCaseType t tm of
          Some err \<Rightarrow> (Inl \<lparr>ce_message = err, ce_span = Some (ExprSpan m)\<rparr>, fs1)
        | None \<Rightarrow> bindc (check v fs1) ?rest) = (Inr r, fs')"
    by (auto simp only: check_cases.simps bindc_Inr)
  then have case_ok: "checkSwitchCaseType t tm = None" by (cases "checkSwitchCaseType t tm") auto
  with m(2) obtain tv fs2 where v: "check v fs1 = (Inr tv, fs2)" "?rest tv fs2 = (Inr r, fs')"
    by (auto simp only: bindc_Inr option.case)
  show thesis
  proof (cases b)
    case None
    with v(2) that [OF m(1) case_ok v(1), of tv] show thesis by simp
  next
    case (Some b0)
    with v(2) obtain b' where "mergeBranchTypes b0 tv keyword = Inr b'" "check_cases check keyword t (Some b') cases fs2 = (Inr r, fs')"
      by (auto split: sum.split_asm)
    with Some that [OF m(1) case_ok v(1), of b'] show thesis by simp
  qed
qed

lemma check_args_fold:
  assumes "\<And>a fs t fs'. a \<in> set args \<Longrightarrow> check a fs = (Inr t, fs') \<Longrightarrow> fs' = f a fs"
    and "check_args check test n args fs = (Inr r, fs')"
  shows "fs' = fold f args fs"
  using assms
proof (induction args arbitrary: n fs)
  case (Cons a args)
  from Cons.prems(2) obtain t fs1 where s: "check a fs = (Inr t, fs1)" "check_args check test (Suc n) args fs1 = (Inr r, fs')"
    by (rule check_args_ConsE)
  have "fs' = fold f args fs1" by (rule Cons.IH [OF _ s(2)]) (rule Cons.prems(1), simp_all)
  with Cons.prems(1) [OF _ s(1)] show ?case by simp
qed simp

lemma check_cases_fold:
  assumes "\<And>m v fs t fs'. (m, v) \<in> set cases \<Longrightarrow> check m fs = (Inr t, fs') \<Longrightarrow> fs' = f m fs"
    and "\<And>m v fs t fs'. (m, v) \<in> set cases \<Longrightarrow> check v fs = (Inr t, fs') \<Longrightarrow> fs' = f v fs"
    and "check_cases check keyword t b cases fs = (Inr r, fs')"
  shows "fs' = fold (\<lambda>item fs. f (snd item) (f (fst item) fs)) cases fs"
  using assms
proof (induction cases arbitrary: b fs)
  case (Cons c cases)
  obtain m v where c: "c = (m, v)" by fastforce
  from Cons.prems(3) obtain tm fs1 tv fs2 b' where s: "check m fs = (Inr tm, fs1)" "check v fs1 = (Inr tv, fs2)"
      "check_cases check keyword t (Some b') cases fs2 = (Inr r, fs')"
    unfolding c by (rule check_cases_ConsE)
  have "fs' = fold (\<lambda>item fs. f (snd item) (f (fst item) fs)) cases fs2"
    by (rule Cons.IH [OF _ _ s(3)]) (use Cons.prems(1,2) in \<open>meson list.set_intros(2)\<close>)+
  moreover have "fs1 = f m fs" using Cons.prems(1) [of m v, OF _ s(1)] c by simp
  moreover have "fs2 = f v fs1" using Cons.prems(2) [of m v, OF _ s(2)] c by simp
  ultimately show ?case by (simp add: c)
qed simp

lemma checkExpr_collects: "checkExpr symbols funs e fs = (Inr t, fs') \<Longrightarrow> fs' = collectExprFields e fs"
proof (induction e arbitrary: fs t fs')
  case (CallExpr name args s)
  have fold: "fs' = fold collectExprFields args fs"
    if "check_args (checkExpr symbols funs) test n args fs = (Inr r, fs')" for test n fs fs' r
    by (rule check_args_fold [OF _ that]) (rule CallExpr.IH)
  show ?case
  proof (cases "builtin name")
    case None
    with CallExpr.prems fold show ?thesis by (auto simp: check_success split: option.splits if_splits)
  next
    case (Some b)
    obtain arity ok result where b: "b = (arity, ok, result)" by (cases b)
    with Some CallExpr.prems fold show ?thesis
      by (auto simp: wrapped_Inr split: if_splits prod.splits sum.splits)
  qed
next
  case (SwitchExpr keyword v cases d s)
  have fold: "fs' = fold (\<lambda>item fs. collectExprFields (snd item) (collectExprFields (fst item) fs)) cases fs"
    if "check_cases (checkExpr symbols funs) keyword vt b cases fs = (Inr r, fs')" for vt b fs fs' r
    by (rule check_cases_fold [OF _ _ that]) (use SwitchExpr.IH(2,3) in \<open>fastforce+\<close>)
  from SwitchExpr.prems obtain vt fs1 bt fs2 dt fs3 where "checkExpr symbols funs v fs = (Inr vt, fs1)"
      "check_cases (checkExpr symbols funs) keyword vt None cases fs1 = (Inr bt, fs2)"
      "checkExpr symbols funs d fs2 = (Inr dt, fs3)" "fs' = fs3"
    by (auto simp: check_success)
  with SwitchExpr.IH(1) [of fs vt fs1] SwitchExpr.IH(4) [of fs2 dt fs3] fold show ?case by simp
qed (auto simp: check_success split: option.splits if_splits)

lemma shift_sorted: "sorted (rev vs) \<Longrightarrow> sorted (rev (shift item vs))"
proof (induction vs)
  case (Cons v vs)
  have m: "set (shift item vs) = insert item (set vs)" by (induction vs) auto
  show ?case using Cons m by (auto simp: sorted_append)
qed simp

lemma shift_mset: "mset (shift item vs) = add_mset item (mset vs)"
  by (induction vs) auto

lemma sortStrings_sort: "sortStrings xs = sort xs"
proof -
  have "sorted (rev (fold shift xs acc)) \<and> mset (fold shift xs acc) = mset xs + mset acc"
    if "sorted (rev acc)" for acc
    using that by (induction xs arbitrary: acc) (auto simp: shift_sorted shift_mset)
  from this [of "[]"] have "sorted (sortStrings xs)" "mset (sortStrings xs) = mset xs"
    by (simp_all add: sortStrings_def)
  then show ?thesis by (metis properties_for_sort)
qed



lemma collect_args_keeps:
  assumes "\<And>a fs. a \<in> set args \<Longrightarrow> P fs \<Longrightarrow> P (f a fs)" "P fs"
  shows "P (fold f args fs)"
  using assms by (induction args arbitrary: fs) auto

lemma collect_distinct: "distinct fs \<Longrightarrow> distinct (collectExprFields e fs)"
proof (induction e arbitrary: fs)
  case (SwitchExpr keyword v cases d s)
  have "distinct (fold (\<lambda>item fs. collectExprFields (snd item) (collectExprFields (fst item) fs)) cases (collectExprFields v fs))"
    by (rule collect_args_keeps [where P = distinct]) (use SwitchExpr in \<open>auto intro: SwitchExpr.IH(2) SwitchExpr.IH(3)\<close>)
  then show ?case using SwitchExpr.IH(4) by simp
qed (auto intro!: collect_args_keeps [where P = distinct])


text \<open>
  C24: The names that the type checker reports for an expression it accepts are the names of the
  expression itself: the ones \<open>ExprFields\<close> gives without types, sorted and without repetitions.\<close>

theorem CheckExpr_fields:
  assumes "CheckExprWithFunctions u source symbols funs = Inr (t, names)"
  shows "ExprFields u source = Inr names \<and> sorted names \<and> distinct names"
proof -
  from assms obtain e fs where e: "ParseExpr u source = Inr e" "checkExpr symbols funs e [] = (Inr t, fs)" "names = sortedStringKeys fs"
    by (auto simp: CheckExprWithFunctions_def split: sum.splits prod.splits)
  have "fs = collectExprFields e []" using checkExpr_collects [OF e(2)] .
  moreover have "distinct (collectExprFields e [])" using collect_distinct [of "[]"] by simp
  ultimately show ?thesis using e(1,3) by (simp add: ExprFields_def sortedStringKeys_def sortStrings_sort)
qed


theorem CheckExpr_fields_witness:
  "CheckExprWithFunctions ascii ''b+a'' [''a'' \<mapsto> TypeInt, ''b'' \<mapsto> TypeInt] (\<lambda>_. None) = Inr (TypeInt, [''a'', ''b'']) \<and>
   ExprFields ascii ''b+a'' = Inr [''a'', ''b'']"
proof -
  have "CheckExprWithFunctions ascii ''b+a'' [''a'' \<mapsto> TypeInt, ''b'' \<mapsto> TypeInt] (\<lambda>_. None) = Inr (TypeInt, [''a'', ''b''])"
    by code_simp
  with CheckExpr_fields [OF this] show ?thesis by simp
qed

text \<open>
  C25: The canonical form drops the parentheses around a negated operand: two expressions with one
  canonical form, of which the checker accepts one and rejects the other.\<close>

theorem canonical_collision:
  "CanonicalExpr Quote ascii ''(-a).x'' = Inr ''-a.x'' \<and> CanonicalExpr Quote ascii ''-a.x'' = Inr ''-a.x'' \<and>
   CheckExpr ascii ''-a.x'' [''a'' \<mapsto> TypeObject, ''a.x'' \<mapsto> TypeInt] = Inr (TypeInt, [''a'']) \<and>
   (\<exists>err. CheckExpr ascii ''(-a).x'' [''a'' \<mapsto> TypeObject, ''a.x'' \<mapsto> TypeInt] = Inl (CheckFailed err))"
proof -
  have "CanonicalExpr Quote ascii ''(-a).x'' = Inr ''-a.x''" "CanonicalExpr Quote ascii ''-a.x'' = Inr ''-a.x''"
      "CheckExpr ascii ''-a.x'' [''a'' \<mapsto> TypeObject, ''a.x'' \<mapsto> TypeInt] = Inr (TypeInt, [''a''])"
      "CheckExpr ascii ''(-a).x'' [''a'' \<mapsto> TypeObject, ''a.x'' \<mapsto> TypeInt] =
         Inl (CheckFailed \<lparr>ce_message = MinusRequiresNumber TypeObject, ce_span = Some \<lparr>StartColumn = 3, EndColumn = 4\<rparr>\<rparr>)"
    by code_simp+
  then show ?thesis by blast
qed

end
