(* ===== verification/ExprFormat.thy ===== *)
theory ExprFormat
  imports Http "HOL-Library.Signed_Division"
begin

text \<open>
  \<open>internal/clientlang/expr_format.go\<close>: the deterministic formatting and date built-ins of client expressions.

  A \<open>float64\<close> is a value of a type parameter, and the operations of the language and of packages \<open>math\<close>
  and \<open>strconv\<close> on it are the fields of a record. The integer arithmetic of the dates is the truncating
  division of the code; the timestamps are bounded by \<open>maxSafeInteger\<close> before it, so that nothing
  overflows 64 bits.
\<close>

section \<open>Floating-point operations\<close>

record 'f floats =
  f_of_int :: "int \<Rightarrow> 'f"
  f_int :: "'f \<Rightarrow> int"
  f_half :: 'f
  f_add :: "'f \<Rightarrow> 'f \<Rightarrow> 'f"
  f_sub :: "'f \<Rightarrow> 'f \<Rightarrow> 'f"
  f_mul :: "'f \<Rightarrow> 'f \<Rightarrow> 'f"
  f_div :: "'f \<Rightarrow> 'f \<Rightarrow> 'f"
  f_neg :: "'f \<Rightarrow> 'f"
  f_floor :: "'f \<Rightarrow> 'f"
  f_trunc :: "'f \<Rightarrow> 'f"
  f_abs :: "'f \<Rightarrow> 'f"
  f_eq :: "'f \<Rightarrow> 'f \<Rightarrow> bool"
  f_lt :: "'f \<Rightarrow> 'f \<Rightarrow> bool"
  f_le :: "'f \<Rightarrow> 'f \<Rightarrow> bool"
  f_finite :: "'f \<Rightarrow> bool"
  f_parse :: "string \<Rightarrow> 'f option"
  f_format :: "'f \<Rightarrow> string"
  f_digits :: "'f \<Rightarrow> string"

datatype format_error = DigitsRange string | NotFinite string | TooLarge | NotIntegerTime | TimeOutOfRange

definition maxFormatDigits :: int where
  "maxFormatDigits = 20"

definition maxSafeInteger :: int where
  "maxSafeInteger = 9007199254740991"

fun formatScale :: "'f floats \<Rightarrow> nat \<Rightarrow> 'f" where
  "formatScale F 0 = f_of_int F 1"
| "formatScale F (Suc n) = f_mul F (formatScale F n) (f_of_int F 10)"

definition roundHalfAway :: "'f floats \<Rightarrow> 'f \<Rightarrow> 'f" where
  "roundHalfAway F v =
     (if f_lt F v (f_of_int F 0) then f_neg F (f_floor F (f_add F (f_neg F v) (f_half F)))
      else f_floor F (f_add F v (f_half F)))"

definition isAllZeroDigits :: "string \<Rightarrow> bool" where
  "isAllZeroDigits s \<longleftrightarrow> list_all (\<lambda>c. c = CHR ''0'' \<or> c = CHR ''.'') s"

text \<open>\<open>for len(rawDigits) <= digits { rawDigits = "0" + rawDigits }\<close> and its variant with \<open><\<close>\<close>

definition pad_left :: "nat \<Rightarrow> string \<Rightarrow> string" where
  "pad_left width s = replicate (width - length s) CHR ''0'' @ s"

definition formatFixed :: "'f floats \<Rightarrow> 'f \<Rightarrow> int \<Rightarrow> format_error + string" where
  "formatFixed F v digits =
     (if digits < 0 \<or> digits > maxFormatDigits then Inl (DigitsRange ''fixed'')
      else if \<not> f_finite F v then Inl (NotFinite ''fixed'')
      else
        let scale = formatScale F (nat digits);
            negative = f_lt F v (f_of_int F 0);
            scaled = roundHalfAway F (f_mul F (f_abs F v) scale)
        in if f_lt F (f_of_int F maxSafeInteger) scaled then Inl TooLarge
           else
             let rawDigits = f_digits F scaled;
                 out = (if digits = 0 then rawDigits
                        else let padded = pad_left (nat digits + 1) rawDigits;
                                 split = length padded - nat digits
                             in take split padded @ ''.'' @ drop split padded)
             in Inr (if negative \<and> \<not> isAllZeroDigits out then CHR ''-'' # out else out))"

definition roundTo :: "'f floats \<Rightarrow> 'f \<Rightarrow> int \<Rightarrow> format_error + 'f" where
  "roundTo F v digits =
     (if digits < 0 \<or> digits > maxFormatDigits then Inl (DigitsRange ''round'')
      else if \<not> f_finite F v then Inl (NotFinite ''round'')
      else
        let scale = formatScale F (nat digits);
            rounded = f_div F (roundHalfAway F (f_mul F v scale)) scale
        in Inr (if f_eq F rounded (f_of_int F 0) then f_of_int F 0 else rounded))"

definition formatPercent :: "'f floats \<Rightarrow> 'f \<Rightarrow> int \<Rightarrow> format_error + string" where
  "formatPercent F v digits =
     (case formatFixed F (f_mul F v (f_of_int F 100)) digits of
        Inl err \<Rightarrow> Inl err
      | Inr s \<Rightarrow> Inr (s @ ''%''))"

section \<open>Dates\<close>

definition floorDivInt :: "int \<Rightarrow> int \<Rightarrow> int" where
  "floorDivInt n d =
     (let q = n sdiv d in if n smod d \<noteq> 0 \<and> (n < 0) \<noteq> (d < 0) then q - 1 else q)"

definition civilFromDays :: "int \<Rightarrow> int \<times> int \<times> int" where
  "civilFromDays days =
     (let z = days + 719468;
          era = floorDivInt z 146097;
          doe = z - era * 146097;
          yoe = (doe - doe sdiv 1460 + doe sdiv 36524 - doe sdiv 146096) sdiv 365;
          y = yoe + era * 400;
          doy = doe - (365 * yoe + yoe sdiv 4 - yoe sdiv 100);
          mp = (5 * doy + 2) sdiv 153;
          day = doy - (153 * mp + 2) sdiv 5 + 1;
          month = (if mp < 10 then mp + 3 else mp - 9)
      in (if month \<le> 2 then y + 1 else y, month, day))"

definition padNumber :: "int \<Rightarrow> nat \<Rightarrow> string" where
  "padNumber v width =
     (let digits = pad_left width (Itoa (if v < 0 then - v else v))
      in if v < 0 then CHR ''-'' # digits else digits)"

fun expandTimeLayout :: "string \<Rightarrow> int \<Rightarrow> int \<Rightarrow> int \<Rightarrow> int \<Rightarrow> int \<Rightarrow> int \<Rightarrow> string" where
  "expandTimeLayout [] year month day hour minute second = []"
| "expandTimeLayout (c # layout) year month day hour minute second =
     (let s = c # layout
      in if HasPrefix s ''YYYY'' then padNumber year 4 @ expandTimeLayout (drop 3 layout) year month day hour minute second
         else if HasPrefix s ''MM'' then padNumber month 2 @ expandTimeLayout (drop 1 layout) year month day hour minute second
         else if HasPrefix s ''DD'' then padNumber day 2 @ expandTimeLayout (drop 1 layout) year month day hour minute second
         else if HasPrefix s ''HH'' then padNumber hour 2 @ expandTimeLayout (drop 1 layout) year month day hour minute second
         else if HasPrefix s ''mm'' then padNumber minute 2 @ expandTimeLayout (drop 1 layout) year month day hour minute second
         else if HasPrefix s ''ss'' then padNumber second 2 @ expandTimeLayout (drop 1 layout) year month day hour minute second
         else c # expandTimeLayout layout year month day hour minute second)"

text \<open>The part of \<open>formatUnixTime\<close> after the timestamp has been found to be a whole number in range.\<close>

definition format_seconds :: "int \<Rightarrow> string \<Rightarrow> string" where
  "format_seconds seconds layout =
     (let days = floorDivInt seconds 86400;
          secondOfDay = seconds - days * 86400;
          hour = secondOfDay sdiv 3600;
          minute = (secondOfDay sdiv 60) smod 60;
          second = secondOfDay smod 60
      in case civilFromDays days of
           (year, month, day) \<Rightarrow> expandTimeLayout layout year month day hour minute second)"

definition formatUnixTime :: "'f floats \<Rightarrow> 'f \<Rightarrow> string \<Rightarrow> format_error + string" where
  "formatUnixTime F unix layout =
     (if \<not> f_finite F unix \<or> \<not> f_eq F unix (f_floor F unix) then Inl NotIntegerTime
      else if f_lt F (f_of_int F maxSafeInteger) (f_abs F unix) then Inl TimeOutOfRange
      else Inr (format_seconds (f_int F unix) layout))"

section \<open>The calendar\<close>

definition leap :: "int \<Rightarrow> bool" where
  "leap y \<longleftrightarrow> y mod 4 = 0 \<and> (y mod 100 \<noteq> 0 \<or> y mod 400 = 0)"

definition days_in_month :: "int \<Rightarrow> int \<Rightarrow> int" where
  "days_in_month y m =
     (if m = 2 then (if leap y then 29 else 28) else if m = 4 \<or> m = 6 \<or> m = 9 \<or> m = 11 then 30 else 31)"

fun next_date :: "int \<times> int \<times> int \<Rightarrow> int \<times> int \<times> int" where
  "next_date (y, m, d) =
     (if d < days_in_month y m then (y, m, d + 1) else if m < 12 then (y, m + 1, 1) else (y + 1, 1, 1))"


section \<open>Civil dates\<close>

lemma sdiv_nonneg: "0 \<le> a \<Longrightarrow> 0 < b \<Longrightarrow> (a :: int) sdiv b = a div b"
  by (simp add: signed_divide_int_def sgn_if)

lemma floorDivInt_div:
  assumes "0 < d"
  shows "floorDivInt n d = n div d"
proof (cases "0 \<le> n")
  case True
  with assms show ?thesis by (simp add: floorDivInt_def sdiv_nonneg)
next
  case False
  then have n: "n sdiv d = - ((- n) div d)" "n smod d = - ((- n) mod d)"
    using assms by (simp_all add: signed_divide_int_def signed_modulo_int_def sgn_if abs_if)
  show ?thesis
    using assms False n zdiv_zminus1_eq_if [of d "- n"] by (simp add: floorDivInt_def Let_def zmod_zminus1_eq_if)
qed

text \<open>The days before the year \<open>y\<close> of an era, counted from March, and the code's formula for the year of a day.\<close>

definition year_start :: "int \<Rightarrow> int" where
  "year_start y = (if y = 400 then 146097 else 365 * y + y div 4 - y div 100)"

definition year_sum :: "int \<Rightarrow> int" where
  "year_sum d = d - d div 1460 + d div 36524 - d div 146096"

lemma div_step:
  assumes "0 < (k :: int)"
  shows "(d + 1) div k = d div k + (if (d + 1) mod k = 0 then 1 else 0)"
proof (cases "d mod k + 1 = k")
  case True
  have "d + 1 = k * (d div k) + k" using True mult_div_mod_eq [of k d] by linarith
  then have eq: "d + 1 = (d div k + 1) * k" by (simp add: algebra_simps)
  show ?thesis using assms unfolding eq by simp
next
  case False
  have eq: "d + 1 = k * (d div k) + (d mod k + 1)" using mult_div_mod_eq [of k d] by linarith
  have r: "0 \<le> d mod k + 1" "d mod k + 1 < k" "d mod k + 1 \<noteq> 0"
    using False assms pos_mod_bound [OF assms, of d] pos_mod_sign [OF assms, of d] by auto
  then have "(d + 1) div k = d div k" "(d + 1) mod k = d mod k + 1"
    using int_div_pos_eq [OF eq] int_mod_pos_eq [OF eq] by blast+
  with r show ?thesis by simp
qed

lemma year_sum_step: "year_sum d \<le> year_sum (d + 1)"
proof -
  have "(d + 1) mod 36524 = 0" if "(d + 1) mod 146096 = 0"
  proof -
    have "146096 dvd d + 1" using that by (simp add: dvd_eq_mod_eq_0)
    then have "36524 dvd d + 1" by (rule dvd_trans [rotated]) simp
    then show ?thesis by (simp add: dvd_eq_mod_eq_0)
  qed
  then show ?thesis by (auto simp: year_sum_def div_step)
qed

lemma year_sum_mono: "a \<le> b \<Longrightarrow> year_sum a \<le> year_sum b"
  by (induction b rule: int_ge_induct) (auto intro: order_trans [OF _ year_sum_step])

lemma year_bounds_check:
  "list_all (\<lambda>y. year_sum (year_start y) div 365 = y \<and> year_sum (year_start (y + 1) - 1) div 365 = y) [0..399]"
  by code_simp

lemma year_of_day:
  assumes "0 \<le> y" "y < 400" "year_start y \<le> d" "d < year_start (y + 1)"
  shows "year_sum d div 365 = y"
proof -
  have "y \<in> set [0..399]" using assms(1,2) by simp
  then have ends: "year_sum (year_start y) div 365 = y" "year_sum (year_start (y + 1) - 1) div 365 = y"
    using year_bounds_check unfolding list_all_iff by blast+
  have "year_sum (year_start y) \<le> year_sum d" "year_sum d \<le> year_sum (year_start (y + 1) - 1)"
    using assms by (auto intro: year_sum_mono)
  then have "year_sum (year_start y) div 365 \<le> year_sum d div 365" "year_sum d div 365 \<le> year_sum (year_start (y + 1) - 1) div 365"
    by (simp_all add: zdiv_mono1)
  then show ?thesis using ends by simp
qed

lemma year_exists:
  assumes "0 \<le> d" "d < 146097"
  obtains y where "0 \<le> y" "y < 400" "year_start y \<le> d" "d < year_start (y + 1)"
proof -
  have "\<exists>y\<ge>0. y < k \<and> year_start y \<le> d \<and> d < year_start (y + 1)" if "0 \<le> k" "d < year_start k" for k
    using that
  proof (induction k rule: int_ge_induct)
    case base
    with assms(1) show ?case by (simp add: year_start_def)
  next
    case (step k)
    then show ?case by (cases "d < year_start k") force+
  qed
  from this [of 400] assms(2) that show thesis by (auto simp: year_start_def)
qed

text \<open>The month and day of the days of a year that starts in March.\<close>

definition month_day :: "int \<Rightarrow> int \<times> int" where
  "month_day doy =
     (let mp = (5 * doy + 2) div 153 in (if mp < 10 then mp + 3 else mp - 9, doy - (153 * mp + 2) div 5 + 1))"

definition march_length :: "int \<Rightarrow> int" where
  "march_length m = (if m = 2 then 29 else if m = 4 \<or> m = 6 \<or> m = 9 \<or> m = 11 then 30 else 31)"

lemma month_day_table:
  "0 \<le> doy \<Longrightarrow> doy \<le> 30 \<Longrightarrow> month_day doy = (3, doy + 1)"
  "31 \<le> doy \<Longrightarrow> doy \<le> 60 \<Longrightarrow> month_day doy = (4, doy - 30)"
  "61 \<le> doy \<Longrightarrow> doy \<le> 91 \<Longrightarrow> month_day doy = (5, doy - 60)"
  "92 \<le> doy \<Longrightarrow> doy \<le> 121 \<Longrightarrow> month_day doy = (6, doy - 91)"
  "122 \<le> doy \<Longrightarrow> doy \<le> 152 \<Longrightarrow> month_day doy = (7, doy - 121)"
  "153 \<le> doy \<Longrightarrow> doy \<le> 183 \<Longrightarrow> month_day doy = (8, doy - 152)"
  "184 \<le> doy \<Longrightarrow> doy \<le> 213 \<Longrightarrow> month_day doy = (9, doy - 183)"
  "214 \<le> doy \<Longrightarrow> doy \<le> 244 \<Longrightarrow> month_day doy = (10, doy - 213)"
  "245 \<le> doy \<Longrightarrow> doy \<le> 274 \<Longrightarrow> month_day doy = (11, doy - 244)"
  "275 \<le> doy \<Longrightarrow> doy \<le> 305 \<Longrightarrow> month_day doy = (12, doy - 274)"
  "306 \<le> doy \<Longrightarrow> doy \<le> 336 \<Longrightarrow> month_day doy = (1, doy - 305)"
  "337 \<le> doy \<Longrightarrow> doy \<le> 366 \<Longrightarrow> month_day doy = (2, doy - 336)"
proof -
  have mp: "(5 * doy + 2) div 153 = k" if "153 * k \<le> 5 * doy + 2" "5 * doy + 2 < 153 * k + 153" for k :: int
    using that by (intro int_div_pos_eq [where r = "5 * doy + 2 - 153 * k"]) auto
  show "0 \<le> doy \<Longrightarrow> doy \<le> 30 \<Longrightarrow> month_day doy = (3, doy + 1)" by (simp add: month_day_def mp [of 0])
  show "31 \<le> doy \<Longrightarrow> doy \<le> 60 \<Longrightarrow> month_day doy = (4, doy - 30)" by (simp add: month_day_def mp [of 1])
  show "61 \<le> doy \<Longrightarrow> doy \<le> 91 \<Longrightarrow> month_day doy = (5, doy - 60)" by (simp add: month_day_def mp [of 2])
  show "92 \<le> doy \<Longrightarrow> doy \<le> 121 \<Longrightarrow> month_day doy = (6, doy - 91)" by (simp add: month_day_def mp [of 3])
  show "122 \<le> doy \<Longrightarrow> doy \<le> 152 \<Longrightarrow> month_day doy = (7, doy - 121)" by (simp add: month_day_def mp [of 4])
  show "153 \<le> doy \<Longrightarrow> doy \<le> 183 \<Longrightarrow> month_day doy = (8, doy - 152)" by (simp add: month_day_def mp [of 5])
  show "184 \<le> doy \<Longrightarrow> doy \<le> 213 \<Longrightarrow> month_day doy = (9, doy - 183)" by (simp add: month_day_def mp [of 6])
  show "214 \<le> doy \<Longrightarrow> doy \<le> 244 \<Longrightarrow> month_day doy = (10, doy - 213)" by (simp add: month_day_def mp [of 7])
  show "245 \<le> doy \<Longrightarrow> doy \<le> 274 \<Longrightarrow> month_day doy = (11, doy - 244)" by (simp add: month_day_def mp [of 8])
  show "275 \<le> doy \<Longrightarrow> doy \<le> 305 \<Longrightarrow> month_day doy = (12, doy - 274)" by (simp add: month_day_def mp [of 9])
  show "306 \<le> doy \<Longrightarrow> doy \<le> 336 \<Longrightarrow> month_day doy = (1, doy - 305)" by (simp add: month_day_def mp [of 10])
  show "337 \<le> doy \<Longrightarrow> doy \<le> 366 \<Longrightarrow> month_day doy = (2, doy - 336)" by (simp add: month_day_def mp [of 11])
qed

lemma month_ranges:
  assumes "0 \<le> (doy :: int)" "doy \<le> 365"
  shows "0 \<le> doy \<and> doy \<le> 30 \<or> 31 \<le> doy \<and> doy \<le> 60 \<or> 61 \<le> doy \<and> doy \<le> 91 \<or> 92 \<le> doy \<and> doy \<le> 121 \<or>
    122 \<le> doy \<and> doy \<le> 152 \<or> 153 \<le> doy \<and> doy \<le> 183 \<or> 184 \<le> doy \<and> doy \<le> 213 \<or> 214 \<le> doy \<and> doy \<le> 244 \<or>
    245 \<le> doy \<and> doy \<le> 274 \<or> 275 \<le> doy \<and> doy \<le> 305 \<or> 306 \<le> doy \<and> doy \<le> 336 \<or> 337 \<le> doy \<and> doy \<le> 365"
  using assms by linarith

lemma month_day_facts:
  assumes "0 \<le> doy" "doy \<le> 365" "month_day doy = (m, d)"
  shows "1 \<le> m" "m \<le> 12" "1 \<le> d" "d \<le> march_length m" "m \<le> 2 \<longleftrightarrow> 306 \<le> doy" "m = 2 \<longleftrightarrow> 337 \<le> doy" "m = 2 \<Longrightarrow> d = doy - 336"
    "doy < 365 \<Longrightarrow> month_day (doy + 1) = (if d < march_length m then (m, d + 1) else if m < 12 then (m + 1, 1) else (1, 1))"
proof -
  have "(1 \<le> m \<and> m \<le> 12 \<and> 1 \<le> d \<and> d \<le> march_length m) \<and> ((m \<le> 2 \<longleftrightarrow> 306 \<le> doy) \<and> (m = 2 \<longleftrightarrow> 337 \<le> doy) \<and> (m = 2 \<longrightarrow> d = doy - 336)) \<and>
      (doy < 365 \<longrightarrow> month_day (doy + 1) = (if d < march_length m then (m, d + 1) else if m < 12 then (m + 1, 1) else (1, 1)))"
    using month_ranges [OF assms(1,2)] assms(3)
    by (elim disjE conjE; cases "month_day (doy + 1)") (auto simp: month_day_table march_length_def)
  then show "1 \<le> m" "m \<le> 12" "1 \<le> d" "d \<le> march_length m" "m \<le> 2 \<longleftrightarrow> 306 \<le> doy" "m = 2 \<longleftrightarrow> 337 \<le> doy" "m = 2 \<Longrightarrow> d = doy - 336"
    "doy < 365 \<Longrightarrow> month_day (doy + 1) = (if d < march_length m then (m, d + 1) else if m < 12 then (m + 1, 1) else (1, 1))" by blast+
qed

lemma year_length_check:
  "list_all (\<lambda>y. year_start (y + 1) - year_start y = (if leap (y + 1) then 366 else 365)) [0..399]"
  by code_simp

lemma year_length: "0 \<le> y \<Longrightarrow> y < 400 \<Longrightarrow> year_start (y + 1) - year_start y = (if leap (y + 1) then 366 else 365)"
proof -
  assume "0 \<le> y" "y < 400"
  then have "y \<in> set [0..399]" by simp
  with year_length_check show ?thesis unfolding list_all_iff by blast
qed

lemma leap_era: "leap (y + era * 400) = leap y"
proof -
  have "(y + era * 400) mod k = y mod k" if "k dvd 400" for k :: int
    using that by (metis dvd_mult mod_add_right_eq add.right_neutral dvd_eq_mod_eq_0)
  from this [of 4] this [of 100] this [of 400] show ?thesis by (simp add: leap_def)
qed

definition civil :: "int \<Rightarrow> int \<Rightarrow> int \<Rightarrow> int \<times> int \<times> int" where
  "civil era y doy = (case month_day doy of (m, d) \<Rightarrow> (y + era * 400 + (if m \<le> 2 then 1 else 0), m, d))"

lemma civilFromDays_civil:
  assumes "days + 719468 = era * 146097 + doe" "0 \<le> doe" "doe < 146097"
    and "0 \<le> y" "y < 400" "year_start y \<le> doe" "doe < year_start (y + 1)"
  shows "civilFromDays days = civil era y (doe - year_start y)"
proof -
  have era: "floorDivInt (days + 719468) 146097 = era" "days + 719468 - era * 146097 = doe"
    using assms(1-3) by (simp_all add: floorDivInt_div)
  have "doe - doe sdiv 1460 + doe sdiv 36524 - doe sdiv 146096 = year_sum doe"
    using assms(2) by (simp add: year_sum_def sdiv_nonneg)
  moreover have "year_sum 0 \<le> year_sum doe" using assms(2) by (rule year_sum_mono)
  ultimately have yoe: "(doe - doe sdiv 1460 + doe sdiv 36524 - doe sdiv 146096) sdiv 365 = y"
    using year_of_day [OF assms(4-7)] by (simp add: year_sum_def [of 0] sdiv_nonneg)
  have doy: "doe - (365 * y + y sdiv 4 - y sdiv 100) = doe - year_start y" "0 \<le> doe - year_start y"
    using assms(4-6) by (simp_all add: year_start_def sdiv_nonneg)
  have mp: "(5 * (doe - year_start y) + 2) sdiv 153 = (5 * (doe - year_start y) + 2) div 153"
    "0 \<le> (5 * (doe - year_start y) + 2) div 153"
    using doy(2) by (simp_all add: sdiv_nonneg)
  then have "(153 * ((5 * (doe - year_start y) + 2) div 153) + 2) sdiv 5 = (153 * ((5 * (doe - year_start y) + 2) div 153) + 2) div 5"
    by (simp add: sdiv_nonneg)
  with mp show ?thesis
    unfolding civilFromDays_def Let_def era yoe doy(1) by (simp add: civil_def month_day_def Let_def)
qed

lemma civil_next:
  assumes "0 \<le> y" "y < 400" "0 \<le> doy" "doy + 1 < year_start (y + 1) - year_start y"
  shows "civil era y (doy + 1) = next_date (civil era y doy)"
proof -
  obtain m d where md: "month_day doy = (m, d)" by fastforce
  have len: "year_start (y + 1) - year_start y \<le> 366" "leap (y + 1) \<or> year_start (y + 1) - year_start y = 365"
    using year_length [OF assms(1,2)] by auto
  then have doy: "doy < 365" "doy \<le> 365" using assms(4) by auto
  note f = month_day_facts [OF assms(3) doy(2) md]
  have year: "m = 2 \<Longrightarrow> d < days_in_month (y + era * 400 + 1) m"
    using f(6,7) assms(4) len leap_era [of "y + 1" era] by (auto simp: days_in_month_def add.assoc add.commute)
  have "m \<noteq> 2 \<Longrightarrow> days_in_month (y + era * 400 + (if m \<le> 2 then 1 else 0)) m = march_length m"
    by (auto simp: days_in_month_def march_length_def)
  moreover have "m = 2 \<Longrightarrow> d < march_length m" using f(7) doy by (auto simp: march_length_def)
  ultimately show ?thesis using f(1,2,4) f(8) [OF doy(1)] year md by (cases "m = 2") (auto simp: civil_def)
qed

lemma civil_new_year:
  assumes "0 \<le> y" "y < 400" "doy + 1 = year_start (y + 1) - year_start y"
  shows "next_date (civil era y doy) = (y + 1 + era * 400, 3, 1)"
proof -
  obtain m d where md: "month_day doy = (m, d)" by fastforce
  have len: "doy = (if leap (y + 1) then 365 else 364)" using year_length [OF assms(1,2)] assms(3) by auto
  then have "0 \<le> doy" "doy \<le> 365" by auto
  note f = month_day_facts [OF this md]
  have "m = 2" "d = (if leap (y + 1) then 29 else 28)" using len f(6,7) by (auto split: if_splits)
  moreover have "leap (y + era * 400 + 1) = leap (y + 1)" using leap_era [of "y + 1" era] by (simp add: add.assoc add.commute)
  ultimately show ?thesis using md by (simp add: civil_def days_in_month_def add.assoc add.commute)
qed

lemma month_day_0: "month_day 0 = (3, 1)"
  by code_simp

text \<open>
  C17: The date arithmetic of the formatting built-ins is the Gregorian calendar: day 0 is the first of
  January 1970, and the date of every day, before and after it, is followed by the next date of the
  calendar with its leap years.\<close>

theorem civilFromDays_calendar:
  "civilFromDays 0 = (1970, 1, 1) \<and> civilFromDays (days + 1) = next_date (civilFromDays days)"
proof
  show "civilFromDays 0 = (1970, 1, 1)" by code_simp
  define era doe where "era = (days + 719468) div 146097" and "doe = (days + 719468) mod 146097"
  have z: "days + 719468 = era * 146097 + doe" "0 \<le> doe" "doe < 146097" by (simp_all add: era_def doe_def)
  then obtain y where y: "0 \<le> y" "y < 400" "year_start y \<le> doe" "doe < year_start (y + 1)" using year_exists by blast
  have now: "civilFromDays days = civil era y (doe - year_start y)" by (rule civilFromDays_civil [OF z y])
  have top: "year_start 400 = 146097" "year_start 0 = 0" "year_start 1 = 365" by (simp_all add: year_start_def)
  consider (same) "doe + 1 < year_start (y + 1)" | (year) "doe + 1 = year_start (y + 1)" "y < 399" | (era) "doe + 1 = year_start (y + 1)" "y = 399"
    using y by linarith
  then show "civilFromDays (days + 1) = next_date (civilFromDays days)"
  proof cases
    case same
    have "doe + 1 < 146097"
    proof (rule ccontr)
      assume "\<not> doe + 1 < 146097"
      then have doe: "doe = 146096" using z(3) by simp
      have "year_sum doe div 365 = y" by (rule year_of_day [OF y])
      with doe have "y = 399" by (simp add: year_sum_def)
      with same doe top show False by simp
    qed
    then have "civilFromDays (days + 1) = civil era y (doe + 1 - year_start y)"
      using z y same by (intro civilFromDays_civil) auto
    with now civil_next [OF y(1,2), of "doe - year_start y" era] y(3) same show ?thesis by (simp add: algebra_simps)
  next
    case year
    have len: "year_start (y + 1) < year_start (y + 1 + 1)" using year_length [of "y + 1"] y year(2) by (auto split: if_splits)
    have "doe + 1 < 146097"
    proof (rule ccontr)
      assume "\<not> doe + 1 < 146097"
      then have doe: "doe = 146096" using z(3) by simp
      have "year_sum doe div 365 = y" by (rule year_of_day [OF y])
      with doe year(2) show False by (simp add: year_sum_def)
    qed
    then have "civilFromDays (days + 1) = civil era (y + 1) (doe + 1 - year_start (y + 1))"
      using z y year len by (intro civilFromDays_civil) auto
    with now civil_new_year [OF y(1,2), of "doe - year_start y" era] year show ?thesis
      by (simp add: civil_def month_day_0 algebra_simps)
  next
    case era
    then have "civilFromDays (days + 1) = civil (era + 1) 0 (0 - year_start 0)"
      using z top by (intro civilFromDays_civil) auto
    with now civil_new_year [OF y(1,2), of "doe - year_start y" era] era show ?thesis
      by (simp add: civil_def month_day_0 top algebra_simps)
  qed
qed

end
