(* ===== verification/ExprEval.thy ===== *)
theory ExprEval
  imports ExprCheck ExprFormat
begin

text \<open>
  \<open>internal/clientlang\<close>, evaluation of client expressions at build time (\<open>expr_eval.go\<close> and the evaluation
  of the built-ins in \<open>expr_builtins.go\<close>), and the soundness of the type checker for it.

  A value of type \<open>any\<close> is one of the values the evaluator makes: an object is an association list of
  its fields, a \<open>json.Number\<close> is its text. The JSON decoder and the case mappings of package
  \<open>strings\<close> are fields of the runtime, next to the floating-point operations.
\<close>

section \<open>Values\<close>

datatype 'f val =
  VNil
| VString string
| VBool bool
| VInt int
| VFloat 'f
| VNumber string
| VObject "(string \<times> 'f val) list"
| VArray "'f val list"

record 'f runtime =
  rt_floats :: "'f floats"
  rt_decode :: "string \<Rightarrow> 'f val option"
  rt_lower :: "string \<Rightarrow> string"
  rt_upper :: "string \<Rightarrow> string"

datatype eval_error =
  UnknownClientValue string
| CannotReadField string
| UnknownClientField string
| IndexRequiresInt
| CannotIndexValue
| IndexOutOfRange int
| NoHelperScope string
| NotRequires
| MinusRequires
| BadUnary string
| PlusMatching
| OpRequiresNumbers string
| ModZero
| CompareMatching string
| CompareRequires string
| OpRequiresBools string
| BadBinary string
| CondRequires
| BadLiteral
| BuiltinArity string int
| LenRequires
| CaseRequires string
| ContainsRequires int
| StringRequires
| NumberParse string string
| NumberRequires string
| DigitsArg string int
| TimeArg int
| Formatting format_error
| NotBool

definition numericFloat :: "'f runtime \<Rightarrow> 'f val \<Rightarrow> 'f option" where
  "numericFloat R v =
     (case v of
        VInt i \<Rightarrow> Some (f_of_int (rt_floats R) i)
      | VFloat x \<Rightarrow> Some x
      | VNumber s \<Rightarrow> f_parse (rt_floats R) s
      | _ \<Rightarrow> None)"

definition numericInt :: "'f runtime \<Rightarrow> 'f val \<Rightarrow> int option" where
  "numericInt R v =
     (case numericFloat R v of
        None \<Rightarrow> None
      | Some x \<Rightarrow>
          if \<not> f_eq (rt_floats R) x (f_trunc (rt_floats R) x) then None else Some (f_int (rt_floats R) x))"

text \<open>\<open>reflect.DeepEqual\<close> on the values of the evaluator.\<close>

fun deepEqual :: "'f runtime \<Rightarrow> 'f val \<Rightarrow> 'f val \<Rightarrow> bool" where
  "deepEqual R VNil VNil \<longleftrightarrow> True"
| "deepEqual R (VString s) (VString t) \<longleftrightarrow> s = t"
| "deepEqual R (VBool a) (VBool b) \<longleftrightarrow> a = b"
| "deepEqual R (VInt i) (VInt j) \<longleftrightarrow> i = j"
| "deepEqual R (VFloat x) (VFloat y) \<longleftrightarrow> f_eq (rt_floats R) x y"
| "deepEqual R (VNumber s) (VNumber t) \<longleftrightarrow> s = t"
| "deepEqual R (VObject xs) (VObject ys) \<longleftrightarrow>
     length xs = length ys \<and>
     (\<forall>x\<in>set xs. case map_of ys (fst x) of None \<Rightarrow> False | Some w \<Rightarrow> deepEqual R (snd x) w)"
| "deepEqual R (VArray xs) (VArray ys) \<longleftrightarrow> list_all2 (deepEqual R) xs ys"
| "deepEqual R _ _ \<longleftrightarrow> False"

definition valuesEqual :: "'f runtime \<Rightarrow> 'f val \<Rightarrow> 'f val \<Rightarrow> bool" where
  "valuesEqual R l r =
     (case (numericFloat R l, numericFloat R r) of
        (Some x, Some y) \<Rightarrow> f_eq (rt_floats R) x y
      | _ \<Rightarrow> deepEqual R l r)"

definition parseRuntimeScalar :: "'f runtime \<Rightarrow> string \<Rightarrow> 'f val" where
  "parseRuntimeScalar R s =
     (if s = ''true'' then VBool True
      else if s = ''false'' then VBool False
      else if s = [] then VString []
      else
        case (if HasPrefix s ''{'' \<or> HasPrefix s ''['' then rt_decode R s else None) of
          Some v \<Rightarrow> v
        | None \<Rightarrow>
            (case (if Contains s ''.'' then f_parse (rt_floats R) s else None) of
               Some x \<Rightarrow> VFloat x
             | None \<Rightarrow> (case Atoi s of Inr i \<Rightarrow> VInt i | Inl _ \<Rightarrow> VString s)))"

section \<open>Operators\<close>

definition evalLiteral :: "'f runtime \<Rightarrow> ValueType \<Rightarrow> string \<Rightarrow> eval_error + 'f val" where
  "evalLiteral R t v =
     (case t of
        TypeString \<Rightarrow> (case Unquote v of None \<Rightarrow> Inl BadLiteral | Some s \<Rightarrow> Inr (VString s))
      | TypeInt \<Rightarrow> (case Atoi v of Inl _ \<Rightarrow> Inl BadLiteral | Inr i \<Rightarrow> Inr (VInt i))
      | TypeFloat \<Rightarrow> (case f_parse (rt_floats R) v of None \<Rightarrow> Inl BadLiteral | Some x \<Rightarrow> Inr (VFloat x))
      | TypeBool \<Rightarrow> Inr (VBool (v = ''true''))
      | TypeNil \<Rightarrow> Inr VNil
      | _ \<Rightarrow> Inl BadLiteral)"

definition evalUnary :: "'f runtime \<Rightarrow> string \<Rightarrow> 'f val \<Rightarrow> eval_error + 'f val" where
  "evalUnary R op v =
     (if op = ''!'' then (case v of VBool b \<Rightarrow> Inr (VBool (\<not> b)) | _ \<Rightarrow> Inl NotRequires)
      else if op = ''-'' then
        (case numericFloat R v of Some x \<Rightarrow> Inr (VFloat (f_neg (rt_floats R) x)) | None \<Rightarrow> Inl MinusRequires)
      else Inl (BadUnary op))"

definition evalArith :: "'f runtime \<Rightarrow> string \<Rightarrow> 'f \<Rightarrow> 'f \<Rightarrow> eval_error + 'f val" where
  "evalArith R op x y =
     (let F = rt_floats R
      in if op = ''+'' then Inr (VFloat (f_add F x y))
         else if op = ''-'' then Inr (VFloat (f_sub F x y))
         else if op = ''*'' then Inr (VFloat (f_mul F x y))
         else if op = ''/'' then Inr (VFloat (f_div F x y))
         else if f_int F y = 0 then Inl ModZero
         else Inr (VFloat (f_of_int F (f_int F x smod f_int F y))))"

definition compare :: "string \<Rightarrow> bool \<Rightarrow> bool \<Rightarrow> bool \<Rightarrow> bool \<Rightarrow> bool" where
  "compare op lt le gt ge = (if op = ''<'' then lt else if op = ''<='' then le else if op = ''>'' then gt else ge)"

definition evalBinary :: "'f runtime \<Rightarrow> string \<Rightarrow> 'f val \<Rightarrow> 'f val \<Rightarrow> eval_error + 'f val" where
  "evalBinary R op l r =
     (let F = rt_floats R
      in if op = ''+'' then
           (case l of
              VString s \<Rightarrow> (case r of VString t \<Rightarrow> Inr (VString (s @ t)) | _ \<Rightarrow> Inl PlusMatching)
            | _ \<Rightarrow>
                (case (numericFloat R l, numericFloat R r) of
                   (Some x, Some y) \<Rightarrow> evalArith R op x y
                 | _ \<Rightarrow> Inl (OpRequiresNumbers op)))
         else if op \<in> set [''-'', ''*'', ''/'', ''%''] then
           (case (numericFloat R l, numericFloat R r) of
              (Some x, Some y) \<Rightarrow> evalArith R op x y
            | _ \<Rightarrow> Inl (OpRequiresNumbers op))
         else if op = ''=='' then Inr (VBool (valuesEqual R l r))
         else if op = ''!='' then Inr (VBool (\<not> valuesEqual R l r))
         else if op \<in> set [''<'', ''<='', ''>'', ''>=''] then
           (case l of
              VString s \<Rightarrow>
                (case r of
                   VString t \<Rightarrow> Inr (VBool (compare op (s < t) (s \<le> t) (t < s) (t \<le> s)))
                 | _ \<Rightarrow> Inl (CompareMatching op))
            | _ \<Rightarrow>
                (case (numericFloat R l, numericFloat R r) of
                   (Some x, Some y) \<Rightarrow> Inr (VBool (compare op (f_lt F x y) (f_le F x y) (f_lt F y x) (f_le F y x)))
                 | _ \<Rightarrow> Inl (CompareRequires op)))
         else if op = ''&&'' \<or> op = ''||'' then
           (case (l, r) of
              (VBool a, VBool b) \<Rightarrow> Inr (VBool (if op = ''&&'' then a \<and> b else a \<or> b))
            | _ \<Rightarrow> Inl (OpRequiresBools op))
         else Inl (BadBinary op))"

definition read_field :: "string \<Rightarrow> 'f val \<Rightarrow> eval_error + 'f val" where
  "read_field name v =
     (case v of
        VObject fs \<Rightarrow> (case map_of fs name of None \<Rightarrow> Inl (UnknownClientField name) | Some w \<Rightarrow> Inr w)
      | _ \<Rightarrow> Inl (CannotReadField name))"

definition read_index :: "'f runtime \<Rightarrow> 'f val \<Rightarrow> 'f val \<Rightarrow> eval_error + 'f val" where
  "read_index R v index =
     (case numericFloat R index of
        None \<Rightarrow> Inl IndexRequiresInt
      | Some x \<Rightarrow>
          let position = f_int (rt_floats R) x
          in if \<not> f_eq (rt_floats R) (f_of_int (rt_floats R) position) x then Inl IndexRequiresInt
             else (case v of
                     VArray items \<Rightarrow>
                       if position < 0 \<or> position \<ge> int (length items) then Inl (IndexOutOfRange position)
                       else Inr (items ! nat position)
                   | _ \<Rightarrow> Inl CannotIndexValue))"

section \<open>Built-ins\<close>

abbreviation bind :: "'e + 'a \<Rightarrow> ('a \<Rightarrow> 'e + 'b) \<Rightarrow> 'e + 'b" where
  "bind r g \<equiv> (case r of Inl err \<Rightarrow> Inl err | Inr x \<Rightarrow> g x)"

type_synonym 'f evalf = "expr \<Rightarrow> eval_error + 'f val"

definition evalLen :: "'f evalf \<Rightarrow> expr \<Rightarrow> eval_error + 'f val" where
  "evalLen ev a =
     bind (ev a) (\<lambda>v. case v of
       VString s \<Rightarrow> Inr (VInt (int (length s)))
     | VArray vs \<Rightarrow> Inr (VInt (int (length vs)))
     | _ \<Rightarrow> Inl LenRequires)"

definition evalCaseBuiltin :: "'f evalf \<Rightarrow> string \<Rightarrow> (string \<Rightarrow> string) \<Rightarrow> expr \<Rightarrow> eval_error + 'f val" where
  "evalCaseBuiltin ev name f a =
     bind (ev a) (\<lambda>v. case v of VString s \<Rightarrow> Inr (VString (f s)) | _ \<Rightarrow> Inl (CaseRequires name))"

definition evalContainsBuiltin :: "'f evalf \<Rightarrow> expr \<Rightarrow> expr \<Rightarrow> eval_error + 'f val" where
  "evalContainsBuiltin ev a b =
     bind (ev a) (\<lambda>haystack. bind (ev b) (\<lambda>needle.
       case haystack of
         VString h \<Rightarrow> (case needle of VString n \<Rightarrow> Inr (VBool (Contains h n)) | _ \<Rightarrow> Inl (ContainsRequires 2))
       | _ \<Rightarrow> Inl (ContainsRequires 1)))"

definition scalar_string :: "'f runtime \<Rightarrow> 'f val \<Rightarrow> string option" where
  "scalar_string R v =
     (case v of
        VNil \<Rightarrow> Some []
      | VString s \<Rightarrow> Some s
      | VBool b \<Rightarrow> Some (if b then ''true'' else ''false'')
      | VInt i \<Rightarrow> Some (Itoa i)
      | VFloat x \<Rightarrow> Some (f_format (rt_floats R) x)
      | VNumber s \<Rightarrow> Some s
      | _ \<Rightarrow> None)"

definition evalStringBuiltin :: "'f runtime \<Rightarrow> 'f evalf \<Rightarrow> expr \<Rightarrow> eval_error + 'f val" where
  "evalStringBuiltin R ev a =
     bind (ev a) (\<lambda>v. case scalar_string R v of Some s \<Rightarrow> Inr (VString s) | None \<Rightarrow> Inl StringRequires)"

definition evalNumericBuiltin :: "'f runtime \<Rightarrow> 'f evalf \<Rightarrow> string \<Rightarrow> bool \<Rightarrow> expr \<Rightarrow> eval_error + 'f val" where
  "evalNumericBuiltin R ev name toInt a =
     bind (ev a) (\<lambda>v.
       bind (case v of
               VString s \<Rightarrow>
                 (case f_parse (rt_floats R) (TrimSpace s) of None \<Rightarrow> Inl (NumberParse name s) | Some x \<Rightarrow> Inr x)
             | _ \<Rightarrow> (case numericFloat R v of None \<Rightarrow> Inl (NumberRequires name) | Some x \<Rightarrow> Inr x))
         (\<lambda>x. Inr (if toInt then VInt (f_int (rt_floats R) x) else VFloat x)))"

definition evalNumberDigitsArgs :: "'f runtime \<Rightarrow> 'f evalf \<Rightarrow> string \<Rightarrow> expr \<Rightarrow> expr \<Rightarrow> eval_error + 'f \<times> int" where
  "evalNumberDigitsArgs R ev name a b =
     bind (ev a) (\<lambda>first.
       case numericFloat R first of
         None \<Rightarrow> Inl (DigitsArg name 1)
       | Some x \<Rightarrow>
           bind (ev b) (\<lambda>second.
             case numericInt R second of
               None \<Rightarrow> Inl (DigitsArg name 2)
             | Some digits \<Rightarrow> Inr (x, digits)))"

definition evalFormatTimeBuiltin :: "'f runtime \<Rightarrow> 'f evalf \<Rightarrow> expr \<Rightarrow> expr \<Rightarrow> eval_error + 'f val" where
  "evalFormatTimeBuiltin R ev a b =
     bind (ev a) (\<lambda>first.
       case numericFloat R first of
         None \<Rightarrow> Inl (TimeArg 1)
       | Some x \<Rightarrow>
           bind (ev b) (\<lambda>second.
             case second of
               VString layout \<Rightarrow>
                 (case formatUnixTime (rt_floats R) x layout of Inl err \<Rightarrow> Inl (Formatting err) | Inr s \<Rightarrow> Inr (VString s))
             | _ \<Rightarrow> Inl (TimeArg 2)))"

definition formatted :: "('a \<Rightarrow> 'f val) \<Rightarrow> format_error + 'a \<Rightarrow> eval_error + 'f val" where
  "formatted f r = (case r of Inl err \<Rightarrow> Inl (Formatting err) | Inr x \<Rightarrow> Inr (f x))"

definition unary_call :: "string \<Rightarrow> expr list \<Rightarrow> (expr \<Rightarrow> eval_error + 'f val) \<Rightarrow> (eval_error + 'f val) option" where
  "unary_call name args f =
     Some (case args of [a] \<Rightarrow> f a | _ \<Rightarrow> Inl (BuiltinArity name (int (length args))))"

definition binary_call :: "string \<Rightarrow> expr list \<Rightarrow> (expr \<Rightarrow> expr \<Rightarrow> eval_error + 'f val) \<Rightarrow> (eval_error + 'f val) option" where
  "binary_call name args f =
     Some (case args of [a, b] \<Rightarrow> f a b | _ \<Rightarrow> Inl (BuiltinArity name (int (length args))))"

text \<open>\<open>None\<close> when the name is not the name of a built-in.\<close>

definition evalBuiltinCall :: "'f runtime \<Rightarrow> 'f evalf \<Rightarrow> string \<Rightarrow> expr list \<Rightarrow> (eval_error + 'f val) option" where
  "evalBuiltinCall R ev name args =
     (let F = rt_floats R
      in if name = ''len'' then unary_call name args (evalLen ev)
         else if name = ''lower'' then unary_call name args (evalCaseBuiltin ev name (rt_lower R))
         else if name = ''upper'' then unary_call name args (evalCaseBuiltin ev name (rt_upper R))
         else if name = ''contains'' then binary_call name args (evalContainsBuiltin ev)
         else if name = ''string'' then unary_call name args (evalStringBuiltin R ev)
         else if name = ''int'' then unary_call name args (evalNumericBuiltin R ev name True)
         else if name = ''float'' then unary_call name args (evalNumericBuiltin R ev name False)
         else if name = ''fixed'' then
           binary_call name args (\<lambda>a b. bind (evalNumberDigitsArgs R ev name a b) (\<lambda>(x, n). formatted VString (formatFixed F x n)))
         else if name = ''round'' then
           binary_call name args (\<lambda>a b. bind (evalNumberDigitsArgs R ev name a b) (\<lambda>(x, n). formatted VFloat (roundTo F x n)))
         else if name = ''percent'' then
           binary_call name args (\<lambda>a b. bind (evalNumberDigitsArgs R ev name a b) (\<lambda>(x, n). formatted VString (formatPercent F x n)))
         else if name = ''formatTime'' then binary_call name args (evalFormatTimeBuiltin R ev)
         else None)"

section \<open>The evaluator\<close>

fun eval_cases :: "'f runtime \<Rightarrow> 'f evalf \<Rightarrow> 'f val \<Rightarrow> (expr \<times> expr) list \<Rightarrow> expr \<Rightarrow> eval_error + 'f val" where
  "eval_cases R ev v [] d = ev d"
| "eval_cases R ev v (item # items) d =
     bind (ev (fst item)) (\<lambda>match.
       if valuesEqual R v match then ev (snd item) else eval_cases R ev v items d)"

lemma unary_call_cong: "(\<And>a. a \<in> set args \<Longrightarrow> f a = g a) \<Longrightarrow> unary_call name args f = unary_call name args g"
  by (auto simp: unary_call_def split: list.split)

lemma binary_call_cong:
  "(\<And>a b. a \<in> set args \<Longrightarrow> b \<in> set args \<Longrightarrow> f a b = g a b) \<Longrightarrow> binary_call name args f = binary_call name args g"
  by (auto simp: binary_call_def split: list.split)

lemmas builtin_defs =
  evalLen_def evalCaseBuiltin_def evalContainsBuiltin_def evalStringBuiltin_def evalNumericBuiltin_def
  evalNumberDigitsArgs_def evalFormatTimeBuiltin_def

lemma evalBuiltinCall_cong [fundef_cong]:
  assumes "args = args'" "\<And>a. a \<in> set args' \<Longrightarrow> ev a = ev' a"
  shows "evalBuiltinCall R ev name args = evalBuiltinCall R ev' name args'"
  unfolding evalBuiltinCall_def Let_def assms(1)
  by (intro if_cong refl unary_call_cong binary_call_cong) (simp_all only: builtin_defs assms(2))

lemma eval_cases_cong [fundef_cong]:
  assumes "items = items'" "d = d'" "\<And>i. i \<in> set items' \<Longrightarrow> ev (fst i) = ev' (fst i)"
    and "\<And>i. i \<in> set items' \<Longrightarrow> ev (snd i) = ev' (snd i)" "ev d' = ev' d'"
  shows "eval_cases R ev v items d = eval_cases R ev' v items' d'"
  using assms(3-) unfolding assms(1,2)
proof (induction items')
  case (Cons item items)
  have "ev (fst item) = ev' (fst item)" "ev (snd item) = ev' (snd item)" using Cons.prems by simp_all
  moreover have "eval_cases R ev v items d' = eval_cases R ev' v items d'" using Cons by (meson list.set_intros(2))
  ultimately show ?case by (simp only: eval_cases.simps)
qed simp

fun evalExpr :: "'f runtime \<Rightarrow> (string \<Rightarrow> string option) \<Rightarrow> expr \<Rightarrow> eval_error + 'f val" where
  "evalExpr R vs (LiteralExpr t v _) = evalLiteral R t v"
| "evalExpr R vs (IdentExpr name _) =
     (case vs name of None \<Rightarrow> Inl (UnknownClientValue name) | Some raw \<Rightarrow> Inr (parseRuntimeScalar R raw))"
| "evalExpr R vs (MemberExpr x name _) = bind (evalExpr R vs x) (read_field name)"
| "evalExpr R vs (IndexExpr x i _) = bind (evalExpr R vs x) (\<lambda>v. bind (evalExpr R vs i) (read_index R v))"
| "evalExpr R vs (CallExpr name args _) =
     (case evalBuiltinCall R (evalExpr R vs) name args of Some r \<Rightarrow> r | None \<Rightarrow> Inl (NoHelperScope name))"
| "evalExpr R vs (UnaryExpr op x _) = bind (evalExpr R vs x) (evalUnary R op)"
| "evalExpr R vs (BinaryExpr op l r _) =
     bind (evalExpr R vs l) (\<lambda>lv. bind (evalExpr R vs r) (evalBinary R op lv))"
| "evalExpr R vs (ConditionalExpr c t e _) =
     bind (evalExpr R vs c) (\<lambda>cv. case cv of
       VBool b \<Rightarrow> if b then evalExpr R vs t else evalExpr R vs e
     | _ \<Rightarrow> Inl CondRequires)"
| "evalExpr R vs (SwitchExpr _ v cases d _) =
     bind (evalExpr R vs v) (\<lambda>x. eval_cases R (evalExpr R vs) x cases d)"

datatype run_error = RunParse parse_error | RunEval eval_error

definition EvalValue :: "'f runtime \<Rightarrow> unicode \<Rightarrow> string \<Rightarrow> (string \<Rightarrow> string option) \<Rightarrow> run_error + 'f val" where
  "EvalValue R u source vs =
     (case ParseExpr u source of
        Inl err \<Rightarrow> Inl (RunParse err)
      | Inr e \<Rightarrow> (case evalExpr R vs e of Inl err \<Rightarrow> Inl (RunEval err) | Inr v \<Rightarrow> Inr v))"

definition EvalBool :: "'f runtime \<Rightarrow> unicode \<Rightarrow> string \<Rightarrow> (string \<Rightarrow> string option) \<Rightarrow> run_error + bool" where
  "EvalBool R u source vs =
     (case EvalValue R u source vs of
        Inl err \<Rightarrow> Inl err
      | Inr (VBool b) \<Rightarrow> Inr b
      | Inr _ \<Rightarrow> Inl (RunEval NotBool))"

text \<open>\<open>print\<close> is \<open>fmt.Sprint\<close> on an object or an array.\<close>

definition EvalScalar ::
  "'f runtime \<Rightarrow> ('f val \<Rightarrow> string) \<Rightarrow> unicode \<Rightarrow> string \<Rightarrow> (string \<Rightarrow> string option) \<Rightarrow> run_error + string" where
  "EvalScalar R print u source vs =
     (case EvalValue R u source vs of
        Inl err \<Rightarrow> Inl err
      | Inr v \<Rightarrow> Inr (case scalar_string R v of Some s \<Rightarrow> s | None \<Rightarrow> print v))"


section \<open>Typed values\<close>

text \<open>
  The evaluator computes with floating-point numbers only; what it means for one of them to be the value of
  an expression of type int is the parameter \<open>W\<close>. It is \<open>numeric\<close> where only the kind of a value matters,
  and \<open>whole\<close> where an int has no fraction. Conversions of integers, sums, differences, products and
  negations of whole numbers are whole, also where they round or overflow: a double from \<open>2 ^ 53\<close> on
  has no fraction.
\<close>

abbreviation numeric :: "'f \<Rightarrow> bool" where
  "numeric \<equiv> \<lambda>_. True"

definition whole :: "'f floats \<Rightarrow> 'f \<Rightarrow> bool" where
  "whole F x \<longleftrightarrow> \<not> f_finite F x \<or> f_eq F (f_trunc F x) x"

definition int_closed :: "('f \<Rightarrow> bool) \<Rightarrow> 'f floats \<Rightarrow> bool" where
  "int_closed W F \<longleftrightarrow>
     (\<forall>i. W (f_of_int F i)) \<and> (\<forall>x. W x \<longrightarrow> W (f_neg F x)) \<and>
     (\<forall>x y. W x \<longrightarrow> W y \<longrightarrow> W (f_add F x y) \<and> W (f_sub F x y) \<and> W (f_mul F x y))"

lemma int_closed_numeric: "int_closed numeric F"
  by (simp add: int_closed_def)

fun typed :: "('f \<Rightarrow> bool) \<Rightarrow> 'f runtime \<Rightarrow> ValueType \<Rightarrow> 'f val \<Rightarrow> bool" where
  "typed W R TypeUnknown v \<longleftrightarrow> True"
| "typed W R TypeString v \<longleftrightarrow> (case v of VString _ \<Rightarrow> True | _ \<Rightarrow> False)"
| "typed W R TypeInt v \<longleftrightarrow> (case numericFloat R v of None \<Rightarrow> False | Some x \<Rightarrow> W x)"
| "typed W R TypeFloat v \<longleftrightarrow> numericFloat R v \<noteq> None"
| "typed W R TypeBool v \<longleftrightarrow> (case v of VBool _ \<Rightarrow> True | _ \<Rightarrow> False)"
| "typed W R TypeNil v \<longleftrightarrow> v = VNil"
| "typed W R TypeObject v \<longleftrightarrow> (case v of VObject _ \<Rightarrow> True | _ \<Rightarrow> False)"
| "typed W R TypeArray v \<longleftrightarrow> (case v of VArray _ \<Rightarrow> True | _ \<Rightarrow> False)"

text \<open>A value at a path of the symbols: it and the values below it have the declared types.\<close>

fun conforms :: "('f \<Rightarrow> bool) \<Rightarrow> 'f runtime \<Rightarrow> symbols \<Rightarrow> string \<Rightarrow> 'f val \<Rightarrow> bool" where
  "conforms W R symbols path (VObject fs) \<longleftrightarrow>
     (case symbols path of None \<Rightarrow> True | Some t \<Rightarrow> typed W R t (VObject fs)) \<and>
     (\<forall>f\<in>set fs. conforms W R symbols (path @ ''.'' @ fst f) (snd f))"
| "conforms W R symbols path (VArray items) \<longleftrightarrow>
     (case symbols path of None \<Rightarrow> True | Some t \<Rightarrow> typed W R t (VArray items)) \<and>
     (\<forall>v\<in>set items. conforms W R symbols (path @ ''[]'') v)"
| "conforms W R symbols path v \<longleftrightarrow> (case symbols path of None \<Rightarrow> True | Some t \<Rightarrow> typed W R t v)"

definition env_ok :: "('f \<Rightarrow> bool) \<Rightarrow> 'f runtime \<Rightarrow> symbols \<Rightarrow> (string \<Rightarrow> string option) \<Rightarrow> bool" where
  "env_ok W R symbols vs \<longleftrightarrow> (\<forall>name raw. vs name = Some raw \<longrightarrow> conforms W R symbols name (parseRuntimeScalar R raw))"

lemma conforms_typed: "conforms W R symbols path v \<Longrightarrow> symbols path = Some t \<Longrightarrow> typed W R t v"
  by (cases v) auto

lemma eval_path:
  assumes "env_ok W R symbols vs"
  shows "evalExpr R vs e = Inr v \<Longrightarrow> exprPath e \<noteq> [] \<Longrightarrow> conforms W R symbols (exprPath e) v"
proof (induction e arbitrary: v)
  case (IdentExpr name s)
  with assms show ?case by (auto simp: env_ok_def split: option.splits)
next
  case (MemberExpr x name s)
  then obtain xv where x: "evalExpr R vs x = Inr xv" "read_field name xv = Inr v" by (auto split: sum.splits)
  from x(2) obtain fs where "xv = VObject fs" "(name, v) \<in> set fs"
    by (auto simp: read_field_def split: val.splits option.splits dest: map_of_SomeD)
  moreover have "conforms W R symbols (exprPath x) xv" "exprPath x \<noteq> []"
    using MemberExpr.IH [OF x(1)] MemberExpr.prems(2) by (auto simp: Let_def split: if_splits)
  ultimately show ?case by (auto simp: Let_def)
next
  case (IndexExpr x i s)
  then obtain xv iv where x: "evalExpr R vs x = Inr xv" "read_index R xv iv = Inr v" by (auto split: sum.splits)
  from x(2) obtain items where "xv = VArray items" "v \<in> set items"
    by (auto simp: read_index_def Let_def split: val.splits option.splits if_splits)
  moreover have "conforms W R symbols (exprPath x) xv" "exprPath x \<noteq> []"
    using IndexExpr.IH(1) [OF x(1)] IndexExpr.prems(2) by (auto simp: Let_def split: if_splits)
  ultimately show ?case by (auto simp: Let_def)
qed auto

section \<open>Values have the types of their expressions\<close>

lemma literal_typed: "int_closed W (rt_floats R) \<Longrightarrow> evalLiteral R t v = Inr x \<Longrightarrow> typed W R t x"
  by (cases t) (auto simp: evalLiteral_def numericFloat_def int_closed_def split: option.splits sum.splits)

lemma typed_numeric: "typed W R t v \<Longrightarrow> isNumericType t \<Longrightarrow> numericFloat R v \<noteq> None"
  by (auto simp: isNumericType_def split: option.splits)

lemma unary_typed:
  assumes "int_closed W (rt_floats R)" "checkUnaryExpr op t = Inr t'" "evalUnary R op v = Inr v'" "typed W R t v"
  shows "typed W R t' v'"
proof (cases "op = ''-'' \<and> t = TypeInt")
  case True
  with assms show ?thesis
    by (auto simp: checkUnaryExpr_def evalUnary_def numericFloat_def isNumericType_def int_closed_def split: val.splits option.splits)
next
  case False
  with assms(2,3) show ?thesis
    by (auto simp: checkUnaryExpr_def evalUnary_def numericFloat_def isNumericType_def split: if_splits val.splits option.splits)
qed

lemma arith_number: "evalArith R op x y = Inr v \<Longrightarrow> numericFloat R v \<noteq> None"
  by (auto simp: evalArith_def numericFloat_def Let_def split: if_splits)

lemma arith_int:
  assumes "evalArith R op x y = Inr v" "op \<noteq> ''/''" "W x" "W y" "int_closed W (rt_floats R)"
  shows "typed W R TypeInt v"
  using assms by (auto simp: evalArith_def numericFloat_def int_closed_def Let_def split: if_splits)

lemma evalBinary_compare:
  assumes "op \<in> set [''<'', ''<='', ''>'', ''>='']"
  shows "evalBinary R op l r =
    (case l of
       VString s \<Rightarrow>
         (case r of
            VString t \<Rightarrow> Inr (VBool (compare op (s < t) (s \<le> t) (t < s) (t \<le> s)))
          | _ \<Rightarrow> Inl (CompareMatching op))
     | _ \<Rightarrow>
         (case (numericFloat R l, numericFloat R r) of
            (Some x, Some y) \<Rightarrow>
              Inr (VBool (compare op (f_lt (rt_floats R) x y) (f_le (rt_floats R) x y) (f_lt (rt_floats R) y x) (f_le (rt_floats R) y x)))
          | _ \<Rightarrow> Inl (CompareRequires op)))"
proof -
  have "op \<noteq> ''+''" "op \<notin> set [''-'', ''*'', ''/'', ''%'']" "op \<noteq> ''==''" "op \<noteq> ''!=''" using assms by auto
  with assms show ?thesis by (simp only: evalBinary_def Let_def if_False if_True)
qed

lemma binary_typed:
  assumes "checkBinaryExpr op l r = Inr t" "evalBinary R op lv rv = Inr v" "typed W R l lv" "typed W R r rv"
    and closed: "int_closed W (rt_floats R)"
  shows "typed W R t v"
proof (cases "l = TypeUnknown \<or> r = TypeUnknown")
  case False
  consider (arith) "op \<in> set [''+'', ''-'', ''*'', ''/'', ''%'']" | (eq) "op = ''=='' \<or> op = ''!=''"
    | (cmp) "op \<in> set [''<'', ''<='', ''>'', ''>='']" | (log) "op = ''&&'' \<or> op = ''||''"
    using assms(1) False by (fastforce simp: checkBinaryExpr_def split: if_splits)
  then show ?thesis
  proof cases
    case arith
    show ?thesis
    proof (cases "op = ''+'' \<and> l = TypeString \<and> r = TypeString")
      case True
      with assms False show ?thesis by (auto simp: checkBinaryExpr_def evalBinary_def split: val.splits)
    next
      case str: False
      with arith False assms(1) have num: "isNumericType l" "isNumericType r"
        "t = TypeFloat \<or> t = TypeInt \<and> l = TypeInt \<and> r = TypeInt \<and> op \<noteq> ''/''"
        by (auto simp: checkBinaryExpr_def isNumericType_def split: if_splits)
      then obtain x y where xy: "numericFloat R lv = Some x" "numericFloat R rv = Some y"
        using typed_numeric [OF assms(3)] typed_numeric [OF assms(4)] by auto
      then have "\<And>s. lv \<noteq> VString s" by (auto simp: numericFloat_def)
      with arith xy assms(2) have v: "evalArith R op x y = Inr v"
        by (auto simp: evalBinary_def Let_def split: val.splits)
      show ?thesis
      proof (cases "t = TypeFloat")
        case True
        with arith_number [OF v] show ?thesis by simp
      next
        case False
        with num(3) xy assms(3,4) arith_int [OF v _ _ _ closed] show ?thesis by (auto simp del: typed.simps) (auto split: option.splits)
      qed
    qed
  next
    case eq
    with assms(1,2) False show ?thesis by (auto simp: checkBinaryExpr_def evalBinary_def Let_def split: if_splits)
  next
    case cmp
    then have "t = TypeBool" using assms(1) False by (auto simp: checkBinaryExpr_def split: if_splits)
    moreover have "\<exists>b. v = VBool b"
      using assms(2) unfolding evalBinary_compare [OF cmp] by (cases lv; cases rv) (auto split: option.splits)
    ultimately show ?thesis by auto
  next
    case log
    then have "t = TypeBool" using assms(1) False by (auto simp: checkBinaryExpr_def split: if_splits)
    with log assms(2) show ?thesis by (cases lv; cases rv) (auto simp: evalBinary_def Let_def)
  qed
qed (use assms in \<open>auto simp: checkBinaryExpr_def\<close>)

lemma merge_typed:
  "mergeBranchTypes l r label = Inr t \<Longrightarrow> typed W R l v \<Longrightarrow> typed W R t v"
  "mergeBranchTypes l r label = Inr t \<Longrightarrow> typed W R r v \<Longrightarrow> typed W R t v"
  by (auto simp: mergeBranchTypes_def compatibleNumericType_def isNumericType_def split: if_splits option.splits)


lemma builtin_defined: "evalBuiltinCall R ev name args = None \<longleftrightarrow> builtin name = None"
  by (simp add: evalBuiltinCall_def builtin_def Let_def unary_call_def binary_call_def)

text \<open>The result of a built-in has its type, whatever the arguments are.\<close>

lemma unary_callE:
  assumes "unary_call name args f = Some (Inr v)"
  obtains a where "args = [a]" "f a = Inr v"
  using assms by (auto simp: unary_call_def split: list.splits)

lemma binary_callE:
  assumes "binary_call name args f = Some (Inr v)"
  obtains a b where "args = [a, b]" "f a b = Inr v"
  using assms by (auto simp: binary_call_def split: list.splits)

lemma builtin_results:
  "int_closed W (rt_floats R) \<Longrightarrow> evalLen ev a = Inr v \<Longrightarrow> typed W R TypeInt v"
  "evalCaseBuiltin ev name f a = Inr v \<Longrightarrow> typed W R TypeString v"
  "evalContainsBuiltin ev a b = Inr v \<Longrightarrow> typed W R TypeBool v"
  "evalStringBuiltin R ev a = Inr v \<Longrightarrow> typed W R TypeString v"
  "int_closed W (rt_floats R) \<Longrightarrow> evalNumericBuiltin R ev name True a = Inr v \<Longrightarrow> typed W R TypeInt v"
  "evalFormatTimeBuiltin R ev a b = Inr v \<Longrightarrow> typed W R TypeString v"
  "formatted VString r = Inr v \<Longrightarrow> typed W R TypeString v"
  "formatted VFloat r' = Inr v \<Longrightarrow> typed W R TypeFloat v"
  "evalNumericBuiltin R ev name False a = Inr v \<Longrightarrow> typed W R TypeFloat v"
  by (auto simp: builtin_defs formatted_def numericFloat_def int_closed_def split: sum.splits val.splits option.splits if_splits)

lemma digits_call_typed:
  assumes "binary_call name args (\<lambda>a b. bind (evalNumberDigitsArgs R ev name a b) (\<lambda>(x, n). formatted g (h x n))) = Some (Inr v)"
    and "\<And>r. formatted g r = Inr v \<Longrightarrow> typed W R t v"
  shows "typed W R t v"
  using assms by (auto elim!: binary_callE split: sum.splits prod.splits simp del: typed.simps)

lemma builtin_name:
  assumes "builtin name = Some b"
  shows "name = ''len'' \<or> name = ''lower'' \<or> name = ''upper'' \<or> name = ''contains'' \<or> name = ''string'' \<or> name = ''int'' \<or>
    name = ''float'' \<or> name = ''fixed'' \<or> name = ''round'' \<or> name = ''percent'' \<or> name = ''formatTime''"
proof (rule ccontr)
  assume "\<not> ?thesis"
  then have "builtin name = None" by (simp add: builtin_def)
  with assms show False by simp
qed

lemma builtin_typed:
  assumes "builtin name = Some (arity, ok, t)" "evalBuiltinCall R ev name args = Some (Inr v)" "int_closed W (rt_floats R)"
  shows "typed W R t v"
proof -
  note defs = builtin_def evalBuiltinCall_def Let_def
  from builtin_name [OF assms(1)] show ?thesis
  proof (elim disjE)
    assume "name = ''len''"
    then have "t = TypeInt" "unary_call name args (evalLen ev) = Some (Inr v)" using assms by (simp_all add: defs)
    then show ?thesis by (metis unary_callE builtin_results(1) assms(3))
  next
    assume "name = ''lower''"
    then obtain f where "t = TypeString" "unary_call name args (evalCaseBuiltin ev name f) = Some (Inr v)" using assms by (auto simp: defs)
    then show ?thesis by (metis unary_callE builtin_results(2))
  next
    assume "name = ''upper''"
    then obtain f where "t = TypeString" "unary_call name args (evalCaseBuiltin ev name f) = Some (Inr v)" using assms by (auto simp: defs)
    then show ?thesis by (metis unary_callE builtin_results(2))
  next
    assume "name = ''contains''"
    then have "t = TypeBool" "binary_call name args (evalContainsBuiltin ev) = Some (Inr v)" using assms by (simp_all add: defs)
    then show ?thesis by (metis binary_callE builtin_results(3))
  next
    assume "name = ''string''"
    then have "t = TypeString" "unary_call name args (evalStringBuiltin R ev) = Some (Inr v)" using assms by (simp_all add: defs)
    then show ?thesis by (metis unary_callE builtin_results(4))
  next
    assume "name = ''int''"
    then have "t = TypeInt" "unary_call name args (evalNumericBuiltin R ev name True) = Some (Inr v)" using assms by (simp_all add: defs)
    then show ?thesis by (metis unary_callE builtin_results(5) assms(3))
  next
    assume "name = ''float''"
    then have "t = TypeFloat" "unary_call name args (evalNumericBuiltin R ev name False) = Some (Inr v)" using assms by (simp_all add: defs)
    then show ?thesis by (metis unary_callE builtin_results(9))
  next
    assume "name = ''fixed''"
    then have "t = TypeString" "binary_call name args (\<lambda>a b. bind (evalNumberDigitsArgs R ev name a b)
        (\<lambda>(x, n). formatted VString (formatFixed (rt_floats R) x n))) = Some (Inr v)" using assms by (simp_all add: defs)
    then show ?thesis using digits_call_typed builtin_results(7) by blast
  next
    assume "name = ''round''"
    then have "t = TypeFloat" "binary_call name args (\<lambda>a b. bind (evalNumberDigitsArgs R ev name a b)
        (\<lambda>(x, n). formatted VFloat (roundTo (rt_floats R) x n))) = Some (Inr v)" using assms by (simp_all add: defs)
    then show ?thesis using digits_call_typed builtin_results(8) by blast
  next
    assume "name = ''percent''"
    then have "t = TypeString" "binary_call name args (\<lambda>a b. bind (evalNumberDigitsArgs R ev name a b)
        (\<lambda>(x, n). formatted VString (formatPercent (rt_floats R) x n))) = Some (Inr v)" using assms by (simp_all add: defs)
    then show ?thesis using digits_call_typed builtin_results(7) by blast
  next
    assume "name = ''formatTime''"
    then have "t = TypeString" "binary_call name args (evalFormatTimeBuiltin R ev) = Some (Inr v)" using assms by (simp_all add: defs)
    then show ?thesis by (metis binary_callE builtin_results(6))
  qed
qed

text \<open>Every branch of a switch has a type below the type of the branches together.\<close>

definition below :: "('f \<Rightarrow> bool) \<Rightarrow> 'f runtime \<Rightarrow> ValueType \<Rightarrow> ValueType \<Rightarrow> bool" where
  "below W R t t' \<longleftrightarrow> (\<forall>v. typed W R t v \<longrightarrow> typed W R t' v)"

lemma case_types:
  assumes "check_cases check keyword t b cases fs = (Inr (Some t'), fs')"
  shows "(\<forall>b0. b = Some b0 \<longrightarrow> below W R b0 t') \<and>
    (\<forall>item\<in>set cases. \<exists>tv fs1 fs2. check (snd item) fs1 = (Inr tv, fs2) \<and> below W R tv t')"
  using assms
proof (induction cases arbitrary: b fs)
  case Nil
  then show ?case by (simp add: below_def)
next
  case (Cons c cases)
  obtain m e where c: "c = (m, e)" by fastforce
  from Cons.prems obtain tm fs1 tv fs2 b' where s: "check e fs1 = (Inr tv, fs2)"
      "check_cases check keyword t (Some b') cases fs2 = (Inr (Some t'), fs')"
      "b' = tv \<and> b = None \<or> (\<exists>b0. b = Some b0 \<and> mergeBranchTypes b0 tv keyword = Inr b')"
    unfolding c by (rule check_cases_ConsE)
  note IH = Cons.IH [OF s(2)]
  have below: "below W R b' t'" using IH by blast
  have tv: "below W R tv b'" "\<And>b0. b = Some b0 \<Longrightarrow> below W R b0 b'"
    unfolding below_def using s(3) merge_typed by blast+
  have trans: "below W R x t'" if "below W R x b'" for x using that below by (auto simp: below_def)
  have "\<exists>tv fs1 fs2. check (snd c) fs1 = (Inr tv, fs2) \<and> below W R tv t'" using s(1) trans [OF tv(1)] c by auto
  moreover have "\<forall>b0. b = Some b0 \<longrightarrow> below W R b0 t'" using tv(2) trans by blast
  ultimately show ?case using IH by (simp only: list.set ball_simps) blast
qed

lemma check_cases_some: "check_cases check keyword t b cases fs = (Inr r, fs') \<Longrightarrow> cases \<noteq> [] \<or> b \<noteq> None \<Longrightarrow> \<exists>t'. r = Some t'"
proof (induction cases arbitrary: b fs)
  case (Cons c cases)
  obtain m e where c: "c = (m, e)" by fastforce
  from Cons.prems(1) obtain fs2 b' where "check_cases check keyword t (Some b') cases fs2 = (Inr r, fs')"
    unfolding c by (rule check_cases_ConsE)
  then show ?case by (rule Cons.IH) simp
qed auto

lemma eval_cases_value:
  assumes "eval_cases R ev x cases d = Inr v"
  shows "ev d = Inr v \<or> (\<exists>item\<in>set cases. ev (snd item) = Inr v)"
  using assms by (induction cases) (auto split: sum.splits if_splits)

lemma checked_typed:
  assumes env: "env_ok W R symbols vs" and closed: "int_closed W (rt_floats R)"
  shows "checkExpr symbols funs e fs = (Inr t, fs') \<Longrightarrow> evalExpr R vs e = Inr v \<Longrightarrow> typed W R t v"
proof (induction e arbitrary: fs t fs' v)
  case (LiteralExpr t' x s)
  then show ?case using literal_typed [OF closed] by auto
next
  case (IdentExpr name s)
  with env show ?case by (auto simp: env_ok_def wrapped_Inr intro: conforms_typed split: option.splits)
next
  case (MemberExpr x name s)
  from MemberExpr.prems(1) obtain base where "member_type symbols (MemberExpr x name s) name base = Inr t"
    by (auto simp: bindc_Inr)
  then show ?case
    using eval_path [OF env MemberExpr.prems(2)]
    by (auto simp: member_type_def wrapped_Inr Let_def simp del: exprPath.simps intro: conforms_typed split: option.splits if_splits)
next
  case (IndexExpr x i s)
  from IndexExpr.prems(1) obtain base index where "index_type symbols (IndexExpr x i s) x i base index = Inr t"
    by (auto simp: bindc_Inr)
  then show ?case
    using eval_path [OF env IndexExpr.prems(2)]
    by (auto simp: index_type_def wrapped_Inr Let_def simp del: exprPath.simps intro: conforms_typed split: option.splits if_splits)
next
  case (CallExpr name args s)
  show ?case
  proof (cases "builtin name")
    case None
    then show ?thesis using CallExpr.prems(2) builtin_defined [of R "evalExpr R vs" name args] by simp
  next
    case (Some b)
    obtain arity ok result where b: "b = (arity, ok, result)" by (cases b)
    with Some CallExpr.prems have "t = result" "evalBuiltinCall R (evalExpr R vs) name args = Some (Inr v)"
      by (auto simp: wrapped_Inr split: if_splits prod.splits sum.splits option.splits)
    with Some b builtin_typed closed show ?thesis by blast
  qed
next
  case (UnaryExpr op x s)
  then show ?case by (auto simp: check_success split: sum.splits intro: unary_typed [OF closed])
next
  case (BinaryExpr op l r s)
  from BinaryExpr.prems(1) obtain lt fs1 rt fs2 where c: "checkExpr symbols funs l fs = (Inr lt, fs1)" "checkExpr symbols funs r fs1 = (Inr rt, fs2)"
      "checkBinaryExpr op lt rt = Inr t" by (auto simp: check_success)
  from BinaryExpr.prems(2) obtain lv rv where e: "evalExpr R vs l = Inr lv" "evalExpr R vs r = Inr rv" "evalBinary R op lv rv = Inr v"
    by (auto split: sum.splits)
  show ?case
    by (rule binary_typed [OF c(3) e(3) BinaryExpr.IH(1) [OF c(1) e(1)] BinaryExpr.IH(2) [OF c(2) e(2)] closed])
next
  case (ConditionalExpr c a b s)
  from ConditionalExpr.prems(1) obtain ta fs1 fs2 tb fs3 where c: "checkExpr symbols funs a fs1 = (Inr ta, fs2)" "checkExpr symbols funs b fs2 = (Inr tb, fs3)"
      "mergeBranchTypes ta tb ''if'' = Inr t" by (auto simp: check_success checkConditionalBranches_def split: if_splits)
  from ConditionalExpr.prems(2) have "evalExpr R vs a = Inr v \<or> evalExpr R vs b = Inr v"
    by (auto split: sum.splits val.splits if_splits)
  then show ?case
  proof
    assume "evalExpr R vs a = Inr v"
    then show ?thesis by (rule merge_typed(1) [OF c(3) ConditionalExpr.IH(2) [OF c(1)]])
  next
    assume "evalExpr R vs b = Inr v"
    then show ?thesis by (rule merge_typed(2) [OF c(3) ConditionalExpr.IH(3) [OF c(2)]])
  qed
next
  case (SwitchExpr keyword x cases d s)
  from SwitchExpr.prems(1) obtain vt fs1 bt fs2 dt fs3 where c: "check_cases (checkExpr symbols funs) keyword vt None cases fs1 = (Inr bt, fs2)"
      "checkExpr symbols funs d fs2 = (Inr dt, fs3)" "mergeBranchTypes (case bt of None \<Rightarrow> TypeUnknown | Some t \<Rightarrow> t) dt keyword = Inr t"
    by (auto simp: check_success)
  from SwitchExpr.prems(2) obtain xv where "eval_cases R (evalExpr R vs) xv cases d = Inr v" by (auto split: sum.splits)
  then consider (default) "evalExpr R vs d = Inr v" | (item) item where "item \<in> set cases" "evalExpr R vs (snd item) = Inr v"
    using eval_cases_value by blast
  then show ?case
  proof cases
    case default
    then show ?thesis using SwitchExpr.IH(4) [OF c(2)] merge_typed(2) [OF c(3)] by blast
  next
    case item
    then obtain bt' where bt: "bt = Some bt'" using check_cases_some [OF c(1)] by fastforce
    obtain tv fs4 fs5 where "checkExpr symbols funs (snd item) fs4 = (Inr tv, fs5)" "below W R tv bt'"
      using case_types [OF c(1) [unfolded bt], of W R] item(1) by meson
    moreover from this(1) have "typed W R tv v" using SwitchExpr.IH(3) [of item "snd item"] item by (auto simp: snds.simps)
    ultimately have "typed W R bt' v" unfolding below_def by blast
    then show ?thesis using merge_typed(1) [OF c(3), of W R v] bt by (simp only: option.case)
  qed
qed


section \<open>Checked expressions have no type errors\<close>

text \<open>
  The errors of the evaluator that say that a value has the wrong type. The others depend on the
  values: a missing value or field, an index or a digit count that is not whole or not in range, a
  division by zero, a text that is no number, a helper that only the browser has.
\<close>

fun type_error :: "eval_error \<Rightarrow> bool" where
  "type_error (CannotReadField _) = True"
| "type_error CannotIndexValue = True"
| "type_error NotRequires = True"
| "type_error MinusRequires = True"
| "type_error (BadUnary _) = True"
| "type_error PlusMatching = True"
| "type_error (OpRequiresNumbers _) = True"
| "type_error (CompareMatching _) = True"
| "type_error (CompareRequires _) = True"
| "type_error (OpRequiresBools _) = True"
| "type_error (BadBinary _) = True"
| "type_error CondRequires = True"
| "type_error (BuiltinArity _ _) = True"
| "type_error LenRequires = True"
| "type_error (CaseRequires _) = True"
| "type_error (ContainsRequires _) = True"
| "type_error StringRequires = True"
| "type_error (NumberRequires _) = True"
| "type_error (DigitsArg _ i) = (i = 1)"
| "type_error (TimeArg _) = True"
| "type_error _ = False"

definition ty :: "symbols \<Rightarrow> helpers \<Rightarrow> expr \<Rightarrow> check_error + ValueType" where
  "ty symbols funs e = fst (checkExpr symbols funs e [])"

text \<open>
  The operands of an expression have known types, a field is read from an object and an item from an
  array: what the checker leaves open where it meets a value of unknown type.
\<close>

fun known :: "symbols \<Rightarrow> helpers \<Rightarrow> expr \<Rightarrow> bool" where
  "known symbols funs (LiteralExpr _ _ _) \<longleftrightarrow> True"
| "known symbols funs (IdentExpr _ _) \<longleftrightarrow> True"
| "known symbols funs (MemberExpr x _ _) \<longleftrightarrow> known symbols funs x \<and> ty symbols funs x = Inr TypeObject"
| "known symbols funs (IndexExpr x i _) \<longleftrightarrow>
     known symbols funs x \<and> known symbols funs i \<and> ty symbols funs x = Inr TypeArray \<and> ty symbols funs i = Inr TypeInt"
| "known symbols funs (CallExpr _ args _) \<longleftrightarrow>
     (\<forall>a\<in>set args. known symbols funs a \<and> ty symbols funs a \<noteq> Inr TypeUnknown)"
| "known symbols funs (UnaryExpr _ x _) \<longleftrightarrow> known symbols funs x \<and> ty symbols funs x \<noteq> Inr TypeUnknown"
| "known symbols funs (BinaryExpr _ l r _) \<longleftrightarrow>
     known symbols funs l \<and> known symbols funs r \<and> ty symbols funs l \<noteq> Inr TypeUnknown \<and> ty symbols funs r \<noteq> Inr TypeUnknown"
| "known symbols funs (ConditionalExpr c t e _) \<longleftrightarrow>
     known symbols funs c \<and> known symbols funs t \<and> known symbols funs e \<and> ty symbols funs c \<noteq> Inr TypeUnknown"
| "known symbols funs (SwitchExpr _ v cases d _) \<longleftrightarrow>
     known symbols funs v \<and> known symbols funs d \<and>
     (\<forall>item\<in>set cases. known symbols funs (fst item) \<and> known symbols funs (snd item))"

lemma fst_bindc:
  assumes "fst r = fst r'" "\<And>x fs fs'. r = (Inr x, fs) \<Longrightarrow> r' = (Inr x, fs') \<Longrightarrow> fst (g x fs) = fst (g' x fs')"
  shows "fst (bindc r g) = fst (bindc r' g')"
  using assms by (cases r; cases r'; cases "fst r") (auto simp: bindc_def)

lemma check_args_indep:
  assumes "\<And>a fs fs'. a \<in> set args \<Longrightarrow> fst (check a fs) = fst (check a fs')"
  shows "fst (check_args check test n args fs) = fst (check_args check test n args fs')"
  using assms
proof (induction args arbitrary: n fs fs')
  case (Cons a args)
  have IH: "fst (check_args check test m args fs1) = fst (check_args check test m args fs2)" for m fs1 fs2
    using Cons by (meson list.set_intros(2))
  show ?case unfolding check_args.simps
    by (rule fst_bindc) (use Cons.prems IH in \<open>auto split: option.split\<close>)
qed simp

lemma check_cases_indep:
  assumes "\<And>item fs fs'. item \<in> set cases \<Longrightarrow> fst (check (fst item) fs) = fst (check (fst item) fs')"
    and "\<And>item fs fs'. item \<in> set cases \<Longrightarrow> fst (check (snd item) fs) = fst (check (snd item) fs')"
  shows "fst (check_cases check keyword t b cases fs) = fst (check_cases check keyword t b cases fs')"
  using assms
proof (induction cases arbitrary: b fs fs')
  case (Cons c cases)
  obtain m v where c: "c = (m, v)" by fastforce
  have IH: "fst (check_cases check keyword t b' cases fs1) = fst (check_cases check keyword t b' cases fs2)" for b' fs1 fs2
    using Cons by (meson list.set_intros(2))
  have ck: "fst (check m fs1) = fst (check m fs2)" "fst (check v fs1) = fst (check v fs2)" for fs1 fs2
    using Cons.prems(1) [of c fs1 fs2] Cons.prems(2) [of c fs1 fs2] c by simp_all
  have inner: "fst (bindc (check v fs1) (\<lambda>caseType flds. case b of
         None \<Rightarrow> check_cases check keyword t (Some caseType) cases flds
       | Some t' \<Rightarrow> (case mergeBranchTypes t' caseType keyword of
           Inl err \<Rightarrow> (Inl \<lparr>ce_message = err, ce_span = Some (ExprSpan v)\<rparr>, flds)
         | Inr t'' \<Rightarrow> check_cases check keyword t (Some t'') cases flds))) =
      fst (bindc (check v fs2) (\<lambda>caseType flds. case b of
         None \<Rightarrow> check_cases check keyword t (Some caseType) cases flds
       | Some t' \<Rightarrow> (case mergeBranchTypes t' caseType keyword of
           Inl err \<Rightarrow> (Inl \<lparr>ce_message = err, ce_span = Some (ExprSpan v)\<rparr>, flds)
         | Inr t'' \<Rightarrow> check_cases check keyword t (Some t'') cases flds)))" for fs1 fs2
    by (rule fst_bindc [OF ck(2)]) (use IH in \<open>auto split: option.split sum.split\<close>)
  show ?case unfolding c check_cases.simps
    by (rule fst_bindc [OF ck(1)]) (use inner in \<open>auto split: option.split\<close>)
qed simp

lemma checkExpr_indep: "fst (checkExpr symbols funs e fs) = fst (checkExpr symbols funs e fs')"
proof (induction e arbitrary: fs fs')
  case (CallExpr name args s)
  have args: "fst (check_args (checkExpr symbols funs) test n args fs1) = fst (check_args (checkExpr symbols funs) test n args fs2)" for test n fs1 fs2
    by (rule check_args_indep) (rule CallExpr.IH)
  have wrap: "fst (case check_args (checkExpr symbols funs) test n args fs of
        (Inl err, flds) \<Rightarrow> (Inl (wrapExprError (CallExpr name args s) err), flds) | (Inr _, flds) \<Rightarrow> (Inr result, flds)) =
      fst (case check_args (checkExpr symbols funs) test n args fs' of
        (Inl err, flds) \<Rightarrow> (Inl (wrapExprError (CallExpr name args s) err), flds) | (Inr _, flds) \<Rightarrow> (Inr result, flds))" for test n result
    using args [of test n fs fs'] by (auto split: prod.splits sum.splits)
  show ?case using wrap by (auto intro!: fst_bindc args split: option.split)
next
  case (SwitchExpr keyword v cases d s)
  have cases: "fst (check_cases (checkExpr symbols funs) keyword t b cases fs1) = fst (check_cases (checkExpr symbols funs) keyword t b cases fs2)" for t b fs1 fs2
    by (rule check_cases_indep) (use SwitchExpr.IH(2,3) in \<open>auto simp: fsts.simps snds.simps\<close>)
  show ?case unfolding checkExpr.simps
    by (intro fst_bindc SwitchExpr.IH(1) cases SwitchExpr.IH(4)) simp
qed (auto intro!: fst_bindc split: option.split)

lemma ty_eq: "checkExpr symbols funs e fs = (r, fs') \<Longrightarrow> ty symbols funs e = r"
  using checkExpr_indep [of symbols funs e "[]" fs] by (simp add: ty_def)


lemma unary_ok:
  "checkUnaryExpr op t = Inr t' \<Longrightarrow> t \<noteq> TypeUnknown \<Longrightarrow> typed W R t v \<Longrightarrow> evalUnary R op v = Inl err \<Longrightarrow> \<not> type_error err"
  by (auto simp: checkUnaryExpr_def evalUnary_def isNumericType_def split: if_splits val.splits option.splits)

lemma arith_ok: "evalArith R op x y = Inl err \<Longrightarrow> \<not> type_error err"
  by (auto simp: evalArith_def Let_def split: if_splits)

lemma number_not_string: "numericFloat R v \<noteq> None \<Longrightarrow> v \<noteq> VString s"
  by (auto simp: numericFloat_def)

lemma binary_ok:
  assumes "checkBinaryExpr op l r = Inr t" "l \<noteq> TypeUnknown" "r \<noteq> TypeUnknown" "typed W R l lv" "typed W R r rv"
    and err: "evalBinary R op lv rv = Inl err"
  shows "\<not> type_error err"
proof -
  have num: "numericFloat R lv \<noteq> None" if "isNumericType l" using typed_numeric assms(4) that by blast
  have num': "numericFloat R rv \<noteq> None" if "isNumericType r" using typed_numeric assms(5) that by blast
  consider (arith) "op \<in> set [''+'', ''-'', ''*'', ''/'', ''%'']" | (eq) "op = ''=='' \<or> op = ''!=''"
    | (cmp) "op \<in> set [''<'', ''<='', ''>'', ''>='']" | (log) "op = ''&&'' \<or> op = ''||''"
    using assms(1-3) by (fastforce simp: checkBinaryExpr_def split: if_splits)
  then show ?thesis
  proof cases
    case arith
    show ?thesis
    proof (cases "op = ''+'' \<and> l = TypeString \<and> r = TypeString")
      case True
      with assms(4-6) show ?thesis by (auto simp: evalBinary_def split: val.splits)
    next
      case False
      with arith assms(1-3) have "isNumericType l" "isNumericType r" by (auto simp: checkBinaryExpr_def split: if_splits)
      then obtain x y where xy: "numericFloat R lv = Some x" "numericFloat R rv = Some y" using num num' by auto
      then have "evalBinary R op lv rv = evalArith R op x y"
        using arith number_not_string [of R lv] by (cases lv) (auto simp: evalBinary_def Let_def numericFloat_def)
      with err arith_ok show ?thesis by metis
    qed
  next
    case eq
    with err show ?thesis by (auto simp: evalBinary_def Let_def)
  next
    case cmp
    then have "isNumericType l \<and> isNumericType r \<or> l = TypeString \<and> r = TypeString"
      using assms(1-3) by (auto simp: checkBinaryExpr_def split: if_splits)
    then show ?thesis
    proof
      assume "isNumericType l \<and> isNumericType r"
      then obtain x y where xy: "numericFloat R lv = Some x" "numericFloat R rv = Some y" using num num' by auto
      with err show ?thesis unfolding evalBinary_compare [OF cmp] by (cases lv) (auto simp: numericFloat_def)
    next
      assume "l = TypeString \<and> r = TypeString"
      with assms(4,5) err show ?thesis unfolding evalBinary_compare [OF cmp] by (auto split: val.splits)
    qed
  next
    case log
    then have "l = TypeBool" "r = TypeBool" using assms(1-3) by (auto simp: checkBinaryExpr_def split: if_splits)
    with log assms(4,5) err show ?thesis by (cases lv; cases rv) (auto simp: evalBinary_def Let_def)
  qed
qed

text \<open>An argument of a call: its value has its type, or its evaluation fails without a type error.\<close>

definition arg_ok :: "('f \<Rightarrow> bool) \<Rightarrow> 'f runtime \<Rightarrow> 'f evalf \<Rightarrow> ValueType \<Rightarrow> expr \<Rightarrow> bool" where
  "arg_ok W R ev t a \<longleftrightarrow> t \<noteq> TypeUnknown \<and> (case ev a of Inl err \<Rightarrow> \<not> type_error err | Inr v \<Rightarrow> typed W R t v)"

lemma check_args_nth:
  assumes "check_args check test n args fs = (Inr r, fs')" "i < length args"
  shows "\<exists>t fs1 fs2. check (args ! i) fs1 = (Inr t, fs2) \<and> test (n + i) (args ! i) t = None"
  using assms
proof (induction args arbitrary: n fs i)
  case (Cons a args)
  from Cons.prems(1) obtain t fs1 where s: "check a fs = (Inr t, fs1)" "test n a t = None" "check_args check test (Suc n) args fs1 = (Inr r, fs')"
    by (rule check_args_ConsE)
  show ?case
  proof (cases i)
    case 0
    with s(1,2) show ?thesis by auto
  next
    case (Suc j)
    with Cons.IH [OF s(3), of j] Cons.prems(2) show ?thesis by auto
  qed
qed simp

lemma builtin_arg_ok:
  "arg_ok W R ev t a \<Longrightarrow> t = TypeString \<or> t = TypeArray \<Longrightarrow> evalLen ev a = Inl err \<Longrightarrow> \<not> type_error err"
  "arg_ok W R ev TypeString a \<Longrightarrow> evalCaseBuiltin ev name f a = Inl err \<Longrightarrow> \<not> type_error err"
  "arg_ok W R ev TypeString a \<Longrightarrow> arg_ok W R ev TypeString b \<Longrightarrow> evalContainsBuiltin ev a b = Inl err \<Longrightarrow> \<not> type_error err"
  "arg_ok W R ev t a \<Longrightarrow> t \<noteq> TypeArray \<and> t \<noteq> TypeObject \<Longrightarrow> evalStringBuiltin R ev a = Inl err \<Longrightarrow> \<not> type_error err"
  "arg_ok W R ev t a \<Longrightarrow> t = TypeString \<or> isNumericType t \<Longrightarrow> evalNumericBuiltin R ev name i a = Inl err \<Longrightarrow> \<not> type_error err"
  "arg_ok W R ev t a \<Longrightarrow> isNumericType t \<Longrightarrow> arg_ok W R ev TypeString b \<Longrightarrow> evalFormatTimeBuiltin R ev a b = Inl err \<Longrightarrow> \<not> type_error err"
  "arg_ok W R ev t a \<Longrightarrow> isNumericType t \<Longrightarrow> arg_ok W R ev t' b \<Longrightarrow> evalNumberDigitsArgs R ev name a b = Inl err \<Longrightarrow> \<not> type_error err"
  subgoal by (auto simp: arg_ok_def evalLen_def split: sum.splits val.splits)
  subgoal by (auto simp: arg_ok_def evalCaseBuiltin_def split: sum.splits val.splits)
  subgoal by (auto simp: arg_ok_def evalContainsBuiltin_def split: sum.splits val.splits)
  subgoal by (cases t) (auto simp: arg_ok_def evalStringBuiltin_def scalar_string_def numericFloat_def split: sum.splits val.splits option.splits)
  subgoal by (auto simp: arg_ok_def evalNumericBuiltin_def isNumericType_def numericFloat_def split: sum.splits val.splits option.splits)
  subgoal by (auto simp: arg_ok_def evalFormatTimeBuiltin_def isNumericType_def split: sum.splits val.splits option.splits)
  subgoal by (auto simp: arg_ok_def evalNumberDigitsArgs_def isNumericType_def split: sum.splits option.splits)
  done

lemma formatted_ok: "formatted g r = Inl err \<Longrightarrow> \<not> type_error err"
  by (auto simp: formatted_def split: sum.splits)


lemma unary_call_ok:
  assumes "unary_call name args f = Some (Inl err)" "length args = 1" "\<And>a. args = [a] \<Longrightarrow> f a = Inl err \<Longrightarrow> \<not> type_error err"
  shows "\<not> type_error err"
  using assms by (cases args) (auto simp: unary_call_def)

lemma binary_call_ok:
  assumes "binary_call name args f = Some (Inl err)" "length args = 2" "\<And>a b. args = [a, b] \<Longrightarrow> f a b = Inl err \<Longrightarrow> \<not> type_error err"
  shows "\<not> type_error err"
proof -
  obtain a b where "args = [a, b]" using assms(2) by (auto simp: length_Suc_conv numeral_2_eq_2)
  with assms(1,3) show ?thesis by (simp add: binary_call_def)
qed

lemma digits_call_ok:
  assumes "binary_call name args (\<lambda>a b. bind (evalNumberDigitsArgs R ev name a b) (\<lambda>(x, n). formatted g (h x n))) = Some (Inl err)"
    and "length args = 2" "\<And>i. i < 2 \<Longrightarrow> \<exists>ta. (if i = 0 then number_arg ta else True) \<and> arg_ok W R ev ta (args ! i)"
  shows "\<not> type_error err"
proof (rule binary_call_ok [OF assms(1,2)])
  fix a b assume "args = [a, b]" and err: "bind (evalNumberDigitsArgs R ev name a b) (\<lambda>(x, n). formatted g (h x n)) = Inl err"
  then obtain ta tb where "number_arg ta" "arg_ok W R ev ta a" "arg_ok W R ev tb b" using assms(3) [of 0] assms(3) [of 1] by auto
  then have "isNumericType ta" "arg_ok W R ev ta a" "arg_ok W R ev tb b" by (auto simp: number_arg_def arg_ok_def)
  with err show "\<not> type_error err"
    using builtin_arg_ok(7) [of W R ev ta a tb b name] formatted_ok by (fastforce split: sum.splits prod.splits)
qed

lemma builtin_call_ok:
  fixes R :: "'f runtime"
  assumes b: "builtin name = Some (arity, ok, t)" and len: "length args = arity"
    and args: "\<And>i. i < length args \<Longrightarrow> \<exists>ta. ok i ta \<and> arg_ok W R ev ta (args ! i)"
    and err: "evalBuiltinCall R ev name args = Some (Inl err)"
  shows "\<not> type_error err"
proof -
  note defs = builtin_def evalBuiltinCall_def Let_def
  have one: "\<exists>ta. ok 0 ta \<and> arg_ok W R ev ta a" if "args = [a]" for a using args [of 0] that by simp
  have two: "(\<exists>ta. ok 0 ta \<and> arg_ok W R ev ta a) \<and> (\<exists>tb. ok 1 tb \<and> arg_ok W R ev tb c)" if "args = [a, c]" for a c
    using args [of 0] args [of 1] that by simp
  from builtin_name [OF b] show ?thesis
  proof (elim disjE)
    assume "name = ''len''"
    then have "arity = 1" "ok = (\<lambda>_ t. t = TypeUnknown \<or> t = TypeString \<or> t = TypeArray)" "unary_call name args (evalLen ev) = Some (Inl err)"
      using b err by (auto simp: defs)
    with len one show ?thesis by (metis unary_call_ok builtin_arg_ok(1) arg_ok_def)
  next
    assume "name = ''lower''"
    then have "arity = 1" "ok = (\<lambda>_. string_arg)" "unary_call name args (evalCaseBuiltin ev name (rt_lower R)) = Some (Inl err)"
      using b err by (auto simp: defs)
    with len one show ?thesis by (metis unary_call_ok builtin_arg_ok(2) arg_ok_def string_arg_def)
  next
    assume "name = ''upper''"
    then have "arity = 1" "ok = (\<lambda>_. string_arg)" "unary_call name args (evalCaseBuiltin ev name (rt_upper R)) = Some (Inl err)"
      using b err by (auto simp: defs)
    with len one show ?thesis by (metis unary_call_ok builtin_arg_ok(2) arg_ok_def string_arg_def)
  next
    assume "name = ''contains''"
    then have "arity = 2" "ok = (\<lambda>_. string_arg)" "binary_call name args (evalContainsBuiltin ev) = Some (Inl err)"
      using b err by (auto simp: defs)
    moreover have "arg_ok W R ev TypeString a" if "string_arg t'" "arg_ok W R ev t' a" for t' a
      using that by (auto simp: string_arg_def arg_ok_def)
    ultimately show ?thesis using len two builtin_arg_ok(3) by (elim binary_call_ok) blast+
  next
    assume "name = ''string''"
    then have "arity = 1" "ok = (\<lambda>_ t. t \<noteq> TypeArray \<and> t \<noteq> TypeObject)" "unary_call name args (evalStringBuiltin R ev) = Some (Inl err)"
      using b err by (auto simp: defs)
    then show ?thesis using len one builtin_arg_ok(4) by (elim unary_call_ok) blast+
  next
    assume "name = ''int''"
    then have "arity = 1" "ok = (\<lambda>_ t. string_arg t \<or> number_arg t)" "unary_call name args (evalNumericBuiltin R ev name True) = Some (Inl err)"
      using b err by (auto simp: defs)
    moreover have "t' = TypeString \<or> isNumericType t'" if "string_arg t' \<or> number_arg t'" "arg_ok W R ev t' a" for t' a
      using that by (auto simp: string_arg_def number_arg_def arg_ok_def)
    ultimately show ?thesis using len one builtin_arg_ok(5) by (elim unary_call_ok) blast+
  next
    assume "name = ''float''"
    then have "arity = 1" "ok = (\<lambda>_ t. string_arg t \<or> number_arg t)" "unary_call name args (evalNumericBuiltin R ev name False) = Some (Inl err)"
      using b err by (auto simp: defs)
    moreover have "t' = TypeString \<or> isNumericType t'" if "string_arg t' \<or> number_arg t'" "arg_ok W R ev t' a" for t' a
      using that by (auto simp: string_arg_def number_arg_def arg_ok_def)
    ultimately show ?thesis using len one builtin_arg_ok(5) by (elim unary_call_ok) blast+
  next
    assume "name = ''fixed''"
    then have *: "arity = 2" "ok = (\<lambda>i t. if i = 0 then number_arg t else t = TypeUnknown \<or> t = TypeInt)"
      "binary_call name args (\<lambda>a b. bind (evalNumberDigitsArgs R ev name a b)
        (\<lambda>(x, n). formatted (VString :: string \<Rightarrow> 'f val) (formatFixed (rt_floats R) x n))) = Some (Inl err)" using b err by (simp_all add: defs)
    show ?thesis by (rule digits_call_ok [OF *(3)]) (use len * args in \<open>fastforce+\<close>)
  next
    assume "name = ''round''"
    then have *: "arity = 2" "ok = (\<lambda>i t. if i = 0 then number_arg t else t = TypeUnknown \<or> t = TypeInt)"
      "binary_call name args (\<lambda>a b. bind (evalNumberDigitsArgs R ev name a b)
        (\<lambda>(x, n). formatted VFloat (roundTo (rt_floats R) x n))) = Some (Inl err)" using b err by (simp_all add: defs)
    show ?thesis by (rule digits_call_ok [OF *(3)]) (use len * args in \<open>fastforce+\<close>)
  next
    assume "name = ''percent''"
    then have *: "arity = 2" "ok = (\<lambda>i t. if i = 0 then number_arg t else t = TypeUnknown \<or> t = TypeInt)"
      "binary_call name args (\<lambda>a b. bind (evalNumberDigitsArgs R ev name a b)
        (\<lambda>(x, n). formatted (VString :: string \<Rightarrow> 'f val) (formatPercent (rt_floats R) x n))) = Some (Inl err)" using b err by (simp_all add: defs)
    show ?thesis by (rule digits_call_ok [OF *(3)]) (use len * args in \<open>fastforce+\<close>)
  next
    assume "name = ''formatTime''"
    then have *: "arity = 2" "ok = (\<lambda>i t. if i = 0 then number_arg t else string_arg t)"
      "binary_call name args (evalFormatTimeBuiltin R ev) = Some (Inl err)" using b err by (auto simp: defs)
    show ?thesis
    proof (rule binary_call_ok [OF *(3)])
      fix a c assume "args = [a, c]" "evalFormatTimeBuiltin R ev a c = Inl err"
      then show "\<not> type_error err"
        using two [of a c] *(2) builtin_arg_ok(6) [of W R ev _ a c err] by (auto simp: number_arg_def string_arg_def arg_ok_def)
    qed (use len * in simp)
  qed
qed


lemma eval_cases_error:
  assumes "eval_cases R ev x cases d = Inl err"
  shows "ev d = Inl err \<or> (\<exists>item\<in>set cases. ev (fst item) = Inl err \<or> ev (snd item) = Inl err)"
  using assms by (induction cases) (auto split: sum.splits if_splits)

lemma check_cases_checked:
  assumes "check_cases check keyword t b cases fs = (Inr r, fs')" "item \<in> set cases"
  shows "\<exists>tm fs1 fs2. check (fst item) fs1 = (Inr tm, fs2)" "\<exists>tv fs1 fs2. check (snd item) fs1 = (Inr tv, fs2)"
proof -
  have "(\<exists>tm fs1 fs2. check (fst item) fs1 = (Inr tm, fs2)) \<and> (\<exists>tv fs1 fs2. check (snd item) fs1 = (Inr tv, fs2))"
    using assms
  proof (induction cases arbitrary: b fs)
    case (Cons c cases)
    obtain m e where c: "c = (m, e)" by fastforce
    from Cons.prems(1) obtain tm fs1 tv fs2 b' where s: "check m fs = (Inr tm, fs1)" "check e fs1 = (Inr tv, fs2)"
        "check_cases check keyword t (Some b') cases fs2 = (Inr r, fs')"
      unfolding c by (rule check_cases_ConsE)
    show ?case
    proof (cases "item = c")
      case True
      with s c show ?thesis by auto
    next
      case False
      with Cons.prems(2) have "item \<in> set cases" by simp
      then show ?thesis by (rule Cons.IH [OF s(3)])
    qed
  qed simp
  then show "\<exists>tm fs1 fs2. check (fst item) fs1 = (Inr tm, fs2)" "\<exists>tv fs1 fs2. check (snd item) fs1 = (Inr tv, fs2)" by blast+
qed

lemma checked_no_type_error:
  assumes env: "env_ok W R symbols vs" and closed: "int_closed W (rt_floats R)"
  shows "checkExpr symbols funs e fs = (Inr t, fs') \<Longrightarrow> known symbols funs e \<Longrightarrow> evalExpr R vs e = Inl err \<Longrightarrow> \<not> type_error err"
proof (induction e arbitrary: fs t fs' err)
  case (LiteralExpr t' x s)
  then show ?case by (auto simp: evalLiteral_def split: ValueType.splits option.splits sum.splits)
next
  case (IdentExpr name s)
  then show ?case by (auto split: option.splits)
next
  case (MemberExpr x name s)
  from MemberExpr.prems(1) obtain base fs1 where x: "checkExpr symbols funs x fs = (Inr base, fs1)" by (auto simp: bindc_Inr)
  have base: "base = TypeObject" using ty_eq [OF x] MemberExpr.prems(2) by simp
  show ?case
  proof (cases "evalExpr R vs x")
    case (Inl err')
    with MemberExpr.IH [OF x] MemberExpr.prems(2,3) show ?thesis by simp
  next
    case (Inr v)
    with checked_typed [OF env closed x Inr] base MemberExpr.prems(3) show ?thesis
      by (auto simp: read_field_def split: val.splits option.splits)
  qed
next
  case (IndexExpr x i s)
  from IndexExpr.prems(1) obtain base fs1 index fs2 where x: "checkExpr symbols funs x fs = (Inr base, fs1)" "checkExpr symbols funs i fs1 = (Inr index, fs2)"
    by (auto simp: bindc_Inr)
  have base: "base = TypeArray" using ty_eq [OF x(1)] IndexExpr.prems(2) by simp
  show ?case
  proof (cases "evalExpr R vs x")
    case (Inl err')
    with IndexExpr.IH(1) [OF x(1)] IndexExpr.prems(2,3) show ?thesis by simp
  next
    case (Inr v)
    then obtain items where v: "v = VArray items" using checked_typed [OF env closed x(1) Inr] base by (auto split: val.splits)
    show ?thesis
    proof (cases "evalExpr R vs i")
      case (Inl err')
      with Inr IndexExpr.IH(2) [OF x(2)] IndexExpr.prems(2,3) show ?thesis by simp
    next
      case (Inr iv)
      with \<open>evalExpr R vs x = Inr v\<close> v IndexExpr.prems(3) show ?thesis
        by (auto simp: read_index_def Let_def split: option.splits if_splits)
    qed
  qed
next
  case (CallExpr name args s)
  show ?case
  proof (cases "builtin name")
    case None
    then show ?thesis using CallExpr.prems(3) builtin_defined [of R "evalExpr R vs" name args] by auto
  next
    case (Some b)
    obtain arity ok result where b: "b = (arity, ok, result)" by (cases b)
    from Some b CallExpr.prems(1) have len: "length args = arity"
      and "\<exists>r fs1. check_args (checkExpr symbols funs) (builtin_test name ok) 0 args fs = (Inr r, fs1)"
      by (auto simp: wrapped_Inr split: if_splits prod.splits sum.splits)
    then obtain r fs1 where "check_args (checkExpr symbols funs) (builtin_test name ok) 0 args fs = (Inr r, fs1)" by blast
    note nth = check_args_nth [OF this]
    have arg: "\<exists>ta. ok i ta \<and> arg_ok W R (evalExpr R vs) ta (args ! i)" if i: "i < length args" for i
    proof -
      obtain ta fs2 fs3 where a: "checkExpr symbols funs (args ! i) fs2 = (Inr ta, fs3)" "builtin_test name ok (0 + i) (args ! i) ta = None"
        using nth [OF i] by blast
      have mem: "args ! i \<in> set args" using i by simp
      have "ok i ta" using a(2) by (simp add: builtin_test_def split: if_splits)
      moreover have "ta \<noteq> TypeUnknown" using ty_eq [OF a(1)] CallExpr.prems(2) mem by auto
      moreover have "known symbols funs (args ! i)" using CallExpr.prems(2) mem by simp
      ultimately show ?thesis
        using checked_typed [OF env closed a(1)] CallExpr.IH [OF mem a(1)] by (auto simp: arg_ok_def split: sum.split)
    qed
    have "evalBuiltinCall R (evalExpr R vs) name args = Some (Inl err)"
      using CallExpr.prems(3) Some builtin_defined [of R "evalExpr R vs" name args] by (auto split: option.splits)
    from builtin_call_ok [OF Some [unfolded b] len arg this] show ?thesis .
  qed
next
  case (UnaryExpr op x s)
  from UnaryExpr.prems(1) obtain tx fs1 where x: "checkExpr symbols funs x fs = (Inr tx, fs1)" "checkUnaryExpr op tx = Inr t"
    by (auto simp: check_success)
  have tx: "tx \<noteq> TypeUnknown" using ty_eq [OF x(1)] UnaryExpr.prems(2) by auto
  show ?case
  proof (cases "evalExpr R vs x")
    case (Inl err')
    with UnaryExpr.IH [OF x(1)] UnaryExpr.prems(2,3) show ?thesis by simp
  next
    case (Inr v)
    with unary_ok [OF x(2) tx checked_typed [OF env closed x(1) Inr]] UnaryExpr.prems(3) show ?thesis by simp
  qed
next
  case (BinaryExpr op l r s)
  from BinaryExpr.prems(1) obtain lt fs1 rt fs2 where x: "checkExpr symbols funs l fs = (Inr lt, fs1)" "checkExpr symbols funs r fs1 = (Inr rt, fs2)"
      "checkBinaryExpr op lt rt = Inr t" by (auto simp: check_success)
  have nk: "lt \<noteq> TypeUnknown" "rt \<noteq> TypeUnknown" using ty_eq [OF x(1)] ty_eq [OF x(2)] BinaryExpr.prems(2) by auto
  show ?case
  proof (cases "evalExpr R vs l")
    case (Inl err')
    with BinaryExpr.IH(1) [OF x(1)] BinaryExpr.prems(2,3) show ?thesis by simp
  next
    case l: (Inr lv)
    show ?thesis
    proof (cases "evalExpr R vs r")
      case (Inl err')
      with l BinaryExpr.IH(2) [OF x(2)] BinaryExpr.prems(2,3) show ?thesis by simp
    next
      case (Inr rv)
      with l binary_ok [OF x(3) nk checked_typed [OF env closed x(1) l] checked_typed [OF env closed x(2) Inr]] BinaryExpr.prems(3) show ?thesis by simp
    qed
  qed
next
  case (ConditionalExpr c a b s)
  from ConditionalExpr.prems(1) obtain tc fs1 ta fs2 tb fs3 where x: "checkExpr symbols funs c fs = (Inr tc, fs1)" "tc = TypeUnknown \<or> tc = TypeBool"
      "checkExpr symbols funs a fs1 = (Inr ta, fs2)" "checkExpr symbols funs b fs2 = (Inr tb, fs3)"
    by (auto simp: check_success split: if_splits)
  have tc: "tc = TypeBool" using ty_eq [OF x(1)] ConditionalExpr.prems(2) x(2) by auto
  show ?case
  proof (cases "evalExpr R vs c")
    case (Inl err')
    with ConditionalExpr.IH(1) [OF x(1)] ConditionalExpr.prems(2,3) show ?thesis by simp
  next
    case (Inr v)
    then obtain q where "v = VBool q" using checked_typed [OF env closed x(1) Inr] tc by (auto split: val.splits)
    with Inr ConditionalExpr.prems(3) have "evalExpr R vs a = Inl err \<or> evalExpr R vs b = Inl err" by (simp split: if_splits)
    with ConditionalExpr.IH(2) [OF x(3)] ConditionalExpr.IH(3) [OF x(4)] ConditionalExpr.prems(2) show ?thesis by auto
  qed
next
  case (SwitchExpr keyword x cases d s)
  from SwitchExpr.prems(1) obtain vt fs0 fs1 bt fs2 dt fs3 where c: "checkExpr symbols funs x fs = (Inr vt, fs1)"
      "check_cases (checkExpr symbols funs) keyword vt None cases fs1 = (Inr bt, fs2)" "checkExpr symbols funs d fs2 = (Inr dt, fs3)"
    by (auto simp: check_success)
  show ?case
  proof (cases "evalExpr R vs x")
    case (Inl err')
    with SwitchExpr.IH(1) [OF c(1)] SwitchExpr.prems(2,3) show ?thesis by simp
  next
    case (Inr xv)
    with SwitchExpr.prems(3) have "eval_cases R (evalExpr R vs) xv cases d = Inl err" by simp
    then consider (dflt) "evalExpr R vs d = Inl err" | (m) item where "item \<in> set cases" "evalExpr R vs (fst item) = Inl err"
      | (v) item where "item \<in> set cases" "evalExpr R vs (snd item) = Inl err"
      using eval_cases_error by blast
    then show ?thesis
    proof cases
      case dflt
      with SwitchExpr.IH(4) [OF c(3)] SwitchExpr.prems(2) show ?thesis by simp
    next
      case m
      then obtain tm fs4 fs5 where "checkExpr symbols funs (fst item) fs4 = (Inr tm, fs5)" using check_cases_checked(1) [OF c(2)] by blast
      then show ?thesis using SwitchExpr.IH(2) [of item "fst item"] SwitchExpr.prems(2) m by (auto simp: fsts.simps)
    next
      case v
      then obtain tv fs4 fs5 where "checkExpr symbols funs (snd item) fs4 = (Inr tv, fs5)" using check_cases_checked(2) [OF c(2)] by blast
      then show ?thesis using SwitchExpr.IH(3) [of item "snd item"] SwitchExpr.prems(2) v by (auto simp: snds.simps)
    qed
  qed
qed


text \<open>
  A runtime for examples: its numbers are halves of integers, \<open>n\<close> standing for \<open>n / 2\<close>, and products
  and quotients are rounded down to a half.
\<close>

definition half_floats :: "int floats" where
  "half_floats = \<lparr>f_of_int = (\<lambda>i. 2 * i), f_int = (\<lambda>x. x div 2), f_half = 1, f_add = (+), f_sub = (-),
     f_mul = (\<lambda>x y. x * y div 2), f_div = (\<lambda>x y. 2 * x div y), f_neg = uminus, f_floor = (\<lambda>x. 2 * (x div 2)),
     f_trunc = (\<lambda>x. 2 * (if 0 \<le> x then x div 2 else - (- x div 2))), f_abs = abs, f_eq = (=), f_lt = (<), f_le = (\<le>),
     f_finite = (\<lambda>_. True), f_parse = (\<lambda>s. case Atoi s of Inr i \<Rightarrow> Some (2 * i) | Inl _ \<Rightarrow> None), f_format = Itoa, f_digits = Itoa\<rparr>"

definition half_runtime :: "int runtime" where
  "half_runtime = \<lparr>rt_floats = half_floats, rt_decode = (\<lambda>_. None), rt_lower = ToLower, rt_upper = ToUpper\<rparr>"

lemma whole_half: "whole (rt_floats half_runtime) x \<longleftrightarrow> even x"
  by (simp add: whole_def half_runtime_def half_floats_def) presburger

lemma half_closed: "int_closed (whole (rt_floats half_runtime)) (rt_floats half_runtime)"
  unfolding int_closed_def whole_half by (auto simp: half_runtime_def half_floats_def elim!: evenE)

text \<open>
  C15: When the checker accepts an expression and the values have the declared types, a value that the
  expression evaluates to has the type the checker computed; in particular the value of an expression of
  type int has no fraction. The arithmetic is that of floating-point numbers, where sums, differences,
  products and negations of whole numbers are whole.\<close>

theorem checked_value_has_type:
  assumes "CheckExprWithFunctions u source symbols funs = Inr (t, names)" "env_ok (whole (rt_floats R)) R symbols vs"
    and "EvalValue R u source vs = Inr v" "int_closed (whole (rt_floats R)) (rt_floats R)"
  shows "typed (whole (rt_floats R)) R t v"
proof -
  from assms(1) obtain e fs where "ParseExpr u source = Inr e" "checkExpr symbols funs e [] = (Inr t, fs)"
    by (auto simp: CheckExprWithFunctions_def split: sum.splits prod.splits)
  with assms(3) checked_typed [OF assms(2,4)] show ?thesis by (auto simp: EvalValue_def split: sum.splits)
qed

theorem checked_value_has_type_witness:
  "CheckExprWithFunctions ascii ''a+1'' [''a'' \<mapsto> TypeInt] (\<lambda>_. None) = Inr (TypeInt, [''a'']) \<and>
   EvalValue half_runtime ascii ''a+1'' [''a'' \<mapsto> ''2''] = Inr (VFloat 6) \<and>
   typed (whole (rt_floats half_runtime)) half_runtime TypeInt (VFloat 6) \<and>
   \<not> typed (whole (rt_floats half_runtime)) half_runtime TypeInt (VFloat 7)"
proof -
  have check: "CheckExprWithFunctions ascii ''a+1'' [''a'' \<mapsto> TypeInt] (\<lambda>_. None) = Inr (TypeInt, [''a''])" by code_simp
  have eval: "EvalValue half_runtime ascii ''a+1'' [''a'' \<mapsto> ''2''] = Inr (VFloat 6)" by code_simp
  have "parseRuntimeScalar half_runtime ''2'' = VInt 2" by code_simp
  then have "env_ok (whole (rt_floats half_runtime)) half_runtime [''a'' \<mapsto> TypeInt] [''a'' \<mapsto> ''2'']"
    using half_closed by (auto simp: env_ok_def numericFloat_def int_closed_def split: if_splits)
  from checked_value_has_type [OF check this eval half_closed] check eval show ?thesis
    by (simp add: whole_half numericFloat_def)
qed

text \<open>
  C14: Where moreover no operand has an unknown type, evaluation never fails because a value has the
  wrong type: it gives a value of the computed type, or an error about the values themselves. Here an
  int is any number.\<close>

theorem checked_expression_runs:
  assumes "CheckExprWithFunctions u source symbols funs = Inr (t, names)" "env_ok numeric R symbols vs"
    and "ParseExpr u source = Inr e" "known symbols funs e"
  shows "case EvalValue R u source vs of
      Inr v \<Rightarrow> typed numeric R t v
    | Inl err \<Rightarrow> (case err of RunEval e \<Rightarrow> \<not> type_error e | RunParse _ \<Rightarrow> False)"
proof -
  from assms(1,3) obtain fs where check: "checkExpr symbols funs e [] = (Inr t, fs)"
    by (auto simp: CheckExprWithFunctions_def split: sum.splits prod.splits)
  with assms(3) checked_typed [OF assms(2) int_closed_numeric]
    checked_no_type_error [OF assms(2) int_closed_numeric check assms(4)] show ?thesis
    by (auto simp: EvalValue_def split: sum.splits)
qed

theorem checked_expression_runs_witness:
  "EvalValue half_runtime ascii ''a%0'' [''a'' \<mapsto> ''2''] = Inl (RunEval ModZero) \<and> \<not> type_error ModZero"
proof -
  let ?e = "BinaryExpr ''%'' (IdentExpr ''a'' \<lparr>StartColumn = 1, EndColumn = 2\<rparr>)
      (LiteralExpr TypeInt ''0'' \<lparr>StartColumn = 3, EndColumn = 4\<rparr>) \<lparr>StartColumn = 1, EndColumn = 4\<rparr>"
  have check: "CheckExprWithFunctions ascii ''a%0'' [''a'' \<mapsto> TypeInt] (\<lambda>_. None) = Inr (TypeInt, [''a''])" by code_simp
  have parse: "ParseExpr ascii ''a%0'' = Inr ?e" by code_simp
  have eval: "EvalValue half_runtime ascii ''a%0'' [''a'' \<mapsto> ''2''] = Inl (RunEval ModZero)" by code_simp
  have "parseRuntimeScalar half_runtime ''2'' = VInt 2" by code_simp
  then have env: "env_ok numeric half_runtime [''a'' \<mapsto> TypeInt] [''a'' \<mapsto> ''2'']"
    by (auto simp: env_ok_def numericFloat_def split: if_splits)
  have "known [''a'' \<mapsto> TypeInt] (\<lambda>_. None) ?e" by (simp add: ty_def)
  from checked_expression_runs [OF check env parse this] eval show ?thesis by simp
qed

end
