(* ===== verification/Route.thy ===== *)
theory Route
  imports Http Paths
begin

text \<open>
  \<open>runtime/route/route.go\<close>: matching of a request path against a generated route pattern, and the
  typed decoding of its parameters.
\<close>

section \<open>Matching\<close>

type_synonym params = "string \<Rightarrow> string option"

definition unsafe_value :: "string \<Rightarrow> bool" where
  "unsafe_value v \<longleftrightarrow> v = [] \<or> v = ''.'' \<or> v = ''..''"

definition hasUnsafeRequestSegment :: "string \<Rightarrow> bool" where
  "hasUnsafeRequestSegment requestPath \<longleftrightarrow>
     Contains requestPath ''//'' \<or>
     (let trimmed = Trim requestPath {CHR ''/''}
      in trimmed \<noteq> [] \<and> list_ex unsafe_value (Split trimmed CHR ''/''))"

definition isRestSegment :: "string \<Rightarrow> bool" where
  "isRestSegment part \<longleftrightarrow> HasPrefix part ''{'' \<and> HasSuffix part ''...}'' \<and> length part > length ''{...}''"

definition splitPath :: "string \<Rightarrow> string list" where
  "splitPath v =
     (let trimmed = Trim (Clean (CHR ''/'' # v)) {CHR ''/''}
      in if trimmed = [] then [] else Split trimmed CHR ''/'')"

text \<open>The name between the braces of a parameter segment, and of a final rest segment.\<close>

definition param_name :: "string \<Rightarrow> string" where
  "param_name part = fst (Cut (TrimSuffix (TrimPrefix part ''{'') ''}'') CHR '':'')"

definition rest_name :: "string \<Rightarrow> string" where
  "rest_name part = TrimSuffix (TrimSuffix (TrimPrefix part ''{'') ''}'') ''...''"

definition is_param :: "string \<Rightarrow> bool" where
  "is_param part \<longleftrightarrow> HasPrefix part ''{'' \<and> HasSuffix part ''}''"

text \<open>The loop over the segments of the pattern; the request has at least as many segments.\<close>

fun match_loop :: "bool \<Rightarrow> string list \<Rightarrow> string list \<Rightarrow> params \<Rightarrow> params option" where
  "match_loop rest [] values params = Some params"
| "match_loop rest (part # parts) values params =
     (if rest \<and> parts = [] then
        (if list_ex unsafe_value values then None else Some (params(rest_name part \<mapsto> Join values ''/'')))
      else
        (case values of
           [] \<Rightarrow> None
         | v # vs \<Rightarrow>
             if is_param part then
               (if unsafe_value v then None else match_loop rest parts vs (params(param_name part \<mapsto> v)))
             else if part \<noteq> v then None
             else match_loop rest parts vs params))"

definition Match :: "string \<Rightarrow> string \<Rightarrow> params option" where
  "Match pattern requestPath =
     (if hasUnsafeRequestSegment requestPath then None
      else
        let patternParts = splitPath pattern;
            requestParts = splitPath requestPath;
            rest = (patternParts \<noteq> [] \<and> isRestSegment (last patternParts))
        in if rest \<and>
              (length requestParts < length patternParts \<or>
               list_ex unsafe_value (Split (Trim requestPath {CHR ''/''}) CHR ''/'')) then None
           else if \<not> rest \<and> length patternParts \<noteq> length requestParts then None
           else match_loop rest patternParts requestParts (\<lambda>_. None))"

section \<open>Parameters\<close>

record ParamError =
  pe_Name :: string
  pe_Type :: string
  pe_Missing :: bool
  pe_Err :: "num_error option"

definition Required :: "params \<Rightarrow> string \<Rightarrow> ParamError + string" where
  "Required params name =
     (case params name of
        Some v \<Rightarrow>
          if v = [] then Inl \<lparr>pe_Name = name, pe_Type = ''string'', pe_Missing = True, pe_Err = None\<rparr> else Inr v
      | None \<Rightarrow> Inl \<lparr>pe_Name = name, pe_Type = ''string'', pe_Missing = True, pe_Err = None\<rparr>)"

text \<open>An optional value: \<open>Inr None\<close> is the result without an error whose second component is false.\<close>

definition String :: "params \<Rightarrow> string \<Rightarrow> ParamError + string option" where
  "String params name =
     (case params name of Some v \<Rightarrow> Inr (if v = [] then None else Some v) | None \<Rightarrow> Inr None)"

definition decoded :: "string \<Rightarrow> (string \<Rightarrow> num_error + 'a) \<Rightarrow> params \<Rightarrow> string \<Rightarrow> ParamError + 'a option" where
  "decoded typ parse params name =
     (case String params name of
        Inl err \<Rightarrow> Inl err
      | Inr None \<Rightarrow> Inr None
      | Inr (Some v) \<Rightarrow>
          (case parse v of
             Inl err \<Rightarrow> Inl \<lparr>pe_Name = name, pe_Type = typ, pe_Missing = False, pe_Err = Some err\<rparr>
           | Inr x \<Rightarrow> Inr (Some x)))"

definition IntParam :: "params \<Rightarrow> string \<Rightarrow> ParamError + int option" where
  "IntParam = decoded ''int'' Atoi"

definition Int64 :: "params \<Rightarrow> string \<Rightarrow> ParamError + int option" where
  "Int64 = decoded ''int64'' (parse_int 64)"

definition Uint :: "params \<Rightarrow> string \<Rightarrow> ParamError + int option" where
  "Uint = decoded ''uint'' (parse_uint 64)"

definition Uint64 :: "params \<Rightarrow> string \<Rightarrow> ParamError + int option" where
  "Uint64 = decoded ''uint64'' (parse_uint 64)"

text \<open>\<open>strconv.ParseBool\<close>.\<close>

definition ParseBool :: "string \<Rightarrow> num_error + bool" where
  "ParseBool s =
     (if s \<in> set [''1'', ''t'', ''T'', ''true'', ''TRUE'', ''True''] then Inr True
      else if s \<in> set [''0'', ''f'', ''F'', ''false'', ''FALSE'', ''False''] then Inr False
      else Inl ErrSyntax)"

definition Bool :: "params \<Rightarrow> string \<Rightarrow> ParamError + bool option" where
  "Bool = decoded ''bool'' ParseBool"

text \<open>The parser of floating-point numbers is a parameter.\<close>

definition Float64 :: "(string \<Rightarrow> num_error + 'f) \<Rightarrow> params \<Rightarrow> string \<Rightarrow> ParamError + 'f option" where
  "Float64 ParseFloat = decoded ''float64'' ParseFloat"

definition ParamError_Error :: "(string \<Rightarrow> string) \<Rightarrow> ParamError \<Rightarrow> string" where
  "ParamError_Error Quote err =
     (if pe_Missing err then ''missing route param '' @ Quote (pe_Name err)
      else ''invalid '' @ pe_Type err @ '' route param '' @ Quote (pe_Name err))"

section \<open>Segments of a request path\<close>

text \<open>The segments of a path as it is written, without any cleaning.\<close>

definition segments :: "string \<Rightarrow> string list" where
  "segments p = (let trimmed = Trim p {CHR ''/''} in if trimmed = [] then [] else Split trimmed CHR ''/'')"

lemma filter_Split_TrimLeft:
  "filter (\<lambda>p. p \<noteq> []) (Split (TrimLeft s {sep}) sep) = filter (\<lambda>p. p \<noteq> []) (Split s sep)"
  by (induction s) (auto simp: TrimLeft_def)

lemma Split_snoc_sep: "Split (s @ [sep]) sep = Split s sep @ [[]]"
  by (induction s) (auto split: list.splits)

lemma filter_Split_TrimRight:
  "filter (\<lambda>p. p \<noteq> []) (Split (TrimRight s {sep}) sep) = filter (\<lambda>p. p \<noteq> []) (Split s sep)"
  by (induction s rule: rev_induct) (auto simp: TrimRight_def Split_snoc_sep)

lemma filter_Split_Trim:
  "filter (\<lambda>p. p \<noteq> []) (Split (Trim s {sep}) sep) = filter (\<lambda>p. p \<noteq> []) (Split s sep)"
  by (simp add: Trim_def filter_Split_TrimRight filter_Split_TrimLeft)

lemma clean_parts_filter: "clean_parts rooted out (filter (\<lambda>p. p \<noteq> []) ps) = clean_parts rooted out ps"
  by (induction ps arbitrary: out) (auto split: list.splits)

lemma TrimLeft_id: "s = [] \<or> hd s \<notin> cs \<Longrightarrow> TrimLeft s cs = s"
  by (cases s) (auto simp: TrimLeft_def)

lemma TrimRight_id: "s = [] \<or> last s \<notin> cs \<Longrightarrow> TrimRight s cs = s"
  by (cases s rule: rev_cases) (auto simp: TrimRight_def)

lemma TrimRight_hd: "TrimRight s cs \<noteq> [] \<Longrightarrow> hd (TrimRight s cs) = hd s"
proof -
  assume ne: "TrimRight s cs \<noteq> []"
  have "rev s = takeWhile (\<lambda>c. c \<in> cs) (rev s) @ rev (TrimRight s cs)" by (simp add: TrimRight_def)
  then have "s = TrimRight s cs @ rev (takeWhile (\<lambda>c. c \<in> cs) (rev s))" by (metis rev_append rev_rev_ident)
  with ne show ?thesis by (metis hd_append2)
qed

lemma Trim_ends:
  assumes "Trim s cs \<noteq> []"
  shows "hd (Trim s cs) \<notin> cs" "last (Trim s cs) \<notin> cs"
proof -
  have "TrimLeft s cs \<noteq> []" using assms by (auto simp: Trim_def TrimRight_def)
  then have "hd (TrimLeft s cs) \<notin> cs" using hd_dropWhile unfolding TrimLeft_def by fast
  with TrimRight_hd [of "TrimLeft s cs" cs] assms show "hd (Trim s cs) \<notin> cs" by (simp add: Trim_def)
  let ?r = "dropWhile (\<lambda>c. c \<in> cs) (rev (TrimLeft s cs))"
  have "?r \<noteq> []" "Trim s cs = rev ?r" using assms by (auto simp: Trim_def TrimRight_def)
  then show "last (Trim s cs) \<notin> cs" using hd_dropWhile [of "\<lambda>c. c \<in> cs" "rev (TrimLeft s cs)"] by (simp add: last_rev)
qed

lemma Trim_slash:
  assumes "t = [] \<or> (hd t \<noteq> c \<and> last t \<noteq> c)"
  shows "Trim (c # t) {c} = t"
proof -
  have "TrimLeft (c # t) {c} = t" using TrimLeft_id [of t "{c}"] assms by (auto simp: TrimLeft_def)
  then show ?thesis using TrimRight_id [of t "{c}"] assms by (auto simp: Trim_def)
qed

text \<open>On a path that passes the first test of \<open>Match\<close>, cleaning changes nothing.\<close>

lemma segments_safe:
  assumes "\<not> hasUnsafeRequestSegment p"
  shows "list_all clean_elem (segments p)" "''..'' \<notin> set (segments p)"
proof -
  have "\<forall>v\<in>set (segments p). \<not> unsafe_value v"
    using assms by (auto simp: hasUnsafeRequestSegment_def segments_def Let_def list_ex_iff)
  moreover have "\<forall>v\<in>set (segments p). CHR ''/'' \<notin> set v"
    by (auto simp: segments_def Let_def dest: Split_parts_no_sep)
  ultimately show "list_all clean_elem (segments p)" "''..'' \<notin> set (segments p)"
    by (auto simp: list_all_iff clean_elem_def unsafe_value_def)
qed

lemma splitPath_safe:
  assumes "\<not> hasUnsafeRequestSegment p"
  shows "splitPath p = segments p"
proof -
  let ?t = "Trim p {CHR ''/''}"
  let ?ne = "filter (\<lambda>p. p \<noteq> [])"
  have seg: "segments p = ?ne (Split ?t CHR ''/'')"
  proof (cases "?t = []")
    case False
    then have "list_all clean_elem (Split ?t CHR ''/'')" using segments_safe(1) [OF assms] by (simp add: segments_def)
    then have "?ne (Split ?t CHR ''/'') = Split ?t CHR ''/''" by (auto simp: list_all_iff clean_elem_def intro!: filter_True)
    with False show ?thesis by (simp add: segments_def)
  qed (simp add: segments_def)
  have "clean_parts True [] (Split (CHR ''/'' # p) CHR ''/'') = clean_parts True [] (?ne (Split p CHR ''/''))"
    by (simp add: clean_parts_filter)
  also have "\<dots> = segments p"
    using clean_parts_elems [OF segments_safe [OF assms], of True "[]"] by (simp add: seg filter_Split_Trim)
  finally have clean: "Clean (CHR ''/'' # p) = CHR ''/'' # Join (segments p) ''/''" by (simp add: Clean_def)
  have "Join (segments p) ''/'' = ?t" by (simp add: segments_def Let_def Join_Split)
  with clean Trim_ends [of p "{CHR ''/''}"] have "Trim (Clean (CHR ''/'' # p)) {CHR ''/''} = ?t"
    by (auto intro!: Trim_slash)
  then show ?thesis by (simp add: splitPath_def segments_def)
qed

section \<open>Canonical request paths\<close>

text \<open>A path as its segments are written, with a slash in front or behind or both.\<close>

definition writes :: "string list \<Rightarrow> string \<Rightarrow> bool" where
  "writes segs path \<longleftrightarrow>
     (let j = Join segs ''/''
      in path = j \<or> path = CHR ''/'' # j \<or> segs \<noteq> [] \<and> (path = j @ ''/'' \<or> path = CHR ''/'' # j @ ''/''))"

definition safe_segment :: "string \<Rightarrow> bool" where
  "safe_segment s \<longleftrightarrow> \<not> unsafe_value s \<and> CHR ''/'' \<notin> set s"

lemma safe_segment_clean: "safe_segment s \<longleftrightarrow> clean_elem s \<and> s \<noteq> ''..''"
  by (auto simp: safe_segment_def unsafe_value_def clean_elem_def)

lemma Trim_pieces:
  obtains a b where "s = replicate a c @ Trim s {c} @ replicate b c"
proof -
  have all: "xs = replicate (length xs) c" if "\<forall>x\<in>set xs. x = c" for xs using that by (simp add: replicate_eqI)
  let ?l = "takeWhile (\<lambda>x. x \<in> {c}) s" and ?t = "TrimLeft s {c}"
  let ?r = "rev (takeWhile (\<lambda>x. x \<in> {c}) (rev ?t))"
  have "rev ?t = rev ?r @ rev (Trim s {c})" by (simp add: Trim_def TrimRight_def)
  then have "?t = Trim s {c} @ ?r" by (metis rev_append rev_rev_ident)
  moreover have "s = ?l @ ?t" by (simp add: TrimLeft_def)
  moreover have "?l = replicate (length ?l) c" "?r = replicate (length ?r) c"
    by (rule all; auto dest: set_takeWhileD)+
  ultimately show thesis using that by metis
qed

lemma Join_safe:
  assumes "list_all safe_segment segs" "segs \<noteq> []"
  shows "Split (Join segs ''/'') CHR ''/'' = segs" "Join segs ''/'' \<noteq> []"
    "hd (Join segs ''/'') \<noteq> CHR ''/''" "last (Join segs ''/'') \<noteq> CHR ''/''"
proof -
  show s: "Split (Join segs ''/'') CHR ''/'' = segs" using assms by (intro Split_Join) (auto simp: safe_segment_def list_all_iff)
  have "safe_segment (hd segs)" "safe_segment (last segs)" using assms by (auto simp: list_all_iff)
  then have ends: "hd segs \<noteq> []" "last segs \<noteq> []" "hd (hd segs) \<noteq> CHR ''/''" "last (last segs) \<noteq> CHR ''/''"
    by (auto simp: safe_segment_def unsafe_value_def dest: hd_in_set last_in_set)
  with hd_Join [OF assms(2), of "''/''"] last_Join [OF assms(2), of "''/''"]
  show "Join segs ''/'' \<noteq> []" "hd (Join segs ''/'') \<noteq> CHR ''/''" "last (Join segs ''/'') \<noteq> CHR ''/''" by auto
qed

lemma writes_segments:
  assumes "list_all safe_segment segs" "writes segs path"
  shows "segments path = segs" "\<not> Contains path ''//''"
proof -
  let ?j = "Join segs ''/''"
  have "\<exists>a b. path = a @ ?j @ b \<and> (a = [] \<or> a = ''/'') \<and> (b = [] \<or> b = ''/'') \<and> (segs = [] \<longrightarrow> b = [])"
    using assms(2) unfolding writes_def Let_def by (metis append_Cons append_Nil append_Nil2)
  then obtain a b where path: "path = a @ ?j @ b" "a = [] \<or> a = ''/''" "b = [] \<or> b = ''/''" "segs = [] \<longrightarrow> b = []" by blast
  have split: "Split path CHR ''/'' = (if a = [] then [] else [[]]) @ Split ?j CHR ''/'' @ (if b = [] then [] else [[]])"
    using path Split_append [of "[]" "CHR ''/''"] Split_snoc_sep [of ?j] by auto
  show "\<not> Contains path ''//''"
  proof
    assume "Contains path ''//''"
    then obtain x y where "path = x @ ''//'' @ y" using Contains_iff by blast
    then have "Split path CHR ''/'' = Split x CHR ''/'' @ [] # Split y CHR ''/''" using Split_append by simp
    then have "[] \<in> set (butlast (tl (Split path CHR ''/'')))" by (cases "Split x CHR ''/''") (auto simp: butlast_append)
    moreover have "[] \<notin> set segs" using assms(1) by (auto simp: safe_segment_def unsafe_value_def list_all_iff)
    then have "[] \<notin> set (butlast (tl (Split path CHR ''/'')))"
      using split path(4) Join_safe(1) [OF assms(1)] by (cases segs) (auto simp: butlast_append dest: in_set_butlastD split: if_splits)
    ultimately show False by simp
  qed
  have "Trim path {CHR ''/''} = ?j"
  proof (cases "segs = []")
    case True
    with path show ?thesis by (auto simp: Trim_def TrimLeft_def TrimRight_def)
  next
    case False
    note j = Join_safe [OF assms(1) False]
    have "TrimLeft path {CHR ''/''} = ?j @ b" using path(1,2) j TrimLeft_id [of "?j @ b" "{CHR ''/''}"] by (auto simp: TrimLeft_def)
    moreover have "TrimRight (?j @ b) {CHR ''/''} = ?j" using path(3) j TrimRight_id [of ?j "{CHR ''/''}"] by (auto simp: TrimRight_def)
    ultimately show ?thesis by (simp add: Trim_def)
  qed
  then show "segments path = segs" using Join_safe [OF assms(1)] by (cases "segs = []") (auto simp: segments_def)
qed

lemma safe_path_iff:
  "\<not> hasUnsafeRequestSegment path \<and> segments path = segs \<longleftrightarrow> list_all safe_segment segs \<and> writes segs path"
proof
  assume l: "\<not> hasUnsafeRequestSegment path \<and> segments path = segs"
  then have safe: "list_all safe_segment segs" using segments_safe [of path] by (auto simp: safe_segment_clean list_all_iff)
  let ?t = "Trim path {CHR ''/''}"
  obtain a b where path: "path = replicate a CHR ''/'' @ ?t @ replicate b CHR ''/''" using Trim_pieces .
  have t: "Join segs ''/'' = ?t" "segs = [] \<longleftrightarrow> ?t = []" using l by (auto simp: segments_def Let_def Join_Split split: if_splits)
  have no: "path \<noteq> x @ ''//'' @ y" for x y using l Contains_iff by (auto simp: hasUnsafeRequestSegment_def)
  have "a < 2" using path no [of "[]" "replicate (a - 2) CHR ''/'' @ ?t @ replicate b CHR ''/''"]
    by (cases a; cases "a - 1") auto
  moreover have "b < 2" using path no [of "replicate a CHR ''/'' @ ?t" "replicate (b - 2) CHR ''/''"]
    by (cases b; cases "b - 1") auto
  moreover have "a + b < 2" if "?t = []" using that path no [of "[]" "[]"] \<open>a < 2\<close> \<open>b < 2\<close> by (cases a; cases b) auto
  ultimately have "writes segs path" using path t by (cases a; cases b) (auto simp: writes_def)
  with safe show "list_all safe_segment segs \<and> writes segs path" by blast
next
  assume r: "list_all safe_segment segs \<and> writes segs path"
  then have s: "segments path = segs" "\<not> Contains path ''//''" using writes_segments by blast+
  moreover have "\<not> list_ex unsafe_value segs" using r by (auto simp: safe_segment_def list_all_iff list_ex_iff)
  ultimately show "\<not> hasUnsafeRequestSegment path \<and> segments path = segs"
    by (auto simp: hasUnsafeRequestSegment_def segments_def Let_def split: if_splits)
qed

section \<open>What a match is\<close>

text \<open>The names a pattern captures, and the segments of the path it stands for under given values.\<close>

fun names :: "bool \<Rightarrow> string list \<Rightarrow> string list" where
  "names rest [] = []"
| "names rest (part # parts) =
     (if rest \<and> parts = [] then [rest_name part]
      else (if is_param part then [param_name part] else []) @ names rest parts)"

definition param_value :: "params \<Rightarrow> string \<Rightarrow> string" where
  "param_value params name = (case params name of Some v \<Rightarrow> v | None \<Rightarrow> [])"

fun fill :: "bool \<Rightarrow> params \<Rightarrow> string list \<Rightarrow> string list" where
  "fill rest params [] = []"
| "fill rest params (part # parts) =
     (if rest \<and> parts = [] then Split (param_value params (rest_name part)) CHR ''/''
      else (if is_param part then param_value params (param_name part) else part) # fill rest params parts)"

definition has_rest :: "string \<Rightarrow> bool" where
  "has_rest pattern \<longleftrightarrow> splitPath pattern \<noteq> [] \<and> isRestSegment (last (splitPath pattern))"

definition route_names :: "string \<Rightarrow> string list" where
  "route_names pattern = names (has_rest pattern) (splitPath pattern)"

definition route_fill :: "string \<Rightarrow> params \<Rightarrow> string list" where
  "route_fill pattern params = fill (has_rest pattern) params (splitPath pattern)"

lemma length_fill:
  "rest \<Longrightarrow> length parts \<le> length (fill rest params parts)"
  "\<not> rest \<Longrightarrow> length (fill rest params parts) = length parts"
  by (induction rest params parts rule: fill.induct) (auto simp: Suc_le_eq)

lemma map_upd_iff:
  assumes "n \<notin> dom p0"
  shows "p = p0(n \<mapsto> v) \<longleftrightarrow> dom p = insert n (dom p0) \<and> p0 \<subseteq>\<^sub>m p \<and> p n = Some v"
proof
  assume r: "dom p = insert n (dom p0) \<and> p0 \<subseteq>\<^sub>m p \<and> p n = Some v"
  show "p = p0(n \<mapsto> v)"
  proof
    fix x
    have "p x = p0 x" if "x \<in> dom p0" using r that by (simp add: map_le_def)
    moreover have "p x = None" if "x \<notin> insert n (dom p0)" using r that by blast
    ultimately show "p x = (p0(n \<mapsto> v)) x" using r by (cases "x \<in> dom p0") (auto simp: domIff)
  qed
qed (use assms in \<open>auto simp: map_le_def\<close>)

lemma match_loop_iff:
  assumes "list_all safe_segment vs" "distinct (names rest parts)" "set (names rest parts) \<inter> dom p0 = {}"
    and "rest \<Longrightarrow> length parts \<le> length vs" "\<not> rest \<Longrightarrow> length parts = length vs"
    and "rest \<Longrightarrow> parts \<noteq> []"
  shows "match_loop rest parts vs p0 = Some p \<longleftrightarrow>
     dom p = dom p0 \<union> set (names rest parts) \<and> p0 \<subseteq>\<^sub>m p \<and> fill rest p parts = vs"
  using assms
proof (induction parts arbitrary: vs p0)
  case Nil
  have "p0 = p \<longleftrightarrow> dom p = dom p0 \<and> p0 \<subseteq>\<^sub>m p"
    by (auto simp: map_le_def fun_eq_iff) (metis domIff)
  with Nil show ?case by auto
next
  case (Cons part parts)
  then obtain v vs' where vs: "vs = v # vs'" by (cases rest; cases vs) auto
  show ?case
  proof (cases "rest \<and> parts = []")
    case True
    let ?n = "rest_name part"
    have n: "?n \<notin> dom p0" using Cons.prems(3) True by auto
    have ok: "\<not> list_ex unsafe_value vs" using Cons.prems(1) by (auto simp: list_all_iff list_ex_iff safe_segment_def)
    have "Split (Join vs ''/'') CHR ''/'' = vs" using Cons.prems(1) vs by (intro Join_safe) auto
    then have "p ?n = Some (Join vs ''/'') \<longleftrightarrow> Split (param_value p ?n) CHR ''/'' = vs" if "?n \<in> dom p"
      using that by (auto simp: param_value_def Join_Split)
    then have "p = p0(?n \<mapsto> Join vs ''/'') \<longleftrightarrow> dom p = insert ?n (dom p0) \<and> p0 \<subseteq>\<^sub>m p \<and> Split (param_value p ?n) CHR ''/'' = vs"
      unfolding map_upd_iff [OF n] by blast
    with True ok show ?thesis by auto
  next
    case False
    show ?thesis
    proof (cases "is_param part")
      case True
      let ?n = "param_name part"
      have "match_loop rest parts vs' (p0(?n \<mapsto> v)) = Some p \<longleftrightarrow>
          dom p = dom (p0(?n \<mapsto> v)) \<union> set (names rest parts) \<and> p0(?n \<mapsto> v) \<subseteq>\<^sub>m p \<and> fill rest p parts = vs'"
        using Cons.prems False True vs by (intro Cons.IH) (auto split: if_splits)
      moreover have "\<not> unsafe_value v" using Cons.prems(1) vs by (simp add: safe_segment_def)
      moreover have "p0(?n \<mapsto> v) \<subseteq>\<^sub>m p \<longleftrightarrow> p0 \<subseteq>\<^sub>m p \<and> p ?n = Some v"
        using Cons.prems(3) False True by (auto simp: map_le_def)
      moreover have "p ?n = Some v \<longleftrightarrow> param_value p ?n = v" if "dom p = insert ?n (dom p0) \<union> set (names rest parts)"
      proof -
        have "?n \<in> dom p" using that by blast
        then show ?thesis by (auto simp: param_value_def)
      qed
      moreover have "match_loop rest (part # parts) vs p0 = match_loop rest parts vs' (p0(?n \<mapsto> v))"
        "fill rest p (part # parts) = vs \<longleftrightarrow> param_value p ?n = v \<and> fill rest p parts = vs'"
        "dom p0 \<union> set (names rest (part # parts)) = insert ?n (dom p0) \<union> set (names rest parts)"
        using False True vs \<open>\<not> unsafe_value v\<close> by auto
      ultimately show ?thesis by (metis (no_types, lifting) dom_fun_upd option.distinct(1))
    next
      case lit: False
      have "match_loop rest parts vs' p0 = Some p \<longleftrightarrow>
          dom p = dom p0 \<union> set (names rest parts) \<and> p0 \<subseteq>\<^sub>m p \<and> fill rest p parts = vs'"
        using Cons.prems False lit vs by (intro Cons.IH) auto
      with False lit vs show ?thesis by auto
    qed
  qed
qed

text \<open>A match with distinct parameter names, characterised by the captured values.\<close>

lemma Match_iff:
  assumes "distinct (route_names pattern)"
  shows "Match pattern path = Some params \<longleftrightarrow>
    dom params = set (route_names pattern) \<and>
    list_all safe_segment (route_fill pattern params) \<and> writes (route_fill pattern params) path"
proof -
  let ?rest = "has_rest pattern" and ?parts = "splitPath pattern" and ?segs = "segments path"
  let ?len = "(?rest \<longrightarrow> length ?parts \<le> length ?segs) \<and> (\<not> ?rest \<longrightarrow> length ?parts = length ?segs)"
  have nil: "?segs \<noteq> [] \<Longrightarrow> Split (Trim path {CHR ''/''}) CHR ''/'' = ?segs" by (auto simp: segments_def Let_def split: if_splits)
  have "Match pattern path = Some params \<longleftrightarrow>
      \<not> hasUnsafeRequestSegment path \<and> ?len \<and> match_loop ?rest ?parts ?segs (\<lambda>_. None) = Some params"
  proof (cases "hasUnsafeRequestSegment path")
    case False
    have safe: "list_all safe_segment ?segs" using safe_path_iff [of path ?segs] False by simp
    have "\<not> list_ex unsafe_value (Split (Trim path {CHR ''/''}) CHR ''/'')" if "?segs \<noteq> []"
      unfolding nil [OF that] using safe by (auto simp: list_all_iff list_ex_iff safe_segment_def)
    moreover have "?segs \<noteq> []" if "length ?parts \<le> length ?segs" "?parts \<noteq> []" using that by auto
    ultimately show ?thesis using False by (auto simp: Match_def Let_def splitPath_safe has_rest_def split: if_splits)
  qed (simp add: Match_def)
  also have "\<dots> \<longleftrightarrow> \<not> hasUnsafeRequestSegment path \<and> dom params = set (route_names pattern) \<and> ?segs = route_fill pattern params"
  proof -
    have "?len" if "?segs = route_fill pattern params" unfolding that route_fill_def using length_fill by auto
    moreover have "match_loop ?rest ?parts ?segs (\<lambda>_. None) = Some params \<longleftrightarrow>
        dom params = set (route_names pattern) \<and> route_fill pattern params = ?segs"
      if "\<not> hasUnsafeRequestSegment path" ?len
      using match_loop_iff [of ?segs ?rest ?parts "\<lambda>_. None" params] safe_path_iff [of path ?segs] that assms
      by (auto simp: route_names_def route_fill_def map_le_def has_rest_def)
    ultimately show ?thesis by (metis (no_types))
  qed
  finally show ?thesis using safe_path_iff [of path "route_fill pattern params"] by blast
qed

text \<open>Whether a pattern matches at all, on segments.\<close>

fun accepts :: "bool \<Rightarrow> string list \<Rightarrow> string list \<Rightarrow> bool" where
  "accepts rest [] vs = (vs = [])"
| "accepts rest (part # parts) vs =
     (if rest \<and> parts = [] then vs \<noteq> []
      else (case vs of [] \<Rightarrow> False | v # vs' \<Rightarrow> (is_param part \<or> part = v) \<and> accepts rest parts vs'))"

lemma match_loop_accepts:
  assumes "list_all safe_segment vs" "rest \<Longrightarrow> parts \<noteq> []"
  shows "match_loop rest parts vs p \<noteq> None \<and> (if rest then length parts \<le> length vs else length parts = length vs) \<longleftrightarrow>
    accepts rest parts vs"
  using assms
proof (induction parts arbitrary: vs p)
  case (Cons part parts)
  show ?case
  proof (cases vs)
    case (Cons v vs')
    have "\<not> list_ex unsafe_value vs" "\<not> unsafe_value v" "list_all safe_segment vs'"
      using Cons.prems(1) Cons by (auto simp: list_all_iff list_ex_iff safe_segment_def)
    note safe = this
    show ?thesis
    proof (cases "rest \<and> parts = []")
      case True
      with safe Cons show ?thesis by simp
    next
      case False
      let ?len = "if rest then length parts \<le> length vs' else length parts = length vs'"
      have IH: "match_loop rest parts vs' q \<noteq> None \<and> ?len \<longleftrightarrow> accepts rest parts vs'" for q
        using safe(3) False by (intro Cons.IH) auto
      have len: "(if rest then length (part # parts) \<le> length vs else length (part # parts) = length vs) \<longleftrightarrow> ?len"
        by (simp add: Cons)
      have acc: "accepts rest (part # parts) vs \<longleftrightarrow> (is_param part \<or> part = v) \<and> accepts rest parts vs'"
        using False by (auto simp: Cons)
      have loop: "match_loop rest (part # parts) vs p =
          (if is_param part then match_loop rest parts vs' (p(param_name part \<mapsto> v))
           else if part \<noteq> v then None else match_loop rest parts vs' p)"
        using False safe(2) by (auto simp: Cons)
      show ?thesis
        unfolding len acc loop using IH by (cases "is_param part"; cases "part = v") (simp_all only: if_True if_False simp_thms)
    qed
  qed simp
qed auto

lemma Match_accepts:
  "Match pattern path \<noteq> None \<longleftrightarrow>
     \<not> hasUnsafeRequestSegment path \<and> accepts (has_rest pattern) (splitPath pattern) (segments path)"
proof (cases "hasUnsafeRequestSegment path")
  case False
  let ?rest = "has_rest pattern" and ?parts = "splitPath pattern" and ?segs = "segments path"
  have safe: "list_all safe_segment ?segs" using safe_path_iff [of path ?segs] False by simp
  have nil: "?segs \<noteq> [] \<Longrightarrow> Split (Trim path {CHR ''/''}) CHR ''/'' = ?segs" by (auto simp: segments_def Let_def split: if_splits)
  have "\<not> list_ex unsafe_value (Split (Trim path {CHR ''/''}) CHR ''/'')" if "?segs \<noteq> []"
    unfolding nil [OF that] using safe by (auto simp: list_all_iff list_ex_iff safe_segment_def)
  moreover have rest: "?parts \<noteq> []" if ?rest using that by (simp add: has_rest_def)
  moreover have "?segs \<noteq> []" if "length ?parts \<le> length ?segs" "?parts \<noteq> []" using that by auto
  ultimately have "Match pattern path =
      (if (if ?rest then length ?parts \<le> length ?segs else length ?parts = length ?segs)
       then match_loop ?rest ?parts ?segs (\<lambda>_. None) else None)"
    using False by (auto simp: Match_def Let_def splitPath_safe has_rest_def split: if_splits)
  with match_loop_accepts [OF safe, of ?rest ?parts "\<lambda>_. None"] rest False show ?thesis by (auto split: if_splits)
qed (simp add: Match_def)

end
