(* ===== verification/RouteDecl.thy ===== *)
theory RouteDecl
  imports Route
begin

text \<open>
  \<open>internal/source\<close>: the routes a source file declares. \<open>routes.go\<close> parses and validates a route
  pattern and extracts its parameters; \<open>source.go\<close> validates the path of a backend endpoint.

  A problem of a route is a value of \<open>RouteIssue\<close>, from which the code and the parameter of the
  issue of the code are computed; its message is the rendering of the value.
\<close>

section \<open>Parameter segments\<close>

record RouteParamSegmentInfo =
  ri_Name :: string
  ri_Type :: string
  ri_Rest :: bool
  ri_HasType :: bool

definition Count :: "string \<Rightarrow> char \<Rightarrow> nat" where
  "Count s c = length (filter (\<lambda>x. x = c) s)"

definition ParseRouteParamSegment :: "string \<Rightarrow> RouteParamSegmentInfo option" where
  "ParseRouteParamSegment segment =
     (if \<not> HasPrefix segment ''{'' \<or> \<not> HasSuffix segment ''}'' then None
      else if Count segment CHR ''{'' \<noteq> 1 \<or> Count segment CHR ''}'' \<noteq> 1 then None
      else
        (case Cut (TrimSuffix (TrimPrefix segment ''{'') ''}'') CHR '':'' of
           (name, paramType, found) \<Rightarrow>
             let rest = HasSuffix name ''...''
             in Some \<lparr>ri_Name = (if rest then TrimSuffix name ''...'' else name),
                      ri_Type = (if found then paramType else ''string''), ri_Rest = rest, ri_HasType = found\<rparr>))"

definition ident_start :: "char \<Rightarrow> bool" where
  "ident_start c \<longleftrightarrow> c = CHR ''_'' \<or> is_upper c \<or> is_lower c"

definition ident_part :: "char \<Rightarrow> bool" where
  "ident_part c \<longleftrightarrow> ident_start c \<or> is_digit c"

text \<open>A byte of a character outside ASCII is no part of a name, so the test runs over bytes.\<close>

definition IsRouteParamName :: "string \<Rightarrow> bool" where
  "IsRouteParamName v \<longleftrightarrow> (case v of [] \<Rightarrow> False | c # cs \<Rightarrow> ident_start c \<and> list_all ident_part cs)"

definition IsRouteParamType :: "string \<Rightarrow> bool" where
  "IsRouteParamType v \<longleftrightarrow> v \<in> set [''string'', ''int'', ''int64'', ''uint'', ''uint64'', ''bool'', ''float64'']"

section \<open>Route patterns\<close>

datatype RouteIssue =
  RouteRequired | OuterWhitespace | NoLeadingSlash | QueryOrFragment | BackslashSeparator | SpaceOrControl
| EmptySegment | UnsafeSegment string | InvalidParamSegment string | OptionalParam string | NamelessRest string
| InvalidDots string | InvalidParamName string | TypedRest string string | InvalidParamType string string
| RestNotLast string | RepeatedParam string nat

definition issue_code :: "RouteIssue \<Rightarrow> string" where
  "issue_code issue = (case issue of RepeatedParam _ _ \<Rightarrow> ''duplicate_route_param'' | _ \<Rightarrow> ''malformed_route'')"

definition issue_param :: "RouteIssue \<Rightarrow> string" where
  "issue_param issue =
     (case issue of
        TypedRest _ name \<Rightarrow> name | InvalidParamType _ name \<Rightarrow> name | RestNotLast name \<Rightarrow> name
      | RepeatedParam name _ \<Rightarrow> name | _ \<Rightarrow> [])"

definition issue_occurrence :: "RouteIssue \<Rightarrow> nat" where
  "issue_occurrence issue = (case issue of RepeatedParam _ n \<Rightarrow> n | _ \<Rightarrow> 0)"

record RoutePattern =
  rp_Pattern :: string
  rp_Params :: "string list"
  rp_RestParam :: string

definition RestRoutePatternPlaceholder :: string where
  "RestRoutePatternPlaceholder = ''{**}''"

fun query_outside :: "nat \<Rightarrow> string \<Rightarrow> bool" where
  "query_outside depth [] = False"
| "query_outside depth (c # cs) =
     (if c = CHR ''{'' then query_outside (depth + 1) cs
      else if c = CHR ''}'' then query_outside (depth - 1) cs
      else if c = CHR ''?'' \<and> depth = 0 then True
      else query_outside depth cs)"

definition RouteContainsQueryOutsideParams :: "string \<Rightarrow> bool" where
  "RouteContainsQueryOutsideParams route = query_outside 0 route"

definition containsSpaceOrControl :: "string \<Rightarrow> bool" where
  "containsSpaceOrControl v \<longleftrightarrow> list_ex (\<lambda>r. IsSpace r \<or> IsControl r) (runes v)"

text \<open>
  The variables of the loop over the segments; \<open>pa_counts\<close> holds every occurrence of a parameter name
  that has been counted.
\<close>

record parsing =
  pa_segments :: "string list"
  pa_params :: "string list"
  pa_rest :: string
  pa_counts :: "string list"
  pa_issues :: "RouteIssue list"

definition add_issue :: "RouteIssue \<Rightarrow> parsing \<Rightarrow> parsing" where
  "add_issue issue st = st\<lparr>pa_issues := pa_issues st @ [issue]\<rparr>"

definition param_issue :: "bool \<Rightarrow> string \<Rightarrow> RouteParamSegmentInfo \<Rightarrow> RouteIssue option" where
  "param_issue is_last segment param =
     (if HasSuffix (ri_Name param) ''?'' then Some (OptionalParam segment)
      else if ri_Rest param \<and> ri_Name param = [] then Some (NamelessRest segment)
      else if \<not> ri_Rest param \<and> CHR ''.'' \<in> set (ri_Name param) then Some (InvalidDots segment)
      else if \<not> IsRouteParamName (ri_Name param) then Some (InvalidParamName (ri_Name param))
      else if ri_Rest param \<and> ri_HasType param then Some (TypedRest segment (ri_Name param))
      else if \<not> IsRouteParamType (ri_Type param) then Some (InvalidParamType (ri_Type param) (ri_Name param))
      else if ri_Rest param \<and> \<not> is_last then Some (RestNotLast (ri_Name param))
      else None)"

definition param_step :: "bool \<Rightarrow> string \<Rightarrow> RouteParamSegmentInfo \<Rightarrow> parsing \<Rightarrow> parsing" where
  "param_step is_last segment param st =
     (case param_issue is_last segment param of
        Some issue \<Rightarrow> add_issue issue st
      | None \<Rightarrow>
          let name = ri_Name param; counts = name # pa_counts st; st1 = st\<lparr>pa_counts := counts\<rparr>
          in if name \<in> set (pa_counts st) then add_issue (RepeatedParam name (count_list counts name)) st1
             else
               let st2 = st1\<lparr>pa_params := pa_params st @ [name]\<rparr>
               in if ri_Rest param
                  then st2\<lparr>pa_rest := name, pa_segments := pa_segments st @ [RestRoutePatternPlaceholder]\<rparr>
                  else st2\<lparr>pa_segments := pa_segments st @ [''{}'']\<rparr>)"

definition segment_step :: "bool \<Rightarrow> string \<Rightarrow> parsing \<Rightarrow> parsing" where
  "segment_step is_last segment st =
     (if segment = [] then add_issue EmptySegment st
      else if segment = ''.'' \<or> segment = ''..'' then add_issue (UnsafeSegment segment) st
      else if ContainsAny segment ''{}'' then
        (case ParseRouteParamSegment segment of
           None \<Rightarrow> add_issue (InvalidParamSegment segment) st
         | Some param \<Rightarrow> param_step is_last segment param st)
      else st\<lparr>pa_segments := pa_segments st @ [segment]\<rparr>)"

fun parse_segments :: "string list \<Rightarrow> parsing \<Rightarrow> parsing" where
  "parse_segments [] st = st"
| "parse_segments (segment # others) st = parse_segments others (segment_step (others = []) segment st)"

definition route_checks :: "string \<Rightarrow> RouteIssue list" where
  "route_checks route =
     (if TrimSpace route \<noteq> route then [OuterWhitespace] else []) @
     (if \<not> HasPrefix route ''/'' then [NoLeadingSlash] else []) @
     (if Contains route ''#'' \<or> RouteContainsQueryOutsideParams route then [QueryOrFragment] else []) @
     (if Contains route [CHR 0x5C] then [BackslashSeparator] else []) @
     (if containsSpaceOrControl route then [SpaceOrControl] else [])"

definition ParseRoutePattern :: "string \<Rightarrow> RoutePattern \<times> RouteIssue list" where
  "ParseRoutePattern route =
     (let none = \<lparr>rp_Pattern = [], rp_Params = [], rp_RestParam = []\<rparr>
      in if route = [] then (none, [RouteRequired])
         else if route = ''/'' then (none\<lparr>rp_Pattern := ''/''\<rparr>, route_checks route)
         else if \<not> HasPrefix route ''/'' then (none, route_checks route)
         else
           let st = parse_segments (Split (TrimPrefix route ''/'') CHR ''/'')
                 \<lparr>pa_segments = [], pa_params = [], pa_rest = [], pa_counts = [], pa_issues = route_checks route\<rparr>
           in (\<lparr>rp_Pattern = (if pa_segments st = [] then ''/'' else CHR ''/'' # Join (pa_segments st) ''/''),
                rp_Params = pa_params st, rp_RestParam = pa_rest st\<rparr>, pa_issues st))"

section \<open>Parameters of a declaration\<close>

text \<open>\<open>RouteParamsFromPath\<close>: the name and type of each parameter, by scanning for braces.\<close>

function RouteParamsFromPath :: "string \<Rightarrow> (string \<times> string) list" where
  "RouteParamsFromPath route =
     (case route of
        [] \<Rightarrow> []
      | c # cs \<Rightarrow>
          if c \<noteq> CHR ''{'' then RouteParamsFromPath cs
          else
            (case index_byte route CHR ''}'' of
               None \<Rightarrow> RouteParamsFromPath cs
             | Some e \<Rightarrow>
                 (case ParseRouteParamSegment (take (e + 1) route) of
                    Some param \<Rightarrow>
                      if IsRouteParamName (ri_Name param) \<and> IsRouteParamType (ri_Type param) \<and>
                         (\<not> ri_Rest param \<or> \<not> ri_HasType param)
                      then [(ri_Name param, ri_Type param)] else []
                  | None \<Rightarrow> []) @ RouteParamsFromPath (drop (e + 1) route)))"
  by pat_completeness auto
termination
  by (relation "measure length") auto

declare RouteParamsFromPath.simps [simp del]

section \<open>Paths of backend endpoints\<close>

datatype path_error =
  PathSurrounding | PathEmpty | PathNotAbsolute | PathProtocolRelative | PathBackslash | PathQueryFragment
| PathControl | PathNotClean | PathParams
| PathParamSegment string | PathOptional string | PathNameless string | PathDots string | PathParamName string
| PathTypedRest string | PathParamType string string | PathRestNotLast string | PathRepeated string

text \<open>\<open>source.go\<close> has its own copy of the grammar of parameter segments.\<close>

definition backendRouteParamSegment :: "string \<Rightarrow> RouteParamSegmentInfo option" where
  "backendRouteParamSegment segment =
     (if \<not> HasPrefix segment ''{'' \<or> \<not> HasSuffix segment ''}'' then None
      else if Count segment CHR ''{'' \<noteq> 1 \<or> Count segment CHR ''}'' \<noteq> 1 then None
      else
        (case Cut (TrimSuffix (TrimPrefix segment ''{'') ''}'') CHR '':'' of
           (name, paramType, found) \<Rightarrow>
             let ty = (if found then paramType else ''string'');
                 rest = HasSuffix name ''...'';
                 name = (if rest then TrimSuffix name ''...'' else name)
             in Some \<lparr>ri_Name = name, ri_Type = ty, ri_Rest = rest, ri_HasType = found\<rparr>))"

definition isBackendRouteParamType :: "string \<Rightarrow> bool" where
  "isBackendRouteParamType v \<longleftrightarrow> v \<in> set [''string'', ''int'', ''int64'', ''uint'', ''uint64'', ''bool'', ''float64'']"

fun isBackendRouteParamName :: "string \<Rightarrow> bool" where
  "isBackendRouteParamName [] \<longleftrightarrow> False"
| "isBackendRouteParamName (c # cs) \<longleftrightarrow> ident_start c \<and> list_all ident_part cs"

definition BackendRoutePath :: "string \<Rightarrow> string" where
  "BackendRoutePath v = Clean (CHR ''/'' # v)"

definition validateBackendRoutePreflight :: "string \<Rightarrow> path_error option" where
  "validateBackendRoutePreflight v =
     (if TrimSpace v \<noteq> v then Some PathSurrounding
      else if v = [] then Some PathEmpty
      else if hd v \<noteq> CHR ''/'' then Some PathNotAbsolute
      else if length v > 1 \<and> (v ! 1 = CHR ''/'' \<or> v ! 1 = CHR 0x5C) then Some PathProtocolRelative
      else if Contains v [CHR 0x5C] then Some PathBackslash
      else if ContainsAny v ''?#'' then Some PathQueryFragment
      else if list_ex (\<lambda>r. r < 0x20 \<or> r = 0x7F) (runes v) then Some PathControl
      else if BackendRoutePath v \<noteq> v then Some PathNotClean
      else None)"

definition ValidateBackendRoutePath :: "string \<Rightarrow> path_error option" where
  "ValidateBackendRoutePath v =
     (case validateBackendRoutePreflight v of
        Some err \<Rightarrow> Some err
      | None \<Rightarrow> if ContainsAny v ''{}'' then Some PathParams else None)"

definition backend_param_error :: "bool \<Rightarrow> string \<Rightarrow> RouteParamSegmentInfo \<Rightarrow> string list \<Rightarrow> path_error option" where
  "backend_param_error is_last segment param seen =
     (if HasSuffix (ri_Name param) ''?'' then Some (PathOptional segment)
      else if ri_Rest param \<and> ri_Name param = [] then Some (PathNameless segment)
      else if \<not> ri_Rest param \<and> CHR ''.'' \<in> set (ri_Name param) then Some (PathDots segment)
      else if \<not> isBackendRouteParamName (ri_Name param) then Some (PathParamName (ri_Name param))
      else if ri_Rest param \<and> ri_HasType param then Some (PathTypedRest segment)
      else if \<not> isBackendRouteParamType (ri_Type param) then Some (PathParamType (ri_Type param) (ri_Name param))
      else if ri_Rest param \<and> \<not> is_last then Some (PathRestNotLast (ri_Name param))
      else if ri_Name param \<in> set seen then Some (PathRepeated (ri_Name param))
      else None)"

fun backend_segments :: "string list \<Rightarrow> string list \<Rightarrow> path_error option" where
  "backend_segments [] seen = None"
| "backend_segments (segment # others) seen =
     (if \<not> ContainsAny segment ''{}'' then backend_segments others seen
      else
        (case backendRouteParamSegment segment of
           None \<Rightarrow> Some (PathParamSegment segment)
         | Some param \<Rightarrow>
             (case backend_param_error (others = []) segment param seen of
                Some err \<Rightarrow> Some err
              | None \<Rightarrow> backend_segments others (ri_Name param # seen))))"

definition ValidateBackendRoutePattern :: "string \<Rightarrow> path_error option" where
  "ValidateBackendRoutePattern v =
     (case validateBackendRoutePreflight v of
        Some err \<Rightarrow> Some err
      | None \<Rightarrow> if v = ''/'' then None else backend_segments (Split (TrimPrefix v ''/'') CHR ''/'') [])"

section \<open>Accepted routes\<close>

text \<open>A segment an accepted route may have.\<close>

definition good_segment :: "bool \<Rightarrow> string \<Rightarrow> bool" where
  "good_segment is_last s \<longleftrightarrow>
     s \<noteq> [] \<and> s \<noteq> ''.'' \<and> s \<noteq> ''..'' \<and>
     (ContainsAny s ''{}'' \<longrightarrow> (\<exists>param. ParseRouteParamSegment s = Some param \<and> param_issue is_last s param = None))"

text \<open>What the segment becomes in the normalized pattern, and the parameter it declares.\<close>

definition norm_segment :: "string \<Rightarrow> string" where
  "norm_segment s =
     (if \<not> ContainsAny s ''{}'' then s else if isRestSegment s then RestRoutePatternPlaceholder else ''{}'')"

fun good_segments :: "string list \<Rightarrow> bool" where
  "good_segments [] \<longleftrightarrow> True"
| "good_segments (s # ss) \<longleftrightarrow> good_segment (ss = []) s \<and> good_segments ss"

lemma IsRouteParamName_chars:
  assumes "IsRouteParamName v"
  shows "v \<noteq> []" "\<And>c. c \<in> set v \<Longrightarrow> c \<noteq> CHR ''.'' \<and> c \<noteq> CHR '':'' \<and> c \<noteq> CHR ''{'' \<and> c \<noteq> CHR ''}''"
proof -
  show "v \<noteq> []" using assms by (auto simp: IsRouteParamName_def)
  have "list_all ident_part v" using assms by (auto simp: IsRouteParamName_def ident_part_def split: list.splits)
  moreover have "ident_part c \<Longrightarrow> c \<noteq> CHR ''.'' \<and> c \<noteq> CHR '':'' \<and> c \<noteq> CHR ''{'' \<and> c \<noteq> CHR ''}''" for c
    by (auto simp: ident_part_def ident_start_def is_upper_def is_lower_def is_digit_def)
  ultimately show "c \<in> set v \<Longrightarrow> c \<noteq> CHR ''.'' \<and> c \<noteq> CHR '':'' \<and> c \<noteq> CHR ''{'' \<and> c \<noteq> CHR ''}''" for c
    by (auto simp: list_all_iff)
qed

lemma brace_segment:
  assumes "HasPrefix s ''{''" "HasSuffix s ''}''"
  shows "s = CHR ''{'' # TrimSuffix (TrimPrefix s ''{'') ''}'' @ ''}''"
proof -
  obtain t where "s = CHR ''{'' # t" using assms(1) by (auto simp: prefix_def)
  moreover have "\<exists>u. t = u @ ''}''"
    using assms(2) calculation by (cases t rule: rev_cases) (auto simp: suffix_def)
  ultimately show ?thesis by (auto simp: TrimPrefix_def TrimSuffix_def suffix_def)
qed

lemma suffix_last: "HasSuffix s p \<Longrightarrow> p \<noteq> [] \<Longrightarrow> last s = last p"
  by (auto simp: suffix_def)

text \<open>The parameter the compiler reads from a segment without an issue is the one the router reads.\<close>

lemma param_segment:
  assumes p: "ParseRouteParamSegment s = Some param" and ok: "param_issue is_last s param = None"
  shows "is_param s" "isRestSegment s \<longleftrightarrow> ri_Rest param"
    "ri_Rest param \<Longrightarrow> rest_name s = ri_Name param" "\<not> ri_Rest param \<Longrightarrow> param_name s = ri_Name param"
    "IsRouteParamName (ri_Name param)"
proof -
  define v where "v = TrimSuffix (TrimPrefix s ''{'') ''}''"
  obtain n t f where cut: "Cut v CHR '':'' = (n, t, f)" by (cases "Cut v CHR '':''")
  have br: "HasPrefix s ''{''" "HasSuffix s ''}''" using p by (auto simp: ParseRouteParamSegment_def split: if_splits)
  show "is_param s" using br by (simp add: is_param_def)
  have s: "s = CHR ''{'' # v @ ''}''" using brace_segment [OF br] by (simp add: v_def)
  have param: "param = \<lparr>ri_Name = (if HasSuffix n ''...'' then TrimSuffix n ''...'' else n),
      ri_Type = (if f then t else ''string''), ri_Rest = HasSuffix n ''...'', ri_HasType = f\<rparr>"
    using p cut by (auto simp: ParseRouteParamSegment_def v_def Let_def split: if_splits)
  have name: "IsRouteParamName (ri_Name param)" and untyped: "ri_Rest param \<longrightarrow> \<not> ri_HasType param"
    and ty: "IsRouteParamType (ri_Type param)"
    using ok by (auto simp: param_issue_def split: if_splits)
  show "IsRouteParamName (ri_Name param)" by (rule name)
  note v = Cut_result [OF cut]
  have nv: "rest_name s = TrimSuffix v ''...''" "param_name s = n"
    using cut by (simp_all add: rest_name_def param_name_def v_def)
  show "\<not> ri_Rest param \<Longrightarrow> param_name s = ri_Name param" using nv param by simp
  have vn: "\<not> f \<Longrightarrow> v = n" using v by argo
  have "HasSuffix n ''...'' \<Longrightarrow> \<not> f" using untyped param by simp
  with vn nv(1) param show "ri_Rest param \<Longrightarrow> rest_name s = ri_Name param" by simp
  have "HasSuffix ((CHR ''{'' # v) @ ''}'') (''...'' @ ''}'') \<longleftrightarrow> HasSuffix (CHR ''{'' # v) ''...''"
    by (rule trans [OF snoc_suffix_snoc]) blast
  then have "HasSuffix s ''...}'' \<longleftrightarrow> HasSuffix v ''...''" by (simp add: s suffix_Cons)
  then have "isRestSegment s \<longleftrightarrow> HasSuffix v ''...'' \<and> length v > 3" by (auto simp: isRestSegment_def s)
  also have "\<dots> \<longleftrightarrow> ri_Rest param"
  proof (cases "ri_Rest param")
    case True
    then have "v = n" "HasSuffix n ''...''" using untyped vn param by simp_all
    moreover have "TrimSuffix n ''...'' \<noteq> []" using IsRouteParamName_chars(1) [OF name] param calculation(2) by simp
    then have "length n > 3" using calculation(2) by (simp add: TrimSuffix_def)
    ultimately show ?thesis using True by simp
  next
    case False
    have "last v \<noteq> CHR ''.''"
    proof (cases f)
      case True
      then have "t \<noteq> []" "last t \<noteq> CHR ''.''" using ty param by (auto simp: IsRouteParamType_def)
      moreover have "v = n @ CHR '':'' # t" using v True by argo
      ultimately show ?thesis by simp
    next
      case f: False
      then have "v = ri_Name param" using vn False param by simp
      then show ?thesis using IsRouteParamName_chars [OF name] by auto
    qed
    moreover have "last v = CHR ''.''" if "HasSuffix v ''...''" using suffix_last [OF that] by simp
    ultimately show ?thesis using False by blast
  qed
  finally show "isRestSegment s \<longleftrightarrow> ri_Rest param" .
qed

text \<open>The state after the loop when no issue was found.\<close>

lemma pa_issues_add [simp]: "pa_issues (add_issue issue st) = pa_issues st @ [issue]"
  by (simp add: add_issue_def)

lemma param_step_ok:
  assumes "pa_issues (param_step l s param st) = []"
  shows "param_issue l s param = None" "ri_Name param \<notin> set (pa_counts st)" "pa_issues st = []"
proof -
  show none: "param_issue l s param = None"
    using assms by (cases "param_issue l s param") (simp_all add: param_step_def)
  show fresh: "ri_Name param \<notin> set (pa_counts st)"
    using assms none by (cases "ri_Name param \<in> set (pa_counts st)") (simp_all add: param_step_def Let_def)
  show "pa_issues st = []"
    using assms none fresh by (cases "ri_Rest param") (simp_all add: param_step_def Let_def)
qed

lemma segment_step_cases:
  assumes "pa_issues (segment_step l s st) = []"
  obtains (literal) "s \<noteq> []" "s \<noteq> ''.''" "s \<noteq> ''..''" "\<not> ContainsAny s ''{}''"
      "segment_step l s st = st\<lparr>pa_segments := pa_segments st @ [s]\<rparr>"
  | (param) param where "s \<noteq> []" "s \<noteq> ''.''" "s \<noteq> ''..''" "ContainsAny s ''{}''" "ParseRouteParamSegment s = Some param"
      "segment_step l s st = param_step l s param st"
proof -
  have ne: "s \<noteq> []" using assms unfolding segment_step_def by (cases "s = []") simp_all
  have dot: "\<not> (s = ''.'' \<or> s = ''..'')"
    using assms ne unfolding segment_step_def by (cases "s = ''.'' \<or> s = ''..''") simp_all
  then have dots: "s \<noteq> ''.''" "s \<noteq> ''..''" by blast+
  show thesis
  proof (cases "ContainsAny s ''{}''")
    case False
    with ne dot have "segment_step l s st = st\<lparr>pa_segments := pa_segments st @ [s]\<rparr>"
      unfolding segment_step_def by (simp only: if_False)
    with ne dots False show thesis by (rule literal)
  next
    case True
    with ne dot have step: "segment_step l s st = (case ParseRouteParamSegment s of
        None \<Rightarrow> add_issue (InvalidParamSegment s) st | Some param \<Rightarrow> param_step l s param st)"
      unfolding segment_step_def by (simp only: if_False if_True)
    with assms obtain param where p: "ParseRouteParamSegment s = Some param"
      by (cases "ParseRouteParamSegment s") simp_all
    with step have "segment_step l s st = param_step l s param st" by simp
    with ne dots True p show thesis by (rule param)
  qed
qed

lemma segment_step_issues:
  assumes "pa_issues (segment_step l s st) = []"
  shows "pa_issues st = []"
  using assms
proof (cases rule: segment_step_cases)
  case literal
  from assms have "pa_issues (st\<lparr>pa_segments := pa_segments st @ [s]\<rparr>) = []" by (simp only: literal(5))
  then show ?thesis by simp
next
  case (param param)
  from assms have "pa_issues (param_step l s param st) = []" by (simp only: param(6))
  then show ?thesis by (rule param_step_ok(3))
qed

lemma parse_segments_issues: "pa_issues (parse_segments ss st) = [] \<Longrightarrow> pa_issues st = []"
proof (induction ss arbitrary: st)
  case (Cons s ss)
  have "pa_issues (parse_segments ss (segment_step (ss = []) s st)) = []" using Cons.prems by simp
  then show ?case by (rule segment_step_issues [OF Cons.IH])
qed simp

definition segment_names :: "bool \<Rightarrow> string \<Rightarrow> string list" where
  "segment_names is_last s = names (is_last \<and> isRestSegment s) [s]"

lemma segment_step_ok:
  assumes "pa_issues (segment_step l s st) = []" "set (pa_counts st) = set (pa_params st)"
  shows "good_segment l s \<and> (isRestSegment s \<and> ContainsAny s ''{}'' \<longrightarrow> l)" (is ?good)
    "pa_params (segment_step l s st) = pa_params st @ segment_names l s" (is ?params)
    "pa_segments (segment_step l s st) = pa_segments st @ [norm_segment s]" (is ?segs)
    "set (pa_counts (segment_step l s st)) = set (pa_params (segment_step l s st))" (is ?counts)
    "distinct (pa_params st) \<Longrightarrow> distinct (pa_params (segment_step l s st))"
proof -
  have "?good \<and> ?params \<and> ?segs \<and> ?counts \<and> (distinct (pa_params st) \<longrightarrow> distinct (pa_params (segment_step l s st)))"
  using assms(1)
proof (cases rule: segment_step_cases)
  case literal
  have "\<not> HasPrefix s ''{''"
  proof
    assume "HasPrefix s ''{''"
    then obtain u where "s = CHR ''{'' # u" by (auto simp: prefix_def)
    then have "ContainsAny s ''{}''" by (simp add: ContainsAny_def)
    with literal(4) show False by blast
  qed
  then have "\<not> is_param s" "\<not> isRestSegment s" by (simp_all add: is_param_def isRestSegment_def)
  then have "segment_names l s = []" by (simp add: segment_names_def)
  moreover have "good_segment l s" "norm_segment s = s" using literal(1-4) by (simp_all add: good_segment_def norm_segment_def)
  ultimately show ?thesis unfolding literal(5) using literal(4) assms(2) by simp
next
  case (param param)
  have iss: "pa_issues (param_step l s param st) = []" using assms(1) param by simp
  note ok = param_step_ok [OF iss]
  note ps = param_segment [OF param(5) ok(1)]
  have rest: "ri_Rest param \<longrightarrow> l" using ok(1) by (simp add: param_issue_def split: if_splits)
  have nm: "segment_names l s = [ri_Name param]" using ps rest by (cases "ri_Rest param") (simp_all add: segment_names_def)
  have norm: "norm_segment s = (if ri_Rest param then RestRoutePatternPlaceholder else ''{}'')"
    using param(4) ps(2) by (simp add: norm_segment_def)
  have "pa_params (param_step l s param st) = pa_params st @ [ri_Name param]"
    "pa_segments (param_step l s param st) = pa_segments st @ [norm_segment s]"
    "pa_counts (param_step l s param st) = ri_Name param # pa_counts st"
    using ok norm by (cases "ri_Rest param"; simp add: param_step_def Let_def)+
  moreover have "good_segment l s" using param ok(1) by (simp add: good_segment_def)
  ultimately show ?thesis unfolding param(6) using nm ps(2) rest ok(2) assms(2) by simp
qed
  then show ?good ?params ?segs ?counts "distinct (pa_params st) \<Longrightarrow> distinct (pa_params (segment_step l s st))" by blast+
qed

definition rest_last :: "string list \<Rightarrow> bool" where
  "rest_last ss \<longleftrightarrow> ss \<noteq> [] \<and> isRestSegment (last ss)"

lemma parse_segments_ok:
  assumes "pa_issues (parse_segments ss st) = []" "set (pa_counts st) = set (pa_params st)" "distinct (pa_params st)"
  shows "good_segments ss \<and> (\<forall>s\<in>set (butlast ss). ContainsAny s ''{}'' \<longrightarrow> \<not> isRestSegment s) \<and>
    pa_params (parse_segments ss st) = pa_params st @ names (rest_last ss) ss \<and>
    pa_segments (parse_segments ss st) = pa_segments st @ map norm_segment ss \<and>
    distinct (pa_params (parse_segments ss st))"
  using assms
proof (induction ss arbitrary: st)
  case (Cons s ss)
  let ?st = "segment_step (ss = []) s st"
  have "pa_issues (parse_segments ss ?st) = []" using Cons.prems(1) by simp
  then have "pa_issues ?st = []" by (rule parse_segments_issues)
  note step = segment_step_ok [OF this Cons.prems(2)]
  have IH: "good_segments ss \<and> (\<forall>s\<in>set (butlast ss). ContainsAny s ''{}'' \<longrightarrow> \<not> isRestSegment s) \<and>
    pa_params (parse_segments ss ?st) = pa_params ?st @ names (rest_last ss) ss \<and>
    pa_segments (parse_segments ss ?st) = pa_segments ?st @ map norm_segment ss \<and> distinct (pa_params (parse_segments ss ?st))"
    using Cons.prems step(4) step(5) by (intro Cons.IH) simp_all
  have nm: "names (rest_last (s # ss)) (s # ss) = segment_names (ss = []) s @ names (rest_last ss) ss"
    by (auto simp: segment_names_def rest_last_def)
  have run: "parse_segments (s # ss) st = parse_segments ss ?st" by simp
  have inner: "\<forall>x\<in>set (butlast (s # ss)). ContainsAny x ''{}'' \<longrightarrow> \<not> isRestSegment x"
    using IH step(1) by (cases "ss = []") auto
  have "pa_params (parse_segments ss ?st) = pa_params st @ names (rest_last (s # ss)) (s # ss)"
    "pa_segments (parse_segments ss ?st) = pa_segments st @ map norm_segment (s # ss)"
    using IH step(2,3) nm by (simp_all only: append_assoc list.map append_Cons append_Nil)
  moreover have "good_segments (s # ss)" using IH step(1) by (simp only: good_segments.simps)
  ultimately show ?case unfolding run using IH inner by blast
qed simp

lemma good_segment_clean:
  assumes "good_segments ss" "\<forall>s\<in>set ss. CHR ''/'' \<notin> set s"
  shows "list_all safe_segment ss"
  using assms by (induction ss) (auto simp: good_segment_def safe_segment_def unsafe_value_def)

text \<open>An accepted route, seen by the router.\<close>

lemma accepted_route:
  assumes "ParseRoutePattern r = (info, [])"
  defines "parts \<equiv> splitPath r"
  shows "good_segments parts" "list_all safe_segment parts"
    "\<forall>s\<in>set (butlast parts). ContainsAny s ''{}'' \<longrightarrow> \<not> isRestSegment s"
    "rp_Params info = route_names r" "distinct (route_names r)"
    "rp_Pattern info = CHR ''/'' # Join (map norm_segment parts) ''/''"
    "has_rest r = rest_last parts"
proof -
  show hr: "has_rest r = rest_last parts" by (simp add: has_rest_def rest_last_def parts_def)
  have "r \<noteq> []" using assms(1) by (auto simp: ParseRoutePattern_def Let_def)
  consider (root) "r = ''/''" | (path) body where "r = CHR ''/'' # body" "body \<noteq> []"
  proof -
    have "HasPrefix r ''/''" if "r \<noteq> ''/''"
      using assms(1) that \<open>r \<noteq> []\<close> by (auto simp: ParseRoutePattern_def route_checks_def Let_def split: if_splits)
    then show thesis using that by (cases r) auto
  qed
  then have "good_segments parts \<and> list_all safe_segment parts \<and>
    (\<forall>s\<in>set (butlast parts). ContainsAny s ''{}'' \<longrightarrow> \<not> isRestSegment s) \<and>
    rp_Params info = route_names r \<and> distinct (route_names r) \<and>
    rp_Pattern info = CHR ''/'' # Join (map norm_segment parts) ''/''"
  proof cases
    case root
    then have "parts = []" by (simp add: parts_def splitPath_def Clean_def go_strings)
    with root hr assms(1) show ?thesis by (auto simp: ParseRoutePattern_def route_names_def parts_def)
  next
    case path
    let ?ss = "Split body CHR ''/''"
    let ?st = "\<lparr>pa_segments = [], pa_params = [], pa_rest = [], pa_counts = [], pa_issues = route_checks r\<rparr>"
    have "TrimPrefix r ''/'' = body" by (simp add: path TrimPrefix_def)
    with assms(1) path have iss: "pa_issues (parse_segments ?ss ?st) = []"
      and info: "rp_Pattern info = (if pa_segments (parse_segments ?ss ?st) = [] then ''/''
          else CHR ''/'' # Join (pa_segments (parse_segments ?ss ?st)) ''/'')"
        "rp_Params info = pa_params (parse_segments ?ss ?st)"
      by (auto simp: ParseRoutePattern_def Let_def split: if_splits)
    have ok: "good_segments ?ss" "\<forall>s\<in>set (butlast ?ss). ContainsAny s ''{}'' \<longrightarrow> \<not> isRestSegment s"
        "pa_params (parse_segments ?ss ?st) = names (rest_last ?ss) ?ss"
        "pa_segments (parse_segments ?ss ?st) = map norm_segment ?ss" "distinct (pa_params (parse_segments ?ss ?st))"
      using parse_segments_ok [OF iss] by auto
    then have safe: "list_all safe_segment ?ss" using Split_parts_no_sep by (intro good_segment_clean) auto
    moreover have "writes ?ss r" by (simp add: writes_def path Join_Split)
    ultimately have "\<not> hasUnsafeRequestSegment r" "segments r = ?ss" using safe_path_iff [of r ?ss] by blast+
    then have parts: "parts = ?ss" using splitPath_safe by (simp add: parts_def)
    have "route_names r = names (rest_last ?ss) ?ss" using hr parts by (simp add: route_names_def parts_def)
    then show ?thesis using ok safe info by (simp add: parts)
  qed
  then show "good_segments parts" "list_all safe_segment parts"
    "\<forall>s\<in>set (butlast parts). ContainsAny s ''{}'' \<longrightarrow> \<not> isRestSegment s"
    "rp_Params info = route_names r" "distinct (route_names r)"
    "rp_Pattern info = CHR ''/'' # Join (map norm_segment parts) ''/''" by blast+
qed

text \<open>
  C18: the compiler's check of a route declaration and the router agree. A declaration that
  \<open>ParseRoutePattern\<close> accepts without an issue is matched by \<open>route.Match\<close> with given values exactly when the
  values are those of the declared parameters and the path is the declaration with them written in, where
  every segment is a proper one; so no parameter is captured twice and no value escapes its segment.
\<close>

theorem accepted_route_matches:
  assumes "ParseRoutePattern route = (info, [])"
  shows "Match route path = Some params \<longleftrightarrow>
    dom params = set (rp_Params info) \<and>
    list_all safe_segment (route_fill route params) \<and> writes (route_fill route params) path"
  using Match_iff [of route path params] accepted_route(4,5) [OF assms] by simp

theorem accepted_route_matches_witness:
  "Match ''/u/{id:int}/{rest...}'' ''/u/7/x/y'' = Some [''id'' \<mapsto> ''7'', ''rest'' \<mapsto> ''x/y'']"
proof -
  let ?r = "''/u/{id:int}/{rest...}''"
  have acc: "ParseRoutePattern ?r =
      (\<lparr>rp_Pattern = ''/u/{}/{**}'', rp_Params = [''id'', ''rest''], rp_RestParam = ''rest''\<rparr>, [])"
    by code_simp
  have fill: "route_fill ?r [''id'' \<mapsto> ''7'', ''rest'' \<mapsto> ''x/y''] = [''u'', ''7'', ''x'', ''y'']" by code_simp
  have "list_all safe_segment [''u'', ''7'', ''x'', ''y'']" "writes [''u'', ''7'', ''x'', ''y''] ''/u/7/x/y''" by code_simp+
  then show ?thesis unfolding accepted_route_matches [OF acc] fill by auto
qed

end
