(* ===== verification/Locales.thy ===== *)
theory Locales
  imports RouteDecl
begin

text \<open>
  \<open>gowdk.go\<close>: the locale policy of a program (\<open>I18NConfig\<close>), its validation, and the routes it makes of a
  declared route. Locale codes are ASCII once they are validated; case is folded on ASCII here.
\<close>

section \<open>The policy\<close>

record LocaleConfig =
  lc_Code :: string
  lc_PathPrefix :: string

record I18NConfig =
  ic_Locales :: "LocaleConfig list"
  ic_DefaultLocale :: string
  ic_OmitDefaultPrefix :: bool

definition EqualFold :: "string \<Rightarrow> string \<Rightarrow> bool" where
  "EqualFold a b \<longleftrightarrow> ToLower a = ToLower b"

definition Enabled :: "I18NConfig \<Rightarrow> bool" where
  "Enabled config \<longleftrightarrow> ic_Locales config \<noteq> []"

definition DefaultLocaleCode :: "I18NConfig \<Rightarrow> string" where
  "DefaultLocaleCode config =
     (if ic_Locales config = [] then []
      else if TrimSpace (ic_DefaultLocale config) \<noteq> [] then TrimSpace (ic_DefaultLocale config)
      else TrimSpace (lc_Code (hd (ic_Locales config))))"

definition LocaleCodes :: "I18NConfig \<Rightarrow> string list" where
  "LocaleCodes config = filter (\<lambda>code. code \<noteq> []) (map (\<lambda>l. TrimSpace (lc_Code l)) (ic_Locales config))"

definition localePathPrefix :: "LocaleConfig \<Rightarrow> string" where
  "localePathPrefix l =
     (let pfx = TrimSpace (lc_PathPrefix l);
          pfx = (if pfx = [] then CHR ''/'' # ToLower (TrimSpace (lc_Code l)) else pfx);
          pfx = CHR ''/'' # Trim (TrimSpace pfx) {CHR ''/''}
      in if pfx = ''/'' then [] else pfx)"

definition PathPrefix :: "I18NConfig \<Rightarrow> string \<Rightarrow> string" where
  "PathPrefix config code =
     (let code = TrimSpace code
      in if code = [] \<or> \<not> Enabled config then []
         else if ic_OmitDefaultPrefix config \<and> EqualFold code (DefaultLocaleCode config) then []
         else (case find (\<lambda>l. EqualFold (TrimSpace (lc_Code l)) code) (ic_Locales config) of
                 Some l \<Rightarrow> localePathPrefix l
               | None \<Rightarrow> []))"

definition LocalizeRoute :: "I18NConfig \<Rightarrow> string \<Rightarrow> string \<Rightarrow> string" where
  "LocalizeRoute config route code =
     (let pfx = PathPrefix config code
      in if pfx = [] then route
         else let route = CHR ''/'' # TrimLeft route {CHR ''/''}
              in if route = ''/'' then pfx else pfx @ route)"

definition LocalizedRoutes :: "I18NConfig \<Rightarrow> string \<Rightarrow> (string \<times> string) list" where
  "LocalizedRoutes config route =
     (if \<not> Enabled config then [([], route)]
      else map (\<lambda>code. (code, LocalizeRoute config route code))
             (filter (\<lambda>code. code \<noteq> []) (map (\<lambda>l. TrimSpace (lc_Code l)) (ic_Locales config))))"

section \<open>Validation\<close>

datatype prefix_error = PrefixRoot | PrefixSyntax | PrefixBackslash | PrefixSpace | PrefixSegment string

datatype locale_error =
  CodeRequired nat | CodeUnsupported nat string | CodeRepeated string | BadPrefix nat prefix_error
| PrefixRepeated string string string | DefaultUndeclared string

definition validateLocalePathPrefix :: "string \<Rightarrow> prefix_error option" where
  "validateLocalePathPrefix pfx =
     (if pfx = [] then Some PrefixRoot
      else if ContainsAny pfx ''?#{}'' then Some PrefixSyntax
      else if Contains pfx [CHR 0x5C] then Some PrefixBackslash
      else if list_ex (\<lambda>c. IsSpace c \<or> c < 0x20 \<or> c = 0x7F) (runes pfx) then Some PrefixSpace
      else map_option PrefixSegment (find unsafe_value (Split (Trim pfx {CHR ''/''}) CHR ''/'')))"

definition ascii_letter :: "char \<Rightarrow> bool" where
  "ascii_letter c \<longleftrightarrow> is_lower c \<or> is_upper c"

definition validLocaleCode :: "string \<Rightarrow> bool" where
  "validLocaleCode code =
     (case Split code CHR ''-'' of
        [] \<Rightarrow> False
      | language # parts \<Rightarrow>
          2 \<le> length language \<and> length language \<le> 3 \<and> list_all ascii_letter language \<and>
          list_all (\<lambda>part. 2 \<le> length part \<and> length part \<le> 8 \<and>
                           list_all (\<lambda>c. ascii_letter c \<or> is_digit c) part) parts)"

text \<open>The loop of \<open>Validate\<close>: the codes and the prefixes of the locales it has passed.\<close>

fun validate_locales ::
  "bool \<Rightarrow> string \<Rightarrow> nat \<Rightarrow> LocaleConfig list \<Rightarrow> string list \<Rightarrow> (string \<times> string) list \<Rightarrow> locale_error + string list" where
  "validate_locales omit dflt i [] codes used = Inr codes"
| "validate_locales omit dflt i (l # ls) codes used =
     (let code = TrimSpace (lc_Code l); pfx = localePathPrefix l
      in if code = [] then Inl (CodeRequired i)
         else if \<not> validLocaleCode code then Inl (CodeUnsupported i code)
         else if ToLower code \<in> set codes then Inl (CodeRepeated code)
         else
           (case validateLocalePathPrefix pfx of
              Some err \<Rightarrow> Inl (BadPrefix i err)
            | None \<Rightarrow>
                if omit \<and> EqualFold code dflt
                then validate_locales omit dflt (i + 1) ls (ToLower code # codes) used
                else
                  (case map_of used pfx of
                     Some previous \<Rightarrow> Inl (PrefixRepeated pfx previous code)
                   | None \<Rightarrow>
                       validate_locales omit dflt (i + 1) ls (ToLower code # codes) ((pfx, code) # used))))"

definition Validate :: "I18NConfig \<Rightarrow> locale_error option" where
  "Validate config =
     (if \<not> Enabled config then None
      else
        let dflt = DefaultLocaleCode config
        in (case validate_locales (ic_OmitDefaultPrefix config) dflt 0 (ic_Locales config) [] [] of
              Inl err \<Rightarrow> Some err
            | Inr codes \<Rightarrow>
                if TrimSpace (ic_DefaultLocale config) \<noteq> [] \<and> ToLower dflt \<notin> set codes
                then Some (DefaultUndeclared dflt) else None))"

end
