(* ===== verification/Identity.thy ===== *)
theory Identity
  imports Prelude
begin

text \<open>
  \<open>internal/gwdkir/identity.go\<close>: the identities of the records the compiler's stages exchange. The
  identity of a route or an endpoint joins its escaped components.
\<close>

text \<open>\<open>url.PathEscape\<close>: percent encoding of the bytes that may not stand in a path segment.\<close>

definition unreserved :: "char \<Rightarrow> bool" where
  "unreserved c \<longleftrightarrow>
     is_digit c \<or> (65 \<le> (of_char c :: int) \<and> of_char c \<le> (90 :: int)) \<or> (97 \<le> (of_char c :: int) \<and> of_char c \<le> (122 :: int)) \<or>
     c \<in> set ''-_.~$&+=:@''"

definition upper_hex :: "nat \<Rightarrow> char" where
  "upper_hex d = ''0123456789ABCDEF'' ! d"

definition escape_byte :: "char \<Rightarrow> string" where
  "escape_byte c =
     (if unreserved c then [c]
      else [CHR ''%'', upper_hex (of_char c div 16), upper_hex (of_char c mod 16)])"

definition PathEscape :: "string \<Rightarrow> string" where
  "PathEscape s = concat (map escape_byte s)"

definition escape_part :: "string \<Rightarrow> string" where
  "escape_part part = concat (map (\<lambda>c. if c = CHR '':'' then ''%3A'' else [c]) (PathEscape part))"

definition joinIdentityParts :: "string list \<Rightarrow> string" where
  "joinIdentityParts parts = Join (map escape_part parts) '':''"

definition RouteIdentity :: "string \<Rightarrow> string \<Rightarrow> string \<Rightarrow> string" where
  "RouteIdentity verb path pageID = joinIdentityParts [verb, path, pageID]"

definition EndpointIdentity :: "string \<Rightarrow> string \<Rightarrow> string \<Rightarrow> string \<Rightarrow> string \<Rightarrow> string" where
  "EndpointIdentity kind pageID symbol verb path = joinIdentityParts [kind, pageID, symbol, verb, path]"

section \<open>The components can be read back\<close>

definition unescape_digit :: "char \<Rightarrow> nat" where
  "unescape_digit c = (if is_digit c then of_char c - 48 else of_char c - 55)"

fun unescape :: "string \<Rightarrow> string" where
  "unescape [] = []"
| "unescape (c # cs) =
     (if c = CHR ''%'' then
        (case cs of
           a # b # cs' \<Rightarrow> char_of (unescape_digit a * 16 + unescape_digit b) # unescape cs'
         | _ \<Rightarrow> [])
      else c # unescape cs)"

lemma hex_digits: "d < 16 \<Longrightarrow> unescape_digit (upper_hex d) = d \<and> upper_hex d \<noteq> CHR ''%'' \<and> upper_hex d \<noteq> CHR '':''"
proof -
  have "\<forall>d<16. unescape_digit (upper_hex d) = d \<and> upper_hex d \<noteq> CHR ''%'' \<and> upper_hex d \<noteq> CHR '':''"
    unfolding upper_hex_def unescape_digit_def is_digit_def by (simp add: All_less_Suc numeral_eq_Suc)
  then show "d < 16 \<Longrightarrow> ?thesis" by blast
qed

lemma nibbles: "(of_char c :: nat) div 16 < 16" "(of_char c :: nat) mod 16 < 16"
proof -
  have "of_char c < (16 * 16 :: nat)" using nat_of_char_less_256 [of c] by simp
  then show "(of_char c :: nat) div 16 < 16" "(of_char c :: nat) mod 16 < 16" by (rule less_mult_imp_div_less) simp
qed

lemma escape_part_Cons:
  "escape_part (c # s) =
     (if c = CHR '':'' then ''%3A''
      else escape_byte c) @ escape_part s"
proof -
  have d: "upper_hex (of_char c div 16) \<noteq> CHR '':''" "upper_hex (of_char c mod 16) \<noteq> CHR '':''"
    using hex_digits nibbles by blast+
  show ?thesis using d
    by (simp add: escape_part_def PathEscape_def escape_byte_def) (simp add: unreserved_def)
qed

lemma unescape_escape_part: "unescape (escape_part s) = s"
proof (induction s)
  case (Cons c s)
  have d: "unescape_digit (upper_hex (of_char c div 16)) * 16 + unescape_digit (upper_hex (of_char c mod 16)) = of_char c"
    by (simp add: hex_digits nibbles)
  have colon: "char_of (unescape_digit CHR ''3'' * 16 + unescape_digit CHR ''A'') = CHR '':''"
    by code_simp
  have pc: "\<not> unreserved CHR ''%''" by (simp add: unreserved_def is_digit_def)
  show ?case using Cons d colon pc by (auto simp: escape_part_Cons escape_byte_def)
qed (simp add: escape_part_def PathEscape_def)

lemma escape_part_no_colon: "CHR '':'' \<notin> set (escape_part s)"
proof (induction s)
  case (Cons c s)
  have d: "upper_hex (of_char c div 16) \<noteq> CHR '':''" "upper_hex (of_char c mod 16) \<noteq> CHR '':''"
    using hex_digits nibbles by blast+
  with Cons show ?case by (auto simp: escape_part_Cons escape_byte_def)
qed (simp add: escape_part_def PathEscape_def)

text \<open>Parts can be read back from the identity they make.\<close>

definition identity_parts :: "string \<Rightarrow> string list" where
  "identity_parts v = map unescape (Split v CHR '':'')"

lemma identity_parts_join: "parts \<noteq> [] \<Longrightarrow> identity_parts (joinIdentityParts parts) = parts"
  unfolding identity_parts_def joinIdentityParts_def
  by (subst Split_Join) (auto simp: escape_part_no_colon unescape_escape_part o_def)

text \<open>
  C21: identities are faithful. Two endpoints have the same identity only when their kinds, pages, symbols,
  methods and paths are the same, whatever bytes those contain.
\<close>

theorem EndpointIdentity_injective:
  "EndpointIdentity k p s m r = EndpointIdentity k' p' s' m' r' \<longleftrightarrow> k = k' \<and> p = p' \<and> s = s' \<and> m = m' \<and> r = r'"
proof
  assume eq: "EndpointIdentity k p s m r = EndpointIdentity k' p' s' m' r'"
  have parts: "identity_parts (EndpointIdentity k p s m r) = [k, p, s, m, r]" for k p s m r
    by (simp add: EndpointIdentity_def identity_parts_join)
  have "[k, p, s, m, r] = [k', p', s', m', r']" using arg_cong [OF eq, of identity_parts] unfolding parts .
  then show "k = k' \<and> p = p' \<and> s = s' \<and> m = m' \<and> r = r'" by simp
qed simp

end
