(* ===== verification/Source.thy ===== *)
theory Source
  imports Prelude
begin

text \<open>
  \<open>internal/source/source.go\<close>: positions and spans in a source file, and the conversions between byte
  offsets and positions counted in lines and code points. A source is its list of byte values.
\<close>

record SourcePosition =
  ps_Line :: int
  ps_Column :: int
  ps_Offset :: int

record SourceSpan =
  sp_Start :: SourcePosition
  sp_End :: SourcePosition

definition no_span :: SourceSpan where
  "no_span =
     (let p = \<lparr>ps_Line = 0, ps_Column = 0, ps_Offset = 0\<rparr> in \<lparr>sp_Start = p, sp_End = p\<rparr>)"

text \<open>One step over a code point: the line and the column behind it.\<close>

definition advance :: "rune \<Rightarrow> int \<Rightarrow> int \<Rightarrow> int \<times> int" where
  "advance r line column = (if r = 10 then (line + 1, 1) else (line, column + 1))"

function position_loop :: "int list \<Rightarrow> nat \<Rightarrow> nat \<Rightarrow> int \<Rightarrow> int \<Rightarrow> int \<times> int" where
  "position_loop src offset i line column =
     (if i < offset then
        (case decode_rune (drop i src) of (r, n) \<Rightarrow>
           (case advance r line column of (line', column') \<Rightarrow> position_loop src offset (i + n) line' column'))
      else (line, column))"
  by pat_completeness auto
termination
proof (relation "measure (\<lambda>(src, offset, i, line, column). offset - i)")
  fix src offset i and line column :: int and r n line' column'
  assume "i < offset" "(r, n) = decode_rune (drop i src)"
  moreover from this have "0 < n" using decode_rune_progress [of "drop i src"] by (metis snd_conv)
  ultimately show "((src, offset, i + n, line', column'), src, offset, i, line, column)
      \<in> measure (\<lambda>(src, offset, i, line, column). offset - i)" by auto
qed simp

declare position_loop.simps [simp del]

definition PositionAt :: "int list \<Rightarrow> int \<Rightarrow> SourcePosition" where
  "PositionAt src offset =
     (let offset = (if offset < 0 then 0 else offset);
          offset = (if offset > int (length src) then int (length src) else offset)
      in case position_loop src (nat offset) 0 1 1 of
           (line, column) \<Rightarrow> \<lparr>ps_Line = line, ps_Column = column, ps_Offset = offset\<rparr>)"

function offset_loop :: "int list \<Rightarrow> SourcePosition \<Rightarrow> nat \<Rightarrow> int \<Rightarrow> int \<Rightarrow> nat" where
  "offset_loop src pos i line column =
     (if i < length src then
        if line = ps_Line pos \<and> column = ps_Column pos then i
        else
          (case decode_rune (drop i src) of (r, n) \<Rightarrow>
             (case advance r line column of (line', column') \<Rightarrow> offset_loop src pos (i + n) line' column'))
      else length src)"
  by pat_completeness auto
termination
proof (relation "measure (\<lambda>(src, pos, i, line, column). length src - i)")
  fix src and pos :: SourcePosition and i and line column :: int and r n line' column'
  assume "i < length src" "(r, n) = decode_rune (drop i src)"
  moreover from this have "0 < n" using decode_rune_progress [of "drop i src"] by (metis snd_conv)
  ultimately show "((src, pos, i + n, line', column'), src, pos, i, line, column)
      \<in> measure (\<lambda>(src, pos, i, line, column). length src - i)" by auto
qed simp

declare offset_loop.simps [simp del]

definition OffsetOf :: "int list \<Rightarrow> SourcePosition \<Rightarrow> int" where
  "OffsetOf src pos =
     (if ps_Line pos \<le> 0 \<or> ps_Column pos \<le> 0 then 0 else int (offset_loop src pos 0 1 1))"

section \<open>Round trip\<close>

text \<open>The offsets at which code points start, counted from \<open>i\<close>.\<close>

inductive starts :: "int list \<Rightarrow> nat \<Rightarrow> nat \<Rightarrow> bool" for src where
  here: "starts src i i"
| step: "i < length src \<Longrightarrow> starts src (i + snd (decode_rune (drop i src))) j \<Longrightarrow> starts src i j"

code_pred starts .

lemma starts_le: "starts src i j \<Longrightarrow> i \<le> j"
  by (induction rule: starts.induct) auto

text \<open>Positions grow along the loop.\<close>

lemma advance_grows: "advance r l c = (l', c') \<Longrightarrow> l < l' \<or> l = l' \<and> c < c'"
  by (auto simp: advance_def split: if_splits)

lemma position_grows:
  "position_loop src offset i l c = (l', c') \<Longrightarrow>
     (l < l' \<or> l = l' \<and> c \<le> c') \<and> (i < offset \<longrightarrow> (l, c) \<noteq> (l', c'))"
proof (induction src offset i l c rule: position_loop.induct)
  case (1 src offset i l c)
  show ?case
  proof (cases "i < offset")
    case True
    obtain r n where dec: "decode_rune (drop i src) = (r, n)" by fastforce
    obtain l1 c1 where adv: "advance r l c = (l1, c1)" by fastforce
    have "position_loop src offset (i + n) l1 c1 = (l', c')"
      using 1(2) True dec adv by (simp add: position_loop.simps [of src offset i])
    from 1(1) [OF True dec [symmetric] adv [symmetric] this] advance_grows [OF adv]
    show ?thesis by auto
  next
    case False
    then show ?thesis using 1(2) by (simp add: position_loop.simps [of src offset i])
  qed
qed

lemma position_positive:
  assumes "position_loop src offset i l c = (l', c')" "0 < l" "0 < c"
  shows "0 < l'" "0 < c'"
proof -
  have "0 < l' \<and> 0 < c'" using assms
  proof (induction src offset i l c rule: position_loop.induct)
    case (1 src offset i l c)
    show ?case
    proof (cases "i < offset")
      case True
      obtain r n where dec: "decode_rune (drop i src) = (r, n)" by fastforce
      obtain l1 c1 where adv: "advance r l c = (l1, c1)" by fastforce
      have "position_loop src offset (i + n) l1 c1 = (l', c')"
        using 1(2) True dec adv by (simp add: position_loop.simps [of src offset i])
      moreover have "0 < l1" "0 < c1" using adv 1(3,4) by (auto simp: advance_def split: if_splits)
      ultimately show ?thesis using 1(1) [OF True dec [symmetric] adv [symmetric]] by blast
    next
      case False
      then show ?thesis using 1(2-4) by (simp add: position_loop.simps [of src offset i])
    qed
  qed
  then show "0 < l'" "0 < c'" by blast+
qed

lemma offset_of_start:
  "starts src i j \<Longrightarrow> j \<le> length src \<Longrightarrow> position_loop src j i l c = (ps_Line pos, ps_Column pos) \<Longrightarrow>
     offset_loop src pos i l c = j"
proof (induction arbitrary: l c rule: starts.induct)
  case (here i)
  then show ?case by (auto simp: position_loop.simps [of src i i] offset_loop.simps [of src pos i])
next
  case (step i j)
  obtain r n where dec: "decode_rune (drop i src) = (r, n)" by fastforce
  obtain l1 c1 where adv: "advance r l c = (l1, c1)" by fastforce
  have "0 < n" using decode_rune_progress [of "drop i src"] dec by simp
  then have lt: "i < j" using starts_le [OF step(2)] dec by simp
  then have "position_loop src j (i + n) l1 c1 = (ps_Line pos, ps_Column pos)"
    using step.prems(2) dec adv by (simp add: position_loop.simps [of src j i])
  then have "offset_loop src pos (i + n) l1 c1 = j" using step.IH step.prems(1) dec by simp
  moreover have "\<not> (l = ps_Line pos \<and> c = ps_Column pos)" using position_grows [OF step.prems(2)] lt by auto
  ultimately show ?case using step(1) dec adv unfolding offset_loop.simps [of src pos i l c] by auto
qed

text \<open>
  C22: the position of an offset leads back to the offset, for every offset at which a code point starts
  and for the end of the source.
\<close>

theorem OffsetOf_PositionAt:
  assumes "starts src 0 k" "k \<le> length src"
  shows "OffsetOf src (PositionAt src (int k)) = int k"
proof -
  obtain l c where p: "position_loop src k 0 1 1 = (l, c)" by fastforce
  have at: "PositionAt src (int k) = \<lparr>ps_Line = l, ps_Column = c, ps_Offset = int k\<rparr>"
    using assms(2) by (simp add: PositionAt_def p)
  have "0 < l" "0 < c" using position_positive [OF p] by simp_all
  then show ?thesis using offset_of_start [OF assms, of 1 1 "PositionAt src (int k)"] p by (simp add: OffsetOf_def at)
qed

theorem OffsetOf_PositionAt_witness:
  "PositionAt [97, 10, 195, 169, 98] 4 = \<lparr>ps_Line = 2, ps_Column = 2, ps_Offset = 4\<rparr> \<and>
   OffsetOf [97, 10, 195, 169, 98] (PositionAt [97, 10, 195, 169, 98] 4) = 4"
proof -
  have "starts [97, 10, 195, 169, 98] 0 4"
    by (rule starts.step, simp, rule starts.step, simp add: decode_rune_def, rule starts.step)
      (simp_all add: decode_rune_def is_cont_def Let_def, simp add: starts.here eval_nat_numeral)
  then have "OffsetOf [97, 10, 195, 169, 98] (PositionAt [97, 10, 195, 169, 98] (int 4)) = int 4"
    by (rule OffsetOf_PositionAt) simp
  moreover have "PositionAt [97, 10, 195, 169, 98] 4 = \<lparr>ps_Line = 2, ps_Column = 2, ps_Offset = 4\<rparr>" by code_simp
  ultimately show ?thesis by simp
qed

end
