(* ===== verification/RouteCheck.thy ===== *)
theory RouteCheck
  imports Locales Identity Source
begin

text \<open>
  \<open>internal/compiler/routes.go\<close>: the checks of the routes of a program against each other. Every page,
  action, API, fragment, standalone endpoint and contract reference registers its routes; the checks find
  duplicates, dynamic routes that could match the same request, and handlers of the same method and route.

  The records have the fields these checks read. A diagnostic is a value with the registrations it is
  about; its code and its related location are computed from it.
\<close>

section \<open>What is registered\<close>

definition hasSpan :: "SourceSpan \<Rightarrow> bool" where
  "hasSpan span \<longleftrightarrow>
     ps_Line (sp_Start span) > 0 \<and> ps_Column (sp_Start span) > 0 \<and> ps_Line (sp_End span) > 0 \<and> ps_Column (sp_End span) > 0"

definition firstSpan :: "SourceSpan list \<Rightarrow> SourceSpan" where
  "firstSpan spans = (case find hasSpan spans of Some span \<Rightarrow> span | None \<Rightarrow> no_span)"

text \<open>An action, an API or a fragment of a page.\<close>

record PageEndpoint =
  pn_Name :: string
  pn_Method :: string
  pn_Route :: string
  pn_Span :: SourceSpan
  pn_RouteSpan :: SourceSpan

record Page =
  pg_ID :: string
  pg_Source :: string
  pg_Route :: string
  pg_RouteSpan :: SourceSpan
  pg_Actions :: "PageEndpoint list"
  pg_APIs :: "PageEndpoint list"
  pg_Fragments :: "PageEndpoint list"

record Endpoint =
  ep_ID :: string
  ep_Kind :: string
  ep_Source :: string
  ep_Package :: string
  ep_PageID :: string
  ep_Symbol :: string
  ep_Method :: string
  ep_Path :: string
  ep_SourceFile :: string
  ep_Span :: SourceSpan

record EndpointSourceMap =
  em_ID :: string
  em_Kind :: string
  em_RouteSpan :: SourceSpan

record ContractReference =
  ref_Query :: bool
  ref_Name :: string
  ref_Method :: string
  ref_Path :: string
  ref_OwnerID :: string
  ref_Source :: string
  ref_Span :: SourceSpan

record routeRegistration =
  rr_Kind :: string
  rr_Owner :: string
  rr_Method :: string
  rr_Route :: string
  rr_Pattern :: string
  rr_Contract :: string
  rr_PageID :: string
  rr_Source :: string
  rr_Span :: SourceSpan

text \<open>The identity of an endpoint, and its entry in the source map.\<close>

definition SemanticID :: "Endpoint \<Rightarrow> string" where
  "SemanticID e =
     (if ep_ID e \<noteq> [] then ep_ID e
      else EndpointIdentity (ep_Kind e) (ep_PageID e) (ep_Symbol e) (ep_Method e) (ep_Path e))"

definition SourceMap_Endpoint :: "EndpointSourceMap list \<Rightarrow> string \<Rightarrow> EndpointSourceMap" where
  "SourceMap_Endpoint sm ident =
     (case find (\<lambda>e. em_ID e = ident) sm of
        Some e \<Rightarrow> e
      | None \<Rightarrow> \<lparr>em_ID = [], em_Kind = [], em_RouteSpan = no_span\<rparr>)"

definition standaloneEndpointKindLabel :: "Endpoint \<Rightarrow> EndpointSourceMap \<Rightarrow> string" where
  "standaloneEndpointKindLabel e source =
     (if em_Kind source \<noteq> [] then em_Kind source
      else if ep_Kind e = ''action'' then ''act'' else ep_Kind e)"

definition contractReferenceRouteMethod :: "bool \<Rightarrow> string" where
  "contractReferenceRouteMethod query = (if query then ''GET'' else ''POST'')"

definition BackendRouteMethod :: "string \<Rightarrow> string" where
  "BackendRouteMethod v = ToUpper (TrimSpace v)"

definition localizedPageRoutes :: "I18NConfig \<Rightarrow> Page \<Rightarrow> string list" where
  "localizedPageRoutes config page = map snd (LocalizedRoutes config (pg_Route page))"

definition actionRegistrationRoutes :: "I18NConfig \<Rightarrow> string \<Rightarrow> string \<Rightarrow> bool \<Rightarrow> string list" where
  "actionRegistrationRoutes config pageRoute route inherited =
     (if \<not> inherited \<or> \<not> Enabled config then [route] else map snd (LocalizedRoutes config pageRoute))"

text \<open>The pattern of a route without an issue; a registration is made only for such a route.\<close>

definition accepted_pattern :: "string \<Rightarrow> string option" where
  "accepted_pattern route = (case ParseRoutePattern route of (info, issues) \<Rightarrow> if issues = [] then Some (rp_Pattern info) else None)"

definition register :: "string \<Rightarrow> (string \<Rightarrow> routeRegistration) \<Rightarrow> routeRegistration list" where
  "register route build = (case accepted_pattern route of None \<Rightarrow> [] | Some pat \<Rightarrow> [(build pat)\<lparr>rr_Route := route, rr_Pattern := pat\<rparr>])"

definition method_or :: "string \<Rightarrow> string \<Rightarrow> string" where
  "method_or dflt verb = (let m = ToUpper (TrimSpace verb) in if m = [] then dflt else m)"

definition registration :: "string \<Rightarrow> string \<Rightarrow> string \<Rightarrow> string \<Rightarrow> string \<Rightarrow> SourceSpan \<Rightarrow> string \<Rightarrow> routeRegistration" where
  "registration kind owner verb pageID source span pat =
     \<lparr>rr_Kind = kind, rr_Owner = owner, rr_Method = verb, rr_Route = [], rr_Pattern = pat, rr_Contract = [],
      rr_PageID = pageID, rr_Source = source, rr_Span = span\<rparr>"

definition page_registrations :: "I18NConfig \<Rightarrow> Page \<Rightarrow> routeRegistration list" where
  "page_registrations config page =
     concat (map (\<lambda>route. register route
       (registration ''page'' (''page '' @ pg_ID page) ''GET'' (pg_ID page) (pg_Source page) (pg_RouteSpan page)))
       (localizedPageRoutes config page))"

definition action_registrations :: "I18NConfig \<Rightarrow> Page \<Rightarrow> PageEndpoint \<Rightarrow> routeRegistration list" where
  "action_registrations config page a =
     (let route = (if pn_Route a = [] then pg_Route page else pn_Route a)
      in concat (map (\<lambda>r. register r
           (registration ''action'' (''action '' @ pg_ID page @ ''.'' @ pn_Name a) (method_or ''POST'' (pn_Method a))
             (pg_ID page) (pg_Source page) (firstSpan [pn_RouteSpan a, pn_Span a, pg_RouteSpan page])))
         (actionRegistrationRoutes config (pg_Route page) route (pn_Route a = []))))"

definition api_registrations :: "Page \<Rightarrow> PageEndpoint \<Rightarrow> routeRegistration list" where
  "api_registrations page a =
     register (if pn_Route a = [] then pg_Route page else pn_Route a)
       (registration ''api'' (''api '' @ pg_ID page @ ''.'' @ (if pn_Name a = [] then ''<anonymous>'' else pn_Name a))
         (method_or ''GET'' (pn_Method a)) (pg_ID page) (pg_Source page)
         (firstSpan [pn_RouteSpan a, pn_Span a, pg_RouteSpan page]))"

definition fragment_registrations :: "Page \<Rightarrow> PageEndpoint \<Rightarrow> routeRegistration list" where
  "fragment_registrations page f =
     register (pn_Route f)
       (registration ''fragment'' (''fragment '' @ pg_ID page @ ''.'' @ pn_Name f) (method_or ''GET'' (pn_Method f))
         (pg_ID page) (pg_Source page) (firstSpan [pn_RouteSpan f, pn_Span f, pg_RouteSpan page]))"

definition endpoint_registrations :: "EndpointSourceMap list \<Rightarrow> Endpoint \<Rightarrow> routeRegistration list" where
  "endpoint_registrations sm e =
     (if ep_Source e \<noteq> ''go'' then []
      else
        let source = SourceMap_Endpoint sm (SemanticID e);
            label = TrimSpace (standaloneEndpointKindLabel e source);
            kind = (if label = [] then ''endpoint'' else label)
        in register (ep_Path e)
             (registration kind (kind @ '' '' @ ep_Package e @ ''.'' @ ep_Symbol e) (ToUpper (TrimSpace (ep_Method e)))
               (ep_PageID e) (ep_SourceFile e) (firstSpan [em_RouteSpan source, ep_Span e])))"

definition reference_registrations :: "ContractReference \<Rightarrow> routeRegistration list" where
  "reference_registrations ref =
     (if TrimSpace (ref_Method ref) = [] \<or> TrimSpace (ref_Path ref) = [] then []
      else if BackendRouteMethod (ref_Method ref) \<noteq> contractReferenceRouteMethod (ref_Query ref) then []
      else if ValidateBackendRoutePath (ref_Path ref) \<noteq> None then []
      else
        let kind = (if ref_Query ref then ''query'' else ''command'')
        in map (rr_Contract_update (\<lambda>_. ref_Name ref))
             (register (BackendRoutePath (ref_Path ref))
               (registration (''contract_'' @ kind) (kind @ '' contract '' @ ref_Name ref)
                 (ToUpper (TrimSpace (ref_Method ref))) (ref_OwnerID ref) (ref_Source ref) (ref_Span ref))))"

definition routeRegistrations ::
  "I18NConfig \<Rightarrow> Page list \<Rightarrow> Endpoint list \<Rightarrow> EndpointSourceMap list \<Rightarrow> ContractReference list \<Rightarrow> routeRegistration list" where
  "routeRegistrations config pages endpoints sm refs =
     concat (map (\<lambda>page.
       page_registrations config page @
       (if accepted_pattern (pg_Route page) = None then []
        else concat (map (action_registrations config page) (pg_Actions page))) @
       concat (map (api_registrations page) (pg_APIs page)) @
       concat (map (fragment_registrations page) (pg_Fragments page))) pages) @
     concat (map (endpoint_registrations sm) endpoints) @
     concat (map reference_registrations refs)"

section \<open>Overlap of patterns\<close>

definition routePatternSegments :: "string \<Rightarrow> string list" where
  "routePatternSegments pattern =
     (let trimmed = Trim pattern {CHR ''/''} in if trimmed = [] then [] else Split trimmed CHR ''/'')"

definition patternSegmentsHaveRest :: "string list \<Rightarrow> bool" where
  "patternSegmentsHaveRest segs \<longleftrightarrow> segs \<noteq> [] \<and> last segs = RestRoutePatternPlaceholder"

definition patternHasRest :: "string \<Rightarrow> bool" where
  "patternHasRest pattern \<longleftrightarrow> patternSegmentsHaveRest (routePatternSegments pattern)"

definition patternIsDynamic :: "string \<Rightarrow> bool" where
  "patternIsDynamic pattern \<longleftrightarrow> Contains pattern ''{}'' \<or> patternHasRest pattern"

text \<open>The callers pass lists of the same length (\<open>compatible_arguments\<close>), so the index is in range.\<close>

fun routeSegmentsCompatible :: "string list \<Rightarrow> string list \<Rightarrow> bool" where
  "routeSegmentsCompatible [] right = True"
| "routeSegmentsCompatible (l # left) [] = False"
| "routeSegmentsCompatible (l # left) (r # right) \<longleftrightarrow>
     (l = ''{}'' \<or> r = ''{}'' \<or> l = r) \<and> routeSegmentsCompatible left right"

definition rest_overlap :: "string list \<Rightarrow> string list \<Rightarrow> bool" where
  "rest_overlap left right \<longleftrightarrow>
     length right \<ge> length left \<and> routeSegmentsCompatible (take (length left - 1) left) (take (length left - 1) right)"

definition segments_overlap :: "string list \<Rightarrow> string list \<Rightarrow> bool" where
  "segments_overlap left right =
     (if patternSegmentsHaveRest left \<and> patternSegmentsHaveRest right then
        let pre = min (length left - 1) (length right - 1) in routeSegmentsCompatible (take pre left) (take pre right)
      else if patternSegmentsHaveRest left then rest_overlap left right
      else if patternSegmentsHaveRest right then rest_overlap right left
      else length left = length right \<and> routeSegmentsCompatible left right)"

definition routePatternsOverlap :: "string \<Rightarrow> string \<Rightarrow> bool" where
  "routePatternsOverlap left right = segments_overlap (routePatternSegments left) (routePatternSegments right)"

section \<open>The checks\<close>

datatype diagnostic =
  DuplicateRoute string Page Page
| AmbiguousRoute routeRegistration routeRegistration
| MethodConflict routeRegistration routeRegistration

definition diagnostic_code :: "diagnostic \<Rightarrow> string" where
  "diagnostic_code d =
     (case d of
        DuplicateRoute _ _ _ \<Rightarrow> ''duplicate_route'' | AmbiguousRoute _ _ \<Rightarrow> ''ambiguous_dynamic_route''
      | MethodConflict _ _ \<Rightarrow> ''route_method_conflict'')"

text \<open>The earlier declaration a diagnostic also points at, when that has a position.\<close>

definition relatedSpan :: "string \<Rightarrow> SourceSpan \<Rightarrow> string \<Rightarrow> (string \<times> SourceSpan \<times> string) list" where
  "relatedSpan src span message = (if \<not> hasSpan span then [] else [(src, span, message)])"

definition duplicateRouteMessage :: "(string \<Rightarrow> string) \<Rightarrow> string \<Rightarrow> Page \<Rightarrow> Page \<Rightarrow> string" where
  "duplicateRouteMessage Quote route first page =
     (let message = ''duplicate page route '' @ Quote route;
          message = (if pg_ID first \<noteq> [] \<and> pg_ID page \<noteq> []
                     then message @ ''; first declared by page '' @ pg_ID first @ '' and duplicated by page '' @ pg_ID page
                     else message)
      in if pg_Source first \<noteq> [] \<and> pg_Source page \<noteq> []
         then message @ '' ('' @ pg_Source first @ '' and '' @ pg_Source page @ '')'' else message)"

definition ambiguousDynamicRouteMessage :: "(string \<Rightarrow> string) \<Rightarrow> routeRegistration \<Rightarrow> routeRegistration \<Rightarrow> string" where
  "ambiguousDynamicRouteMessage Quote current previous =
     (let message = ''ambiguous dynamic route '' @ Quote (rr_Route current) @ '' overlaps '' @ Quote (rr_Route previous);
          message = (if rr_Owner current \<noteq> [] \<and> rr_Owner previous \<noteq> []
                     then message @ ''; '' @ rr_Owner current @ '' could match the same request path as '' @ rr_Owner previous
                     else message)
      in if rr_Source current \<noteq> [] \<and> rr_Source previous \<noteq> []
         then message @ '' ('' @ rr_Source current @ '' and '' @ rr_Source previous @ '')'' else message)"

text \<open>The first page of each pattern is remembered.\<close>

fun unique_loop :: "(Page \<times> string) list \<Rightarrow> (string \<times> Page) list \<Rightarrow> diagnostic list" where
  "unique_loop [] seen = []"
| "unique_loop ((page, route) # rest) seen =
     (case accepted_pattern route of
        None \<Rightarrow> unique_loop rest seen
      | Some pat \<Rightarrow>
          (case map_of seen pat of
             None \<Rightarrow> unique_loop rest ((pat, page) # seen)
           | Some first \<Rightarrow> DuplicateRoute route first page # unique_loop rest seen))"

definition page_routes :: "I18NConfig \<Rightarrow> Page list \<Rightarrow> (Page \<times> string) list" where
  "page_routes config pages = concat (map (\<lambda>page. map (Pair page) (localizedPageRoutes config page)) pages)"

definition validateUniquePageRoutes :: "I18NConfig \<Rightarrow> Page list \<Rightarrow> diagnostic list" where
  "validateUniquePageRoutes config pages = unique_loop (page_routes config pages) []"

text \<open>Whether two registrations are compared for an overlap.\<close>

definition compared :: "routeRegistration \<Rightarrow> routeRegistration \<Rightarrow> bool" where
  "compared current previous =
     (if rr_Pattern current = rr_Pattern previous then False
      else if rr_Kind current = ''page'' \<and> rr_Kind previous = ''page'' then
        (patternIsDynamic (rr_Pattern current) \<and> patternIsDynamic (rr_Pattern previous)) \<or>
        (patternHasRest (rr_Pattern current) \<or> patternHasRest (rr_Pattern previous))
      else
        rr_Method current = rr_Method previous \<and>
        (patternIsDynamic (rr_Pattern current) \<or> patternIsDynamic (rr_Pattern previous)))"

fun ambiguous_loop :: "routeRegistration list \<Rightarrow> routeRegistration list \<Rightarrow> diagnostic list" where
  "ambiguous_loop [] registered = []"
| "ambiguous_loop (current # rest) registered =
     map (AmbiguousRoute current)
       (filter (\<lambda>previous. compared current previous \<and>
          routePatternsOverlap (rr_Pattern current) (rr_Pattern previous)) registered) @
     ambiguous_loop rest (registered @ [current])"

definition validateAmbiguousDynamicPageRoutes :: "routeRegistration list \<Rightarrow> diagnostic list" where
  "validateAmbiguousDynamicPageRoutes regs = ambiguous_loop regs []"







section \<open>Normalized segments\<close>

text \<open>Segments of a normalized pattern: proper ones, with the placeholder of the rest only at the end.\<close>

definition normal :: "string list \<Rightarrow> bool" where
  "normal ps \<longleftrightarrow> list_all safe_segment ps \<and> RestRoutePatternPlaceholder \<notin> set (butlast ps)"

abbreviation is_rest :: "string \<Rightarrow> string list \<Rightarrow> bool" where
  "is_rest p ps \<equiv> ps = [] \<and> p = RestRoutePatternPlaceholder"

text \<open>The segments of a path a normalized pattern stands for.\<close>

fun naccepts :: "string list \<Rightarrow> string list \<Rightarrow> bool" where
  "naccepts [] vs = (vs = [])"
| "naccepts (p # ps) vs =
     (if is_rest p ps then vs \<noteq> []
      else (case vs of [] \<Rightarrow> False | v # vs' \<Rightarrow> (p = ''{}'' \<or> p = v) \<and> naccepts ps vs'))"

text \<open>The overlap of two patterns, segment by segment.\<close>

fun overlap :: "string list \<Rightarrow> string list \<Rightarrow> bool" where
  "overlap [] [] = True"
| "overlap [] (q # qs) = False"
| "overlap (p # ps) [] = False"
| "overlap (p # ps) (q # qs) =
     (if is_rest p ps \<or> is_rest q qs then True
      else (p = ''{}'' \<or> q = ''{}'' \<or> p = q) \<and> overlap ps qs)"

lemma normal_Cons: "normal (p # ps) \<longleftrightarrow> safe_segment p \<and> normal ps \<and> (ps \<noteq> [] \<longrightarrow> p \<noteq> RestRoutePatternPlaceholder)"
  by (auto simp: normal_def)

lemma naccepts_self: "naccepts ps ps"
  by (induction ps) auto

lemma overlap_sound:
  "naccepts ps vs \<Longrightarrow> naccepts qs vs \<Longrightarrow> overlap ps qs"
proof (induction ps qs arbitrary: vs rule: overlap.induct)
  case (4 p ps q qs)
  then show ?case by (cases vs) auto
qed (auto split: if_splits list.splits)

lemma overlap_complete:
  "overlap ps qs \<Longrightarrow> normal ps \<Longrightarrow> normal qs \<Longrightarrow> \<exists>vs. list_all safe_segment vs \<and> naccepts ps vs \<and> naccepts qs vs"
proof (induction ps qs rule: overlap.induct)
  case (4 p ps q qs)
  consider (left) "is_rest p ps" | (right) "is_rest q qs" | (step) "\<not> (is_rest p ps \<or> is_rest q qs)" by blast
  then show ?case
  proof cases
    case left
    then have "naccepts (p # ps) (q # qs)" by simp
    with 4(4) naccepts_self [of "q # qs"] show ?thesis by (metis normal_def)
  next
    case right
    then have "naccepts (q # qs) (p # ps)" by simp
    with 4(3) naccepts_self [of "p # ps"] show ?thesis by (metis normal_def)
  next
    case step
    with 4 obtain vs where vs: "list_all safe_segment vs" "naccepts ps vs" "naccepts qs vs" by (auto simp: normal_Cons)
    let ?v = "if p = ''{}'' then q else p"
    have "naccepts (p # ps) (?v # vs)" "naccepts (q # qs) (?v # vs)" using step 4(2) vs by auto
    moreover have "safe_segment ?v" using 4(3,4) by (auto simp: normal_Cons)
    ultimately show ?thesis using vs(1) by (intro exI [of _ "?v # vs"]) simp
  qed
qed auto

lemma compatible_take_0 [simp]: "routeSegmentsCompatible (take 0 l) r" by simp

lemma rest_Cons: "patternSegmentsHaveRest (p # ps) \<longleftrightarrow> is_rest p ps \<or> patternSegmentsHaveRest ps"
  by (auto simp: patternSegmentsHaveRest_def)

lemma rest_ne: "patternSegmentsHaveRest ps \<Longrightarrow> 0 < length ps"
  by (simp add: patternSegmentsHaveRest_def)

lemma take_step: "0 < n \<Longrightarrow> take n (x # xs) = x # take (n - 1) xs"
  by (cases n) auto

lemma segments_overlap_iff: "normal ps \<Longrightarrow> normal qs \<Longrightarrow> segments_overlap ps qs = overlap ps qs"
proof (induction ps qs rule: overlap.induct)
  case (4 p ps q qs)
  show ?case
  proof (cases "is_rest p ps \<or> is_rest q qs")
    case True
    then show ?thesis
      by (auto simp: segments_overlap_def rest_overlap_def rest_Cons Let_def)
  next
    case False
    then have IH: "segments_overlap ps qs = overlap ps qs" using 4 by (simp add: normal_Cons)
    have "segments_overlap (p # ps) (q # qs) \<longleftrightarrow> (p = ''{}'' \<or> q = ''{}'' \<or> p = q) \<and> segments_overlap ps qs"
    proof -
      have rest: "patternSegmentsHaveRest (p # ps) = patternSegmentsHaveRest ps"
        "patternSegmentsHaveRest (q # qs) = patternSegmentsHaveRest qs" using False by (auto simp: rest_Cons)
      have min: "min (length ps) (length qs) - 1 = min (length ps - 1) (length qs - 1)" by (simp add: min_diff)
      show ?thesis
        using rest_ne [of ps] rest_ne [of qs]
        by (cases "patternSegmentsHaveRest ps"; cases "patternSegmentsHaveRest qs")
          (simp_all add: segments_overlap_def rest_overlap_def rest Let_def take_step min [simplified] eq_commute conj_ac disj_ac less_Suc_eq_le,
            (cases ps; cases qs; auto)?)
    qed
    moreover have "overlap (p # ps) (q # qs) \<longleftrightarrow> (p = ''{}'' \<or> q = ''{}'' \<or> p = q) \<and> overlap ps qs"
      using False by (simp only: overlap.simps if_False)
    ultimately show ?thesis using IH by blast
  qed
qed (auto simp: segments_overlap_def rest_overlap_def patternSegmentsHaveRest_def)

text \<open>The loop over two patterns runs on lists of the same length, so it stays within both.\<close>

lemma compatible_arguments:
  "patternSegmentsHaveRest l \<Longrightarrow> patternSegmentsHaveRest r \<Longrightarrow>
     length (take (min (length l - 1) (length r - 1)) l) = length (take (min (length l - 1) (length r - 1)) r)"
  "length r \<ge> length l \<Longrightarrow> length (take (length l - 1) l) = length (take (length l - 1) r)"
  by (cases l; cases r; auto simp: patternSegmentsHaveRest_def min_def)+

section \<open>Patterns of accepted routes\<close>

lemma norm_segment_safe: "safe_segment s \<Longrightarrow> safe_segment (norm_segment s)"
  by (auto simp: norm_segment_def RestRoutePatternPlaceholder_def safe_segment_def unsafe_value_def)

lemma brace_first: "HasPrefix s ''{'' \<Longrightarrow> ContainsAny s ''{}''"
  by (cases s) (simp_all add: ContainsAny_def)

lemma rest_has_braces: "is_param s \<Longrightarrow> ContainsAny s ''{}''" "isRestSegment s \<Longrightarrow> ContainsAny s ''{}''"
  using brace_first by (simp_all add: is_param_def isRestSegment_def)

lemma placeholder_braces: "ContainsAny RestRoutePatternPlaceholder ''{}''" "ContainsAny ''{}'' ''{}''"
  "RestRoutePatternPlaceholder \<noteq> ''{}''"
  unfolding ContainsAny_def RestRoutePatternPlaceholder_def by simp_all (rule exI, blast)

lemma norm_segment_rest: "norm_segment s = RestRoutePatternPlaceholder \<longleftrightarrow> isRestSegment s"
  unfolding norm_segment_def using rest_has_braces(2) [of s] placeholder_braces by metis

lemma norm_segment_param: "good_segment l s \<Longrightarrow> \<not> isRestSegment s \<Longrightarrow> norm_segment s = (if is_param s then ''{}'' else s)"
  unfolding norm_segment_def using param_segment(1) rest_has_braces(1) [of s] by (auto simp: good_segment_def)

lemma is_param_norm: "good_segment l s \<Longrightarrow> \<not> isRestSegment s \<Longrightarrow> is_param s \<or> s = v \<longleftrightarrow> norm_segment s = ''{}'' \<or> norm_segment s = v"
  unfolding norm_segment_def using param_segment(1) rest_has_braces(1) [of s] placeholder_braces
  by (auto simp: good_segment_def)

lemma accepts_norm:
  "good_segments ps \<Longrightarrow> \<forall>s\<in>set (butlast ps). ContainsAny s ''{}'' \<longrightarrow> \<not> isRestSegment s \<Longrightarrow>
   accepts (rest_last ps) ps vs = naccepts (map norm_segment ps) vs"
proof (induction ps arbitrary: vs)
  case (Cons p ps)
  have IH: "ps \<noteq> [] \<Longrightarrow> accepts (rest_last ps) ps vs' = naccepts (map norm_segment ps) vs'" for vs'
    using Cons.prems by (intro Cons.IH) auto
  show ?case
  proof (cases "isRestSegment p")
    case True
    then have "ps = []" using Cons.prems(2) rest_has_braces(2) by (cases ps) auto
    with True show ?thesis by (simp add: rest_last_def norm_segment_rest)
  next
    case False
    then have nr: "\<not> is_rest (norm_segment p) (map norm_segment ps)" "\<not> (rest_last (p # ps) \<and> ps = [])"
      by (simp_all add: rest_last_def norm_segment_rest)
    have "accepts (rest_last (p # ps)) ps vs' = naccepts (map norm_segment ps) vs'" for vs'
      using IH by (cases "ps = []") (simp_all add: rest_last_def)
    with nr show ?thesis
      using is_param_norm [OF _ False, of "ps = []"] Cons.prems(1) by (auto split: list.splits)
  qed
qed (simp add: rest_last_def)

lemma accepted_normal:
  assumes "ParseRoutePattern r = (info, [])"
  shows "routePatternSegments (rp_Pattern info) = map norm_segment (splitPath r)"
    "normal (routePatternSegments (rp_Pattern info))"
    "Match r path \<noteq> None \<longleftrightarrow> \<not> hasUnsafeRequestSegment path \<and> naccepts (routePatternSegments (rp_Pattern info)) (segments path)"
proof -
  note acc = accepted_route [OF assms]
  let ?ns = "map norm_segment (splitPath r)"
  have safe: "list_all safe_segment ?ns" using acc(2) norm_segment_safe by (auto simp: list_all_iff)
  have "writes ?ns (rp_Pattern info)" using acc(6) by (simp add: writes_def Let_def)
  then have "segments (rp_Pattern info) = ?ns" using writes_segments(1) [OF safe] by blast
  then show segs: "routePatternSegments (rp_Pattern info) = ?ns" by (simp add: routePatternSegments_def segments_def)
  have "RestRoutePatternPlaceholder \<notin> set (butlast ?ns)"
    using acc(3) rest_has_braces(2) by (auto simp flip: map_butlast simp: norm_segment_rest) (metis norm_segment_rest)
  with safe show "normal (routePatternSegments (rp_Pattern info))" by (simp add: normal_def segs)
  show "Match r path \<noteq> None \<longleftrightarrow> \<not> hasUnsafeRequestSegment path \<and> naccepts (routePatternSegments (rp_Pattern info)) (segments path)"
    unfolding Match_accepts segs acc(7) accepts_norm [OF acc(1,3)] ..
qed

lemma overlap_common_path:
  assumes "ParseRoutePattern r = (info, [])" "ParseRoutePattern r' = (info', [])"
  shows "routePatternsOverlap (rp_Pattern info) (rp_Pattern info') \<longleftrightarrow> (\<exists>path. Match r path \<noteq> None \<and> Match r' path \<noteq> None)"
proof -
  note a = accepted_normal [OF assms(1)] and b = accepted_normal [OF assms(2)]
  let ?ps = "routePatternSegments (rp_Pattern info)" and ?qs = "routePatternSegments (rp_Pattern info')"
  have "routePatternsOverlap (rp_Pattern info) (rp_Pattern info') = overlap ?ps ?qs"
    by (simp add: routePatternsOverlap_def segments_overlap_iff a(2) b(2))
  also have "\<dots> \<longleftrightarrow> (\<exists>vs. list_all safe_segment vs \<and> naccepts ?ps vs \<and> naccepts ?qs vs)"
    using overlap_sound overlap_complete [OF _ a(2) b(2)] by blast
  also have "\<dots> \<longleftrightarrow> (\<exists>path. Match r path \<noteq> None \<and> Match r' path \<noteq> None)"
  proof
    assume "\<exists>vs. list_all safe_segment vs \<and> naccepts ?ps vs \<and> naccepts ?qs vs"
    then obtain vs where vs: "list_all safe_segment vs" "naccepts ?ps vs" "naccepts ?qs vs" by blast
    have "writes vs (CHR ''/'' # Join vs ''/'')" by (simp add: writes_def Let_def)
    then have "\<not> hasUnsafeRequestSegment (CHR ''/'' # Join vs ''/'') \<and> segments (CHR ''/'' # Join vs ''/'') = vs"
      using vs(1) safe_path_iff by blast
    with vs show "\<exists>path. Match r path \<noteq> None \<and> Match r' path \<noteq> None" using a(3) b(3) by metis
  next
    assume "\<exists>path. Match r path \<noteq> None \<and> Match r' path \<noteq> None"
    then show "\<exists>vs. list_all safe_segment vs \<and> naccepts ?ps vs \<and> naccepts ?qs vs"
      using a(3) b(3) safe_path_iff by metis
  qed
  finally show ?thesis .
qed

section \<open>What the checks establish\<close>

abbreviation clash :: "routeRegistration \<Rightarrow> routeRegistration \<Rightarrow> bool" where
  "clash current previous \<equiv>
     compared current previous \<and> routePatternsOverlap (rr_Pattern current) (rr_Pattern previous)"

lemma ambiguous_loop_Nil:
  "ambiguous_loop regs seen = [] \<longleftrightarrow>
     (\<forall>p\<in>set seen. \<forall>c\<in>set regs. \<not> clash c p) \<and> sorted_wrt (\<lambda>p c. \<not> clash c p) regs"
proof (induction regs arbitrary: seen)
  case (Cons c rest)
  have "ambiguous_loop (c # rest) seen = [] \<longleftrightarrow>
      (\<forall>p\<in>set seen. \<not> clash c p) \<and> ambiguous_loop rest (seen @ [c]) = []"
    by (simp only: ambiguous_loop.simps append_is_Nil_conv map_is_Nil_conv filter_empty_conv)
  then show ?case unfolding Cons.IH by auto
qed simp


lemma all_pairs_cong:
  fixes n :: nat
  assumes "\<And>i j. i < j \<Longrightarrow> j < n \<Longrightarrow> P i j \<longleftrightarrow> C i j \<and> E i j"
  shows "(\<forall>i j. i < j \<longrightarrow> j < n \<longrightarrow> \<not> P i j) \<longleftrightarrow> (\<forall>i j. i < j \<and> j < n \<and> C i j \<longrightarrow> \<not> E i j)"
  using assms by blast

lemma validateAmbiguous_Nil:
  "validateAmbiguousDynamicPageRoutes regs = [] \<longleftrightarrow>
     (\<forall>i j. i < j \<longrightarrow> j < length regs \<longrightarrow> \<not> clash (regs ! j) (regs ! i))"
proof -
  have "validateAmbiguousDynamicPageRoutes regs = [] \<longleftrightarrow> sorted_wrt (\<lambda>p c. \<not> clash c p) regs"
    unfolding validateAmbiguousDynamicPageRoutes_def ambiguous_loop_Nil list.set(1) Ball_def empty_iff by iprover
  then show ?thesis unfolding sorted_wrt_iff_nth_less .
qed

text \<open>A registered route is accepted, and its pattern is the one registered.\<close>

lemma accepted_pattern_Some: "accepted_pattern route = Some pat \<longleftrightarrow> (\<exists>info. ParseRoutePattern route = (info, []) \<and> rp_Pattern info = pat)"
  by (auto simp: accepted_pattern_def split: prod.splits if_splits)

lemma register_accepted: "reg \<in> set (register route build) \<Longrightarrow> accepted_pattern (rr_Route reg) = Some (rr_Pattern reg)"
  by (auto simp: register_def split: option.splits)

lemma registered_accepted:
  "reg \<in> set (routeRegistrations config pages endpoints sm refs) \<Longrightarrow> accepted_pattern (rr_Route reg) = Some (rr_Pattern reg)"
  by (auto simp: routeRegistrations_def page_registrations_def action_registrations_def api_registrations_def
      fragment_registrations_def endpoint_registrations_def reference_registrations_def Let_def
      dest: register_accepted split: if_splits)

lemma registered_overlap:
  assumes "accepted_pattern r = Some pat" "accepted_pattern r' = Some pat'"
  shows "routePatternsOverlap pat pat' \<longleftrightarrow> (\<exists>path. Match r path \<noteq> None \<and> Match r' path \<noteq> None)"
proof -
  obtain info info' where "ParseRoutePattern r = (info, [])" "rp_Pattern info = pat"
    "ParseRoutePattern r' = (info', [])" "rp_Pattern info' = pat'"
    using assms by (auto simp only: accepted_pattern_Some)
  then show ?thesis using overlap_common_path by blast
qed

lemma page_route_registered:
  assumes "(page, route) \<in> set (page_routes config pages)" "accepted_pattern route = Some pat"
  shows "\<exists>reg\<in>set (routeRegistrations config pages endpoints sm refs).
    rr_Kind reg = ''page'' \<and> rr_Route reg = route \<and> rr_Pattern reg = pat"
proof -
  have pg: "page \<in> set pages" "route \<in> set (localizedPageRoutes config page)" using assms(1) by (auto simp: page_routes_def)
  let ?build = "registration ''page'' (''page '' @ pg_ID page) ''GET'' (pg_ID page) (pg_Source page) (pg_RouteSpan page)"
  let ?reg = "(?build pat)\<lparr>rr_Route := route, rr_Pattern := pat\<rparr>"
  have "?reg \<in> set (register route ?build)" using assms(2) by (simp add: register_def)
  then have "?reg \<in> set (page_registrations config page)"
    unfolding page_registrations_def set_concat set_map by (rule UN_I [OF imageI [OF pg(2)]])
  then have "?reg \<in> set (routeRegistrations config pages endpoints sm refs)"
    unfolding routeRegistrations_def set_append set_concat set_map
    by (intro UnI1 [OF UN_I [OF imageI [OF pg(1)]]]) (simp only: set_append, rule UnI1)
  moreover have "rr_Kind ?reg = ''page''" "rr_Route ?reg = route" "rr_Pattern ?reg = pat"
    by (simp_all add: registration_def)
  ultimately show ?thesis by blast
qed

text \<open>No duplicate is reported only when the patterns of the accepted routes are distinct.\<close>

lemma unique_loop_Nil:
  "unique_loop prs seen = [] \<longleftrightarrow>
     distinct (List.map_filter (\<lambda>(page, route). accepted_pattern route) prs) \<and>
     set (List.map_filter (\<lambda>(page, route). accepted_pattern route) prs) \<inter> dom (map_of seen) = {}"
proof (induction prs seen rule: unique_loop.induct)
  case (2 page route rest seen)
  show ?case
  proof (cases "accepted_pattern route")
    case None
    then show ?thesis using 2(1) by (simp add: map_filter_simps)
  next
    case (Some pat)
    show ?thesis
    proof (cases "map_of seen pat")
      case None
      have "dom (map_of ((pat, page) # seen)) = insert pat (dom (map_of seen))" by auto
      then show ?thesis using 2(2) [OF Some None] Some None
        by (simp add: map_filter_simps del: map_of.simps) (auto simp del: map_of.simps)
    next
      case (Some first)
      then show ?thesis using \<open>accepted_pattern route = Some pat\<close> by (auto simp: map_filter_simps)
    qed
  qed
qed (simp add: map_filter_simps)

lemma map_filter_nth_distinct:
  "distinct (List.map_filter f xs) \<Longrightarrow> i < length xs \<Longrightarrow> j < length xs \<Longrightarrow> i \<noteq> j \<Longrightarrow> f (xs ! i) = Some a \<Longrightarrow> f (xs ! j) \<noteq> Some a"
proof (induction xs arbitrary: i j)
  case (Cons x xs)
  have mem: "k < length xs \<Longrightarrow> f (xs ! k) = Some b \<Longrightarrow> b \<in> set (List.map_filter f xs)" for k b
    unfolding List.map_filter_def set_map set_filter by (rule image_eqI [of _ _ "xs ! k"]) auto
  have d: "distinct (List.map_filter f xs)" and hd: "f x = Some b \<Longrightarrow> b \<notin> set (List.map_filter f xs)" for b
    using Cons.prems(1) by (cases "f x"; simp add: map_filter_simps)+
  show ?case
  proof (cases i)
    case 0
    then obtain k where k: "j = Suc k" using Cons.prems(4) by (cases j) auto
    have "a \<notin> set (List.map_filter f xs)" using hd Cons.prems(5) 0 by simp
    then show ?thesis using mem [of k a] Cons.prems(3) k by auto
  next
    case (Suc i')
    show ?thesis
    proof (cases j)
      case 0
      have "a \<in> set (List.map_filter f xs)" using mem [of i' a] Cons.prems(2,5) Suc by simp
      then show ?thesis using hd [of a] 0 by auto
    next
      case (Suc k)
      show ?thesis using Cons.IH [OF d, of i' k] Cons.prems(2-5) Suc \<open>i = Suc i'\<close> by simp
    qed
  qed
qed simp

text \<open>
  C20: the check for ambiguous routes is exact. It reports nothing precisely when no two registrations it
  compares, those of dynamic pages and those of handlers of the same method, have a request path that the
  router would match with both.
\<close>

theorem ambiguity_check_exact:
  assumes "regs = routeRegistrations config pages endpoints sm refs"
  shows "validateAmbiguousDynamicPageRoutes regs = [] \<longleftrightarrow>
    (\<forall>i j. i < j \<and> j < length regs \<and> compared (regs ! j) (regs ! i) \<longrightarrow>
       \<not> (\<exists>path. Match (rr_Route (regs ! i)) path \<noteq> None \<and> Match (rr_Route (regs ! j)) path \<noteq> None))"
proof -
  have acc: "accepted_pattern (rr_Route (regs ! k)) = Some (rr_Pattern (regs ! k))" if "k < length regs" for k
    using registered_accepted that assms nth_mem by blast
  have pair: "clash (regs ! j) (regs ! i) \<longleftrightarrow> compared (regs ! j) (regs ! i) \<and>
      (\<exists>path. Match (rr_Route (regs ! i)) path \<noteq> None \<and> Match (rr_Route (regs ! j)) path \<noteq> None)"
    if "i < j" "j < length regs" for i j
    using registered_overlap [OF acc [of j] acc [of i]] that by auto
  show ?thesis unfolding validateAmbiguous_Nil by (rule all_pairs_cong [OF pair])
qed

text \<open>
  A program that passes the checks answers a request with at most one dynamic page. When no duplicate
  and no ambiguity is reported, no path is matched by two of the dynamic routes of its pages, whatever
  locales these were expanded for.
\<close>

theorem one_dynamic_page:
  assumes "validateUniquePageRoutes config pages = []"
    and "validateAmbiguousDynamicPageRoutes (routeRegistrations config pages endpoints sm refs) = []"
    and "i < length (page_routes config pages)" "j < length (page_routes config pages)" "i \<noteq> j"
    and "accepted_pattern (snd (page_routes config pages ! i)) = Some pat" "patternIsDynamic pat"
    and "accepted_pattern (snd (page_routes config pages ! j)) = Some pat'" "patternIsDynamic pat'"
    and "Match (snd (page_routes config pages ! i)) path \<noteq> None"
  shows "Match (snd (page_routes config pages ! j)) path = None"
proof (rule ccontr)
  assume both: "Match (snd (page_routes config pages ! j)) path \<noteq> None"
  let ?prs = "page_routes config pages" and ?regs = "routeRegistrations config pages endpoints sm refs"
  have "distinct (List.map_filter (\<lambda>(page, route). accepted_pattern route) ?prs)"
    using assms(1) by (simp add: validateUniquePageRoutes_def unique_loop_Nil)
  then have ne: "pat \<noteq> pat'"
    using map_filter_nth_distinct [OF _ assms(3,4,5), of _ pat] assms(6,8) unfolding case_prod_unfold by blast
  have mem: "(fst (?prs ! k), snd (?prs ! k)) \<in> set ?prs" if "k < length ?prs" for k using that by simp
  obtain a where a: "a \<in> set ?regs" "rr_Kind a = ''page''" "rr_Route a = snd (?prs ! i)" "rr_Pattern a = pat"
    using page_route_registered [OF mem assms(6), of endpoints sm refs] assms(3) by blast
  obtain b where b: "b \<in> set ?regs" "rr_Kind b = ''page''" "rr_Route b = snd (?prs ! j)" "rr_Pattern b = pat'"
    using page_route_registered [OF mem assms(8), of endpoints sm refs] assms(4) by blast
  have cmp: "compared a b" "compared b a" using a b ne assms(7,9) by (simp_all add: compared_def)
  have ov: "routePatternsOverlap pat pat'" "routePatternsOverlap pat' pat"
    using registered_overlap assms(6,8,10) both by blast+
  obtain k l where "k < length ?regs" "?regs ! k = a" "l < length ?regs" "?regs ! l = b"
    using a(1) b(1) by (metis in_set_conv_nth)
  moreover from this have "k \<noteq> l" using a b ne by auto
  moreover have "\<forall>p q. p < q \<longrightarrow> q < length ?regs \<longrightarrow> \<not> clash (?regs ! q) (?regs ! p)"
    using assms(2) unfolding validateAmbiguous_Nil .
  ultimately show False using cmp ov a(4) b(4) by (metis nat_neq_iff)
qed



















section \<open>Examples\<close>

definition no_i18n :: I18NConfig where
  "no_i18n = \<lparr>ic_Locales = [], ic_DefaultLocale = [], ic_OmitDefaultPrefix = False\<rparr>"

definition sample_page :: "string \<Rightarrow> Page" where
  "sample_page route =
     \<lparr>pg_ID = route, pg_Source = [], pg_Route = route, pg_RouteSpan = no_span, pg_Actions = [], pg_APIs = [], pg_Fragments = []\<rparr>"

theorem ambiguity_check_exact_witness:
  "\<exists>i j path. i < j \<and>
     Match (rr_Route (routeRegistrations no_i18n [sample_page ''/a/{x}'', sample_page ''/{y}/b''] [] [] [] ! i)) path \<noteq> None \<and>
     Match (rr_Route (routeRegistrations no_i18n [sample_page ''/a/{x}'', sample_page ''/{y}/b''] [] [] [] ! j)) path \<noteq> None"
proof -
  let ?regs = "routeRegistrations no_i18n [sample_page ''/a/{x}'', sample_page ''/{y}/b''] [] [] []"
  have "validateAmbiguousDynamicPageRoutes ?regs \<noteq> []" by code_simp
  then show ?thesis unfolding ambiguity_check_exact [OF refl] by blast
qed

theorem one_dynamic_page_witness:
  "Match ''/b/{rest...}'' ''/a/1'' = None"
proof -
  let ?pages = "[sample_page ''/a/{x}'', sample_page ''/b/{rest...}'']"
  have "validateUniquePageRoutes no_i18n ?pages = []"
    "validateAmbiguousDynamicPageRoutes (routeRegistrations no_i18n ?pages [] [] []) = []" by code_simp+
  moreover have "0 < length (page_routes no_i18n ?pages)" "1 < length (page_routes no_i18n ?pages)" by code_simp+
  moreover have routes: "snd (page_routes no_i18n ?pages ! 0) = ''/a/{x}''" "snd (page_routes no_i18n ?pages ! 1) = ''/b/{rest...}''"
    by code_simp+
  moreover have "accepted_pattern ''/a/{x}'' = Some ''/a/{}''" "accepted_pattern ''/b/{rest...}'' = Some ''/b/{**}''" by code_simp+
  moreover have "patternIsDynamic ''/a/{}''" "patternIsDynamic ''/b/{**}''" by code_simp+
  moreover have "Match ''/a/{x}'' ''/a/1'' \<noteq> None" by code_simp
  ultimately show ?thesis
    using one_dynamic_page [of no_i18n ?pages "[]" "[]" "[]" 0 1 "''/a/{}''" "''/b/{**}''" "''/a/1''"] by (simp only: routes) simp
qed



end
