(* ===== verification/Cors.thy ===== *)
theory Cors
  imports Http
begin

text \<open>
  Cross-origin requests: \<open>runtime/corsorigin/origin.go\<close>, the canonical form of an origin, and
  \<open>runtime/app/cors.go\<close>, the policy of a router, its normalization and the headers it writes.

  The URL parser, the parser of IP addresses and the case mappings of the Unicode tables are a
  parameter, the record \<open>lib\<close>.
\<close>

section \<open>Library functions\<close>

record url =
  u_Scheme :: string
  u_User :: bool
  u_Host :: string
  u_Opaque :: string
  u_RawQuery :: string
  u_Fragment :: string
  u_Path :: string

text \<open>
  \<open>url.Parse\<close> (\<open>None\<close> is an error), \<open>net.ParseIP\<close> with the text of the address it gives,
  \<open>strings.ToLower\<close> and \<open>strings.ToUpper\<close>.
\<close>

record lib =
  url_Parse :: "string \<Rightarrow> url option"
  ParseIP :: "string \<Rightarrow> string option"
  lower :: "string \<Rightarrow> string"
  upper :: "string \<Rightarrow> string"

section \<open>Origins\<close>

record Origin =
  o_Scheme :: string
  o_Host :: string
  o_Port :: string

datatype origin_error =
  OriginRequired | OriginControl | OriginURL | OriginScheme | OriginParts | OriginPath
| MissingBracket | AfterBracket | PortRequired | BareIPv6 | HostAndPortRequired
| HostRequired | UnicodeHost | HostTooLong | EmptyLabel | LabelTooLong string | LabelHyphen string | LabelCharacter string
| PortNumeric | PortRange

definition splitHostPort :: "string \<Rightarrow> origin_error + string \<times> string" where
  "splitHostPort v =
     (if HasPrefix v ''['' then
        (case last_index_byte v CHR '']'' of
           None \<Rightarrow> Inl MissingBracket
         | Some e \<Rightarrow>
             let host = drop 1 (take e v); rest = drop (e + 1) v
             in if rest = [] then Inr (host, [])
                else if \<not> HasPrefix rest '':'' then Inl AfterBracket
                else if tl rest = [] then Inl PortRequired
                else Inr (host, tl rest))
      else
        let colons = length (filter (\<lambda>c. c = CHR '':'') v)
        in if colons = 0 then Inr (v, [])
           else if colons > 1 then Inl BareIPv6
           else (case Cut v CHR '':'' of
                   (host, port, ok) \<Rightarrow>
                     if \<not> ok \<or> host = [] \<or> port = [] then Inl HostAndPortRequired else Inr (host, port)))"

definition label_char :: "char \<Rightarrow> bool" where
  "label_char c \<longleftrightarrow> is_lower c \<or> is_digit c \<or> c = CHR ''-''"

fun check_labels :: "string list \<Rightarrow> origin_error option" where
  "check_labels [] = None"
| "check_labels (label # labels) =
     (if label = [] then Some EmptyLabel
      else if length label > 63 then Some (LabelTooLong label)
      else if HasPrefix label ''-'' \<or> HasSuffix label ''-'' then Some (LabelHyphen label)
      else if \<not> list_all label_char label then Some (LabelCharacter label)
      else check_labels labels)"

definition canonicalHost :: "lib \<Rightarrow> string \<Rightarrow> origin_error + string" where
  "canonicalHost L v =
     (let host = TrimSuffix (lower L (TrimSpace v)) ''.''
      in if host = [] then Inl HostRequired
         else if list_ex (\<lambda>c. 127 < (of_char c :: int)) host then Inl UnicodeHost
         else
           (case ParseIP L host of
              Some ip \<Rightarrow> Inr (ToLower ip)
            | None \<Rightarrow>
                if length host > 253 then Inl HostTooLong
                else (case check_labels (Split host CHR ''.'') of Some err \<Rightarrow> Inl err | None \<Rightarrow> Inr host)))"

definition validatePort :: "string \<Rightarrow> origin_error option" where
  "validatePort v =
     (if \<not> list_all is_digit v then Some PortNumeric
      else (case Atoi v of
              Inl _ \<Rightarrow> Some PortRange
            | Inr n \<Rightarrow> if n < 1 \<or> n > 65535 then Some PortRange else None))"

definition defaultPort :: "string \<Rightarrow> string" where
  "defaultPort scheme = (if scheme = ''http'' then ''80'' else if scheme = ''https'' then ''443'' else [])"

definition Parse :: "lib \<Rightarrow> string \<Rightarrow> origin_error + Origin" where
  "Parse L raw =
     (let v = TrimSpace raw
      in if v = [] then Inl OriginRequired
         else if ContainsAny v [CHR 0x0D, CHR 0x0A] then Inl OriginControl
         else
           (case url_Parse L v of
              None \<Rightarrow> Inl OriginURL
            | Some u \<Rightarrow>
                let scheme = lower L (u_Scheme u)
                in if scheme \<noteq> ''http'' \<and> scheme \<noteq> ''https'' then Inl OriginScheme
                   else if u_User u \<or> u_Host u = [] \<or> u_Opaque u \<noteq> [] \<or> u_RawQuery u \<noteq> [] \<or> u_Fragment u \<noteq> []
                     then Inl OriginParts
                   else if u_Path u \<noteq> [] \<and> u_Path u \<noteq> ''/'' then Inl OriginPath
                   else
                     (case splitHostPort (u_Host u) of
                        Inl err \<Rightarrow> Inl err
                      | Inr (host0, port) \<Rightarrow>
                          (case canonicalHost L host0 of
                             Inl err \<Rightarrow> Inl err
                           | Inr host \<Rightarrow>
                               if port \<noteq> [] then
                                 (case validatePort port of
                                    Some err \<Rightarrow> Inl err
                                  | None \<Rightarrow>
                                      Inr \<lparr>o_Scheme = scheme, o_Host = host,
                                           o_Port = (if defaultPort scheme = port then [] else port)\<rparr>)
                               else Inr \<lparr>o_Scheme = scheme, o_Host = host, o_Port = []\<rparr>))))"

text \<open>\<open>net.JoinHostPort\<close> and \<open>Origin.String\<close>.\<close>

definition JoinHostPort :: "string \<Rightarrow> string \<Rightarrow> string" where
  "JoinHostPort host port =
     (if CHR '':'' \<in> set host then ''['' @ host @ '']:'' @ port else host @ '':'' @ port)"

definition Origin_String :: "Origin \<Rightarrow> string" where
  "Origin_String org =
     (o_Scheme org @ ''://'' @
      (if o_Port org \<noteq> [] then JoinHostPort (o_Host org) (o_Port org)
       else if CHR '':'' \<in> set (o_Host org) then ''['' @ o_Host org @ '']''
       else o_Host org))"

section \<open>Policies\<close>

record CORSPolicy =
  AllowedOrigins :: "string list"
  AllowedMethods :: "string list"
  AllowedHeaders :: "string list"
  ExposedHeaders :: "string list"
  AllowCredentials :: bool
  MaxAgeSeconds :: int

text \<open>The sets of the code are maps to \<open>bool\<close>; here they are lists without repetitions.\<close>

record corsPolicy =
  cp_enabled :: bool
  cp_anyOrigin :: bool
  cp_origins :: "string list"
  cp_methods :: "string list"
  cp_allowedMethods :: "string list"
  cp_headers :: "string list"
  cp_allowedHeaders :: "string list"
  cp_exposedHeaders :: "string list"
  cp_allowCredentials :: bool
  cp_maxAgeSeconds :: int

definition disabled_policy :: corsPolicy where
  "disabled_policy =
     \<lparr>cp_enabled = False, cp_anyOrigin = False, cp_origins = [], cp_methods = [], cp_allowedMethods = [],
      cp_headers = [], cp_allowedHeaders = [], cp_exposedHeaders = [], cp_allowCredentials = False, cp_maxAgeSeconds = 0\<rparr>"

datatype cors_error =
  NegativeMaxAge | CorsOriginRequired | CorsOrigin origin_error | WildcardCredentials
| CorsMethodRequired | CorsMethod string | CorsHeaderRequired | CorsHeader string

definition normalizeCORSOrigin :: "lib \<Rightarrow> string \<Rightarrow> cors_error + string" where
  "normalizeCORSOrigin L origin0 =
     (let origin = TrimSpace origin0
      in if origin = [] then Inl CorsOriginRequired
         else if origin = ''*'' then Inr origin
         else (case Parse L origin of Inl err \<Rightarrow> Inl (CorsOrigin err) | Inr parsed \<Rightarrow> Inr (Origin_String parsed)))"

text \<open>A byte of a character outside ASCII is no \<open>token_char\<close>, so the test runs over bytes.\<close>

definition httpgutsValidHeaderFieldName :: "string \<Rightarrow> bool" where
  "httpgutsValidHeaderFieldName name \<longleftrightarrow> list_all token_char name \<and> name \<noteq> []"

definition normalizeCORSMethod :: "lib \<Rightarrow> string \<Rightarrow> cors_error + string" where
  "normalizeCORSMethod L method0 =
     (let method = upper L (TrimSpace method0)
      in if method = [] then Inl CorsMethodRequired
         else if \<not> httpgutsValidHeaderFieldName method then Inl (CorsMethod method)
         else Inr method)"

definition normalizeCORSHeader :: "string \<Rightarrow> cors_error + string \<times> string" where
  "normalizeCORSHeader header0 =
     (let header = TrimSpace header0
      in if header = [] then Inl CorsHeaderRequired
         else if \<not> httpgutsValidHeaderFieldName header then Inl (CorsHeader header)
         else let name = CanonicalMIMEHeaderKey header in Inr (name, ToLower name))"

fun add_origins :: "lib \<Rightarrow> bool \<Rightarrow> string list \<Rightarrow> corsPolicy \<Rightarrow> cors_error + corsPolicy" where
  "add_origins L credentials [] p = Inr p"
| "add_origins L credentials (origin # origins) p =
     (case normalizeCORSOrigin L origin of
        Inl err \<Rightarrow> Inl err
      | Inr v \<Rightarrow>
          if v = ''*'' then
            (if credentials then Inl WildcardCredentials
             else add_origins L credentials origins (p\<lparr>cp_anyOrigin := True\<rparr>))
          else add_origins L credentials origins (p\<lparr>cp_origins := List.insert v (cp_origins p)\<rparr>))"

fun add_methods :: "lib \<Rightarrow> string list \<Rightarrow> corsPolicy \<Rightarrow> cors_error + corsPolicy" where
  "add_methods L [] p = Inr p"
| "add_methods L (method # methods) p =
     (case normalizeCORSMethod L method of
        Inl err \<Rightarrow> Inl err
      | Inr v \<Rightarrow>
          add_methods L methods
            (if v \<in> set (cp_methods p) then p
             else p\<lparr>cp_methods := v # cp_methods p, cp_allowedMethods := cp_allowedMethods p @ [v]\<rparr>))"

fun add_headers :: "string list \<Rightarrow> corsPolicy \<Rightarrow> cors_error + corsPolicy" where
  "add_headers [] p = Inr p"
| "add_headers (header # headers) p =
     (case normalizeCORSHeader header of
        Inl err \<Rightarrow> Inl err
      | Inr (v, key) \<Rightarrow>
          add_headers headers
            (if key \<in> set (cp_headers p) then p
             else p\<lparr>cp_headers := key # cp_headers p, cp_allowedHeaders := cp_allowedHeaders p @ [v]\<rparr>))"

fun add_exposed :: "string list \<Rightarrow> string list \<Rightarrow> corsPolicy \<Rightarrow> cors_error + corsPolicy" where
  "add_exposed [] seen p = Inr p"
| "add_exposed (header # headers) seen p =
     (case normalizeCORSHeader header of
        Inl err \<Rightarrow> Inl err
      | Inr (v, key) \<Rightarrow>
          if key \<in> set seen then add_exposed headers seen p
          else add_exposed headers (key # seen) (p\<lparr>cp_exposedHeaders := cp_exposedHeaders p @ [v]\<rparr>))"

definition normalizeCORSPolicy :: "lib \<Rightarrow> CORSPolicy \<Rightarrow> cors_error + corsPolicy" where
  "normalizeCORSPolicy L policy =
     (if AllowedOrigins policy = [] then Inr disabled_policy
      else if MaxAgeSeconds policy < 0 then Inl NegativeMaxAge
      else
        let p0 = disabled_policy\<lparr>cp_enabled := True, cp_allowCredentials := AllowCredentials policy,
                                 cp_maxAgeSeconds := MaxAgeSeconds policy\<rparr>
        in case add_origins L (AllowCredentials policy) (AllowedOrigins policy) p0 of
             Inl err \<Rightarrow> Inl err
           | Inr p1 \<Rightarrow>
               (case add_methods L (AllowedMethods policy) p1 of
                  Inl err \<Rightarrow> Inl err
                | Inr p2 \<Rightarrow>
                    (case add_headers (AllowedHeaders policy) p2 of
                       Inl err \<Rightarrow> Inl err
                     | Inr p3 \<Rightarrow> add_exposed (ExposedHeaders policy) [] p3)))"

section \<open>Headers of a response\<close>

record request =
  rq_Method :: string
  rq_Path :: string
  rq_Header :: header

definition allowedOrigin :: "lib \<Rightarrow> corsPolicy \<Rightarrow> string \<Rightarrow> string option" where
  "allowedOrigin L policy origin0 =
     (let origin = TrimSpace origin0
      in if origin = [] then None
         else if cp_anyOrigin policy then Some ''*''
         else (case normalizeCORSOrigin L origin of
                 Inl _ \<Rightarrow> None
               | Inr normalized \<Rightarrow> if normalized \<in> set (cp_origins policy) then Some normalized else None))"

definition methodAllowed :: "lib \<Rightarrow> corsPolicy \<Rightarrow> string \<Rightarrow> bool" where
  "methodAllowed L policy method0 =
     (case normalizeCORSMethod L method0 of
        Inl _ \<Rightarrow> False
      | Inr method \<Rightarrow> cp_methods policy = [] \<or> method \<in> set (cp_methods policy))"

fun requested_headers :: "string list \<Rightarrow> string list \<Rightarrow> string list \<Rightarrow> string list option" where
  "requested_headers [] allowed requested = Some requested"
| "requested_headers (part # parts) allowed requested =
     (case normalizeCORSHeader part of
        Inl _ \<Rightarrow> None
      | Inr (name, key) \<Rightarrow>
          if key \<notin> set allowed then None else requested_headers parts allowed (requested @ [name]))"

definition requestedCORSHeadersAllowed :: "string \<Rightarrow> string list \<Rightarrow> string list option" where
  "requestedCORSHeadersAllowed header0 allowed =
     (let header = TrimSpace header0
      in if header = [] then Some [] else requested_headers (Split header CHR '','') allowed [])"

text \<open>The parts of a comma-separated header value, and the values that are not among those seen.\<close>

definition list_parts :: "string \<Rightarrow> string list" where
  "list_parts v = filter (\<lambda>p. p \<noteq> []) (map TrimSpace (Split v CHR '',''))"

fun missing_parts :: "lib \<Rightarrow> string list \<Rightarrow> string list \<Rightarrow> string list" where
  "missing_parts L [] seen = []"
| "missing_parts L (part # parts) seen =
     (let key = lower L part
      in if key \<in> set seen then missing_parts L parts seen
         else CanonicalMIMEHeaderKey part # missing_parts L parts (key # seen))"

definition addVaryHeader :: "lib \<Rightarrow> header \<Rightarrow> string list \<Rightarrow> header" where
  "addVaryHeader L h vs =
     (let existing = concat (map list_parts (header_Values h ''Vary''))
      in if ''*'' \<in> set existing then h
         else
           let missing = missing_parts L (concat (map list_parts vs)) (map (lower L) existing)
           in if missing \<noteq> [] then header_Add h ''Vary'' (Join missing '', '') else h)"

definition add_vary :: "lib \<Rightarrow> string list \<Rightarrow> writer \<Rightarrow> writer" where
  "add_vary L vs w = w\<lparr>w_header := addVaryHeader L (w_header w) vs\<rparr>"

definition writeSharedHeaders :: "lib \<Rightarrow> corsPolicy \<Rightarrow> string \<Rightarrow> writer \<Rightarrow> writer" where
  "writeSharedHeaders L policy origin w =
     (let w1 = (if cp_anyOrigin policy then set_header ''Access-Control-Allow-Origin'' ''*'' w
                else add_vary L [''Origin''] (set_header ''Access-Control-Allow-Origin'' origin w))
      in if cp_allowCredentials policy then set_header ''Access-Control-Allow-Credentials'' ''true'' w1 else w1)"

definition writeActualHeaders :: "lib \<Rightarrow> corsPolicy \<Rightarrow> request \<Rightarrow> string \<Rightarrow> writer \<Rightarrow> writer" where
  "writeActualHeaders L policy request method w =
     (if \<not> cp_enabled policy \<or> \<not> methodAllowed L policy method then w
      else
        (case allowedOrigin L policy (header_Get (rq_Header request) ''Origin'') of
           None \<Rightarrow> w
         | Some origin \<Rightarrow>
             let w1 = writeSharedHeaders L policy origin w
             in if cp_exposedHeaders policy \<noteq> []
                then set_header ''Access-Control-Expose-Headers'' (Join (cp_exposedHeaders policy) '', '') w1 else w1))"

text \<open>\<open>None\<close> is the result \<open>false\<close>, before which nothing is written.\<close>

definition writePreflight :: "lib \<Rightarrow> corsPolicy \<Rightarrow> request \<Rightarrow> string \<Rightarrow> writer \<Rightarrow> writer option" where
  "writePreflight L policy request routeMethod w =
     (if \<not> cp_enabled policy then None
      else
        (case allowedOrigin L policy (header_Get (rq_Header request) ''Origin'') of
           None \<Rightarrow> None
         | Some origin \<Rightarrow>
             (case normalizeCORSMethod L (header_Get (rq_Header request) ''Access-Control-Request-Method'') of
                Inl _ \<Rightarrow> None
              | Inr requestedMethod \<Rightarrow>
                  if requestedMethod \<noteq> routeMethod \<or> \<not> methodAllowed L policy requestedMethod then None
                  else
                    (case requestedCORSHeadersAllowed
                            (header_Get (rq_Header request) ''Access-Control-Request-Headers'') (cp_headers policy) of
                       None \<Rightarrow> None
                     | Some requestedHeaders \<Rightarrow>
                         let w1 = add_vary L [''Access-Control-Request-Method'', ''Access-Control-Request-Headers'']
                                    (writeSharedHeaders L policy origin w);
                             w2 = set_header ''Access-Control-Allow-Methods''
                                    (if cp_allowedMethods policy \<noteq> [] then Join (cp_allowedMethods policy) '', ''
                                     else routeMethod) w1;
                             w3 = (if requestedHeaders \<noteq> []
                                   then set_header ''Access-Control-Allow-Headers'' (Join (cp_allowedHeaders policy) '', '') w2
                                   else w2);
                             w4 = (if cp_maxAgeSeconds policy > 0
                                   then set_header ''Access-Control-Max-Age'' (Itoa (cp_maxAgeSeconds policy)) w3 else w3)
                         in Some (WriteHeader 204 w4)))))"

section \<open>What a normalized policy holds\<close>

lemma add_origins_fields:
  assumes "add_origins L credentials origins p = Inr q"
  shows "cp_anyOrigin q \<longleftrightarrow> cp_anyOrigin p \<or> (\<exists>og\<in>set origins. normalizeCORSOrigin L og = Inr ''*'')"
    "set (cp_origins q) = set (cp_origins p) \<union> {v. v \<noteq> ''*'' \<and> (\<exists>og\<in>set origins. normalizeCORSOrigin L og = Inr v)}"
    "credentials \<Longrightarrow> cp_anyOrigin q = cp_anyOrigin p"
    "cp_enabled q = cp_enabled p" "cp_methods q = cp_methods p" "cp_headers q = cp_headers p"
    "cp_allowCredentials q = cp_allowCredentials p"
proof -
  have "(cp_anyOrigin q \<longleftrightarrow> cp_anyOrigin p \<or> (\<exists>og\<in>set origins. normalizeCORSOrigin L og = Inr ''*'')) \<and>
      set (cp_origins q) = set (cp_origins p) \<union> {v. v \<noteq> ''*'' \<and> (\<exists>og\<in>set origins. normalizeCORSOrigin L og = Inr v)} \<and>
      (credentials \<longrightarrow> cp_anyOrigin q = cp_anyOrigin p) \<and> cp_enabled q = cp_enabled p \<and> cp_methods q = cp_methods p \<and>
      cp_headers q = cp_headers p \<and> cp_allowCredentials q = cp_allowCredentials p"
    using assms
  proof (induction origins arbitrary: p)
    case (Cons og origins)
    then obtain v where v: "normalizeCORSOrigin L og = Inr v" by (auto split: sum.splits)
    show ?case
    proof (cases "v = ''*''")
      case True
      with Cons.prems v have "add_origins L credentials origins (p\<lparr>cp_anyOrigin := True\<rparr>) = Inr q" "\<not> credentials"
        by (auto split: if_splits)
      from Cons.IH [OF this(1)] this(2) v True show ?thesis by auto
    next
      case False
      with Cons.prems v have "add_origins L credentials origins (p\<lparr>cp_origins := List.insert v (cp_origins p)\<rparr>) = Inr q" by simp
      from Cons.IH [OF this] v False show ?thesis by auto
    qed
  qed auto
  then show "cp_anyOrigin q \<longleftrightarrow> cp_anyOrigin p \<or> (\<exists>og\<in>set origins. normalizeCORSOrigin L og = Inr ''*'')"
    "set (cp_origins q) = set (cp_origins p) \<union> {v. v \<noteq> ''*'' \<and> (\<exists>og\<in>set origins. normalizeCORSOrigin L og = Inr v)}"
    "credentials \<Longrightarrow> cp_anyOrigin q = cp_anyOrigin p"
    "cp_enabled q = cp_enabled p" "cp_methods q = cp_methods p" "cp_headers q = cp_headers p"
    "cp_allowCredentials q = cp_allowCredentials p" by blast+
qed

lemma add_methods_fields:
  "add_methods L methods p = Inr q \<Longrightarrow>
   set (cp_methods q) = set (cp_methods p) \<union> {v. \<exists>m\<in>set methods. normalizeCORSMethod L m = Inr v} \<and>
   cp_anyOrigin q = cp_anyOrigin p \<and> cp_origins q = cp_origins p \<and> cp_headers q = cp_headers p \<and>
   cp_allowCredentials q = cp_allowCredentials p"
proof (induction methods arbitrary: p)
  case (Cons m methods)
  then obtain v where v: "normalizeCORSMethod L m = Inr v" by (auto split: sum.splits)
  with Cons.prems Cons.IH show ?case by (cases "v \<in> set (cp_methods p)") fastforce+
qed auto

lemma add_headers_fields:
  "add_headers headers p = Inr q \<Longrightarrow>
   set (cp_headers q) = set (cp_headers p) \<union> {k. \<exists>h\<in>set headers. \<exists>v. normalizeCORSHeader h = Inr (v, k)} \<and>
   cp_anyOrigin q = cp_anyOrigin p \<and> cp_origins q = cp_origins p \<and> cp_methods q = cp_methods p \<and>
   cp_allowCredentials q = cp_allowCredentials p"
proof (induction headers arbitrary: p)
  case (Cons h headers)
  then obtain v k where v: "normalizeCORSHeader h = Inr (v, k)" by (auto split: sum.splits)
  with Cons.prems Cons.IH show ?case by (cases "k \<in> set (cp_headers p)") fastforce+
qed auto

lemma add_exposed_fields:
  "add_exposed headers seen p = Inr q \<Longrightarrow>
   cp_anyOrigin q = cp_anyOrigin p \<and> cp_origins q = cp_origins p \<and> cp_methods q = cp_methods p \<and>
   cp_headers q = cp_headers p \<and> cp_allowCredentials q = cp_allowCredentials p"
  by (induction headers seen p rule: add_exposed.induct) (auto split: sum.splits if_splits)

lemma normalized_policy:
  assumes "normalizeCORSPolicy L policy = Inr p" "cp_enabled p"
  shows "cp_anyOrigin p \<longleftrightarrow> (\<exists>og\<in>set (AllowedOrigins policy). normalizeCORSOrigin L og = Inr ''*'')"
    "set (cp_origins p) = {v. v \<noteq> ''*'' \<and> (\<exists>og\<in>set (AllowedOrigins policy). normalizeCORSOrigin L og = Inr v)}"
    "set (cp_methods p) = {v. \<exists>m\<in>set (AllowedMethods policy). normalizeCORSMethod L m = Inr v}"
    "set (cp_headers p) = {k. \<exists>h\<in>set (AllowedHeaders policy). \<exists>v. normalizeCORSHeader h = Inr (v, k)}"
    "cp_allowCredentials p = AllowCredentials policy"
    "AllowCredentials policy \<Longrightarrow> \<not> cp_anyOrigin p"
proof -
  let ?p0 = "disabled_policy\<lparr>cp_enabled := True, cp_allowCredentials := AllowCredentials policy,
       cp_maxAgeSeconds := MaxAgeSeconds policy\<rparr>"
  from assms obtain p1 p2 p3 where
      1: "add_origins L (AllowCredentials policy) (AllowedOrigins policy) ?p0 = Inr p1" and
      2: "add_methods L (AllowedMethods policy) p1 = Inr p2" and 3: "add_headers (AllowedHeaders policy) p2 = Inr p3" and
      4: "add_exposed (ExposedHeaders policy) [] p3 = Inr p"
    by (auto simp: normalizeCORSPolicy_def Let_def disabled_policy_def split: if_splits sum.splits)
  note fields = add_origins_fields [OF 1] add_methods_fields [OF 2] add_headers_fields [OF 3] add_exposed_fields [OF 4]
  have 0: "\<not> cp_anyOrigin ?p0" "cp_origins ?p0 = []" "cp_methods ?p0 = []" "cp_headers ?p0 = []"
      "cp_allowCredentials ?p0 = AllowCredentials policy" by (simp_all add: disabled_policy_def)
  show "cp_anyOrigin p \<longleftrightarrow> (\<exists>og\<in>set (AllowedOrigins policy). normalizeCORSOrigin L og = Inr ''*'')"
    using fields(1) fields(8-10) 0 by blast
  show "set (cp_origins p) = {v. v \<noteq> ''*'' \<and> (\<exists>og\<in>set (AllowedOrigins policy). normalizeCORSOrigin L og = Inr v)}"
    using fields(2) fields(8-10) 0 by simp
  show "set (cp_methods p) = {v. \<exists>m\<in>set (AllowedMethods policy). normalizeCORSMethod L m = Inr v}"
    using fields(5) fields(8-10) 0 by simp
  show "set (cp_headers p) = {k. \<exists>h\<in>set (AllowedHeaders policy). \<exists>v. normalizeCORSHeader h = Inr (v, k)}"
    using fields(6) fields(8-10) 0 by simp
  show "cp_allowCredentials p = AllowCredentials policy" using fields(7) fields(8-10) 0 by simp
  show "AllowCredentials policy \<Longrightarrow> \<not> cp_anyOrigin p" using fields(3) fields(8-10) 0 by blast
qed

section \<open>What the headers grant\<close>

lemma cors_keys [simp]:
  "CanonicalMIMEHeaderKey ''Access-Control-Allow-Origin'' = ''Access-Control-Allow-Origin''"
  "CanonicalMIMEHeaderKey ''Access-Control-Allow-Credentials'' = ''Access-Control-Allow-Credentials''"
  "CanonicalMIMEHeaderKey ''Access-Control-Allow-Methods'' = ''Access-Control-Allow-Methods''"
  "CanonicalMIMEHeaderKey ''Access-Control-Allow-Headers'' = ''Access-Control-Allow-Headers''"
  "CanonicalMIMEHeaderKey ''Access-Control-Expose-Headers'' = ''Access-Control-Expose-Headers''"
  "CanonicalMIMEHeaderKey ''Access-Control-Max-Age'' = ''Access-Control-Max-Age''"
  "CanonicalMIMEHeaderKey ''Vary'' = ''Vary''"
  by code_simp+

definition origin_values :: "writer \<Rightarrow> string list" where
  "origin_values w = header_Values (w_header w) ''Access-Control-Allow-Origin''"

definition credential_values :: "writer \<Rightarrow> string list" where
  "credential_values w = header_Values (w_header w) ''Access-Control-Allow-Credentials''"

lemma values_set_header [simp]:
  "origin_values (set_header ''Access-Control-Allow-Origin'' v w) = [v]"
  "credential_values (set_header ''Access-Control-Allow-Credentials'' v w) = [v]"
  "origin_values (set_header ''Access-Control-Allow-Credentials'' v w) = origin_values w"
  "credential_values (set_header ''Access-Control-Allow-Origin'' v w) = credential_values w"
  by (simp_all add: origin_values_def credential_values_def set_header_def header_Set_def header_Values_def)

lemma values_other_header [simp]:
  assumes "k \<in> {''Access-Control-Allow-Methods'', ''Access-Control-Allow-Headers'', ''Access-Control-Expose-Headers'', ''Access-Control-Max-Age''}"
  shows "origin_values (set_header k v w) = origin_values w" "credential_values (set_header k v w) = credential_values w"
  using assms by (auto simp: origin_values_def credential_values_def set_header_def header_Set_def header_Values_def)

lemma values_vary [simp]:
  "origin_values (add_vary L vs w) = origin_values w" "credential_values (add_vary L vs w) = credential_values w"
  by (simp_all add: origin_values_def credential_values_def add_vary_def addVaryHeader_def Let_def header_Add_def header_Values_def)

lemma values_WriteHeader [simp]:
  "origin_values (WriteHeader s w) = origin_values w" "credential_values (WriteHeader s w) = credential_values w"
  by (simp_all add: origin_values_def credential_values_def WriteHeader_def split: option.splits)

lemma values_shared:
  "origin_values (writeSharedHeaders L p origin w) = [if cp_anyOrigin p then ''*'' else origin]"
  "credential_values (writeSharedHeaders L p origin w) = (if cp_allowCredentials p then [''true''] else credential_values w)"
  by (auto simp: writeSharedHeaders_def Let_def)

lemma actual_values:
  "writeActualHeaders L p request method w = w \<or>
   (\<exists>origin. cp_enabled p \<and> allowedOrigin L p (header_Get (rq_Header request) ''Origin'') = Some origin \<and>
     origin_values (writeActualHeaders L p request method w) = origin_values (writeSharedHeaders L p origin w) \<and>
     credential_values (writeActualHeaders L p request method w) = credential_values (writeSharedHeaders L p origin w))"
  by (auto simp: writeActualHeaders_def Let_def split: option.splits)

lemma preflight_values:
  assumes "writePreflight L p request method w = Some w'"
  obtains origin requested where "cp_enabled p" "allowedOrigin L p (header_Get (rq_Header request) ''Origin'') = Some origin"
    "origin_values w' = origin_values (writeSharedHeaders L p origin w)"
    "credential_values w' = credential_values (writeSharedHeaders L p origin w)"
    "normalizeCORSMethod L (header_Get (rq_Header request) ''Access-Control-Request-Method'') = Inr method" "methodAllowed L p method"
    "requestedCORSHeadersAllowed (header_Get (rq_Header request) ''Access-Control-Request-Headers'') (cp_headers p) = Some requested"
  using assms by (auto simp: writePreflight_def Let_def split: if_splits option.splits sum.splits)

text \<open>The origins a configuration grants to a request whose \<open>Origin\<close> header is given.\<close>

definition grants :: "lib \<Rightarrow> CORSPolicy \<Rightarrow> string \<Rightarrow> string \<Rightarrow> bool" where
  "grants L policy origin v \<longleftrightarrow>
     (if v = ''*'' then \<not> AllowCredentials policy \<and> (\<exists>og\<in>set (AllowedOrigins policy). normalizeCORSOrigin L og = Inr ''*'')
      else normalizeCORSOrigin L origin = Inr v \<and> (\<exists>og\<in>set (AllowedOrigins policy). normalizeCORSOrigin L og = Inr v))"

lemma normalizeCORSOrigin_trim: "normalizeCORSOrigin L (TrimSpace s) = normalizeCORSOrigin L s"
  by (simp add: normalizeCORSOrigin_def)

lemma shared_granted:
  assumes "normalizeCORSPolicy L policy = Inr p" "cp_enabled p" "allowedOrigin L p org = Some origin"
  shows "\<exists>v. origin_values (writeSharedHeaders L p origin w) = [v] \<and> grants L policy org v \<and>
    (credential_values (writeSharedHeaders L p origin w) \<noteq> credential_values w \<longrightarrow> AllowCredentials policy \<and> v \<noteq> ''*'')"
proof (cases "cp_anyOrigin p")
  case True
  with normalized_policy(1,5,6) [OF assms(1,2)] show ?thesis by (auto simp: values_shared grants_def)
next
  case False
  with assms(3) have origin: "normalizeCORSOrigin L org = Inr origin" "origin \<in> set (cp_origins p)"
    by (auto simp: allowedOrigin_def Let_def normalizeCORSOrigin_trim split: if_splits sum.splits)
  with False normalized_policy(2,5) [OF assms(1,2)] show ?thesis by (auto simp: values_shared grants_def)
qed

lemma add_methods_some: "add_methods L methods p = Inr q \<Longrightarrow> m \<in> set methods \<Longrightarrow> \<exists>v. normalizeCORSMethod L m = Inr v"
  by (induction L methods p rule: add_methods.induct) (auto split: sum.splits)

lemma no_methods:
  assumes "normalizeCORSPolicy L policy = Inr p" "cp_enabled p" "cp_methods p = []"
  shows "AllowedMethods policy = []"
proof -
  have none: "\<forall>m\<in>set (AllowedMethods policy). \<forall>v. normalizeCORSMethod L m \<noteq> Inr v"
    using normalized_policy(3) [OF assms(1,2)] assms(3) by auto
  from assms(1,2) obtain p1 p2 where "add_methods L (AllowedMethods policy) p1 = Inr p2"
    by (auto simp: normalizeCORSPolicy_def Let_def disabled_policy_def split: if_splits sum.splits)
  with none add_methods_some [of L "AllowedMethods policy" p1 p2] show ?thesis by (cases "AllowedMethods policy") auto
qed

lemma requested_headers_allowed:
  "requested_headers parts allowed acc = Some r \<Longrightarrow> part \<in> set parts \<Longrightarrow>
   \<exists>name key. normalizeCORSHeader part = Inr (name, key) \<and> key \<in> set allowed"
  by (induction parts allowed acc rule: requested_headers.induct) (auto split: sum.splits if_splits)

text \<open>What a configuration grants to a preflight request for a method and a list of headers.\<close>

definition grants_method :: "lib \<Rightarrow> CORSPolicy \<Rightarrow> string \<Rightarrow> bool" where
  "grants_method L policy method \<longleftrightarrow>
     (\<exists>v. normalizeCORSMethod L method = Inr v \<and>
        (AllowedMethods policy = [] \<or> (\<exists>m\<in>set (AllowedMethods policy). normalizeCORSMethod L m = Inr v)))"

definition grants_headers :: "CORSPolicy \<Rightarrow> string \<Rightarrow> bool" where
  "grants_headers policy header \<longleftrightarrow>
     (TrimSpace header \<noteq> [] \<longrightarrow>
        (\<forall>part\<in>set (Split (TrimSpace header) CHR '','').
           \<exists>h\<in>set (AllowedHeaders policy). \<exists>name name' key.
             normalizeCORSHeader part = Inr (name, key) \<and> normalizeCORSHeader h = Inr (name', key)))"

lemma preflight_granted:
  assumes "normalizeCORSPolicy L policy = Inr p" "writePreflight L p request method w = Some w'"
  shows "grants_method L policy method \<and>
    normalizeCORSMethod L (header_Get (rq_Header request) ''Access-Control-Request-Method'') = Inr method \<and>
    grants_headers policy (header_Get (rq_Header request) ''Access-Control-Request-Headers'')"
proof -
  let ?h = "header_Get (rq_Header request) ''Access-Control-Request-Headers''"
  from preflight_values [OF assms(2)] obtain r where r: "cp_enabled p" "methodAllowed L p method"
      "normalizeCORSMethod L (header_Get (rq_Header request) ''Access-Control-Request-Method'') = Inr method"
      "requestedCORSHeadersAllowed ?h (cp_headers p) = Some r" by metis
  have "grants_method L policy method"
    using r(2) normalized_policy(3) [OF assms(1) r(1)] no_methods [OF assms(1) r(1)]
    by (auto simp: methodAllowed_def grants_method_def split: sum.splits)
  moreover have "\<exists>h\<in>set (AllowedHeaders policy). \<exists>name name' key.
      normalizeCORSHeader part = Inr (name, key) \<and> normalizeCORSHeader h = Inr (name', key)"
    if ne: "TrimSpace ?h \<noteq> []" and part: "part \<in> set (Split (TrimSpace ?h) CHR '','')" for part
  proof -
    obtain name key where "normalizeCORSHeader part = Inr (name, key)" "key \<in> set (cp_headers p)"
      using r(4) ne requested_headers_allowed [OF _ part, of "cp_headers p" "[]" r]
      by (auto simp: requestedCORSHeadersAllowed_def Let_def)
    with normalized_policy(4) [OF assms(1) r(1)] show ?thesis by auto
  qed
  then have "grants_headers policy ?h" by (auto simp: grants_headers_def)
  ultimately show ?thesis using r(3) by blast
qed

text \<open>The lists of names a response sends: what is configured, in canonical form, without repetitions.\<close>

definition configured_methods :: "lib \<Rightarrow> CORSPolicy \<Rightarrow> string set" where
  "configured_methods L policy = {v. \<exists>m\<in>set (AllowedMethods policy). normalizeCORSMethod L m = Inr v}"

definition lists_methods :: "lib \<Rightarrow> CORSPolicy \<Rightarrow> string list \<Rightarrow> bool" where
  "lists_methods L policy ms \<longleftrightarrow> distinct ms \<and> set ms = configured_methods L policy"

definition lists_headers :: "string list \<Rightarrow> string list \<Rightarrow> bool" where
  "lists_headers configured hs \<longleftrightarrow>
     distinct (map ToLower hs) \<and> (\<forall>v\<in>set hs. \<exists>h\<in>set configured. \<exists>k. normalizeCORSHeader h = Inr (v, k)) \<and>
     set (map ToLower hs) = {k. \<exists>h\<in>set configured. \<exists>v. normalizeCORSHeader h = Inr (v, k)}"

lemma normalizeCORSHeader_key: "normalizeCORSHeader h = Inr (v, k) \<Longrightarrow> k = ToLower v"
  by (auto simp: normalizeCORSHeader_def Let_def split: if_splits)

lemma add_origins_lists:
  "add_origins L credentials origins p = Inr q \<Longrightarrow>
   cp_allowedMethods q = cp_allowedMethods p \<and> cp_allowedHeaders q = cp_allowedHeaders p \<and>
   cp_exposedHeaders q = cp_exposedHeaders p \<and> cp_maxAgeSeconds q = cp_maxAgeSeconds p"
  by (induction L credentials origins p rule: add_origins.induct) (auto split: sum.splits if_splits)

lemma add_methods_lists:
  "add_methods L methods p = Inr q \<Longrightarrow> distinct (cp_allowedMethods p) \<Longrightarrow> set (cp_allowedMethods p) = set (cp_methods p) \<Longrightarrow>
   distinct (cp_allowedMethods q) \<and> set (cp_allowedMethods q) = set (cp_methods q) \<and>
   cp_allowedHeaders q = cp_allowedHeaders p \<and> cp_exposedHeaders q = cp_exposedHeaders p \<and>
   cp_maxAgeSeconds q = cp_maxAgeSeconds p"
proof (induction methods arbitrary: p)
  case (Cons m methods)
  then obtain v where v: "normalizeCORSMethod L m = Inr v" by (auto split: sum.splits)
  with Cons show ?case by (cases "v \<in> set (cp_methods p)") fastforce+
qed auto

lemma add_headers_lists:
  "add_headers headers p = Inr q \<Longrightarrow> distinct (map ToLower (cp_allowedHeaders p)) \<Longrightarrow>
   ToLower ` set (cp_allowedHeaders p) = set (cp_headers p) \<Longrightarrow>
   distinct (map ToLower (cp_allowedHeaders q)) \<and> ToLower ` set (cp_allowedHeaders q) = set (cp_headers q) \<and>
   set (cp_allowedHeaders q) \<subseteq> set (cp_allowedHeaders p) \<union> {v. \<exists>h\<in>set headers. \<exists>k. normalizeCORSHeader h = Inr (v, k)} \<and>
   cp_allowedMethods q = cp_allowedMethods p \<and> cp_exposedHeaders q = cp_exposedHeaders p \<and>
   cp_maxAgeSeconds q = cp_maxAgeSeconds p"
proof (induction headers arbitrary: p)
  case (Cons h headers)
  then obtain v k where v: "normalizeCORSHeader h = Inr (v, k)" by (auto split: sum.splits)
  note k = normalizeCORSHeader_key [OF v]
  show ?case
  proof (cases "k \<in> set (cp_headers p)")
    case True
    with Cons.prems v have "add_headers headers p = Inr q" by simp
    from Cons.IH [OF this Cons.prems(2,3)] show ?thesis by auto
  next
    case False
    let ?p = "p\<lparr>cp_headers := k # cp_headers p, cp_allowedHeaders := cp_allowedHeaders p @ [v]\<rparr>"
    have "add_headers headers ?p = Inr q" using Cons.prems(1) v False by simp
    moreover have "distinct (map ToLower (cp_allowedHeaders ?p))"
        "ToLower ` set (cp_allowedHeaders ?p) = set (cp_headers ?p)"
      using Cons.prems(2,3) False k by auto
    ultimately have "set (cp_allowedHeaders q) \<subseteq>
          set (cp_allowedHeaders ?p) \<union> {v. \<exists>h\<in>set headers. \<exists>k. normalizeCORSHeader h = Inr (v, k)}"
        "distinct (map ToLower (cp_allowedHeaders q))" "ToLower ` set (cp_allowedHeaders q) = set (cp_headers q)"
        "cp_allowedMethods q = cp_allowedMethods p" "cp_exposedHeaders q = cp_exposedHeaders p"
        "cp_maxAgeSeconds q = cp_maxAgeSeconds p"
      using Cons.IH [of ?p] by simp_all
    with v show ?thesis by auto
  qed
qed auto

lemma add_exposed_lists:
  "add_exposed headers seen p = Inr q \<Longrightarrow> distinct (map ToLower (cp_exposedHeaders p)) \<Longrightarrow>
   ToLower ` set (cp_exposedHeaders p) = set seen \<Longrightarrow>
   distinct (map ToLower (cp_exposedHeaders q)) \<and>
   ToLower ` set (cp_exposedHeaders q) = set seen \<union> {k. \<exists>h\<in>set headers. \<exists>v. normalizeCORSHeader h = Inr (v, k)} \<and>
   set (cp_exposedHeaders q) \<subseteq> set (cp_exposedHeaders p) \<union> {v. \<exists>h\<in>set headers. \<exists>k. normalizeCORSHeader h = Inr (v, k)} \<and>
   cp_allowedMethods q = cp_allowedMethods p \<and> cp_allowedHeaders q = cp_allowedHeaders p \<and>
   cp_maxAgeSeconds q = cp_maxAgeSeconds p"
proof (induction headers arbitrary: p seen)
  case (Cons h headers)
  then obtain v k where v: "normalizeCORSHeader h = Inr (v, k)" by (auto split: sum.splits)
  note k = normalizeCORSHeader_key [OF v]
  have keys: "{k. \<exists>h\<in>set (h # headers). \<exists>v. normalizeCORSHeader h = Inr (v, k)} =
      insert k {k. \<exists>h\<in>set headers. \<exists>v. normalizeCORSHeader h = Inr (v, k)}" using v by auto
  show ?case
  proof (cases "k \<in> set seen")
    case True
    with Cons.prems v have "add_exposed headers seen p = Inr q" by simp
    from Cons.IH [OF this Cons.prems(2,3)] True show ?thesis unfolding keys by auto
  next
    case False
    let ?p = "p\<lparr>cp_exposedHeaders := cp_exposedHeaders p @ [v]\<rparr>"
    have "add_exposed headers (k # seen) ?p = Inr q" using Cons.prems(1) v False by simp
    moreover have "distinct (map ToLower (cp_exposedHeaders ?p))" "ToLower ` set (cp_exposedHeaders ?p) = set (k # seen)"
      using Cons.prems(2,3) False k by auto
    ultimately have "set (cp_exposedHeaders q) \<subseteq>
          set (cp_exposedHeaders ?p) \<union> {v. \<exists>h\<in>set headers. \<exists>k. normalizeCORSHeader h = Inr (v, k)}"
        "distinct (map ToLower (cp_exposedHeaders q))"
        "ToLower ` set (cp_exposedHeaders q) = set (k # seen) \<union> {k. \<exists>h\<in>set headers. \<exists>v. normalizeCORSHeader h = Inr (v, k)}"
        "cp_allowedMethods q = cp_allowedMethods p" "cp_allowedHeaders q = cp_allowedHeaders p"
        "cp_maxAgeSeconds q = cp_maxAgeSeconds p"
      using Cons.IH [of "k # seen" ?p] by simp_all
    with v show ?thesis unfolding keys by auto
  qed
qed auto

lemma normalized_lists:
  assumes "normalizeCORSPolicy L policy = Inr p" "cp_enabled p"
  shows "lists_methods L policy (cp_allowedMethods p)" "lists_headers (AllowedHeaders policy) (cp_allowedHeaders p)"
    "lists_headers (ExposedHeaders policy) (cp_exposedHeaders p)" "cp_maxAgeSeconds p = MaxAgeSeconds policy"
proof -
  let ?p0 = "disabled_policy\<lparr>cp_enabled := True, cp_allowCredentials := AllowCredentials policy,
       cp_maxAgeSeconds := MaxAgeSeconds policy\<rparr>"
  from assms obtain p1 p2 p3 where
      1: "add_origins L (AllowCredentials policy) (AllowedOrigins policy) ?p0 = Inr p1" and
      2: "add_methods L (AllowedMethods policy) p1 = Inr p2" and 3: "add_headers (AllowedHeaders policy) p2 = Inr p3" and
      4: "add_exposed (ExposedHeaders policy) [] p3 = Inr p"
    by (auto simp: normalizeCORSPolicy_def Let_def disabled_policy_def split: if_splits sum.splits)
  have p1: "cp_allowedMethods p1 = []" "cp_methods p1 = []" "cp_allowedHeaders p1 = []" "cp_headers p1 = []"
      "cp_exposedHeaders p1 = []" "cp_maxAgeSeconds p1 = MaxAgeSeconds policy"
    using add_origins_lists [OF 1] add_origins_fields(5,6) [OF 1] by (simp_all add: disabled_policy_def)
  note m = add_methods_lists [OF 2, unfolded p1, simplified] and mf = add_methods_fields [OF 2, unfolded p1, simplified]
  have p2: "cp_allowedHeaders p2 = []" "cp_headers p2 = []" using m mf by simp_all
  note h = add_headers_lists [OF 3, unfolded p2, simplified] and hf = add_headers_fields [OF 3, unfolded p2, simplified]
  have p3: "cp_exposedHeaders p3 = []" using h m by simp
  note e = add_exposed_lists [OF 4, unfolded p3, simplified] and ef = add_exposed_fields [OF 4]
  show "lists_methods L policy (cp_allowedMethods p)"
    using e h m mf by (simp add: lists_methods_def configured_methods_def)
  show "lists_headers (AllowedHeaders policy) (cp_allowedHeaders p)" using e h hf by (auto simp: lists_headers_def)
  show "lists_headers (ExposedHeaders policy) (cp_exposedHeaders p)" using e by (auto simp: lists_headers_def)
  show "cp_maxAgeSeconds p = MaxAgeSeconds policy" using e h m by simp
qed

lemma no_methods_listed: "lists_methods L policy [] \<longleftrightarrow> configured_methods L policy = {}"
  by (auto simp: lists_methods_def)

definition sent :: "string \<Rightarrow> writer \<Rightarrow> string list" where
  "sent k w = header_Values (w_header w) k"

lemma sent_set_header:
  "CanonicalMIMEHeaderKey k = k \<Longrightarrow> CanonicalMIMEHeaderKey k' = k' \<Longrightarrow> sent k (set_header k' v w) = (if k = k' then [v] else sent k w)"
  by (simp add: sent_def set_header_def header_Set_def header_Values_def)

lemma sent_add_vary: "CanonicalMIMEHeaderKey k = k \<Longrightarrow> k \<noteq> ''Vary'' \<Longrightarrow> sent k (add_vary L vs w) = sent k w"
  by (simp add: sent_def add_vary_def addVaryHeader_def Let_def header_Add_def header_Values_def)

lemma sent_WriteHeader: "sent k (WriteHeader s w) = sent k w"
  by (simp add: sent_def WriteHeader_def split: option.splits)

lemma sent_shared:
  "CanonicalMIMEHeaderKey k = k \<Longrightarrow> k \<noteq> ''Vary'' \<Longrightarrow> k \<noteq> ''Access-Control-Allow-Origin'' \<Longrightarrow>
   k \<noteq> ''Access-Control-Allow-Credentials'' \<Longrightarrow> sent k (writeSharedHeaders L p origin w) = sent k w"
  by (simp add: writeSharedHeaders_def Let_def sent_set_header sent_add_vary)

text \<open>The values of the other headers of a preflight response, and of an actual one.\<close>

definition preflight_values_configured :: "lib \<Rightarrow> CORSPolicy \<Rightarrow> request \<Rightarrow> string \<Rightarrow> writer \<Rightarrow> writer \<Rightarrow> bool" where
  "preflight_values_configured L policy request method w w' \<longleftrightarrow>
     (if configured_methods L policy = {} then sent ''Access-Control-Allow-Methods'' w' = [method]
      else \<exists>ms. lists_methods L policy ms \<and> sent ''Access-Control-Allow-Methods'' w' = [Join ms '', '']) \<and>
     (if TrimSpace (header_Get (rq_Header request) ''Access-Control-Request-Headers'') = []
      then sent ''Access-Control-Allow-Headers'' w' = sent ''Access-Control-Allow-Headers'' w
      else \<exists>hs. lists_headers (AllowedHeaders policy) hs \<and> sent ''Access-Control-Allow-Headers'' w' = [Join hs '', '']) \<and>
     sent ''Access-Control-Max-Age'' w' =
       (if MaxAgeSeconds policy > 0 then [Itoa (MaxAgeSeconds policy)] else sent ''Access-Control-Max-Age'' w) \<and>
     sent ''Access-Control-Expose-Headers'' w' = sent ''Access-Control-Expose-Headers'' w"

definition actual_values_configured :: "CORSPolicy \<Rightarrow> writer \<Rightarrow> writer \<Rightarrow> bool" where
  "actual_values_configured policy w w' \<longleftrightarrow>
     (sent ''Access-Control-Expose-Headers'' w' = sent ''Access-Control-Expose-Headers'' w \<or>
      (\<exists>hs. lists_headers (ExposedHeaders policy) hs \<and> sent ''Access-Control-Expose-Headers'' w' = [Join hs '', ''])) \<and>
     sent ''Access-Control-Allow-Methods'' w' = sent ''Access-Control-Allow-Methods'' w \<and>
     sent ''Access-Control-Allow-Headers'' w' = sent ''Access-Control-Allow-Headers'' w \<and>
     sent ''Access-Control-Max-Age'' w' = sent ''Access-Control-Max-Age'' w"

lemma requested_headers_nonempty:
  "requested_headers parts allowed acc = Some r \<Longrightarrow> parts \<noteq> [] \<or> acc \<noteq> [] \<Longrightarrow> r \<noteq> []"
  by (induction parts allowed acc rule: requested_headers.induct) (auto split: sum.splits if_splits prod.splits)

lemma preflight_sent:
  assumes "normalizeCORSPolicy L policy = Inr p" "writePreflight L p request method w = Some w'"
  shows "preflight_values_configured L policy request method w w'"
proof -
  let ?h = "header_Get (rq_Header request) ''Access-Control-Request-Headers''"
  note simps = sent_set_header sent_add_vary sent_WriteHeader sent_shared
  obtain origin rs where en: "cp_enabled p" and org: "allowedOrigin L p (header_Get (rq_Header request) ''Origin'') = Some origin"
      and m: "normalizeCORSMethod L (header_Get (rq_Header request) ''Access-Control-Request-Method'') = Inr method"
        "methodAllowed L p method"
      and rs: "requestedCORSHeadersAllowed ?h (cp_headers p) = Some rs"
    using preflight_values [OF assms(2)] by metis
  have w': "w' = (let w1 = add_vary L [''Access-Control-Request-Method'', ''Access-Control-Request-Headers'']
                         (writeSharedHeaders L p origin w);
            w2 = set_header ''Access-Control-Allow-Methods''
                   (if cp_allowedMethods p \<noteq> [] then Join (cp_allowedMethods p) '', '' else method) w1;
            w3 = (if rs \<noteq> [] then set_header ''Access-Control-Allow-Headers'' (Join (cp_allowedHeaders p) '', '') w2 else w2);
            w4 = (if cp_maxAgeSeconds p > 0 then set_header ''Access-Control-Max-Age'' (Itoa (cp_maxAgeSeconds p)) w3 else w3)
        in WriteHeader 204 w4)"
    using assms(2) by (simp only: writePreflight_def en org m rs Let_def option.simps sum.simps simp_thms if_True if_False)
  note lists = normalized_lists [OF assms(1) en]
  have rs_ne: "rs = [] \<longleftrightarrow> TrimSpace ?h = []"
    using rs requested_headers_nonempty [of _ "cp_headers p" "[]" rs]
    by (auto simp: requestedCORSHeadersAllowed_def Let_def split: if_splits)
  have ms: "cp_allowedMethods p = [] \<longleftrightarrow> configured_methods L policy = {}"
    using lists(1) by (metis lists_methods_def list.set(1) set_empty)
  have "sent ''Access-Control-Allow-Methods'' w' =
      [if cp_allowedMethods p \<noteq> [] then Join (cp_allowedMethods p) '', '' else method]"
    unfolding w' by (simp add: Let_def simps)
  moreover have "sent ''Access-Control-Allow-Headers'' w' =
      (if rs \<noteq> [] then [Join (cp_allowedHeaders p) '', ''] else sent ''Access-Control-Allow-Headers'' w)"
    unfolding w' by (simp add: Let_def simps)
  moreover have "sent ''Access-Control-Max-Age'' w' =
      (if cp_maxAgeSeconds p > 0 then [Itoa (cp_maxAgeSeconds p)] else sent ''Access-Control-Max-Age'' w)"
    "sent ''Access-Control-Expose-Headers'' w' = sent ''Access-Control-Expose-Headers'' w"
    unfolding w' by (simp_all add: Let_def simps)
  ultimately show ?thesis
    unfolding preflight_values_configured_def using lists ms rs_ne by auto
qed

lemma actual_sent:
  assumes "normalizeCORSPolicy L policy = Inr p"
  shows "actual_values_configured policy w (writeActualHeaders L p request method w)"
proof (cases "cp_enabled p")
  case True
  note lists = normalized_lists(3) [OF assms True]
  note simps = sent_set_header sent_add_vary sent_shared
  show ?thesis
    using lists by (auto simp: actual_values_configured_def writeActualHeaders_def Let_def simps split: option.splits)
qed (simp add: actual_values_configured_def writeActualHeaders_def)

text \<open>
  C23: A response allows an origin only if the configuration of the router grants it: the wildcard is sent
  only where it was configured, and never with credentials; any other value is the canonical form of the
  origin of the request and of an origin that was configured. A preflight is answered only for the method
  of the route, and only when that method and every header it asks for were configured. The methods and
  headers a preflight response lists, and the headers an actual response exposes, are the configured ones in
  canonical form, without repetitions (the method of the route when none is configured); the maximal age is
  the configured one; no other value of these headers is written.\<close>

theorem cors_grants:
  assumes "normalizeCORSPolicy L policy = Inr p" "origin_values w = []" "credential_values w = []"
    and "writeActualHeaders L p request method w = w' \<or> writePreflight L p request method w = Some w'"
  shows "(case origin_values w' of
      [] \<Rightarrow> credential_values w' = []
    | v # vs \<Rightarrow> vs = [] \<and> grants L policy (header_Get (rq_Header request) ''Origin'') v \<and>
        (credential_values w' \<noteq> [] \<longrightarrow> AllowCredentials policy \<and> v \<noteq> ''*'')) \<and>
    (writePreflight L p request method w = Some w' \<longrightarrow>
       grants_method L policy method \<and>
       normalizeCORSMethod L (header_Get (rq_Header request) ''Access-Control-Request-Method'') = Inr method \<and>
       grants_headers policy (header_Get (rq_Header request) ''Access-Control-Request-Headers'') \<and>
       preflight_values_configured L policy request method w w') \<and>
    (writeActualHeaders L p request method w = w' \<longrightarrow> actual_values_configured policy w w')"
proof -
  consider (same) "w' = w" | (shared) origin where "cp_enabled p"
      "allowedOrigin L p (header_Get (rq_Header request) ''Origin'') = Some origin"
      "origin_values w' = origin_values (writeSharedHeaders L p origin w)"
      "credential_values w' = credential_values (writeSharedHeaders L p origin w)"
    using assms(4) actual_values [of L p request "method" w] by (auto elim: preflight_values)
  then have "case origin_values w' of
      [] \<Rightarrow> credential_values w' = []
    | v # vs \<Rightarrow> vs = [] \<and> grants L policy (header_Get (rq_Header request) ''Origin'') v \<and>
        (credential_values w' \<noteq> [] \<longrightarrow> AllowCredentials policy \<and> v \<noteq> ''*'')"
  proof cases
    case same
    with assms show ?thesis by simp
  next
    case shared
    with shared_granted [OF assms(1) shared(1,2), of w] assms(3) show ?thesis by auto
  qed
  with preflight_granted [OF assms(1)] preflight_sent [OF assms(1)] actual_sent [OF assms(1)] show ?thesis by blast
qed

text \<open>A library for examples: URLs of the form scheme, two slashes, host; no IP addresses; ASCII case.\<close>

definition plain_lib :: lib where
  "plain_lib =
     \<lparr>url_Parse = (\<lambda>s. case Cut s CHR '':'' of
          (scheme, rest, ok) \<Rightarrow>
            if ok \<and> HasPrefix rest ''//''
            then Some \<lparr>u_Scheme = scheme, u_User = False, u_Host = drop 2 rest, u_Opaque = [], u_RawQuery = [],
                       u_Fragment = [], u_Path = []\<rparr>
            else None),
      ParseIP = (\<lambda>_. None), lower = ToLower, upper = ToUpper\<rparr>"

definition example_policy :: CORSPolicy where
  "example_policy =
     \<lparr>AllowedOrigins = [''HTTPS://App.example.com:443''], AllowedMethods = [''post''], AllowedHeaders = [''x-token''],
      ExposedHeaders = [], AllowCredentials = True, MaxAgeSeconds = 60\<rparr>"

definition example_preflight :: request where
  "example_preflight =
     \<lparr>rq_Method = ''OPTIONS'', rq_Path = ''/api'',
      rq_Header = (\<lambda>k. if k = ''Origin'' then [''https://app.example.com'']
                      else if k = ''Access-Control-Request-Method'' then [''POST'']
                      else if k = ''Access-Control-Request-Headers'' then [''X-Token''] else [])\<rparr>"

theorem cors_grants_witness:
  "case normalizeCORSPolicy plain_lib example_policy of
     Inl _ \<Rightarrow> False
   | Inr p \<Rightarrow>
       (case writePreflight plain_lib p example_preflight ''POST'' new_writer of
          None \<Rightarrow> False
        | Some w \<Rightarrow>
            origin_values w = [''https://app.example.com''] \<and> credential_values w = [''true''] \<and>
            grants plain_lib example_policy ''https://app.example.com'' ''https://app.example.com'')"
proof -
  have "case normalizeCORSPolicy plain_lib example_policy of
     Inl _ \<Rightarrow> False
   | Inr p \<Rightarrow>
       (case writePreflight plain_lib p example_preflight ''POST'' new_writer of
          None \<Rightarrow> False
        | Some w \<Rightarrow> origin_values w = [''https://app.example.com''] \<and> credential_values w = [''true''])"
    by code_simp
  then obtain p w where p: "normalizeCORSPolicy plain_lib example_policy = Inr p"
      "writePreflight plain_lib p example_preflight ''POST'' new_writer = Some w"
      "origin_values w = [''https://app.example.com'']" "credential_values w = [''true'']"
    by (auto split: sum.splits option.splits)
  have empty: "origin_values new_writer = []" "credential_values new_writer = []" by code_simp+
  have "header_Get (rq_Header example_preflight) ''Origin'' = ''https://app.example.com''" by code_simp
  with cors_grants [OF p(1) empty, of example_preflight "''POST''" w] p show ?thesis by simp
qed

end
