(* ===== verification/I18n.thy ===== *)
theory I18n
  imports Http "HOL-Library.Product_Lexorder"
begin

text \<open>
  \<open>runtime/i18n/i18n.go\<close>: message catalogs, bundles of them, their completeness reports, and the
  formatting of messages, plurals and numbers. Keys are strings, as the error codes of the runtime
  are. A Go map is an association list with distinct keys, in any order. Dates and times, which the
  library formats, are left out, and so is the JSON text of a report.
\<close>

section \<open>Placeholders\<close>

type_synonym vars = "(string \<times> string) list"

text \<open>\<open>strings.ReplaceAll\<close> for a text that is not empty.\<close>

function ReplaceAll :: "string \<Rightarrow> string \<Rightarrow> string \<Rightarrow> string" where
  "ReplaceAll s old new =
     (if old = [] then s
      else if HasPrefix s old then new @ ReplaceAll (drop (length old) s) old new
      else (case s of [] \<Rightarrow> [] | c # s' \<Rightarrow> c # ReplaceAll s' old new))"
  by pat_completeness auto
termination
  by (relation "measure (\<lambda>(s, old, new). length s)") (auto simp: prefix_def)

declare ReplaceAll.simps [simp del]

definition sorted_keys :: "vars \<Rightarrow> string list" where
  "sorted_keys vars =
     sort_key (\<lambda>k. (- int (length k), k)) (filter (\<lambda>k. k \<noteq> []) (map (\<lambda>(k, _). TrimSpace k) vars))"

definition var :: "vars \<Rightarrow> string \<Rightarrow> string" where
  "var vars key = (case map_of vars key of Some v \<Rightarrow> v | None \<Rightarrow> [])"

definition hole :: "string \<Rightarrow> string" where
  "hole key = ''{'' @ key @ ''}''"

definition Format :: "string \<Rightarrow> vars \<Rightarrow> string" where
  "Format message vars =
     (if vars = [] \<or> \<not> Contains message ''{'' then message
      else fold (\<lambda>key out. ReplaceAll out (hole key) (var vars key)) (sorted_keys vars) message)"

section \<open>Catalogs and bundles\<close>

record Catalog =
  c_Locale :: string
  c_Messages :: "(string \<times> string) list"

record UserMessage =
  um_Code :: string
  um_Default :: string
  um_Vars :: vars

record Bundle =
  b_DefaultLocale :: string
  b_Catalogs :: "(string \<times> Catalog) list"

definition NewCatalog :: "string \<Rightarrow> (string \<times> string) list \<Rightarrow> Catalog" where
  "NewCatalog locale messages = \<lparr>c_Locale = TrimSpace locale, c_Messages = messages\<rparr>"

definition Message :: "Catalog \<Rightarrow> string \<Rightarrow> string option" where
  "Message catalog key = map_of (c_Messages catalog) key"

definition Catalog_Format :: "Catalog \<Rightarrow> string \<Rightarrow> vars \<Rightarrow> string option" where
  "Catalog_Format catalog key vars = map_option (\<lambda>v. Format v vars) (Message catalog key)"

text \<open>The loop of \<open>NewBundle\<close> runs over the catalogs in some order; a later one with the same key wins.\<close>

fun bundle_loop :: "(string \<times> Catalog) list \<Rightarrow> (string \<times> Catalog) list \<Rightarrow> (string \<times> Catalog) list" where
  "bundle_loop [] out = out"
| "bundle_loop ((locale, catalog) # catalogs) out =
     (let trimmed = TrimSpace locale;
          key = (if trimmed = [] then TrimSpace (c_Locale catalog) else trimmed)
      in if key = [] then bundle_loop catalogs out
         else bundle_loop catalogs ((key, NewCatalog key (c_Messages catalog)) # filter (\<lambda>(k, _). k \<noteq> key) out))"

definition NewBundle :: "string \<Rightarrow> (string \<times> Catalog) list \<Rightarrow> Bundle" where
  "NewBundle defaultLocale catalogs =
     \<lparr>b_DefaultLocale = TrimSpace defaultLocale, b_Catalogs = bundle_loop catalogs []\<rparr>"

definition NewErrorBundleStrings :: "string \<Rightarrow> (string \<times> (string \<times> string) list) list \<Rightarrow> Bundle" where
  "NewErrorBundleStrings defaultLocale catalogs =
     NewBundle defaultLocale (map (\<lambda>(locale, messages). (locale, NewCatalog locale messages)) catalogs)"

definition Bundle_Catalog :: "Bundle \<Rightarrow> string \<Rightarrow> Catalog option" where
  "Bundle_Catalog bundle locale0 =
     (let locale = TrimSpace locale0
      in case (if locale \<noteq> [] then map_of (b_Catalogs bundle) locale else None) of
           Some catalog \<Rightarrow> Some catalog
         | None \<Rightarrow>
             if b_DefaultLocale bundle \<noteq> [] then map_of (b_Catalogs bundle) (b_DefaultLocale bundle) else None)"

definition Resolve :: "Bundle \<Rightarrow> string \<Rightarrow> UserMessage \<Rightarrow> string" where
  "Resolve bundle locale message =
     (case Bundle_Catalog bundle locale of
        None \<Rightarrow> Format (um_Default message) (um_Vars message)
      | Some catalog \<Rightarrow>
          (case Catalog_Format catalog (um_Code message) (um_Vars message) of
             Some localized \<Rightarrow> localized
           | None \<Rightarrow> Format (um_Default message) (um_Vars message)))"

section \<open>Completeness reports\<close>

record MessageReference =
  mr_Key :: string
  mr_Source :: string
  mr_Line :: int
  mr_Column :: int

record CatalogReport =
  cr_Locale :: string
  cr_MissingCatalog :: bool
  cr_Missing :: "MessageReference list"
  cr_Unused :: "string list"

record BundleReport =
  br_DefaultLocale :: string
  br_Required :: "MessageReference list"
  br_Catalogs :: "CatalogReport list"

text \<open>\<open>fmt.Sprintf("%09d", n)\<close>.\<close>

definition pad9 :: "int \<Rightarrow> string" where
  "pad9 n =
     (if n < 0 then let s = Itoa (- n) in CHR ''-'' # replicate (8 - length s) CHR ''0'' @ s
      else let s = Itoa n in replicate (9 - length s) CHR ''0'' @ s)"

definition referenceSortKey :: "MessageReference \<Rightarrow> string" where
  "referenceSortKey ref =
     mr_Key ref @ [CHR 0x00] @ mr_Source ref @ [CHR 0x00] @ pad9 (mr_Line ref) @ [CHR 0x00] @ pad9 (mr_Column ref)"

definition sortedReferences :: "MessageReference list \<Rightarrow> MessageReference list" where
  "sortedReferences refs = sort_key referenceSortKey refs"

definition sortedCatalogLocales :: "(string \<times> Catalog) list \<Rightarrow> string list" where
  "sortedCatalogLocales catalogs = sort (filter (\<lambda>locale. TrimSpace locale \<noteq> []) (map fst catalogs))"

definition MissingKeys :: "Catalog \<Rightarrow> string list \<Rightarrow> string list" where
  "MissingKeys catalog keys = filter (\<lambda>key. Message catalog key = None) keys"

definition check_locale :: "Bundle \<Rightarrow> MessageReference list \<Rightarrow> string \<Rightarrow> CatalogReport" where
  "check_locale bundle refs locale =
     (case map_of (b_Catalogs bundle) locale of
        None \<Rightarrow> \<lparr>cr_Locale = locale, cr_MissingCatalog = True, cr_Missing = refs, cr_Unused = []\<rparr>
      | Some catalog \<Rightarrow>
          \<lparr>cr_Locale = locale, cr_MissingCatalog = False,
           cr_Missing = filter (\<lambda>ref. Message catalog (mr_Key ref) = None) refs,
           cr_Unused = sort (filter (\<lambda>key. key \<notin> set (map mr_Key refs)) (map fst (c_Messages catalog)))\<rparr>)"

definition check_locales :: "Bundle \<Rightarrow> MessageReference list \<Rightarrow> string list" where
  "check_locales bundle refs =
     (let locales = sortedCatalogLocales (b_Catalogs bundle);
          default_locale = TrimSpace (b_DefaultLocale bundle);
          all = (if default_locale \<noteq> [] \<and> default_locale \<notin> set locales then sort (locales @ [default_locale]) else locales)
      in if all = [] \<and> refs \<noteq> [] then [[]] else all)"

definition Check :: "Bundle \<Rightarrow> MessageReference list \<Rightarrow> BundleReport" where
  "Check bundle required =
     (let refs = sortedReferences required
      in \<lparr>br_DefaultLocale = TrimSpace (b_DefaultLocale bundle), br_Required = refs,
          br_Catalogs = map (check_locale bundle refs) (check_locales bundle refs)\<rparr>)"

definition OK :: "BundleReport \<Rightarrow> bool" where
  "OK report \<longleftrightarrow>
     list_all (\<lambda>c. \<not> (cr_MissingCatalog c \<or> cr_Missing c \<noteq> [] \<or> cr_Unused c \<noteq> [])) (br_Catalogs report)"

text \<open>
  The references without repeated keys, and the starter catalog. A position of \<open>unique\<close> is that of
  its key, as the map \<open>seen\<close> of the code records.
\<close>

fun unique_loop :: "MessageReference list \<Rightarrow> MessageReference list \<Rightarrow> MessageReference list" where
  "unique_loop [] unique = unique"
| "unique_loop (ref # refs) unique =
     (if mr_Key ref \<in> set (map mr_Key unique) then
        unique_loop refs
          (map (\<lambda>u. if mr_Key u = mr_Key ref \<and> mr_Source u = [] \<and> mr_Source ref \<noteq> [] then ref else u) unique)
      else unique_loop refs (unique @ [ref]))"

definition uniqueReferences :: "MessageReference list \<Rightarrow> MessageReference list" where
  "uniqueReferences refs = unique_loop (sortedReferences refs) []"

definition Template :: "Catalog \<Rightarrow> MessageReference list \<Rightarrow> string \<times> (MessageReference \<times> string) list" where
  "Template catalog required =
     (TrimSpace (c_Locale catalog),
      map (\<lambda>ref. (ref, case Message catalog (mr_Key ref) of Some v \<Rightarrow> v | None \<Rightarrow> [])) (uniqueReferences required))"

definition Bundle_Template :: "Bundle \<Rightarrow> string \<Rightarrow> MessageReference list \<Rightarrow> string \<times> (MessageReference \<times> string) list" where
  "Bundle_Template bundle locale0 required =
     (let trimmed = TrimSpace locale0;
          locale = (if trimmed = [] then TrimSpace (b_DefaultLocale bundle) else trimmed);
          catalog = (case map_of (b_Catalogs bundle) locale of
                       Some c \<Rightarrow> c | None \<Rightarrow> \<lparr>c_Locale = locale, c_Messages = []\<rparr>)
      in Template catalog required)"

section \<open>Plurals and numbers\<close>

datatype PluralCategory = PluralZero | PluralOne | PluralOther

record PluralForms =
  pf_Zero :: string
  pf_One :: string
  pf_Other :: string

text \<open>Locale names are ASCII here, as \<open>ToLower\<close> is.\<close>

definition primaryLocale :: "string \<Rightarrow> string" where
  "primaryLocale locale =
     fst (Cut (map (\<lambda>c. if c = CHR ''_'' then CHR ''-'' else c) (ToLower (TrimSpace locale))) CHR ''-'')"

definition Cardinal :: "string \<Rightarrow> int \<Rightarrow> PluralCategory" where
  "Cardinal locale n =
     (if primaryLocale locale \<in> set [''ja'', ''ko'', ''th'', ''vi'', ''zh''] then PluralOther
      else if n = 1 \<or> n = - 1 then PluralOne else PluralOther)"

definition FormatPlural :: "string \<Rightarrow> int \<Rightarrow> PluralForms \<Rightarrow> vars \<Rightarrow> string" where
  "FormatPlural locale n forms vars =
     (let p0 = (if n = 0 \<and> pf_Zero forms \<noteq> [] then pf_Zero forms
                else if Cardinal locale n = PluralOne \<and> pf_One forms \<noteq> [] then pf_One forms
                else pf_Other forms);
          pattern = (if p0 = [] then pf_One forms else p0)
      in Format pattern ((''count'', Itoa n) # filter (\<lambda>(k, _). k \<noteq> ''count'') vars))"

text \<open>Floating-point numbers and \<open>strconv.FormatFloat(value, 'f', digits, 64)\<close> are a parameter.\<close>

record 'f numbers =
  nu_finite :: "'f \<Rightarrow> bool"
  nu_negative :: "'f \<Rightarrow> bool"
  nu_neg :: "'f \<Rightarrow> 'f"
  FormatFloat :: "'f \<Rightarrow> int \<Rightarrow> string"

definition clampFractionDigits :: "int \<Rightarrow> int" where
  "clampFractionDigits v = (if v < 0 then 0 else if v > 9 then 9 else v)"

function strip_zeros :: "int \<Rightarrow> string \<Rightarrow> string" where
  "strip_zeros minDigits fraction =
     (if int (length fraction) > minDigits \<and> HasSuffix fraction ''0'' then strip_zeros minDigits (butlast fraction) else fraction)"
  by pat_completeness auto
termination
  by (relation "measure (\<lambda>(m, s). length s)") (auto simp: suffix_def)

declare strip_zeros.simps [simp del]

definition formatNumberMagnitude :: "'f numbers \<Rightarrow> 'f \<Rightarrow> int \<Rightarrow> int \<Rightarrow> string" where
  "formatNumberMagnitude N v minFractionDigits maxFractionDigits =
     (let minDigits = clampFractionDigits minFractionDigits;
          max0 = clampFractionDigits maxFractionDigits;
          maxDigits = (if max0 < minDigits then minDigits else max0)
      in if minFractionDigits = 0 \<and> maxFractionDigits = 0 then FormatFloat N v (- 1)
         else
           let s = FormatFloat N v maxDigits
           in if maxDigits = minDigits then s
              else (case Cut s CHR ''.'' of
                      (integer, fraction0, ok) \<Rightarrow>
                        if \<not> ok then s
                        else let fraction = strip_zeros minDigits fraction0
                             in if fraction = [] then integer else integer @ ''.'' @ fraction))"

definition numberSeparators :: "string \<Rightarrow> string \<times> string" where
  "numberSeparators locale = (if primaryLocale locale = ''pt'' then ('','', ''.'') else (''.'', '',''))"

fun group_loop :: "string \<Rightarrow> string list \<Rightarrow> string list" where
  "group_loop v groups =
     (if 3 < length v then group_loop (take (length v - 3) v) (groups @ [drop (length v - 3) v])
      else groups @ [v])"

declare group_loop.simps [simp del]

definition groupInteger :: "string \<Rightarrow> string \<Rightarrow> string" where
  "groupInteger v separator = (if length v \<le> 3 then v else Join (rev (group_loop v [])) separator)"

definition FormatNumber :: "'f numbers \<Rightarrow> string \<Rightarrow> 'f \<Rightarrow> int \<Rightarrow> int \<Rightarrow> string" where
  "FormatNumber N locale v0 minFractionDigits maxFractionDigits =
     (if \<not> nu_finite N v0 then FormatFloat N v0 (- 1)
      else
        let negative = nu_negative N v0;
            v = (if negative then nu_neg N v0 else v0);
            s = formatNumberMagnitude N v minFractionDigits maxFractionDigits
        in case Cut s CHR ''.'' of
             (integer, fraction, hasFraction) \<Rightarrow>
               (case numberSeparators locale of
                  (decimal, separator) \<Rightarrow>
                    let out = groupInteger integer separator @ (if hasFraction \<and> fraction \<noteq> [] then decimal @ fraction else [])
                    in if negative \<and> out \<noteq> ''0'' then CHR ''-'' # out else out))"

section \<open>Formatting replaces the placeholders of a message\<close>

text \<open>A message as the pieces it is written from: text without braces, and placeholders.\<close>

datatype piece = Literal string | Hole string

fun render :: "piece \<Rightarrow> string" where
  "render (Literal s) = s"
| "render (Hole key) = hole key"

definition braceless :: "string \<Rightarrow> bool" where
  "braceless s \<longleftrightarrow> CHR ''{'' \<notin> set s \<and> CHR ''}'' \<notin> set s"

fun piece_ok :: "piece \<Rightarrow> bool" where
  "piece_ok (Literal s) = braceless s"
| "piece_ok (Hole key) = braceless key"

definition rendered :: "piece list \<Rightarrow> string" where
  "rendered ps = concat (map render ps)"

fun fill_one :: "string \<Rightarrow> string \<Rightarrow> piece \<Rightarrow> piece" where
  "fill_one key v (Literal s) = Literal s"
| "fill_one key v (Hole k) = (if k = key then Literal v else Hole k)"

text \<open>All placeholders with a value at once; the others are left as they are.\<close>

fun fill_piece :: "vars \<Rightarrow> piece \<Rightarrow> piece" where
  "fill_piece vars (Literal s) = Literal s"
| "fill_piece vars (Hole k) = (case map_of vars k of Some v \<Rightarrow> Literal v | None \<Rightarrow> Hole k)"

lemma ReplaceAll_skip:
  "CHR ''{'' \<notin> set s \<Longrightarrow> ReplaceAll (s @ t) (hole key) v = s @ ReplaceAll t (hole key) v"
  by (induction s) (auto simp: hole_def ReplaceAll.simps [of "_ # _"] ReplaceAll.simps [of t])

lemma hole_prefix:
  assumes "braceless key" "braceless k"
  shows "prefix (hole key) (hole k @ t) \<longleftrightarrow> k = key"
proof
  assume "prefix (hole key) (hole k @ t)"
  then obtain r where r: "k @ CHR ''}'' # t = key @ CHR ''}'' # r" by (auto simp: hole_def prefix_def)
  have "takeWhile (\<lambda>c. c \<noteq> CHR ''}'') (k @ CHR ''}'' # t) = k" "takeWhile (\<lambda>c. c \<noteq> CHR ''}'') (key @ CHR ''}'' # r) = key"
    using assms by (auto simp: braceless_def takeWhile_append takeWhile_eq_all_conv)
  with r show "k = key" by metis
qed (simp add: hole_def)

lemma ReplaceAll_pieces:
  assumes "braceless key" "list_all piece_ok ps"
  shows "ReplaceAll (rendered ps) (hole key) v = rendered (map (fill_one key v) ps)"
  using assms(2)
proof (induction ps)
  case Nil
  then show ?case by (simp add: rendered_def ReplaceAll.simps [of "[]"] hole_def)
next
  case (Cons p ps)
  have IH: "ReplaceAll (rendered ps) (hole key) v = rendered (map (fill_one key v) ps)" using Cons by simp
  show ?case
  proof (cases p)
    case (Literal s)
    with Cons.prems IH ReplaceAll_skip [of s "rendered ps" key v] show ?thesis by (simp add: rendered_def braceless_def)
  next
    case (Hole k)
    with Cons.prems have k: "braceless k" by simp
    have r: "rendered (p # ps) = hole k @ rendered ps" by (simp add: rendered_def Hole)
    show ?thesis
    proof (cases "k = key")
      case True
      have "ReplaceAll (hole key @ rendered ps) (hole key) v = v @ ReplaceAll (rendered ps) (hole key) v"
        by (subst ReplaceAll.simps) (simp add: hole_def)
      with True Hole IH show ?thesis by (simp add: rendered_def)
    next
      case False
      with hole_prefix [OF assms(1) k] have "\<not> prefix (hole key) (hole k @ rendered ps)" by simp
      then have "ReplaceAll (hole k @ rendered ps) (hole key) v = CHR ''{'' # ReplaceAll ((k @ ''}'') @ rendered ps) (hole key) v"
        by (subst ReplaceAll.simps) (simp add: hole_def)
      also have "\<dots> = hole k @ ReplaceAll (rendered ps) (hole key) v"
        using k by (subst ReplaceAll_skip) (auto simp: braceless_def hole_def)
      finally show ?thesis using r False Hole IH by (simp add: rendered_def)
    qed
  qed
qed

lemma fill_all:
  assumes "list_all (\<lambda>k. braceless k \<and> map_of vars k \<noteq> None) keys" "list_all piece_ok ps"
    "\<forall>v\<in>ran (map_of vars). braceless v"
  shows "fold (\<lambda>key out. ReplaceAll out (hole key) (var vars key)) keys (rendered ps) =
    rendered (map (\<lambda>p. case p of Literal s \<Rightarrow> p | Hole k \<Rightarrow> if k \<in> set keys then Literal (var vars k) else p) ps)"
  using assms(1,2)
proof (induction keys arbitrary: ps)
  case Nil
  have "(\<lambda>p. case p of Literal s \<Rightarrow> p | Hole k \<Rightarrow> if k \<in> set [] then Literal (var vars k) else p) = id"
    by (auto split: piece.splits)
  then show ?case by (simp only: fold_simps list.map_id)
next
  case (Cons key keys)
  have "braceless (var vars key)" using Cons.prems(1) assms(3) by (auto simp: var_def ran_def split: option.splits)
  then have "list_all piece_ok (map (fill_one key (var vars key)) ps)"
    using Cons.prems(2) by (auto simp: list_all_iff elim!: piece_ok.elims)
  moreover have "(\<lambda>p. case fill_one key (var vars key) p of
        Literal s \<Rightarrow> fill_one key (var vars key) p
      | Hole k \<Rightarrow> if k \<in> set keys then Literal (var vars k) else fill_one key (var vars key) p) =
      (\<lambda>p. case p of Literal s \<Rightarrow> p | Hole k \<Rightarrow> if k \<in> set (key # keys) then Literal (var vars k) else p)"
    by (auto split: piece.splits)
  ultimately show ?case using Cons by (simp add: ReplaceAll_pieces comp_def)
qed

text \<open>
  C39: Formatting a message replaces each placeholder that has a value by that value, all at once, and
  leaves the other placeholders and the text as they are, provided that neither names nor values contain
  braces and no name has spaces around it.\<close>

theorem Format_pieces:
  assumes "list_all piece_ok ps"
    and "\<forall>(k, v)\<in>set vars. braceless k \<and> braceless v \<and> TrimSpace k = k \<and> k \<noteq> []"
  shows "Format (rendered ps) vars = rendered (map (fill_piece vars) ps)"
proof (cases "vars = [] \<or> \<not> Contains (rendered ps) ''{''")
  case True
  have "fill_piece vars p = p" if p: "p \<in> set ps" for p
  proof (cases p)
    case (Hole k)
    have "vars = []" using True p Hole unfolding Contains_char by (force simp: rendered_def hole_def)
    then show ?thesis by (simp add: Hole)
  qed simp
  then have "map (fill_piece vars) ps = ps" by (simp add: map_idI)
  with True show ?thesis by (simp add: Format_def)
next
  case False
  have keys: "set (sorted_keys vars) = dom (map_of vars)"
    using assms(2) by (force simp: sorted_keys_def dom_map_of_conv_image_fst)
  have "list_all (\<lambda>k. braceless k \<and> map_of vars k \<noteq> None) (sorted_keys vars)"
    unfolding list_all_iff keys using assms(2) by (auto dest: map_of_SomeD)
  moreover have "\<forall>v\<in>ran (map_of vars). braceless v" using assms(2) by (auto simp: ran_def dest: map_of_SomeD)
  ultimately have "Format (rendered ps) vars =
      rendered (map (\<lambda>p. case p of Literal s \<Rightarrow> p | Hole k \<Rightarrow> if k \<in> set (sorted_keys vars) then Literal (var vars k) else p) ps)"
    using False assms(1) by (simp add: Format_def fill_all)
  moreover have "(case p of Literal s \<Rightarrow> p | Hole k \<Rightarrow> if k \<in> set (sorted_keys vars) then Literal (var vars k) else p) = fill_piece vars p" for p
    unfolding keys by (cases p) (auto simp: var_def split: option.splits)
  ultimately show ?thesis by simp
qed

theorem Format_pieces_witness:
  "Format ''{n} of {total} in {x}'' [(''total'', ''9''), (''n'', ''3'')] = ''3 of 9 in {x}''"
proof -
  let ?ps = "[Hole ''n'', Literal '' of '', Hole ''total'', Literal '' in '', Hole ''x'']"
  and ?vars = "[(''total'', ''9''), (''n'', ''3'')]"
  have "list_all piece_ok ?ps" "\<forall>(k, v)\<in>set ?vars. braceless k \<and> braceless v \<and> TrimSpace k = k \<and> k \<noteq> []" by code_simp+
  from Format_pieces [OF this] show ?thesis by (simp add: rendered_def hole_def)
qed

text \<open>
  Without that proviso a value is read again: the placeholder inside the value of \<open>aa\<close> is replaced too,
  and a name with a space around it deletes its placeholder.
\<close>

lemma Format_reads_values:
  "Format ''{aa} {b}'' [(''aa'', ''{b}''), (''b'', ''x'')] = ''x x''" "Format ''{a}!'' [('' a'', ''1'')] = ''!''"
  by code_simp+

section \<open>What a report without gaps means\<close>

lemma TrimSpace_Nil: "TrimSpace [] = []"
  by code_simp

definition keys_ok :: "(string \<times> Catalog) list \<Rightarrow> bool" where
  "keys_ok cs \<longleftrightarrow> list_all (\<lambda>k. TrimSpace k = k \<and> k \<noteq> []) (map fst cs) \<and> distinct (map fst cs)"

lemma keys_ok_put:
  assumes "keys_ok out" "TrimSpace key = key" "key \<noteq> []"
  shows "keys_ok ((key, c) # filter (\<lambda>(k, _). k \<noteq> key) out)"
  using assms by (auto simp: keys_ok_def list_all_iff intro!: distinct_map_filter)

lemma bundle_keys: "keys_ok out \<Longrightarrow> keys_ok (bundle_loop cs out)"
proof (induction cs out rule: bundle_loop.induct)
  case (2 loc catalog catalogs out)
  define key where "key = (if TrimSpace loc = [] then TrimSpace (c_Locale catalog) else TrimSpace loc)"
  have step: "bundle_loop ((loc, catalog) # catalogs) out = (if key = [] then bundle_loop catalogs out
      else bundle_loop catalogs ((key, NewCatalog key (c_Messages catalog)) # filter (\<lambda>(k, _). k \<noteq> key) out))"
    by (simp add: key_def Let_def)
  show ?case
  proof (cases "key = []")
    case True
    with 2(1) [OF refl key_def] 2(3) step show ?thesis by simp
  next
    case False
    have "TrimSpace key = key" by (simp add: key_def)
    from 2(2) [OF refl key_def False keys_ok_put [OF 2(3) this False]] False step show ?thesis by simp
  qed
qed simp

lemma catalogs_good:
  assumes "distinct (map fst cs)"
  shows "(\<forall>l\<in>fst ` set cs \<union> (if dl = [] then {} else {dl}). \<exists>c. (l, c) \<in> set cs \<and> good c) \<longleftrightarrow>
     (dl \<noteq> [] \<longrightarrow> dl \<in> fst ` set cs) \<and> (\<forall>(l, c)\<in>set cs. good c)" (is "?l \<longleftrightarrow> ?r")
proof
  assume ?l
  have "good c" if "(l, c) \<in> set cs" for l c
  proof -
    have "l \<in> fst ` set cs" using that by (rule image_eqI [rotated]) simp
    with \<open>?l\<close> obtain c' where "(l, c') \<in> set cs" "good c'" by blast
    with eq_key_imp_eq_value [OF assms that this(1)] show ?thesis by simp
  qed
  moreover have "dl \<in> fst ` set cs" if "dl \<noteq> []"
  proof -
    from \<open>?l\<close> that obtain c where "(dl, c) \<in> set cs" by auto
    then show ?thesis by (rule image_eqI [rotated]) simp
  qed
  ultimately show ?r by blast
next
  assume r: ?r
  show ?l
  proof
    fix l assume "l \<in> fst ` set cs \<union> (if dl = [] then {} else {dl})"
    with r have "l \<in> fst ` set cs" by (auto split: if_splits)
    then obtain c where "(l, c) \<in> set cs" by auto
    with r show "\<exists>c. (l, c) \<in> set cs \<and> good c" by blast
  qed
qed

text \<open>
  C24: The report of a bundle has no gap exactly when its default locale, if it has one, is among the
  catalogs, every catalog has the required keys and no others, and a bundle without catalogs was asked
  for no key.\<close>

theorem Check_complete:
  "OK (Check (NewBundle d catalogs) required) \<longleftrightarrow>
     (let bundle = NewBundle d catalogs
      in (b_DefaultLocale bundle \<noteq> [] \<longrightarrow> b_DefaultLocale bundle \<in> fst ` set (b_Catalogs bundle)) \<and>
         (\<forall>(locale, catalog)\<in>set (b_Catalogs bundle). fst ` set (c_Messages catalog) = mr_Key ` set required) \<and>
         (b_Catalogs bundle = [] \<longrightarrow> required = []))"
proof -
  let ?b = "NewBundle d catalogs" and ?refs = "sortedReferences required"
  let ?cs = "b_Catalogs ?b" and ?dl = "b_DefaultLocale ?b"
  have "keys_ok ?cs" using bundle_keys [of "[]" catalogs] by (simp add: NewBundle_def keys_ok_def)
  then have cs: "\<forall>(k, c)\<in>set ?cs. TrimSpace k = k \<and> k \<noteq> []" "distinct (map fst ?cs)"
    by (auto simp: keys_ok_def list_all_iff)
  have dl: "TrimSpace ?dl = ?dl" by (simp add: NewBundle_def)
  have refs: "set ?refs = set required" by (simp add: sortedReferences_def)
  have fine: "\<not> cr_MissingCatalog (check_locale ?b ?refs l) \<and> cr_Missing (check_locale ?b ?refs l) = [] \<and>
      cr_Unused (check_locale ?b ?refs l) = [] \<longleftrightarrow>
      (\<exists>c. (l, c) \<in> set ?cs \<and> fst ` set (c_Messages c) = mr_Key ` set required)" (is "?ok l \<longleftrightarrow> _") for l
  proof (cases "map_of ?cs l")
    case None
    then have "(l, c) \<notin> set ?cs" for c by (force simp: map_of_eq_None_iff)
    with None show ?thesis by (simp add: check_locale_def)
  next
    case (Some c)
    then have c: "(l, c') \<in> set ?cs \<longleftrightarrow> c' = c" for c' using cs(2) by (metis map_of_eq_Some_iff option.inject)
    have "fst ` set (c_Messages c) = mr_Key ` set required \<longleftrightarrow>
        (\<forall>ref\<in>set required. Message c (mr_Key ref) \<noteq> None) \<and> (\<forall>key\<in>set (map fst (c_Messages c)). key \<in> mr_Key ` set required)"
      by (auto simp: Message_def map_of_eq_None_iff image_subset_iff)
    then show ?thesis using Some by (simp add: check_locale_def c refs filter_empty_conv)
  qed
  have locales: "set (check_locales ?b ?refs) =
      (if ?cs = [] \<and> ?dl = [] then (if required = [] then {} else {[]}) else fst ` set ?cs \<union> (if ?dl = [] then {} else {?dl}))"
  proof -
    have "filter (\<lambda>locale. TrimSpace locale \<noteq> []) (map fst ?cs) = map fst ?cs"
      by (rule filter_True) (use cs(1) in fastforce)
    moreover have "(?refs = []) = (required = [])" using refs by (metis set_empty)
    ultimately show ?thesis by (auto simp: check_locales_def sortedCatalogLocales_def dl Let_def)
  qed
  have none: "\<not> (\<exists>c. ([], c) \<in> set ?cs)" using cs(1) by auto
  have "OK (Check ?b required) \<longleftrightarrow> (\<forall>l\<in>set (check_locales ?b ?refs). ?ok l)"
    by (auto simp: OK_def Check_def Let_def list_all_iff)
  also have "\<dots> \<longleftrightarrow> (?dl \<noteq> [] \<longrightarrow> ?dl \<in> fst ` set ?cs) \<and>
      (\<forall>(locale, catalog)\<in>set ?cs. fst ` set (c_Messages catalog) = mr_Key ` set required) \<and> (?cs = [] \<longrightarrow> required = [])"
  proof (cases "?cs = [] \<and> ?dl = []")
    case True
    then have "set (check_locales ?b ?refs) = (if required = [] then {} else {[]})" unfolding locales by (rule if_P)
    with True none show ?thesis unfolding fine by (cases "required = []") simp_all
  next
    case False
    have "set (check_locales ?b ?refs) = fst ` set ?cs \<union> (if ?dl = [] then {} else {?dl})" unfolding locales using False by (rule if_not_P)
    then have "(\<forall>l\<in>set (check_locales ?b ?refs). ?ok l) \<longleftrightarrow> (?dl \<noteq> [] \<longrightarrow> ?dl \<in> fst ` set ?cs) \<and>
        (\<forall>(locale, catalog)\<in>set ?cs. fst ` set (c_Messages catalog) = mr_Key ` set required)"
      unfolding fine by (simp only: catalogs_good [OF cs(2)])
    moreover have "?dl \<in> fst ` set ?cs \<Longrightarrow> ?cs \<noteq> []" by (metis empty_iff image_empty list.set(1))
    ultimately show ?thesis using False by blast
  qed
  finally show ?thesis by (simp add: Let_def)
qed

theorem Check_complete_witness:
  "let bundle = NewBundle '' en '' [(''en'', NewCatalog ''en'' [(''title'', ''Title'')])];
       ref = \<lparr>mr_Key = ''title'', mr_Source = [], mr_Line = 1, mr_Column = 2\<rparr>
   in OK (Check bundle [ref]) \<and> b_DefaultLocale bundle = ''en'' \<and> \<not> OK (Check bundle [])"
proof -
  let ?cs = "[(''en'', NewCatalog ''en'' [(''title'', ''Title'')])]"
  let ?bn = "NewBundle '' en '' ?cs" and ?ref = "\<lparr>mr_Key = ''title'', mr_Source = [], mr_Line = 1, mr_Column = 2\<rparr>"
  have b: "b_DefaultLocale ?bn = ''en''" "b_Catalogs ?bn = ?cs" by code_simp+
  have "OK (Check ?bn [?ref])" "\<not> OK (Check ?bn [])"
    using Check_complete [of "'' en ''" ?cs "[?ref]"] Check_complete [of "'' en ''" ?cs "[]"]
    by (simp_all only: b Let_def) (simp_all add: NewCatalog_def)
  with b show ?thesis by (simp add: Let_def)
qed

end
