(* ===== verification/Response.thy ===== *)
theory Response
  imports Http I18n
begin

text \<open>
  \<open>runtime/response/response.go\<close>: the envelope that handlers answer with, the errors they fail with, and
  how both are written. The JSON encoder and the printing of a cookie are parameters. A write to the
  connection succeeds, and the header of the writer is the one the handler sees.
\<close>

section \<open>net/http\<close>

definition status_texts :: "(int \<times> string) list" where
  "status_texts =
     [(100, ''Continue''), (101, ''Switching Protocols''), (102, ''Processing''), (103, ''Early Hints''),
      (200, ''OK''), (201, ''Created''), (202, ''Accepted''), (203, ''Non-Authoritative Information''),
      (204, ''No Content''), (205, ''Reset Content''), (206, ''Partial Content''), (207, ''Multi-Status''),
      (208, ''Already Reported''), (226, ''IM Used''),
      (300, ''Multiple Choices''), (301, ''Moved Permanently''), (302, ''Found''), (303, ''See Other''),
      (304, ''Not Modified''), (305, ''Use Proxy''), (307, ''Temporary Redirect''), (308, ''Permanent Redirect''),
      (400, ''Bad Request''), (401, ''Unauthorized''), (402, ''Payment Required''), (403, ''Forbidden''),
      (404, ''Not Found''), (405, ''Method Not Allowed''), (406, ''Not Acceptable''),
      (407, ''Proxy Authentication Required''), (408, ''Request Timeout''), (409, ''Conflict''), (410, ''Gone''),
      (411, ''Length Required''), (412, ''Precondition Failed''), (413, ''Request Entity Too Large''),
      (414, ''Request URI Too Long''), (415, ''Unsupported Media Type''), (416, ''Requested Range Not Satisfiable''),
      (417, ''Expectation Failed''), (418, ''I'' @ [CHR 0x27] @ ''m a teapot''), (421, ''Misdirected Request''),
      (422, ''Unprocessable Entity''), (423, ''Locked''), (424, ''Failed Dependency''), (425, ''Too Early''),
      (426, ''Upgrade Required''), (428, ''Precondition Required''), (429, ''Too Many Requests''),
      (431, ''Request Header Fields Too Large''), (451, ''Unavailable For Legal Reasons''),
      (500, ''Internal Server Error''), (501, ''Not Implemented''), (502, ''Bad Gateway''),
      (503, ''Service Unavailable''), (504, ''Gateway Timeout''), (505, ''HTTP Version Not Supported''),
      (506, ''Variant Also Negotiates''), (507, ''Insufficient Storage''), (508, ''Loop Detected''),
      (510, ''Not Extended''), (511, ''Network Authentication Required'')]"

definition StatusText :: "int \<Rightarrow> string" where
  "StatusText code = (case map_of status_texts code of Some text \<Rightarrow> text | None \<Rightarrow> [])"

text \<open>\<open>html.EscapeString\<close>.\<close>

definition EscapeString :: "string \<Rightarrow> string" where
  "EscapeString s = concat (map (\<lambda>c.
     if c = CHR ''<'' then ''&lt;'' else if c = CHR ''>'' then ''&gt;'' else if c = CHR ''&'' then ''&amp;''
     else if c = CHR 0x27 then ''&#39;'' else if c = CHR 0x22 then ''&#34;'' else [c]) s)"

section \<open>Errors of handlers\<close>

datatype ErrorKind = ErrorNotFound | ErrorForbidden | ErrorValidation | ErrorServer | OtherErrorKind string

text \<open>
  An error value with the errors it unwraps to. \<open>CodedError\<close> and \<open>ExpectedError\<close> embed a \<open>HandlerError\<close> and
  unwrap to it; \<open>OtherError\<close> is every error of another type, with its text.
\<close>

datatype gerror =
  OtherError string "gerror list"
| MaxBytesError
| HandlerError int string "gerror option"
| CodedError int string "gerror option" string vars
| ExpectedError ErrorKind int string "gerror option" string vars

definition expectedErrorStatus :: "ErrorKind \<Rightarrow> int" where
  "expectedErrorStatus kind =
     (case kind of
        ErrorNotFound \<Rightarrow> 404 | ErrorForbidden \<Rightarrow> 403 | ErrorValidation \<Rightarrow> 422 | ErrorServer \<Rightarrow> 500
      | OtherErrorKind _ \<Rightarrow> 500)"

definition kind_name :: "ErrorKind \<Rightarrow> string" where
  "kind_name kind =
     (case kind of
        ErrorNotFound \<Rightarrow> ''not_found'' | ErrorForbidden \<Rightarrow> ''forbidden'' | ErrorValidation \<Rightarrow> ''validation''
      | ErrorServer \<Rightarrow> ''server'' | OtherErrorKind name \<Rightarrow> name)"

definition normalizedErrorCode :: "string \<Rightarrow> string" where
  "normalizedErrorCode code = (let code = TrimSpace code in if code = [] then ''request_failed'' else code)"

definition NewCodedHandlerError :: "int \<Rightarrow> string \<Rightarrow> string \<Rightarrow> vars \<Rightarrow> gerror option \<Rightarrow> gerror" where
  "NewCodedHandlerError status code message vs cause = CodedError status message cause (normalizedErrorCode code) vs"

definition NewHandlerError :: "int \<Rightarrow> string \<Rightarrow> gerror option \<Rightarrow> gerror" where
  "NewHandlerError status message cause = NewCodedHandlerError status ''handler_error'' message [] cause"

definition NewExpectedError :: "ErrorKind \<Rightarrow> string \<Rightarrow> gerror option \<Rightarrow> gerror" where
  "NewExpectedError kind message cause =
     (let status = expectedErrorStatus kind;
          message = (if message = [] then StatusText status else message)
      in ExpectedError kind status message cause (kind_name kind) [])"

definition NewExpectedCode :: "ErrorKind \<Rightarrow> string \<Rightarrow> string \<Rightarrow> vars \<Rightarrow> gerror option \<Rightarrow> gerror" where
  "NewExpectedCode kind code message vs cause =
     (let status = expectedErrorStatus kind;
          message = (if message = [] then StatusText status else message)
      in ExpectedError kind status message cause (normalizedErrorCode code) vs)"

definition NotFound :: "string \<Rightarrow> gerror option \<Rightarrow> gerror" where
  "NotFound = NewExpectedError ErrorNotFound"

definition Forbidden :: "string \<Rightarrow> gerror option \<Rightarrow> gerror" where
  "Forbidden = NewExpectedError ErrorForbidden"

definition ValidationFailed :: "string \<Rightarrow> gerror option \<Rightarrow> gerror" where
  "ValidationFailed = NewExpectedError ErrorValidation"

definition ServerError :: "string \<Rightarrow> gerror option \<Rightarrow> gerror" where
  "ServerError = NewExpectedError ErrorServer"

text \<open>The text of an error.\<close>

definition handler_text :: "int \<Rightarrow> string \<Rightarrow> string option \<Rightarrow> string" where
  "handler_text status message cause =
     (if message \<noteq> [] then message
      else (case cause of
              Some text \<Rightarrow> text
            | None \<Rightarrow> if status \<noteq> 0 then ''handler failed with status '' @ Itoa status else ''handler failed''))"

fun Error :: "gerror \<Rightarrow> string" where
  "Error (OtherError text wrapped) = text"
| "Error MaxBytesError = ''http: request body too large''"
| "Error (HandlerError status message cause) = handler_text status message (map_option Error cause)"
| "Error (CodedError status message cause code vs) = handler_text status message (map_option Error cause)"
| "Error (ExpectedError kind status message cause code vs) = handler_text status message (map_option Error cause)"

text \<open>\<open>errors.As\<close> goes through an error and what it wraps, depth first.\<close>

fun first_some :: "'a option list \<Rightarrow> 'a option" where
  "first_some [] = None"
| "first_some (x # xs) = (case x of Some y \<Rightarrow> Some y | None \<Rightarrow> first_some xs)"

text \<open>The \<open>HandlerError\<close> that is found: its status and its message.\<close>

fun as_handler :: "gerror \<Rightarrow> (int \<times> string) option" where
  "as_handler (OtherError text wrapped) = first_some (map as_handler wrapped)"
| "as_handler MaxBytesError = None"
| "as_handler (HandlerError status message cause) = Some (status, message)"
| "as_handler (CodedError status message cause code vs) = Some (status, message)"
| "as_handler (ExpectedError kind status message cause code vs) = Some (status, message)"

fun IsRequestBodyTooLarge :: "gerror \<Rightarrow> bool" where
  "IsRequestBodyTooLarge (OtherError text wrapped) = list_ex IsRequestBodyTooLarge wrapped"
| "IsRequestBodyTooLarge MaxBytesError = True"
| "IsRequestBodyTooLarge (HandlerError status message cause) = (case cause of Some e \<Rightarrow> IsRequestBodyTooLarge e | None \<Rightarrow> False)"
| "IsRequestBodyTooLarge (CodedError status message cause code vs) = (case cause of Some e \<Rightarrow> IsRequestBodyTooLarge e | None \<Rightarrow> False)"
| "IsRequestBodyTooLarge (ExpectedError kind status message cause code vs) = (case cause of Some e \<Rightarrow> IsRequestBodyTooLarge e | None \<Rightarrow> False)"

text \<open>The first error of the chain that has a user message.\<close>

fun as_coded :: "gerror \<Rightarrow> UserMessage option" where
  "as_coded (OtherError text wrapped) = first_some (map as_coded wrapped)"
| "as_coded MaxBytesError = None"
| "as_coded (HandlerError status message cause) = (case cause of Some e \<Rightarrow> as_coded e | None \<Rightarrow> None)"
| "as_coded (CodedError status message cause code vs) = Some \<lparr>um_Code = code, um_Default = message, um_Vars = vs\<rparr>"
| "as_coded (ExpectedError kind status message cause code vs) = Some \<lparr>um_Code = code, um_Default = message, um_Vars = vs\<rparr>"

definition HandlerStatus :: "gerror \<Rightarrow> int \<Rightarrow> int" where
  "HandlerStatus err fallback =
     (case as_handler err of
        Some (status, _) \<Rightarrow>
          if status \<noteq> 0 then status else if IsRequestBodyTooLarge err then 413 else fallback
      | None \<Rightarrow> if IsRequestBodyTooLarge err then 413 else fallback)"

text \<open>The text for the client: a message an application wrote, or none of the internals for a 5xx status.\<close>

definition HandlerErrorMessage :: "gerror option \<Rightarrow> int \<Rightarrow> string" where
  "HandlerErrorMessage err status =
     (let message = (case Option.bind err as_handler of Some (_, message) \<Rightarrow> message | None \<Rightarrow> [])
      in if TrimSpace message \<noteq> [] then message
         else if status \<ge> 500 then (if StatusText status \<noteq> [] then StatusText status else StatusText 500)
         else (case err of
                 Some e \<Rightarrow> Error e
               | None \<Rightarrow> if StatusText status \<noteq> [] then StatusText status else ''request failed''))"

definition HandlerUserMessage :: "gerror option \<Rightarrow> int \<Rightarrow> UserMessage" where
  "HandlerUserMessage err status =
     (let message = HandlerErrorMessage err status
      in case Option.bind err as_coded of
           Some coded \<Rightarrow> coded\<lparr>um_Default := message\<rparr>
         | None \<Rightarrow> \<lparr>um_Code = ''request_failed'', um_Default = message, um_Vars = []\<rparr>)"

definition LocalizedHandlerErrorMessage :: "gerror option \<Rightarrow> int \<Rightarrow> Bundle \<Rightarrow> string \<Rightarrow> string" where
  "LocalizedHandlerErrorMessage err status bn loc = Resolve bn loc (HandlerUserMessage err status)"

section \<open>Responses\<close>

datatype Kind = HTML | Redirect | Fragment | JSON | Reload | OtherKind string

datatype SwapMode = SwapInnerHTML | SwapOuterHTML | OtherSwap string

definition swap_name :: "SwapMode \<Rightarrow> string" where
  "swap_name swap = (case swap of SwapInnerHTML \<Rightarrow> ''innerHTML'' | SwapOuterHTML \<Rightarrow> ''outerHTML'' | OtherSwap name \<Rightarrow> name)"

record 'c Response =
  rp_Kind :: Kind
  rp_Status :: int
  rp_Body :: string
  rp_Target :: string
  rp_Swap :: SwapMode
  rp_URL :: string
  rp_Cookies :: "'c list"

definition response :: "Kind \<Rightarrow> int \<Rightarrow> string \<Rightarrow> 'c Response" where
  "response kind status body =
     \<lparr>rp_Kind = kind, rp_Status = status, rp_Body = body, rp_Target = [], rp_Swap = OtherSwap [], rp_URL = [], rp_Cookies = []\<rparr>"

definition HTMLBody :: "int \<Rightarrow> string \<Rightarrow> 'c Response" where
  "HTMLBody status body = response HTML status body"

definition RedirectTo :: "string \<Rightarrow> 'c Response" where
  "RedirectTo url = (response Redirect 303 [])\<lparr>rp_URL := url\<rparr>"

definition ReloadPage :: "'c Response" where
  "ReloadPage = response Reload 204 []"

definition WithCookie :: "'c Response \<Rightarrow> 'c \<Rightarrow> 'c Response" where
  "WithCookie result cookie = result\<lparr>rp_Cookies := rp_Cookies result @ [cookie]\<rparr>"

definition FragmentFor :: "string \<Rightarrow> string \<Rightarrow> 'c Response" where
  "FragmentFor target body = (response Fragment 200 body)\<lparr>rp_Target := target, rp_Swap := SwapInnerHTML\<rparr>"

definition validSwapMode :: "SwapMode \<Rightarrow> bool" where
  "validSwapMode swap = (case swap of OtherSwap _ \<Rightarrow> False | _ \<Rightarrow> True)"

text \<open>\<open>None\<close> is the error for an unsupported swap mode.\<close>

definition FragmentSwap :: "string \<Rightarrow> SwapMode \<Rightarrow> string \<Rightarrow> 'c Response option" where
  "FragmentSwap target swap body =
     (if \<not> validSwapMode swap then None
      else Some ((response Fragment 200 body)\<lparr>rp_Target := target, rp_Swap := swap\<rparr>))"

definition JSONBody :: "int \<Rightarrow> string \<Rightarrow> 'c Response" where
  "JSONBody status body = response JSON status body"

definition JSONValue :: "('v \<Rightarrow> string option) \<Rightarrow> int \<Rightarrow> 'v \<Rightarrow> 'c Response option" where
  "JSONValue Marshal status v = map_option (JSONBody status) (Marshal v)"

text \<open>Validation errors, and the block of messages they render to.\<close>

record validation_error =
  ve_Field :: string
  ve_Code :: string
  ve_Message :: string
  ve_Vars :: vars

definition validation_item :: "validation_error \<Rightarrow> string" where
  "validation_item err =
     ''<li'' @
     (if ve_Field err \<noteq> [] then '' data-gowdk-field='' @ [CHR 0x22] @ EscapeString (ve_Field err) @ [CHR 0x22] else []) @
     ''>'' @ EscapeString (ve_Message err) @ ''</li>''"

definition ValidationHTML :: "validation_error list \<Rightarrow> string" where
  "ValidationHTML errors =
     ''<div data-gowdk-validation role='' @ [CHR 0x22] @ ''alert'' @ [CHR 0x22] @ '' aria-live='' @ [CHR 0x22] @ ''polite'' @ [CHR 0x22] @ ''>'' @
     (if errors \<noteq> [] then ''<ul>'' @ concat (map validation_item errors) @ ''</ul>'' else []) @ ''</div>''"

definition ValidationFragment :: "string \<Rightarrow> validation_error list \<Rightarrow> 'c Response" where
  "ValidationFragment target errors = FragmentFor target (ValidationHTML errors)"

definition LocalizeValidation :: "validation_error list \<Rightarrow> Bundle \<Rightarrow> string \<Rightarrow> validation_error list" where
  "LocalizeValidation errors bn loc =
     map (\<lambda>item. item\<lparr>ve_Message :=
       Resolve bn loc \<lparr>um_Code = ve_Code item, um_Default = ve_Message item, um_Vars = ve_Vars item\<rparr>\<rparr>) errors"

definition LocalizedValidationFragment :: "string \<Rightarrow> validation_error list \<Rightarrow> Bundle \<Rightarrow> string \<Rightarrow> 'c Response" where
  "LocalizedValidationFragment target errors bn loc = ValidationFragment target (LocalizeValidation errors bn loc)"

section \<open>Redirects\<close>

datatype redirect_error = NotLocalAbsolute | ProtocolRelative | HasBackslash | HasNewline

definition ValidateLocalRedirect :: "string \<Rightarrow> redirect_error option" where
  "ValidateLocalRedirect url =
     (if url = [] \<or> hd url \<noteq> CHR ''/'' then Some NotLocalAbsolute
      else if length url > 1 \<and> (url ! 1 = CHR ''/'' \<or> url ! 1 = CHR 0x5C) then Some ProtocolRelative
      else if Contains url [CHR 0x5C] then Some HasBackslash
      else if ContainsAny url [CHR 0x0D, CHR 0x0A] then Some HasNewline
      else None)"

section \<open>Writing\<close>

definition statusAllowsBody :: "int \<Rightarrow> bool" where
  "statusAllowsBody status \<longleftrightarrow> status \<ge> 200 \<and> status \<noteq> 204 \<and> status \<noteq> 304"

definition statusOrDefault :: "'c Response \<Rightarrow> int" where
  "statusOrDefault result =
     (if rp_Status result \<noteq> 0 then rp_Status result else if rp_Kind result = Redirect then 303 else 200)"

definition writeBody :: "int \<Rightarrow> string \<Rightarrow> writer \<Rightarrow> writer" where
  "writeBody status body w =
     (let w1 = WriteHeader status w in if \<not> statusAllowsBody status then w1 else write_body body w1)"

text \<open>\<open>http.SetCookie\<close>: a cookie that cannot be printed is not sent.\<close>

definition SetCookie :: "('c \<Rightarrow> string) \<Rightarrow> 'c \<Rightarrow> writer \<Rightarrow> writer" where
  "SetCookie print cookie w =
     (let v = print cookie in if v = [] then w else w\<lparr>w_header := header_Add (w_header w) ''Set-Cookie'' v\<rparr>)"

definition content_type :: "string \<Rightarrow> int \<Rightarrow> writer \<Rightarrow> writer" where
  "content_type v status w = (if statusAllowsBody status then set_header ''Content-Type'' v w else w)"

definition WriteHTTP :: "('c \<Rightarrow> string) \<Rightarrow> 'c Response \<Rightarrow> writer \<Rightarrow> writer \<times> redirect_error option" where
  "WriteHTTP print result w =
     (let status = statusOrDefault result;
          bad = (if rp_Kind result = Redirect then ValidateLocalRedirect (rp_URL result) else None)
      in case bad of
           Some err \<Rightarrow> (http_Error (StatusText 500) 500 w, Some err)
         | None \<Rightarrow>
             let w1 = fold (SetCookie print) (rp_Cookies result) w
             in (case rp_Kind result of
                   Redirect \<Rightarrow> WriteHeader status (set_header ''Location'' (rp_URL result) w1)
                 | Reload \<Rightarrow> WriteHeader status (set_header ''X-GOWDK-Reload'' ''1'' w1)
                 | Fragment \<Rightarrow>
                     let w2 = content_type ''text/html; charset=utf-8'' status w1;
                         w3 = (if rp_Target result \<noteq> [] then set_header ''X-GOWDK-Fragment-Target'' (rp_Target result) w2 else w2);
                         w4 = (if swap_name (rp_Swap result) \<noteq> []
                               then set_header ''X-GOWDK-Fragment-Swap'' (swap_name (rp_Swap result)) w3 else w3)
                     in writeBody status (rp_Body result) w4
                 | JSON \<Rightarrow> writeBody status (rp_Body result) (content_type ''application/json; charset=utf-8'' status w1)
                 | _ \<Rightarrow> writeBody status (rp_Body result) (content_type ''text/html; charset=utf-8'' status w1), None))"

definition no_store :: "writer \<Rightarrow> writer" where
  "no_store = set_header ''Cache-Control'' ''no-store''"

definition WriteNoStoreHTTP :: "('c \<Rightarrow> string) \<Rightarrow> 'c Response \<Rightarrow> writer \<Rightarrow> writer \<times> redirect_error option" where
  "WriteNoStoreHTTP print result w = WriteHTTP print result (no_store w)"

definition WriteHTML :: "string \<Rightarrow> string \<Rightarrow> string \<Rightarrow> writer \<Rightarrow> writer" where
  "WriteHTML verb body cacheControl w =
     (let w1 = set_header ''Content-Type'' ''text/html; charset=utf-8'' w;
          existing = TrimSpace (header_Get (w_header w1) ''Cache-Control'');
          cache = (if ToLower existing = ''no-store'' then existing else TrimSpace cacheControl);
          cache = (if cache = [] then ''no-store'' else cache);
          w2 = WriteHeader 200 (set_header ''Cache-Control'' cache w1)
      in if verb = ''HEAD'' then w2 else write_body body w2)"

definition WriteNoStoreHTML :: "string \<Rightarrow> string \<Rightarrow> writer \<Rightarrow> writer" where
  "WriteNoStoreHTML verb body w = WriteHTML verb body ''no-store'' w"

definition WriteNoStoreUserError :: "int \<Rightarrow> string \<Rightarrow> string \<Rightarrow> writer \<Rightarrow> writer" where
  "WriteNoStoreUserError status code message w =
     http_Error message status (set_header ''X-GOWDK-Error-Code'' (normalizedErrorCode code) (no_store w))"

definition WriteNoStoreError :: "int \<Rightarrow> string \<Rightarrow> writer \<Rightarrow> writer" where
  "WriteNoStoreError status message w = WriteNoStoreUserError status ''request_failed'' message w"

text \<open>The encoder of the JSON error object gets the code and the message.\<close>

definition WriteNoStoreJSONUserError :: "(string \<times> string \<Rightarrow> string option) \<Rightarrow> int \<Rightarrow> string \<Rightarrow> string \<Rightarrow> writer \<Rightarrow> writer" where
  "WriteNoStoreJSONUserError Marshal status code message w =
     (let w1 = no_store w
      in case JSONValue Marshal status (normalizedErrorCode code, message) of
           None \<Rightarrow> WriteNoStoreError 500 (StatusText 500) w1
         | Some result \<Rightarrow> fst (WriteHTTP (\<lambda>_ :: unit. []) result w1))"

definition WriteNoStoreJSONError :: "(string \<times> string \<Rightarrow> string option) \<Rightarrow> int \<Rightarrow> string \<Rightarrow> writer \<Rightarrow> writer" where
  "WriteNoStoreJSONError Marshal status message w = WriteNoStoreJSONUserError Marshal status ''request_failed'' message w"

definition WriteNoStoreLocalizedUserError :: "int \<Rightarrow> string \<Rightarrow> string \<Rightarrow> vars \<Rightarrow> Bundle \<Rightarrow> string \<Rightarrow> writer \<Rightarrow> writer" where
  "WriteNoStoreLocalizedUserError status code message vs bn loc w =
     WriteNoStoreUserError status code
       (Resolve bn loc \<lparr>um_Code = normalizedErrorCode code, um_Default = message, um_Vars = vs\<rparr>) w"

definition WriteNoStoreLocalizedJSONUserError ::
  "(string \<times> string \<Rightarrow> string option) \<Rightarrow> int \<Rightarrow> string \<Rightarrow> string \<Rightarrow> vars \<Rightarrow> Bundle \<Rightarrow> string \<Rightarrow> writer \<Rightarrow> writer" where
  "WriteNoStoreLocalizedJSONUserError Marshal status code message vs bn loc w =
     WriteNoStoreJSONUserError Marshal status code
       (Resolve bn loc \<lparr>um_Code = normalizedErrorCode code, um_Default = message, um_Vars = vs\<rparr>) w"

definition WriteNoStoreHandlerError :: "gerror \<Rightarrow> int \<Rightarrow> writer \<Rightarrow> writer" where
  "WriteNoStoreHandlerError err fallback w =
     (let status = HandlerStatus err fallback in WriteNoStoreError status (HandlerErrorMessage (Some err) status) w)"

definition WriteNoStoreHandlerJSONError :: "(string \<times> string \<Rightarrow> string option) \<Rightarrow> gerror \<Rightarrow> int \<Rightarrow> writer \<Rightarrow> writer" where
  "WriteNoStoreHandlerJSONError Marshal err fallback w =
     (let status = HandlerStatus err fallback; message = HandlerUserMessage (Some err) status
      in WriteNoStoreJSONUserError Marshal status (um_Code message) (um_Default message) w)"

definition WriteNoStoreLocalizedHandlerError :: "gerror \<Rightarrow> int \<Rightarrow> Bundle \<Rightarrow> string \<Rightarrow> writer \<Rightarrow> writer" where
  "WriteNoStoreLocalizedHandlerError err fallback bn loc w =
     (let status = HandlerStatus err fallback; message = HandlerUserMessage (Some err) status
      in WriteNoStoreUserError status (um_Code message) (Resolve bn loc message) w)"

definition WriteNoStoreLocalizedHandlerJSONError ::
  "(string \<times> string \<Rightarrow> string option) \<Rightarrow> gerror \<Rightarrow> int \<Rightarrow> Bundle \<Rightarrow> string \<Rightarrow> writer \<Rightarrow> writer" where
  "WriteNoStoreLocalizedHandlerJSONError Marshal err fallback bn loc w =
     (let status = HandlerStatus err fallback; message = HandlerUserMessage (Some err) status
      in WriteNoStoreJSONUserError Marshal status (um_Code message) (Resolve bn loc message) w)"

section \<open>What the client sees\<close>

text \<open>
  The header lines of a name. The canonical form of the names the package writes is computed once.
\<close>

lemma canonical_response_keys:
  "CanonicalMIMEHeaderKey ''Cache-Control'' = ''Cache-Control''" "CanonicalMIMEHeaderKey ''Location'' = ''Location''"
  "CanonicalMIMEHeaderKey ''Set-Cookie'' = ''Set-Cookie''" "CanonicalMIMEHeaderKey ''Content-Type'' = ''Content-Type''"
  "CanonicalMIMEHeaderKey ''Content-Length'' = ''Content-Length''"
  "CanonicalMIMEHeaderKey ''X-Content-Type-Options'' = ''X-Content-Type-Options''"
  "CanonicalMIMEHeaderKey ''X-GOWDK-Reload'' = ''X-Gowdk-Reload''"
  "CanonicalMIMEHeaderKey ''X-GOWDK-Fragment-Target'' = ''X-Gowdk-Fragment-Target''"
  "CanonicalMIMEHeaderKey ''X-GOWDK-Fragment-Swap'' = ''X-Gowdk-Fragment-Swap''"
  "CanonicalMIMEHeaderKey ''X-GOWDK-Error-Code'' = ''X-Gowdk-Error-Code''"
  by code_simp+

lemma header_writes [simp]:
  "w_header (WriteHeader status w) = w_header w" "w_header (write_body s w) = w_header w"
  "w_header (writeBody status s w) = w_header w"
  by (simp_all add: WriteHeader_def write_body_def writeBody_def Let_def split: option.splits)

lemma header_http_Error:
  "w_header (http_Error message status w) =
     (w_header w)(''Content-Length'' := [], ''Content-Type'' := [''text/plain; charset=utf-8''], ''X-Content-Type-Options'' := [''nosniff''])"
  by (simp add: http_Error_def Let_def header_Set_def canonical_response_keys header_Del_def)

lemma header_cookies: "k \<noteq> ''Set-Cookie'' \<Longrightarrow> w_header (fold (SetCookie print) cookies w) k = w_header w k"
  by (induction cookies arbitrary: w) (auto simp: SetCookie_def Let_def header_Add_def canonical_response_keys)

lemma header_content_type: "k \<noteq> ''Content-Type'' \<Longrightarrow> w_header (content_type v status w) k = w_header w k"
  by (simp add: content_type_def header_Set_def canonical_response_keys)

lemma header_no_store: "w_header (no_store w) = (w_header w)(''Cache-Control'' := [''no-store''])"
  by (simp add: no_store_def header_Set_def canonical_response_keys)

lemmas response_headers = header_Set_def header_http_Error header_content_type header_no_store canonical_response_keys

lemma WriteHTTP_header:
  assumes "k \<in> {''Cache-Control'', ''Location''}"
  shows "w_header (fst (WriteHTTP print result w)) k =
    (if k = ''Location'' \<and> rp_Kind result = Redirect \<and> ValidateLocalRedirect (rp_URL result) = None
     then [rp_URL result] else w_header w k)"
proof -
  have k: "k \<noteq> ''Set-Cookie''" "k \<noteq> ''Content-Type''" "k \<noteq> ''Content-Length''" "k \<noteq> ''X-Content-Type-Options''"
    "k \<noteq> ''X-Gowdk-Reload''" "k \<noteq> ''X-Gowdk-Fragment-Target''" "k \<noteq> ''X-Gowdk-Fragment-Swap''"
    using assms by auto
  note cookies = header_cookies [OF k(1)] and simps = WriteHTTP_def Let_def response_headers
  show ?thesis
  proof (cases "rp_Kind result = Redirect")
    case True
    then show ?thesis using k by (cases "ValidateLocalRedirect (rp_URL result)") (simp_all add: simps cookies)
  next
    case False
    then show ?thesis using k by (cases "rp_Kind result") (simp_all add: simps cookies)
  qed
qed

text \<open>
  C27: a response envelope that must not be cached says so, whatever it is, and sends the client only to a
  place \<open>ValidateLocalRedirect\<close> accepts; a rejected redirect becomes a 500 that sets no cookie.
\<close>

theorem WriteNoStoreHTTP_safe:
  assumes "w_header w ''Location'' = []" "w_status w = None"
    and "WriteNoStoreHTTP print result w = (w', err)"
  shows "w_header w' ''Cache-Control'' = [''no-store''] \<and>
    w_header w' ''Location'' = (if rp_Kind result = Redirect \<and> err = None then [rp_URL result] else []) \<and>
    err = (if rp_Kind result = Redirect then ValidateLocalRedirect (rp_URL result) else None) \<and>
    (if err = None then w_status w' = Some (statusOrDefault result)
     else w_status w' = Some 500 \<and> w_header w' ''Set-Cookie'' = w_header w ''Set-Cookie'')"
proof -
  have w': "w' = fst (WriteHTTP print result (no_store w))" and err: "err = snd (WriteHTTP print result (no_store w))"
    using assms(3) by (simp_all add: WriteNoStoreHTTP_def)
  have e: "err = (if rp_Kind result = Redirect then ValidateLocalRedirect (rp_URL result) else None)"
    by (simp add: err WriteHTTP_def Let_def split: option.splits)
  have st: "w_status (fold (SetCookie print) cs v) = w_status v" for cs v
    by (induction cs arbitrary: v) (simp_all add: SetCookie_def Let_def)
  have ct: "w_status (content_type v status u) = w_status u" for v status u by (simp add: content_type_def)
  have wr: "w_status u = None \<Longrightarrow> w_status (writeBody status s u) = Some status" for u status s
    by (simp add: writeBody_def Let_def)
  have no: "w_status (no_store w) = None" using assms(2) by (simp add: no_store_def)
  have "w_status w' = Some (statusOrDefault result)" if "err = None"
    using that e no by (cases "rp_Kind result") (simp_all add: w' WriteHTTP_def Let_def st ct wr WriteHeader_def split: option.splits)
  moreover have "w_status w' = Some 500 \<and> w_header w' ''Set-Cookie'' = w_header w ''Set-Cookie''" if failed: "err \<noteq> None"
  proof -
    have k: "rp_Kind result = Redirect" using failed e by (cases "rp_Kind result = Redirect") simp_all
    moreover from this obtain x where bad: "ValidateLocalRedirect (rp_URL result) = Some x"
      using failed e by (cases "ValidateLocalRedirect (rp_URL result)") simp_all
    ultimately have "w' = http_Error (StatusText 500) 500 (no_store w)" by (simp add: w' WriteHTTP_def Let_def)
    then show ?thesis using no by (simp add: http_Error_status header_http_Error header_no_store)
  qed
  moreover have "w_header w' ''Cache-Control'' = [''no-store'']" by (simp add: w' WriteHTTP_header header_no_store)
  moreover have "w_header w' ''Location'' = (if rp_Kind result = Redirect \<and> err = None then [rp_URL result] else [])"
    using assms(1) by (simp add: w' WriteHTTP_header header_no_store e)
  ultimately show ?thesis using e by simp
qed

theorem WriteNoStoreHTTP_safe_witness:
  "w_header (fst (WriteNoStoreHTTP (\<lambda>c. c) (WithCookie (RedirectTo ''//evil.example'') ''a=b'') new_writer)) ''Location'' = [] \<and>
   w_header (fst (WriteNoStoreHTTP (\<lambda>c. c) (WithCookie (RedirectTo ''//evil.example'') ''a=b'') new_writer)) ''Set-Cookie'' = [] \<and>
   w_header (fst (WriteNoStoreHTTP (\<lambda>c. c) (RedirectTo ''/home'' :: string Response) new_writer)) ''Location'' = [''/home'']"
proof -
  let ?bad = "WithCookie (RedirectTo ''//evil.example'') ''a=b''" and ?good = "RedirectTo ''/home'' :: string Response"
  have v: "ValidateLocalRedirect ''//evil.example'' = Some ProtocolRelative" "ValidateLocalRedirect ''/home'' = None" by code_simp+
  have f: "rp_Kind ?bad = Redirect" "rp_URL ?bad = ''//evil.example''" "rp_Kind ?good = Redirect" "rp_URL ?good = ''/home''"
    by (simp_all add: WithCookie_def RedirectTo_def response_def)
  have n: "w_header new_writer ''Location'' = []" "w_status new_writer = None" "w_header new_writer ''Set-Cookie'' = []"
    by (simp_all add: new_writer_def)
  show ?thesis
    using WriteNoStoreHTTP_safe [OF n(1,2), of "\<lambda>c. c" ?bad] WriteNoStoreHTTP_safe [OF n(1,2), of "\<lambda>c. c" ?good] v f n(3)
    by (metis option.distinct(1) prod.collapse)
qed

text \<open>
  Where a browser goes for the Location header of a page: the URL standard removes tabs and newlines, and
  reads two slashes or backslashes in front as the start of a host.
\<close>

definition leaves_site :: "string \<Rightarrow> bool" where
  "leaves_site location =
     (case filter (\<lambda>c. c \<notin> {CHR 0x09, CHR 0x0A, CHR 0x0D}) location of
        a # b # _ \<Rightarrow> a \<in> {CHR ''/'', CHR 0x5C} \<and> b \<in> {CHR ''/'', CHR 0x5C}
      | _ \<Rightarrow> False)"

text \<open>
  An accepted redirect leads to another host exactly when tabs separate two leading slashes. The check
  of the code knows carriage returns and newlines, and not the tab, which the URL standard removes as well.
\<close>

theorem accepted_redirect_leaves_site:
  assumes "ValidateLocalRedirect url = None"
  shows "leaves_site url \<longleftrightarrow> (\<exists>n rest. 0 < n \<and> url = CHR ''/'' # replicate n CHR 0x09 @ CHR ''/'' # rest)"
proof -
  have url: "url \<noteq> []" "hd url = CHR ''/''" "\<not> (length url > 1 \<and> (url ! 1 = CHR ''/'' \<or> url ! 1 = CHR 0x5C))"
    and chars: "CHR 0x5C \<notin> set url" "CHR 0x0D \<notin> set url" "CHR 0x0A \<notin> set url"
    using assms by (auto simp: ValidateLocalRedirect_def Contains_char ContainsAny_def split: if_splits)
  then obtain t where t: "url = CHR ''/'' # t" by (cases url) auto
  let ?keep = "\<lambda>c. c \<notin> {CHR 0x09, CHR 0x0A, CHR 0x0D}"
  have "filter ?keep t = filter (\<lambda>c. c \<noteq> CHR 0x09) t" using chars t by (auto intro: filter_cong)
  then have "leaves_site url \<longleftrightarrow> (\<exists>rest. filter (\<lambda>c. c \<noteq> CHR 0x09) t = CHR ''/'' # rest)"
  proof -
    have "CHR 0x5C \<notin> set (filter (\<lambda>c. c \<noteq> CHR 0x09) t)" using chars t by auto
    with \<open>filter ?keep t = _\<close> show ?thesis
      by (cases "filter (\<lambda>c. c \<noteq> CHR 0x09) t") (auto simp: leaves_site_def t)
  qed
  also have "\<dots> \<longleftrightarrow> (\<exists>n rest. t = replicate n CHR 0x09 @ CHR ''/'' # rest)"
  proof
    assume "\<exists>rest. filter (\<lambda>c. c \<noteq> CHR 0x09) t = CHR ''/'' # rest"
    then obtain us vs where "t = us @ CHR ''/'' # vs" "\<forall>u\<in>set us. \<not> u \<noteq> CHR 0x09" by (auto simp: filter_eq_Cons_iff)
    moreover from this have "us = replicate (length us) CHR 0x09" by (simp add: replicate_eqI)
    ultimately show "\<exists>n rest. t = replicate n CHR 0x09 @ CHR ''/'' # rest" by metis
  qed auto
  also have "\<dots> \<longleftrightarrow> (\<exists>n rest. 0 < n \<and> url = CHR ''/'' # replicate n CHR 0x09 @ CHR ''/'' # rest)"
  proof
    assume "\<exists>n rest. t = replicate n CHR 0x09 @ CHR ''/'' # rest"
    then obtain n rest where n: "t = replicate n CHR 0x09 @ CHR ''/'' # rest" by blast
    moreover have "n \<noteq> 0" using url(3) n t by (cases n) auto
    ultimately show "\<exists>n rest. 0 < n \<and> url = CHR ''/'' # replicate n CHR 0x09 @ CHR ''/'' # rest" using t by auto
  qed (auto simp: t)
  finally show ?thesis .
qed

theorem accepted_redirect_leaves_site_witness:
  "ValidateLocalRedirect (''/'' @ [CHR 0x09] @ ''/evil.example'') = None \<and> leaves_site (''/'' @ [CHR 0x09] @ ''/evil.example'')"
proof -
  have ok: "ValidateLocalRedirect (''/'' @ [CHR 0x09] @ ''/evil.example'') = None" by code_simp
  have "''/'' @ [CHR 0x09] @ ''/evil.example'' = CHR ''/'' # replicate 1 CHR 0x09 @ CHR ''/'' # ''evil.example''" by simp
  then have "leaves_site (''/'' @ [CHR 0x09] @ ''/evil.example'')"
    unfolding accepted_redirect_leaves_site [OF ok] by (intro exI conjI) (rule zero_less_one)
  with ok show ?thesis by blast
qed

text \<open>
  A failure of an application stays inside. When no error of the chain carries a message for the client
  and the status is a server error, the response depends on the status only.
\<close>

theorem internal_error_hidden:
  assumes "\<forall>e\<in>{err, err'}. case as_handler e of Some (_, message) \<Rightarrow> TrimSpace message = [] | None \<Rightarrow> True"
    and "HandlerStatus err fallback = HandlerStatus err' fallback" "HandlerStatus err fallback \<ge> 500"
  shows "WriteNoStoreHandlerError err fallback w = WriteNoStoreHandlerError err' fallback w"
proof -
  have "HandlerErrorMessage (Some e) status = (if StatusText status \<noteq> [] then StatusText status else StatusText 500)"
    if "e \<in> {err, err'}" "status \<ge> 500" for e status
    using assms(1) that by (cases "as_handler e") (auto simp: HandlerErrorMessage_def Let_def TrimSpace_Nil)
  then show ?thesis using assms(2,3) by (simp add: WriteNoStoreHandlerError_def Let_def)
qed

theorem internal_error_hidden_witness:
  "WriteNoStoreHandlerError (OtherError ''password=hunter2'' []) 500 new_writer =
   WriteNoStoreHandlerError (OtherError ''open /etc/shadow'' []) 500 new_writer"
  using internal_error_hidden [of "OtherError ''password=hunter2'' []" "OtherError ''open /etc/shadow'' []" 500 new_writer]
  by (simp add: HandlerStatus_def)

end
