(* ===== verification/ErrorPages.thy ===== *)
theory ErrorPages
  imports Route Response Cors
begin

text \<open>
  \<open>runtime/app/error_pages.go\<close> and the part of \<open>context.go\<close> it reads: the generated error documents, which
  of them a failed request gets, and how it is written. The file system is a parameter.
\<close>

section \<open>The context of a request\<close>

text \<open>The error pages that the metadata of the route, of its layouts and of the endpoint name.\<close>

record ErrorPageSet =
  eg_NotFound :: string
  eg_InternalServerError :: string
  eg_Custom :: "string \<Rightarrow> string option"

definition no_pages :: ErrorPageSet where
  "no_pages = \<lparr>eg_NotFound = [], eg_InternalServerError = [], eg_Custom = (\<lambda>_. None)\<rparr>"

record request_context =
  cx_Pages :: "ErrorPageSet option"
  cx_RouteErrorPage :: "string option"
  cx_LayoutErrorPages :: "string list"
  cx_EndpointErrorPage :: "string option"

definition Background :: request_context where
  "Background = \<lparr>cx_Pages = None, cx_RouteErrorPage = None, cx_LayoutErrorPages = [], cx_EndpointErrorPage = None\<rparr>"

record app_request =
  aq_Request :: request
  aq_Context :: request_context

section \<open>Paths of error pages\<close>

definition cleanErrorPagePath :: "string \<Rightarrow> string" where
  "cleanErrorPagePath v0 =
     (let v = TrimSpace v0
      in if v = [] \<or> ContainsAny v [CHR 0x5C, CHR ''?'', CHR ''#''] then []
         else if ''..'' \<in> set (Split (TrimPrefix v ''/'') CHR ''/'') then []
         else
           let cleaned = TrimPrefix (Clean (CHR ''/'' # TrimPrefix v ''/'')) ''/''
           in if cleaned = ''.'' \<or> cleaned = [] \<or> \<not> HasSuffix (ToLower cleaned) ''.html'' then [] else cleaned)"

section \<open>Loading\<close>

definition readOptionalErrorPage :: "(string \<Rightarrow> string option) \<Rightarrow> string \<Rightarrow> string" where
  "readOptionalErrorPage ReadFile name = (case ReadFile name of None \<Rightarrow> [] | Some payload \<Rightarrow> payload)"

definition LoadErrorPages :: "(string \<Rightarrow> string option) \<Rightarrow> ErrorPageSet" where
  "LoadErrorPages ReadFile =
     \<lparr>eg_NotFound = readOptionalErrorPage ReadFile ''404.html'',
      eg_InternalServerError = readOptionalErrorPage ReadFile ''500.html'', eg_Custom = (\<lambda>_. None)\<rparr>"

fun load_custom :: "(string \<Rightarrow> string option) \<Rightarrow> string list \<Rightarrow> ErrorPageSet \<Rightarrow> ErrorPageSet" where
  "load_custom ReadFile [] pages = pages"
| "load_custom ReadFile (page # rest) pages =
     (let pagePath = cleanErrorPagePath page; payload = readOptionalErrorPage ReadFile pagePath
      in if pagePath = [] \<or> payload = [] then load_custom ReadFile rest pages
         else load_custom ReadFile rest (pages\<lparr>eg_Custom := (eg_Custom pages)(pagePath \<mapsto> payload)\<rparr>))"

definition LoadErrorPagesWith :: "(string \<Rightarrow> string option) \<Rightarrow> string list \<Rightarrow> ErrorPageSet" where
  "LoadErrorPagesWith ReadFile custom = load_custom ReadFile custom (LoadErrorPages ReadFile)"

section \<open>Selection\<close>

definition custom_page :: "ErrorPageSet \<Rightarrow> string \<Rightarrow> string" where
  "custom_page pages name = (case eg_Custom pages (cleanErrorPagePath name) of Some payload \<Rightarrow> payload | None \<Rightarrow> [])"

definition endpointErrorPagePayload :: "app_request \<Rightarrow> ErrorPageSet \<Rightarrow> string" where
  "endpointErrorPagePayload request pages =
     (case cx_EndpointErrorPage (aq_Context request) of
        None \<Rightarrow> [] | Some name \<Rightarrow> if name = [] then [] else custom_page pages name)"

definition routeErrorPagePayload :: "app_request \<Rightarrow> ErrorPageSet \<Rightarrow> string" where
  "routeErrorPagePayload request pages =
     (case cx_RouteErrorPage (aq_Context request) of
        None \<Rightarrow> [] | Some name \<Rightarrow> if name = [] then [] else custom_page pages name)"

text \<open>The layouts are those of the route, from the nearest to the outermost.\<close>

definition layoutErrorPagePayload :: "app_request \<Rightarrow> ErrorPageSet \<Rightarrow> string" where
  "layoutErrorPagePayload request pages =
     (if cx_RouteErrorPage (aq_Context request) = None then []
      else
        (case filter (\<lambda>payload. payload \<noteq> [])
                (map (custom_page pages) (filter (\<lambda>name. name \<noteq> []) (cx_LayoutErrorPages (aq_Context request)))) of
           [] \<Rightarrow> [] | payload # _ \<Rightarrow> payload))"

definition errorPagePayload :: "app_request \<Rightarrow> ErrorPageSet \<Rightarrow> int \<Rightarrow> string" where
  "errorPagePayload request pages status =
     (if status = 404 then eg_NotFound pages
      else if status = 500 then
        (let payload = endpointErrorPagePayload request pages
         in if payload \<noteq> [] then payload
            else
              let payload = routeErrorPagePayload request pages
              in if payload \<noteq> [] then payload
                 else
                   let payload = layoutErrorPagePayload request pages
                   in if payload \<noteq> [] then payload else eg_InternalServerError pages)
      else [])"

definition errorPages :: "request_context \<Rightarrow> ErrorPageSet" where
  "errorPages ctx = (case cx_Pages ctx of None \<Rightarrow> no_pages | Some pages \<Rightarrow> pages)"

definition WriteErrorPage :: "app_request \<Rightarrow> int \<Rightarrow> string \<Rightarrow> writer \<Rightarrow> writer" where
  "WriteErrorPage request status message w =
     (let payload = errorPagePayload request (errorPages (aq_Context request)) status;
          w1 = set_header ''Cache-Control'' ''no-store'' w
      in if payload = [] then http_Error message status w1
         else
           let w2 = WriteHeader status (set_header ''Content-Type'' ''text/html; charset=utf-8'' w1)
           in if rq_Method (aq_Request request) = ''HEAD'' then w2 else write_body payload w2)"

section \<open>The documents stay inside the output directory\<close>

lemma Clean_rooted:
  assumes "\<forall>p\<in>set (Split t CHR ''/''). p \<noteq> ''..''"
  shows "Clean (CHR ''/'' # t) = CHR ''/'' # Join (filter (\<lambda>p. p \<noteq> [] \<and> p \<noteq> ''.'') (Split t CHR ''/'')) ''/''"
proof -
  have "\<forall>p\<in>set ps. p \<noteq> ''..'' \<Longrightarrow> clean_parts True out ps = rev out @ filter (\<lambda>p. p \<noteq> [] \<and> p \<noteq> ''.'') ps" for out ps
    by (induction ps arbitrary: out) auto
  from this [OF assms, of "[]"] show ?thesis by (simp add: Clean_def)
qed

text \<open>
  The path of an error page names a document inside the output directory. It is relative, its elements
  are proper names, none of them is the parent directory, and it ends in \<open>.html\<close>.
\<close>

theorem cleanErrorPagePath_local:
  assumes "cleanErrorPagePath v = p" "p \<noteq> []"
  shows "list_all safe_segment (Split p CHR ''/'') \<and> HasSuffix (ToLower p) ''.html'' \<and> \<not> ContainsAny p [CHR 0x5C, CHR ''?'', CHR ''#'']"
proof -
  let ?v = "TrimSpace v" and ?t = "TrimPrefix (TrimSpace v) ''/''"
  have v: "?v \<noteq> []" "\<not> ContainsAny ?v [CHR 0x5C, CHR ''?'', CHR ''#'']" "''..'' \<notin> set (Split ?t CHR ''/'')"
    and p: "p = TrimPrefix (Clean (CHR ''/'' # ?t)) ''/''" "HasSuffix (ToLower p) ''.html''"
    using assms by (auto simp: cleanErrorPagePath_def Let_def split: if_splits)
  let ?ps = "filter (\<lambda>p. p \<noteq> [] \<and> p \<noteq> ''.'') (Split ?t CHR ''/'')"
  have "Clean (CHR ''/'' # ?t) = CHR ''/'' # Join ?ps ''/''" using v(3) by (intro Clean_rooted) auto
  then have join: "p = Join ?ps ''/''" by (simp add: p TrimPrefix_def)
  have safe: "list_all safe_segment ?ps"
    using v(3) Split_parts_no_sep [of _ ?t "CHR ''/''"] by (auto simp: list_all_iff safe_segment_def unsafe_value_def)
  have "?ps \<noteq> []" using join assms(2) by auto
  then have "Split p CHR ''/'' = ?ps" unfolding join using safe by (intro Join_safe(1)) auto
  moreover have "set (Join ps ''/'') \<subseteq> (\<Union>p\<in>set ps. set p) \<union> {CHR ''/''}" for ps
    by (induction ps "''/''" rule: Join.induct) auto
  moreover have "\<forall>q\<in>set (Split t c). set q \<subseteq> set t" for t c
    by (induction t) (auto split: list.splits)
  ultimately have "set p \<subseteq> set ?t \<union> {CHR ''/''}" unfolding join by fastforce
  moreover have "set ?t \<subseteq> set ?v" by (auto simp: TrimPrefix_def dest: in_set_dropD)
  ultimately have "\<not> ContainsAny p [CHR 0x5C, CHR ''?'', CHR ''#'']" using v(2) by (auto simp: ContainsAny_def)
  with safe p(2) \<open>Split p CHR ''/'' = ?ps\<close> show ?thesis by simp
qed

theorem cleanErrorPagePath_local_witness:
  "cleanErrorPagePath '' /errors//./oops.HTML'' = ''errors/oops.HTML'' \<and>
   list_all safe_segment (Split ''errors/oops.HTML'' CHR ''/'') \<and> cleanErrorPagePath ''../x.html'' = []"
proof -
  have "cleanErrorPagePath '' /errors//./oops.HTML'' = ''errors/oops.HTML''" "cleanErrorPagePath ''../x.html'' = []" by code_simp+
  with cleanErrorPagePath_local [OF this(1)] show ?thesis by simp
qed

end
