(* ===== verification/Backend.thy ===== *)
theory Backend
  imports ErrorPages
begin

text \<open>
  \<open>runtime/app/backend.go\<close> and \<open>boundary.go\<close>: the router of the generated backend routes, the panic
  boundary around every handler, and the adapters that make handlers of typed functions.

  A handler takes a request and a writer to a run: the writer it leaves, whether it has written to it (a
  status or a body), and how it ended. Tracing and metrics wrap a handler without changing its run and are
  left out, as is the log line of a recovered panic.
\<close>

section \<open>Runs of a handler\<close>

text \<open>\<open>AbortHandler\<close> is \<open>http.ErrAbortHandler\<close> or an error that wraps it.\<close>

datatype panic_value = AbortHandler | PanicValue string

datatype ending = Returned bool | Panicked panic_value

record run =
  rn_Writer :: writer
  rn_Wrote :: bool
  rn_End :: ending

type_synonym handler = "app_request \<Rightarrow> writer \<Rightarrow> run"

definition done_run :: "writer \<Rightarrow> run" where
  "done_run w = \<lparr>rn_Writer = w, rn_Wrote = True, rn_End = Returned True\<rparr>"

section \<open>The boundary\<close>

definition normalizeBoundaryKind :: "string \<Rightarrow> string" where
  "normalizeBoundaryKind kind =
     (let k = ToLower (TrimSpace kind)
      in if k \<in> set [''action'', ''api'', ''command'', ''query'', ''ssr''] then k else ''backend'')"

definition boundaryKindLabel :: "string \<Rightarrow> string" where
  "boundaryKindLabel kind = (if kind = ''api'' then ''API'' else if kind = ''ssr'' then ''SSR'' else kind)"

definition writeBoundaryError :: "(string \<times> string \<Rightarrow> string option) \<Rightarrow> app_request \<Rightarrow> string \<Rightarrow> writer \<Rightarrow> writer" where
  "writeBoundaryError Marshal request kind w =
     (let message = ''GOWDK '' @ boundaryKindLabel kind @ '' handler failed''
      in if kind = ''ssr'' then WriteErrorPage request 500 message w
         else if kind = ''command'' \<or> kind = ''query'' then WriteNoStoreJSONError Marshal 500 message w
         else WriteNoStoreError 500 message w)"

definition Boundary :: "(string \<times> string \<Rightarrow> string option) \<Rightarrow> string \<Rightarrow> handler \<Rightarrow> handler" where
  "Boundary Marshal kind0 handle request w =
     (let kind = normalizeBoundaryKind kind0; r = handle request w
      in case rn_End r of
           Returned _ \<Rightarrow> r
         | Panicked AbortHandler \<Rightarrow> r
         | Panicked (PanicValue _) \<Rightarrow>
             if rn_Wrote r then r\<lparr>rn_End := Panicked AbortHandler\<rparr>
             else done_run (writeBoundaryError Marshal request kind (rn_Writer r)))"

text \<open>\<open>RecoverSSRRoutePanic\<close> and \<open>RecoverEndpointPanic\<close>, for a panic with a value.\<close>

definition recover_page :: "string \<Rightarrow> panic_value \<Rightarrow> app_request \<Rightarrow> writer \<Rightarrow> bool \<Rightarrow> run" where
  "recover_page message v request w written =
     (case v of
        AbortHandler \<Rightarrow> \<lparr>rn_Writer = w, rn_Wrote = written, rn_End = Panicked AbortHandler\<rparr>
      | PanicValue _ \<Rightarrow>
          if written then \<lparr>rn_Writer = w, rn_Wrote = written, rn_End = Panicked AbortHandler\<rparr>
          else done_run (WriteErrorPage request 500 message w))"

definition RecoverSSRRoutePanic :: "panic_value \<Rightarrow> app_request \<Rightarrow> writer \<Rightarrow> bool \<Rightarrow> run" where
  "RecoverSSRRoutePanic = recover_page ''GOWDK SSR handler failed''"

definition RecoverEndpointPanic :: "panic_value \<Rightarrow> app_request \<Rightarrow> writer \<Rightarrow> bool \<Rightarrow> run" where
  "RecoverEndpointPanic = recover_page ''GOWDK endpoint handler failed''"

section \<open>Registration\<close>

record BackendRoute =
  br_Method :: string
  br_Path :: string
  br_Kind :: string
  br_EndpointID :: string
  br_CORS :: "CORSPolicy option"
  br_Handler :: "handler option"

record backendRouteEntry =
  be_Method :: string
  be_Path :: string
  be_Kind :: string
  be_ID :: string
  be_CORS :: "corsPolicy option"
  be_Handler :: handler

text \<open>An entry of the pattern routes also has the shape of its pattern.\<close>

record BackendRouter =
  rt_routes :: "string \<times> string \<Rightarrow> backendRouteEntry option"
  rt_patterns :: "(string \<times> backendRouteEntry) list"
  rt_cors :: corsPolicy

datatype route_error = MethodRequired | HandlerRequired string string | BadCORS cors_error | DuplicateBackendRoute string string

text \<open>What the router uses of the library: case, and \<open>mime.ParseMediaType\<close>, whose \<open>None\<close> is an error.\<close>

record app_lib = lib +
  ParseMediaType :: "string \<Rightarrow> (string \<times> (string \<times> string) list) option"
  MarshalError :: "string \<times> string \<Rightarrow> string option"

abbreviation cors_lib :: "app_lib \<Rightarrow> lib" where
  "cors_lib A \<equiv> lib.truncate A"

definition normalizeBackendPath :: "string \<Rightarrow> string" where
  "normalizeBackendPath routePath = Clean (CHR ''/'' # routePath)"

definition backendRouteIsDynamic :: "string \<Rightarrow> bool" where
  "backendRouteIsDynamic routePath \<longleftrightarrow> CHR ''{'' \<in> set routePath \<and> CHR ''}'' \<in> set routePath"

definition shape_segment :: "string \<Rightarrow> string" where
  "shape_segment s =
     (if \<not> HasPrefix s ''{'' \<or> \<not> HasSuffix s ''}'' then s
      else if HasSuffix s ''...}'' then ''{...}'' else ''{}'')"

definition canonicalBackendRoutePattern :: "string \<Rightarrow> string" where
  "canonicalBackendRoutePattern routePath =
     (let segs = Split (Trim (normalizeBackendPath routePath) {CHR ''/''}) CHR ''/''
      in if segs = [[]] then ''/'' else CHR ''/'' # Join (map shape_segment segs) ''/'')"

definition empty_router :: BackendRouter where
  "empty_router = \<lparr>rt_routes = (\<lambda>_. None), rt_patterns = [], rt_cors = disabled_policy\<rparr>"

definition route_method :: "app_lib \<Rightarrow> BackendRoute \<Rightarrow> string" where
  "route_method A route = upper A (TrimSpace (br_Method route))"

definition route_kind :: "app_lib \<Rightarrow> BackendRoute \<Rightarrow> string" where
  "route_kind A route = (let kind = lower A (TrimSpace (br_Kind route)) in if kind = [] then ''backend'' else kind)"

definition route_cors :: "app_lib \<Rightarrow> BackendRoute \<Rightarrow> cors_error + corsPolicy option" where
  "route_cors A route =
     (case br_CORS route of
        None \<Rightarrow> Inr None
      | Some policy \<Rightarrow>
          (case normalizeCORSPolicy (cors_lib A) policy of Inl err \<Rightarrow> Inl err | Inr normalized \<Rightarrow> Inr (Some normalized)))"

text \<open>Registration of a route: the entry it makes, and its place in the router.\<close>

definition router_handle :: "app_lib \<Rightarrow> BackendRouter \<Rightarrow> BackendRoute \<Rightarrow> route_error + BackendRouter" where
  "router_handle A router route =
     (let verb = route_method A route
      in if verb = [] then Inl MethodRequired
         else
           (case br_Handler route of
              None \<Rightarrow> Inl (HandlerRequired verb (br_Path route))
            | Some handle \<Rightarrow>
                let kind = route_kind A route; path = normalizeBackendPath (br_Path route)
                in (case route_cors A route of
                      Inl err \<Rightarrow> Inl (BadCORS err)
                    | Inr cors \<Rightarrow>
                        let entry = \<lparr>be_Method = verb, be_Path = path, be_Kind = kind, be_ID = br_EndpointID route,
                                     be_CORS = cors, be_Handler = Boundary (MarshalError A) kind handle\<rparr>
                        in if backendRouteIsDynamic path then
                             let shape = canonicalBackendRoutePattern path
                             in if list_ex (\<lambda>(s, e). be_Method e = verb \<and> s = shape) (rt_patterns router)
                                then Inl (DuplicateBackendRoute verb path)
                                else Inr (router\<lparr>rt_patterns := rt_patterns router @ [(shape, entry)]\<rparr>)
                           else if rt_routes router (verb, path) \<noteq> None then Inl (DuplicateBackendRoute verb path)
                           else Inr (router\<lparr>rt_routes := (rt_routes router)((verb, path) \<mapsto> entry)\<rparr>))))"

fun handle_all :: "app_lib \<Rightarrow> BackendRouter \<Rightarrow> BackendRoute list \<Rightarrow> route_error + BackendRouter" where
  "handle_all A router [] = Inr router"
| "handle_all A router (route # routes) =
     (case router_handle A router route of Inl err \<Rightarrow> Inl err | Inr router' \<Rightarrow> handle_all A router' routes)"

definition NewBackendRouter :: "app_lib \<Rightarrow> BackendRoute list \<Rightarrow> route_error + BackendRouter" where
  "NewBackendRouter A routes = handle_all A empty_router routes"

definition SetCORSPolicy :: "app_lib \<Rightarrow> BackendRouter \<Rightarrow> CORSPolicy \<Rightarrow> cors_error + BackendRouter" where
  "SetCORSPolicy A router policy =
     (case normalizeCORSPolicy (cors_lib A) policy of
        Inl err \<Rightarrow> Inl err
      | Inr normalized \<Rightarrow> Inr (router\<lparr>rt_cors := normalized\<rparr>))"

definition plain_route :: "string \<Rightarrow> string \<Rightarrow> string \<Rightarrow> handler option \<Rightarrow> BackendRoute" where
  "plain_route kind verb path handle =
     \<lparr>br_Method = verb, br_Path = path, br_Kind = kind, br_EndpointID = [], br_CORS = None, br_Handler = handle\<rparr>"

definition router_Handle :: "app_lib \<Rightarrow> BackendRouter \<Rightarrow> string \<Rightarrow> string \<Rightarrow> handler option \<Rightarrow> route_error + BackendRouter" where
  "router_Handle A router verb path handle = router_handle A router (plain_route ''backend'' verb path handle)"

definition router_Action :: "app_lib \<Rightarrow> BackendRouter \<Rightarrow> string \<Rightarrow> handler option \<Rightarrow> route_error + BackendRouter" where
  "router_Action A router path handle = router_handle A router (plain_route ''action'' ''POST'' path handle)"

definition router_API :: "app_lib \<Rightarrow> BackendRouter \<Rightarrow> string \<Rightarrow> string \<Rightarrow> handler option \<Rightarrow> route_error + BackendRouter" where
  "router_API A router verb path handle = router_handle A router (plain_route ''api'' verb path handle)"

section \<open>Content negotiation of queries\<close>

text \<open>The state of the scan: the part read so far, inside quotes, after a backslash.\<close>

fun split_list :: "string \<Rightarrow> bool \<Rightarrow> bool \<Rightarrow> string \<Rightarrow> string list" where
  "split_list part quoted escaped [] = [part]"
| "split_list part quoted escaped (c # cs) =
     (if escaped then split_list (part @ [c]) quoted False cs
      else if quoted \<and> c = CHR 0x5C then split_list (part @ [c]) quoted True cs
      else if c = CHR 0x22 then split_list (part @ [c]) (\<not> quoted) False cs
      else if c = CHR '','' \<and> \<not> quoted then part # split_list [] quoted False cs
      else split_list (part @ [c]) quoted False cs)"

definition splitHTTPHeaderList :: "string \<Rightarrow> string list" where
  "splitHTTPHeaderList v = split_list [] False False v"

definition isJSONMediaType :: "app_lib \<Rightarrow> string \<Rightarrow> bool" where
  "isJSONMediaType A mediaType0 =
     (let mediaType = lower A (TrimSpace mediaType0)
      in if mediaType = ''application/json'' then True
         else length mediaType > length ''+json'' \<and> HasSuffix mediaType ''+json'')"

definition hasPositiveAcceptQuality :: "(string \<times> string) list \<Rightarrow> bool" where
  "hasPositiveAcceptQuality params =
     (case map_of params ''q'' of
        None \<Rightarrow> True
      | Some quality \<Rightarrow>
          (case Cut (TrimSpace quality) CHR ''.'' of
             (whole, fraction, decimal) \<Rightarrow>
               if whole = ''0'' then
                 (if \<not> decimal then False
                  else if length fraction > 3 then False
                  else list_all is_digit fraction \<and> list_ex (\<lambda>c. c \<noteq> CHR ''0'') fraction)
               else if whole = ''1'' then
                 (if \<not> decimal then True
                  else if length fraction > 3 then False
                  else list_all (\<lambda>c. c = CHR ''0'') fraction)
               else False))"

definition acceptsJSON :: "app_lib \<Rightarrow> string \<Rightarrow> bool" where
  "acceptsJSON A header =
     list_ex (\<lambda>part. case ParseMediaType A (TrimSpace part) of
        None \<Rightarrow> False
      | Some (mediaType, params) \<Rightarrow> isJSONMediaType A mediaType \<and> hasPositiveAcceptQuality params)
     (splitHTTPHeaderList header)"

definition isContractQueryRequest :: "app_lib \<Rightarrow> request \<Rightarrow> bool" where
  "isContractQueryRequest A req =
     (let queryHeader = ToLower (TrimSpace (header_Get (rq_Header req) ''X-GOWDK-Query''))
      in if queryHeader = ''1'' \<or> queryHeader = ''true'' then True
         else list_ex (acceptsJSON A) (header_Values (rq_Header req) ''Accept''))"

section \<open>Dispatch\<close>

definition backendRouteSupportsCORS :: "string \<Rightarrow> bool" where
  "backendRouteSupportsCORS kind \<longleftrightarrow> kind \<in> set [''api'', ''command'', ''query'']"

definition entry_corsPolicy :: "backendRouteEntry \<Rightarrow> corsPolicy \<Rightarrow> corsPolicy" where
  "entry_corsPolicy entry fallback = (case be_CORS entry of Some policy \<Rightarrow> policy | None \<Rightarrow> fallback)"

definition matches :: "backendRouteEntry \<Rightarrow> string \<Rightarrow> bool" where
  "matches entry path \<longleftrightarrow> Match (be_Path entry) path \<noteq> None"

definition corsRoute :: "BackendRouter \<Rightarrow> string \<Rightarrow> string \<Rightarrow> backendRouteEntry option" where
  "corsRoute router verb path =
     (case rt_routes router (verb, normalizeBackendPath path) of
        Some entry \<Rightarrow>
          if backendRouteSupportsCORS (be_Kind entry) then Some entry
          else find (\<lambda>e. be_Method e = verb \<and> backendRouteSupportsCORS (be_Kind e) \<and> matches e path) (map snd (rt_patterns router))
      | None \<Rightarrow> find (\<lambda>e. be_Method e = verb \<and> backendRouteSupportsCORS (be_Kind e) \<and> matches e path) (map snd (rt_patterns router)))"

text \<open>\<open>None\<close> when the request is no preflight for a route of the router.\<close>

definition dispatchCORSPreflight :: "app_lib \<Rightarrow> BackendRouter \<Rightarrow> request \<Rightarrow> writer \<Rightarrow> writer option" where
  "dispatchCORSPreflight A router req w =
     (let asked = header_Get (rq_Header req) ''Access-Control-Request-Method''
      in if rq_Method req \<noteq> ''OPTIONS'' \<or> TrimSpace asked = [] then None
         else
           (case normalizeCORSMethod (cors_lib A) asked of
              Inl _ \<Rightarrow> None
            | Inr requestedMethod \<Rightarrow>
                (case corsRoute router requestedMethod (rq_Path req) of
                   None \<Rightarrow> None
                 | Some entry \<Rightarrow>
                     (case writePreflight (cors_lib A) (entry_corsPolicy entry (rt_cors router)) req (be_Method entry) w of
                        Some w' \<Rightarrow> Some w'
                      | None \<Rightarrow> Some (WriteNoStoreError 403 ''cors preflight denied'' w)))))"

definition run_entry :: "app_lib \<Rightarrow> BackendRouter \<Rightarrow> backendRouteEntry \<Rightarrow> handler" where
  "run_entry A router entry request w =
     be_Handler entry request
       (if backendRouteSupportsCORS (be_Kind entry)
        then writeActualHeaders (cors_lib A) (entry_corsPolicy entry (rt_cors router)) (aq_Request request) (be_Method entry) w
        else w)"

definition not_handled :: "writer \<Rightarrow> run" where
  "not_handled w = \<lparr>rn_Writer = w, rn_Wrote = False, rn_End = Returned False\<rparr>"

fun dispatchPattern :: "app_lib \<Rightarrow> BackendRouter \<Rightarrow> (string \<times> backendRouteEntry) list \<Rightarrow> string \<Rightarrow> handler" where
  "dispatchPattern A router [] verb request w = not_handled w"
| "dispatchPattern A router ((shape, entry) # rest) verb request w =
     (if be_Method entry \<noteq> verb then dispatchPattern A router rest verb request w
      else if be_Kind entry = ''query'' \<and> \<not> isContractQueryRequest A (aq_Request request)
        then dispatchPattern A router rest verb request w
      else if \<not> matches entry (rq_Path (aq_Request request)) then dispatchPattern A router rest verb request w
      else run_entry A router entry request w)"

definition Dispatch :: "app_lib \<Rightarrow> BackendRouter \<Rightarrow> handler" where
  "Dispatch A router request w =
     (let req = aq_Request request
      in case dispatchCORSPreflight A router req w of
           Some w' \<Rightarrow> done_run w'
         | None \<Rightarrow>
             let verb = upper A (TrimSpace (rq_Method req))
             in (case rt_routes router (verb, normalizeBackendPath (rq_Path req)) of
                   None \<Rightarrow> dispatchPattern A router (rt_patterns router) verb request w
                 | Some entry \<Rightarrow>
                     if be_Kind entry = ''query'' \<and> \<not> isContractQueryRequest A req then not_handled w
                     else run_entry A router entry request w))"

text \<open>\<open>ServeHTTP\<close>: a request that no route handles is not found.\<close>

definition ServeHTTP :: "app_lib \<Rightarrow> BackendRouter \<Rightarrow> handler" where
  "ServeHTTP A router request w =
     (let r = Dispatch A router request w
      in case rn_End r of
           Returned False \<Rightarrow> done_run (http_Error ''404 page not found'' 404 (rn_Writer r))
         | _ \<Rightarrow> r)"

section \<open>Adapters of handlers\<close>

text \<open>
  What a function of the application does: it answers, fails with an error, or panics. The parsers of form
  bodies are parameters that get the limit of the body; \<open>Inl True\<close> is a body above the limit.
\<close>

datatype 'c outcome = Result "'c Response" | Failed gerror | Crashed panic_value

definition DefaultActionBodyLimit :: int where
  "DefaultActionBodyLimit = 1048576"

definition DefaultAPIBodyLimit :: int where
  "DefaultAPIBodyLimit = 1048576"

definition normalizeBodyLimit :: "int \<Rightarrow> int \<Rightarrow> int" where
  "normalizeBodyLimit bodyLimit fallback = (if bodyLimit > 0 then bodyLimit else fallback)"

definition writeBackendResult :: "('c \<Rightarrow> string) \<Rightarrow> 'c outcome \<Rightarrow> writer \<Rightarrow> run" where
  "writeBackendResult print out w =
     (case out of
        Failed err \<Rightarrow> done_run (WriteNoStoreHandlerError err 500 w)
      | Result result \<Rightarrow> done_run (fst (WriteNoStoreHTTP print result w))
      | Crashed v \<Rightarrow> \<lparr>rn_Writer = w, rn_Wrote = False, rn_End = Panicked v\<rparr>)"

definition NotImplemented :: "string \<Rightarrow> handler" where
  "NotImplemented message0 request w =
     (let message = TrimSpace message0;
          message = (if message = [] then ''GOWDK backend handler is not implemented'' else message)
      in done_run (WriteNoStoreError 501 message w))"

text \<open>\<open>Inl\<close> is the response that has been written instead of going on.\<close>

definition parsed_body :: "bool + 'v \<Rightarrow> writer \<Rightarrow> writer + 'v" where
  "parsed_body parsed w =
     (case parsed of
        Inl too_large \<Rightarrow>
          Inl (if too_large then WriteNoStoreError 413 ''request body too large'' w
               else WriteNoStoreError 400 ''invalid form'' w)
      | Inr v \<Rightarrow> Inr v)"

definition post_only :: "app_request \<Rightarrow> writer \<Rightarrow> (writer \<Rightarrow> writer + 'v) \<Rightarrow> writer + 'v" where
  "post_only request w cont =
     (if rq_Method (aq_Request request) \<noteq> ''POST''
      then Inl (WriteNoStoreError 405 ''method not allowed'' (set_header ''Allow'' ''POST'' w))
      else cont w)"

definition prepareActionValues :: "(request \<Rightarrow> int \<Rightarrow> bool + 'v) \<Rightarrow> app_request \<Rightarrow> int \<Rightarrow> writer \<Rightarrow> writer + 'v" where
  "prepareActionValues ParseForm request bodyLimit w =
     post_only request w
       (parsed_body (ParseForm (aq_Request request) (normalizeBodyLimit bodyLimit DefaultActionBodyLimit)))"

definition isMultipartRequest :: "app_lib \<Rightarrow> request \<Rightarrow> bool" where
  "isMultipartRequest A req =
     (let contentType = TrimSpace (header_Get (rq_Header req) ''Content-Type'');
          mediaType = (case ParseMediaType A contentType of Some (m, _) \<Rightarrow> m | None \<Rightarrow> fst (Cut contentType CHR '';''))
      in ToLower (TrimSpace mediaType) = ''multipart/form-data'')"

text \<open>The data of a form: a multipart body, or the values of an ordinary one without files.\<close>

definition prepareActionData ::
  "app_lib \<Rightarrow> (request \<Rightarrow> int \<Rightarrow> bool + 'd) \<Rightarrow> (request \<Rightarrow> int \<Rightarrow> bool + 'v) \<Rightarrow> ('v \<Rightarrow> 'd) \<Rightarrow>
     app_request \<Rightarrow> int \<Rightarrow> writer \<Rightarrow> writer + 'd" where
  "prepareActionData A ParseMultipart ParseForm from_values request bodyLimit w =
     (let req = aq_Request request; limit = normalizeBodyLimit bodyLimit DefaultActionBodyLimit
      in post_only request w
           (if isMultipartRequest A req then parsed_body (ParseMultipart req limit)
            else parsed_body (map_sum id from_values (ParseForm req limit))))"

definition adapted ::
  "string \<Rightarrow> 'f option \<Rightarrow> (app_request \<Rightarrow> writer \<Rightarrow> writer + 'v) \<Rightarrow> ('f \<Rightarrow> app_request \<Rightarrow> 'v \<Rightarrow> writer \<Rightarrow> run) \<Rightarrow> handler" where
  "adapted missing f prepare call request w =
     (case f of
        None \<Rightarrow> NotImplemented missing request w
      | Some g \<Rightarrow>
          (case prepare request w of
             Inl w' \<Rightarrow> done_run w'
           | Inr v \<Rightarrow> call g request v w))"

definition action_missing :: string where
  "action_missing = ''GOWDK action handler is not implemented''"

definition Action0WithBodyLimit ::
  "('c \<Rightarrow> string) \<Rightarrow> (request \<Rightarrow> int \<Rightarrow> bool + 'v) \<Rightarrow> int \<Rightarrow> (app_request \<Rightarrow> 'c outcome) option \<Rightarrow> handler" where
  "Action0WithBodyLimit print ParseForm bodyLimit f =
     adapted action_missing f (\<lambda>request. prepareActionValues ParseForm request bodyLimit)
       (\<lambda>g request _. writeBackendResult print (g request))"

definition ActionValuesWithBodyLimit ::
  "('c \<Rightarrow> string) \<Rightarrow> (request \<Rightarrow> int \<Rightarrow> bool + 'v) \<Rightarrow> int \<Rightarrow> (app_request \<Rightarrow> 'v \<Rightarrow> 'c outcome) option \<Rightarrow> handler" where
  "ActionValuesWithBodyLimit print ParseForm bodyLimit f =
     adapted action_missing f (\<lambda>request. prepareActionValues ParseForm request bodyLimit)
       (\<lambda>g request v. writeBackendResult print (g request v))"

text \<open>A decoder turns the values into the input of the function; \<open>None\<close> is its error.\<close>

definition ActionFormWithBodyLimit ::
  "('c \<Rightarrow> string) \<Rightarrow> (request \<Rightarrow> int \<Rightarrow> bool + 'v) \<Rightarrow> int \<Rightarrow> ('v \<Rightarrow> 't option) option \<Rightarrow> (app_request \<Rightarrow> 't \<Rightarrow> 'c outcome) option \<Rightarrow> handler" where
  "ActionFormWithBodyLimit print ParseForm bodyLimit decode f =
     adapted action_missing
       (case decode of None \<Rightarrow> None | Some d \<Rightarrow> map_option (Pair d) f)
       (\<lambda>request. prepareActionValues ParseForm request bodyLimit)
       (\<lambda>(d, g) request v w.
          case d v of
            None \<Rightarrow> done_run (WriteNoStoreError 400 ''invalid form'' w)
          | Some input \<Rightarrow> writeBackendResult print (g request input) w)"

definition ActionDataWithBodyLimit ::
  "app_lib \<Rightarrow> ('c \<Rightarrow> string) \<Rightarrow> (request \<Rightarrow> int \<Rightarrow> bool + 'd) \<Rightarrow> (request \<Rightarrow> int \<Rightarrow> bool + 'v) \<Rightarrow> ('v \<Rightarrow> 'd) \<Rightarrow> int \<Rightarrow>
     (app_request \<Rightarrow> 'd \<Rightarrow> 'c outcome) option \<Rightarrow> handler" where
  "ActionDataWithBodyLimit A print ParseMultipart ParseForm from_values bodyLimit f =
     adapted action_missing f (\<lambda>request. prepareActionData A ParseMultipart ParseForm from_values request bodyLimit)
       (\<lambda>g request v. writeBackendResult print (g request v))"

text \<open>An API function reads the body itself, through a reader with the limit.\<close>

definition APIHandlerWithBodyLimit :: "('c \<Rightarrow> string) \<Rightarrow> int \<Rightarrow> (app_request \<Rightarrow> int \<Rightarrow> 'c outcome) option \<Rightarrow> handler" where
  "APIHandlerWithBodyLimit print bodyLimit f request w =
     (case f of
        None \<Rightarrow> NotImplemented ''GOWDK API handler is not implemented'' request w
      | Some g \<Rightarrow> writeBackendResult print (g request (normalizeBodyLimit bodyLimit DefaultAPIBodyLimit)) w)"

section \<open>The router is its list of declarations\<close>

definition is_dynamic :: "BackendRoute \<Rightarrow> bool" where
  "is_dynamic route \<longleftrightarrow> backendRouteIsDynamic (normalizeBackendPath (br_Path route))"

definition entry_of :: "app_lib \<Rightarrow> BackendRoute \<Rightarrow> backendRouteEntry" where
  "entry_of A route =
     \<lparr>be_Method = route_method A route, be_Path = normalizeBackendPath (br_Path route), be_Kind = route_kind A route,
      be_ID = br_EndpointID route,
      be_CORS = (case route_cors A route of Inl _ \<Rightarrow> None | Inr cors \<Rightarrow> cors),
      be_Handler = Boundary (MarshalError A) (route_kind A route) (the (br_Handler route))\<rparr>"

definition route_key :: "app_lib \<Rightarrow> BackendRoute \<Rightarrow> string \<times> string" where
  "route_key A route = (route_method A route, normalizeBackendPath (br_Path route))"

definition answers_query :: "app_lib \<Rightarrow> request \<Rightarrow> BackendRoute \<Rightarrow> bool" where
  "answers_query A req route \<longleftrightarrow> route_kind A route \<noteq> ''query'' \<or> isContractQueryRequest A req"

text \<open>The route that owns a request: the static one with its cleaned path, or the first pattern that matches.\<close>

definition owner :: "app_lib \<Rightarrow> BackendRoute list \<Rightarrow> request \<Rightarrow> BackendRoute option" where
  "owner A routes req =
     (let verb = upper A (TrimSpace (rq_Method req))
      in case find (\<lambda>r. \<not> is_dynamic r \<and> route_key A r = (verb, normalizeBackendPath (rq_Path req))) routes of
           Some r \<Rightarrow> if answers_query A req r then Some r else None
         | None \<Rightarrow>
             find (\<lambda>r. is_dynamic r \<and> route_method A r = verb \<and> answers_query A req r \<and>
                       Match (normalizeBackendPath (br_Path r)) (rq_Path req) \<noteq> None) routes)"

lemma router_handle_Inr:
  assumes "router_handle A router route = Inr router'"
  shows "router' =
    (if is_dynamic route
     then router\<lparr>rt_patterns := rt_patterns router @
            [(canonicalBackendRoutePattern (normalizeBackendPath (br_Path route)), entry_of A route)]\<rparr>
     else router\<lparr>rt_routes := (rt_routes router)(route_key A route \<mapsto> entry_of A route)\<rparr>)"
    "is_dynamic route \<or> rt_routes router (route_key A route) = None"
proof -
  obtain f where f: "br_Handler route = Some f" using assms by (auto simp: router_handle_def Let_def split: if_splits option.splits)
  obtain cors where c: "route_cors A route = Inr cors"
    using assms f by (auto simp: router_handle_def Let_def split: if_splits sum.splits)
  have e: "entry_of A route = \<lparr>be_Method = route_method A route, be_Path = normalizeBackendPath (br_Path route),
      be_Kind = route_kind A route, be_ID = br_EndpointID route, be_CORS = cors,
      be_Handler = Boundary (MarshalError A) (route_kind A route) f\<rparr>"
    by (simp add: entry_of_def f c)
  show "router' =
    (if is_dynamic route
     then router\<lparr>rt_patterns := rt_patterns router @
            [(canonicalBackendRoutePattern (normalizeBackendPath (br_Path route)), entry_of A route)]\<rparr>
     else router\<lparr>rt_routes := (rt_routes router)(route_key A route \<mapsto> entry_of A route)\<rparr>)"
    "is_dynamic route \<or> rt_routes router (route_key A route) = None"
    using assms unfolding e
    by (auto simp: router_handle_def Let_def f c is_dynamic_def route_key_def split: if_splits)
qed

lemma handle_all_routes:
  assumes "handle_all A router routes = Inr router'"
  shows "map snd (rt_patterns router') = map snd (rt_patterns router) @ map (entry_of A) (filter is_dynamic routes) \<and>
    rt_routes router' key =
       (case rt_routes router key of
          Some e \<Rightarrow> Some e
        | None \<Rightarrow> map_option (entry_of A) (find (\<lambda>r. \<not> is_dynamic r \<and> route_key A r = key) routes))"
  using assms
proof (induction routes arbitrary: router)
  case Nil
  then show ?case by (auto split: option.splits)
next
  case (Cons route routes)
  then obtain router1 where r1: "router_handle A router route = Inr router1" "handle_all A router1 routes = Inr router'"
    by (auto split: sum.splits)
  note h = router_handle_Inr [OF r1(1)] and IH = Cons.IH [OF r1(2)]
  show ?case
  proof (cases "is_dynamic route")
    case True
    then have "find (\<lambda>r. \<not> is_dynamic r \<and> route_key A r = key) (route # routes) =
        find (\<lambda>r. \<not> is_dynamic r \<and> route_key A r = key) routes" by (simp only: find.simps simp_thms if_False)
    with True show ?thesis using h(1) IH by (cases "rt_routes router key") simp_all
  next
    case False
    then show ?thesis using h IH by (cases "route_key A route = key") (simp_all split: option.splits)
  qed
qed

lemma dispatchPattern_find:
  "dispatchPattern A router ps verb request w =
     (case find (\<lambda>e. be_Method e = verb \<and> (be_Kind e = ''query'' \<longrightarrow> isContractQueryRequest A (aq_Request request)) \<and>
                     matches e (rq_Path (aq_Request request))) (map snd ps) of
        None \<Rightarrow> not_handled w
      | Some e \<Rightarrow> run_entry A router e request w)"
  by (induction ps) auto

lemma find_map: "find P (map f xs) = map_option f (find (\<lambda>x. P (f x)) xs)"
  by (induction xs) auto

lemma find_filter: "find P (filter Q xs) = find (\<lambda>x. Q x \<and> P x) xs"
  by (induction xs) auto

lemma Dispatch_owner:
  assumes "NewBackendRouter A routes = Inr router"
    and "dispatchCORSPreflight A router (aq_Request request) w = None"
  shows "Dispatch A router request w =
    (case owner A routes (aq_Request request) of
       None \<Rightarrow> not_handled w
     | Some route \<Rightarrow> run_entry A router (entry_of A route) request w)"
proof -
  let ?req = "aq_Request request"
  let ?verb = "upper A (TrimSpace (rq_Method ?req))"
  have "handle_all A empty_router routes = Inr router" using assms(1) by (simp add: NewBackendRouter_def)
  note routes = handle_all_routes [OF this]
  have ps: "map snd (rt_patterns router) = map (entry_of A) (filter is_dynamic routes)"
    and rs: "rt_routes router key = map_option (entry_of A) (find (\<lambda>r. \<not> is_dynamic r \<and> route_key A r = key) routes)" for key
    using routes [of key] by (simp_all add: empty_router_def)
  have f: "be_Kind (entry_of A r) = route_kind A r" "be_Method (entry_of A r) = route_method A r"
    "be_Path (entry_of A r) = normalizeBackendPath (br_Path r)" for r
    by (simp_all add: entry_of_def)
  have pat: "dispatchPattern A router (rt_patterns router) ?verb request w =
      (case find (\<lambda>r. is_dynamic r \<and> route_method A r = ?verb \<and> answers_query A ?req r \<and>
                       Match (normalizeBackendPath (br_Path r)) (rq_Path ?req) \<noteq> None) routes of
         None \<Rightarrow> not_handled w | Some r \<Rightarrow> run_entry A router (entry_of A r) request w)"
  proof -
    have "(\<lambda>r. is_dynamic r \<and> route_method A r = ?verb \<and> (route_kind A r = ''query'' \<longrightarrow> isContractQueryRequest A ?req) \<and>
        Match (normalizeBackendPath (br_Path r)) (rq_Path ?req) \<noteq> None) =
      (\<lambda>r. is_dynamic r \<and> route_method A r = ?verb \<and> answers_query A ?req r \<and>
        Match (normalizeBackendPath (br_Path r)) (rq_Path ?req) \<noteq> None)"
      by (auto simp: answers_query_def fun_eq_iff)
    then show ?thesis
      unfolding dispatchPattern_find ps find_map find_filter f matches_def by (simp split: option.splits)
  qed
  show ?thesis
  proof (cases "find (\<lambda>r. \<not> is_dynamic r \<and> route_key A r = (?verb, normalizeBackendPath (rq_Path ?req))) routes")
    case None
    then show ?thesis by (simp add: Dispatch_def Let_def assms(2) rs owner_def pat)
  next
    case (Some r)
    then show ?thesis by (simp add: Dispatch_def Let_def assms(2) rs owner_def f answers_query_def)
  qed
qed

text \<open>
  C25: a router built from declarations dispatches to the declaration that owns the request, with the
  cross-origin headers its kind and policy allow, or hands the request on untouched when none owns it. The
  map and the list of patterns of the router are an implementation of the list of declarations.
\<close>

theorem Dispatch_selects_owner:
  assumes "NewBackendRouter A routes = Inr router"
    and "dispatchCORSPreflight A router (aq_Request request) w = None"
  shows "Dispatch A router request w =
    (case owner A routes (aq_Request request) of
       None \<Rightarrow> not_handled w
     | Some route \<Rightarrow> run_entry A router (entry_of A route) request w)"
  by (rule Dispatch_owner [OF assms])

section \<open>Panics\<close>

lemma no_store_error_status [simp]:
  "w_status (content_type v status w) = w_status w" "w_status (no_store w) = w_status w"
  "w_status w = None \<Longrightarrow> w_status (writeBody status s w) = Some status"
  by (simp_all add: content_type_def no_store_def writeBody_def Let_def)

lemma WriteErrorPage_500:
  assumes "w_status w = None"
  shows "w_status (WriteErrorPage request status message w) = Some status"
    "w_header (WriteErrorPage request status message w) ''Cache-Control'' = [''no-store'']"
  using assms by (simp_all add: WriteErrorPage_def Let_def http_Error_status header_Set_def canonical_response_keys header_http_Error)

lemma WriteNoStoreError_500:
  assumes "w_status w = None"
  shows "w_status (WriteNoStoreError status message w) = Some status"
    "w_header (WriteNoStoreError status message w) ''Cache-Control'' = [''no-store'']"
  using assms by (simp_all add: WriteNoStoreError_def WriteNoStoreUserError_def http_Error_status header_http_Error
      header_Set_def header_no_store canonical_response_keys)

lemma WriteNoStoreJSONError_500:
  assumes "w_status w = None"
  shows "w_status (WriteNoStoreJSONError M 500 message w) = Some 500"
    "w_header (WriteNoStoreJSONError M 500 message w) ''Cache-Control'' = [''no-store'']"
proof -
  note unfold = WriteNoStoreJSONError_def WriteNoStoreJSONUserError_def Let_def JSONValue_def
  have no: "w_status (no_store w) = None" using assms by simp
  show "w_status (WriteNoStoreJSONError M 500 message w) = Some 500"
    using WriteNoStoreError_500(1) [OF no] no
    by (cases "M (normalizedErrorCode ''request_failed'', message)")
      (simp_all add: unfold WriteHTTP_def JSONBody_def response_def statusOrDefault_def)
  show "w_header (WriteNoStoreJSONError M 500 message w) ''Cache-Control'' = [''no-store'']"
    using WriteNoStoreError_500(2) [OF no]
    by (cases "M (normalizedErrorCode ''request_failed'', message)") (simp_all add: unfold WriteHTTP_header header_no_store)
qed

text \<open>
  The value of a panic stays inside the boundary. Two handlers that differ only in the value they panic
  with give the same run; if nothing was written the client gets an uncached 500, and a response that was
  started is aborted.
\<close>

theorem panic_value_hidden:
  assumes "handle request w = r\<lparr>rn_End := Panicked (PanicValue v)\<rparr>" "handle' request w = r\<lparr>rn_End := Panicked (PanicValue v')\<rparr>"
    and "w_status (rn_Writer r) = None" "b = Boundary Marshal kind handle request w"
  shows "b = Boundary Marshal kind handle' request w \<and>
    (if rn_Wrote r then b = r\<lparr>rn_End := Panicked AbortHandler\<rparr>
     else rn_End b = Returned True \<and> w_status (rn_Writer b) = Some 500 \<and> w_header (rn_Writer b) ''Cache-Control'' = [''no-store''])"
  using assms(3) unfolding assms(4)
  by (simp add: Boundary_def assms(1,2) Let_def done_run_def writeBoundaryError_def WriteErrorPage_500 WriteNoStoreError_500
      WriteNoStoreJSONError_500)

text \<open>
  C26: no panic of an application leaves the router. Whatever its handlers do, a dispatch of a router built
  from declarations returns, or aborts the connection.
\<close>

theorem Dispatch_contains_panics:
  assumes "NewBackendRouter A routes = Inr router"
  shows "rn_End (Dispatch A router request w) \<noteq> Panicked (PanicValue v)"
proof -
  have b: "rn_End (Boundary M kind handle request w) \<noteq> Panicked (PanicValue v)" for M kind handle w
    by (auto simp: Boundary_def Let_def done_run_def split: ending.splits panic_value.splits)
  show ?thesis
  proof (cases "dispatchCORSPreflight A router (aq_Request request) w")
    case None
    then show ?thesis using b unfolding Dispatch_owner [OF assms None]
      by (auto simp: run_entry_def entry_of_def not_handled_def split: option.splits)
  next
    case (Some w')
    then show ?thesis by (simp add: Dispatch_def Let_def done_run_def)
  qed
qed

section \<open>Examples\<close>

definition plain_app_lib :: app_lib where
  "plain_app_lib =
     \<lparr>url_Parse = (\<lambda>_. None), ParseIP = (\<lambda>_. None), lower = ToLower, upper = ToUpper,
      ParseMediaType = (\<lambda>v. Some (v, [])), MarshalError = (\<lambda>(code, message). Some message)\<rparr>"

definition answer :: "string \<Rightarrow> handler" where
  "answer body request w = done_run (write_body body w)"

definition crash :: "string \<Rightarrow> handler" where
  "crash v request w = \<lparr>rn_Writer = w, rn_Wrote = False, rn_End = Panicked (PanicValue v)\<rparr>"

definition sample_routes :: "BackendRoute list" where
  "sample_routes =
     [plain_route ''action'' ''post'' ''/save'' (Some (answer ''saved'')),
      plain_route ''api'' ''GET'' ''/u/{id}'' (Some (answer ''user'')),
      plain_route ''api'' ''GET'' ''/u/me'' (Some (crash ''secret''))]"

definition sample_request :: "string \<Rightarrow> string \<Rightarrow> app_request" where
  "sample_request verb path =
     \<lparr>aq_Request = \<lparr>rq_Method = verb, rq_Path = path, rq_Header = (\<lambda>_. [])\<rparr>, aq_Context = Background\<rparr>"

definition sample_router :: BackendRouter where
  "sample_router = (case NewBackendRouter plain_app_lib sample_routes of Inr r \<Rightarrow> r | Inl _ \<Rightarrow> empty_router)"

lemma sample_router: "NewBackendRouter plain_app_lib sample_routes = Inr sample_router"
proof -
  have "case NewBackendRouter plain_app_lib sample_routes of Inr r \<Rightarrow> True | Inl _ \<Rightarrow> False" by code_simp
  then show ?thesis unfolding sample_router_def by (auto split: sum.splits)
qed

theorem Dispatch_selects_owner_witness:
  "w_body (rn_Writer (Dispatch plain_app_lib sample_router (sample_request ''GET'' ''/u/7'') new_writer)) = ''user'' \<and>
   rn_End (Dispatch plain_app_lib sample_router (sample_request ''PUT'' ''/u/7'') new_writer) = Returned False"
proof -
  have pre: "dispatchCORSPreflight plain_app_lib sample_router (aq_Request (sample_request verb ''/u/7'')) new_writer = None"
    if "verb \<noteq> ''OPTIONS''" for verb
    using that by (simp add: dispatchCORSPreflight_def sample_request_def)
  have "case owner plain_app_lib sample_routes (aq_Request (sample_request ''GET'' ''/u/7'')) of None \<Rightarrow> False
      | Some r \<Rightarrow> w_body (rn_Writer (run_entry plain_app_lib sample_router (entry_of plain_app_lib r)
          (sample_request ''GET'' ''/u/7'') new_writer)) = ''user''"
    "case owner plain_app_lib sample_routes (aq_Request (sample_request ''PUT'' ''/u/7'')) of None \<Rightarrow> True | Some _ \<Rightarrow> False"
    by code_simp+
  then show ?thesis
    using Dispatch_selects_owner [OF sample_router pre, of "''GET''"] Dispatch_selects_owner [OF sample_router pre, of "''PUT''"]
    by (simp add: not_handled_def split: option.splits)
qed

theorem panic_value_hidden_witness:
  "Boundary (\<lambda>_. None) ''api'' (crash ''secret'') (sample_request ''GET'' ''/'') new_writer =
   Boundary (\<lambda>_. None) ''api'' (crash ''other'') (sample_request ''GET'' ''/'') new_writer"
proof -
  let ?r = "\<lparr>rn_Writer = new_writer, rn_Wrote = False, rn_End = Returned True\<rparr>"
  have c: "crash v request new_writer = ?r\<lparr>rn_End := Panicked (PanicValue v)\<rparr>" for v request by (simp add: crash_def)
  have n: "w_status (rn_Writer ?r) = None" by (simp add: new_writer_def)
  show ?thesis
    using panic_value_hidden [where handle = "crash ''secret''" and handle' = "crash ''other''" and r = ?r, OF c c n refl]
    by blast
qed

theorem Dispatch_contains_panics_witness:
  "rn_End (Dispatch plain_app_lib sample_router (sample_request ''GET'' ''/u/me'') new_writer) \<noteq> Panicked (PanicValue ''secret'')"
  by (rule Dispatch_contains_panics [OF sample_router])

end
