(* ===== verification/Base64.thy ===== *)
theory Base64
  imports Http
begin

text \<open>
  Package encoding/base64 without padding, in its standard and its URL alphabet, as the tokens of the
  runtime use it, and the cookies of package net/http. The decoder is the lenient one of the package: it
  skips carriage returns and newlines and ignores the unused bits of the last character.
\<close>

section \<open>Base64\<close>

datatype alphabet = RawStd | RawURL

definition b64_alphabet :: "alphabet \<Rightarrow> string" where
  "b64_alphabet a =
     ''ABCDEFGHIJKLMNOPQRSTUVWXYZabcdefghijklmnopqrstuvwxyz0123456789'' @ (case a of RawStd \<Rightarrow> ''+/'' | RawURL \<Rightarrow> ''-_'')"

definition b64_char :: "alphabet \<Rightarrow> nat \<Rightarrow> char" where
  "b64_char a n = b64_alphabet a ! n"

definition b64_value :: "alphabet \<Rightarrow> char \<Rightarrow> nat option" where
  "b64_value a c = index_byte (b64_alphabet a) c"

text \<open>The numbers of the characters, four for three bytes.\<close>

fun sextets :: "nat list \<Rightarrow> nat list" where
  "sextets [] = []"
| "sextets [x] = [x div 4, x mod 4 * 16]"
| "sextets [x, y] = [x div 4, x mod 4 * 16 + y div 16, y mod 16 * 4]"
| "sextets (x # y # z # bs) = (x div 4) # (x mod 4 * 16 + y div 16) # (y mod 16 * 4 + z div 64) # (z mod 64) # sextets bs"

fun octets :: "nat list \<Rightarrow> nat list option" where
  "octets [] = Some []"
| "octets [p] = None"
| "octets [p, q] = Some [p * 4 + q div 16]"
| "octets [p, q, r] = Some [p * 4 + q div 16, q mod 16 * 16 + r div 4]"
| "octets (p # q # r # s # ss) =
     map_option (\<lambda>bs. (p * 4 + q div 16) # (q mod 16 * 16 + r div 4) # (r mod 4 * 64 + s) # bs) (octets ss)"

definition EncodeToString :: "alphabet \<Rightarrow> string \<Rightarrow> string" where
  "EncodeToString a s = map (b64_char a) (sextets (map of_char s))"

definition DecodeString :: "alphabet \<Rightarrow> string \<Rightarrow> string option" where
  "DecodeString a s =
     (let ns = map (b64_value a) (filter (\<lambda>c. c \<noteq> CHR 0x0D \<and> c \<noteq> CHR 0x0A) s)
      in if None \<in> set ns then None else map_option (map char_of) (octets (map the ns)))"

section \<open>The encoding can be read back\<close>

lemma index_byte_nth: "distinct s \<Longrightarrow> n < length s \<Longrightarrow> index_byte s (s ! n) = Some n"
proof (induction s arbitrary: n)
  case (Cons c s)
  then show ?case by (cases n) auto
qed simp

lemma b64_alphabet_facts:
  "distinct (b64_alphabet a)" "length (b64_alphabet a) = 64"
  "list_all (\<lambda>c. c \<notin> set ([CHR 0x0D, CHR 0x0A] @ ''.$ ;'')) (b64_alphabet a)"
  by (cases a; simp add: b64_alphabet_def)+

lemma b64_value_char: "n < 64 \<Longrightarrow> b64_value a (b64_char a n) = Some n"
  using b64_alphabet_facts [of a] by (simp add: b64_value_def b64_char_def index_byte_nth)

lemma b64_char_plain: "n < 64 \<Longrightarrow> b64_char a n \<notin> set ([CHR 0x0D, CHR 0x0A] @ ''.$ ;'')"
  using b64_alphabet_facts(2,3) [of a] unfolding list_all_length b64_char_def by metis

lemma sextet_bounds:
  fixes x y z :: nat
  shows "y < 256 \<Longrightarrow> x mod 4 * 16 + y div 16 < 64" "z < 256 \<Longrightarrow> y mod 16 * 4 + z div 64 < 64" "x < 256 \<Longrightarrow> x div 4 < 64"
    "x mod 4 * 16 < 64" "y mod 16 * 4 < 64"
proof -
  have m: "x mod 4 < 4" "y mod 16 < 16" by simp_all
  show "y < 256 \<Longrightarrow> x mod 4 * 16 + y div 16 < 64" using m(1) less_mult_imp_div_less [of y 16 16] by simp
  show "z < 256 \<Longrightarrow> y mod 16 * 4 + z div 64 < 64" using m(2) less_mult_imp_div_less [of z 4 64] by simp
  show "x < 256 \<Longrightarrow> x div 4 < 64" by (simp add: less_mult_imp_div_less)
  show "x mod 4 * 16 < 64" "y mod 16 * 4 < 64" using m by simp_all
qed

lemma sextets_bound: "list_all (\<lambda>b. b < 256) bs \<Longrightarrow> list_all (\<lambda>n. n < 64) (sextets bs)"
proof (induction bs rule: sextets.induct)
  case (4 x y z bs)
  have "x < 256" "y < 256" "z < 256" using 4(2) by simp_all
  then have "x mod 4 * 16 + y div 16 < 64" "y mod 16 * 4 + z div 64 < 64" "x div 4 < 64" by (auto intro: sextet_bounds)
  with 4 show ?case by simp
next
  case (3 x y)
  have "x < 256" "y < 256" using 3 by simp_all
  then have "x mod 4 * 16 + y div 16 < 64" "y mod 16 * 4 < 64" "x div 4 < 64" by (auto intro: sextet_bounds)
  then show ?case by simp
next
  case (2 x)
  have "x < 256" using 2 by simp
  then have "x mod 4 * 16 < 64" "x div 4 < 64" by (auto intro: sextet_bounds)
  then show ?case by simp
qed simp

lemma octets_sextets: "list_all (\<lambda>b. b < 256) bs \<Longrightarrow> octets (sextets bs) = Some bs"
proof (induction bs rule: sextets.induct)
  case (4 x y z bs)
  have "(x mod 4 * 16 + y div 16) div 16 = x mod 4" "(x mod 4 * 16 + y div 16) mod 16 = y div 16"
    using 4(2) by (simp_all add: div_less_iff_less_mult)
  moreover have "(y mod 16 * 4 + z div 64) div 4 = y mod 16" "(y mod 16 * 4 + z div 64) mod 4 = z div 64"
    using 4(2) by (simp_all add: div_less_iff_less_mult)
  ultimately show ?case using 4 by simp
next
  case (3 x y)
  have "(x mod 4 * 16 + y div 16) div 16 = x mod 4" "(x mod 4 * 16 + y div 16) mod 16 = y div 16"
    using 3 by (simp_all add: div_less_iff_less_mult)
  then show ?case by simp
qed simp_all

lemma bytes_bound [simp]: "list_all (\<lambda>b. b < 256) (map of_char s :: nat list)"
  by (simp add: list_all_iff nat_of_char_less_256)

lemma EncodeToString_chars:
  "c \<in> set (EncodeToString a s) \<Longrightarrow> c \<notin> set ([CHR 0x0D, CHR 0x0A] @ ''.$ ;'')"
proof -
  assume "c \<in> set (EncodeToString a s)"
  then obtain n where "n \<in> set (sextets (map of_char s))" "c = b64_char a n" by (auto simp: EncodeToString_def)
  moreover from this have "n < 64" using sextets_bound [OF bytes_bound, of s] by (simp add: list_all_iff)
  ultimately show ?thesis using b64_char_plain by metis
qed

lemma DecodeString_EncodeToString [simp]: "DecodeString a (EncodeToString a s) = Some s"
proof -
  let ?ns = "sextets (map of_char s :: nat list)"
  have "filter (\<lambda>c. c \<noteq> CHR 0x0D \<and> c \<noteq> CHR 0x0A) (EncodeToString a s) = EncodeToString a s"
    using EncodeToString_chars [of _ a s] by (auto intro: filter_True)
  moreover have "map (b64_value a) (EncodeToString a s) = map Some ?ns"
    using sextets_bound [OF bytes_bound, of s] b64_value_char by (simp add: EncodeToString_def list_all_iff)
  ultimately have "DecodeString a (EncodeToString a s) = map_option (map char_of) (octets ?ns)"
    by (simp add: DecodeString_def Let_def image_iff comp_def)
  then show ?thesis by (simp add: octets_sextets comp_def)
qed

lemma EncodeToString_inject [simp]: "EncodeToString a s = EncodeToString a t \<longleftrightarrow> s = t"
  using DecodeString_EncodeToString by (metis option.inject)

lemma EncodeToString_Nil [simp]: "EncodeToString a s = [] \<longleftrightarrow> s = []"
proof -
  have "EncodeToString a [] = []" by (simp add: EncodeToString_def)
  then show ?thesis using EncodeToString_inject [of a s "[]"] by simp
qed

lemma b64_alphabet_plain: "list_all plain (b64_alphabet a)"
  by (cases a; simp add: b64_alphabet_def plain_def)

lemma EncodeToString_plain: "list_all plain (EncodeToString a s)"
proof -
  have "plain (b64_char a n)" if "n < 64" for n
    using that b64_alphabet_plain [of a] b64_alphabet_facts(2) [of a] by (simp add: b64_char_def list_all_length)
  then show ?thesis using sextets_bound [OF bytes_bound, of s] by (simp add: EncodeToString_def list_all_iff)
qed

lemma TrimSpace_EncodeToString [simp]: "TrimSpace (EncodeToString a s) = EncodeToString a s"
proof (cases "EncodeToString a s = []")
  case True
  show ?thesis unfolding True by code_simp
next
  case False
  then show ?thesis using EncodeToString_plain [of a s] by (intro TrimSpace_plain) (simp_all add: list_all_iff)
qed

text \<open>The decoder is not injective: newlines are skipped, and the last character has unused bits.\<close>

lemma DecodeString_lenient:
  "DecodeString RawURL ''YQ'' = Some ''a''" "DecodeString RawURL ''YR'' = Some ''a''"
  "DecodeString RawURL (''Y'' @ [CHR 0x0A] @ ''Q'') = Some ''a''" "DecodeString RawURL ''Y'' = None"
  "DecodeString RawURL ''YQ=='' = None" "DecodeString RawURL ''+/'' = None"
  by code_simp+

section \<open>Cookies\<close>

text \<open>\<open>http.Cookie\<close> as far as the runtime sets it. The constants of \<open>http.SameSite\<close> count from 1.\<close>

record http_cookie =
  ck_Name :: string
  ck_Value :: string
  ck_Path :: string
  ck_Expires :: "int option"
  ck_MaxAge :: int
  ck_HttpOnly :: bool
  ck_Secure :: bool
  ck_SameSite :: int

definition SameSiteLaxMode :: int where
  "SameSiteLaxMode = 2"

end
