(* ===== verification/Csrf.thy ===== *)
theory Csrf
  imports Base64 Response
begin

text \<open>
  Signed double-submit CSRF tokens (runtime/actions/csrf.go). HMAC-SHA256 is the parameter \<open>Mac\<close> of the key
  and the message, and \<open>crypto/rand\<close> hands over the nonce or fails. A request carries what the validator
  reads: its cookies, its headers, the parsed form and, behind the record, what the binding reads.
\<close>

section \<open>Options\<close>

record form_request =
  fr_Cookie :: "string \<Rightarrow> string option"
  fr_Header :: header
  fr_PostForm :: "(string \<Rightarrow> string) option"

record 'r CSRFOptions =
  co_Secret :: string
  co_VerificationSecrets :: "string list"
  co_CookieName :: string
  co_FieldName :: string
  co_HeaderName :: string
  co_Insecure :: bool
  co_SameSite :: int
  co_Binding :: "('r \<Rightarrow> string) option"

record 'r CSRF =
  cs_secret :: string
  cs_verificationSecrets :: "string list"
  cs_cookieName :: string
  cs_fieldName :: string
  cs_headerName :: string
  cs_secure :: bool
  cs_sameSite :: int
  cs_binding :: "('r \<Rightarrow> string) option"

datatype csrf_error =
    ShortSecret | ShortVerificationSecret nat | SecureCookieName string
  | CookieMissing | BadForm | TokenMissing | TokenMismatch | SignatureInvalid | NoRandom

definition secureCookiePrefix :: "string \<Rightarrow> bool" where
  "secureCookiePrefix name \<longleftrightarrow> HasPrefix name ''__Host-'' \<or> HasPrefix name ''__Secure-''"

text \<open>The number of the first verification secret that is too short, from 1.\<close>

fun short_secret :: "nat \<Rightarrow> string list \<Rightarrow> nat option" where
  "short_secret i [] = None"
| "short_secret i (secret # secrets) = (if length secret < 32 then Some (i + 1) else short_secret (i + 1) secrets)"

definition or_else :: "string \<Rightarrow> string \<Rightarrow> string" where
  "or_else v fallback = (if v = [] then fallback else v)"

definition NewCSRF :: "'r CSRFOptions \<Rightarrow> csrf_error + 'r CSRF" where
  "NewCSRF options =
     (if length (co_Secret options) < 32 then Inl ShortSecret
      else
        (case short_secret 0 (co_VerificationSecrets options) of
           Some i \<Rightarrow> Inl (ShortVerificationSecret i)
         | None \<Rightarrow>
             let cookieName = or_else (co_CookieName options)
                   (if co_Insecure options then ''gowdk-csrf'' else ''__Host-gowdk-csrf'')
             in if co_Insecure options \<and> secureCookiePrefix cookieName then Inl (SecureCookieName cookieName)
                else Inr \<lparr>cs_secret = co_Secret options, cs_verificationSecrets = co_VerificationSecrets options,
                          cs_cookieName = cookieName, cs_fieldName = or_else (co_FieldName options) ''_gowdk_csrf'',
                          cs_headerName = or_else (co_HeaderName options) ''X-GOWDK-CSRF'',
                          cs_secure = (\<not> co_Insecure options),
                          cs_sameSite = (if co_SameSite options = 0 then SameSiteLaxMode else co_SameSite options),
                          cs_binding = co_Binding options\<rparr>))"

section \<open>Tokens\<close>

definition bindingFor :: "'r CSRF \<Rightarrow> 'r option \<Rightarrow> string" where
  "bindingFor csrf request = (case (cs_binding csrf, request) of (Some b, Some r) \<Rightarrow> b r | _ \<Rightarrow> [])"

definition sign :: "(string \<Rightarrow> string \<Rightarrow> string) \<Rightarrow> 'r CSRF \<Rightarrow> string \<Rightarrow> string \<Rightarrow> string" where
  "sign Mac csrf nonce binding = EncodeToString RawURL (nonce @ Mac (cs_secret csrf) (nonce @ binding))"

definition decodeCSRFToken :: "string \<Rightarrow> (string \<times> string) option" where
  "decodeCSRFToken token =
     (case DecodeString RawURL token of
        None \<Rightarrow> None
      | Some raw \<Rightarrow> if length raw \<noteq> 32 + 32 then None else Some (take 32 raw, drop 32 raw))"

definition csrfSignatureMatches :: "(string \<Rightarrow> string \<Rightarrow> string) \<Rightarrow> string \<Rightarrow> string \<Rightarrow> string \<Rightarrow> string \<Rightarrow> bool" where
  "csrfSignatureMatches Mac secret nonce binding signature \<longleftrightarrow> signature = Mac secret (nonce @ binding)"

definition valid :: "(string \<Rightarrow> string \<Rightarrow> string) \<Rightarrow> 'r CSRF \<Rightarrow> string \<Rightarrow> string \<Rightarrow> bool" where
  "valid Mac csrf token binding =
     (case decodeCSRFToken token of
        None \<Rightarrow> False
      | Some (nonce, signature) \<Rightarrow>
          fold (\<lambda>secret matches. matches \<or> csrfSignatureMatches Mac secret nonce binding signature)
            (cs_verificationSecrets csrf) (csrfSignatureMatches Mac (cs_secret csrf) nonce binding signature))"

definition validWithPrimary :: "(string \<Rightarrow> string \<Rightarrow> string) \<Rightarrow> 'r CSRF \<Rightarrow> string \<Rightarrow> string \<Rightarrow> bool" where
  "validWithPrimary Mac csrf token binding =
     (case decodeCSRFToken token of
        None \<Rightarrow> False
      | Some (nonce, signature) \<Rightarrow> csrfSignatureMatches Mac (cs_secret csrf) nonce binding signature)"

definition csrf_cookie :: "'r CSRF \<Rightarrow> string \<Rightarrow> http_cookie" where
  "csrf_cookie csrf token =
     \<lparr>ck_Name = cs_cookieName csrf, ck_Value = token, ck_Path = ''/'', ck_Expires = None, ck_MaxAge = 0,
      ck_HttpOnly = True, ck_Secure = cs_secure csrf, ck_SameSite = cs_sameSite csrf\<rparr>"

text \<open>The token of a form. A valid cookie of the request is used again, otherwise a new one is set.\<close>

definition Token ::
  "(string \<Rightarrow> string \<Rightarrow> string) \<Rightarrow> (http_cookie \<Rightarrow> string) \<Rightarrow> string option \<Rightarrow> 'a form_request_scheme CSRF \<Rightarrow>
     'a form_request_scheme option \<Rightarrow> writer \<Rightarrow> (csrf_error + string) \<times> writer" where
  "Token Mac print random csrf request w =
     (let binding = bindingFor csrf request;
          reused = (case Option.bind request (\<lambda>r. fr_Cookie r (cs_cookieName csrf)) of
                      Some v \<Rightarrow> if validWithPrimary Mac csrf v binding then Some v else None
                    | None \<Rightarrow> None)
      in case reused of
           Some v \<Rightarrow> (Inr v, w)
         | None \<Rightarrow>
             (case random of
                None \<Rightarrow> (Inl NoRandom, w)
              | Some nonce \<Rightarrow>
                  let token = sign Mac csrf nonce binding
                  in (Inr token, SetCookie print (csrf_cookie csrf token) w)))"

text \<open>The token a request submits, in its header or in its form; \<open>None\<close> is a form that does not parse.\<close>

definition submitted :: "'a form_request_scheme CSRF \<Rightarrow> 'a form_request_scheme \<Rightarrow> string option" where
  "submitted csrf request =
     (let v = header_Get (fr_Header request) (cs_headerName csrf)
      in if v \<noteq> [] then Some v else map_option (\<lambda>form. form (cs_fieldName csrf)) (fr_PostForm request))"

definition Validate :: "(string \<Rightarrow> string \<Rightarrow> string) \<Rightarrow> 'a form_request_scheme CSRF \<Rightarrow> 'a form_request_scheme \<Rightarrow> csrf_error option" where
  "Validate Mac csrf request =
     (case fr_Cookie request (cs_cookieName csrf) of
        None \<Rightarrow> Some CookieMissing
      | Some cookie \<Rightarrow>
          (case submitted csrf request of
             None \<Rightarrow> Some BadForm
           | Some v \<Rightarrow>
               if v = [] then Some TokenMissing
               else if cookie \<noteq> v then Some TokenMismatch
               else if \<not> valid Mac csrf v (bindingFor csrf (Some request)) then Some SignatureInvalid
               else None))"

section \<open>Tokens are read back\<close>

lemma decodeCSRFToken_sign:
  assumes "length nonce = 32" "length (Mac (cs_secret csrf) (nonce @ binding)) = 32"
  shows "decodeCSRFToken (sign Mac csrf nonce binding) = Some (nonce, Mac (cs_secret csrf) (nonce @ binding))"
  using assms by (simp add: decodeCSRFToken_def sign_def)

lemma fold_matches: "fold (\<lambda>x b. b \<or> P x) xs b \<longleftrightarrow> b \<or> list_ex P xs"
  by (induction xs arbitrary: b) auto

text \<open>A token is valid for a binding when it is a nonce and its signature under one of the keys.\<close>

lemma decodeCSRFToken_Some:
  "decodeCSRFToken token = Some (nonce, signature) \<longleftrightarrow>
     DecodeString RawURL token = Some (nonce @ signature) \<and> length nonce = 32 \<and> length signature = 32"
proof
  assume "DecodeString RawURL token = Some (nonce @ signature) \<and> length nonce = 32 \<and> length signature = 32"
  then show "decodeCSRFToken token = Some (nonce, signature)" by (simp add: decodeCSRFToken_def)
qed (auto simp: decodeCSRFToken_def split: option.splits if_splits)

lemma valid_iff:
  "valid Mac csrf token binding \<longleftrightarrow>
     (\<exists>nonce signature. DecodeString RawURL token = Some (nonce @ signature) \<and> length nonce = 32 \<and> length signature = 32 \<and>
        (\<exists>secret\<in>set (cs_secret csrf # cs_verificationSecrets csrf). signature = Mac secret (nonce @ binding)))"
proof (cases "decodeCSRFToken token")
  case None
  have "\<not> (DecodeString RawURL token = Some (nonce @ signature) \<and> length nonce = 32 \<and> length signature = 32)" for nonce signature
    using decodeCSRFToken_Some [of token nonce signature] None by simp
  then show ?thesis unfolding valid_def None by (simp del: length_append) metis
next
  case (Some p)
  obtain nonce signature where p: "p = (nonce, signature)" by (cases p)
  have d: "DecodeString RawURL token = Some (n @ s) \<and> length n = 32 \<and> length s = 32 \<longleftrightarrow> n = nonce \<and> s = signature" for n s
    using decodeCSRFToken_Some [of token n s] Some p by auto
  show ?thesis
    using d by (simp add: valid_def Some p fold_matches csrfSignatureMatches_def list_ex_iff) metis
qed

text \<open>
  C32: a request is accepted exactly when it submits the value of its CSRF cookie, and that value is a nonce
  with its signature, for the identity the request is bound to, under the signing key or a verification key.
\<close>

theorem Validate_exact:
  "Validate Mac csrf request = None \<longleftrightarrow>
     (\<exists>token nonce signature. fr_Cookie request (cs_cookieName csrf) = Some token \<and> submitted csrf request = Some token \<and>
        token \<noteq> [] \<and> DecodeString RawURL token = Some (nonce @ signature) \<and> length nonce = 32 \<and> length signature = 32 \<and>
        (\<exists>secret\<in>set (cs_secret csrf # cs_verificationSecrets csrf).
           signature = Mac secret (nonce @ bindingFor csrf (Some request))))"
proof -
  have "Validate Mac csrf request = None \<longleftrightarrow>
      (\<exists>token. fr_Cookie request (cs_cookieName csrf) = Some token \<and> submitted csrf request = Some token \<and>
         token \<noteq> [] \<and> valid Mac csrf token (bindingFor csrf (Some request)))"
    by (auto simp: Validate_def split: option.splits)
  then show ?thesis unfolding valid_iff by blast
qed

lemma sign_not_Nil: "length nonce = 32 \<Longrightarrow> sign Mac csrf nonce binding \<noteq> []"
  by (auto simp: sign_def)

lemma valid_sign:
  assumes "length nonce = 32" "length (Mac (cs_secret csrf) (nonce @ binding)) = 32"
  shows "valid Mac csrf' (sign Mac csrf nonce binding) b \<longleftrightarrow>
    (\<exists>secret\<in>set (cs_secret csrf' # cs_verificationSecrets csrf'). Mac (cs_secret csrf) (nonce @ binding) = Mac secret (nonce @ b))"
  by (simp add: valid_def decodeCSRFToken_sign [where Mac = Mac and csrf = csrf, OF assms] fold_matches csrfSignatureMatches_def list_ex_iff)

lemma validWithPrimary_valid: "validWithPrimary Mac csrf token b \<Longrightarrow> valid Mac csrf token b"
  by (auto simp: valid_def validWithPrimary_def fold_matches split: option.splits)

lemma validWithPrimary_sign:
  assumes "length nonce = 32" "length (Mac (cs_secret csrf) (nonce @ binding)) = 32"
  shows "validWithPrimary Mac csrf' (sign Mac csrf nonce binding) b \<longleftrightarrow>
    Mac (cs_secret csrf) (nonce @ binding) = Mac (cs_secret csrf') (nonce @ b)"
  by (simp add: validWithPrimary_def decodeCSRFToken_sign [where Mac = Mac and csrf = csrf, OF assms] csrfSignatureMatches_def)

lemma decode_not_Nil: "decodeCSRFToken token = Some p \<Longrightarrow> token \<noteq> []"
  by (auto simp: decodeCSRFToken_def DecodeString_def)

text \<open>The token a form gets is valid under the signing key.\<close>

lemma Token_valid:
  assumes "\<And>m. length (Mac (cs_secret csrf) m) = 32" "\<And>nonce. random = Some nonce \<Longrightarrow> length nonce = 32"
    and "Token Mac print random csrf request w = (Inr token, w')"
  shows "validWithPrimary Mac csrf token (bindingFor csrf request) \<and> token \<noteq> []"
proof -
  let ?b = "bindingFor csrf request"
  have "validWithPrimary Mac csrf token ?b"
  proof (cases "\<exists>v. Option.bind request (\<lambda>r. fr_Cookie r (cs_cookieName csrf)) = Some v \<and> validWithPrimary Mac csrf v ?b")
    case True
    then show ?thesis using assms(3) by (auto simp: Token_def Let_def split: option.splits)
  next
    case False
    then obtain nonce where "random = Some nonce" "token = sign Mac csrf nonce ?b"
      using assms(3) by (auto simp: Token_def Let_def split: option.splits if_splits)
    then show ?thesis using assms(1,2) validWithPrimary_sign [of nonce Mac csrf ?b csrf ?b] by simp
  qed
  moreover from this have "token \<noteq> []" using decode_not_Nil by (auto simp: validWithPrimary_def split: option.splits)
  ultimately show ?thesis ..
qed

text \<open>
  The token of a form is accepted when it comes back. A request bound to the same identity that submits
  it, with the cookie of the answer, is accepted, and its forms get the same token without a new cookie.
\<close>

theorem token_comes_back:
  assumes "\<And>m. length (Mac (cs_secret csrf) m) = 32" "\<And>nonce. random = Some nonce \<Longrightarrow> length nonce = 32"
    and "Token Mac print random csrf request w = (Inr token, w')"
    and "fr_Cookie request' (cs_cookieName csrf) = Some token" "submitted csrf request' = Some token"
    and "bindingFor csrf (Some request') = bindingFor csrf request"
  shows "Validate Mac csrf request' = None \<and> Token Mac print random' csrf (Some request') v = (Inr token, v)"
proof -
  have t: "validWithPrimary Mac csrf token (bindingFor csrf request)" "token \<noteq> []"
    using Token_valid [where Mac = Mac and csrf = csrf, OF assms(1-3)] by blast+
  then have "Validate Mac csrf request' = None"
    using assms(4-6) validWithPrimary_valid by (simp add: Validate_def)
  moreover have "Token Mac print random' csrf (Some request') v = (Inr token, v)"
    using assms(4,6) t(1) by (simp add: Token_def Let_def)
  ultimately show ?thesis ..
qed

text \<open>
  A token belongs to one identity. A token made for one binding is refused for another when no accepted
  key gives the two bindings of its nonce the same signature.
\<close>

theorem token_is_bound:
  assumes "length nonce = 32" "length (Mac (cs_secret csrf) (nonce @ binding)) = 32"
    and "\<forall>secret\<in>set (cs_secret csrf # cs_verificationSecrets csrf).
      Mac secret (nonce @ bindingFor csrf (Some request)) \<noteq> Mac (cs_secret csrf) (nonce @ binding)"
    and "fr_Cookie request (cs_cookieName csrf) = Some (sign Mac csrf nonce binding)"
  shows "Validate Mac csrf request \<noteq> None"
proof -
  have "\<not> valid Mac csrf (sign Mac csrf nonce binding) (bindingFor csrf (Some request))"
    using assms(3) unfolding valid_sign [where Mac = Mac and csrf = csrf, OF assms(1,2)] by fastforce
  then show ?thesis using assms(4) by (auto simp: Validate_def split: option.splits)
qed

text \<open>
  Keys can be rotated. When the old signing key stays as a verification key, a token of the old manager
  is still accepted by the new one, and the next form replaces it by a token of the new key, which does not
  need the old key any more.
\<close>

theorem rotation_migrates:
  fixes old new :: "'a form_request_scheme CSRF"
  assumes "cs_secret old \<in> set (cs_verificationSecrets new)" "cs_cookieName new = cs_cookieName old"
    and "\<And>k m. length (Mac k m) = 32" "length nonce = 32" "length nonce' = 32"
    and "fr_Cookie request (cs_cookieName old) = Some (sign Mac old nonce (bindingFor new (Some request)))"
    and "submitted new request = fr_Cookie request (cs_cookieName old)"
    and "Mac (cs_secret old) (nonce @ bindingFor new (Some request)) \<noteq> Mac (cs_secret new) (nonce @ bindingFor new (Some request))"
  shows "Validate Mac new request = None \<and>
    (\<exists>token. Token Mac print (Some nonce') new (Some request) w = (Inr token, SetCookie print (csrf_cookie new token) w) \<and>
       (\<forall>b. valid Mac (new\<lparr>cs_verificationSecrets := []\<rparr>) token b \<longleftrightarrow>
          Mac (cs_secret new) (nonce' @ bindingFor new (Some request)) = Mac (cs_secret new) (nonce' @ b)))"
proof
  let ?b = "bindingFor new (Some request)"
  have "valid Mac new (sign Mac old nonce ?b) ?b"
    using assms(1,3,4) by (auto simp: valid_sign [where csrf = old])
  then show "Validate Mac new request = None"
    using assms(2,4,6,7) sign_not_Nil [of nonce Mac old ?b] by (simp add: Validate_def)
  have "\<not> validWithPrimary Mac new (sign Mac old nonce ?b) ?b"
    using assms(3,4,8) by (simp add: validWithPrimary_sign [where csrf = old])
  then have "Token Mac print (Some nonce') new (Some request) w =
      (Inr (sign Mac new nonce' ?b), SetCookie print (csrf_cookie new (sign Mac new nonce' ?b)) w)"
    using assms(2,6) by (simp add: Token_def Let_def)
  moreover have "valid Mac (new\<lparr>cs_verificationSecrets := []\<rparr>) (sign Mac new nonce' ?b) b \<longleftrightarrow>
      Mac (cs_secret new) (nonce' @ ?b) = Mac (cs_secret new) (nonce' @ b)" for b
    using assms(3,5) by (simp add: valid_sign [where csrf = new])
  ultimately show "\<exists>token. Token Mac print (Some nonce') new (Some request) w =
        (Inr token, SetCookie print (csrf_cookie new token) w) \<and>
      (\<forall>b. valid Mac (new\<lparr>cs_verificationSecrets := []\<rparr>) token b \<longleftrightarrow>
         Mac (cs_secret new) (nonce' @ ?b) = Mac (cs_secret new) (nonce' @ b))"
    by blast
qed

text \<open>What \<open>NewCSRF\<close> promises of a manager.\<close>

lemma short_secret_None: "short_secret i secrets = None \<longleftrightarrow> (\<forall>secret\<in>set secrets. 32 \<le> length secret)"
  by (induction secrets arbitrary: i) auto

lemma NewCSRF_safe:
  assumes "NewCSRF options = Inr csrf"
  shows "\<forall>secret\<in>set (cs_secret csrf # cs_verificationSecrets csrf). 32 \<le> length secret"
    "secureCookiePrefix (cs_cookieName csrf) \<Longrightarrow> cs_secure csrf" "cs_cookieName csrf \<noteq> []"
  using assms short_secret_None [of 0 "co_VerificationSecrets options"]
  by (auto simp: NewCSRF_def Let_def or_else_def split: if_splits option.splits)

section \<open>Samples\<close>

text \<open>A stand-in for the signature: 32 bytes that depend on the key and the message.\<close>

definition sample_mac :: "string \<Rightarrow> string \<Rightarrow> string" where
  "sample_mac k m = (let s = take 16 k @ drop 32 m in take 32 (s @ replicate 32 CHR ''0''))"

lemma length_sample_mac: "length (sample_mac k m) = 32"
  by (simp add: sample_mac_def Let_def)

record user_request = form_request +
  fr_User :: string

definition sample_csrf :: "string \<Rightarrow> string list \<Rightarrow> user_request CSRF" where
  "sample_csrf secret others =
     \<lparr>cs_secret = secret, cs_verificationSecrets = others, cs_cookieName = ''__Host-gowdk-csrf'', cs_fieldName = ''_gowdk_csrf'',
      cs_headerName = ''X-GOWDK-CSRF'', cs_secure = True, cs_sameSite = 2, cs_binding = Some fr_User\<rparr>"

definition sample_form :: "string option \<Rightarrow> string \<Rightarrow> user_request" where
  "sample_form token user =
     \<lparr>fr_Cookie = (\<lambda>name. if name = ''__Host-gowdk-csrf'' then token else None), fr_Header = (\<lambda>_. []),
      fr_PostForm = Some (\<lambda>name. if name = ''_gowdk_csrf'' then (case token of Some t \<Rightarrow> t | None \<Rightarrow> []) else []), fr_User = user\<rparr>"

definition key_a :: string where
  "key_a = replicate 32 CHR ''a''"

definition key_b :: string where
  "key_b = replicate 32 CHR ''b''"

definition nonce_a :: string where
  "nonce_a = replicate 32 CHR ''n''"

lemma sample_lengths: "length nonce_a = 32"
  by (simp add: nonce_a_def)

lemma sample_form_token:
  "fr_Cookie (sample_form t user) (cs_cookieName (sample_csrf k ks)) = t"
  "submitted (sample_csrf k ks) (sample_form (Some v) user) = Some v"
  "bindingFor (sample_csrf k ks) (Some (sample_form t user)) = user"
  by (simp_all add: sample_form_def sample_csrf_def submitted_def header_Get_def header_Values_def bindingFor_def)

definition fresh_token :: "string \<Rightarrow> string \<Rightarrow> string" where
  "fresh_token k user = sign sample_mac (sample_csrf k []) nonce_a user"

lemma sample_Token:
  "Token sample_mac (\<lambda>_. ''c'') (Some nonce_a) (sample_csrf key_a []) (Some (sample_form None ''ada'')) new_writer =
     (Inr (fresh_token key_a ''ada''), SetCookie (\<lambda>_. ''c'') (csrf_cookie (sample_csrf key_a []) (fresh_token key_a ''ada'')) new_writer)"
  by (simp add: Token_def sample_form_token fresh_token_def Let_def)

theorem token_comes_back_witness:
  "Validate sample_mac (sample_csrf key_a []) (sample_form (Some (fresh_token key_a ''ada'')) ''ada'') = None"
  by (rule conjunct1, rule token_comes_back [where csrf = "sample_csrf key_a []" and random = "Some nonce_a", OF _ _ sample_Token])
    (simp_all add: length_sample_mac sample_lengths sample_form_token)

theorem token_is_bound_witness:
  "Validate sample_mac (sample_csrf key_a []) (sample_form (Some (fresh_token key_a ''ada'')) ''bob'') \<noteq> None"
proof (rule token_is_bound [where nonce = nonce_a and binding = "''ada''"])
  show "\<forall>secret\<in>set (cs_secret (sample_csrf key_a []) # cs_verificationSecrets (sample_csrf key_a [])).
      sample_mac secret (nonce_a @ bindingFor (sample_csrf key_a []) (Some (sample_form (Some (fresh_token key_a ''ada'')) ''bob''))) \<noteq>
      sample_mac (cs_secret (sample_csrf key_a [])) (nonce_a @ ''ada'')"
    by (simp add: sample_form_token) (simp add: sample_csrf_def sample_mac_def key_a_def nonce_a_def)
qed (simp_all add: sample_lengths length_sample_mac sample_form_token fresh_token_def)

theorem rotation_migrates_witness:
  "Validate sample_mac (sample_csrf key_b [key_a]) (sample_form (Some (fresh_token key_a ''ada'')) ''ada'') = None"
proof (rule conjunct1, rule rotation_migrates [where old = "sample_csrf key_a []" and nonce = nonce_a and nonce' = nonce_a])
  show "sample_mac (cs_secret (sample_csrf key_a []))
      (nonce_a @ bindingFor (sample_csrf key_b [key_a]) (Some (sample_form (Some (fresh_token key_a ''ada'')) ''ada''))) \<noteq>
     sample_mac (cs_secret (sample_csrf key_b [key_a]))
      (nonce_a @ bindingFor (sample_csrf key_b [key_a]) (Some (sample_form (Some (fresh_token key_a ''ada'')) ''ada'')))"
    by (simp add: sample_form_token) (simp add: sample_csrf_def sample_mac_def key_a_def key_b_def nonce_a_def)
qed (simp_all add: sample_lengths length_sample_mac sample_form_token fresh_token_def, simp_all add: sample_csrf_def)

end
