(* ===== verification/Guard.thy ===== *)
theory Guard
  imports Response
begin

text \<open>
  Request-time guards (runtime/guard/guard.go, response.go) and the native role and permission guards
  (runtime/auth/auth.go). A guard and a provider of principals read the request \<open>'q\<close> and may change the
  state \<open>'s\<close> of the application, a session store for example. The span of a guard and the redaction of the
  error it records are left out: neither changes the outcome.
\<close>

section \<open>Principals\<close>

record Principal =
  pr_ID :: string
  pr_Roles :: "string list"
  pr_Permissions :: "string list"
  pr_AuthorizationVersion :: string

definition RoleGuardPrefix :: string where
  "RoleGuardPrefix = ''role:''"

definition PermissionGuardPrefix :: string where
  "PermissionGuardPrefix = ''permission:''"

definition HasRole :: "Principal \<Rightarrow> string \<Rightarrow> bool" where
  "HasRole p role0 = (let role = TrimSpace role0 in if role = [] then False else role \<in> set (pr_Roles p))"

definition HasPermission :: "Principal \<Rightarrow> string \<Rightarrow> bool" where
  "HasPermission p permission0 =
     (let permission = TrimSpace permission0 in if permission = [] then False else permission \<in> set (pr_Permissions p))"

definition IsNativeGuard :: "string \<Rightarrow> bool" where
  "IsNativeGuard name \<longleftrightarrow> HasPrefix name RoleGuardPrefix \<or> HasPrefix name PermissionGuardPrefix"

definition IsPublicGuard :: "string \<Rightarrow> bool" where
  "IsPublicGuard name \<longleftrightarrow> TrimSpace name = ''public''"

section \<open>Errors of guards\<close>

text \<open>
  The errors of the package, and those of an application with the errors they wrap. \<open>RedirectError\<close> and
  \<open>ResponseError\<close> may also be returned as pointers, which may be nil.
\<close>

datatype 'c guard_error =
    RedirectError string int
  | RedirectErrorPtr "(string \<times> int) option"
  | ResponseError "'c Response"
  | ResponseErrorPtr "'c Response option"
  | ErrUnauthenticated
  | ErrForbidden
  | ProviderRequired string
  | NameRequired string
  | UnsupportedGuard string
  | NotRegistered string
  | GuardFailed string "'c guard_error"
  | BadRedirect redirect_error
  | BadRedirectStatus
  | AppError string "'c guard_error list"

type_synonym ('q, 's, 'c) guard_func = "'q \<Rightarrow> 's \<Rightarrow> 'c guard_error option \<times> 's"
type_synonym ('q, 's, 'c) provider = "'q \<Rightarrow> 's \<Rightarrow> ('c guard_error + Principal option) \<times> 's"

section \<open>Running guards\<close>

text \<open>What a native guard decides about a principal.\<close>

definition rbac_decision :: "string \<Rightarrow> Principal \<Rightarrow> 'c guard_error option" where
  "rbac_decision name p =
     (case CutPrefix name RoleGuardPrefix of
        Some role0 \<Rightarrow>
          let role = TrimSpace role0
          in if role = [] then Some (NameRequired name) else if \<not> HasRole p role then Some ErrForbidden else None
      | None \<Rightarrow>
          (case CutPrefix name PermissionGuardPrefix of
             Some permission0 \<Rightarrow>
               let permission = TrimSpace permission0
               in if permission = [] then Some (NameRequired name)
                  else if \<not> HasPermission p permission then Some ErrForbidden else None
           | None \<Rightarrow> Some (UnsupportedGuard name)))"

definition NativeRBACGuard :: "string \<Rightarrow> ('q, 's, 'c) provider option \<Rightarrow> ('q, 's, 'c) guard_func" where
  "NativeRBACGuard name provider q s =
     (case provider of
        None \<Rightarrow> (Some (ProviderRequired name), s)
      | Some principal_of \<Rightarrow>
          (case principal_of q s of
             (Inl err, s') \<Rightarrow> (Some err, s')
           | (Inr None, s') \<Rightarrow> (Some ErrUnauthenticated, s')
           | (Inr (Some p), s') \<Rightarrow> (rbac_decision name p, s')))"

definition guard_for ::
  "(string \<Rightarrow> ('q, 's, 'c) guard_func option) \<Rightarrow> ('q, 's, 'c) provider option \<Rightarrow> string \<Rightarrow> ('q, 's, 'c) guard_func option" where
  "guard_for registry provider name =
     (case registry name of
        Some g \<Rightarrow> Some g
      | None \<Rightarrow> if IsNativeGuard name then Some (NativeRBACGuard name provider) else None)"

fun RunGuardsWithAuth ::
  "'q \<Rightarrow> string list \<Rightarrow> (string \<Rightarrow> ('q, 's, 'c) guard_func option) \<Rightarrow> ('q, 's, 'c) provider option \<Rightarrow> 's \<Rightarrow>
     'c guard_error option \<times> 's" where
  "RunGuardsWithAuth q [] registry provider s = (None, s)"
| "RunGuardsWithAuth q (name # guards) registry provider s =
     (case guard_for registry provider name of
        None \<Rightarrow> (Some (NotRegistered name), s)
      | Some g \<Rightarrow>
          (case g q s of
             (Some err, s') \<Rightarrow> (Some (GuardFailed name err), s')
           | (None, s') \<Rightarrow> RunGuardsWithAuth q guards registry provider s'))"

definition RunGuards ::
  "'q \<Rightarrow> string list \<Rightarrow> (string \<Rightarrow> ('q, 's, 'c) guard_func option) \<Rightarrow> 's \<Rightarrow> 'c guard_error option \<times> 's" where
  "RunGuards q guards registry s = RunGuardsWithAuth q guards registry None s"

section \<open>Answers of guards\<close>

text \<open>The package has its own copy of the check of redirects.\<close>

definition validateRedirectURL :: "string \<Rightarrow> redirect_error option" where
  "validateRedirectURL url =
     (if url = [] \<or> hd url \<noteq> CHR ''/'' then Some NotLocalAbsolute
      else if length url > 1 \<and> (url ! 1 = CHR ''/'' \<or> url ! 1 = CHR 0x5C) then Some ProtocolRelative
      else if Contains url [CHR 0x5C] then Some HasBackslash
      else if ContainsAny url [CHR 0x0D, CHR 0x0A] then Some HasNewline
      else None)"

definition Redirect_guard :: "string \<Rightarrow> int \<Rightarrow> 'c guard_error" where
  "Redirect_guard url status =
     (case validateRedirectURL url of
        Some err \<Rightarrow> BadRedirect err
      | None \<Rightarrow> if status < 300 \<or> status > 399 then BadRedirectStatus else RedirectError url status)"

definition RedirectTo_guard :: "string \<Rightarrow> 'c guard_error" where
  "RedirectTo_guard url = Redirect_guard url 303"

definition Respond :: "'c Response \<Rightarrow> 'c guard_error" where
  "Respond result = ResponseError result"

text \<open>\<open>errors.As\<close> for the four types, in the order of the tree of wrapped errors.\<close>

fun as_redirect :: "'c guard_error \<Rightarrow> (string \<times> int) option" where
  "as_redirect (RedirectError url status) = Some (url, status)"
| "as_redirect (GuardFailed _ err) = as_redirect err"
| "as_redirect (AppError _ errs) = first_some (map as_redirect errs)"
| "as_redirect _ = None"

fun as_redirect_ptr :: "'c guard_error \<Rightarrow> (string \<times> int) option option" where
  "as_redirect_ptr (RedirectErrorPtr r) = Some r"
| "as_redirect_ptr (GuardFailed _ err) = as_redirect_ptr err"
| "as_redirect_ptr (AppError _ errs) = first_some (map as_redirect_ptr errs)"
| "as_redirect_ptr _ = None"

fun as_response :: "'c guard_error \<Rightarrow> 'c Response option" where
  "as_response (ResponseError result) = Some result"
| "as_response (GuardFailed _ err) = as_response err"
| "as_response (AppError _ errs) = first_some (map as_response errs)"
| "as_response _ = None"

fun as_response_ptr :: "'c guard_error \<Rightarrow> 'c Response option option" where
  "as_response_ptr (ResponseErrorPtr r) = Some r"
| "as_response_ptr (GuardFailed _ err) = as_response_ptr err"
| "as_response_ptr (AppError _ errs) = first_some (map as_response_ptr errs)"
| "as_response_ptr _ = None"

definition redirectResponseResult :: "string \<times> int \<Rightarrow> 'c Response option" where
  "redirectResponseResult r =
     (let status = (if snd r = 0 then 303 else snd r)
      in if status < 300 \<or> status > 399 then None
         else if validateRedirectURL (fst r) \<noteq> None then None
         else Some ((response Redirect status [])\<lparr>rp_URL := fst r\<rparr>))"

definition ResponseResult :: "'c guard_error \<Rightarrow> 'c Response option" where
  "ResponseResult err =
     (case as_redirect err of
        Some r \<Rightarrow> redirectResponseResult r
      | None \<Rightarrow>
          (case as_redirect_ptr err of
             Some (Some r) \<Rightarrow> redirectResponseResult r
           | _ \<Rightarrow>
               (case as_response err of
                  Some result \<Rightarrow> Some result
                | None \<Rightarrow> (case as_response_ptr err of Some (Some result) \<Rightarrow> Some result | _ \<Rightarrow> None))))"

definition WriteNoStoreFailure :: "('c \<Rightarrow> string) \<Rightarrow> 'c guard_error \<Rightarrow> writer \<Rightarrow> writer" where
  "WriteNoStoreFailure print err w =
     (case ResponseResult err of
        Some result \<Rightarrow> fst (WriteNoStoreHTTP print result w)
      | None \<Rightarrow> WriteNoStoreUserError 403 ''guard_forbidden'' ''403 forbidden'' w)"

definition WriteNoStoreLocalizedFailure :: "('c \<Rightarrow> string) \<Rightarrow> 'c guard_error \<Rightarrow> Bundle \<Rightarrow> string \<Rightarrow> writer \<Rightarrow> writer" where
  "WriteNoStoreLocalizedFailure print err bn loc w =
     (case ResponseResult err of
        Some result \<Rightarrow> fst (WriteNoStoreHTTP print result w)
      | None \<Rightarrow> WriteNoStoreLocalizedUserError 403 ''guard_forbidden'' ''403 forbidden'' [] bn loc w)"

section \<open>Admission\<close>

lemma validateRedirectURL_same: "validateRedirectURL = ValidateLocalRedirect"
  by (simp add: fun_eq_iff validateRedirectURL_def ValidateLocalRedirect_def)

text \<open>What a native guard asks of a principal.\<close>

definition grants :: "Principal \<Rightarrow> string \<Rightarrow> bool" where
  "grants p name \<longleftrightarrow>
     (\<exists>role. name = RoleGuardPrefix @ role \<and> TrimSpace role \<noteq> [] \<and> TrimSpace role \<in> set (pr_Roles p)) \<or>
     (\<exists>permission. name = PermissionGuardPrefix @ permission \<and> TrimSpace permission \<noteq> [] \<and>
        TrimSpace permission \<in> set (pr_Permissions p))"

text \<open>A request passes a list of guards: each is registered and lets it pass, or is native and granted.\<close>

inductive admitted ::
  "'q \<Rightarrow> (string \<Rightarrow> ('q, 's, 'c) guard_func option) \<Rightarrow> ('q, 's, 'c) provider option \<Rightarrow> string list \<Rightarrow> 's \<Rightarrow> 's \<Rightarrow> bool"
  for q registry provider where
  admitted_none: "admitted q registry provider [] s s"
| admitted_registered:
    "registry name = Some g \<Longrightarrow> g q s = (None, s1) \<Longrightarrow> admitted q registry provider guards s1 s' \<Longrightarrow>
     admitted q registry provider (name # guards) s s'"
| admitted_native:
    "registry name = None \<Longrightarrow> provider = Some principal_of \<Longrightarrow> principal_of q s = (Inr (Some p), s1) \<Longrightarrow> grants p name \<Longrightarrow>
     admitted q registry provider guards s1 s' \<Longrightarrow> admitted q registry provider (name # guards) s s'"

inductive_simps admitted_Nil: "admitted q registry provider [] s s'"
inductive_simps admitted_Cons: "admitted q registry provider (name # guards) s s'"

lemma prefixes_differ: "RoleGuardPrefix @ r \<noteq> PermissionGuardPrefix @ t"
  by (simp add: RoleGuardPrefix_def PermissionGuardPrefix_def)

lemma CutPrefix_Some: "CutPrefix s p = Some r \<longleftrightarrow> s = p @ r"
  by (auto simp: CutPrefix_def prefix_def)

lemma CutPrefix_None: "CutPrefix s p = None \<longleftrightarrow> (\<forall>r. s \<noteq> p @ r)"
  by (auto simp: CutPrefix_def prefix_def)

lemma rbac_decision_grants: "rbac_decision name p = None \<longleftrightarrow> grants p name"
proof (cases "CutPrefix name RoleGuardPrefix")
  case (Some role)
  then have n: "name = RoleGuardPrefix @ role" by (simp add: CutPrefix_Some)
  have "grants p name \<longleftrightarrow> TrimSpace role \<noteq> [] \<and> TrimSpace role \<in> set (pr_Roles p)"
    using prefixes_differ by (auto simp: grants_def n)
  then show ?thesis by (simp add: rbac_decision_def Some Let_def HasRole_def)
next
  case role: None
  show ?thesis
  proof (cases "CutPrefix name PermissionGuardPrefix")
    case (Some permission)
    then have n: "name = PermissionGuardPrefix @ permission" by (simp add: CutPrefix_Some)
    have "grants p name \<longleftrightarrow> TrimSpace permission \<noteq> [] \<and> TrimSpace permission \<in> set (pr_Permissions p)"
      using prefixes_differ by (auto simp: grants_def n dest: sym)
    then show ?thesis by (simp add: rbac_decision_def role Some Let_def HasPermission_def)
  next
    case None
    with role have "\<not> grants p name" by (auto simp: grants_def CutPrefix_None)
    then show ?thesis by (simp add: rbac_decision_def role None)
  qed
qed

lemma grants_native: "grants p name \<Longrightarrow> IsNativeGuard name"
  by (auto simp: grants_def IsNativeGuard_def)

lemma guard_for_pass:
  "(\<exists>g. guard_for registry provider name = Some g \<and> g q s = (None, s1)) \<longleftrightarrow>
     (\<exists>g. registry name = Some g \<and> g q s = (None, s1)) \<or>
     (registry name = None \<and> (\<exists>principal_of p. provider = Some principal_of \<and> principal_of q s = (Inr (Some p), s1) \<and> grants p name))"
proof (cases "registry name")
  case None
  have "(\<exists>g. guard_for registry provider name = Some g \<and> g q s = (None, s1)) \<longleftrightarrow>
      IsNativeGuard name \<and> NativeRBACGuard name provider q s = (None, s1)"
    by (simp add: guard_for_def None)
  also have "\<dots> \<longleftrightarrow> (\<exists>principal_of p. provider = Some principal_of \<and> principal_of q s = (Inr (Some p), s1) \<and> grants p name)"
    using grants_native by (fastforce simp: NativeRBACGuard_def rbac_decision_grants split: option.splits sum.splits prod.splits)
  finally show ?thesis by (simp add: None)
qed (simp add: guard_for_def)

lemma RunGuardsWithAuth_step:
  "RunGuardsWithAuth q (name # guards) registry provider s = (None, s') \<longleftrightarrow>
     (\<exists>s1. (\<exists>g. guard_for registry provider name = Some g \<and> g q s = (None, s1)) \<and>
        RunGuardsWithAuth q guards registry provider s1 = (None, s'))"
  by (auto split: option.splits prod.splits)

lemma RunGuardsWithAuth_admitted:
  "RunGuardsWithAuth q guards registry provider s = (None, s') \<longleftrightarrow> admitted q registry provider guards s s'"
proof (induction guards arbitrary: s)
  case Nil
  then show ?case by (auto simp: admitted_Nil)
next
  case (Cons name guards)
  show ?case unfolding RunGuardsWithAuth_step guard_for_pass Cons admitted_Cons by blast
qed

lemma RunGuardsWithAuth_append:
  "RunGuardsWithAuth q pre registry provider s = (None, s1) \<Longrightarrow>
   RunGuardsWithAuth q (pre @ guards) registry provider s = RunGuardsWithAuth q guards registry provider s1"
  by (induction pre arbitrary: s) (auto split: option.splits prod.splits)

text \<open>A request is refused by the first guard that is not registered or that fails.\<close>

definition refuses ::
  "'q \<Rightarrow> (string \<Rightarrow> ('q, 's, 'c) guard_func option) \<Rightarrow> ('q, 's, 'c) provider option \<Rightarrow> string \<Rightarrow> 's \<Rightarrow> 'c guard_error \<Rightarrow> 's \<Rightarrow> bool" where
  "refuses q registry provider name s err s' \<longleftrightarrow>
     (case guard_for registry provider name of
        None \<Rightarrow> err = NotRegistered name \<and> s' = s
      | Some g \<Rightarrow> \<exists>e. g q s = (Some e, s') \<and> err = GuardFailed name e)"

lemma RunGuardsWithAuth_step_refused:
  "RunGuardsWithAuth q (name # guards) registry provider s = (Some err, s') \<longleftrightarrow>
     refuses q registry provider name s err s' \<or>
     (\<exists>s1. (\<exists>g. guard_for registry provider name = Some g \<and> g q s = (None, s1)) \<and>
        RunGuardsWithAuth q guards registry provider s1 = (Some err, s'))"
  by (auto simp: refuses_def split: option.splits prod.splits)

lemma RunGuardsWithAuth_refused:
  "RunGuardsWithAuth q guards registry provider s = (Some err, s') \<longleftrightarrow>
     (\<exists>pre name post s1. guards = pre @ name # post \<and> admitted q registry provider pre s s1 \<and>
        refuses q registry provider name s1 err s')"
proof (induction guards arbitrary: s)
  case Nil
  then show ?case by simp
next
  case (Cons name guards)
  let ?found = "\<lambda>gs t. \<exists>pre name post s1. gs = pre @ name # post \<and> admitted q registry provider pre t s1 \<and>
      refuses q registry provider name s1 err s'"
  have "?found (name # guards) s \<longleftrightarrow> refuses q registry provider name s err s' \<or>
      (\<exists>pre nm post s1. guards = pre @ nm # post \<and> admitted q registry provider (name # pre) s s1 \<and> refuses q registry provider nm s1 err s')"
    by (auto simp: Cons_eq_append_conv admitted_Nil) (metis admitted_none)+
  also have "\<dots> \<longleftrightarrow> refuses q registry provider name s err s' \<or>
      (\<exists>s1. (\<exists>g. guard_for registry provider name = Some g \<and> g q s = (None, s1)) \<and> ?found guards s1)"
    unfolding guard_for_pass admitted_Cons by blast
  also have "\<dots> \<longleftrightarrow> RunGuardsWithAuth q (name # guards) registry provider s = (Some err, s')"
    unfolding Cons.IH [symmetric] RunGuardsWithAuth_step_refused ..
  finally show ?case by simp
qed

text \<open>
  C31: a request passes its guards exactly when every guard, in declaration order, is a registered function
  that lets it pass or a native one whose provider finds a principal with the role or permission, and it is
  refused exactly by the first guard that is unknown or fails; no guard behind that one runs.
\<close>

theorem RunGuards_decision:
  "(RunGuardsWithAuth q guards registry provider s = (None, s') \<longleftrightarrow> admitted q registry provider guards s s') \<and>
   (RunGuardsWithAuth q guards registry provider s = (Some err, s') \<longleftrightarrow>
      (\<exists>pre name post s1. guards = pre @ name # post \<and> admitted q registry provider pre s s1 \<and>
         refuses q registry provider name s1 err s'))"
  by (intro conjI RunGuardsWithAuth_admitted RunGuardsWithAuth_refused)

section \<open>Answers\<close>

lemma forbidden_headers:
  "w_header (WriteNoStoreUserError status code message w) ''Location'' = w_header w ''Location''"
  "w_header (WriteNoStoreUserError status code message w) ''Cache-Control'' = [''no-store'']"
  "w_status w = None \<Longrightarrow> w_status (WriteNoStoreUserError status code message w) = Some status"
  by (simp_all add: WriteNoStoreUserError_def http_Error_status header_http_Error header_Set_def header_no_store
      canonical_response_keys) (simp add: no_store_def http_Error_status)

text \<open>
  A refused request gets an answer that is not cached and sends the client only to a place the redirect
  check accepts. Without an explicit answer in the error it is a 403 that does not depend on the error.
\<close>

theorem refusal_answer:
  assumes "w_header w ''Location'' = []" "w_status w = None" "answer = WriteNoStoreFailure print err w"
  shows "w_header answer ''Cache-Control'' = [''no-store''] \<and>
    (\<forall>url\<in>set (w_header answer ''Location''). ValidateLocalRedirect url = None) \<and>
    (ResponseResult err = None \<longrightarrow> w_status answer = Some 403 \<and> answer = WriteNoStoreFailure print ErrForbidden w)"
proof (cases "ResponseResult err")
  case None
  moreover have "ResponseResult (ErrForbidden :: 'a guard_error) = None" by (simp add: ResponseResult_def)
  ultimately show ?thesis using assms by (simp add: WriteNoStoreFailure_def forbidden_headers)
next
  case (Some result)
  then show ?thesis
    using assms by (simp add: WriteNoStoreFailure_def WriteNoStoreHTTP_def WriteHTTP_header header_no_store)
qed

theorem refusal_answer_witness:
  "w_status (WriteNoStoreFailure (\<lambda>c. c) (GuardFailed ''auth'' (AppError ''no row for bob'' [])) new_writer) = Some 403"
proof -
  have n: "w_header new_writer ''Location'' = []" "w_status new_writer = None" by (simp_all add: new_writer_def)
  have "ResponseResult (GuardFailed ''auth'' (AppError ''no row for bob'' []) :: string guard_error) = None"
    by (simp add: ResponseResult_def)
  then show ?thesis using refusal_answer [OF n refl] by blast
qed

text \<open>
  A redirect a guard asks for reaches the client. When the guards before it let the request pass and it
  returns a redirect to a local path with a 3xx status, the answer has that status and location.
\<close>

theorem guard_redirect_sent:
  assumes "admitted q registry provider pre s s1" "registry name = Some g" "g q s1 = (Some (Redirect_guard url status), s')"
    and "ValidateLocalRedirect url = None" "300 \<le> status" "status \<le> 399"
    and "w_header w ''Location'' = []" "w_status w = None"
  shows "\<exists>err. RunGuardsWithAuth q (pre @ name # post) registry provider s = (Some err, s') \<and>
    w_status (WriteNoStoreFailure print err w) = Some status \<and> w_header (WriteNoStoreFailure print err w) ''Location'' = [url]"
proof (intro exI conjI)
  let ?err = "GuardFailed name (RedirectError url status)"
  have r: "Redirect_guard url status = RedirectError url status"
    using assms(4-6) by (simp add: Redirect_guard_def validateRedirectURL_same)
  have "refuses q registry provider name s1 ?err s'"
    using assms(2,3) by (simp add: refuses_def guard_for_def r)
  with assms(1) show "RunGuardsWithAuth q (pre @ name # post) registry provider s = (Some ?err, s')"
    unfolding RunGuardsWithAuth_refused by blast
  have result: "ResponseResult ?err = Some ((response Redirect status [])\<lparr>rp_URL := url\<rparr>)"
    using assms(4-6) by (simp add: ResponseResult_def redirectResponseResult_def validateRedirectURL_same Let_def)
  have no: "w_status (no_store w) = None" using assms(8) by (simp add: no_store_def)
  show "w_status (WriteNoStoreFailure print ?err w) = Some status"
    using assms(4,5) no
    by (simp add: WriteNoStoreFailure_def result WriteNoStoreHTTP_def WriteHTTP_def response_def statusOrDefault_def)
  show "w_header (WriteNoStoreFailure print ?err w) ''Location'' = [url]"
    using assms(4) by (simp add: WriteNoStoreFailure_def result WriteNoStoreHTTP_def WriteHTTP_header response_def)
qed

section \<open>Samples\<close>

definition sample_registry :: "string \<Rightarrow> (string, nat, string) guard_func option" where
  "sample_registry = [''open'' \<mapsto> \<lambda>q s. (None, s + 1), ''login'' \<mapsto> \<lambda>q s. (Some (Redirect_guard ''/login'' 302), s)]"

definition sample_provider :: "(string, nat, string) provider" where
  "sample_provider q s =
     (Inr (if q = ''ada'' then Some \<lparr>pr_ID = ''ada'', pr_Roles = [''admin''], pr_Permissions = [], pr_AuthorizationVersion = []\<rparr> else None), s)"

lemma sample_guards:
  "RunGuardsWithAuth ''ada'' [''open'', ''role:admin''] sample_registry (Some sample_provider) 0 = (None, 1)"
  "RunGuardsWithAuth ''bob'' [''open'', ''role:admin''] sample_registry (Some sample_provider) 0 =
     (Some (GuardFailed ''role:admin'' ErrUnauthenticated), 1)"
  "RunGuardsWithAuth ''ada'' [''role:admin''] sample_registry None 0 = (Some (GuardFailed ''role:admin'' (ProviderRequired ''role:admin'')), 0)"
  "RunGuardsWithAuth ''ada'' [''missing'', ''open''] sample_registry None 0 = (Some (NotRegistered ''missing''), 0)"
  by code_simp+

theorem guard_redirect_sent_witness:
  "\<exists>err. RunGuardsWithAuth ''bob'' [''open'', ''login'', ''missing''] sample_registry None 0 = (Some err, 1) \<and>
     w_header (WriteNoStoreFailure (\<lambda>c. c) err new_writer) ''Location'' = [''/login'']"
proof -
  have "admitted ''bob'' sample_registry None [''open''] 0 1"
    by (simp add: RunGuardsWithAuth_admitted [symmetric] guard_for_def sample_registry_def)
  moreover have "sample_registry ''login'' = Some (\<lambda>q s. (Some (Redirect_guard ''/login'' 302), s))" by (simp add: sample_registry_def)
  moreover have "ValidateLocalRedirect ''/login'' = None" by code_simp
  moreover have "w_header new_writer ''Location'' = []" "w_status new_writer = None" by (simp_all add: new_writer_def)
  ultimately have "\<exists>err. RunGuardsWithAuth ''bob'' ([''open''] @ ''login'' # [''missing'']) sample_registry None 0 = (Some err, 1) \<and>
      w_status (WriteNoStoreFailure (\<lambda>c. c) err new_writer) = Some 302 \<and> w_header (WriteNoStoreFailure (\<lambda>c. c) err new_writer) ''Location'' = [''/login'']"
    by (intro guard_redirect_sent) (assumption | rule refl | simp)+
  then show ?thesis by auto
qed

end
