(* ===== verification/Sessions.thy ===== *)
theory Sessions
  imports Base64 Guard
begin

text \<open>
  Signed-cookie and revocable sessions (addons/auth/session.go, session_store.go). Times are nanoseconds of
  the Unix epoch; every operation reads the clock once, at \<open>now\<close>. HMAC-SHA256 and the JSON codec of the
  payload are parameters; the random bytes of a session id are handed over. A store is a record of its
  operations over its state \<open>'s\<close>. A nil store, which \<open>New\<close> does not let through in revocable mode, is the
  error \<open>NilStore\<close>.
\<close>

section \<open>Time\<close>

definition Second :: int where
  "Second = 1000000000"

text \<open>The zero \<open>time.Time\<close>, the start of the year 1, stands for a time that is not set.\<close>

definition zero_time :: int where
  "zero_time = - 62135596800 * Second"

definition Unix :: "int \<Rightarrow> int" where
  "Unix t = t div Second"

definition sessionExpiry :: "int \<Rightarrow> int \<Rightarrow> int" where
  "sessionExpiry now ttl =
     (let expires = now + ttl in if expires mod Second = 0 then expires else expires div Second * Second + Second)"

section \<open>The store\<close>

record SessionRecord =
  sr_ID :: string
  sr_Principal :: Principal
  sr_AuthorizationVersion :: string
  sr_CreatedAt :: int
  sr_ExpiresAt :: int
  sr_IdleExpiresAt :: int
  sr_LastSeenAt :: int
  sr_Revoked :: bool

definition expired :: "SessionRecord \<Rightarrow> int \<Rightarrow> bool" where
  "expired r now \<longleftrightarrow>
     (if sr_ExpiresAt r \<noteq> zero_time \<and> \<not> now < sr_ExpiresAt r then True
      else sr_IdleExpiresAt r \<noteq> zero_time \<and> \<not> now < sr_IdleExpiresAt r)"

datatype store_error = ErrSessionNotFound | SessionIDRequired | PrincipalIDRequired | StoreFailed string | NilStore

text \<open>\<open>st_Touch\<close> is there when the store is a \<open>SessionToucher\<close>.\<close>

record 's SessionStore =
  st_Create :: "SessionRecord \<Rightarrow> 's \<Rightarrow> store_error option \<times> 's"
  st_Lookup :: "string \<Rightarrow> 's \<Rightarrow> (store_error + SessionRecord) \<times> 's"
  st_Revoke :: "string \<Rightarrow> 's \<Rightarrow> store_error option \<times> 's"
  st_RevokePrincipal :: "string \<Rightarrow> 's \<Rightarrow> store_error option \<times> 's"
  st_Touch :: "(string \<Rightarrow> int \<Rightarrow> int \<Rightarrow> 's \<Rightarrow> store_error option \<times> 's) option"

type_synonym mem_store = "string \<Rightarrow> SessionRecord option"

definition stored :: "SessionRecord \<Rightarrow> SessionRecord" where
  "stored r = r\<lparr>sr_ID := TrimSpace (sr_ID r), sr_Principal := (sr_Principal r)\<lparr>pr_ID := TrimSpace (pr_ID (sr_Principal r))\<rparr>\<rparr>"

definition CreateSession :: "SessionRecord \<Rightarrow> mem_store \<Rightarrow> store_error option \<times> mem_store" where
  "CreateSession r0 s =
     (let r = stored r0
      in if sr_ID r = [] then (Some SessionIDRequired, s)
         else if pr_ID (sr_Principal r) = [] then (Some PrincipalIDRequired, s)
         else (None, s(sr_ID r \<mapsto> r)))"

definition LookupSession :: "string \<Rightarrow> mem_store \<Rightarrow> (store_error + SessionRecord) \<times> mem_store" where
  "LookupSession id0 s =
     (let id = TrimSpace id0
      in if id = [] then (Inl ErrSessionNotFound, s)
         else (case s id of None \<Rightarrow> (Inl ErrSessionNotFound, s) | Some r \<Rightarrow> (Inr r, s)))"

definition RevokeSession_mem :: "string \<Rightarrow> mem_store \<Rightarrow> store_error option \<times> mem_store" where
  "RevokeSession_mem id0 s =
     (let id = TrimSpace id0
      in if id = [] then (None, s)
         else (case s id of None \<Rightarrow> (None, s) | Some r \<Rightarrow> (None, s(id \<mapsto> r\<lparr>sr_Revoked := True\<rparr>))))"

definition RevokePrincipal_mem :: "string \<Rightarrow> mem_store \<Rightarrow> store_error option \<times> mem_store" where
  "RevokePrincipal_mem pid0 s =
     (let pid = TrimSpace pid0
      in if pid = [] then (None, s)
         else (None, \<lambda>id. case s id of
                 None \<Rightarrow> None
               | Some r \<Rightarrow> Some (if pr_ID (sr_Principal r) = pid then r\<lparr>sr_Revoked := True\<rparr> else r)))"

definition TouchSession :: "string \<Rightarrow> int \<Rightarrow> int \<Rightarrow> mem_store \<Rightarrow> store_error option \<times> mem_store" where
  "TouchSession id0 seenAt idleExpiresAt s =
     (let id = TrimSpace id0
      in if id = [] then (Some ErrSessionNotFound, s)
         else (case s id of
                 None \<Rightarrow> (Some ErrSessionNotFound, s)
               | Some r \<Rightarrow> (None, s(id \<mapsto> r\<lparr>sr_LastSeenAt := seenAt, sr_IdleExpiresAt := idleExpiresAt\<rparr>))))"

definition UpdateSession :: "string \<Rightarrow> (SessionRecord \<Rightarrow> SessionRecord) option \<Rightarrow> mem_store \<Rightarrow> store_error option \<times> mem_store" where
  "UpdateSession id0 update s =
     (case update of
        None \<Rightarrow> (None, s)
      | Some f \<Rightarrow>
          let id = TrimSpace id0
          in if id = [] then (Some ErrSessionNotFound, s)
             else (case s id of None \<Rightarrow> (Some ErrSessionNotFound, s) | Some r \<Rightarrow> (None, s(id \<mapsto> f r))))"

definition InMemorySessionStore :: "mem_store SessionStore" where
  "InMemorySessionStore =
     \<lparr>st_Create = CreateSession, st_Lookup = LookupSession, st_Revoke = RevokeSession_mem,
      st_RevokePrincipal = RevokePrincipal_mem, st_Touch = Some TouchSession\<rparr>"

section \<open>Options\<close>

record SigningKey =
  sk_ID :: string
  sk_Secret :: string
  sk_AcceptUntil :: int

record 's Options =
  op_Secret :: string
  op_SecretEnv :: string
  op_KeyID :: string
  op_PreviousKeys :: "SigningKey list"
  op_Mode :: string
  op_Store :: "'s SessionStore option"
  op_CookieName :: string
  op_TTL :: int
  op_IdleTTL :: int
  op_Insecure :: bool

record 's Sessions =
  sx_currentKey :: SigningKey
  sx_previousKey :: "string \<Rightarrow> SigningKey option"
  sx_mode :: string
  sx_store :: "'s SessionStore option"
  sx_cookie :: string
  sx_ttl :: int
  sx_idleTTL :: int
  sx_insecure :: bool

datatype auth_error =
    SecretAndEnv | ShortSessionSecret | SecretRequired | EnvRequired string | ShortEnv string
  | KeyIDWithDot string | ShortPreviousKey string | StoreRequired | UnsupportedMode string | BadCookieName string
  | NegativeTTL | ShortTTL | NegativeIdleTTL | ShortIdleTTL | TouchRequired
  | PrincipalRequired | NoRandomID | StoreError store_error | EncodeFailed

definition sessionSecret :: "(string \<Rightarrow> string) \<Rightarrow> 's Options \<Rightarrow> auth_error + string" where
  "sessionSecret getenv options =
     (let envName = TrimSpace (op_SecretEnv options)
      in if op_Secret options \<noteq> [] \<and> envName \<noteq> [] then Inl SecretAndEnv
         else if op_Secret options \<noteq> [] then
           (if length (op_Secret options) < 32 then Inl ShortSessionSecret else Inr (op_Secret options))
         else if envName = [] then Inl SecretRequired
         else
           let v = getenv envName
           in if v = [] then Inl (EnvRequired envName) else if length v < 32 then Inl (ShortEnv envName) else Inr v)"

fun previous_keys :: "SigningKey list \<Rightarrow> (string \<Rightarrow> SigningKey option) \<Rightarrow> auth_error + (string \<Rightarrow> SigningKey option)" where
  "previous_keys [] previous = Inr previous"
| "previous_keys (key # keys) previous =
     (let id = TrimSpace (sk_ID key)
      in if CHR ''.'' \<in> set id then Inl (KeyIDWithDot id)
         else if length (sk_Secret key) < 32 then Inl (ShortPreviousKey id)
         else previous_keys keys (previous(id \<mapsto> key\<lparr>sk_ID := id\<rparr>)))"

definition sessionSigningKeys :: "(string \<Rightarrow> string) \<Rightarrow> 's Options \<Rightarrow> auth_error + SigningKey \<times> (string \<Rightarrow> SigningKey option)" where
  "sessionSigningKeys getenv options =
     (case sessionSecret getenv options of
        Inl err \<Rightarrow> Inl err
      | Inr secret \<Rightarrow>
          let id = TrimSpace (op_KeyID options)
          in if CHR ''.'' \<in> set id then Inl (KeyIDWithDot id)
             else map_sum (\<lambda>e. e) (Pair \<lparr>sk_ID = id, sk_Secret = secret, sk_AcceptUntil = zero_time\<rparr>)
                    (previous_keys (op_PreviousKeys options) (\<lambda>_. None)))"

definition valid_cookie_name :: "string \<Rightarrow> bool" where
  "valid_cookie_name name \<longleftrightarrow> name \<noteq> [] \<and> list_all token_char name"

definition New :: "(string \<Rightarrow> string) \<Rightarrow> 's Options \<Rightarrow> auth_error + 's Sessions" where
  "New getenv options =
     (case sessionSigningKeys getenv options of
        Inl err \<Rightarrow> Inl err
      | Inr (current, previous) \<Rightarrow>
          let mode = (if op_Mode options = [] then ''signed-cookie'' else op_Mode options);
              cookie = (if op_CookieName options = [] then ''gowdk_session'' else op_CookieName options)
          in if mode \<noteq> ''signed-cookie'' \<and> mode \<noteq> ''revocable'' then Inl (UnsupportedMode mode)
             else if mode = ''revocable'' \<and> Option.is_none (op_Store options) then Inl StoreRequired
             else if \<not> valid_cookie_name cookie then Inl (BadCookieName cookie)
             else if op_TTL options < 0 then Inl NegativeTTL
             else if op_TTL options > 0 \<and> op_TTL options < Second then Inl ShortTTL
             else if op_IdleTTL options < 0 then Inl NegativeIdleTTL
             else if op_IdleTTL options > 0 \<and> op_IdleTTL options < Second then Inl ShortIdleTTL
             else if mode = ''revocable'' \<and> op_IdleTTL options > 0 \<and>
                     Option.is_none (Option.bind (op_Store options) st_Touch) then Inl TouchRequired
             else Inr \<lparr>sx_currentKey = current, sx_previousKey = previous, sx_mode = mode, sx_store = op_Store options,
                       sx_cookie = cookie, sx_ttl = (if op_TTL options = 0 then 24 * 3600 * Second else op_TTL options),
                       sx_idleTTL = op_IdleTTL options, sx_insecure = op_Insecure options\<rparr>)"

section \<open>Tokens\<close>

record payload =
  sp_ID :: string
  sp_SessionID :: string
  sp_Roles :: "string list"
  sp_Permissions :: "string list"
  sp_AuthorizationVersion :: string
  sp_Expires :: int

text \<open>What the package uses of the library.\<close>

record auth_lib =
  al_Mac :: "string \<Rightarrow> string \<Rightarrow> string"
  al_Marshal :: "payload \<Rightarrow> string option"
  al_Unmarshal :: "string \<Rightarrow> payload option"

definition sign :: "auth_lib \<Rightarrow> 's Sessions \<Rightarrow> string \<Rightarrow> string" where
  "sign A sx body =
     (let key = sx_currentKey sx;
          encoded = EncodeToString RawURL body @ ''.'' @ EncodeToString RawURL (al_Mac A (sk_Secret key) body)
      in if sk_ID key = [] then encoded else sk_ID key @ ''.'' @ encoded)"

definition previousSigningKeyAccepted :: "SigningKey \<Rightarrow> int \<Rightarrow> bool" where
  "previousSigningKeyAccepted key now \<longleftrightarrow> sk_AcceptUntil key = zero_time \<or> now < sk_AcceptUntil key"

definition namedSigningKey :: "'s Sessions \<Rightarrow> int \<Rightarrow> string \<Rightarrow> SigningKey option" where
  "namedSigningKey sx now keyID =
     (if keyID = [] then None
      else if keyID = sk_ID (sx_currentKey sx) then Some (sx_currentKey sx)
      else
        (case sx_previousKey sx keyID of
           None \<Rightarrow> None
         | Some key \<Rightarrow> if previousSigningKeyAccepted key now then Some key else None))"

definition unnamedSigningKeys :: "'s Sessions \<Rightarrow> int \<Rightarrow> SigningKey list" where
  "unnamedSigningKeys sx now =
     (if sk_ID (sx_currentKey sx) = [] then [sx_currentKey sx] else []) @
     (case sx_previousKey sx [] of
        None \<Rightarrow> []
      | Some key \<Rightarrow> if previousSigningKeyAccepted key now then [key] else [])"

definition verify_with :: "auth_lib \<Rightarrow> SigningKey list \<Rightarrow> string \<Rightarrow> string \<Rightarrow> payload option" where
  "verify_with A keys body tag =
     (if keys = [] then None
      else
        (case DecodeString RawURL body of
           None \<Rightarrow> None
         | Some payload \<Rightarrow>
             (case DecodeString RawURL tag of
                None \<Rightarrow> None
              | Some got \<Rightarrow>
                  if list_ex (\<lambda>key. got = al_Mac A (sk_Secret key) payload) keys then al_Unmarshal A payload else None)))"

definition verify :: "auth_lib \<Rightarrow> 's Sessions \<Rightarrow> int \<Rightarrow> string \<Rightarrow> payload option" where
  "verify A sx now token =
     (case Split token CHR ''.'' of
        [body, tag] \<Rightarrow> verify_with A (unnamedSigningKeys sx now) body tag
      | [keyID, body, tag] \<Rightarrow>
          (case namedSigningKey sx now (TrimSpace keyID) of
             None \<Rightarrow> None
           | Some key \<Rightarrow> verify_with A [key] body tag)
      | _ \<Rightarrow> None)"

section \<open>Operations\<close>

text \<open>A request is its cookies; \<open>None\<close> is a nil request.\<close>

type_synonym auth_request = "(string \<Rightarrow> string option) option"

definition session_cookie :: "'s Sessions \<Rightarrow> string \<Rightarrow> int \<Rightarrow> int \<Rightarrow> http_cookie" where
  "session_cookie sx v expires maxAge =
     \<lparr>ck_Name = sx_cookie sx, ck_Value = v, ck_Path = ''/'', ck_Expires = Some expires, ck_MaxAge = maxAge,
      ck_HttpOnly = True, ck_Secure = (\<not> sx_insecure sx), ck_SameSite = SameSiteLaxMode\<rparr>"

definition new_record :: "'s Sessions \<Rightarrow> int \<Rightarrow> string \<Rightarrow> Principal \<Rightarrow> SessionRecord" where
  "new_record sx now sessionID who =
     \<lparr>sr_ID = sessionID, sr_Principal = who, sr_AuthorizationVersion = pr_AuthorizationVersion who,
      sr_CreatedAt = now, sr_ExpiresAt = sessionExpiry now (sx_ttl sx),
      sr_IdleExpiresAt = (if sx_idleTTL sx > 0 then sessionExpiry now (sx_idleTTL sx) else zero_time),
      sr_LastSeenAt = now, sr_Revoked = False\<rparr>"

definition encode_payload :: "auth_lib \<Rightarrow> 's Sessions \<Rightarrow> int \<Rightarrow> payload \<Rightarrow> auth_error + http_cookie" where
  "encode_payload A sx expires payload =
     (case al_Marshal A payload of
        None \<Rightarrow> Inl EncodeFailed
      | Some body \<Rightarrow> Inr (session_cookie sx (sign A sx body) expires 0))"

definition Cookie :: "auth_lib \<Rightarrow> 's Sessions \<Rightarrow> int \<Rightarrow> string option \<Rightarrow> Principal \<Rightarrow> 's \<Rightarrow> (auth_error + http_cookie) \<times> 's" where
  "Cookie A sx now random who s =
     (if TrimSpace (pr_ID who) = [] then (Inl PrincipalRequired, s)
      else
        let expires = sessionExpiry now (sx_ttl sx);
            payload = \<lparr>sp_ID = pr_ID who, sp_SessionID = [], sp_Roles = pr_Roles who,
                       sp_Permissions = pr_Permissions who,
                       sp_AuthorizationVersion = pr_AuthorizationVersion who, sp_Expires = Unix expires\<rparr>
        in if sx_mode sx \<noteq> ''revocable'' then (encode_payload A sx expires payload, s)
           else
             (case (random, sx_store sx) of
                (None, _) \<Rightarrow> (Inl NoRandomID, s)
              | (Some _, None) \<Rightarrow> (Inl (StoreError NilStore), s)
              | (Some bytes, Some store) \<Rightarrow>
                  let sessionID = EncodeToString RawURL bytes
                  in (case st_Create store (new_record sx now sessionID who) s of
                        (Some err, s') \<Rightarrow> (Inl (StoreError err), s')
                      | (None, s') \<Rightarrow>
                          (encode_payload A sx expires
                             (payload\<lparr>sp_SessionID := sessionID, sp_ID := [], sp_Roles := [], sp_Permissions := []\<rparr>), s'))))"

definition Issue ::
  "auth_lib \<Rightarrow> (http_cookie \<Rightarrow> string) \<Rightarrow> 's Sessions \<Rightarrow> int \<Rightarrow> string option \<Rightarrow> Principal \<Rightarrow> writer \<Rightarrow> 's \<Rightarrow> auth_error option \<times> writer \<times> 's" where
  "Issue A print sx now random who w s =
     (case Cookie A sx now random who s of
        (Inl err, s') \<Rightarrow> (Some err, w, s')
      | (Inr cookie, s') \<Rightarrow> (None, SetCookie print cookie w, s'))"

definition sessionRecordAuthorizationVersion :: "SessionRecord \<Rightarrow> string" where
  "sessionRecordAuthorizationVersion r =
     (if pr_AuthorizationVersion (sr_Principal r) \<noteq> [] then pr_AuthorizationVersion (sr_Principal r)
      else sr_AuthorizationVersion r)"

definition touched :: "'s Sessions \<Rightarrow> int \<Rightarrow> string \<Rightarrow> 's \<Rightarrow> store_error option \<times> 's" where
  "touched sx now sid s =
     (if sx_idleTTL sx > 0 then
        (case Option.bind (sx_store sx) st_Touch of
           None \<Rightarrow> (None, s)
         | Some touch \<Rightarrow> touch sid now (sessionExpiry now (sx_idleTTL sx)) s)
      else (None, s))"

definition revocablePrincipal :: "'s Sessions \<Rightarrow> int \<Rightarrow> payload \<Rightarrow> 's \<Rightarrow> (store_error + Principal option) \<times> 's" where
  "revocablePrincipal sx now payload s =
     (if TrimSpace (sp_SessionID payload) = [] then (Inr None, s)
      else
        (case sx_store sx of
           None \<Rightarrow> (Inl NilStore, s)
         | Some store \<Rightarrow>
             (case st_Lookup store (sp_SessionID payload) s of
                (Inl ErrSessionNotFound, s') \<Rightarrow> (Inr None, s')
              | (Inl err, s') \<Rightarrow> (Inl err, s')
              | (Inr r, s') \<Rightarrow>
                  if sr_Revoked r \<or> expired r now \<or> TrimSpace (pr_ID (sr_Principal r)) = [] then (Inr None, s')
                  else if sessionRecordAuthorizationVersion r \<noteq> sp_AuthorizationVersion payload then (Inr None, s')
                  else
                    (case touched sx now (sr_ID r) s' of
                       (Some err, s'') \<Rightarrow> (Inl err, s'')
                     | (None, s'') \<Rightarrow>
                         let p = sr_Principal r
                         in (Inr (Some (if pr_AuthorizationVersion p = []
                                        then p\<lparr>pr_AuthorizationVersion := sr_AuthorizationVersion r\<rparr> else p)), s'')))))"

definition request_payload :: "auth_lib \<Rightarrow> 's Sessions \<Rightarrow> int \<Rightarrow> auth_request \<Rightarrow> payload option" where
  "request_payload A sx now request =
     Option.bind request (\<lambda>cookies. Option.bind (cookies (sx_cookie sx)) (verify A sx now))"

definition Principal_of :: "auth_lib \<Rightarrow> 's Sessions \<Rightarrow> int \<Rightarrow> auth_request \<Rightarrow> 's \<Rightarrow> (store_error + Principal option) \<times> 's" where
  "Principal_of A sx now request s =
     (case request_payload A sx now request of
        None \<Rightarrow> (Inr None, s)
      | Some payload \<Rightarrow>
          if Unix now \<ge> sp_Expires payload then (Inr None, s)
          else if sx_mode sx = ''revocable'' then revocablePrincipal sx now payload s
          else if TrimSpace (sp_ID payload) = [] then (Inr None, s)
          else (Inr (Some \<lparr>pr_ID = sp_ID payload, pr_Roles = sp_Roles payload, pr_Permissions = sp_Permissions payload,
                           pr_AuthorizationVersion = sp_AuthorizationVersion payload\<rparr>), s))"

definition Revoke :: "auth_lib \<Rightarrow> 's Sessions \<Rightarrow> int \<Rightarrow> auth_request \<Rightarrow> 's \<Rightarrow> store_error option \<times> 's" where
  "Revoke A sx now request s =
     (if sx_mode sx \<noteq> ''revocable'' then (None, s)
      else
        (case request_payload A sx now request of
           None \<Rightarrow> (None, s)
         | Some payload \<Rightarrow>
             if TrimSpace (sp_SessionID payload) = [] then (None, s)
             else
               (case sx_store sx of
                  None \<Rightarrow> (Some NilStore, s)
                | Some store \<Rightarrow> st_Revoke store (sp_SessionID payload) s)))"

definition RevokeSession :: "'s Sessions \<Rightarrow> string \<Rightarrow> 's \<Rightarrow> store_error option \<times> 's" where
  "RevokeSession sx sessionID s =
     (if sx_mode sx \<noteq> ''revocable'' then (None, s)
      else (case sx_store sx of None \<Rightarrow> (Some NilStore, s) | Some store \<Rightarrow> st_Revoke store sessionID s))"

definition RevokePrincipal :: "'s Sessions \<Rightarrow> string \<Rightarrow> 's \<Rightarrow> store_error option \<times> 's" where
  "RevokePrincipal sx principalID s =
     (if sx_mode sx \<noteq> ''revocable'' then (None, s)
      else (case sx_store sx of None \<Rightarrow> (Some NilStore, s) | Some store \<Rightarrow> st_RevokePrincipal store principalID s))"

definition ClearCookie :: "'s Sessions \<Rightarrow> http_cookie" where
  "ClearCookie sx = session_cookie sx [] 0 (- 1)"

definition Clear :: "(http_cookie \<Rightarrow> string) \<Rightarrow> 's Sessions \<Rightarrow> writer \<Rightarrow> writer" where
  "Clear print sx w = SetCookie print (ClearCookie sx) w"

definition ClearRequest ::
  "auth_lib \<Rightarrow> (http_cookie \<Rightarrow> string) \<Rightarrow> 's Sessions \<Rightarrow> int \<Rightarrow> auth_request \<Rightarrow> writer \<Rightarrow> 's \<Rightarrow> store_error option \<times> writer \<times> 's" where
  "ClearRequest A print sx now request w s =
     (let (revokeErr, s') = (if \<not> Option.is_none request \<and> sx_mode sx = ''revocable'' then Revoke A sx now request s else (None, s))
      in (revokeErr, Clear print sx w, s'))"

definition Rotate ::
  "auth_lib \<Rightarrow> (http_cookie \<Rightarrow> string) \<Rightarrow> 's Sessions \<Rightarrow> int \<Rightarrow> string option \<Rightarrow> auth_request \<Rightarrow> Principal \<Rightarrow> writer \<Rightarrow> 's \<Rightarrow>
     auth_error option \<times> writer \<times> 's" where
  "Rotate A print sx now random request who w s =
     (case (if \<not> Option.is_none request \<and> sx_mode sx = ''revocable'' then Revoke A sx now request s else (None, s)) of
        (Some err, s') \<Rightarrow> (Some (StoreError err), w, s')
      | (None, s') \<Rightarrow> Issue A print sx now random who w s')"

text \<open>Sessions as the provider of the native guards.\<close>

definition Provider :: "auth_lib \<Rightarrow> 's Sessions \<Rightarrow> int \<Rightarrow> (auth_request, 's, 'c) provider" where
  "Provider A sx now request s =
     (case Principal_of A sx now request s of
        (Inl err, s') \<Rightarrow> (Inl (AppError ''session store'' []), s')
      | (Inr p, s') \<Rightarrow> (Inr p, s'))"

section \<open>What a store promises\<close>

text \<open>
  Later states of a store: no record appears that was not there, none changes its principal, and none loses
  its revocation. Creating a session is the only operation that adds a record.
\<close>

definition later :: "(string \<Rightarrow> SessionRecord option) \<Rightarrow> (string \<Rightarrow> SessionRecord option) \<Rightarrow> bool" where
  "later v v' \<longleftrightarrow>
     (\<forall>i r'. v' i = Some r' \<longrightarrow> (\<exists>r. v i = Some r \<and> sr_Principal r' = sr_Principal r \<and> (sr_Revoked r \<longrightarrow> sr_Revoked r')))"

lemma later_refl [simp]: "later v v"
  by (simp add: later_def)

text \<open>Every session of a principal is revoked.\<close>

definition out_of :: "string \<Rightarrow> (string \<Rightarrow> SessionRecord option) \<Rightarrow> bool" where
  "out_of pid v \<longleftrightarrow> (\<forall>i r. v i = Some r \<longrightarrow> pr_ID (sr_Principal r) = pid \<longrightarrow> sr_Revoked r)"

lemma out_of_later: "out_of pid v \<Longrightarrow> later v v' \<Longrightarrow> out_of pid v'"
  unfolding out_of_def later_def by metis

datatype session_op =
    OpCookie int "string option" Principal
  | OpPrincipal int auth_request
  | OpRevoke int auth_request
  | OpRevokeSession string
  | OpRevokePrincipal string

fun session_step :: "auth_lib \<Rightarrow> 's Sessions \<Rightarrow> session_op \<Rightarrow> 's \<Rightarrow> 's" where
  "session_step A sx (OpCookie now random who) s = snd (Cookie A sx now random who s)"
| "session_step A sx (OpPrincipal now request) s = snd (Principal_of A sx now request s)"
| "session_step A sx (OpRevoke now request) s = snd (Revoke A sx now request s)"
| "session_step A sx (OpRevokeSession sid) s = snd (RevokeSession sx sid s)"
| "session_step A sx (OpRevokePrincipal pid) s = snd (RevokePrincipal sx pid s)"

definition signs_in :: "string \<Rightarrow> session_op \<Rightarrow> bool" where
  "signs_in pid operation \<longleftrightarrow> (case operation of OpCookie _ _ who \<Rightarrow> TrimSpace (pr_ID who) = pid | _ \<Rightarrow> False)"

locale session_store =
  fixes store :: "'s SessionStore" and view :: "'s \<Rightarrow> string \<Rightarrow> SessionRecord option"
  assumes lookup: "st_Lookup store i s = (Inr r, s') \<Longrightarrow> view s (TrimSpace i) = Some r"
    and lookup_keeps: "st_Lookup store i s = (x, s') \<Longrightarrow> later (view s) (view s')"
    and create: "st_Create store r s = (y, s') \<Longrightarrow> view s' i = Some r' \<Longrightarrow>
      view s i = Some r' \<or> pr_ID (sr_Principal r') = TrimSpace (pr_ID (sr_Principal r))"
    and revoke_keeps: "st_Revoke store i s = (y, s') \<Longrightarrow> later (view s) (view s')"
    and revoke_principal_keeps: "st_RevokePrincipal store pid s = (y, s') \<Longrightarrow> later (view s) (view s')"
    and revoke_principal: "st_RevokePrincipal store pid s = (None, s') \<Longrightarrow> TrimSpace pid \<noteq> [] \<Longrightarrow> out_of (TrimSpace pid) (view s')"
    and touch_keeps: "st_Touch store = Some f \<Longrightarrow> f i t u s = (y, s') \<Longrightarrow> later (view s) (view s')"
begin

lemma touched_keeps: "sx_store sx = Some store \<Longrightarrow> touched sx now i s = (y, s') \<Longrightarrow> later (view s) (view s')"
  by (auto simp: touched_def intro: touch_keeps split: if_splits option.splits)

lemma later_trans: "later u v \<Longrightarrow> later v v' \<Longrightarrow> later u v'"
  unfolding later_def by metis

lemma revocablePrincipal_keeps:
  assumes "sx_store sx = Some store" "revocablePrincipal sx now payload s = (x, s')"
  shows "later (view s) (view s')"
proof (cases "TrimSpace (sp_SessionID payload) = []")
  case True
  then show ?thesis using assms(2) by (simp add: revocablePrincipal_def)
next
  case False
  obtain l s1 where l: "st_Lookup store (sp_SessionID payload) s = (l, s1)" by (cases "st_Lookup store (sp_SessionID payload) s")
  have "s' = s1 \<or> (\<exists>i. snd (touched sx now i s1) = s')"
    using assms False
    by (auto simp: revocablePrincipal_def l Let_def split: sum.splits store_error.splits if_splits prod.splits option.splits)
      (metis snd_conv)+
  moreover have "later (view s) (view s1)" by (rule lookup_keeps [OF l])
  moreover have "later (view s1) (view (snd (touched sx now i s1)))" for i
    using touched_keeps [OF assms(1)] by (metis prod.collapse)
  ultimately show ?thesis using later_trans by metis
qed

lemma revocablePrincipal_record:
  assumes "sx_store sx = Some store" "fst (revocablePrincipal sx now payload s) = Inr (Some p)"
  shows "\<exists>r. view s (TrimSpace (sp_SessionID payload)) = Some r \<and> \<not> sr_Revoked r \<and> \<not> expired r now \<and> pr_ID p = pr_ID (sr_Principal r)"
proof -
  obtain l s1 where l: "st_Lookup store (sp_SessionID payload) s = (l, s1)" by (cases "st_Lookup store (sp_SessionID payload) s")
  obtain r where r: "l = Inr r" "\<not> sr_Revoked r" "\<not> expired r now" "pr_ID p = pr_ID (sr_Principal r)"
    using assms by (auto simp: revocablePrincipal_def l Let_def
        split: sum.splits store_error.splits if_splits prod.splits option.splits)
  then show ?thesis using lookup [of "sp_SessionID payload" s r s1] l by auto
qed

lemma Cookie_keeps:
  assumes "sx_store sx = Some store" "out_of pid (view s)" "TrimSpace (pr_ID who) \<noteq> pid"
  shows "out_of pid (view (snd (Cookie A sx now random who s)))"
proof -
  have c: "out_of pid (view s')" if "st_Create store (new_record sx now sid who) s = (y, s')" for sid y s'
    unfolding out_of_def
  proof (intro allI impI)
    fix i r'
    assume r': "view s' i = Some r'" "pr_ID (sr_Principal r') = pid"
    have "view s i = Some r'" using create [OF that r'(1)] r'(2) assms(3) by (auto simp: new_record_def)
    then show "sr_Revoked r'" using assms(2) r'(2) unfolding out_of_def by blast
  qed
  show ?thesis using assms(1,2) c
    by (auto simp: Cookie_def Let_def split: option.splits prod.splits)
qed

lemma session_step_out:
  assumes "sx_store sx = Some store" "sx_mode sx = ''revocable''" "out_of pid (view s)" "\<not> signs_in pid operation"
  shows "out_of pid (view (session_step A sx operation s))"
proof (cases operation)
  case (OpCookie now random who)
  then show ?thesis using assms Cookie_keeps by (simp add: signs_in_def)
next
  case (OpPrincipal now request)
  have "later (view s) (view (snd (Principal_of A sx now request s)))"
    using revocablePrincipal_keeps [OF assms(1)] by (auto simp: Principal_of_def split: option.splits) (metis prod.collapse)
  then show ?thesis using assms(3) OpPrincipal out_of_later by simp
next
  case (OpRevoke now request)
  have "later (view s) (view (snd (Revoke A sx now request s)))"
    using assms(1) revoke_keeps by (auto simp: Revoke_def split: option.splits) (metis prod.collapse)
  then show ?thesis using assms(3) OpRevoke out_of_later by simp
next
  case (OpRevokeSession sid)
  have "later (view s) (view (snd (RevokeSession sx sid s)))"
    using assms(1) revoke_keeps by (simp add: RevokeSession_def) (metis prod.collapse)
  then show ?thesis using assms(3) OpRevokeSession out_of_later by simp
next
  case (OpRevokePrincipal p)
  have "later (view s) (view (snd (RevokePrincipal sx p s)))"
    using assms(1) revoke_principal_keeps by (simp add: RevokePrincipal_def) (metis prod.collapse)
  then show ?thesis using assms(3) OpRevokePrincipal out_of_later by simp
qed

lemma revoked_stays_out:
  assumes "sx_store sx = Some store" "sx_mode sx = ''revocable''" "TrimSpace pid \<noteq> []"
    and "RevokePrincipal sx pid s = (None, s1)" "\<forall>operation\<in>set ops. \<not> signs_in (TrimSpace pid) operation"
    and "fst (Principal_of A sx now request (fold (session_step A sx) ops s1)) = Inr (Some p)"
  shows "pr_ID p \<noteq> TrimSpace pid"
proof
  assume pid: "pr_ID p = TrimSpace pid"
  let ?s = "fold (session_step A sx) ops s1"
  have "out_of (TrimSpace pid) (view s1)"
    using assms(1-4) revoke_principal by (simp add: RevokePrincipal_def)
  then have out: "out_of (TrimSpace pid) (view ?s)" using assms(5)
  proof (induction ops arbitrary: s1)
    case (Cons operation ops)
    then show ?case using session_step_out [OF assms(1,2)] by simp
  qed simp
  obtain payload where "fst (revocablePrincipal sx now payload ?s) = Inr (Some p)"
    using assms(2,6) by (auto simp: Principal_of_def split: option.splits if_splits)
  from revocablePrincipal_record [OF assms(1) this] out pid show False unfolding out_of_def by auto
qed

end

text \<open>The store in memory keeps these promises.\<close>

lemmas mem_store_defs = InMemorySessionStore_def CreateSession_def LookupSession_def RevokeSession_mem_def
  RevokePrincipal_mem_def TouchSession_def

interpretation mem: session_store InMemorySessionStore "\<lambda>s. s"
  by unfold_locales
    (auto simp: mem_store_defs Let_def later_def out_of_def stored_def split: if_splits option.splits)

section \<open>Tokens are read back\<close>

lemma Split_dots:
  "CHR ''.'' \<notin> set a \<Longrightarrow> CHR ''.'' \<notin> set b \<Longrightarrow> Split (a @ CHR ''.'' # b) CHR ''.'' = [a, b]"
  by (simp add: Split_append_sep Split_no_sep)

lemma no_dot [simp]: "CHR ''.'' \<notin> set (EncodeToString RawURL s)"
  using EncodeToString_chars [of "CHR ''.''" RawURL s] by auto

text \<open>The keys a token of a manager is checked with, by the id of its signing key.\<close>

definition keys_for :: "'s Sessions \<Rightarrow> int \<Rightarrow> string \<Rightarrow> SigningKey list" where
  "keys_for sx now keyID =
     (if keyID = [] then unnamedSigningKeys sx now
      else (case namedSigningKey sx now keyID of None \<Rightarrow> [] | Some key \<Rightarrow> [key]))"

lemma verify_sign:
  assumes "CHR ''.'' \<notin> set (sk_ID (sx_currentKey sx))" "TrimSpace (sk_ID (sx_currentKey sx)) = sk_ID (sx_currentKey sx)"
  shows "verify A sx' now (sign A sx body) =
    (if \<exists>key\<in>set (keys_for sx' now (sk_ID (sx_currentKey sx))).
        al_Mac A (sk_Secret (sx_currentKey sx)) body = al_Mac A (sk_Secret key) body
     then al_Unmarshal A body else None)"
proof -
  let ?k = "sk_ID (sx_currentKey sx)"
  let ?tag = "EncodeToString RawURL (al_Mac A (sk_Secret (sx_currentKey sx)) body)"
  have w: "verify_with A keys (EncodeToString RawURL body) ?tag =
      (if \<exists>key\<in>set keys. al_Mac A (sk_Secret (sx_currentKey sx)) body = al_Mac A (sk_Secret key) body
       then al_Unmarshal A body else None)" for keys
    by (auto simp: verify_with_def list_ex_iff)
  show ?thesis
  proof (cases "?k = []")
    case True
    then show ?thesis by (simp add: verify_def sign_def Let_def Split_dots w keys_for_def)
  next
    case False
    have "sign A sx body = ?k @ CHR ''.'' # EncodeToString RawURL body @ CHR ''.'' # ?tag"
      using False by (simp add: sign_def Let_def)
    moreover have "Split (?k @ CHR ''.'' # EncodeToString RawURL body @ CHR ''.'' # ?tag) CHR ''.'' =
        [?k, EncodeToString RawURL body, ?tag]"
      using assms(1) by (simp add: Split_append_sep Split_no_sep)
    ultimately show ?thesis
      using assms(2) False
      by (cases "namedSigningKey sx' now ?k") (simp_all add: verify_def w [of "[key]" for key] keys_for_def)
  qed
qed

lemma sign_key_accepted: "sx_currentKey sx \<in> set (keys_for sx now (sk_ID (sx_currentKey sx)))"
  by (simp add: keys_for_def unnamedSigningKeys_def namedSigningKey_def)

text \<open>What \<open>New\<close> makes: the ids of the keys are trimmed and have no dots, and their secrets are long.\<close>

definition key_ok :: "SigningKey \<Rightarrow> bool" where
  "key_ok key \<longleftrightarrow> TrimSpace (sk_ID key) = sk_ID key \<and> CHR ''.'' \<notin> set (sk_ID key) \<and> 32 \<le> length (sk_Secret key)"

lemma previous_keys_ok:
  "previous_keys keys previous = Inr result \<Longrightarrow> (\<And>i key. previous i = Some key \<Longrightarrow> sk_ID key = i \<and> key_ok key) \<Longrightarrow>
   result i = Some key \<Longrightarrow> sk_ID key = i \<and> key_ok key"
proof (induction keys arbitrary: previous)
  case (Cons k keys)
  let ?id = "TrimSpace (sk_ID k)"
  have ok: "CHR ''.'' \<notin> set ?id" "32 \<le> length (sk_Secret k)"
    and rest: "previous_keys keys (previous(?id \<mapsto> k\<lparr>sk_ID := ?id\<rparr>)) = Inr result"
    using Cons.prems(1) by (auto simp: Let_def split: if_splits)
  show ?case
  proof (rule Cons.IH [OF rest _ Cons.prems(3)])
    fix i' key'
    assume "(previous(?id \<mapsto> k\<lparr>sk_ID := ?id\<rparr>)) i' = Some key'"
    then show "sk_ID key' = i' \<and> key_ok key'"
      using Cons.prems(2) [of i' key'] ok by (auto simp: key_ok_def split: if_splits)
  qed
qed simp

lemma New_keys:
  assumes "New getenv options = Inr sx"
  shows "key_ok (sx_currentKey sx)" "sx_previousKey sx i = Some key \<Longrightarrow> sk_ID key = i \<and> key_ok key"
proof -
  obtain current previous where keys: "sessionSigningKeys getenv options = Inr (current, previous)"
    and sx: "sx_currentKey sx = current" "sx_previousKey sx = previous"
    using assms by (auto simp: New_def Let_def split: sum.splits if_splits prod.splits)
  obtain secret where secret: "sessionSecret getenv options = Inr secret"
    and current: "current = \<lparr>sk_ID = TrimSpace (op_KeyID options), sk_Secret = secret, sk_AcceptUntil = zero_time\<rparr>"
    and dot: "CHR ''.'' \<notin> set (TrimSpace (op_KeyID options))"
    and previous: "previous_keys (op_PreviousKeys options) (\<lambda>_. None) = Inr previous"
    using keys by (cases "previous_keys (op_PreviousKeys options) (\<lambda>_. None)")
      (auto simp: sessionSigningKeys_def Let_def split: sum.splits if_splits)
  have "32 \<le> length secret" using secret by (auto simp: sessionSecret_def Let_def split: if_splits)
  then show "key_ok (sx_currentKey sx)" using current dot by (simp add: sx key_ok_def)
  show "sx_previousKey sx i = Some key \<Longrightarrow> sk_ID key = i \<and> key_ok key"
    using previous_keys_ok [OF previous] by (simp add: sx)
qed

lemma New_mode:
  assumes "New getenv options = Inr sx"
  shows "sx_mode sx = ''signed-cookie'' \<or> sx_mode sx = ''revocable'' \<and> sx_store sx \<noteq> None" "0 < sx_ttl sx"
    "sx_mode sx = ''revocable'' \<Longrightarrow> 0 < sx_idleTTL sx \<Longrightarrow> \<exists>store. sx_store sx = Some store \<and> st_Touch store \<noteq> None"
  using assms by (auto simp: New_def Let_def Second_def Option.is_none_def split: sum.splits if_splits prod.splits bind_splits)

section \<open>The life of a session\<close>

lemma Second_pos: "0 < Second"
  by (simp add: Second_def)

lemma Second_nonzero: "Second \<noteq> 0"
  by (simp add: Second_def)

lemma round_up:
  fixes q r x u :: int
  assumes "q + r = x" "0 \<le> r" "r < u"
  shows "x \<le> (if r = 0 then x else q + u) \<and> (if r = 0 then x else q + u) < x + u"
  using assms by auto

lemma sessionExpiry_bounds: "now + ttl \<le> sessionExpiry now ttl" "sessionExpiry now ttl < now + ttl + Second"
  "sessionExpiry now ttl mod Second = 0"
proof -
  let ?x = "now + ttl"
  have d: "?x div Second * Second + ?x mod Second = ?x" by (rule div_mult_mod_eq)
  have m: "0 \<le> ?x mod Second" "?x mod Second < Second" using Second_pos by simp_all
  have e: "sessionExpiry now ttl = (if ?x mod Second = 0 then ?x else ?x div Second * Second + Second)"
    by (simp add: sessionExpiry_def Let_def)
  show "?x \<le> sessionExpiry now ttl" "sessionExpiry now ttl < ?x + Second"
    unfolding e using round_up [OF d m] by blast+
  show "sessionExpiry now ttl mod Second = 0" unfolding e by simp
qed

lemma Unix_reached:
  assumes "e mod Second = 0"
  shows "Unix t \<ge> Unix e \<longleftrightarrow> t \<ge> e"
proof -
  have "e = e div Second * Second" using assms by (metis add.right_neutral div_mult_mod_eq)
  moreover have t: "t div Second * Second + t mod Second = t" by (rule div_mult_mod_eq)
  moreover have m: "0 \<le> t mod Second" "t mod Second < Second" using Second_pos by simp_all
  ultimately have "e \<le> t" if "e div Second \<le> t div Second"
    using mult_right_mono [OF that, of Second] Second_pos by linarith
  then show ?thesis using zdiv_mono1 [of e t Second] Second_pos by (auto simp: Unix_def)
qed

text \<open>The Unix second of an expiry is reached exactly at the expiry, since an expiry is a whole second.\<close>

lemmas expiry_reached = Unix_reached [OF sessionExpiry_bounds(3)]

definition signed_payload :: "'s Sessions \<Rightarrow> int \<Rightarrow> Principal \<Rightarrow> payload" where
  "signed_payload sx now who =
     \<lparr>sp_ID = pr_ID who, sp_SessionID = [], sp_Roles = pr_Roles who, sp_Permissions = pr_Permissions who,
      sp_AuthorizationVersion = pr_AuthorizationVersion who, sp_Expires = Unix (sessionExpiry now (sx_ttl sx))\<rparr>"

lemma Cookie_signed:
  assumes "sx_mode sx \<noteq> ''revocable''" "Cookie A sx now random who s = (Inr cookie, s')"
  obtains body where "al_Marshal A (signed_payload sx now who) = Some body"
    "cookie = session_cookie sx (sign A sx body) (sessionExpiry now (sx_ttl sx)) 0" "s' = s" "TrimSpace (pr_ID who) \<noteq> []"
  using assms
  by (auto simp: Cookie_def Let_def encode_payload_def signed_payload_def split: if_splits option.splits)

text \<open>The request a browser sends with a cookie of a manager.\<close>

definition carries :: "'s Sessions \<Rightarrow> http_cookie \<Rightarrow> auth_request \<Rightarrow> bool" where
  "carries sx cookie request \<longleftrightarrow> (\<exists>cookies. request = Some cookies \<and> cookies (sx_cookie sx) = Some (ck_Value cookie))"

lemma signed_session:
  assumes "key_ok (sx_currentKey sx)" "sx_mode sx \<noteq> ''revocable''" "sx_mode sx' \<noteq> ''revocable''"
    and "\<And>body. al_Marshal A (signed_payload sx now who) = Some body \<Longrightarrow> al_Unmarshal A body = Some (signed_payload sx now who)"
    and "Cookie A sx now random who s = (Inr cookie, s')" "carries sx' cookie request"
    and key: "\<exists>key\<in>set (keys_for sx' t (sk_ID (sx_currentKey sx))). sk_Secret key = sk_Secret (sx_currentKey sx)"
  shows "Principal_of A sx' t request u = (Inr (if t < sessionExpiry now (sx_ttl sx) then Some who else None), u)"
proof -
  obtain body where body: "al_Marshal A (signed_payload sx now who) = Some body" "TrimSpace (pr_ID who) \<noteq> []"
    "cookie = session_cookie sx (sign A sx body) (sessionExpiry now (sx_ttl sx)) 0"
    by (rule Cookie_signed [OF assms(2,5)]) blast
  have "verify A sx' t (sign A sx body) = Some (signed_payload sx now who)"
    using assms(1) key assms(4) [OF body(1)] by (subst verify_sign) (simp_all add: key_ok_def, metis)
  then have "request_payload A sx' t request = Some (signed_payload sx now who)"
    using assms(6) by (auto simp: request_payload_def carries_def body(3) session_cookie_def)
  then show ?thesis
    using assms(3) body(2) expiry_reached [of now "sx_ttl sx" t]
    by (simp add: Principal_of_def signed_payload_def not_less)
qed

text \<open>A string that is valid UTF-8: encoding its runes gives its bytes again, since no byte became U+FFFD.\<close>

definition valid_text :: "string \<Rightarrow> bool" where
  "valid_text s \<longleftrightarrow> concat (map encode_rune (runes s)) = s"

definition payload_text :: "payload \<Rightarrow> bool" where
  "payload_text payload \<longleftrightarrow>
     list_all valid_text ([sp_ID payload, sp_SessionID payload, sp_AuthorizationVersion payload] @ sp_Roles payload @ sp_Permissions payload)"

definition principal_text :: "Principal \<Rightarrow> bool" where
  "principal_text who \<longleftrightarrow> list_all valid_text ([pr_ID who, pr_AuthorizationVersion who] @ pr_Roles who @ pr_Permissions who)"

lemma valid_text_Nil: "valid_text []"
  by (simp add: valid_text_def runes_def decode_runes.simps)

text \<open>
  C30: a signed session lasts exactly as long as it was issued for. The cookie \<open>New\<close>'s manager issues resolves
  to the principal it was issued for until its expiry, and to none from then on; the expiry is the time to
  live rounded up to a whole second. The JSON codec is assumed to read back what it writes of payloads whose
  strings are valid UTF-8 (it replaces other bytes), and the principal is one of such strings.
\<close>

theorem signed_session_lifetime:
  assumes "New getenv options = Inr sx" "sx_mode sx = ''signed-cookie''"
    and "\<And>payload body. payload_text payload \<Longrightarrow> al_Marshal A payload = Some body \<Longrightarrow> al_Unmarshal A body = Some payload"
    and "principal_text who"
    and "Cookie A sx now random who s = (Inr cookie, s')" "carries sx cookie request"
  shows "Principal_of A sx t request u = (Inr (if t < sessionExpiry now (sx_ttl sx) then Some who else None), u) \<and>
    ck_Expires cookie = Some (sessionExpiry now (sx_ttl sx)) \<and> s' = s \<and>
    now + sx_ttl sx \<le> sessionExpiry now (sx_ttl sx) \<and> sessionExpiry now (sx_ttl sx) < now + sx_ttl sx + Second"
proof -
  have "payload_text (signed_payload sx now who)"
    using assms(4) by (simp add: payload_text_def signed_payload_def principal_text_def valid_text_Nil)
  then have codec: "al_Unmarshal A body = Some (signed_payload sx now who)"
    if "al_Marshal A (signed_payload sx now who) = Some body" for body
    using assms(3) that by blast
  have mode: "sx_mode sx \<noteq> ''revocable''" using assms(2) by simp
  have "Principal_of A sx t request u = (Inr (if t < sessionExpiry now (sx_ttl sx) then Some who else None), u)"
    using signed_session [OF New_keys(1) [OF assms(1)] mode mode codec assms(5,6)] sign_key_accepted by blast
  moreover have "ck_Expires cookie = Some (sessionExpiry now (sx_ttl sx)) \<and> s' = s"
    by (rule Cookie_signed [OF mode assms(5)]) (simp add: session_cookie_def)
  ultimately show ?thesis using sessionExpiry_bounds by blast
qed

text \<open>
  Signing keys can be rotated. A cookie signed with a named key stays good at a manager that has another
  current key and the old one among its previous keys, until the cookie expires or the old key does.
\<close>

theorem session_survives_rotation:
  assumes "New getenv options = Inr old" "New getenv options' = Inr new"
    and "sx_mode old = ''signed-cookie''" "sx_mode new = ''signed-cookie''"
    and "\<And>body. al_Marshal A (signed_payload old now who) = Some body \<Longrightarrow> al_Unmarshal A body = Some (signed_payload old now who)"
    and "Cookie A old now random who s = (Inr cookie, s')" "carries new cookie request"
    and "sk_ID (sx_currentKey old) \<noteq> []" "sk_ID (sx_currentKey new) \<noteq> sk_ID (sx_currentKey old)"
    and "sx_previousKey new (sk_ID (sx_currentKey old)) = Some key" "sk_Secret key = sk_Secret (sx_currentKey old)"
  shows "Principal_of A new t request u =
    (Inr (if t < sessionExpiry now (sx_ttl old) \<and> previousSigningKeyAccepted key t then Some who else None), u)"
proof (cases "previousSigningKeyAccepted key t")
  case True
  have mode: "sx_mode old \<noteq> ''revocable''" "sx_mode new \<noteq> ''revocable''" using assms(3,4) by simp_all
  have "\<exists>k\<in>set (keys_for new t (sk_ID (sx_currentKey old))). sk_Secret k = sk_Secret (sx_currentKey old)"
    using assms(8-11) True by (auto simp: keys_for_def namedSigningKey_def)
  from signed_session [OF New_keys(1) [OF assms(1)] mode assms(5-7) this] True show ?thesis by simp
next
  case False
  have mode: "sx_mode old \<noteq> ''revocable''" using assms(3) by simp
  obtain body where cookie: "cookie = session_cookie old (sign A old body) (sessionExpiry now (sx_ttl old)) 0"
    by (rule Cookie_signed [OF mode assms(6)]) blast
  have "keys_for new t (sk_ID (sx_currentKey old)) = []"
    using assms(8-10) False by (simp add: keys_for_def namedSigningKey_def)
  then have "verify A new t (sign A old body) = None"
    using New_keys(1) [OF assms(1)] by (subst verify_sign) (auto simp: key_ok_def)
  then have "request_payload A new t request = None"
    using assms(7) by (auto simp: request_payload_def carries_def cookie session_cookie_def)
  then show ?thesis using False by (simp add: Principal_of_def)
qed

lemma not_zero: "0 \<le> now \<Longrightarrow> 0 < ttl \<Longrightarrow> sessionExpiry now ttl \<noteq> zero_time"
  using sessionExpiry_bounds(1) [of now ttl] by (simp add: zero_time_def Second_def)

text \<open>A revocable session right after it was issued: its record in the store, and the pointer in its cookie.\<close>

definition pointer_payload :: "'s Sessions \<Rightarrow> int \<Rightarrow> string \<Rightarrow> Principal \<Rightarrow> payload" where
  "pointer_payload sx now sid who =
     \<lparr>sp_ID = [], sp_SessionID = sid, sp_Roles = [], sp_Permissions = [],
      sp_AuthorizationVersion = pr_AuthorizationVersion who, sp_Expires = Unix (sessionExpiry now (sx_ttl sx))\<rparr>"

lemma Cookie_revocable:
  assumes "sx_mode sx = ''revocable''" "sx_store sx = Some InMemorySessionStore" "length bytes = 32"
    and "Cookie A sx now (Some bytes) who s = (Inr cookie, s')"
  obtains body where "al_Marshal A (pointer_payload sx now (EncodeToString RawURL bytes) who) = Some body"
    "cookie = session_cookie sx (sign A sx body) (sessionExpiry now (sx_ttl sx)) 0"
    "s' = s(EncodeToString RawURL bytes \<mapsto> stored (new_record sx now (EncodeToString RawURL bytes) who))"
    "TrimSpace (pr_ID who) \<noteq> []"
proof -
  let ?sid = "EncodeToString RawURL bytes"
  have who: "TrimSpace (pr_ID who) \<noteq> []" using assms(4) by (auto simp: Cookie_def split: if_splits)
  have sid: "?sid \<noteq> []" using assms(3) by auto
  have "st_Create InMemorySessionStore (new_record sx now ?sid who) s = (None, s(?sid \<mapsto> stored (new_record sx now ?sid who)))"
    using who sid by (simp add: mem_store_defs Let_def stored_def new_record_def)
  then obtain body where "al_Marshal A (pointer_payload sx now ?sid who) = Some body"
    "cookie = session_cookie sx (sign A sx body) (sessionExpiry now (sx_ttl sx)) 0"
    "s' = s(?sid \<mapsto> stored (new_record sx now ?sid who))"
    using assms who by (auto simp: Cookie_def Let_def encode_payload_def pointer_payload_def split: option.splits)
  with who that show ?thesis by blast
qed

lemma expired_new:
  assumes "0 \<le> now" "0 < sx_ttl sx"
  shows "expired (stored (new_record sx now sid who)) t \<longleftrightarrow>
    \<not> (t < sessionExpiry now (sx_ttl sx) \<and> (0 < sx_idleTTL sx \<longrightarrow> t < sessionExpiry now (sx_idleTTL sx)))"
  using not_zero [OF assms] not_zero [OF assms(1), of "sx_idleTTL sx"]
  by (auto simp: expired_def stored_def new_record_def)

lemma touched_new:
  assumes "sx_store sx = Some InMemorySessionStore" "s sid = Some r" "sid \<noteq> []" "TrimSpace sid = sid"
  shows "fst (touched sx t sid s) = None"
  using assms by (simp add: touched_def mem_store_defs Let_def)

lemma revocablePrincipal_new:
  assumes "sx_store sx = Some InMemorySessionStore" "sid \<noteq> []" "TrimSpace sid = sid" "TrimSpace (pr_ID who) \<noteq> []"
    and "s sid = Some (stored (new_record sx now sid who))" "0 \<le> now" "0 < sx_ttl sx"
  shows "fst (revocablePrincipal sx t (pointer_payload sx now sid who) s) =
    Inr (if t < sessionExpiry now (sx_ttl sx) \<and> (0 < sx_idleTTL sx \<longrightarrow> t < sessionExpiry now (sx_idleTTL sx))
         then Some (who\<lparr>pr_ID := TrimSpace (pr_ID who)\<rparr>) else None)"
proof -
  let ?r = "stored (new_record sx now sid who)"
  have l: "st_Lookup InMemorySessionStore sid s = (Inr ?r, s)" using assms by (simp add: mem_store_defs Let_def)
  have r: "\<not> sr_Revoked ?r" "TrimSpace (pr_ID (sr_Principal ?r)) \<noteq> []" "sr_ID ?r = sid"
    "sr_Principal ?r = who\<lparr>pr_ID := TrimSpace (pr_ID who)\<rparr>" "sr_AuthorizationVersion ?r = pr_AuthorizationVersion who"
    "sessionRecordAuthorizationVersion ?r = pr_AuthorizationVersion who"
    using assms(3,4) by (simp_all add: stored_def new_record_def sessionRecordAuthorizationVersion_def)
  obtain s'' where touch: "touched sx t sid s = (None, s'')"
    using touched_new [where s = s and sid = sid, OF assms(1,5,2,3), of t] by (metis prod.collapse)
  have v: "(if pr_AuthorizationVersion p = [] then p\<lparr>pr_AuthorizationVersion := pr_AuthorizationVersion who\<rparr> else p) = p"
    if "p = who\<lparr>pr_ID := TrimSpace (pr_ID who)\<rparr>" for p
    using that by simp
  show ?thesis
    using assms(1-3) r expired_new [OF assms(6,7), of sid who t] v
    by (simp add: revocablePrincipal_def pointer_payload_def l touch Let_def)
qed

text \<open>
  A revocable session lasts until its expiry or, when it is not used, until its idle expiry. With the
  store in memory the cookie of a new session resolves to the principal the store keeps for it.
\<close>

theorem revocable_session_lifetime:
  assumes "New getenv options = Inr sx" "sx_mode sx = ''revocable''" "sx_store sx = Some InMemorySessionStore"
    and "\<And>body. al_Marshal A (pointer_payload sx now (EncodeToString RawURL bytes) who) = Some body \<Longrightarrow>
      al_Unmarshal A body = Some (pointer_payload sx now (EncodeToString RawURL bytes) who)"
    and "Cookie A sx now (Some bytes) who s = (Inr cookie, s')" "length bytes = 32" "0 \<le> now" "carries sx cookie request"
  shows "fst (Principal_of A sx t request s') =
    Inr (if t < sessionExpiry now (sx_ttl sx) \<and> (0 < sx_idleTTL sx \<longrightarrow> t < sessionExpiry now (sx_idleTTL sx))
         then Some (who\<lparr>pr_ID := TrimSpace (pr_ID who)\<rparr>) else None)"
proof -
  let ?sid = "EncodeToString RawURL bytes"
  obtain body where body: "al_Marshal A (pointer_payload sx now ?sid who) = Some body" "TrimSpace (pr_ID who) \<noteq> []"
    "cookie = session_cookie sx (sign A sx body) (sessionExpiry now (sx_ttl sx)) 0"
    "s' = s(?sid \<mapsto> stored (new_record sx now ?sid who))"
    by (rule Cookie_revocable [OF assms(2,3,6,5)]) blast
  have ok: "key_ok (sx_currentKey sx)" by (rule New_keys(1) [OF assms(1)])
  have "verify A sx t (sign A sx body) = Some (pointer_payload sx now ?sid who)"
    using ok sign_key_accepted [of sx t] assms(4) [OF body(1)]
    by (subst verify_sign) (auto simp: key_ok_def)
  then have "request_payload A sx t request = Some (pointer_payload sx now ?sid who)"
    using assms(8) by (auto simp: request_payload_def carries_def body(3) session_cookie_def)
  moreover have "fst (revocablePrincipal sx t (pointer_payload sx now ?sid who) s') =
    Inr (if t < sessionExpiry now (sx_ttl sx) \<and> (0 < sx_idleTTL sx \<longrightarrow> t < sessionExpiry now (sx_idleTTL sx))
         then Some (who\<lparr>pr_ID := TrimSpace (pr_ID who)\<rparr>) else None)"
    using assms(6) body(2,4) New_mode(2) [OF assms(1)]
    by (intro revocablePrincipal_new [OF assms(3)]) (auto simp: assms(7))
  ultimately show ?thesis
    using assms(2) expiry_reached [of now "sx_ttl sx" t]
    by (simp add: Principal_of_def pointer_payload_def not_less)
qed

text \<open>
  C29: a revoked principal stays out. After a successful revocation of all sessions of a principal, whatever
  requests, sign-ins of others and revocations follow, no request resolves to that principal until the
  principal signs in again.
\<close>

theorem revoked_principal_stays_out:
  assumes "New getenv options = Inr sx" "sx_mode sx = ''revocable''" "sx_store sx = Some InMemorySessionStore"
    and "TrimSpace pid \<noteq> []" "RevokePrincipal sx pid s = (None, s1)"
    and "\<forall>operation\<in>set ops. \<not> signs_in (TrimSpace pid) operation"
    and "fst (Principal_of A sx now request (fold (session_step A sx) ops s1)) = Inr (Some p)"
  shows "pr_ID p \<noteq> TrimSpace pid"
  by (rule mem.revoked_stays_out [OF assms(3,2,4-7)])

text \<open>The keys a manager trusts at a time.\<close>

definition trusted :: "'s Sessions \<Rightarrow> int \<Rightarrow> SigningKey \<Rightarrow> bool" where
  "trusted sx now key \<longleftrightarrow>
     key = sx_currentKey sx \<or> (\<exists>i. sx_previousKey sx i = Some key \<and> previousSigningKeyAccepted key now)"

lemma unnamed_trusted: "key \<in> set (unnamedSigningKeys sx now) \<Longrightarrow> trusted sx now key"
  by (auto simp: unnamedSigningKeys_def trusted_def split: if_splits option.splits)

lemma named_trusted: "namedSigningKey sx now keyID = Some key \<Longrightarrow> trusted sx now key"
  by (auto simp: namedSigningKey_def trusted_def split: if_splits option.splits)

lemma verify_with_Some:
  "verify_with A keys body tag = Some payload \<longleftrightarrow>
     (\<exists>raw key. key \<in> set keys \<and> DecodeString RawURL body = Some raw \<and>
        DecodeString RawURL tag = Some (al_Mac A (sk_Secret key) raw) \<and> al_Unmarshal A raw = Some payload)"
  by (auto simp: verify_with_def list_ex_iff split: option.splits)

lemma verify_Some:
  assumes "verify A sx now token = Some payload"
  shows "\<exists>body\<in>set (Split token CHR ''.''). \<exists>tag\<in>set (Split token CHR ''.''). \<exists>raw key. trusted sx now key \<and>
    DecodeString RawURL body = Some raw \<and> DecodeString RawURL tag = Some (al_Mac A (sk_Secret key) raw) \<and>
    al_Unmarshal A raw = Some payload"
proof -
  have "(\<exists>body tag. Split token CHR ''.'' = [body, tag] \<and> verify_with A (unnamedSigningKeys sx now) body tag = Some payload) \<or>
      (\<exists>keyID body tag key. Split token CHR ''.'' = [keyID, body, tag] \<and> namedSigningKey sx now (TrimSpace keyID) = Some key \<and>
         verify_with A [key] body tag = Some payload)"
    using assms by (auto simp: verify_def split: list.splits option.splits)
  then show ?thesis
  proof (elim disjE exE conjE)
    fix body tag
    assume parts: "Split token CHR ''.'' = [body, tag]" "verify_with A (unnamedSigningKeys sx now) body tag = Some payload"
    from parts(2) obtain raw key where "key \<in> set (unnamedSigningKeys sx now)" "DecodeString RawURL body = Some raw"
      "DecodeString RawURL tag = Some (al_Mac A (sk_Secret key) raw)" "al_Unmarshal A raw = Some payload"
      unfolding verify_with_Some by blast
    with parts(1) unnamed_trusted show ?thesis by (intro bexI [of _ body] bexI [of _ tag] exI conjI) auto
  next
    fix keyID body tag key
    assume parts: "Split token CHR ''.'' = [keyID, body, tag]" "namedSigningKey sx now (TrimSpace keyID) = Some key"
      "verify_with A [key] body tag = Some payload"
    from parts(3) obtain raw where "DecodeString RawURL body = Some raw"
      "DecodeString RawURL tag = Some (al_Mac A (sk_Secret key) raw)" "al_Unmarshal A raw = Some payload"
      unfolding verify_with_Some by auto
    with parts(1) named_trusted [OF parts(2)] show ?thesis by (intro bexI [of _ body] bexI [of _ tag] exI conjI) auto
  qed
qed

lemma Principal_signed:
  assumes "fst (Principal_of A sx now request s) = Inr (Some p)"
  shows "\<exists>cookies token raw key payload. request = Some cookies \<and> cookies (sx_cookie sx) = Some token \<and> trusted sx now key \<and>
    (\<exists>body\<in>set (Split token CHR ''.''). DecodeString RawURL body = Some raw) \<and>
    (\<exists>tag\<in>set (Split token CHR ''.''). DecodeString RawURL tag = Some (al_Mac A (sk_Secret key) raw)) \<and>
    al_Unmarshal A raw = Some payload \<and> Unix now < sp_Expires payload \<and>
    (sx_mode sx \<noteq> ''revocable'' \<longrightarrow> pr_ID p = sp_ID payload \<and> pr_Roles p = sp_Roles payload \<and> pr_Permissions p = sp_Permissions payload)"
proof -
  obtain payload where payload: "request_payload A sx now request = Some payload" "Unix now < sp_Expires payload"
    and p: "sx_mode sx \<noteq> ''revocable'' \<Longrightarrow> pr_ID p = sp_ID payload \<and> pr_Roles p = sp_Roles payload \<and> pr_Permissions p = sp_Permissions payload"
    using assms by (cases "request_payload A sx now request") (auto simp: Principal_of_def split: if_splits)
  obtain cookies token where token: "request = Some cookies" "cookies (sx_cookie sx) = Some token" "verify A sx now token = Some payload"
    using payload(1) by (auto simp: request_payload_def bind_eq_Some_conv)
  from verify_Some [OF token(3)] token(1,2) payload(2) p show ?thesis by blast
qed

text \<open>
  A session cannot be made up. When a request resolves to a principal, its cookie carries a payload with
  the signature of a key the manager trusts at that time, the payload has not expired, and in signed-cookie
  mode the principal is the one of the payload.
\<close>

theorem session_is_signed:
  assumes "fst (Principal_of A sx now request s) = Inr (Some p)"
  shows "\<exists>cookies token raw key payload. request = Some cookies \<and> cookies (sx_cookie sx) = Some token \<and> trusted sx now key \<and>
    (\<exists>body\<in>set (Split token CHR ''.''). DecodeString RawURL body = Some raw) \<and>
    (\<exists>tag\<in>set (Split token CHR ''.''). DecodeString RawURL tag = Some (al_Mac A (sk_Secret key) raw)) \<and>
    al_Unmarshal A raw = Some payload \<and> Unix now < sp_Expires payload \<and>
    (sx_mode sx \<noteq> ''revocable'' \<longrightarrow> pr_ID p = sp_ID payload \<and> pr_Roles p = sp_Roles payload \<and> pr_Permissions p = sp_Permissions payload)"
  by (rule Principal_signed [OF assms])

text \<open>A guard that has its principal from sessions.\<close>

lemma Provider_principal: "Provider A sx now request s = (Inr (Some p), s') \<Longrightarrow> fst (Principal_of A sx now request s) = Inr (Some p)"
  by (auto simp: Provider_def split: prod.splits sum.splits)

lemma admitted_role:
  assumes "admitted q registry provider guards s s'" "RoleGuardPrefix @ role \<in> set guards" "registry (RoleGuardPrefix @ role) = None"
  shows "\<exists>principal_of p s1 s2. provider = Some principal_of \<and> principal_of q s1 = (Inr (Some p), s2) \<and> HasRole p role"
  using assms
proof (induction rule: admitted.induct)
  case (admitted_native name principal_of s p s1 guards s')
  show ?case
  proof (cases "name = RoleGuardPrefix @ role")
    case True
    then have "HasRole p role"
      using admitted_native(4) prefixes_differ by (auto simp: grants_def HasRole_def)
    then show ?thesis using admitted_native(2,3) by blast
  next
    case False
    then show ?thesis using admitted_native by auto
  qed
qed auto

lemma admitted_session_role:
  assumes "admitted request registry (Some (Provider A sx now)) guards s s'" "RoleGuardPrefix @ role \<in> set guards"
    and "registry (RoleGuardPrefix @ role) = None"
  shows "\<exists>p t. fst (Principal_of A sx now request t) = Inr (Some p) \<and> HasRole p role"
  using admitted_role [OF assms] by (auto dest: Provider_principal)

text \<open>
  C28: guards and sessions together. A request gets through a native role guard only with a cookie whose
  payload is signed by a trusted key and has not expired, and that resolves to a principal with the role.
\<close>

theorem role_guard_needs_session:
  assumes "RunGuardsWithAuth request guards registry (Some (Provider A sx now)) s = (None, s')"
    and "RoleGuardPrefix @ role \<in> set guards" "registry (RoleGuardPrefix @ role) = None"
  shows "\<exists>p t cookies token raw key payload. fst (Principal_of A sx now request t) = Inr (Some p) \<and> HasRole p role \<and>
    request = Some cookies \<and> cookies (sx_cookie sx) = Some token \<and> trusted sx now key \<and>
    (\<exists>tag\<in>set (Split token CHR ''.''). DecodeString RawURL tag = Some (al_Mac A (sk_Secret key) raw)) \<and>
    al_Unmarshal A raw = Some payload \<and> Unix now < sp_Expires payload"
proof -
  have "admitted request registry (Some (Provider A sx now)) guards s s'"
    using assms(1) by (simp add: RunGuardsWithAuth_admitted)
  from admitted_session_role [OF this assms(2,3)] obtain p t
    where p: "fst (Principal_of A sx now request t) = Inr (Some p)" and role: "HasRole p role" by blast
  from Principal_signed [OF p] p role show ?thesis by blast
qed

section \<open>Key ids\<close>

text \<open>
  Of previous keys with one id only the last is kept, and one with the id of the current key is never used:
  a secret that is rotated without a new id logs everybody out.
\<close>

lemma previous_key_shadowed:
  assumes "sk_ID (sx_currentKey new) = sk_ID (sx_currentKey old)" "sk_ID (sx_currentKey old) \<noteq> []"
  shows "keys_for new now (sk_ID (sx_currentKey old)) = [sx_currentKey new]"
  using assms by (simp add: keys_for_def namedSigningKey_def)

section \<open>The process-wide manager\<close>

record 's auth_state =
  as_sessions :: "'s Sessions option"
  as_options :: "'s Options"

definition Configure :: "(string \<Rightarrow> string) \<Rightarrow> 's Options \<Rightarrow> 's auth_state \<Rightarrow> (auth_error + 's Sessions) \<times> 's auth_state" where
  "Configure getenv options state =
     (case New getenv options of
        Inl err \<Rightarrow> (Inl err, state)
      | Inr sx \<Rightarrow> (Inr sx, state\<lparr>as_sessions := Some sx, as_options := options\<rparr>))"

definition DefaultSessions :: "(string \<Rightarrow> string) \<Rightarrow> 's auth_state \<Rightarrow> (auth_error + 's Sessions) \<times> 's auth_state" where
  "DefaultSessions getenv state =
     (case as_sessions state of
        Some sx \<Rightarrow> (Inr sx, state)
      | None \<Rightarrow>
          let options = as_options state;
              options = (if op_SecretEnv options = [] \<and> op_Secret options = []
                         then options\<lparr>op_SecretEnv := ''GOWDK_AUTH_SESSION_SECRET''\<rparr> else options)
          in (case New getenv options of
                Inl err \<Rightarrow> (Inl err, state)
              | Inr sx \<Rightarrow> (Inr sx, state\<lparr>as_sessions := Some sx, as_options := options\<rparr>)))"

text \<open>\<open>RequireAuthenticated\<close>; the default manager, or its error, is handed over as the fallback.\<close>

definition RequireAuthenticated ::
  "('q, 's, 'c) provider option \<Rightarrow> 'c guard_error + ('q, 's, 'c) provider \<Rightarrow> ('q, 's, 'c) guard_func" where
  "RequireAuthenticated provider fallback q s =
     (case (case provider of Some p \<Rightarrow> Inr p | None \<Rightarrow> fallback) of
        Inl err \<Rightarrow> (Some err, s)
      | Inr principal_of \<Rightarrow>
          (case principal_of q s of
             (Inl err, s') \<Rightarrow> (Some err, s')
           | (Inr None, s') \<Rightarrow> (Some ErrUnauthenticated, s')
           | (Inr (Some p), s') \<Rightarrow> (None, s')))"

section \<open>Samples\<close>

definition sample_options :: "string \<Rightarrow> string \<Rightarrow> char \<Rightarrow> SigningKey list \<Rightarrow> mem_store Options" where
  "sample_options mode keyID c previous =
     \<lparr>op_Secret = replicate 32 c, op_SecretEnv = [], op_KeyID = keyID, op_PreviousKeys = previous, op_Mode = mode,
      op_Store = Some InMemorySessionStore, op_CookieName = [], op_TTL = 60 * Second, op_IdleTTL = 0, op_Insecure = False\<rparr>"

definition sample_sx :: "string \<Rightarrow> string \<Rightarrow> char \<Rightarrow> (string \<Rightarrow> SigningKey option) \<Rightarrow> mem_store Sessions" where
  "sample_sx mode keyID c previous =
     \<lparr>sx_currentKey = \<lparr>sk_ID = keyID, sk_Secret = replicate 32 c, sk_AcceptUntil = zero_time\<rparr>, sx_previousKey = previous,
      sx_mode = mode, sx_store = Some InMemorySessionStore, sx_cookie = ''gowdk_session'', sx_ttl = 60 * Second, sx_idleTTL = 0,
      sx_insecure = False\<rparr>"

definition key_1 :: SigningKey where
  "key_1 = \<lparr>sk_ID = ''k1'', sk_Secret = replicate 32 CHR ''a'', sk_AcceptUntil = 30 * Second\<rparr>"

definition ada :: Principal where
  "ada = \<lparr>pr_ID = ''ada'', pr_Roles = [''admin''], pr_Permissions = [], pr_AuthorizationVersion = []\<rparr>"

lemma ada_fields: "pr_ID ada = ''ada''" "pr_AuthorizationVersion ada = []"
  by (simp_all add: ada_def)

lemma ada_text: "principal_text ada"
  by code_simp

text \<open>A codec for one payload, and a stand-in for the signature.\<close>

definition sample_auth :: "payload \<Rightarrow> auth_lib" where
  "sample_auth P =
     \<lparr>al_Mac = (\<lambda>k m. take 32 (k @ m)), al_Marshal = (\<lambda>p. if p = P then Some ''payload'' else None),
      al_Unmarshal = (\<lambda>s. if s = ''payload'' then Some P else None)\<rparr>"

lemma sample_codec: "al_Marshal (sample_auth P) p = Some body \<Longrightarrow> al_Unmarshal (sample_auth P) body = Some p"
  by (simp add: sample_auth_def split: if_splits)

lemma sample_text_codec:
  "payload_text p \<Longrightarrow> al_Marshal (sample_auth P) p = Some body \<Longrightarrow> al_Unmarshal (sample_auth P) body = Some p"
  by (rule sample_codec)

lemma sample_trim: "TrimSpace ''k1'' = ''k1''" "TrimSpace ''k2'' = ''k2''" "TrimSpace [] = []" "TrimSpace ''ada'' = ''ada''"
  "valid_cookie_name ''gowdk_session''"
  by code_simp+

lemma ada_trim: "ada\<lparr>pr_ID := TrimSpace (pr_ID ada)\<rparr> = ada"
  by (simp add: ada_def sample_trim)

lemma sample_New:
  "New (\<lambda>_. []) (sample_options ''signed-cookie'' ''k1'' CHR ''a'' []) = Inr (sample_sx ''signed-cookie'' ''k1'' CHR ''a'' (\<lambda>_. None))"
  "New (\<lambda>_. []) (sample_options ''signed-cookie'' ''k2'' CHR ''b'' [key_1]) =
     Inr (sample_sx ''signed-cookie'' ''k2'' CHR ''b'' [''k1'' \<mapsto> key_1])"
  "New (\<lambda>_. []) (sample_options ''revocable'' [] CHR ''a'' []) = Inr (sample_sx ''revocable'' [] CHR ''a'' (\<lambda>_. None))"
  by (simp_all add: New_def sample_options_def sample_sx_def sessionSigningKeys_def sessionSecret_def Let_def sample_trim
      key_1_def Second_def)

definition sample_old :: "mem_store Sessions" where
  "sample_old = sample_sx ''signed-cookie'' ''k1'' CHR ''a'' (\<lambda>_. None)"

definition sample_new :: "mem_store Sessions" where
  "sample_new = sample_sx ''signed-cookie'' ''k2'' CHR ''b'' [''k1'' \<mapsto> key_1]"

definition sample_revocable :: "mem_store Sessions" where
  "sample_revocable = sample_sx ''revocable'' [] CHR ''a'' (\<lambda>_. None)"

lemmas sample_managers = sample_New [folded sample_old_def sample_new_def sample_revocable_def]

lemma sample_fields:
  "sx_mode sample_old = ''signed-cookie''" "sx_mode sample_new = ''signed-cookie''" "sx_mode sample_revocable = ''revocable''"
  "sx_store sample_revocable = Some InMemorySessionStore" "sx_cookie sample_old = ''gowdk_session''"
  "sx_cookie sample_new = ''gowdk_session''" "sx_cookie sample_revocable = ''gowdk_session''" "sx_ttl sample_old = 60 * Second"
  "sx_ttl sample_revocable = 60 * Second" "sx_idleTTL sample_revocable = 0"
  "sk_ID (sx_currentKey sample_old) = ''k1''" "sk_ID (sx_currentKey sample_new) = ''k2''"
  "sk_Secret (sx_currentKey sample_old) = replicate 32 CHR ''a''" "sx_previousKey sample_new ''k1'' = Some key_1"
  by (simp_all add: sample_old_def sample_new_def sample_revocable_def sample_sx_def)

lemma sample_expiry: "sessionExpiry 0 (60 * Second) = 60 * Second"
  by (simp add: sessionExpiry_def Let_def)

abbreviation lib_old :: auth_lib where
  "lib_old \<equiv> sample_auth (signed_payload sample_old 0 ada)"

definition cookie_old :: http_cookie where
  "cookie_old = session_cookie sample_old (sign lib_old sample_old ''payload'') (60 * Second) 0"

lemma Cookie_old: "Cookie lib_old sample_old 0 None ada (\<lambda>_. None) = (Inr cookie_old, \<lambda>_. None)"
  by (simp add: Cookie_def Let_def sample_fields sample_trim sample_expiry encode_payload_def cookie_old_def ada_def)
    (simp add: sample_auth_def signed_payload_def sample_fields sample_expiry)

definition browser :: "string \<Rightarrow> auth_request" where
  "browser v = Some (\<lambda>name. if name = ''gowdk_session'' then Some v else None)"

lemma carries_browser: "sx_cookie sx = ''gowdk_session'' \<Longrightarrow> carries sx cookie (browser (ck_Value cookie))"
  by (simp add: carries_def browser_def)

theorem signed_session_lifetime_witness:
  "fst (Principal_of lib_old sample_old (59 * Second) (browser (ck_Value cookie_old)) (\<lambda>_. None)) = Inr (Some ada) \<and>
   fst (Principal_of lib_old sample_old (60 * Second) (browser (ck_Value cookie_old)) (\<lambda>_. None)) = Inr None"
  using signed_session_lifetime [OF sample_managers(1) sample_fields(1) sample_text_codec ada_text Cookie_old carries_browser [OF sample_fields(5)],
      where u = "\<lambda>_. None"]
  by (simp add: sample_fields sample_expiry Second_pos)

theorem session_survives_rotation_witness:
  "fst (Principal_of lib_old sample_new (29 * Second) (browser (ck_Value cookie_old)) (\<lambda>_. None)) = Inr (Some ada) \<and>
   fst (Principal_of lib_old sample_new (30 * Second) (browser (ck_Value cookie_old)) (\<lambda>_. None)) = Inr None"
proof -
  have k: "sk_ID (sx_currentKey sample_old) \<noteq> []" "sk_ID (sx_currentKey sample_new) \<noteq> sk_ID (sx_currentKey sample_old)"
    "sx_previousKey sample_new (sk_ID (sx_currentKey sample_old)) = Some key_1"
    "sk_Secret key_1 = sk_Secret (sx_currentKey sample_old)"
    by (simp_all add: sample_fields key_1_def)
  show ?thesis
    using session_survives_rotation [OF sample_managers(1,2) sample_fields(1,2) sample_codec Cookie_old carries_browser [OF sample_fields(6)] k,
        where u = "\<lambda>_. None"]
    by (simp add: sample_fields sample_expiry previousSigningKeyAccepted_def key_1_def Second_pos zero_time_def Second_nonzero)
qed

abbreviation session_bytes :: string where
  "session_bytes \<equiv> replicate 32 CHR ''s''"

abbreviation lib_rev :: auth_lib where
  "lib_rev \<equiv> sample_auth (pointer_payload sample_revocable 0 (EncodeToString RawURL session_bytes) ada)"

definition cookie_rev :: http_cookie where
  "cookie_rev = session_cookie sample_revocable (sign lib_rev sample_revocable ''payload'') (60 * Second) 0"

definition store_rev :: mem_store where
  "store_rev = [EncodeToString RawURL session_bytes \<mapsto>
     stored (new_record sample_revocable 0 (EncodeToString RawURL session_bytes) ada)]"

lemma Cookie_rev: "Cookie lib_rev sample_revocable 0 (Some session_bytes) ada (\<lambda>_. None) = (Inr cookie_rev, store_rev)"
proof -
  let ?sid = "EncodeToString RawURL session_bytes"
  have c: "st_Create InMemorySessionStore (new_record sample_revocable 0 ?sid ada) (\<lambda>_. None) = (None, store_rev)"
    by (simp add: mem_store_defs Let_def store_rev_def stored_def new_record_def ada_def sample_trim)
  have m: "al_Marshal lib_rev (pointer_payload sample_revocable 0 ?sid ada) = Some ''payload''" by (simp add: sample_auth_def)
  show ?thesis
    using m c by (simp add: Cookie_def Let_def sample_fields ada_fields sample_trim sample_expiry encode_payload_def cookie_rev_def
        pointer_payload_def)
qed

theorem revocable_session_lifetime_witness:
  "fst (Principal_of lib_rev sample_revocable (59 * Second) (browser (ck_Value cookie_rev)) store_rev) = Inr (Some ada) \<and>
   fst (Principal_of lib_rev sample_revocable (60 * Second) (browser (ck_Value cookie_rev)) store_rev) = Inr None"
proof -
  have "length session_bytes = 32" "(0 :: int) \<le> 0" by simp_all
  from revocable_session_lifetime [OF sample_managers(3) sample_fields(3,4) sample_codec Cookie_rev this carries_browser [OF sample_fields(7)]]
  show ?thesis by (simp add: sample_fields sample_expiry Second_pos ada_trim)
qed

lemma Revoke_ada:
  "RevokePrincipal sample_revocable '' ada '' store_rev = (None, snd (RevokePrincipal_mem '' ada '' store_rev))"
  by (simp add: RevokePrincipal_def sample_fields mem_store_defs Let_def)

lemma trim_ada: "TrimSpace '' ada '' = ''ada''"
  by code_simp

text \<open>A request of the revoked principal, and a new session of another one, do not bring it back.\<close>

theorem revoked_principal_stays_out_witness:
  "fst (Principal_of lib_rev sample_revocable 9 (browser (ck_Value cookie_rev))
     (fold (session_step lib_rev sample_revocable)
        [OpPrincipal 5 (browser (ck_Value cookie_rev)), OpCookie 6 (Some session_bytes) (ada\<lparr>pr_ID := ''bob''\<rparr>)]
        (snd (RevokePrincipal_mem '' ada '' store_rev)))) \<noteq> Inr (Some ada)"
proof
  let ?ops = "[OpPrincipal 5 (browser (ck_Value cookie_rev)), OpCookie 6 (Some session_bytes) (ada\<lparr>pr_ID := ''bob''\<rparr>)]"
  have trim: "TrimSpace ''bob'' = ''bob''" by code_simp
  have ops: "\<forall>operation\<in>set ?ops. \<not> signs_in (TrimSpace '' ada '') operation"
    by (simp add: signs_in_def trim_ada trim)
  have pid: "TrimSpace '' ada '' \<noteq> []" by (simp add: trim_ada)
  assume "fst (Principal_of lib_rev sample_revocable 9 (browser (ck_Value cookie_rev))
     (fold (session_step lib_rev sample_revocable) ?ops (snd (RevokePrincipal_mem '' ada '' store_rev)))) = Inr (Some ada)"
  from revoked_principal_stays_out [OF sample_managers(3) sample_fields(3,4) pid Revoke_ada ops this]
  show False by (simp add: trim_ada ada_fields)
qed

lemma sample_principal:
  "Principal_of lib_old sample_old 5 (browser (ck_Value cookie_old)) (\<lambda>_. None) = (Inr (Some ada), \<lambda>_. None)"
proof -
  have early: "5 < 60 * Second" by (simp add: Second_def)
  have mode: "sx_mode sample_old \<noteq> ''revocable''" by (simp add: sample_fields)
  have key: "\<exists>key\<in>set (keys_for sample_old 5 (sk_ID (sx_currentKey sample_old))). sk_Secret key = sk_Secret (sx_currentKey sample_old)"
    using sign_key_accepted by blast
  show ?thesis
    using signed_session [OF New_keys(1) [OF sample_managers(1)] mode mode sample_codec Cookie_old carries_browser [OF sample_fields(5)] key]
    by (simp add: sample_fields sample_expiry early)
qed

theorem session_is_signed_witness:
  "\<exists>key. trusted sample_old 5 key \<and>
     (\<exists>raw. \<exists>tag\<in>set (Split (ck_Value cookie_old) CHR ''.''). DecodeString RawURL tag = Some (al_Mac lib_old (sk_Secret key) raw))"
proof -
  have "fst (Principal_of lib_old sample_old 5 (browser (ck_Value cookie_old)) (\<lambda>_. None)) = Inr (Some ada)"
    by (simp add: sample_principal)
  from session_is_signed [OF this] show ?thesis by (auto simp: browser_def sample_fields)
qed

theorem role_guard_needs_session_witness:
  "\<exists>p. HasRole p ''admin'' \<and> (\<exists>t :: mem_store. fst (Principal_of lib_old sample_old 5 (browser (ck_Value cookie_old)) t) = Inr (Some p))"
proof -
  let ?provider = "Provider lib_old sample_old 5 :: (auth_request, mem_store, string) provider"
  have "?provider (browser (ck_Value cookie_old)) (\<lambda>_. None) = (Inr (Some ada), \<lambda>_. None)"
    by (simp add: Provider_def sample_principal)
  moreover have "rbac_decision ''role:admin'' ada = (None :: string guard_error option)"
  proof -
    have "TrimSpace ''admin'' = ''admin''" by code_simp
    then show ?thesis by (simp add: rbac_decision_def CutPrefix_def RoleGuardPrefix_def HasRole_def ada_def)
  qed
  ultimately have run: "RunGuardsWithAuth (browser (ck_Value cookie_old)) [RoleGuardPrefix @ ''admin''] (\<lambda>_. None) (Some ?provider) (\<lambda>_. None) =
      (None, \<lambda>_. None)"
    by (simp add: guard_for_def IsNativeGuard_def NativeRBACGuard_def) (simp add: RoleGuardPrefix_def)
  show ?thesis using role_guard_needs_session [OF run, of "''admin''"] by auto
qed

end
