(* ===== verification/Password.thy ===== *)
theory Password
  imports Base64
begin

text \<open>
  Password hashes (addons/auth/password.go). PBKDF2-HMAC-SHA256 is the parameter \<open>Key\<close> of the password, the
  salt, the number of iterations and the length of the key; the salt of a new hash is handed over.
\<close>

section \<open>Hashes\<close>

definition DefaultIterations :: int where
  "DefaultIterations = 600000"

datatype password_error = TooFewIterations | TooManyIterations | NoSalt | DeriveFailed

definition validateIterations :: "int \<Rightarrow> password_error option" where
  "validateIterations n = (if n < 600000 then Some TooFewIterations else if n > 2000000 then Some TooManyIterations else None)"

definition iterations :: "int \<Rightarrow> int" where
  "iterations n = (if n = 0 then DefaultIterations else n)"

definition pbkdf2Prefix :: string where
  "pbkdf2Prefix = ''pbkdf2-sha256''"

type_synonym kdf = "string \<Rightarrow> string \<Rightarrow> int \<Rightarrow> nat \<Rightarrow> string option"

text \<open>\<open>PBKDF2Hasher.HashPassword\<close>; the hasher is its iteration count.\<close>

definition HashPassword_with :: "kdf \<Rightarrow> int \<Rightarrow> string option \<Rightarrow> string \<Rightarrow> password_error + string" where
  "HashPassword_with Key n random password =
     (let rounds = iterations n
      in case validateIterations rounds of
           Some err \<Rightarrow> Inl err
         | None \<Rightarrow>
             (case random of
                None \<Rightarrow> Inl NoSalt
              | Some salt \<Rightarrow>
                  (case Key password salt rounds 32 of
                     None \<Rightarrow> Inl DeriveFailed
                   | Some key \<Rightarrow>
                       Inr (Join [pbkdf2Prefix, Itoa rounds, EncodeToString RawStd salt, EncodeToString RawStd key] ''$''))))"

definition HashPassword :: "kdf \<Rightarrow> string option \<Rightarrow> string \<Rightarrow> password_error + string" where
  "HashPassword Key random password = HashPassword_with Key 0 random password"

definition HashPasswordWithIterations :: "kdf \<Rightarrow> int \<Rightarrow> string option \<Rightarrow> string \<Rightarrow> password_error + string" where
  "HashPasswordWithIterations Key n random password =
     (case validateIterations n of Some err \<Rightarrow> Inl err | None \<Rightarrow> HashPassword_with Key n random password)"

definition decodeHash :: "string \<Rightarrow> (int \<times> string \<times> string) option" where
  "decodeHash encoded =
     (case Split encoded CHR ''$'' of
        [p, n, s, k] \<Rightarrow>
          if p \<noteq> pbkdf2Prefix then None
          else
            (case Atoi n of
               Inl _ \<Rightarrow> None
             | Inr rounds \<Rightarrow>
                 if validateIterations rounds \<noteq> None then None
                 else
                   (case (DecodeString RawStd s, DecodeString RawStd k) of
                      (Some salt, Some key) \<Rightarrow> if length salt = 16 \<and> length key = 32 then Some (rounds, salt, key) else None
                    | _ \<Rightarrow> None))
      | _ \<Rightarrow> None)"

definition VerifyPassword :: "kdf \<Rightarrow> string \<Rightarrow> string \<Rightarrow> bool" where
  "VerifyPassword Key password encoded =
     (case decodeHash encoded of
        None \<Rightarrow> False
      | Some (rounds, salt, want) \<Rightarrow> Key password salt rounds (length want) = Some want)"

section \<open>Hashes are read back\<close>

lemma validateIterations_None: "validateIterations n = None \<longleftrightarrow> 600000 \<le> n \<and> n \<le> 2000000"
  by (simp add: validateIterations_def)

lemma no_dollar: "CHR ''$'' \<notin> set (EncodeToString a s)" "CHR ''$'' \<notin> set pbkdf2Prefix" "CHR ''$'' \<notin> set (Itoa n)"
proof -
  show "CHR ''$'' \<notin> set (EncodeToString a s)" using EncodeToString_chars [of "CHR ''$''" a s] by auto
  show "CHR ''$'' \<notin> set pbkdf2Prefix" by (simp add: pbkdf2Prefix_def)
  have "CHR ''$'' \<notin> set (nat_digits m)" for m
    using nat_digits_digit [of m] by (auto simp: list_all_iff is_digit_def)
  then show "CHR ''$'' \<notin> set (Itoa n)" by (simp add: Itoa_def)
qed

lemma decodeHash_Join:
  assumes "validateIterations n = None" "length salt = 16" "length key = 32"
  shows "decodeHash (Join [pbkdf2Prefix, Itoa n, EncodeToString RawStd salt, EncodeToString RawStd key] ''$'') = Some (n, salt, key)"
proof -
  have "Split (Join [pbkdf2Prefix, Itoa n, EncodeToString RawStd salt, EncodeToString RawStd key] ''$'') CHR ''$'' =
      [pbkdf2Prefix, Itoa n, EncodeToString RawStd salt, EncodeToString RawStd key]"
    by (rule Split_Join) (simp_all add: no_dollar)
  moreover have "Atoi (Itoa n) = Inr n" using assms(1) by (intro Atoi_Itoa) (simp_all add: validateIterations_None)
  ultimately show ?thesis using assms by (simp add: decodeHash_def)
qed

text \<open>
  C33: a stored hash accepts exactly the passwords with the same derived key. Every hash that \<open>HashPassword\<close>
  or a hasher with its own work factor makes verifies a password exactly when the key derivation gives it
  the key of the original one.
\<close>

theorem hash_verifies:
  assumes "HashPassword_with Key n (Some salt) password = Inr encoded" "length salt = 16"
    and "\<And>w t i l k. Key w t i l = Some k \<Longrightarrow> length k = l"
  shows "VerifyPassword Key attempt encoded \<longleftrightarrow> Key attempt salt (iterations n) 32 = Key password salt (iterations n) 32"
proof -
  obtain key where key: "validateIterations (iterations n) = None" "Key password salt (iterations n) 32 = Some key"
    "encoded = Join [pbkdf2Prefix, Itoa (iterations n), EncodeToString RawStd salt, EncodeToString RawStd key] ''$''"
    using assms(1) by (auto simp: HashPassword_with_def Let_def split: option.splits)
  have "length key = 32" using assms(3) [OF key(2)] .
  then have "decodeHash encoded = Some (iterations n, salt, key)"
    unfolding key(3) using decodeHash_Join [OF key(1) assms(2)] by blast
  then show ?thesis using \<open>length key = 32\<close> key(2) by (simp add: VerifyPassword_def)
qed

text \<open>The work of a verification is bounded, whatever is stored.\<close>

lemma decodeHash_bounds: "decodeHash encoded = Some (n, salt, key) \<Longrightarrow> 600000 \<le> n \<and> n \<le> 2000000 \<and> length salt = 16 \<and> length key = 32"
  by (auto simp: decodeHash_def validateIterations_None split: list.splits if_splits option.splits sum.splits)

definition sample_kdf :: kdf where
  "sample_kdf password salt n l = Some (take l (password @ replicate l CHR ''0''))"

theorem hash_verifies_witness:
  "\<exists>encoded. HashPassword_with sample_kdf 0 (Some (replicate 16 CHR ''s'')) ''swordfish'' = Inr encoded \<and>
     VerifyPassword sample_kdf ''swordfish'' encoded \<and> \<not> VerifyPassword sample_kdf ''guess'' encoded"
proof -
  obtain encoded where e: "HashPassword_with sample_kdf 0 (Some (replicate 16 CHR ''s'')) ''swordfish'' = Inr encoded"
    by (simp add: HashPassword_with_def Let_def iterations_def DefaultIterations_def validateIterations_def sample_kdf_def)
  have l: "sample_kdf w t i l = Some k \<Longrightarrow> length k = l" for w t i l k by (auto simp: sample_kdf_def)
  have "VerifyPassword sample_kdf w encoded \<longleftrightarrow> sample_kdf w (replicate 16 CHR ''s'') (iterations 0) 32 =
      sample_kdf ''swordfish'' (replicate 16 CHR ''s'') (iterations 0) 32" for w
    by (rule hash_verifies [OF e _ l]) simp_all
  then show ?thesis using e by (simp add: sample_kdf_def)
qed

end
