(* ===== verification/GoStrings.thy ===== *)
theory GoStrings
  imports Prelude
begin

text \<open>
  More of package \<open>strings\<close>: splitting at white space and searching for a text.
\<close>

text \<open>\<open>strings.Fields\<close>: the argument \<open>skip\<close> counts the bytes left of a space that was recognized.\<close>

fun fields_loop :: "string \<Rightarrow> nat \<Rightarrow> string \<Rightarrow> string list" where
  "fields_loop [] skip word = (if word = [] then [] else [rev word])"
| "fields_loop (c # t) skip word =
     (if skip > 0 then fields_loop t (skip - 1) word
      else if leading_space space_encodings (c # t) = None then fields_loop t 0 (c # word)
      else (if word = [] then [] else [rev word]) @
        fields_loop t (length (the (leading_space space_encodings (c # t))) - 1) [])"

definition Fields :: "string \<Rightarrow> string list" where
  "Fields s = fields_loop s 0 []"

text \<open>\<open>strings.Index\<close>.\<close>

fun str_index :: "string \<Rightarrow> string \<Rightarrow> nat option" where
  "str_index s p =
     (if prefix p s then Some 0 else (case s of [] \<Rightarrow> None | _ # t \<Rightarrow> map_option Suc (str_index t p)))"

declare str_index.simps [simp del]

lemma fields_loop_nonempty: "[] \<notin> set (fields_loop s skip word)"
  by (induction s skip word rule: fields_loop.induct) auto

lemma Fields_nonempty: "[] \<notin> set (Fields s)"
  by (simp add: Fields_def fields_loop_nonempty)

end
