(* ===== verification/ViewNames.thy ===== *)
theory ViewNames
  imports ExprParse GoStrings Http I18n
begin

text \<open>
  \<open>internal/viewparse\<close>, the parts that work on names and values of attributes: \<open>patterns.go\<close>, \<open>loop.go\<close>,
  \<open>events.go\<close>, \<open>style_binding.go\<close>, \<open>directives.go\<close>, \<open>safety.go\<close> and the entities of \<open>model.go\<close>. Of the
  library, the tables of letters and digits, \<open>strings.ToLower\<close> and \<open>html.UnescapeString\<close> are parameters.
\<close>

section \<open>The library\<close>

record view_lib = unicode +
  lower_case :: "string \<Rightarrow> string"
  UnescapeString :: "string \<Rightarrow> string"

text \<open>\<open>strings.EqualFold\<close> with an ASCII word in lower case: two other code points fold to ASCII letters.\<close>

definition fold_rune :: "rune \<Rightarrow> rune" where
  "fold_rune r = (if 65 \<le> r \<and> r \<le> 90 then r + 32 else if r = 0x17F then 0x73 else if r = 0x212A then 0x6B else r)"

definition EqualFold :: "string \<Rightarrow> string \<Rightarrow> bool" where
  "EqualFold s word \<longleftrightarrow> map fold_rune (runes s) = runes_of word"

section \<open>Patterns\<close>

definition letter :: "char \<Rightarrow> bool" where
  "letter c \<longleftrightarrow> is_upper c \<or> is_lower c"

definition isIdentifier :: "string \<Rightarrow> bool" where
  "isIdentifier s \<longleftrightarrow>
     (case s of [] \<Rightarrow> False
      | c # t \<Rightarrow> (letter c \<or> c = CHR ''_'') \<and> list_all (\<lambda>c. letter c \<or> c = CHR ''_'' \<or> is_digit c) t)"

definition isPatternSpace :: "char \<Rightarrow> bool" where
  "isPatternSpace c \<longleftrightarrow> c = CHR '' '' \<or> c = CHR 0x09 \<or> c = CHR 0x0A \<or> c = CHR 0x0D"

definition isEventName :: "string \<Rightarrow> bool" where
  "isEventName s \<longleftrightarrow>
     (case s of [] \<Rightarrow> False
      | c # t \<Rightarrow> letter c \<and> list_all (\<lambda>c. letter c \<or> is_digit c \<or> c = CHR ''_'' \<or> c = CHR ''-'') t)"

definition isStyleProperty :: "string \<Rightarrow> bool" where
  "isStyleProperty s \<longleftrightarrow>
     (case s of [] \<Rightarrow> False
      | c # t \<Rightarrow> is_lower c \<and> list_all (\<lambda>c. is_lower c \<or> is_digit c \<or> c = CHR ''-'') t)"

definition isStyleCustomProperty :: "string \<Rightarrow> bool" where
  "isStyleCustomProperty s \<longleftrightarrow>
     (case CutPrefix s ''--'' of
        None \<Rightarrow> False
      | Some body \<Rightarrow> body \<noteq> [] \<and> list_all (\<lambda>c. letter c \<or> is_digit c \<or> c = CHR ''_'' \<or> c = CHR ''-'') body)"

section \<open>Loops\<close>

text \<open>The text in front of the first \<open>in\<close> between spaces, given in reverse, and the text behind it.\<close>

fun findForInOperator :: "string \<Rightarrow> string \<Rightarrow> (string \<times> string) option" where
  "findForInOperator before (c # d # e # t) =
     (if c = CHR ''i'' \<and> d = CHR ''n'' \<and> before \<noteq> [] \<and> isPatternSpace (hd before) \<and> isPatternSpace e
      then Some (rev (dropWhile isPatternSpace before), dropWhile isPatternSpace (e # t))
      else findForInOperator (c # before) (d # e # t))"
| "findForInOperator before _ = None"

definition parseForDirectivePattern :: "string \<Rightarrow> (string \<times> string \<times> string) option" where
  "parseForDirectivePattern source =
     (case findForInOperator [] source of
        None \<Rightarrow> None
      | Some (front, back) \<Rightarrow>
          let collection = TrimSpace back;
              (before, after, found) = Cut front CHR '','';
              item = TrimSpace (if found then before else front);
              index = (if found then TrimSpace after else [])
          in if collection = [] then None
             else if found \<and> index = [] then None
             else if \<not> isIdentifier item \<or> (index \<noteq> [] \<and> \<not> isIdentifier index) then None
             else Some (item, index, collection))"

record ForDirective =
  fd_Var :: string
  fd_IndexVar :: string
  fd_Collection :: string

datatype for_error = ForSyntax | ForItem string | ForIndex string | ForSameName | ForCollection

definition ParseForDirective :: "string \<Rightarrow> for_error + ForDirective" where
  "ParseForDirective source =
     (case parseForDirectivePattern (TrimSpace source) of
        None \<Rightarrow> Inl ForSyntax
      | Some (item0, index0, collection0) \<Rightarrow>
          let item = TrimSpace item0; index = TrimSpace index0; collection = TrimSpace collection0
          in if \<not> isIdentifier item then Inl (ForItem item)
             else if index \<noteq> [] \<and> \<not> isIdentifier index then Inl (ForIndex index)
             else if index \<noteq> [] \<and> index = item then Inl ForSameName
             else if collection = [] then Inl ForCollection
             else Inr \<lparr>fd_Var = item, fd_IndexVar = index, fd_Collection = collection\<rparr>)"

section \<open>Events\<close>

record EventDirective =
  ev_Event :: string
  ev_Prevent :: bool
  ev_Stop :: bool
  ev_Once :: bool
  ev_Capture :: bool
  ev_DebounceMS :: int
  ev_ThrottleMS :: int

datatype duration_error = DurationEmpty | DurationUnit | DurationNumber

datatype event_error =
    EventPrefix | EventMissing | EventName string | EmptyModifier | RepeatedModifier string
  | BadDebounce duration_error | BadThrottle duration_error | UnknownModifier string | DebounceAndThrottle

text \<open>The product of the number and the unit is a machine integer.\<close>

definition parseEventDurationMS :: "string \<Rightarrow> duration_error + int" where
  "parseEventDurationMS v0 =
     (let v = TrimSpace v0
      in if v = [] then Inl DurationEmpty
         else
           let unit = (if HasSuffix v ''ms'' then Some (TrimSuffix v ''ms'', 1)
                       else if HasSuffix v ''s'' then Some (TrimSuffix v ''s'', 1000) else None)
           in (case unit of
                 None \<Rightarrow> Inl DurationUnit
               | Some (number, multiplier) \<Rightarrow>
                   (case Atoi (TrimSpace number) of
                      Inl _ \<Rightarrow> Inl DurationNumber
                    | Inr raw \<Rightarrow> if raw \<le> 0 then Inl DurationNumber else Inr (int64 (raw * multiplier)))))"

definition modifier_key :: "string \<Rightarrow> string" where
  "modifier_key m =
     (if HasPrefix m ''debounce('' then ''debounce'' else if HasPrefix m ''throttle('' then ''throttle'' else m)"

definition duration_argument :: "string \<Rightarrow> string \<Rightarrow> string option" where
  "duration_argument word m =
     (if HasPrefix m (word @ ''('') \<and> HasSuffix m '')'' then Some (TrimSuffix (TrimPrefix m (word @ ''('')) '')'') else None)"

definition event_modifier :: "string \<Rightarrow> EventDirective \<Rightarrow> event_error + EventDirective" where
  "event_modifier m d =
     (if m = ''prevent'' then Inr (d\<lparr>ev_Prevent := True\<rparr>)
      else if m = ''stop'' then Inr (d\<lparr>ev_Stop := True\<rparr>)
      else if m = ''once'' then Inr (d\<lparr>ev_Once := True\<rparr>)
      else if m = ''capture'' then Inr (d\<lparr>ev_Capture := True\<rparr>)
      else
        (case duration_argument ''debounce'' m of
           Some v \<Rightarrow>
             (case parseEventDurationMS v of Inl err \<Rightarrow> Inl (BadDebounce err) | Inr ms \<Rightarrow> Inr (d\<lparr>ev_DebounceMS := ms\<rparr>))
         | None \<Rightarrow>
             (case duration_argument ''throttle'' m of
                Some v \<Rightarrow>
                  (case parseEventDurationMS v of Inl err \<Rightarrow> Inl (BadThrottle err) | Inr ms \<Rightarrow> Inr (d\<lparr>ev_ThrottleMS := ms\<rparr>))
              | None \<Rightarrow> Inl (UnknownModifier m))))"

fun event_modifiers :: "string list \<Rightarrow> string list \<Rightarrow> EventDirective \<Rightarrow> event_error + EventDirective" where
  "event_modifiers [] seen d = Inr d"
| "event_modifiers (m # ms) seen d =
     (if m = [] then Inl EmptyModifier
      else if modifier_key m \<in> set seen then Inl (RepeatedModifier (modifier_key m))
      else (case event_modifier m d of Inl err \<Rightarrow> Inl err | Inr d' \<Rightarrow> event_modifiers ms (modifier_key m # seen) d'))"

definition ParseEventDirective :: "string \<Rightarrow> event_error + EventDirective" where
  "ParseEventDirective name =
     (case CutPrefix name ''g:on:'' of
        None \<Rightarrow> Inl EventPrefix
      | Some raw \<Rightarrow>
          if raw = [] then Inl EventMissing
          else
            let parts = Split raw CHR ''.''
            in if \<not> isEventName (hd parts) then Inl (EventName (hd parts))
               else
                 (case event_modifiers (tl parts) []
                        \<lparr>ev_Event = hd parts, ev_Prevent = False, ev_Stop = False, ev_Once = False, ev_Capture = False,
                         ev_DebounceMS = 0, ev_ThrottleMS = 0\<rparr> of
                    Inl err \<Rightarrow> Inl err
                  | Inr d \<Rightarrow> if ev_DebounceMS d > 0 \<and> ev_ThrottleMS d > 0 then Inl DebounceAndThrottle else Inr d))"

definition RuntimeOptions :: "EventDirective \<Rightarrow> string" where
  "RuntimeOptions d =
     Join ((if ev_Prevent d then [''prevent''] else []) @ (if ev_Stop d then [''stop''] else []) @
           (if ev_Once d then [''once''] else []) @ (if ev_Capture d then [''capture''] else []) @
           (if ev_DebounceMS d > 0 then [''debounce:'' @ Itoa (ev_DebounceMS d)] else []) @
           (if ev_ThrottleMS d > 0 then [''throttle:'' @ Itoa (ev_ThrottleMS d)] else [])) '' ''"

section \<open>Style bindings\<close>

record styleBinding =
  sb_Property :: string
  sb_Unit :: string

datatype style_error = StyleMissing | StyleEmptyUnit | StyleUnit string | StyleProperty string

definition isSupportedStyleProperty :: "string \<Rightarrow> bool" where
  "isSupportedStyleProperty name =
     (if HasPrefix name ''--'' then length name > 2 \<and> isStyleCustomProperty name else isStyleProperty name)"

definition style_units :: "string list" where
  "style_units = [''px'', ''rem'', ''em'', ''vh'', ''vw'', ''vmin'', ''vmax'', ''ch'', ''ex'', ''lh'', ''rlh'', ''ms'', ''s'', ''%'']"

definition isSupportedStyleUnit :: "string \<Rightarrow> bool" where
  "isSupportedStyleUnit u \<longleftrightarrow> u \<in> set style_units"

definition parseStyleBindingAttr :: "string \<Rightarrow> style_error + styleBinding" where
  "parseStyleBindingAttr name =
     (let raw = TrimSpace (TrimPrefix name ''style:'')
      in if raw = [] then Inl StyleMissing
         else
           (case last_index_byte raw CHR ''.'' of
              None \<Rightarrow> if \<not> isSupportedStyleProperty raw then Inl (StyleProperty raw) else Inr \<lparr>sb_Property = raw, sb_Unit = []\<rparr>
            | Some dot \<Rightarrow>
                let property = take dot raw; u = drop (dot + 1) raw
                in if u = [] then Inl StyleEmptyUnit
                   else if u \<noteq> ''%'' \<and> \<not> isSupportedStyleUnit u then Inl (StyleUnit u)
                   else if \<not> isSupportedStyleProperty property then Inl (StyleProperty property)
                   else Inr \<lparr>sb_Property = property, sb_Unit = u\<rparr>))"

section \<open>Attributes and directives\<close>

record attr =
  at_Name :: string
  at_Value :: string
  at_Boolean :: bool
  at_Expression :: bool
  at_Spread :: bool
  at_Start :: nat
  at_End :: nat

definition supportedDirectiveNames :: "string list" where
  "supportedDirectiveNames =
     [''g:bind:checked'', ''g:bind:value'', ''g:command'', ''g:else'', ''g:else-if'', ''g:event'', ''g:for'', ''g:unsafe-html'',
      ''g:if'', ''g:island'', ''g:key'', ''g:lane'', ''g:max-file-size'', ''g:max-files'', ''g:transition'', ''g:animate'',
      ''g:post'', ''g:query'', ''g:ref'', ''g:slot'', ''g:subscribe'', ''g:swap'', ''g:target'']"

definition supportedMessageDirectives :: "string list" where
  "supportedMessageDirectives = [''g:message:required'', ''g:message:minlength'', ''g:message:maxlength'', ''g:message:pattern'']"

definition SupportedDirectiveNames :: "string list" where
  "SupportedDirectiveNames = sort supportedDirectiveNames"

definition isSupportedDirectiveName :: "string \<Rightarrow> bool" where
  "isSupportedDirectiveName name \<longleftrightarrow>
     name \<in> set supportedDirectiveNames \<or> HasPrefix name ''g:on:'' \<or> name \<in> set supportedMessageDirectives"

definition isComponentBindDirective :: "string \<Rightarrow> bool" where
  "isComponentBindDirective name \<longleftrightarrow> name = ''g:bind'' \<or> HasPrefix name ''g:bind:''"

text \<open>The advice of the message for a directive outside the contract.\<close>

datatype directive_advice =
  RenamedHtml | UnifiedEach | UnifiedWhen | MotionOnly | DocumentTargets | UseAwaitBlock | DomActions | BindTargets | MessageRules
| ListedDirectives

definition unsupportedDirectiveMessage :: "string \<Rightarrow> directive_advice" where
  "unsupportedDirectiveMessage name =
     (if name = ''g:html'' then RenamedHtml
      else if name = ''g:each'' then UnifiedEach
      else if name = ''g:when'' then UnifiedWhen
      else if HasPrefix name ''g:transition'' \<or> HasPrefix name ''g:animate'' then MotionOnly
      else if name \<in> set [''g:window'', ''g:document'', ''g:body'', ''g:head''] then DocumentTargets
      else if name = ''g:await'' \<or> name = ''g:async'' then UseAwaitBlock
      else if name \<in> set [''g:use'', ''g:action'', ''g:attach''] then DomActions
      else if HasPrefix name ''g:bind:'' \<or> name = ''g:bind'' then BindTargets
      else if HasPrefix name ''g:message:'' \<or> name = ''g:message'' then MessageRules
      else ListedDirectives)"

definition voidElements :: "string list" where
  "voidElements = [''area'', ''base'', ''br'', ''col'', ''embed'', ''hr'', ''img'', ''input'', ''link'', ''meta'', ''source'',
                   ''track'', ''wbr'']"

datatype raw_error = RawRepeated | RawOnVoid string | RawWithoutValue | RawLiteral | RawWithChildren | RawCombined string

definition raw_html :: string where
  "raw_html = ''g:unsafe-html''"

definition combines_badly :: "attr \<Rightarrow> bool" where
  "combines_badly a \<longleftrightarrow>
     at_Name a \<in> set [''g:for'', ''g:each'', ''g:when'', ''g:key''] \<or> HasPrefix (at_Name a) ''g:bind:''"

definition validateRawHTMLDirective :: "string \<Rightarrow> attr list \<Rightarrow> bool \<Rightarrow> raw_error option" where
  "validateRawHTMLDirective name attrs has_children =
     (case filter (\<lambda>a. at_Name a = raw_html) attrs of
        [] \<Rightarrow> None
      | [raw] \<Rightarrow>
          if name \<in> set voidElements then Some (RawOnVoid name)
          else if at_Boolean raw \<or> TrimSpace (at_Value raw) = [] then Some RawWithoutValue
          else if \<not> at_Expression raw then Some RawLiteral
          else if has_children then Some RawWithChildren
          else map_option (\<lambda>a. RawCombined (at_Name a)) (find combines_badly attrs)
      | _ \<Rightarrow> Some RawRepeated)"

section \<open>Safety of attributes\<close>

definition escapedOpenBrace :: string where
  "escapedOpenBrace = [CHR 0x00] @ ''GOWDK_OPEN_BRACE'' @ [CHR 0x00]"

definition escapedCloseBrace :: string where
  "escapedCloseBrace = [CHR 0x00] @ ''GOWDK_CLOSE_BRACE'' @ [CHR 0x00]"

definition decodeSourceTextEntities :: "view_lib \<Rightarrow> string \<Rightarrow> string" where
  "decodeSourceTextEntities L v =
     (if CHR ''&'' \<notin> set v then v
      else UnescapeString L
        (fold (\<lambda>(old, new) s. ReplaceAll s old new)
           [(''&#123;'', escapedOpenBrace), (''&#x7b;'', escapedOpenBrace), (''&#X7B;'', escapedOpenBrace),
            (''&#125;'', escapedCloseBrace), (''&#x7d;'', escapedCloseBrace), (''&#X7D;'', escapedCloseBrace)] v))"

definition blockedViewElement :: "string \<Rightarrow> bool" where
  "blockedViewElement name \<longleftrightarrow> EqualFold (TrimSpace name) ''script''"

definition inlineEventHandlerAttr :: "view_lib \<Rightarrow> string \<Rightarrow> bool" where
  "inlineEventHandlerAttr L name0 = (let name = lower_case L (TrimSpace name0) in HasPrefix name ''on'' \<and> length name > 2)"

definition url_attributes :: "string list" where
  "url_attributes = [''href'', ''src'', ''srcset'', ''action'', ''formaction'', ''poster'', ''cite'', ''data'', ''longdesc'',
                     ''manifest'', ''xlink:href'']"

definition urlBearingAttr :: "view_lib \<Rightarrow> string \<Rightarrow> bool" where
  "urlBearingAttr L name \<longleftrightarrow> lower_case L (TrimSpace name) \<in> set url_attributes"

text \<open>The bytes 0x00 to 0x1F and 0x7F are code points of their own in every string.\<close>

definition containsURLControl :: "string \<Rightarrow> bool" where
  "containsURLControl v \<longleftrightarrow> list_ex (\<lambda>c. (of_char c :: int) < 0x20 \<or> c = CHR 0x7F) v"

definition scheme_char :: "char \<Rightarrow> bool" where
  "scheme_char c \<longleftrightarrow> letter c \<or> is_digit c \<or> c = CHR ''+'' \<or> c = CHR ''-'' \<or> c = CHR ''.''"

definition validURLScheme :: "string \<Rightarrow> bool" where
  "validURLScheme v = (case v of [] \<Rightarrow> True | c # t \<Rightarrow> letter c \<and> list_all scheme_char t)"

text \<open>The scheme is the text in front of the first colon, when no slash, question mark or hash stands before it.\<close>

definition explicitURLScheme :: "string \<Rightarrow> string option" where
  "explicitURLScheme v =
     (let candidate = takeWhile (\<lambda>c. c \<notin> {CHR '':'', CHR ''/'', CHR ''?'', CHR ''#''}) v
      in case drop (length candidate) v of
           c # _ \<Rightarrow>
             if c = CHR '':'' \<and> candidate \<noteq> [] \<and> validURLScheme candidate then Some (ToLower candidate) else None
         | [] \<Rightarrow> None)"

definition safeURLScheme :: "string \<Rightarrow> bool" where
  "safeURLScheme scheme \<longleftrightarrow> ToLower scheme \<in> set [''http'', ''https'', ''mailto'', ''tel'']"

datatype safety_error =
  InlineHandler string | SrcDoc | URLRequired string | URLControl string | URLProtocolRelative string | URLScheme string string

definition validateSingleURLAttrValue :: "string \<Rightarrow> string \<Rightarrow> safety_error option" where
  "validateSingleURLAttrValue name v0 =
     (let v = TrimSpace v0
      in if v = [] then None
         else if containsURLControl v then Some (URLControl name)
         else if length v > 1 \<and> v ! 0 = CHR ''/'' \<and> (v ! 1 = CHR ''/'' \<or> v ! 1 = CHR 0x5C) then Some (URLProtocolRelative name)
         else
           (case explicitURLScheme v of
              None \<Rightarrow> None
            | Some scheme \<Rightarrow> if safeURLScheme scheme then None else Some (URLScheme name scheme)))"

text \<open>The URL of a candidate of a srcset is its first field.\<close>

fun validateSrcset_loop :: "string \<Rightarrow> string list \<Rightarrow> safety_error option" where
  "validateSrcset_loop name [] = None"
| "validateSrcset_loop name (candidate # rest) =
     (case Fields (TrimSpace candidate) of
        [] \<Rightarrow> validateSrcset_loop name rest
      | url # _ \<Rightarrow>
          (case validateSingleURLAttrValue name url of Some err \<Rightarrow> Some err | None \<Rightarrow> validateSrcset_loop name rest))"

definition validateSrcsetAttrValue :: "string \<Rightarrow> string \<Rightarrow> safety_error option" where
  "validateSrcsetAttrValue name v = validateSrcset_loop name (Split v CHR '','')"

definition validateURLAttrValue :: "view_lib \<Rightarrow> string \<Rightarrow> string \<Rightarrow> safety_error option" where
  "validateURLAttrValue L name v0 =
     (if \<not> urlBearingAttr L name then None
      else
        let v = decodeSourceTextEntities L v0
        in if EqualFold (TrimSpace name) ''srcset'' then validateSrcsetAttrValue name v
           else validateSingleURLAttrValue name v)"

definition validateParsedHTMLAttrSafety :: "view_lib \<Rightarrow> attr \<Rightarrow> safety_error option" where
  "validateParsedHTMLAttrSafety L a =
     (if inlineEventHandlerAttr L (at_Name a) then Some (InlineHandler (at_Name a))
      else if EqualFold (TrimSpace (at_Name a)) ''srcdoc'' then Some SrcDoc
      else if at_Boolean a then (if urlBearingAttr L (at_Name a) then Some (URLRequired (at_Name a)) else None)
      else if CHR ''{'' \<in> set (at_Value a) then None
      else validateURLAttrValue L (at_Name a) (at_Value a))"

fun validateParsedHTMLAttrsSafety :: "view_lib \<Rightarrow> attr list \<Rightarrow> safety_error option" where
  "validateParsedHTMLAttrsSafety L [] = None"
| "validateParsedHTMLAttrsSafety L (a # attrs) =
     (case validateParsedHTMLAttrSafety L a of Some err \<Rightarrow> Some err | None \<Rightarrow> validateParsedHTMLAttrsSafety L attrs)"

end
