(* ===== verification/ViewParse.thy ===== *)
theory ViewParse
  imports ViewNames
begin

text \<open>
  \<open>internal/viewparse/parser.go\<close>: the parser of view markup, and the nodes of \<open>internal/viewmodel\<close> it
  builds. The source is its runes and the state of the parser an index into them. The functions that
  recurse take the parsers of nested nodes as arguments, and a bound on the depth of their recursion;
  \<open>Parse\<close> supplies one that is shown to be enough for every source.
\<close>

section \<open>Nodes and errors\<close>

datatype node =
  Text string nat nat
| Element string "attr list" "node list" nat nat
| ComponentCall string "attr list" "node list" nat nat
| AwaitBlock string string string "node list" "node list" "node list" nat nat

datatype template_advice =
  ConditionalSyntax | LoopSyntax | SnippetSyntax | RawHTMLSyntax | TagSyntax | UnknownSyntax string

datatype view_msg =
  UnexpectedContent | MissingClosing string | ExpectedClosing string string | UnexpectedClosing | UnexpectedMarker
| Unsupported template_advice | AwaitExpression | AwaitNeedsThen | AwaitThenName | AwaitCatchName | AwaitSameName string
| AwaitDuplicate string | AwaitUnclosed | BindingMissing string | BindingName string string | AwaitEndContent | ExpectedMarker
| ExpectedTag string | SpaceAfter string | UnterminatedTag string
| ExpectedElement | DynamicComponent | UnsupportedElement string | BlockedElement string | UnsafeAttr safety_error
| RawHTML raw_error | UnterminatedElement string | UnterminatedComponent string | SpreadSyntax | SpreadName
| AttrNameUnsupported string | DirectiveUnsupported string directive_advice | ExpectedAttrName | EmptyExpression string
| EmptyShorthand | MotionLiteral string | RawNeedsExpression | DirectiveBraces string | ExpressionRequired string
| UnterminatedExpression string | QuotedRequired string | InvalidAttrString string | UnterminatedAttr string
| ExpectedClosingTag | ExpectedGreater | ExpectedName

text \<open>The offset of \<open>errorf\<close>; the error of \<open>normalizeHTMLAttrs\<close> has none.\<close>

datatype view_error = ViewError nat view_msg | MultipleIds | ViewFuel

type_synonym 'a vres = "view_error + 'a \<times> nat"

section \<open>The source\<close>

definition startsWith :: "rune list \<Rightarrow> string \<Rightarrow> nat \<Rightarrow> bool" where
  "startsWith src v i \<longleftrightarrow> prefix (runes_of v) (drop i src)"

definition at_end :: "rune list \<Rightarrow> nat \<Rightarrow> bool" where
  "at_end src i \<longleftrightarrow> i \<ge> length src"

text \<open>\<open>consume\<close>: the index behind the text when it is there.\<close>

definition consume_text :: "rune list \<Rightarrow> string \<Rightarrow> nat \<Rightarrow> nat option" where
  "consume_text src v i = (if startsWith src v i then Some (i + length v) else None)"

definition skipSpace :: "rune list \<Rightarrow> nat \<Rightarrow> nat" where
  "skipSpace src i = scan IsSpace src i"

definition startsAwaitMarker :: "rune list \<Rightarrow> nat \<Rightarrow> bool" where
  "startsAwaitMarker src i \<longleftrightarrow>
     startsWith src ''{#await'' i \<or> startsWith src ''{:then'' i \<or> startsWith src ''{:catch'' i \<or> startsWith src ''{/await'' i"

function view_text :: "rune list \<Rightarrow> nat \<Rightarrow> nat" where
  "view_text src i =
     (if at_end src i \<or> src ! i = 0x3C \<or> startsAwaitMarker src i then i else view_text src (i + 1))"
  by pat_completeness auto
termination
  by (relation "measure (\<lambda>(src, i). length src - i)") (auto simp: at_end_def)

declare view_text.simps [simp del]

section \<open>Names\<close>

definition isNameStart :: "view_lib \<Rightarrow> rune \<Rightarrow> bool" where
  "isNameStart L r \<longleftrightarrow> r = 0x5F \<or> IsLetter L r"

definition isNamePart :: "view_lib \<Rightarrow> rune \<Rightarrow> bool" where
  "isNamePart L r \<longleftrightarrow> isNameStart L r \<or> IsDigit L r \<or> r = 0x2D \<or> r = 0x3A \<or> r = 0x2E"

definition isAttrNamePart :: "view_lib \<Rightarrow> rune \<Rightarrow> bool" where
  "isAttrNamePart L r \<longleftrightarrow> isNamePart L r \<or> r = 0x2E \<or> r = 0x25 \<or> r = 0x28 \<or> r = 0x29"

definition isShorthandPart :: "view_lib \<Rightarrow> rune \<Rightarrow> bool" where
  "isShorthandPart L r \<longleftrightarrow> IsLetter L r \<or> IsDigit L r \<or> r = 0x2D \<or> r = 0x5F \<or> r = 0x3A"

definition isLowerHTMLName :: "string \<Rightarrow> bool" where
  "isLowerHTMLName v \<longleftrightarrow>
     (case v of [] \<Rightarrow> False
      | c # t \<Rightarrow> is_lower c \<and> list_all (\<lambda>c. is_lower c \<or> is_digit c \<or> c = CHR ''-'') t)"

definition isExportedComponentName :: "string \<Rightarrow> bool" where
  "isExportedComponentName v \<longleftrightarrow> (case runes v of [] \<Rightarrow> False | r # _ \<Rightarrow> 65 \<le> r \<and> r \<le> 90)"

definition isComponentAlias :: "view_lib \<Rightarrow> string \<Rightarrow> bool" where
  "isComponentAlias L v \<longleftrightarrow>
     (case runes v of [] \<Rightarrow> False
      | r # t \<Rightarrow> isNameStart L r \<and> list_all (\<lambda>r. isNameStart L r \<or> IsDigit L r) t)"

definition isComponentName :: "view_lib \<Rightarrow> string \<Rightarrow> bool" where
  "isComponentName L v =
     (if v = [] then False
      else if CHR ''.'' \<in> set v then
        (case Cut v CHR ''.'' of
           (alias, name, ok) \<Rightarrow>
             if \<not> ok \<or> CHR ''.'' \<in> set name then False else isComponentAlias L alias \<and> isExportedComponentName name)
      else isExportedComponentName v)"

definition isAttrName :: "view_lib \<Rightarrow> string \<Rightarrow> bool" where
  "isAttrName L v =
     (if v = [] then False
      else if HasPrefix v ''g:on:'' then (case ParseEventDirective v of Inl _ \<Rightarrow> False | Inr _ \<Rightarrow> True)
      else if HasPrefix v ''style:'' then (case parseStyleBindingAttr v of Inl _ \<Rightarrow> False | Inr _ \<Rightarrow> True)
      else
        (case runes v of [] \<Rightarrow> True
         | r # t \<Rightarrow>
             isNameStart L r \<and>
             list_all (\<lambda>r. isNameStart L r \<or> (0x30 \<le> r \<and> r \<le> 0x39) \<or> r = 0x2D \<or> r = 0x3A \<or> r = 0x5F) t))"

definition isLocalIdentifier :: "view_lib \<Rightarrow> string \<Rightarrow> bool" where
  "isLocalIdentifier L v \<longleftrightarrow>
     (case runes v of [] \<Rightarrow> False
      | r # t \<Rightarrow> (r = 0x5F \<or> IsLetter L r) \<and> list_all (\<lambda>r. r = 0x5F \<or> IsLetter L r \<or> IsDigit L r) t)"

definition awaitBindingName :: "view_lib \<Rightarrow> string \<Rightarrow> string \<Rightarrow> view_msg + string" where
  "awaitBindingName L kind source =
     (let name = TrimSpace source
      in if name = [] then Inl (BindingMissing kind)
         else if ContainsAny name [CHR '' '', CHR 0x09, CHR 0x0D, CHR 0x0A] \<or> \<not> isLocalIdentifier L name
           then Inl (BindingName kind name)
         else Inr name)"

text \<open>\<open>name\<close> and \<open>attrName\<close>: a run of name characters behind a first one.\<close>

definition parse_name :: "view_lib \<Rightarrow> rune list \<Rightarrow> nat \<Rightarrow> string vres" where
  "parse_name L src i =
     (if at_end src i \<or> \<not> isNameStart L (src ! i) then Inl (ViewError i ExpectedName)
      else let j = scan (isNamePart L) src (i + 1) in Inr (slice src i j, j))"

definition attrName :: "view_lib \<Rightarrow> rune list \<Rightarrow> nat \<Rightarrow> string vres" where
  "attrName L src i =
     (if at_end src i \<or> \<not> isNameStart L (src ! i) then Inl (ViewError i ExpectedAttrName)
      else let j = scan (isAttrNamePart L) src (i + 1) in Inr (slice src i j, j))"

definition closeTag :: "view_lib \<Rightarrow> rune list \<Rightarrow> nat \<Rightarrow> string vres" where
  "closeTag L src i =
     (case consume_text src ''</'' i of
        None \<Rightarrow> Inl (ViewError i ExpectedClosingTag)
      | Some j \<Rightarrow>
          (case parse_name L src j of
             Inl err \<Rightarrow> Inl err
           | Inr (name, k) \<Rightarrow>
               (case consume_text src ''>'' (skipSpace src k) of
                  None \<Rightarrow> Inl (ViewError (skipSpace src k) ExpectedGreater)
                | Some l \<Rightarrow> Inr (name, l))))"

section \<open>Values of attributes\<close>

text \<open>The number of runes in front of the brace that closes the expression.\<close>

fun closing_brace :: "nat \<Rightarrow> bool \<Rightarrow> bool \<Rightarrow> rune list \<Rightarrow> nat option" where
  "closing_brace depth inString escaped [] = None"
| "closing_brace depth inString escaped (r # rs) =
     (if escaped then map_option Suc (closing_brace depth inString False rs)
      else if inString then map_option Suc (closing_brace depth (r \<noteq> 0x22) (r = 0x5C) rs)
      else if r = 0x22 then map_option Suc (closing_brace depth True False rs)
      else if r = 0x7B then map_option Suc (closing_brace (depth + 1) False False rs)
      else if r = 0x7D then
        (if depth = 0 then Some 0 else map_option Suc (closing_brace (depth - 1) False False rs))
      else map_option Suc (closing_brace depth False False rs))"

definition bracedAttrExpression :: "rune list \<Rightarrow> string \<Rightarrow> nat \<Rightarrow> string vres" where
  "bracedAttrExpression src name i =
     (case consume_text src ''{'' i of
        None \<Rightarrow> Inl (ViewError i (ExpressionRequired name))
      | Some j \<Rightarrow>
          (case closing_brace 0 False False (drop j src) of
             None \<Rightarrow> Inl (ViewError (length src) (UnterminatedExpression name))
           | Some n \<Rightarrow> Inr (TrimSpace (slice src j (j + n)), j + n + 1)))"

definition expressionAttrValue :: "rune list \<Rightarrow> string \<Rightarrow> nat \<Rightarrow> string vres" where
  "expressionAttrValue src name i =
     (case bracedAttrExpression src name i of
        Inl err \<Rightarrow> Inl err
      | Inr (expr, j) \<Rightarrow>
          if expr = [] then Inl (ViewError j (EmptyExpression name)) else Inr (''{'' @ expr @ ''}'', j))"

definition quotedAttrValue :: "rune list \<Rightarrow> string \<Rightarrow> nat \<Rightarrow> string vres" where
  "quotedAttrValue src name i =
     (case consume_text src [CHR 0x22] i of
        None \<Rightarrow> Inl (ViewError i (QuotedRequired name))
      | Some j \<Rightarrow>
          (case string_end False (drop j src) of
             None \<Rightarrow> Inl (ViewError (length src) (UnterminatedAttr name))
           | Some n \<Rightarrow>
               (case Unquote (slice src i (j + n)) of
                  None \<Rightarrow> Inl (ViewError (j + n) (InvalidAttrString name))
                | Some v \<Rightarrow> Inr (v, j + n))))"

definition new_attr :: "string \<Rightarrow> string \<Rightarrow> nat \<Rightarrow> nat \<Rightarrow> attr" where
  "new_attr name v i j =
     \<lparr>at_Name = name, at_Value = v, at_Boolean = False, at_Expression = False, at_Spread = False, at_Start = i, at_End = j\<rparr>"

definition directiveAttr :: "rune list \<Rightarrow> string \<Rightarrow> nat \<Rightarrow> attr vres" where
  "directiveAttr src name i =
     (if startsWith src ''{'' i then
        (if name = ''g:transition'' \<or> name = ''g:animate'' then Inl (ViewError i (MotionLiteral name))
         else (case bracedAttrExpression src name i of
                 Inl err \<Rightarrow> Inl err
               | Inr (v, j) \<Rightarrow> Inr ((new_attr name v 0 0)\<lparr>at_Expression := (name = ''g:unsafe-html'')\<rparr>, j)))
      else if startsWith src [CHR 0x22] i then
        (if name = ''g:unsafe-html'' then Inl (ViewError i RawNeedsExpression)
         else (case quotedAttrValue src name i of
                 Inl err \<Rightarrow> Inl err
               | Inr (v, j) \<Rightarrow> Inr (new_attr name (TrimSpace v) 0 0, j)))
      else Inl (ViewError i (DirectiveBraces name)))"

text \<open>\<open>None\<close> when the attribute is no shorthand.\<close>

definition shorthandAttr :: "view_lib \<Rightarrow> rune list \<Rightarrow> nat \<Rightarrow> attr vres option" where
  "shorthandAttr L src i =
     (if at_end src i \<or> (src ! i \<noteq> 0x2E \<and> src ! i \<noteq> 0x23) then None
      else
        let j = scan (isShorthandPart L) src (i + 1)
        in if j = i + 1 then Some (Inl (ViewError j EmptyShorthand))
           else Some (Inr (new_attr (if src ! i = 0x2E then ''class'' else ''id'') (slice src (i + 1) j) i j, j)))"

definition attrWithOptions :: "view_lib \<Rightarrow> rune list \<Rightarrow> bool \<Rightarrow> nat \<Rightarrow> attr vres" where
  "attrWithOptions L src allowComponentBind i =
     (case shorthandAttr L src i of
        Some r \<Rightarrow> r
      | None \<Rightarrow>
          (case attrName L src i of
             Inl err \<Rightarrow> Inl err
           | Inr (name, j0) \<Rightarrow>
               if \<not> isAttrName L name then Inl (ViewError j0 (AttrNameUnsupported name))
               else if HasPrefix name ''g:'' \<and> \<not> isSupportedDirectiveName name \<and>
                       (\<not> allowComponentBind \<or> \<not> isComponentBindDirective name)
                 then Inl (ViewError j0 (DirectiveUnsupported name (unsupportedDirectiveMessage name)))
               else
                 (case consume_text src ''='' (skipSpace src j0) of
                    None \<Rightarrow> Inr ((new_attr name [] i (skipSpace src j0))\<lparr>at_Boolean := True\<rparr>, skipSpace src j0)
                  | Some j1 \<Rightarrow>
                      let j = skipSpace src j1
                      in if HasPrefix name ''g:'' then
                           (case directiveAttr src name j of
                              Inl err \<Rightarrow> Inl err
                            | Inr (a, k) \<Rightarrow> Inr (a\<lparr>at_Start := i, at_End := k\<rparr>, k))
                         else if startsWith src ''{'' j then
                           (case expressionAttrValue src name j of
                              Inl err \<Rightarrow> Inl err
                            | Inr (v, k) \<Rightarrow> Inr ((new_attr name v i k)\<lparr>at_Expression := True\<rparr>, k))
                         else
                           (case quotedAttrValue src name j of
                              Inl err \<Rightarrow> Inl err
                            | Inr (v, k) \<Rightarrow> Inr (new_attr name v i k, k)))))"

definition componentSpreadAttr :: "view_lib \<Rightarrow> rune list \<Rightarrow> nat \<Rightarrow> attr vres" where
  "componentSpreadAttr L src i =
     (case consume_text src ''{...'' i of
        None \<Rightarrow> Inl (ViewError i SpreadSyntax)
      | Some j \<Rightarrow>
          (case parse_name L src (skipSpace src j) of
             Inl err \<Rightarrow> Inl err
           | Inr (source, k) \<Rightarrow>
               (case consume_text src ''}'' (skipSpace src k) of
                  None \<Rightarrow> Inl (ViewError (skipSpace src k) SpreadSyntax)
                | Some l \<Rightarrow>
                    if source \<noteq> ''props'' then Inl (ViewError l SpreadName)
                    else Inr ((new_attr source [] i l)\<lparr>at_Spread := True\<rparr>, l))))"

text \<open>One attribute of an element, or of a component call.\<close>

definition tag_attr :: "view_lib \<Rightarrow> rune list \<Rightarrow> bool \<Rightarrow> nat \<Rightarrow> attr vres" where
  "tag_attr L src component i =
     (if \<not> component then attrWithOptions L src False i
      else if startsWith src ''{...'' i then componentSpreadAttr L src i
      else if startsWith src ''...'' i then Inl (ViewError i SpreadSyntax)
      else attrWithOptions L src True i)"

fun normalize_loop :: "attr list \<Rightarrow> string \<Rightarrow> string list \<Rightarrow> attr list \<Rightarrow> (string list \<times> attr list) option" where
  "normalize_loop [] id0 classes out = Some (classes, out)"
| "normalize_loop (a # attrs) id0 classes out =
     (if at_Name a = ''class'' then
        (if at_Boolean a then normalize_loop attrs id0 classes (out @ [a])
         else normalize_loop attrs id0 (classes @ Fields (at_Value a)) out)
      else if at_Name a = ''id'' then
        (if at_Boolean a then normalize_loop attrs id0 classes (out @ [a])
         else if id0 \<noteq> [] then None
         else normalize_loop attrs (at_Value a) classes (out @ [a]))
      else normalize_loop attrs id0 classes (out @ [a]))"

definition normalizeHTMLAttrs :: "attr list \<Rightarrow> view_error + attr list" where
  "normalizeHTMLAttrs attrs =
     (case normalize_loop attrs [] [] [] of
        None \<Rightarrow> Inl MultipleIds
      | Some (classes, out) \<Rightarrow>
          Inr (if classes \<noteq> [] then new_attr ''class'' (Join classes '' '') 0 0 # out else out))"

section \<open>Attributes make progress\<close>

text \<open>A result inside the source that is not the end of the bound, with a property of the value.\<close>

definition within_source :: "rune list \<Rightarrow> ('a \<Rightarrow> nat \<Rightarrow> bool) \<Rightarrow> 'a vres \<Rightarrow> bool" where
  "within_source src P r \<longleftrightarrow> (case r of Inl err \<Rightarrow> err \<noteq> ViewFuel | Inr (x, j) \<Rightarrow> j \<le> length src \<and> P x j)"

named_theorems view_rules \<open>what the parsers of view markup return\<close>

lemma within_source_simps [simp]:
  "within_source src P (Inl err) \<longleftrightarrow> err \<noteq> ViewFuel"
  "within_source src P (Inr (x, j)) \<longleftrightarrow> j \<le> length src \<and> P x j"
  by (simp_all add: within_source_def)

lemma within_source_case:
  assumes "within_source src P r" "\<And>x j. j \<le> length src \<Longrightarrow> P x j \<Longrightarrow> within_source src Q (f x j)"
  shows "within_source src Q (case r of Inl err \<Rightarrow> Inl err | Inr (x, j) \<Rightarrow> f x j)"
  using assms by (cases r) auto

lemma within_source_mono: "within_source src P r \<Longrightarrow> (\<And>x j. P x j \<Longrightarrow> Q x j) \<Longrightarrow> within_source src Q r"
  by (cases r) auto

lemma startsWith_bound: "startsWith src v i \<Longrightarrow> v \<noteq> [] \<Longrightarrow> i + length v \<le> length src"
  using prefix_length_le [of "runes_of v" "drop i src"] by (cases "i \<le> length src") (auto simp: startsWith_def runes_of_def)

lemma consume_text_bound: "consume_text src v i = Some j \<Longrightarrow> v \<noteq> [] \<Longrightarrow> j = i + length v \<and> j \<le> length src"
  using startsWith_bound [of src v i] by (auto simp: consume_text_def split: if_splits)

lemma skipSpace_bounds: "i \<le> skipSpace src i" "i \<le> length src \<Longrightarrow> skipSpace src i \<le> length src"
  by (simp_all add: skipSpace_def scan_bounds)

lemma closing_brace_bound: "closing_brace depth s e rs = Some n \<Longrightarrow> n < length rs"
  by (induction depth s e rs arbitrary: n rule: closing_brace.induct) (auto split: if_splits)

lemma parse_name_rule [view_rules]: "within_source src (\<lambda>v j. i < j \<and> v = slice src i j) (parse_name L src i)"
  using scan_bounds(1) [of "i + 1" "isNamePart L" src] scan_bounds(2) [of "i + 1" src "isNamePart L"] by (auto simp: parse_name_def Let_def at_end_def)

lemma attrName_rule [view_rules]: "within_source src (\<lambda>v j. i < j \<and> v = slice src i j) (attrName L src i)"
  using scan_bounds(1) [of "i + 1" "isAttrNamePart L" src] scan_bounds(2) [of "i + 1" src "isAttrNamePart L"] by (auto simp: attrName_def Let_def at_end_def)

lemma closeTag_rule [view_rules]: "within_source src (\<lambda>v j. i < j) (closeTag L src i)"
proof (cases "consume_text src ''</'' i")
  case None
  then show ?thesis by (simp add: closeTag_def)
next
  case (Some j)
  then have "i < j" using consume_text_bound [OF Some] by auto
  have "within_source src (\<lambda>v j. i < j)
      (case consume_text src ''>'' (skipSpace src k) of
         None \<Rightarrow> Inl (ViewError (skipSpace src k) ExpectedGreater) | Some l \<Rightarrow> Inr (name, l))"
    if "j < k" for k and name :: string
    using that \<open>i < j\<close> skipSpace_bounds [of k src] consume_text_bound [of src "''>''" "skipSpace src k"]
    by (auto split: option.splits)
  then show ?thesis
    unfolding closeTag_def Some option.case
    by (intro within_source_case [OF parse_name_rule]) (simp only:)
qed

lemma braced_rule [view_rules]: "within_source src (\<lambda>v j. i < j) (bracedAttrExpression src name i)"
proof (cases "consume_text src ''{'' i")
  case None
  then show ?thesis by (simp add: bracedAttrExpression_def)
next
  case (Some j)
  then show ?thesis
    using consume_text_bound [OF Some] closing_brace_bound [of 0 False False "drop j src"]
    by (auto simp: bracedAttrExpression_def split: option.splits dest: closing_brace_bound)
qed

lemma expression_rule [view_rules]: "within_source src (\<lambda>v j. i < j) (expressionAttrValue src name i)"
  unfolding expressionAttrValue_def by (rule within_source_case [OF braced_rule]) auto

lemma quoted_rule [view_rules]: "within_source src (\<lambda>v j. i < j) (quotedAttrValue src name i)"
proof (cases "consume_text src [CHR 0x22] i")
  case None
  then show ?thesis by (simp add: quotedAttrValue_def)
next
  case (Some j)
  then show ?thesis
    using consume_text_bound [OF Some] by (auto simp: quotedAttrValue_def split: option.splits dest: string_end_bound)
qed

lemma directive_rule [view_rules]: "within_source src (\<lambda>v j. i < j) (directiveAttr src name i)"
  unfolding directiveAttr_def
  by (auto intro!: within_source_case [OF braced_rule] within_source_case [OF quoted_rule])

definition attr_span :: "nat \<Rightarrow> attr \<Rightarrow> nat \<Rightarrow> bool" where
  "attr_span i a j \<longleftrightarrow> i < j \<and> at_Start a = i \<and> at_End a = j"

lemma attr_span_new [simp]:
  "attr_span i (new_attr name v i j) j \<longleftrightarrow> i < j" "attr_span i (a\<lparr>at_Boolean := b\<rparr>) j \<longleftrightarrow> attr_span i a j"
  "attr_span i (a\<lparr>at_Expression := b\<rparr>) j \<longleftrightarrow> attr_span i a j" "attr_span i (a\<lparr>at_Spread := b\<rparr>) j \<longleftrightarrow> attr_span i a j"
  "attr_span i (a\<lparr>at_Start := i, at_End := j\<rparr>) j \<longleftrightarrow> i < j"
  by (simp_all add: attr_span_def new_attr_def)

lemma spread_rule [view_rules]: "within_source src (attr_span i) (componentSpreadAttr L src i)"
proof (cases "consume_text src ''{...'' i")
  case None
  then show ?thesis by (simp add: componentSpreadAttr_def)
next
  case (Some j)
  then have ij: "i < j" using consume_text_bound [OF Some] by auto
  have "within_source src (attr_span i)
      (case consume_text src ''}'' (skipSpace src k) of
         None \<Rightarrow> Inl (ViewError (skipSpace src k) SpreadSyntax)
       | Some l \<Rightarrow> if source \<noteq> ''props'' then Inl (ViewError l SpreadName)
           else Inr ((new_attr source [] i l)\<lparr>at_Spread := True\<rparr>, l))" if "skipSpace src j < k" for k source
  proof (cases "consume_text src ''}'' (skipSpace src k)")
    case (Some l)
    then show ?thesis
      using consume_text_bound [OF Some] that ij skipSpace_bounds(1) [of j src] skipSpace_bounds(1) [of k src] by auto
  qed simp
  then show ?thesis
    unfolding componentSpreadAttr_def Some option.case
    by (intro within_source_case [OF parse_name_rule]) (simp only:)
qed

lemma shorthand_rule: "shorthandAttr L src i = Some r \<Longrightarrow> within_source src (attr_span i) r"
  using scan_bounds(1) [of "i + 1" "isShorthandPart L" src] scan_bounds(2) [of "i + 1" src "isShorthandPart L"]
  by (auto simp: shorthandAttr_def Let_def at_end_def split: if_splits)

lemma attr_rule [view_rules]: "within_source src (attr_span i) (attrWithOptions L src b i)"
proof (cases "shorthandAttr L src i")
  case None
  have valued: "within_source src (attr_span i)
      (case consume_text src ''='' (skipSpace src j0) of
         None \<Rightarrow> Inr ((new_attr name [] i (skipSpace src j0))\<lparr>at_Boolean := True\<rparr>, skipSpace src j0)
       | Some j1 \<Rightarrow>
           let j = skipSpace src j1
           in if HasPrefix name ''g:'' then
                (case directiveAttr src name j of
                   Inl err \<Rightarrow> Inl err | Inr (a, k) \<Rightarrow> Inr (a\<lparr>at_Start := i, at_End := k\<rparr>, k))
              else if startsWith src ''{'' j then
                (case expressionAttrValue src name j of
                   Inl err \<Rightarrow> Inl err | Inr (v, k) \<Rightarrow> Inr ((new_attr name v i k)\<lparr>at_Expression := True\<rparr>, k))
              else (case quotedAttrValue src name j of Inl err \<Rightarrow> Inl err | Inr (v, k) \<Rightarrow> Inr (new_attr name v i k, k)))"
    if j0: "i < j0" "j0 \<le> length src" for j0 name
  proof (cases "consume_text src ''='' (skipSpace src j0)")
    case None
    with j0 skipSpace_bounds [of j0 src] show ?thesis by auto
  next
    case (Some j1)
    have "i \<le> skipSpace src j1"
      using consume_text_bound [OF Some] j0 skipSpace_bounds(1) [of j0 src] skipSpace_bounds(1) [of j1 src] by auto
    with Some show ?thesis
      by (auto simp: Let_def intro!: within_source_case [OF directive_rule] within_source_case [OF expression_rule]
          within_source_case [OF quoted_rule])
  qed
  show ?thesis
    unfolding attrWithOptions_def None option.case
    by (rule within_source_case [OF attrName_rule]) (simp only: if_split within_source_simps view_error.distinct, simp add: valued)
next
  case (Some r)
  with shorthand_rule show ?thesis by (auto simp: attrWithOptions_def)
qed

lemma tag_attr_rule: "within_source src (attr_span i) (tag_attr L src component i)"
  by (auto simp: tag_attr_def intro: spread_rule attr_rule)

lemma tag_attr_progress:
  "tag_attr L src component (skipSpace src i) = Inr (a, j) \<Longrightarrow> \<not> at_end src (skipSpace src i) \<Longrightarrow>
   length src - j < length src - i"
  using tag_attr_rule [of src "skipSpace src i" L component] skipSpace_bounds(1) [of i src]
  by (auto simp: attr_span_def at_end_def)

section \<open>Nodes\<close>

function attrs_loop :: "view_lib \<Rightarrow> rune list \<Rightarrow> bool \<Rightarrow> string \<Rightarrow> nat \<Rightarrow> (attr list \<times> bool) vres" where
  "attrs_loop L src component name i0 =
     (let i = skipSpace src i0
      in case consume_text src ''/>'' i of
           Some j \<Rightarrow> Inr (([], True), j)
         | None \<Rightarrow>
             (case consume_text src ''>'' i of
                Some j \<Rightarrow> Inr (([], False), j)
              | None \<Rightarrow>
                  if at_end src i then
                    Inl (ViewError i (if component then UnterminatedComponent name else UnterminatedElement name))
                  else
                    (case tag_attr L src component i of
                       Inl err \<Rightarrow> Inl err
                     | Inr (a, j) \<Rightarrow>
                         (case attrs_loop L src component name j of
                            Inl err \<Rightarrow> Inl err
                          | Inr ((attrs, closed), k) \<Rightarrow> Inr ((a # attrs, closed), k)))))"
  by pat_completeness auto
termination
  by (relation "measure (\<lambda>(L, src, component, name, i). length src - i)") (auto simp: tag_attr_progress)

declare attrs_loop.simps [simp del]

text \<open>The attributes of an element behind its tag: normalized, then checked.\<close>

definition html_attrs :: "view_lib \<Rightarrow> attr list \<Rightarrow> nat \<Rightarrow> view_error + attr list" where
  "html_attrs L attrs0 i =
     (case normalizeHTMLAttrs attrs0 of
        Inl err \<Rightarrow> Inl err
      | Inr attrs \<Rightarrow>
          (case validateParsedHTMLAttrsSafety L attrs of
             Some err \<Rightarrow> Inl (ViewError i (UnsafeAttr err))
           | None \<Rightarrow> Inr attrs))"

definition raw_checked :: "string \<Rightarrow> attr list \<Rightarrow> node list \<Rightarrow> nat \<Rightarrow> nat \<Rightarrow> node vres" where
  "raw_checked name attrs children i j =
     (case validateRawHTMLDirective name attrs (children \<noteq> []) of
        Some err \<Rightarrow> Inl (ViewError j (RawHTML err))
      | None \<Rightarrow> Inr (Element name attrs children i j, j))"

definition componentCall ::
    "view_lib \<Rightarrow> rune list \<Rightarrow> (string \<Rightarrow> nat \<Rightarrow> node list vres) \<Rightarrow> string \<Rightarrow> nat \<Rightarrow> nat \<Rightarrow> node vres" where
  "componentCall L src nodes name start i =
     (case attrs_loop L src True name i of
        Inl err \<Rightarrow> Inl err
      | Inr ((attrs, closed), j) \<Rightarrow>
          if closed then Inr (ComponentCall name attrs [] start j, j)
          else
            (case nodes name j of
               Inl err \<Rightarrow> Inl err
             | Inr (children, k) \<Rightarrow> Inr (ComponentCall name attrs children start k, k)))"

definition htmlElement ::
    "view_lib \<Rightarrow> rune list \<Rightarrow> (string \<Rightarrow> nat \<Rightarrow> node list vres) \<Rightarrow> string \<Rightarrow> nat \<Rightarrow> nat \<Rightarrow> node vres" where
  "htmlElement L src nodes name start i =
     (case attrs_loop L src False name i of
        Inl err \<Rightarrow> Inl err
      | Inr ((attrs0, closed), j) \<Rightarrow>
          (case html_attrs L attrs0 j of
             Inl err \<Rightarrow> Inl err
           | Inr attrs \<Rightarrow>
               if closed then raw_checked name attrs [] start j
               else
                 (case nodes name j of
                    Inl err \<Rightarrow> Inl err
                  | Inr (children, k) \<Rightarrow> raw_checked name attrs children start k)))"

definition element :: "view_lib \<Rightarrow> rune list \<Rightarrow> (string \<Rightarrow> nat \<Rightarrow> node list vres) \<Rightarrow> nat \<Rightarrow> node vres" where
  "element L src nodes i =
     (case consume_text src ''<'' i of
        None \<Rightarrow> Inl (ViewError i ExpectedElement)
      | Some j \<Rightarrow>
          if startsWith src ''{'' j then Inl (ViewError j DynamicComponent)
          else
            (case parse_name L src j of
               Inl err \<Rightarrow> Inl err
             | Inr (name, k) \<Rightarrow>
                 if isComponentName L name then componentCall L src nodes name i k
                 else if \<not> isLowerHTMLName name then Inl (ViewError k (UnsupportedElement name))
                 else if blockedViewElement name then Inl (ViewError k (BlockedElement name))
                 else htmlElement L src nodes name i k))"

section \<open>Await blocks\<close>

record awaitBranchMarker =
  mk_Kind :: string
  mk_Name :: string

definition templateTagBody :: "rune list \<Rightarrow> string \<Rightarrow> string \<Rightarrow> nat \<Rightarrow> string vres" where
  "templateTagBody src pre name i =
     (case consume_text src pre i of
        None \<Rightarrow> Inl (ViewError i (ExpectedTag name))
      | Some j \<Rightarrow>
          if \<not> at_end src j \<and> src ! j \<noteq> 0x7D \<and> \<not> IsSpace (src ! j) then Inl (ViewError j (SpaceAfter pre))
          else
            (case closing_brace 0 False False (drop j src) of
               None \<Rightarrow> Inl (ViewError (length src) (UnterminatedTag name))
             | Some n \<Rightarrow> Inr (TrimSpace (slice src j (j + n)), j + n + 1)))"

definition binding_marker :: "view_lib \<Rightarrow> rune list \<Rightarrow> string \<Rightarrow> string \<Rightarrow> string \<Rightarrow> nat \<Rightarrow> awaitBranchMarker vres" where
  "binding_marker L src kind pre label i =
     (case templateTagBody src pre label i of
        Inl err \<Rightarrow> Inl err
      | Inr (body, j) \<Rightarrow>
          (case awaitBindingName L kind body of
             Inl msg \<Rightarrow> Inl (ViewError j msg)
           | Inr name \<Rightarrow> Inr (\<lparr>mk_Kind = kind, mk_Name = name\<rparr>, j)))"

definition parseBranchMarker :: "view_lib \<Rightarrow> rune list \<Rightarrow> nat \<Rightarrow> awaitBranchMarker vres" where
  "parseBranchMarker L src i =
     (if startsWith src ''{:then'' i then binding_marker L src ''then'' ''{:then'' ''await then branch'' i
      else if startsWith src ''{:catch'' i then binding_marker L src ''catch'' ''{:catch'' ''await catch branch'' i
      else if startsWith src ''{/await'' i then
        (case templateTagBody src ''{/await'' ''await end'' i of
           Inl err \<Rightarrow> Inl err
         | Inr (body, j) \<Rightarrow>
             if TrimSpace body \<noteq> [] then Inl (ViewError j AwaitEndContent)
             else Inr (\<lparr>mk_Kind = ''end'', mk_Name = []\<rparr>, j))
      else Inl (ViewError i ExpectedMarker))"

definition startsBranchMarker :: "rune list \<Rightarrow> nat \<Rightarrow> bool" where
  "startsBranchMarker src i \<longleftrightarrow>
     startsWith src ''{:then'' i \<or> startsWith src ''{:catch'' i \<or> startsWith src ''{/await'' i"

definition awaitBlock ::
    "rune list \<Rightarrow> (nat \<Rightarrow> (node list \<times> awaitBranchMarker) vres) \<Rightarrow> nat \<Rightarrow> node vres" where
  "awaitBlock src awaitNodes i =
     (case templateTagBody src ''{#await'' ''await block'' i of
        Inl err \<Rightarrow> Inl err
      | Inr (expr, j) \<Rightarrow>
          if TrimSpace expr = [] then Inl (ViewError j AwaitExpression)
          else
            (case awaitNodes j of
               Inl err \<Rightarrow> Inl err
             | Inr ((pending, m), k) \<Rightarrow>
                 if mk_Kind m \<noteq> ''then'' then Inl (ViewError k AwaitNeedsThen)
                 else if mk_Name m = [] then Inl (ViewError k AwaitThenName)
                 else
                   (case awaitNodes k of
                      Inl err \<Rightarrow> Inl err
                    | Inr ((thens, m2), l) \<Rightarrow>
                        if mk_Kind m2 = ''catch'' then
                          (if mk_Name m2 = [] then Inl (ViewError l AwaitCatchName)
                           else if mk_Name m2 = mk_Name m then Inl (ViewError l (AwaitSameName (mk_Name m2)))
                           else
                             (case awaitNodes l of
                                Inl err \<Rightarrow> Inl err
                              | Inr ((catches, m3), e) \<Rightarrow>
                                  if mk_Kind m3 \<noteq> ''end'' then Inl (ViewError e (AwaitDuplicate (mk_Kind m3)))
                                  else Inr (AwaitBlock (TrimSpace expr) (mk_Name m) (mk_Name m2) pending thens catches i e, e)))
                        else if mk_Kind m2 \<noteq> ''end'' then Inl (ViewError l (AwaitDuplicate (mk_Kind m2)))
                        else Inr (AwaitBlock (TrimSpace expr) (mk_Name m) [] pending thens [] i l, l))))"

section \<open>Sequences of nodes\<close>

definition template_advice_of :: "string \<Rightarrow> template_advice" where
  "template_advice_of fragment =
     (if HasPrefix fragment ''{#if'' \<or> HasPrefix fragment ''{:else'' \<or> HasPrefix fragment ''{/if'' then ConditionalSyntax
      else if HasPrefix fragment ''{#each'' \<or> HasPrefix fragment ''{/each'' then LoopSyntax
      else if HasPrefix fragment ''{#snippet'' \<or> HasPrefix fragment ''{/snippet'' then SnippetSyntax
      else if HasPrefix fragment ''{@html'' then RawHTMLSyntax
      else if HasPrefix fragment ''{@const'' \<or> HasPrefix fragment ''{@debug'' then TagSyntax
      else UnknownSyntax fragment)"

fun unsupported_loop :: "string list \<Rightarrow> string \<Rightarrow> (nat \<times> template_advice) option" where
  "unsupported_loop [] v = None"
| "unsupported_loop (marker # markers) v =
     (case str_index v marker of
        None \<Rightarrow> unsupported_loop markers v
      | Some offset \<Rightarrow> Some (offset, template_advice_of (take 32 (TrimSpace (drop offset v)))))"

definition unsupportedTemplateSyntax :: "string \<Rightarrow> (nat \<times> template_advice) option" where
  "unsupportedTemplateSyntax v = unsupported_loop [''{#'', ''{:'', ''{/'', ''{@''] v"

text \<open>The text up to the next node: no node when it is blank. The offset of the error counts bytes.\<close>

definition text_node :: "rune list \<Rightarrow> nat \<Rightarrow> node list vres" where
  "text_node src i =
     (let j = view_text src i; v = slice src i j
      in if TrimSpace v = [] then Inr ([], j)
         else
           (case unsupportedTemplateSyntax v of
              Some (offset, advice) \<Rightarrow> Inl (ViewError (i + offset) (Unsupported advice))
            | None \<Rightarrow> Inr ([Text v i j], j)))"

definition one_node ::
    "view_lib \<Rightarrow> rune list \<Rightarrow> (string \<Rightarrow> nat \<Rightarrow> node list vres) \<Rightarrow> (nat \<Rightarrow> (node list \<times> awaitBranchMarker) vres) \<Rightarrow>
     nat \<Rightarrow> node list vres" where
  "one_node L src nodes awaitNodes i =
     (if startsWith src ''{#await'' i then
        (case awaitBlock src awaitNodes i of Inl err \<Rightarrow> Inl err | Inr (x, j) \<Rightarrow> Inr ([x], j))
      else if src ! i = 0x3C then
        (case element L src nodes i of Inl err \<Rightarrow> Inl err | Inr (x, j) \<Rightarrow> Inr ([x], j))
      else text_node src i)"

text \<open>The texts tested in front of \<open>one_node\<close> exclude one another.\<close>

fun nodes :: "nat \<Rightarrow> view_lib \<Rightarrow> rune list \<Rightarrow> string \<Rightarrow> nat \<Rightarrow> node list vres"
and awaitNodes :: "nat \<Rightarrow> view_lib \<Rightarrow> rune list \<Rightarrow> nat \<Rightarrow> (node list \<times> awaitBranchMarker) vres" where
  "nodes 0 L src until i = Inl ViewFuel"
| "nodes (Suc n) L src until i =
     (if at_end src i then (if until \<noteq> [] then Inl (ViewError i (MissingClosing until)) else Inr ([], i))
      else if until \<noteq> [] \<and> startsWith src ''</'' i then
        (case closeTag L src i of
           Inl err \<Rightarrow> Inl err
         | Inr (name, j) \<Rightarrow> if name \<noteq> until then Inl (ViewError j (ExpectedClosing until name)) else Inr ([], j))
      else if startsWith src ''</'' i then Inl (ViewError i UnexpectedClosing)
      else if startsBranchMarker src i then Inl (ViewError i UnexpectedMarker)
      else
        (case one_node L src (nodes n L src) (awaitNodes n L src) i of
           Inl err \<Rightarrow> Inl err
         | Inr (xs, j) \<Rightarrow>
             (case nodes n L src until j of Inl err \<Rightarrow> Inl err | Inr (ys, k) \<Rightarrow> Inr (xs @ ys, k))))"
| "awaitNodes 0 L src i = Inl ViewFuel"
| "awaitNodes (Suc n) L src i =
     (if at_end src i then Inl (ViewError i AwaitUnclosed)
      else if startsBranchMarker src i then
        (case parseBranchMarker L src i of Inl err \<Rightarrow> Inl err | Inr (m, j) \<Rightarrow> Inr (([], m), j))
      else if startsWith src ''</'' i then Inl (ViewError i UnexpectedClosing)
      else
        (case one_node L src (nodes n L src) (awaitNodes n L src) i of
           Inl err \<Rightarrow> Inl err
         | Inr (xs, j) \<Rightarrow>
             (case awaitNodes n L src j of Inl err \<Rightarrow> Inl err | Inr ((ys, m), k) \<Rightarrow> Inr ((xs @ ys, m), k))))"

text \<open>Every node takes a rune, so that no recursion is deeper than the source is long.\<close>

definition Parse :: "view_lib \<Rightarrow> string \<Rightarrow> view_error + node list" where
  "Parse L source =
     (let src = runes source
      in case nodes (length src + 1) L src [] 0 of
           Inl err \<Rightarrow> Inl err
         | Inr (ns, i) \<Rightarrow>
             let j = skipSpace src i in if \<not> at_end src j then Inl (ViewError j UnexpectedContent) else Inr ns)"

section \<open>What a parsed tree satisfies\<close>

fun node_Start :: "node \<Rightarrow> nat" where
  "node_Start (Text v s e) = s"
| "node_Start (Element name attrs children s e) = s"
| "node_Start (ComponentCall name attrs children s e) = s"
| "node_Start (AwaitBlock expr result err pending thens catches s e) = s"

fun node_End :: "node \<Rightarrow> nat" where
  "node_End (Text v s e) = e"
| "node_End (Element name attrs children s e) = e"
| "node_End (ComponentCall name attrs children s e) = e"
| "node_End (AwaitBlock expr result err pending thens catches s e) = e"

text \<open>Siblings follow one another between two offsets.\<close>

fun siblings :: "nat \<Rightarrow> nat \<Rightarrow> node list \<Rightarrow> bool" where
  "siblings lo hi [] \<longleftrightarrow> lo \<le> hi"
| "siblings lo hi (x # xs) \<longleftrightarrow> lo \<le> node_Start x \<and> node_Start x < node_End x \<and> siblings (node_End x) hi xs"

definition attr_in :: "nat \<Rightarrow> nat \<Rightarrow> attr \<Rightarrow> bool" where
  "attr_in lo hi a \<longleftrightarrow> lo \<le> at_Start a \<and> at_Start a < at_End a \<and> at_End a \<le> hi"

text \<open>The class that normalization joins has no place in the source.\<close>

definition merged_class :: "attr \<Rightarrow> bool" where
  "merged_class a \<longleftrightarrow> at_Name a = ''class'' \<and> at_Start a = 0 \<and> at_End a = 0"

fun node_ok :: "view_lib \<Rightarrow> rune list \<Rightarrow> node \<Rightarrow> bool" where
  "node_ok L src (Text v s e) \<longleftrightarrow> v = slice src s e \<and> TrimSpace v \<noteq> [] \<and> unsupportedTemplateSyntax v = None"
| "node_ok L src (Element name attrs children s e) \<longleftrightarrow>
     isLowerHTMLName name \<and> \<not> blockedViewElement name \<and>
     validateParsedHTMLAttrsSafety L attrs = None \<and> validateRawHTMLDirective name attrs (children \<noteq> []) = None \<and>
     list_all (\<lambda>a. attr_in s e a \<or> merged_class a) attrs \<and> siblings s e children \<and> list_all (node_ok L src) children"
| "node_ok L src (ComponentCall name attrs children s e) \<longleftrightarrow>
     isComponentName L name \<and> list_all (attr_in s e) attrs \<and> siblings s e children \<and> list_all (node_ok L src) children"
| "node_ok L src (AwaitBlock expr result err pending thens catches s e) \<longleftrightarrow>
     expr \<noteq> [] \<and> isLocalIdentifier L result \<and>
     (if err = [] then catches = [] else isLocalIdentifier L err \<and> err \<noteq> result) \<and>
     siblings s e (pending @ thens @ catches) \<and>
     list_all (node_ok L src) pending \<and> list_all (node_ok L src) thens \<and> list_all (node_ok L src) catches"

definition seq_ok :: "view_lib \<Rightarrow> rune list \<Rightarrow> nat \<Rightarrow> node list \<Rightarrow> nat \<Rightarrow> bool" where
  "seq_ok L src i xs j \<longleftrightarrow> siblings i j xs \<and> list_all (node_ok L src) xs"

definition one_ok :: "view_lib \<Rightarrow> rune list \<Rightarrow> nat \<Rightarrow> node \<Rightarrow> nat \<Rightarrow> bool" where
  "one_ok L src i x j \<longleftrightarrow> i < j \<and> node_Start x = i \<and> node_End x = j \<and> node_ok L src x"

lemma siblings_le: "siblings lo hi xs \<Longrightarrow> lo \<le> hi"
  by (induction xs arbitrary: lo) (auto dest: order_less_imp_le intro: order_trans, meson le_trans less_imp_le)

lemma siblings_wide: "siblings lo hi xs \<Longrightarrow> lo' \<le> lo \<Longrightarrow> hi \<le> hi' \<Longrightarrow> siblings lo' hi' xs"
  by (induction xs arbitrary: lo lo') auto

lemma siblings_append: "siblings i j xs \<Longrightarrow> siblings j k ys \<Longrightarrow> siblings i k (xs @ ys)"
proof (induction xs arbitrary: i)
  case Nil
  then show ?case using siblings_wide [of j k ys i k] by simp
qed auto

lemma seq_ok_append: "seq_ok L src i xs j \<Longrightarrow> seq_ok L src j ys k \<Longrightarrow> seq_ok L src i (xs @ ys) k"
  using siblings_append by (auto simp: seq_ok_def)

lemma seq_ok_le: "seq_ok L src i xs j \<Longrightarrow> i \<le> j"
  using siblings_le by (auto simp: seq_ok_def)

lemma one_ok_seq: "one_ok L src i x j \<Longrightarrow> seq_ok L src i [x] j"
  by (auto simp: one_ok_def seq_ok_def)

section \<open>Attributes and normalization\<close>

lemma attr_in_wide: "attr_in lo hi a \<Longrightarrow> lo' \<le> lo \<Longrightarrow> hi \<le> hi' \<Longrightarrow> attr_in lo' hi' a"
  by (auto simp: attr_in_def)

lemma attrs_in_wide: "list_all (attr_in lo hi) as \<Longrightarrow> lo' \<le> lo \<Longrightarrow> hi \<le> hi' \<Longrightarrow> list_all (attr_in lo' hi') as"
  by (auto simp: list_all_iff intro: attr_in_wide)

lemma attrs_loop_rule:
  "within_source src (\<lambda>p j. i < j \<and> list_all (attr_in i j) (fst p)) (attrs_loop L src component name i)"
proof (induction L src component name i rule: attrs_loop.induct)
  case (1 L src component name i0)
  define i where "i = skipSpace src i0"
  have i0: "i0 \<le> i" by (simp add: i_def skipSpace_bounds)
  show ?case
  proof (cases "consume_text src ''/>'' i")
    case (Some j)
    then show ?thesis using consume_text_bound [OF Some] i0 by (simp add: attrs_loop.simps [of L src component name i0] flip: i_def)
  next
    case no1: None
    show ?thesis
    proof (cases "consume_text src ''>'' i")
      case (Some j)
      then show ?thesis
        using consume_text_bound [OF Some] no1 i0 by (simp add: attrs_loop.simps [of L src component name i0] flip: i_def)
    next
      case no2: None
      show ?thesis
      proof (cases "at_end src i")
        case True
        then show ?thesis using no1 no2 by (simp add: attrs_loop.simps [of L src component name i0] flip: i_def)
      next
        case False
        have step: "within_source src (\<lambda>p j. i0 < j \<and> list_all (attr_in i0 j) (fst p))
            (case attrs_loop L src component name j of
               Inl err \<Rightarrow> Inl err | Inr ((attrs, closed), k) \<Rightarrow> Inr ((a # attrs, closed), k))"
          if a: "tag_attr L src component i = Inr (a, j)" "j \<le> length src" "attr_span i a j" for a j
        proof -
          have IH: "within_source src (\<lambda>p k. j < k \<and> list_all (attr_in j k) (fst p)) (attrs_loop L src component name j)"
            using 1 [of i "(a, j)" a j] i_def no1 no2 False a(1) by auto
          show ?thesis
          proof (cases "attrs_loop L src component name j")
            case (Inr r)
            obtain attrs closed k where r: "r = ((attrs, closed), k)" by (metis surj_pair)
            have "i0 < j" "attr_in i0 j a" using a(3) i0 by (auto simp: attr_span_def attr_in_def)
            with IH Inr r attrs_in_wide [of j k attrs i0 k] attr_in_wide [of i0 j a i0 k] show ?thesis by simp
          qed (use IH in simp)
        qed
        show ?thesis
        proof (cases "tag_attr L src component i")
          case (Inl err)
          then show ?thesis
            using no1 no2 False tag_attr_rule [of src i L component]
            by (simp add: attrs_loop.simps [of L src component name i0] flip: i_def)
        next
          case (Inr r)
          obtain a j where r: "r = (a, j)" by force
          then show ?thesis
            using Inr no1 no2 False tag_attr_rule [of src i L component] step [of a j]
            by (simp add: attrs_loop.simps [of L src component name i0] flip: i_def)
        qed
      qed
    qed
  qed
qed

lemma normalize_loop_subset: "normalize_loop attrs id0 cs out = Some (classes, out') \<Longrightarrow> set out' \<subseteq> set out \<union> set attrs"
  by (induction attrs id0 cs out rule: normalize_loop.induct) (auto split: if_splits)

lemma normalizeHTMLAttrs_in:
  assumes "normalizeHTMLAttrs attrs0 = Inr attrs" "list_all (attr_in s e) attrs0"
  shows "list_all (\<lambda>a. attr_in s e a \<or> merged_class a) attrs"
proof -
  from assms(1) obtain classes out where out: "normalize_loop attrs0 [] [] [] = Some (classes, out)"
    and attrs: "attrs = (if classes \<noteq> [] then new_attr ''class'' (Join classes '' '') 0 0 # out else out)"
    by (auto simp: normalizeHTMLAttrs_def split: option.splits)
  have "list_all (\<lambda>a. attr_in s e a \<or> merged_class a) out"
    using normalize_loop_subset [OF out] assms(2) by (auto simp: list_all_iff)
  then show ?thesis by (simp add: attrs merged_class_def new_attr_def)
qed

lemma html_attrs_in:
  assumes "html_attrs L attrs0 i = Inr attrs" "list_all (attr_in s e) attrs0"
  shows "list_all (\<lambda>a. attr_in s e a \<or> merged_class a) attrs \<and> validateParsedHTMLAttrsSafety L attrs = None"
  using assms normalizeHTMLAttrs_in by (auto simp: html_attrs_def split: sum.splits option.splits)

section \<open>The parsers return well-formed nodes\<close>

lemma raw_checked_rule:
  assumes "within_source src (one_ok L src i) (Inr (Element name attrs children i j, j))
             \<or> validateRawHTMLDirective name attrs (children \<noteq> []) \<noteq> None"
  shows "within_source src (one_ok L src i) (raw_checked name attrs children i j)"
  using assms by (auto simp: raw_checked_def split: option.splits)

text \<open>The parser of the children of a tag, from any later offset.\<close>

definition nodes_from :: "view_lib \<Rightarrow> rune list \<Rightarrow> nat \<Rightarrow> (string \<Rightarrow> nat \<Rightarrow> node list vres) \<Rightarrow> bool" where
  "nodes_from L src i parse \<longleftrightarrow>
     (\<forall>name j. i < j \<longrightarrow> j \<le> length src \<longrightarrow> within_source src (seq_ok L src j) (parse name j))"

lemma componentCall_rule:
  assumes parse: "nodes_from L src start parse" and "start < i" "isComponentName L name"
  shows "within_source src (one_ok L src start) (componentCall L src parse name start i)"
proof (cases "attrs_loop L src True name i")
  case (Inl err)
  then show ?thesis using attrs_loop_rule [of src i L True name] by (simp add: componentCall_def)
next
  case (Inr r)
  obtain attrs closed j where r: "r = ((attrs, closed), j)" by (metis surj_pair)
  with Inr have j: "j \<le> length src" "i < j" "list_all (attr_in i j) attrs"
    using attrs_loop_rule [of src i L True name] by auto
  show ?thesis
  proof (cases closed)
    case True
    then show ?thesis
      using Inr r j assms attrs_in_wide [OF j(3), of start j] by (simp add: componentCall_def one_ok_def)
  next
    case False
    have P: "within_source src (seq_ok L src j) (parse name j)" using parse j assms(2) by (simp add: nodes_from_def)
    show ?thesis
    proof (cases "parse name j")
      case (Inl err)
      with P False Inr r show ?thesis by (simp add: componentCall_def)
    next
      case (Inr q)
      obtain children k where q: "q = (children, k)" by force
      with P Inr have k: "k \<le> length src" "seq_ok L src j children k" by auto
      with seq_ok_le have "j \<le> k" by blast
      moreover have "siblings start k children" using k(2) siblings_wide [of j k children start k] j(2) assms(2) by (simp add: seq_ok_def)
      ultimately show ?thesis
        using False \<open>attrs_loop L src True name i = Inr r\<close> r Inr q k j assms(2,3) attrs_in_wide [OF j(3), of start k]
        by (simp add: componentCall_def one_ok_def seq_ok_def)
    qed
  qed
qed

lemma htmlElement_rule:
  assumes parse: "nodes_from L src start parse" and "start < i" and name: "isLowerHTMLName name" "\<not> blockedViewElement name"
  shows "within_source src (one_ok L src start) (htmlElement L src parse name start i)"
proof (cases "attrs_loop L src False name i")
  case (Inl err)
  then show ?thesis using attrs_loop_rule [of src i L False name] by (simp add: htmlElement_def)
next
  case loop: (Inr r)
  obtain attrs0 closed j where r: "r = ((attrs0, closed), j)" by (metis surj_pair)
  with loop have j: "j \<le> length src" "i < j" "list_all (attr_in i j) attrs0"
    using attrs_loop_rule [of src i L False name] by auto
  show ?thesis
  proof (cases "html_attrs L attrs0 j")
    case (Inl err)
    then have "err \<noteq> ViewFuel" by (auto simp: html_attrs_def normalizeHTMLAttrs_def split: sum.splits option.splits if_splits prod.splits)
    with Inl loop r show ?thesis by (simp add: htmlElement_def)
  next
    case attrs: (Inr attrs)
    have in_source: "list_all (\<lambda>a. attr_in start k a \<or> merged_class a) attrs \<and> validateParsedHTMLAttrsSafety L attrs = None"
      if "j \<le> k" for k
      using html_attrs_in [OF attrs attrs_in_wide [OF j(3), of start k]] that assms(2) by simp
    show ?thesis
    proof (cases closed)
      case True
      then show ?thesis
        using loop r attrs j name assms(2) in_source [of j]
        by (auto simp: htmlElement_def one_ok_def intro!: raw_checked_rule)
    next
      case False
      have P: "within_source src (seq_ok L src j) (parse name j)" using parse j assms(2) by (simp add: nodes_from_def)
      show ?thesis
      proof (cases "parse name j")
        case (Inl err)
        with P False loop r attrs show ?thesis by (simp add: htmlElement_def)
      next
        case (Inr q)
        obtain children k where q: "q = (children, k)" by force
        with P Inr have k: "k \<le> length src" "seq_ok L src j children k" by auto
        with seq_ok_le have jk: "j \<le> k" by blast
        moreover have "siblings start k children"
          using k(2) siblings_wide [of j k children start k] j(2) assms(2) by (simp add: seq_ok_def)
        ultimately show ?thesis
          using False loop r attrs Inr q k j name assms(2) in_source [OF jk]
          by (auto simp: htmlElement_def one_ok_def seq_ok_def intro!: raw_checked_rule)
      qed
    qed
  qed
qed

lemma element_rule:
  assumes "nodes_from L src i parse"
  shows "within_source src (one_ok L src i) (element L src parse i)"
proof (cases "consume_text src ''<'' i")
  case None
  then show ?thesis by (simp add: element_def)
next
  case (Some j)
  then have "i < j" using consume_text_bound [OF Some] by simp
  then show ?thesis
    unfolding element_def Some option.case
    by (auto intro!: within_source_case [OF parse_name_rule] componentCall_rule htmlElement_rule assms)
qed

lemma tag_body_rule:
  assumes "pre \<noteq> []"
  shows "within_source src (\<lambda>v j. i < j) (templateTagBody src pre name i)"
proof (cases "consume_text src pre i")
  case None
  then show ?thesis by (simp add: templateTagBody_def)
next
  case (Some j)
  then show ?thesis
    using consume_text_bound [OF Some assms] assms
    by (auto simp: templateTagBody_def split: option.splits dest: closing_brace_bound)
qed

definition marker_ok :: "view_lib \<Rightarrow> awaitBranchMarker \<Rightarrow> bool" where
  "marker_ok L m \<longleftrightarrow> mk_Kind m = ''end'' \<or> (mk_Name m \<noteq> [] \<and> isLocalIdentifier L (mk_Name m))"

lemma binding_marker_rule:
  "pre \<noteq> [] \<Longrightarrow> within_source src (\<lambda>m j. i < j \<and> marker_ok L m) (binding_marker L src kind pre label i)"
  unfolding binding_marker_def
  by (rule within_source_case [OF tag_body_rule], assumption)
    (auto simp: awaitBindingName_def Let_def marker_ok_def split: sum.splits if_splits)

lemma branch_marker_rule: "within_source src (\<lambda>m j. i < j \<and> marker_ok L m) (parseBranchMarker L src i)"
  unfolding parseBranchMarker_def
  by (auto simp: marker_ok_def [of L "\<lparr>mk_Kind = ''end'', mk_Name = []\<rparr>"]
      intro!: binding_marker_rule within_source_case [OF tag_body_rule])

definition branch_ok :: "view_lib \<Rightarrow> rune list \<Rightarrow> nat \<Rightarrow> node list \<times> awaitBranchMarker \<Rightarrow> nat \<Rightarrow> bool" where
  "branch_ok L src i p j \<longleftrightarrow> seq_ok L src i (fst p) j \<and> marker_ok L (snd p)"

definition await_from :: "view_lib \<Rightarrow> rune list \<Rightarrow> nat \<Rightarrow> (nat \<Rightarrow> (node list \<times> awaitBranchMarker) vres) \<Rightarrow> bool" where
  "await_from L src i parse \<longleftrightarrow> (\<forall>j. i < j \<longrightarrow> j \<le> length src \<longrightarrow> within_source src (branch_ok L src j) (parse j))"

lemma await_case:
  assumes "await_from L src i parse" "i < j" "j \<le> length src"
    and "\<And>xs m k. k \<le> length src \<Longrightarrow> j \<le> k \<Longrightarrow> seq_ok L src j xs k \<Longrightarrow> marker_ok L m \<Longrightarrow> within_source src Q (f xs m k)"
  shows "within_source src Q (case parse j of Inl err \<Rightarrow> Inl err | Inr ((xs, m), k) \<Rightarrow> f xs m k)"
proof (cases "parse j")
  case (Inl err)
  with assms(1-3) show ?thesis by (fastforce simp: await_from_def)
next
  case (Inr r)
  obtain xs m k where r: "r = ((xs, m), k)" by (metis surj_pair)
  from assms(1-3) Inr r have k: "k \<le> length src" "seq_ok L src j xs k" "marker_ok L m"
    by (fastforce simp: await_from_def branch_ok_def)+
  show ?thesis using assms(4) [OF k(1) seq_ok_le [OF k(2)] k(2,3)] Inr r by simp
qed

lemma siblings_await:
  "i < j \<Longrightarrow> seq_ok L src j ps k \<Longrightarrow> seq_ok L src k ts l \<Longrightarrow> seq_ok L src l cs e \<Longrightarrow> siblings i e (ps @ ts @ cs)"
  using siblings_append [of i k ps e "ts @ cs"] siblings_append [of k l ts e cs] siblings_wide [of j k ps i k]
  by (auto simp: seq_ok_def)

lemma awaitBlock_rule:
  assumes A: "await_from L src i parse"
  shows "within_source src (one_ok L src i) (awaitBlock src parse i)"
proof -
  have third: "within_source src (one_ok L src i)
      (case parse l of
         Inl err \<Rightarrow> Inl err
       | Inr ((catches, m3), e) \<Rightarrow>
           if mk_Kind m3 \<noteq> ''end'' then Inl (ViewError e (AwaitDuplicate (mk_Kind m3)))
           else Inr (AwaitBlock expr result err pending thens catches i e, e))"
    if "i < j" "j \<le> k" "k \<le> l" "l \<le> length src" "seq_ok L src j pending k" "seq_ok L src k thens l"
      "expr \<noteq> []" "isLocalIdentifier L result" "err \<noteq> []" "isLocalIdentifier L err" "err \<noteq> result"
    for j k l pending thens expr result err
    by (rule await_case [OF A]) (use that siblings_await [OF that(1,5,6)] in \<open>auto simp: one_ok_def seq_ok_def\<close>)
  have second: "within_source src (one_ok L src i)
      (case parse k of
         Inl err \<Rightarrow> Inl err
       | Inr ((thens, m2), l) \<Rightarrow>
           if mk_Kind m2 = ''catch'' then
             (if mk_Name m2 = [] then Inl (ViewError l AwaitCatchName)
              else if mk_Name m2 = mk_Name m then Inl (ViewError l (AwaitSameName (mk_Name m2)))
              else
                (case parse l of
                   Inl err \<Rightarrow> Inl err
                 | Inr ((catches, m3), e) \<Rightarrow>
                     if mk_Kind m3 \<noteq> ''end'' then Inl (ViewError e (AwaitDuplicate (mk_Kind m3)))
                     else Inr (AwaitBlock expr (mk_Name m) (mk_Name m2) pending thens catches i e, e)))
           else if mk_Kind m2 \<noteq> ''end'' then Inl (ViewError l (AwaitDuplicate (mk_Kind m2)))
           else Inr (AwaitBlock expr (mk_Name m) [] pending thens [] i l, l))"
    if jk: "i < j" "j \<le> k" "k \<le> length src" "seq_ok L src j pending k" "expr \<noteq> []" "isLocalIdentifier L (mk_Name m)"
    for j k pending m expr
  proof (rule await_case [OF A], goal_cases)
    case (3 thens m2 l)
    have "siblings i l (pending @ thens)"
      using siblings_await [OF jk(1,4) 3(3), of "[]" l] by (simp add: seq_ok_def)
    with 3 jk show ?case
      by (auto simp: one_ok_def seq_ok_def marker_ok_def intro!: third [OF jk(1,2)])
  qed (use jk in auto)
  show ?thesis
    unfolding awaitBlock_def
  proof (rule within_source_case [OF tag_body_rule], goal_cases)
    case (2 expr j)
    show ?case
    proof (cases "TrimSpace expr = []")
      case False
      show ?thesis
        apply (simp only: False if_False)
        apply (rule await_case [OF A])
        subgoal using 2 by simp
        subgoal using 2 by simp
        subgoal for pending m k
          using 2 False second [of j k pending "TrimSpace expr" m] by (auto simp: marker_ok_def)
        done
    qed simp
  qed simp
qed

lemma view_text_bounds: "i \<le> view_text src i \<and> (i \<le> length src \<longrightarrow> view_text src i \<le> length src)"
proof (induction src i rule: view_text.induct)
  case (1 src i)
  then show ?case
    using view_text.simps [of src i] by (cases "at_end src i") (auto simp: at_end_def)
qed

lemma view_text_progress:
  assumes "\<not> at_end src i" "src ! i \<noteq> 0x3C" "\<not> startsAwaitMarker src i"
  shows "i < view_text src i"
  using assms view_text_bounds [of "i + 1" src] by (simp add: view_text.simps [of src i])

lemma text_node_rule:
  assumes "\<not> at_end src i" "src ! i \<noteq> 0x3C" "\<not> startsAwaitMarker src i"
  shows "within_source src (\<lambda>xs j. i < j \<and> seq_ok L src i xs j) (text_node src i)"
  using view_text_progress [OF assms] view_text_bounds [of i src] assms(1)
  by (auto simp: text_node_def Let_def seq_ok_def at_end_def split: option.splits)

lemma one_node_rule:
  assumes "nodes_from L src i parse" "await_from L src i parse_await" "\<not> at_end src i" "\<not> startsBranchMarker src i"
  shows "within_source src (\<lambda>xs j. i < j \<and> seq_ok L src i xs j) (one_node L src parse parse_await i)"
  unfolding one_node_def
  using assms
  by (auto simp: startsAwaitMarker_def startsBranchMarker_def one_ok_seq one_ok_def [of L src i]
      intro!: text_node_rule within_source_case [OF awaitBlock_rule] within_source_case [OF element_rule])

lemma nodes_rules:
  "i \<le> length src \<Longrightarrow> length src - i < n \<Longrightarrow>
   within_source src (seq_ok L src i) (nodes n L src until i) \<and>
   within_source src (branch_ok L src i) (awaitNodes n L src i)"
proof (induction n arbitrary: i until)
  case (Suc n)
  have IH: "within_source src (seq_ok L src j) (nodes n L src name j)" "within_source src (branch_ok L src j) (awaitNodes n L src j)"
    if "i < j" "j \<le> length src" for j name
    using Suc.IH [of j name] Suc.prems that by auto
  have from_i: "nodes_from L src i (nodes n L src)" "await_from L src i (awaitNodes n L src)"
    using IH by (simp_all add: nodes_from_def await_from_def)
  have empty: "seq_ok L src i [] j" if "i \<le> j" for j using that by (simp add: seq_ok_def)
  have one: "within_source src (seq_ok L src i)
      (case one_node L src (nodes n L src) (awaitNodes n L src) i of
         Inl err \<Rightarrow> Inl err
       | Inr (xs, j) \<Rightarrow> (case nodes n L src name j of Inl err \<Rightarrow> Inl err | Inr (ys, k) \<Rightarrow> Inr (xs @ ys, k)))"
    if "\<not> at_end src i" "\<not> startsBranchMarker src i" for name
    by (rule within_source_case [OF one_node_rule [OF from_i that]], rule within_source_case [OF IH(1)])
      (auto intro: seq_ok_append)
  have two: "within_source src (branch_ok L src i)
      (case one_node L src (nodes n L src) (awaitNodes n L src) i of
         Inl err \<Rightarrow> Inl err
       | Inr (xs, j) \<Rightarrow>
           (case awaitNodes n L src j of Inl err \<Rightarrow> Inl err | Inr ((ys, m), k) \<Rightarrow> Inr ((xs @ ys, m), k)))"
    if "\<not> at_end src i" "\<not> startsBranchMarker src i"
  proof (rule within_source_case [OF one_node_rule [OF from_i that]], goal_cases)
    case (1 xs j)
    then show ?case
      by (intro await_case [OF from_i(2)]) (auto simp: branch_ok_def intro: seq_ok_append)
  qed
  from Suc.prems show ?case
    by (auto simp: empty branch_ok_def [of L src i "([], x)" for x]
        intro!: one two within_source_case [OF closeTag_rule] within_source_case [OF branch_marker_rule])
qed simp_all

text \<open>
  The parser answers on every source: its bound is never reached.
\<close>

theorem Parse_total: "Parse L source \<noteq> Inl ViewFuel"
proof -
  define src where "src = runes source"
  have "within_source src (seq_ok L src 0) (nodes (length src + 1) L src [] 0)"
    using nodes_rules [of 0 src "length src + 1" L "[]"] by simp
  then show ?thesis
    by (auto simp: Parse_def Let_def simp flip: src_def split: sum.splits)
qed

lemma Parse_nodes_ok:
  assumes "Parse L source = Inr ns"
  shows "siblings 0 (length (runes source)) ns \<and> list_all (node_ok L (runes source)) ns"
proof -
  define src where "src = runes source"
  have "within_source src (seq_ok L src 0) (nodes (length src + 1) L src [] 0)"
    using nodes_rules [of 0 src "length src + 1" L "[]"] by simp
  with assms show ?thesis
    by (auto simp: Parse_def Let_def seq_ok_def simp flip: src_def split: sum.splits if_splits prod.splits
        intro: siblings_wide)
qed

section \<open>Properties\<close>

text \<open>All nodes of a tree, and the attributes of its elements.\<close>

fun subnodes :: "node \<Rightarrow> node list" where
  "subnodes (Text v s e) = [Text v s e]"
| "subnodes (Element name attrs children s e) = Element name attrs children s e # concat (map subnodes children)"
| "subnodes (ComponentCall name attrs children s e) = ComponentCall name attrs children s e # concat (map subnodes children)"
| "subnodes (AwaitBlock expr result err pending thens catches s e) =
     AwaitBlock expr result err pending thens catches s e #
       concat (map subnodes pending) @ concat (map subnodes thens) @ concat (map subnodes catches)"

lemma subnodes_ok: "node_ok L src x \<Longrightarrow> y \<in> set (subnodes x) \<Longrightarrow> node_ok L src y"
  by (induction x rule: subnodes.induct) (auto simp: list_all_iff)

lemma siblings_bounds: "siblings lo hi xs \<Longrightarrow> x \<in> set xs \<Longrightarrow> lo \<le> node_Start x \<and> node_Start x < node_End x \<and> node_End x \<le> hi"
proof (induction xs arbitrary: lo)
  case (Cons y ys)
  then show ?case using siblings_le [of "node_End y" hi ys] by (cases "x = y") (auto, fastforce+)
qed simp

lemma subnodes_within: "node_ok L src x \<Longrightarrow> y \<in> set (subnodes x) \<Longrightarrow> node_Start x \<le> node_Start y \<and> node_End y \<le> node_End x"
proof (induction x rule: subnodes.induct)
  case (2 name attrs children s e)
  then show ?case using siblings_bounds [of s e children] by (fastforce simp: list_all_iff)
next
  case (3 name attrs children s e)
  then show ?case using siblings_bounds [of s e children] by (fastforce simp: list_all_iff)
next
  case (4 expr result err pending thens catches s e)
  note IH = 4(1-3) and ok = 4(4) and y = 4(5)
  have *: "s \<le> node_Start z \<and> node_End z \<le> e" if "z \<in> set pending \<union> set thens \<union> set catches" for z
    using siblings_bounds [of s e "pending @ thens @ catches" z] ok that by auto
  from y consider "y = AwaitBlock expr result err pending thens catches s e"
    | (pending) z where "z \<in> set pending" "y \<in> set (subnodes z)" | (thens) z where "z \<in> set thens" "y \<in> set (subnodes z)"
    | (catches) z where "z \<in> set catches" "y \<in> set (subnodes z)"
    by auto
  then show ?case
  proof cases
    case pending
    with IH(1) [OF pending(1)] ok * [of z] show ?thesis by (fastforce simp: list_all_iff)
  next
    case thens
    with IH(2) [OF thens(1)] ok * [of z] show ?thesis by (fastforce simp: list_all_iff)
  next
    case catches
    with IH(3) [OF catches(1)] ok * [of z] show ?thesis by (fastforce simp: list_all_iff)
  qed simp
qed simp

definition in_tree :: "node \<Rightarrow> node list \<Rightarrow> bool" where
  "in_tree x ns \<longleftrightarrow> x \<in> set (concat (map subnodes ns))"

lemma Parse_in_tree:
  assumes "Parse L source = Inr ns" "in_tree x ns"
  shows "node_ok L (runes source) x \<and> node_Start x < node_End x \<and> node_End x \<le> length (runes source)"
proof -
  from assms(2) obtain y where y: "y \<in> set ns" "x \<in> set (subnodes y)" by (auto simp: in_tree_def)
  with Parse_nodes_ok [OF assms(1)] have ok: "node_ok L (runes source) y" by (simp add: list_all_iff)
  have bounds: "node_Start y < node_End y \<and> node_End y \<le> length (runes source)"
    using Parse_nodes_ok [OF assms(1)] siblings_bounds [of 0 "length (runes source)" ns y] y(1) by simp
  have "node_Start x < node_End x"
    using ok y(2) bounds
  proof (induction y rule: subnodes.induct)
    case (2 name attrs children s e)
    then show ?case using siblings_bounds [of s e children] by (fastforce simp: list_all_iff)
  next
    case (3 name attrs children s e)
    then show ?case using siblings_bounds [of s e children] by (fastforce simp: list_all_iff)
  next
    case (4 expr result err pending thens catches s e)
    note IH = 4(1-3) and ok = 4(4) and x = 4(5) and b = 4(6)
    have *: "node_Start z < node_End z \<and> node_End z \<le> length (runes source)"
      if "z \<in> set pending \<union> set thens \<union> set catches" for z
      using siblings_bounds [of s e "pending @ thens @ catches" z] ok that b by auto
    from x consider "x = AwaitBlock expr result err pending thens catches s e"
      | (pending) z where "z \<in> set pending" "x \<in> set (subnodes z)" | (thens) z where "z \<in> set thens" "x \<in> set (subnodes z)"
      | (catches) z where "z \<in> set catches" "x \<in> set (subnodes z)"
      by auto
    then show ?case
    proof cases
      case pending
      with IH(1) [OF pending(1)] ok * [of z] show ?thesis by (simp add: list_all_iff)
    next
      case thens
      with IH(2) [OF thens(1)] ok * [of z] show ?thesis by (simp add: list_all_iff)
    next
      case catches
      with IH(3) [OF catches(1)] ok * [of z] show ?thesis by (simp add: list_all_iff)
    qed (use b in simp)
  qed simp
  with ok subnodes_ok [OF ok y(2)] subnodes_within [OF ok y(2)] bounds show ?thesis by auto
qed

lemma attrs_safety: "validateParsedHTMLAttrsSafety L attrs = None \<Longrightarrow> a \<in> set attrs \<Longrightarrow> validateParsedHTMLAttrSafety L a = None"
  by (induction attrs) (auto split: option.splits)

lemma to_lower_twice: "to_lower (to_lower c) = to_lower c"
  by (auto simp: to_lower_def is_upper_def)

lemma ToLower_twice: "ToLower (ToLower s) = ToLower s"
  by (simp add: ToLower_def to_lower_twice)

lemma valid_scheme_chars:
  assumes "validURLScheme sch" "c \<in> set sch"
  shows "c \<notin> {CHR '':'', CHR ''/'', CHR ''?'', CHR ''#''}"
proof -
  have "scheme_char c"
    using assms by (cases sch) (auto simp: validURLScheme_def list_all_iff scheme_char_def)
  then show ?thesis by (auto simp: scheme_char_def letter_def is_upper_def is_lower_def is_digit_def)
qed

text \<open>
  A URL a browser may follow: no control character, no two slashes (or a slash and a backslash) in front, and
  a scheme, if it has one, from the safe list.
\<close>

definition safe_url :: "string \<Rightarrow> bool" where
  "safe_url v \<longleftrightarrow> \<not> containsURLControl v \<and> \<not> HasPrefix v ''//'' \<and> \<not> HasPrefix v [CHR ''/'', CHR 0x5C] \<and>
     (\<forall>scheme rest. v = scheme @ CHR '':'' # rest \<longrightarrow> scheme \<noteq> [] \<longrightarrow> validURLScheme scheme \<longrightarrow>
        ToLower scheme \<in> {''http'', ''https'', ''mailto'', ''tel''})"

text \<open>The URLs an attribute spells out: one, or the first field of every candidate of a \<open>srcset\<close>.\<close>

definition spelled_urls :: "view_lib \<Rightarrow> attr \<Rightarrow> string list" where
  "spelled_urls L a =
     (let v = decodeSourceTextEntities L (at_Value a)
      in map TrimSpace
           (if EqualFold (TrimSpace (at_Name a)) ''srcset''
            then concat (map (\<lambda>candidate. take 1 (Fields (TrimSpace candidate))) (Split v CHR '',''))
            else [v]))"

lemma validated_url_safe:
  assumes "validateSingleURLAttrValue name u = None"
  shows "safe_url (TrimSpace u)"
proof (cases "TrimSpace u = []")
  case True
  then show ?thesis by (simp add: safe_url_def containsURLControl_def)
next
  case False
  define v where "v = TrimSpace u"
  have "ToLower sch \<in> {''http'', ''https'', ''mailto'', ''tel''}"
    if v: "v = sch @ CHR '':'' # rest" and "sch \<noteq> []" "validURLScheme sch" for sch rest
  proof -
    have "\<forall>c\<in>set sch. c \<notin> {CHR '':'', CHR ''/'', CHR ''?'', CHR ''#''}"
      using that(3) valid_scheme_chars by blast
    then have "takeWhile (\<lambda>c. c \<notin> {CHR '':'', CHR ''/'', CHR ''?'', CHR ''#''}) v = sch"
      by (simp add: v takeWhile_append)
    then have "explicitURLScheme v = Some (ToLower sch)"
      using that by (simp add: explicitURLScheme_def)
    with assms False show ?thesis
      by (auto simp: validateSingleURLAttrValue_def safeURLScheme_def ToLower_twice simp flip: v_def split: if_splits)
  qed
  moreover have "\<not> HasPrefix v ''//''" "\<not> HasPrefix v [CHR ''/'', CHR 0x5C]"
    using assms False by (auto simp: validateSingleURLAttrValue_def prefix_def simp flip: v_def split: if_splits)
  moreover have "\<not> containsURLControl v"
    using assms False by (auto simp: validateSingleURLAttrValue_def simp flip: v_def split: if_splits)
  ultimately show ?thesis unfolding safe_url_def v_def by blast
qed

lemma validated_srcset_safe:
  "validateSrcset_loop name cs = None \<Longrightarrow> u \<in> set (concat (map (\<lambda>c. take 1 (Fields (TrimSpace c))) cs)) \<Longrightarrow> safe_url (TrimSpace u)"
  by (induction name cs rule: validateSrcset_loop.induct) (auto split: list.splits option.splits intro: validated_url_safe)

text \<open>
  C34: an element of a parsed tree is no script, has no attribute that a browser runs (a handler, or
  \<open>srcdoc\<close>), and every URL it spells out, a candidate of a \<open>srcset\<close> included, has no control
  character, does not start with two slashes or a slash and a backslash, and has a scheme only from the safe
  list. A value with an opening brace holds an expression, is not spelled out, and is not checked by the
  parser: the renderer checks it with the value of the expression.
\<close>

theorem parsed_element_safe:
  assumes parsed: "Parse L source = Inr ns" and "in_tree (Element name attrs children s e) ns" "a \<in> set attrs"
  shows "\<not> EqualFold (TrimSpace name) ''script'' \<and>
    \<not> (HasPrefix (lower_case L (TrimSpace (at_Name a))) ''on'' \<and> length (lower_case L (TrimSpace (at_Name a))) > 2) \<and>
    \<not> EqualFold (TrimSpace (at_Name a)) ''srcdoc'' \<and>
    (urlBearingAttr L (at_Name a) \<longrightarrow> CHR ''{'' \<notin> set (at_Value a) \<longrightarrow> list_all safe_url (spelled_urls L a))"
proof -
  from Parse_in_tree [OF assms(1,2)] assms(3) have ok: "validateParsedHTMLAttrSafety L a = None"
    and name: "\<not> blockedViewElement name"
    using attrs_safety by auto
  have "list_all safe_url (spelled_urls L a)" if u: "urlBearingAttr L (at_Name a)" "CHR ''{'' \<notin> set (at_Value a)"
  proof -
    from ok u have valid: "validateURLAttrValue L (at_Name a) (at_Value a) = None"
      by (auto simp: validateParsedHTMLAttrSafety_def split: if_splits)
    show ?thesis
    proof (cases "EqualFold (TrimSpace (at_Name a)) ''srcset''")
      case True
      with valid u(1) have "validateSrcset_loop (at_Name a) (Split (decodeSourceTextEntities L (at_Value a)) CHR '','') = None"
        by (simp add: validateURLAttrValue_def validateSrcsetAttrValue_def Let_def)
      from validated_srcset_safe [OF this] True show ?thesis by (auto simp: spelled_urls_def Let_def list_all_iff)
    next
      case False
      with valid u(1) show ?thesis
        by (simp add: validateURLAttrValue_def spelled_urls_def Let_def validated_url_safe)
    qed
  qed
  with ok name show ?thesis
    by (auto simp: validateParsedHTMLAttrSafety_def blockedViewElement_def inlineEventHandlerAttr_def Let_def split: if_splits)
qed

definition example_lib :: view_lib where
  "example_lib =
     \<lparr>IsLetter = IsLetter ascii, IsDigit = IsDigit ascii, lower_case = ToLower, UnescapeString = (\<lambda>s. s)\<rparr>"

definition link_attr :: attr where
  "link_attr = new_attr ''href'' ''/next'' 3 15"

lemma link_parsed:
  "Parse example_lib (''<a href='' @ [CHR 0x22] @ ''/next'' @ [CHR 0x22] @ ''>Next</a>'') =
   Inr [Element ''a'' [link_attr] [Text ''Next'' 16 20] 0 24]"
  by code_simp

theorem parsed_element_safe_witness:
  "urlBearingAttr example_lib (at_Name link_attr) \<and> spelled_urls example_lib link_attr = [''/next''] \<and> safe_url ''/next''"
proof -
  have "urlBearingAttr example_lib (at_Name link_attr)" "spelled_urls example_lib link_attr = [''/next'']"
    "CHR ''{'' \<notin> set (at_Value link_attr)"
    by code_simp+
  with parsed_element_safe [OF link_parsed, of "''a''" "[link_attr]" "[Text ''Next'' 16 20]" 0 24 link_attr]
  show ?thesis by (simp add: in_tree_def)
qed

text \<open>The nodes directly in a node, in their order; those of an await block are its three parts.\<close>

fun node_parts :: "node \<Rightarrow> node list" where
  "node_parts (Text v s e) = []"
| "node_parts (Element name attrs children s e) = children"
| "node_parts (ComponentCall name attrs children s e) = children"
| "node_parts (AwaitBlock expr result err pending thens catches s e) = pending @ thens @ catches"

lemma node_parts_siblings:
  "node_ok L src x \<Longrightarrow> node_Start x < node_End x \<Longrightarrow> siblings (node_Start x) (node_End x) (node_parts x)"
  by (cases x) simp_all

text \<open>
  C35: the spans of a parsed tree nest in the source: at every depth siblings follow one another in the
  order of the tree, a node is not empty, lies within every node that holds it, and a text is the source
  between its offsets.
\<close>

theorem parsed_spans_nest:
  assumes "Parse L source = Inr ns" "in_tree x ns" "y \<in> set (subnodes x)"
  shows "siblings 0 (length (runes source)) ns \<and> node_Start x < node_End x \<and> node_End x \<le> length (runes source) \<and>
    node_Start x \<le> node_Start y \<and> node_End y \<le> node_End x \<and>
    siblings (node_Start x) (node_End x) (node_parts x) \<and>
    (\<forall>v s e. x = Text v s e \<longrightarrow> v = slice (runes source) s e \<and> TrimSpace v \<noteq> [])"
  using Parse_nodes_ok [OF assms(1)] Parse_in_tree [OF assms(1,2)] subnodes_within [of L "runes source" x y] assms(3)
    node_parts_siblings [of L "runes source" x]
  by auto

theorem parsed_spans_nest_witness:
  "(0::nat) < 24 \<and> node_Start (Element ''a'' [link_attr] [Text ''Next'' 16 20] 0 24) \<le> node_Start (Text ''Next'' 16 20)"
  using parsed_spans_nest [OF link_parsed, of "Element ''a'' [link_attr] [Text ''Next'' 16 20] 0 24" "Text ''Next'' 16 20"]
  by (simp add: in_tree_def)

text \<open>
  C36: markup that a page does not escape is asked for by one expression, on an element that can hold
  it and has no children, and by no element that also repeats or binds.
\<close>

theorem raw_html_alone:
  assumes "Parse L source = Inr ns" "in_tree (Element name attrs children s e) ns" "a \<in> set attrs" "at_Name a = ''g:unsafe-html''"
  shows "filter (\<lambda>b. at_Name b = ''g:unsafe-html'') attrs = [a] \<and> name \<notin> set voidElements \<and> children = [] \<and>
    at_Expression a \<and> TrimSpace (at_Value a) \<noteq> [] \<and>
    (\<forall>b\<in>set attrs. at_Name b \<notin> {''g:for'', ''g:each'', ''g:when'', ''g:key''} \<and> \<not> HasPrefix (at_Name b) ''g:bind:'')"
proof -
  have ok: "validateRawHTMLDirective name attrs (children \<noteq> []) = None" using Parse_in_tree [OF assms(1,2)] by simp
  have "a \<in> set (filter (\<lambda>b. at_Name b = raw_html) attrs)" using assms(3,4) by (simp add: raw_html_def)
  with ok have "filter (\<lambda>b. at_Name b = raw_html) attrs = [a]"
    unfolding validateRawHTMLDirective_def
    by (cases "filter (\<lambda>b. at_Name b = raw_html) attrs"; cases "tl (filter (\<lambda>b. at_Name b = raw_html) attrs)")
      (simp_all del: set_filter)
  with ok show ?thesis
    by (auto simp: validateRawHTMLDirective_def raw_html_def combines_badly_def find_None_iff split: if_splits)
qed

lemma raw_parsed:
  "Parse example_lib ''<p g:unsafe-html={Body}></p>'' =
   Inr [Element ''p'' [(new_attr ''g:unsafe-html'' ''Body'' 3 23)\<lparr>at_Expression := True\<rparr>] [] 0 28]"
  by code_simp

theorem raw_html_alone_witness:
  "''p'' \<notin> set voidElements \<and> TrimSpace ''Body'' \<noteq> []"
  using raw_html_alone [OF raw_parsed, of "''p''" "[(new_attr ''g:unsafe-html'' ''Body'' 3 23)\<lparr>at_Expression := True\<rparr>]" "[]" 0 28
      "(new_attr ''g:unsafe-html'' ''Body'' 3 23)\<lparr>at_Expression := True\<rparr>"]
  by (simp add: in_tree_def new_attr_def)

section \<open>Boundary cases\<close>

text \<open>Backslashes and mixed slashes that a browser reads as two slashes pass the check.\<close>

lemma backslashes_pass:
  "validateSingleURLAttrValue ''href'' [CHR ''/'', CHR 0x5C, CHR ''e''] = Some (URLProtocolRelative ''href'')"
  "validateSingleURLAttrValue ''href'' [CHR 0x5C, CHR 0x5C, CHR ''e''] = None"
  "validateSingleURLAttrValue ''href'' [CHR 0x5C, CHR ''/'', CHR ''e''] = None"
  by code_simp+

text \<open>The product of a long duration wraps around.\<close>

lemma debounce_wraps:
  "map_sum id ev_DebounceMS (ParseEventDirective ''g:on:click.debounce(9223372036854775s)'') = Inr 9223372036854775000"
  "map_sum id ev_DebounceMS (ParseEventDirective ''g:on:click.debounce(9223372036854775807s)'') = Inr (- 1000)"
  by code_simp+

text \<open>The offset of an error in text counts bytes behind an index of runes: it lies behind the whole source.\<close>

lemma error_offset_behind_source:
  "Parse example_lib (concat (replicate 5 [CHR 0xC3, CHR 0xA9]) @ ''{#if'') = Inl (ViewError 10 (Unsupported ConditionalSyntax)) \<and>
   length (runes (concat (replicate 5 [CHR 0xC3, CHR 0xA9]) @ ''{#if'')) = 9"
  by code_simp

text \<open>A class given by an expression loses that it was one, and the blanks of its literals.\<close>

lemma class_expression_joined:
  "normalizeHTMLAttrs [(new_attr ''class'' (''{x + '' @ [CHR 0x22] @ ''a  b'' @ [CHR 0x22] @ ''}'') 0 9)\<lparr>at_Expression := True\<rparr>] =
   Inr [new_attr ''class'' (''{x + '' @ [CHR 0x22] @ ''a b'' @ [CHR 0x22] @ ''}'') 0 0]"
  by code_simp

end
