(* ===== verification/ClientLang.thy ===== *)
theory ClientLang
  imports ExprCheck GoStrings Http
begin

text \<open>
  \<open>internal/clientlang/clientlang.go\<close>, the parser of client blocks: its statements, headers and
  declarations, and the parser of a whole block, line by line. The tables of letters and digits are
  the parameter of the expression parser. The tests of the code on runes only accept ASCII characters,
  so that they are written on bytes.
\<close>

section \<open>Characters and names\<close>

definition isIdentStart :: "char \<Rightarrow> bool" where
  "isIdentStart c \<longleftrightarrow> c = CHR ''_'' \<or> is_upper c \<or> is_lower c"

definition isIdentPart :: "char \<Rightarrow> bool" where
  "isIdentPart c \<longleftrightarrow> isIdentStart c \<or> is_digit c"

definition isSpace :: "char \<Rightarrow> bool" where
  "isSpace c \<longleftrightarrow> c = CHR '' '' \<or> c = CHR 0x09 \<or> c = CHR 0x0A \<or> c = CHR 0x0D"

definition isIdentifier :: "string \<Rightarrow> bool" where
  "isIdentifier v \<longleftrightarrow> (case v of [] \<Rightarrow> False | c # t \<Rightarrow> isIdentStart c \<and> list_all isIdentPart t)"

definition isQualifiedIdentifier :: "string \<Rightarrow> bool" where
  "isQualifiedIdentifier v \<longleftrightarrow> (let parts = Split v CHR ''.'' in length parts \<le> 2 \<and> list_all isIdentifier parts)"

definition isTypeLiteral :: "string \<Rightarrow> bool" where
  "isTypeLiteral v \<longleftrightarrow> v \<noteq> [] \<and> list_all (\<lambda>c. isIdentPart c \<or> c \<in> {CHR ''.'', CHR ''['', CHR '']'', CHR ''*''}) v"

definition isStatementTarget :: "string \<Rightarrow> bool" where
  "isStatementTarget v \<longleftrightarrow> v \<noteq> [] \<and> list_all (\<lambda>c. isIdentPart c \<or> c \<in> {CHR ''.'', CHR ''['', CHR '']''}) v"

definition isSupportedParamType :: "string \<Rightarrow> bool" where
  "isSupportedParamType v \<longleftrightarrow> v \<in> set [''string'', ''int'', ''float'', ''bool'']"

definition isSupportedReturnType :: "string \<Rightarrow> bool" where
  "isSupportedReturnType v = isSupportedParamType v"

definition isReservedFunctionName :: "string \<Rightarrow> bool" where
  "isReservedFunctionName name \<longleftrightarrow>
     name \<in> set [''append'', ''remove'', ''move'', ''clear'', ''len'', ''lower'', ''upper'', ''contains'', ''string'', ''int'',
                 ''float'', ''switch'', ''match'']"

definition isClientFunctionHeaderStart :: "string \<Rightarrow> bool" where
  "isClientFunctionHeaderStart line0 =
     (let line = TrimSpace line0
      in HasPrefix line ''fn '' \<or> HasPrefix line ''func '' \<or> HasPrefix line ''async fn '' \<or> HasPrefix line ''async func '')"

text \<open>The types of the expression language.\<close>

lemma TrimSpace_shorter: "v \<noteq> [] \<Longrightarrow> length (TrimSpace (tl v)) < length v"
  using length_TrimSpace [of "tl v"] by (cases v) auto

function strip_stars :: "string \<Rightarrow> string" where
  "strip_stars v = (case v of [] \<Rightarrow> [] | c # t \<Rightarrow> if c = CHR ''*'' then strip_stars (TrimSpace t) else v)"
  by pat_completeness auto
termination
  by (relation "measure length") (auto simp: le_imp_less_Suc length_TrimSpace)

declare strip_stars.simps [simp del]

definition NormalizeType :: "string \<Rightarrow> ValueType" where
  "NormalizeType v0 =
     (let v = strip_stars (TrimSpace v0)
      in if HasPrefix v ''[]'' \<or> HasPrefix v ''['' then TypeArray
         else if v = ''string'' then TypeString
         else if v \<in> set [''int'', ''int8'', ''int16'', ''int32'', ''int64'', ''uint'', ''uint8'', ''uint16'', ''uint32'', ''uint64'']
           then TypeInt
         else if v \<in> set [''float'', ''float32'', ''float64''] then TypeFloat
         else if v = ''bool'' then TypeBool
         else if CHR ''.'' \<in> set v then TypeObject
         else TypeUnknown)"

definition isSupportedLocalType :: "ValueType \<Rightarrow> bool" where
  "isSupportedLocalType t \<longleftrightarrow> t \<in> {TypeString, TypeInt, TypeFloat, TypeBool}"

section \<open>Lists and calls\<close>

datatype list_error = UnbalancedItem | EmptyItem | UnterminatedItem

definition opens :: "char \<Rightarrow> bool" where
  "opens c \<longleftrightarrow> c \<in> {CHR ''('', CHR ''['', CHR ''{''}"

definition closes :: "char \<Rightarrow> bool" where
  "closes c \<longleftrightarrow> c \<in> {CHR '')'', CHR '']'', CHR ''}''}"

text \<open>The item that is being read is given in reverse.\<close>

fun comma_loop :: "string \<Rightarrow> nat \<Rightarrow> bool \<Rightarrow> bool \<Rightarrow> string \<Rightarrow> list_error + string list" where
  "comma_loop [] depth inString escaped item =
     (if inString then Inl UnterminatedItem
      else if depth \<noteq> 0 then Inl UnbalancedItem
      else if TrimSpace (rev item) = [] then Inl EmptyItem
      else Inr [TrimSpace (rev item)])"
| "comma_loop (c # t) depth inString escaped item =
     (if escaped then comma_loop t depth inString False (c # item)
      else if inString then comma_loop t depth (c \<noteq> CHR 0x22) (c = CHR 0x5C) (c # item)
      else if c = CHR 0x22 then comma_loop t depth True False (c # item)
      else if opens c then comma_loop t (depth + 1) False False (c # item)
      else if closes c then
        (if depth = 0 then Inl UnbalancedItem else comma_loop t (depth - 1) False False (c # item))
      else if c = CHR '','' \<and> depth = 0 then
        (if TrimSpace (rev item) = [] then Inl EmptyItem
         else (case comma_loop t 0 False False [] of
                 Inl err \<Rightarrow> Inl err
               | Inr items \<Rightarrow> Inr (TrimSpace (rev item) # items)))
      else comma_loop t depth False False (c # item))"

definition splitCommaList :: "string \<Rightarrow> list_error + string list" where
  "splitCommaList source = (let s = TrimSpace source in if s = [] then Inr [] else comma_loop s 0 False False [])"

record Call =
  cl_Name :: string
  cl_Args :: "string list"

definition ParseCall :: "string \<Rightarrow> Call option" where
  "ParseCall expr0 =
     (let expr = TrimSpace expr0
      in case index_byte expr CHR ''('' of
           None \<Rightarrow> None
         | Some open \<Rightarrow>
             if open < 1 \<or> \<not> HasSuffix expr '')'' then None
             else
               let name = TrimSpace (take open expr)
               in if \<not> isIdentifier name then None
                  else
                    (case splitCommaList (drop (open + 1) (take (length expr - 1) expr)) of
                       Inl _ \<Rightarrow> None
                     | Inr args \<Rightarrow> Some \<lparr>cl_Name = name, cl_Args = args\<rparr>))"

definition IsFunctionCall :: "string \<Rightarrow> string option" where
  "IsFunctionCall expr = (case ParseCall expr of None \<Rightarrow> None | Some call \<Rightarrow> if cl_Args call \<noteq> [] then None else Some (cl_Name call))"

definition ParseClearStatement :: "string \<Rightarrow> string option" where
  "ParseClearStatement statement =
     (case CutPrefix (TrimSpace (TrimSuffix (TrimSpace statement) '';'')) ''clear '' of
        None \<Rightarrow> None
      | Some rest \<Rightarrow> let name = TrimSpace rest in if isQualifiedIdentifier name then Some name else None)"

definition ParseEmitCall :: "string \<Rightarrow> Call option" where
  "ParseEmitCall expr0 =
     (let expr = TrimSpace expr0
      in if \<not> HasPrefix expr ''emit '' then None else ParseCall (TrimSpace (TrimPrefix expr ''emit '')))"

section \<open>Statements and headers\<close>

record letStatement =
  lt_Name :: string
  lt_Type :: string
  lt_Expr :: string

definition parseLetStatement :: "string \<Rightarrow> letStatement option" where
  "parseLetStatement statement0 =
     (let statement = TrimSpace statement0
      in if \<not> HasPrefix statement ''let '' then None
         else
           (case Cut (TrimSpace (TrimPrefix statement ''let '')) CHR ''='' of
              (left_side, expr, ok) \<Rightarrow>
                if \<not> ok then None
                else
                  (case Fields left_side of
                     [name, ty] \<Rightarrow>
                       if \<not> isIdentifier name \<or> \<not> isIdentifier ty \<or> TrimSpace expr = [] then None
                       else Some \<lparr>lt_Name = name, lt_Type = ty, lt_Expr = TrimSpace expr\<rparr>
                   | _ \<Rightarrow> None)))"

fun inc_dec_loop :: "string list \<Rightarrow> string \<Rightarrow> (string \<times> string) option" where
  "inc_dec_loop [] statement = None"
| "inc_dec_loop (op # ops) statement =
     (if HasSuffix statement op then
        (let target = TrimSpace (TrimSuffix statement op) in if isStatementTarget target then Some (target, op) else None)
      else inc_dec_loop ops statement)"

definition parseIncDecStatement :: "string \<Rightarrow> (string \<times> string) option" where
  "parseIncDecStatement statement = inc_dec_loop [''++'', ''--''] (TrimSpace statement)"

definition parseAssignStatement :: "string \<Rightarrow> (string \<times> string) option" where
  "parseAssignStatement statement =
     (case Cut (TrimSpace statement) CHR ''='' of
        (target0, expr0, ok) \<Rightarrow>
          if \<not> ok \<or> CHR '':'' \<in> set target0 then None
          else
            let target = TrimSpace target0; expr = TrimSpace expr0
            in if target = [] \<or> expr = [] \<or> \<not> isStatementTarget target then None else Some (target, expr))"

definition parseKeywordBlock :: "string \<Rightarrow> string \<Rightarrow> string option" where
  "parseKeywordBlock line0 keyword =
     (let line = TrimSpace line0
      in if \<not> HasSuffix line ''{'' \<or> \<not> HasPrefix line keyword then None
         else if length line > length keyword \<and> \<not> isSpace (line ! length keyword) then None
         else Some (TrimSpace (TrimSuffix (TrimSpace (TrimPrefix line keyword)) ''{'')))"

record functionHeader =
  fh_Name :: string
  fh_Async :: bool
  fh_Params :: string
  fh_ReturnType :: string

text \<open>The header without its braces and keywords, and whether it says \<open>async\<close>.\<close>

definition header_body :: "string \<Rightarrow> (bool \<times> string) option" where
  "header_body line0 =
     (let line1 = TrimSpace line0
      in if \<not> HasSuffix line1 ''{'' then None
         else
           let line2 = TrimSpace (TrimSuffix line1 ''{'');
               async = HasPrefix line2 ''async '';
               line3 = (if async then TrimSpace (TrimPrefix line2 ''async '') else line2)
           in if HasPrefix line3 ''fn '' then Some (async, TrimSpace (TrimPrefix line3 ''fn ''))
              else if HasPrefix line3 ''func '' then Some (async, TrimSpace (TrimPrefix line3 ''func ''))
              else None)"

definition parseFunctionHeader :: "string \<Rightarrow> functionHeader option" where
  "parseFunctionHeader line0 =
     (case header_body line0 of
        None \<Rightarrow> None
      | Some (async, line) \<Rightarrow>
          (case (index_byte line CHR ''('', last_index_byte line CHR '')'') of
             (Some open, Some close) \<Rightarrow>
               if open = 0 \<or> close < open then None
               else
                 let name = TrimSpace (take open line);
                     returnType = TrimSpace (drop (close + 1) line)
                 in if \<not> isIdentifier name then None
                    else if returnType \<noteq> [] \<and> \<not> isIdentifier returnType then None
                    else Some \<lparr>fh_Name = name, fh_Async = async, fh_Params = drop (open + 1) (take close line),
                               fh_ReturnType = returnType\<rparr>
           | _ \<Rightarrow> None))"

definition parseComputedHeader :: "string \<Rightarrow> (string \<times> string) option" where
  "parseComputedHeader line =
     (case parseKeywordBlock line ''computed'' of
        None \<Rightarrow> None
      | Some body \<Rightarrow>
          (case Fields body of
             [name, ty] \<Rightarrow> if isIdentifier name \<and> isTypeLiteral ty then Some (name, ty) else None
           | _ \<Rightarrow> None))"

definition parseEffectHeader :: "string \<Rightarrow> string option" where
  "parseEffectHeader line =
     (case parseKeywordBlock line ''effect'' of
        None \<Rightarrow> None
      | Some body \<Rightarrow>
          if \<not> HasPrefix body ''when '' then None
          else let field = TrimSpace (TrimPrefix body ''when '') in if isIdentifier field then Some field else None)"

definition parseComputedIfHeader :: "string \<Rightarrow> string option" where
  "parseComputedIfHeader line =
     (case parseKeywordBlock line ''if'' of
        None \<Rightarrow> None
      | Some body \<Rightarrow> if TrimSpace body = [] then None else Some (TrimSpace body))"

record Ref =
  rf_Name :: string
  rf_Kind :: string

definition parseRefDeclaration :: "string \<Rightarrow> Ref option" where
  "parseRefDeclaration line =
     (case Fields (TrimSpace line) of
        [keyword, name, kind] \<Rightarrow>
          if keyword = ''ref'' \<and> isIdentifier name \<and> isIdentifier kind then Some \<lparr>rf_Name = name, rf_Kind = kind\<rparr> else None
      | _ \<Rightarrow> None)"

definition parseUseDeclaration :: "string \<Rightarrow> (string \<times> string) option" where
  "parseUseDeclaration line =
     (case Fields (TrimSpace line) of
        [keyword, name] \<Rightarrow> if keyword = ''use'' \<and> isQualifiedIdentifier name then Some (name, []) else None
      | [keyword, name, ty] \<Rightarrow>
          if keyword = ''use'' \<and> isQualifiedIdentifier name \<and> isTypeLiteral ty then Some (name, ty) else None
      | _ \<Rightarrow> None)"

definition parseComputedIfReturn :: "string \<Rightarrow> (string \<times> string) option" where
  "parseComputedIfReturn line0 =
     (let line = TrimSpace line0
      in if \<not> HasPrefix line ''if '' \<or> \<not> HasSuffix line ''}'' then None
         else
           let body = TrimSpace (TrimPrefix line ''if '')
           in case index_byte body CHR ''{'' of
                None \<Rightarrow> None
              | Some open \<Rightarrow>
                  let cond = TrimSpace (take open body);
                      inside = TrimSpace (TrimSuffix (TrimSpace (drop (open + 1) body)) ''}'')
                  in if cond = [] \<or> \<not> HasPrefix inside ''return '' then None
                     else
                       let thenExpr = TrimSpace (TrimPrefix inside ''return '')
                       in if thenExpr = [] then None else Some (cond, thenExpr))"

section \<open>Braces within a line\<close>

fun brace_loop :: "string \<Rightarrow> nat \<Rightarrow> bool \<Rightarrow> bool \<Rightarrow> bool" where
  "brace_loop [] depth inString escaped \<longleftrightarrow> depth = 0 \<and> \<not> inString"
| "brace_loop (c # t) depth inString escaped =
     (if escaped then brace_loop t depth inString False
      else if inString then brace_loop t depth (c \<noteq> CHR 0x22) (c = CHR 0x5C)
      else if c = CHR 0x22 then brace_loop t depth True False
      else if c = CHR ''{'' then brace_loop t (depth + 1) False False
      else if c = CHR ''}'' then (if depth = 0 then False else brace_loop t (depth - 1) False False)
      else brace_loop t depth False False)"

definition balancedInlineBraces :: "string \<Rightarrow> bool" where
  "balancedInlineBraces source = brace_loop source 0 False False"

definition isInlineBraceExpressionStart :: "string \<Rightarrow> bool" where
  "isInlineBraceExpressionStart expr \<longleftrightarrow> HasPrefix expr ''if '' \<or> HasPrefix expr ''switch '' \<or> HasPrefix expr ''match ''"

definition inline_expression :: "unicode \<Rightarrow> string \<Rightarrow> bool" where
  "inline_expression u right_side \<longleftrightarrow>
     isInlineBraceExpressionStart right_side \<and> (case ParseExpr u right_side of Inl _ \<Rightarrow> False | Inr _ \<Rightarrow> True)"

definition append_call :: "string \<Rightarrow> Call option" where
  "append_call statement =
     (case ParseCall statement of
        None \<Rightarrow> None
      | Some call \<Rightarrow> if cl_Name call = ''append'' \<and> length (cl_Args call) = 2 then Some call else None)"

definition allowsInlineBraceExpression :: "unicode \<Rightarrow> string \<Rightarrow> bool" where
  "allowsInlineBraceExpression u statement =
     (if \<not> balancedInlineBraces statement then False
      else
        (case append_call statement of
           Some call \<Rightarrow> HasPrefix (TrimSpace (cl_Args call ! 1)) ''{''
         | None \<Rightarrow>
             (case CutPrefix (TrimSpace statement) ''return '' of
                Some rest \<Rightarrow> inline_expression u (TrimSpace rest)
              | None \<Rightarrow>
                  (case index_byte statement CHR ''='' of
                     None \<Rightarrow> False
                   | Some assign \<Rightarrow> inline_expression u (TrimSpace (drop (assign + 1) statement))))))"

end
