(* ===== verification/ClientProgram.thy ===== *)
theory ClientProgram
  imports ClientLang
begin

text \<open>
  \<open>internal/clientlang/clientlang.go\<close>, client blocks: the program, the parser that reads it line by
  line, and the maps the runtime gets. The two pointers of the parser to the open function and to the
  open lifecycle block, of which at most one is set, are one value of type \<open>open_block\<close>.
\<close>

section \<open>Programs\<close>

record Span =
  StartLine :: nat
  EndLine :: nat

definition line_span :: "nat \<Rightarrow> Span" where
  "line_span n = \<lparr>StartLine = n, EndLine = n\<rparr>"

record Param =
  pm_Name :: string
  pm_Type :: string

record Function =
  fn_Name :: string
  fn_Async :: bool
  fn_Params :: "Param list"
  fn_ReturnType :: string
  fn_Statements :: "string list"
  fn_StatementSpans :: "Span list"
  fn_Span :: Span

record Effect =
  ef_Field :: string
  ef_Statements :: "string list"
  ef_Cleanup :: "string list"
  ef_StatementSpans :: "Span list"
  ef_CleanupSpans :: "Span list"
  ef_Span :: Span

record Computed =
  cm_Name :: string
  cm_Type :: string
  cm_Expr :: string
  cm_Span :: Span
  cm_ExprSpan :: Span

record Use =
  us_Name :: string
  us_PackageAlias :: string
  us_StoreName :: string
  us_Type :: string
  us_Span :: Span

record Program =
  pr_Functions :: "Function list"
  pr_Mount :: "string list"
  pr_MountSpans :: "Span list"
  pr_Destroy :: "string list"
  pr_DestroySpans :: "Span list"
  pr_Effects :: "Effect list"
  pr_Refs :: "Ref list"
  pr_Uses :: "Use list"
  pr_Computed :: "Computed list"

definition no_program :: Program where
  "no_program =
     \<lparr>pr_Functions = [], pr_Mount = [], pr_MountSpans = [], pr_Destroy = [], pr_DestroySpans = [], pr_Effects = [],
      pr_Refs = [], pr_Uses = [], pr_Computed = []\<rparr>"

datatype params_error =
  ParamList list_error | ParamSyntax string | ParamName string | ParamType string | DuplicateParam string

datatype client_msg =
  ReservedName string | FunctionTwice string | FunctionParams string params_error | ReturnTypeUnsupported string string
| AsyncReturns string | ComputedTwice string | RefTwice string | StoreTwice string | LineSyntax string
| CleanupSyntax string | ComputedIfEmpty string | ComputedIfSyntax string string | ComputedIfReturn string
| ComputedIfOnce string | NestedInFunction string | NestedInBlock string | ComputedIfCondition string parse_error
| BlockSyntax string | FunctionUnclosed string | CleanupUnclosed | ComputedIfUnclosed string | BlockUnclosed string
| ReturnWithoutType string | HelperEmpty string | HelperAwait string | HelperStatement string
| HelperLocalType string string string | HelperNoReturn string | HelperReturnEmpty string
| ComputedReturn string | ComputedReturnEmpty string | ComputedShape string

datatype client_error = ParseError nat client_msg

section \<open>Functions\<close>

fun params_loop :: "string list \<Rightarrow> string list \<Rightarrow> params_error + Param list" where
  "params_loop [] seen = Inr []"
| "params_loop (item # items) seen =
     (case Fields item of
        [name, ty] \<Rightarrow>
          if \<not> isIdentifier name then Inl (ParamName name)
          else if \<not> isSupportedParamType ty then Inl (ParamType ty)
          else if name \<in> set seen then Inl (DuplicateParam name)
          else (case params_loop items (name # seen) of
                  Inl err \<Rightarrow> Inl err
                | Inr params \<Rightarrow> Inr (\<lparr>pm_Name = name, pm_Type = ty\<rparr> # params))
      | _ \<Rightarrow> Inl (ParamSyntax item))"

definition parseParams :: "string \<Rightarrow> params_error + Param list" where
  "parseParams source =
     (case splitCommaList source of Inl err \<Rightarrow> Inl (ParamList err) | Inr items \<Rightarrow> params_loop items [])"

definition functionStatementLine :: "Function \<Rightarrow> nat \<Rightarrow> nat" where
  "functionStatementLine f i =
     (if i < length (fn_StatementSpans f) then StartLine (fn_StatementSpans f ! i) else StartLine (fn_Span f))"

text \<open>\<open>validateFunctionReturnShape\<close>: the statements in front of the last one, from an index.\<close>

fun no_return_loop :: "Function \<Rightarrow> nat \<Rightarrow> string list \<Rightarrow> client_error option" where
  "no_return_loop f i [] = None"
| "no_return_loop f i (s # ss) =
     (if HasPrefix (TrimSpace s) ''return '' then Some (ParseError (functionStatementLine f i) (ReturnWithoutType (fn_Name f)))
      else no_return_loop f (i + 1) ss)"

fun locals_loop :: "Function \<Rightarrow> nat \<Rightarrow> string list \<Rightarrow> client_error option" where
  "locals_loop f i [] = None"
| "locals_loop f i (s # ss) =
     (if Contains (TrimSpace s) ''await '' then Some (ParseError (functionStatementLine f i) (HelperAwait (fn_Name f)))
      else
        (case parseLetStatement (TrimSpace s) of
           None \<Rightarrow> Some (ParseError (functionStatementLine f i) (HelperStatement (fn_Name f)))
         | Some l \<Rightarrow>
             if \<not> isSupportedLocalType (NormalizeType (lt_Type l))
             then Some (ParseError (functionStatementLine f i) (HelperLocalType (fn_Name f) (lt_Name l) (lt_Type l)))
             else locals_loop f (i + 1) ss))"

definition validateFunctionReturnShape :: "Function \<Rightarrow> client_error option" where
  "validateFunctionReturnShape f =
     (let ss = fn_Statements f; n = length ss
      in if fn_ReturnType f = [] then no_return_loop f 0 ss
         else if ss = [] then Some (ParseError (StartLine (fn_Span f)) (HelperEmpty (fn_Name f)))
         else
           (case locals_loop f 0 (butlast ss) of
              Some err \<Rightarrow> Some err
            | None \<Rightarrow>
                let s = TrimSpace (last ss)
                in if \<not> HasPrefix s ''return '' then Some (ParseError (functionStatementLine f (n - 1)) (HelperNoReturn (fn_Name f)))
                   else if TrimSpace (TrimPrefix s ''return '') = []
                     then Some (ParseError (functionStatementLine f (n - 1)) (HelperReturnEmpty (fn_Name f)))
                   else None))"

section \<open>Lifecycle blocks\<close>

record computedIfBlock =
  ci_Cond :: string
  ci_Return :: string
  ci_ReturnSpan :: Span
  ci_Span :: Span

record lifecycleBlock =
  lb_Kind :: string
  lb_Field :: string
  lb_Type :: string
  lb_Statements :: "string list"
  lb_StatementSpans :: "Span list"
  lb_Cleanup :: bool
  lb_CleanupStatements :: "string list"
  lb_CleanupSpans :: "Span list"
  lb_ComputedIf :: "computedIfBlock option"
  lb_Span :: Span

definition new_block :: "string \<Rightarrow> string \<Rightarrow> string \<Rightarrow> nat \<Rightarrow> lifecycleBlock" where
  "new_block kind field ty n =
     \<lparr>lb_Kind = kind, lb_Field = field, lb_Type = ty, lb_Statements = [], lb_StatementSpans = [], lb_Cleanup = False,
      lb_CleanupStatements = [], lb_CleanupSpans = [], lb_ComputedIf = None, lb_Span = line_span n\<rparr>"

definition Description :: "lifecycleBlock \<Rightarrow> string" where
  "Description b =
     (if lb_Kind b = ''computed'' then ''computed''
      else if lb_Kind b = ''effect'' then ''effect''
      else ''on '' @ lb_Kind b)"

definition lifecycleStatementLine :: "lifecycleBlock \<Rightarrow> nat \<Rightarrow> nat" where
  "lifecycleStatementLine b i =
     (if i < length (lb_StatementSpans b) then StartLine (lb_StatementSpans b ! i) else StartLine (lb_Span b))"

definition first_span :: "Span list \<Rightarrow> Span" where
  "first_span spans = (case spans of [] \<Rightarrow> \<lparr>StartLine = 0, EndLine = 0\<rparr> | s # _ \<Rightarrow> s)"

definition if_return_pair :: "string list \<Rightarrow> (string \<times> string \<times> string) option" where
  "if_return_pair statements =
     (case statements of
        [s1, s2] \<Rightarrow>
          (case parseComputedIfReturn (TrimSpace s1) of
             Some (cond, thenExpr) \<Rightarrow>
               if HasPrefix (TrimSpace s2) ''return ''
               then Some (cond, thenExpr, TrimSpace (TrimPrefix (TrimSpace s2) ''return '')) else None
           | None \<Rightarrow> None)
      | _ \<Rightarrow> None)"

definition computedReturnExpr :: "lifecycleBlock \<Rightarrow> client_error + string \<times> Span" where
  "computedReturnExpr b =
     (case lb_Statements b of
        [s0] \<Rightarrow>
          let s = TrimSpace s0
          in if \<not> HasPrefix s ''return '' then Inl (ParseError (lifecycleStatementLine b 0) (ComputedReturn (lb_Field b)))
             else
               let expr = TrimSpace (TrimPrefix s ''return '')
               in if expr = [] then Inl (ParseError (lifecycleStatementLine b 0) (ComputedReturnEmpty (lb_Field b)))
                  else Inr (expr, first_span (lb_StatementSpans b))
      | _ \<Rightarrow>
          (case if_return_pair (lb_Statements b) of
             Some (cond, thenExpr, elseExpr) \<Rightarrow>
               if elseExpr = [] then Inl (ParseError (lifecycleStatementLine b 1) (ComputedReturnEmpty (lb_Field b)))
               else Inr (''if '' @ cond @ '' { '' @ thenExpr @ '' } else { '' @ elseExpr @ '' }'',
                         first_span (lb_StatementSpans b))
           | None \<Rightarrow> Inl (ParseError (StartLine (lb_Span b)) (ComputedShape (lb_Field b)))))"

section \<open>Lines\<close>

datatype open_block = Outside | InFunction Function | InLifecycle lifecycleBlock

record client_parser =
  cp_program :: Program
  cp_block :: open_block
  cp_seen :: "string list"
  cp_seenRefs :: "string list"
  cp_seenUses :: "string list"

definition open_function :: "nat \<Rightarrow> functionHeader \<Rightarrow> client_parser \<Rightarrow> client_error + client_parser" where
  "open_function n header st =
     (let name = fh_Name header; returnType = TrimSpace (fh_ReturnType header)
      in if isReservedFunctionName name then Inl (ParseError n (ReservedName name))
         else if name \<in> set (cp_seen st) then Inl (ParseError n (FunctionTwice name))
         else
           (case parseParams (fh_Params header) of
              Inl err \<Rightarrow> Inl (ParseError n (FunctionParams name err))
            | Inr params \<Rightarrow>
                if returnType \<noteq> [] \<and> \<not> isSupportedReturnType returnType
                then Inl (ParseError n (ReturnTypeUnsupported name returnType))
                else if fh_Async header \<and> returnType \<noteq> [] then Inl (ParseError n (AsyncReturns name))
                else
                  Inr (st\<lparr>cp_seen := name # cp_seen st,
                          cp_block := InFunction \<lparr>fn_Name = name, fn_Async = fh_Async header, fn_Params = params,
                            fn_ReturnType = returnType, fn_Statements = [], fn_StatementSpans = [], fn_Span = line_span n\<rparr>\<rparr>)))"

definition new_use :: "nat \<Rightarrow> string \<Rightarrow> string \<Rightarrow> Use" where
  "new_use n name ty =
     (case Cut name CHR ''.'' of
        (alias, store, found) \<Rightarrow>
          \<lparr>us_Name = name, us_PackageAlias = (if found then alias else []), us_StoreName = (if found then store else name),
           us_Type = ty, us_Span = line_span n\<rparr>)"

definition add_ref :: "Ref \<Rightarrow> client_parser \<Rightarrow> client_parser" where
  "add_ref r st =
     st\<lparr>cp_seenRefs := rf_Name r # cp_seenRefs st,
        cp_program := (cp_program st)\<lparr>pr_Refs := pr_Refs (cp_program st) @ [r]\<rparr>\<rparr>"

definition add_use :: "Use \<Rightarrow> client_parser \<Rightarrow> client_parser" where
  "add_use u st =
     st\<lparr>cp_seenUses := us_Name u # cp_seenUses st,
        cp_program := (cp_program st)\<lparr>pr_Uses := pr_Uses (cp_program st) @ [u]\<rparr>\<rparr>"

text \<open>A line outside of every block.\<close>

definition declaration_line :: "nat \<Rightarrow> string \<Rightarrow> client_parser \<Rightarrow> client_error + client_parser" where
  "declaration_line n line st =
     (case parseRefDeclaration line of
        Some r \<Rightarrow> if rf_Name r \<in> set (cp_seenRefs st) then Inl (ParseError n (RefTwice (rf_Name r))) else Inr (add_ref r st)
      | None \<Rightarrow>
          (case parseUseDeclaration line of
             Some (name, ty) \<Rightarrow>
               if name \<in> set (cp_seenUses st) then Inl (ParseError n (StoreTwice name)) else Inr (add_use (new_use n name ty) st)
           | None \<Rightarrow> Inl (ParseError n (LineSyntax line))))"

definition top_line :: "nat \<Rightarrow> string \<Rightarrow> client_parser \<Rightarrow> client_error + client_parser" where
  "top_line n line st =
     (case parseFunctionHeader line of
        Some header \<Rightarrow> open_function n header st
      | None \<Rightarrow>
          if line = ''on mount {'' then Inr (st\<lparr>cp_block := InLifecycle (new_block ''mount'' [] [] n)\<rparr>)
          else if line = ''on destroy {'' then Inr (st\<lparr>cp_block := InLifecycle (new_block ''destroy'' [] [] n)\<rparr>)
          else
            (case parseEffectHeader line of
               Some field \<Rightarrow> Inr (st\<lparr>cp_block := InLifecycle (new_block ''effect'' field [] n)\<rparr>)
             | None \<Rightarrow>
                 (case parseComputedHeader line of
                    Some (name, ty) \<Rightarrow>
                      if name \<in> set (cp_seen st) then Inl (ParseError n (ComputedTwice name))
                      else Inr (st\<lparr>cp_seen := name # cp_seen st, cp_block := InLifecycle (new_block ''computed'' name ty n)\<rparr>)
                  | None \<Rightarrow> declaration_line n line st)))"

definition statement_of :: "string \<Rightarrow> string" where
  "statement_of line = TrimSpace (TrimSuffix line '';'')"

definition bad_braces :: "unicode \<Rightarrow> string \<Rightarrow> bool" where
  "bad_braces u line \<longleftrightarrow> ContainsAny line ''{}'' \<and> \<not> allowsInlineBraceExpression u line"

definition function_line :: "unicode \<Rightarrow> nat \<Rightarrow> string \<Rightarrow> Function \<Rightarrow> client_parser \<Rightarrow> client_error + client_parser" where
  "function_line u n line f st =
     (if line = ''}'' then
        (case validateFunctionReturnShape f of
           Some err \<Rightarrow> Inl err
         | None \<Rightarrow>
             let done = f\<lparr>fn_Span := (fn_Span f)\<lparr>EndLine := n\<rparr>\<rparr>
             in Inr (st\<lparr>cp_block := Outside,
                        cp_program := (cp_program st)\<lparr>pr_Functions := pr_Functions (cp_program st) @ [done]\<rparr>\<rparr>))
      else if isClientFunctionHeaderStart line then Inl (ParseError n (NestedInFunction (fn_Name f)))
      else if bad_braces u line then Inl (ParseError n (BlockSyntax line))
      else if statement_of line = [] then Inr st
      else
        Inr (st\<lparr>cp_block := InFunction (f\<lparr>fn_Statements := fn_Statements f @ [statement_of line],
                                         fn_StatementSpans := fn_StatementSpans f @ [line_span n]\<rparr>)\<rparr>))"

definition cleanup_line :: "unicode \<Rightarrow> nat \<Rightarrow> string \<Rightarrow> lifecycleBlock \<Rightarrow> client_error + lifecycleBlock" where
  "cleanup_line u n line b =
     (if line = ''}'' then Inr (b\<lparr>lb_Cleanup := False\<rparr>)
      else if bad_braces u line then Inl (ParseError n (CleanupSyntax line))
      else if statement_of line = [] then Inr b
      else Inr (b\<lparr>lb_CleanupStatements := lb_CleanupStatements b @ [statement_of line],
                  lb_CleanupSpans := lb_CleanupSpans b @ [line_span n]\<rparr>))"

definition computed_if_line ::
    "unicode \<Rightarrow> nat \<Rightarrow> string \<Rightarrow> computedIfBlock \<Rightarrow> lifecycleBlock \<Rightarrow> client_error + lifecycleBlock" where
  "computed_if_line u n line c b =
     (if line = ''}'' then
        (if ci_Return c = [] then Inl (ParseError (StartLine (ci_Span c)) (ComputedIfEmpty (lb_Field b)))
         else Inr (b\<lparr>lb_Statements := lb_Statements b @ [''if '' @ ci_Cond c @ '' { return '' @ ci_Return c @ '' }''],
                     lb_StatementSpans := lb_StatementSpans b @ [ci_Span c], lb_ComputedIf := None\<rparr>))
      else
        let statement = statement_of line
        in if bad_braces u statement then Inl (ParseError n (ComputedIfSyntax (lb_Field b) line))
           else if \<not> HasPrefix statement ''return '' then Inl (ParseError n (ComputedIfReturn (lb_Field b)))
           else if ci_Return c \<noteq> [] then Inl (ParseError n (ComputedIfOnce (lb_Field b)))
           else
             let expr = TrimSpace (TrimPrefix statement ''return '')
             in if expr = [] then Inl (ParseError n (ComputedIfEmpty (lb_Field b)))
                else Inr (b\<lparr>lb_ComputedIf := Some (c\<lparr>ci_Return := expr, ci_ReturnSpan := line_span n\<rparr>)\<rparr>))"

definition block_effect :: "lifecycleBlock \<Rightarrow> Effect" where
  "block_effect b =
     \<lparr>ef_Field = lb_Field b, ef_Statements = lb_Statements b, ef_Cleanup = lb_CleanupStatements b,
      ef_StatementSpans = lb_StatementSpans b, ef_CleanupSpans = lb_CleanupSpans b, ef_Span = lb_Span b\<rparr>"

definition close_block :: "lifecycleBlock \<Rightarrow> Program \<Rightarrow> client_error + Program" where
  "close_block b p =
     (if lb_Kind b = ''mount'' then
        Inr (p\<lparr>pr_Mount := pr_Mount p @ lb_Statements b, pr_MountSpans := pr_MountSpans p @ lb_StatementSpans b\<rparr>)
      else if lb_Kind b = ''destroy'' then
        Inr (p\<lparr>pr_Destroy := pr_Destroy p @ lb_Statements b, pr_DestroySpans := pr_DestroySpans p @ lb_StatementSpans b\<rparr>)
      else if lb_Kind b = ''effect'' then Inr (p\<lparr>pr_Effects := pr_Effects p @ [block_effect b]\<rparr>)
      else if lb_Kind b = ''computed'' then
        (case computedReturnExpr b of
           Inl err \<Rightarrow> Inl err
         | Inr (expr, exprSpan) \<Rightarrow>
             Inr (p\<lparr>pr_Computed := pr_Computed p @ [\<lparr>cm_Name = lb_Field b, cm_Type = lb_Type b, cm_Expr = expr,
                                                    cm_Span = lb_Span b, cm_ExprSpan = exprSpan\<rparr>]\<rparr>))
      else Inr p)"

text \<open>A line of a lifecycle block that is neither in its cleanup nor in an if, and does not close it.\<close>

definition body_line :: "unicode \<Rightarrow> nat \<Rightarrow> string \<Rightarrow> lifecycleBlock \<Rightarrow> client_error + lifecycleBlock" where
  "body_line u n line b =
     (if isClientFunctionHeaderStart line then Inl (ParseError n (NestedInBlock (Description b)))
      else
        (case (if lb_Kind b = ''computed'' then parseComputedIfHeader line else None) of
           Some cond \<Rightarrow>
             (case ParseExpr u cond of
                Inl err \<Rightarrow> Inl (ParseError n (ComputedIfCondition (lb_Field b) err))
              | Inr _ \<Rightarrow>
                  Inr (b\<lparr>lb_ComputedIf :=
                        Some \<lparr>ci_Cond = cond, ci_Return = [], ci_ReturnSpan = \<lparr>StartLine = 0, EndLine = 0\<rparr>, ci_Span = line_span n\<rparr>\<rparr>))
         | None \<Rightarrow>
             if bad_braces u line then Inl (ParseError n (BlockSyntax line))
             else if statement_of line = [] then Inr b
             else Inr (b\<lparr>lb_Statements := lb_Statements b @ [statement_of line],
                         lb_StatementSpans := lb_StatementSpans b @ [line_span n]\<rparr>)))"

definition keep_block :: "client_parser \<Rightarrow> client_error + lifecycleBlock \<Rightarrow> client_error + client_parser" where
  "keep_block st r = (case r of Inl err \<Rightarrow> Inl err | Inr b \<Rightarrow> Inr (st\<lparr>cp_block := InLifecycle b\<rparr>))"

definition lifecycle_line ::
    "unicode \<Rightarrow> nat \<Rightarrow> string \<Rightarrow> lifecycleBlock \<Rightarrow> client_parser \<Rightarrow> client_error + client_parser" where
  "lifecycle_line u n line b st =
     (if lb_Cleanup b then keep_block st (cleanup_line u n line b)
      else
        (case (if lb_Kind b = ''computed'' then lb_ComputedIf b else None) of
           Some c \<Rightarrow> keep_block st (computed_if_line u n line c b)
         | None \<Rightarrow>
             if lb_Kind b = ''effect'' \<and> line = ''return {'' then Inr (st\<lparr>cp_block := InLifecycle (b\<lparr>lb_Cleanup := True\<rparr>)\<rparr>)
             else if line = ''}'' then
               (case close_block (b\<lparr>lb_Span := (lb_Span b)\<lparr>EndLine := n\<rparr>\<rparr>) (cp_program st) of
                  Inl err \<Rightarrow> Inl err
                | Inr p \<Rightarrow> Inr (st\<lparr>cp_program := p, cp_block := Outside\<rparr>))
             else keep_block st (body_line u n line b)))"

definition parse_line :: "unicode \<Rightarrow> nat \<Rightarrow> string \<Rightarrow> client_parser \<Rightarrow> client_error + client_parser" where
  "parse_line u n rawLine st =
     (let line = TrimSpace rawLine
      in if line = [] \<or> HasPrefix line ''//'' then Inr st
         else
           (case cp_block st of
              Outside \<Rightarrow> top_line n line st
            | InFunction f \<Rightarrow> function_line u n line f st
            | InLifecycle b \<Rightarrow> lifecycle_line u n line b st))"

text \<open>Lines are counted from 1.\<close>

fun parse_lines :: "unicode \<Rightarrow> nat \<Rightarrow> string list \<Rightarrow> client_parser \<Rightarrow> client_error + client_parser" where
  "parse_lines u n [] st = Inr st"
| "parse_lines u n (line # rest) st =
     (case parse_line u n line st of Inl err \<Rightarrow> Inl err | Inr st' \<Rightarrow> parse_lines u (n + 1) rest st')"

definition unclosed :: "open_block \<Rightarrow> client_error option" where
  "unclosed block =
     (case block of
        Outside \<Rightarrow> None
      | InFunction f \<Rightarrow> Some (ParseError (StartLine (fn_Span f)) (FunctionUnclosed (fn_Name f)))
      | InLifecycle b \<Rightarrow>
          Some (if lb_Cleanup b then ParseError (StartLine (lb_Span b)) CleanupUnclosed
                else (case lb_ComputedIf b of
                        Some c \<Rightarrow> ParseError (StartLine (ci_Span c)) (ComputedIfUnclosed (lb_Field b))
                      | None \<Rightarrow> ParseError (StartLine (lb_Span b)) (BlockUnclosed (Description b)))))"

definition Parse :: "unicode \<Rightarrow> string \<Rightarrow> client_error + Program" where
  "Parse u source =
     (case parse_lines u 1 (Split source CHR 0x0A)
             \<lparr>cp_program = no_program, cp_block = Outside, cp_seen = [], cp_seenRefs = [], cp_seenUses = []\<rparr> of
        Inl err \<Rightarrow> Inl err
      | Inr st \<Rightarrow> (case unclosed (cp_block st) of Some err \<Rightarrow> Inl err | None \<Rightarrow> Inr (cp_program st)))"

section \<open>What a parsed program satisfies\<close>

text \<open>A handler returns nothing; a helper is a list of typed locals in front of one return.\<close>

definition local_statement :: "string \<Rightarrow> bool" where
  "local_statement s \<longleftrightarrow>
     \<not> Contains (TrimSpace s) ''await '' \<and>
     (case parseLetStatement (TrimSpace s) of None \<Rightarrow> False | Some l \<Rightarrow> isSupportedLocalType (NormalizeType (lt_Type l)))"

definition return_statement :: "string \<Rightarrow> bool" where
  "return_statement s \<longleftrightarrow> HasPrefix (TrimSpace s) ''return '' \<and> TrimSpace (TrimPrefix (TrimSpace s) ''return '') \<noteq> []"

definition return_shape :: "string \<Rightarrow> string list \<Rightarrow> bool" where
  "return_shape returnType ss \<longleftrightarrow>
     (if returnType = [] then list_all (\<lambda>s. \<not> HasPrefix (TrimSpace s) ''return '') ss
      else ss \<noteq> [] \<and> list_all local_statement (butlast ss) \<and> return_statement (last ss))"

lemma no_return_loop_None: "no_return_loop f i ss = None \<longleftrightarrow> list_all (\<lambda>s. \<not> HasPrefix (TrimSpace s) ''return '') ss"
  by (induction ss arbitrary: i) auto

lemma locals_loop_None: "locals_loop f i ss = None \<longleftrightarrow> list_all local_statement ss"
  by (induction ss arbitrary: i) (auto simp: local_statement_def split: option.splits)

lemma validateFunctionReturnShape_None:
  "validateFunctionReturnShape f = None \<longleftrightarrow> return_shape (fn_ReturnType f) (fn_Statements f)"
  using locals_loop_None [of f 0 "butlast (fn_Statements f)"]
  by (cases "locals_loop f 0 (butlast (fn_Statements f))")
    (auto simp: validateFunctionReturnShape_def return_shape_def return_statement_def no_return_loop_None Let_def)

text \<open>The statements of a block have the lines of strictly increasing numbers behind its first line.\<close>

definition numbered :: "nat \<Rightarrow> string list \<Rightarrow> Span list \<Rightarrow> nat \<Rightarrow> bool" where
  "numbered lo ss spans hi \<longleftrightarrow>
     length spans = length ss \<and> [] \<notin> set ss \<and> sorted_wrt (<) (lo # map StartLine spans @ [hi])"

lemma numbered_Nil [simp]: "numbered lo [] [] hi \<longleftrightarrow> lo < hi"
  by (simp add: numbered_def)

lemma numbered_wide: "numbered lo ss spans hi \<Longrightarrow> hi \<le> hi' \<Longrightarrow> numbered lo ss spans hi'"
  by (auto simp: numbered_def sorted_wrt_append)

lemma numbered_snoc: "numbered lo ss spans hi \<Longrightarrow> s \<noteq> [] \<Longrightarrow> numbered lo (ss @ [s]) (spans @ [line_span hi]) (hi + 1)"
  by (auto simp: numbered_def sorted_wrt_append line_span_def)

lemma numbered_less: "numbered lo ss spans hi \<Longrightarrow> lo < hi"
  by (simp add: numbered_def)

definition signature_ok :: "Function \<Rightarrow> bool" where
  "signature_ok f \<longleftrightarrow>
     isIdentifier (fn_Name f) \<and> \<not> isReservedFunctionName (fn_Name f) \<and>
     distinct (map pm_Name (fn_Params f)) \<and>
     list_all (\<lambda>p. isIdentifier (pm_Name p) \<and> isSupportedParamType (pm_Type p)) (fn_Params f) \<and>
     (fn_ReturnType f = [] \<or> isSupportedReturnType (fn_ReturnType f) \<and> \<not> fn_Async f)"

definition function_ok :: "Function \<Rightarrow> bool" where
  "function_ok f \<longleftrightarrow>
     signature_ok f \<and> return_shape (fn_ReturnType f) (fn_Statements f) \<and>
     numbered (StartLine (fn_Span f)) (fn_Statements f) (fn_StatementSpans f) (EndLine (fn_Span f))"

definition effect_ok :: "Effect \<Rightarrow> bool" where
  "effect_ok e \<longleftrightarrow>
     isIdentifier (ef_Field e) \<and>
     numbered (StartLine (ef_Span e)) (ef_Statements e) (ef_StatementSpans e) (EndLine (ef_Span e)) \<and>
     numbered (StartLine (ef_Span e)) (ef_Cleanup e) (ef_CleanupSpans e) (EndLine (ef_Span e))"

definition computed_ok :: "Computed \<Rightarrow> bool" where
  "computed_ok c \<longleftrightarrow>
     isIdentifier (cm_Name c) \<and> isTypeLiteral (cm_Type c) \<and> cm_Expr c \<noteq> [] \<and>
     StartLine (cm_Span c) < StartLine (cm_ExprSpan c) \<and> StartLine (cm_ExprSpan c) < EndLine (cm_Span c)"

definition declared_names :: "Program \<Rightarrow> string list" where
  "declared_names p = map fn_Name (pr_Functions p) @ map cm_Name (pr_Computed p)"

definition program_ok :: "Program \<Rightarrow> bool" where
  "program_ok p \<longleftrightarrow>
     list_all function_ok (pr_Functions p) \<and> list_all effect_ok (pr_Effects p) \<and> list_all computed_ok (pr_Computed p) \<and>
     distinct (declared_names p) \<and> distinct (map rf_Name (pr_Refs p)) \<and> distinct (map us_Name (pr_Uses p)) \<and>
     sorted_wrt (\<lambda>f g. EndLine (fn_Span f) < StartLine (fn_Span g)) (pr_Functions p) \<and>
     length (pr_MountSpans p) = length (pr_Mount p) \<and> length (pr_DestroySpans p) = length (pr_Destroy p)"

text \<open>The parser in front of line \<open>n\<close>.\<close>

definition block_ok :: "nat \<Rightarrow> lifecycleBlock \<Rightarrow> bool" where
  "block_ok n b \<longleftrightarrow>
     lb_Kind b \<in> {''mount'', ''destroy'', ''effect'', ''computed''} \<and>
     numbered (StartLine (lb_Span b)) (lb_CleanupStatements b) (lb_CleanupSpans b) n \<and>
     (lb_Kind b = ''effect'' \<longrightarrow> isIdentifier (lb_Field b)) \<and>
     (lb_Kind b = ''computed'' \<longrightarrow> isIdentifier (lb_Field b) \<and> isTypeLiteral (lb_Type b)) \<and>
     (case lb_ComputedIf b of
        None \<Rightarrow> numbered (StartLine (lb_Span b)) (lb_Statements b) (lb_StatementSpans b) n
      | Some c \<Rightarrow> lb_Kind b = ''computed'' \<and>
          numbered (StartLine (lb_Span b)) (lb_Statements b) (lb_StatementSpans b) (StartLine (ci_Span c)) \<and> StartLine (ci_Span c) < n)"

definition open_ok :: "nat \<Rightarrow> client_parser \<Rightarrow> bool" where
  "open_ok n st \<longleftrightarrow>
     (case cp_block st of
        Outside \<Rightarrow> True
      | InFunction f \<Rightarrow>
          signature_ok f \<and> numbered (StartLine (fn_Span f)) (fn_Statements f) (fn_StatementSpans f) n \<and>
          fn_Name f \<in> set (cp_seen st) \<and> fn_Name f \<notin> set (declared_names (cp_program st)) \<and>
          (\<forall>g\<in>set (pr_Functions (cp_program st)). EndLine (fn_Span g) < StartLine (fn_Span f))
      | InLifecycle b \<Rightarrow>
          block_ok n b \<and>
          (lb_Kind b = ''computed'' \<longrightarrow> lb_Field b \<in> set (cp_seen st) \<and> lb_Field b \<notin> set (declared_names (cp_program st))))"

definition functions_before :: "nat \<Rightarrow> Program \<Rightarrow> bool" where
  "functions_before n p \<longleftrightarrow> (\<forall>g\<in>set (pr_Functions p). EndLine (fn_Span g) < n)"

definition seen_ok :: "client_parser \<Rightarrow> bool" where
  "seen_ok st \<longleftrightarrow>
     set (declared_names (cp_program st)) \<subseteq> set (cp_seen st) \<and>
     set (map rf_Name (pr_Refs (cp_program st))) \<subseteq> set (cp_seenRefs st) \<and>
     set (map us_Name (pr_Uses (cp_program st))) \<subseteq> set (cp_seenUses st)"

definition parser_ok :: "nat \<Rightarrow> client_parser \<Rightarrow> bool" where
  "parser_ok n st \<longleftrightarrow> program_ok (cp_program st) \<and> open_ok n st \<and> functions_before n (cp_program st) \<and> seen_ok st"

lemma functions_before_Suc: "functions_before n p \<Longrightarrow> functions_before (Suc n) p"
  by (auto simp: functions_before_def less_SucI)

lemma params_loop_ok:
  "params_loop items seen = Inr params \<Longrightarrow>
   distinct (map pm_Name params) \<and> set (map pm_Name params) \<inter> set seen = {} \<and>
   list_all (\<lambda>p. isIdentifier (pm_Name p) \<and> isSupportedParamType (pm_Type p)) params"
  by (induction items seen arbitrary: params rule: params_loop.induct) (auto split: list.splits if_splits sum.splits, fastforce+)

lemma parseParams_ok:
  "parseParams source = Inr params \<Longrightarrow>
   distinct (map pm_Name params) \<and> list_all (\<lambda>p. isIdentifier (pm_Name p) \<and> isSupportedParamType (pm_Type p)) params"
  using params_loop_ok by (auto simp: parseParams_def split: sum.splits)

lemma parseFunctionHeader_name: "parseFunctionHeader line = Some h \<Longrightarrow> isIdentifier (fh_Name h)"
  by (auto simp: parseFunctionHeader_def Let_def split: option.splits prod.splits if_splits)

lemma open_function_ok:
  assumes ok: "parser_ok n st" and fn: "open_function n h st = Inr st'" and name: "isIdentifier (fh_Name h)"
  shows "parser_ok (n + 1) st'"
proof -
  from fn obtain params f where f: "parseParams (fh_Params h) = Inr params"
    "f = \<lparr>fn_Name = fh_Name h, fn_Async = fh_Async h, fn_Params = params, fn_ReturnType = TrimSpace (fh_ReturnType h),
          fn_Statements = [], fn_StatementSpans = [], fn_Span = line_span n\<rparr>"
    "fh_Name h \<notin> set (cp_seen st)" "\<not> isReservedFunctionName (fh_Name h)"
    "TrimSpace (fh_ReturnType h) = [] \<or> isSupportedReturnType (TrimSpace (fh_ReturnType h)) \<and> \<not> fh_Async h"
    "st' = st\<lparr>cp_seen := fh_Name h # cp_seen st, cp_block := InFunction f\<rparr>"
    by (auto simp: open_function_def Let_def split: if_splits sum.splits)
  then have "signature_ok f" using name parseParams_ok [OF f(1)] by (auto simp: signature_ok_def)
  moreover have "seen_ok st'" using ok f(6) by (auto simp: parser_ok_def seen_ok_def)
  moreover have "fh_Name h \<notin> set (declared_names (cp_program st))" using ok f(3) by (auto simp: parser_ok_def seen_ok_def)
  ultimately show ?thesis
    using ok f(2,6) by (auto simp: parser_ok_def open_ok_def functions_before_def line_span_def functions_before_Suc less_SucI)
qed

lemma block_ok_new:
  "block_ok (n + 1) (new_block kind field ty n) \<longleftrightarrow>
     kind \<in> {''mount'', ''destroy'', ''effect'', ''computed''} \<and> (kind = ''effect'' \<longrightarrow> isIdentifier field) \<and>
     (kind = ''computed'' \<longrightarrow> isIdentifier field \<and> isTypeLiteral ty)"
  by (auto simp: block_ok_def new_block_def line_span_def)

lemma open_block_ok:
  assumes "parser_ok n st" "block_ok (n + 1) b" "set (cp_seen st) \<subseteq> set seen"
    and "lb_Kind b = ''computed'' \<longrightarrow> lb_Field b \<in> set seen \<and> lb_Field b \<notin> set (declared_names (cp_program st))"
  shows "parser_ok (n + 1) (st\<lparr>cp_seen := seen, cp_block := InLifecycle b\<rparr>)"
  using assms by (auto simp: parser_ok_def open_ok_def seen_ok_def functions_before_Suc)

lemma declaration_line_ok:
  assumes ok: "parser_ok n st" and "cp_block st = Outside" and line: "declaration_line n line st = Inr st'"
  shows "parser_ok (n + 1) st'"
proof -
  consider (ref) r where "rf_Name r \<notin> set (cp_seenRefs st)" "st' = add_ref r st"
    | (use) name ty where "name \<notin> set (cp_seenUses st)" "st' = add_use (new_use n name ty) st"
    using line by (auto simp: declaration_line_def split: option.splits if_splits)
  then show ?thesis
  proof cases
    case ref
    then have "rf_Name r \<notin> rf_Name ` set (pr_Refs (cp_program st))" using ok by (auto simp: parser_ok_def seen_ok_def)
    with ok ref assms(2) functions_before_Suc [of n "cp_program st"] show ?thesis
      by (auto simp: parser_ok_def open_ok_def add_ref_def program_ok_def seen_ok_def declared_names_def functions_before_def)
  next
    case use
    have name: "us_Name (new_use n name ty) = name" by (simp add: new_use_def split: prod.splits)
    from use have "name \<notin> us_Name ` set (pr_Uses (cp_program st))" using ok by (auto simp: parser_ok_def seen_ok_def)
    with ok use assms(2) functions_before_Suc [of n "cp_program st"] show ?thesis
      by (auto simp: parser_ok_def open_ok_def add_use_def name program_ok_def seen_ok_def declared_names_def functions_before_def)
  qed
qed

lemma header_names:
  "parseEffectHeader line = Some field \<Longrightarrow> isIdentifier field"
  "parseComputedHeader line = Some (name, ty) \<Longrightarrow> isIdentifier name \<and> isTypeLiteral ty"
  by (auto simp: parseEffectHeader_def parseComputedHeader_def Let_def split: option.splits if_splits list.splits)

lemma top_line_ok:
  assumes ok: "parser_ok n st" and out: "cp_block st = Outside" and line: "top_line n line st = Inr st'"
  shows "parser_ok (n + 1) st'"
proof (cases "parseFunctionHeader line")
  case (Some h)
  with line have "open_function n h st = Inr st'" by (simp add: top_line_def)
  then show ?thesis using open_function_ok [OF ok _ parseFunctionHeader_name [OF Some]] by blast
next
  case no_function: None
  have same: "st\<lparr>cp_block := b\<rparr> = st\<lparr>cp_seen := cp_seen st, cp_block := b\<rparr>" for b by simp
  have kind: "lb_Kind (new_block k f ty m) = k" "lb_Field (new_block k f ty m) = f" for k f ty m
    by (simp_all add: new_block_def)
  have block: "parser_ok (n + 1) (st\<lparr>cp_block := InLifecycle (new_block k f [] n)\<rparr>)"
    if "k = ''mount'' \<or> k = ''destroy'' \<or> k = ''effect'' \<and> isIdentifier f" for k f
    unfolding same using that by (intro open_block_ok [OF ok]) (auto simp: block_ok_new kind simp del: One_nat_def)
  show ?thesis
  proof (cases "line = ''on mount {'' \<or> line = ''on destroy {''")
    case True
    with line no_function have "st' = st\<lparr>cp_block := InLifecycle (new_block ''mount'' [] [] n)\<rparr> \<or>
        st' = st\<lparr>cp_block := InLifecycle (new_block ''destroy'' [] [] n)\<rparr>"
      by (auto simp: top_line_def)
    with block show ?thesis by blast
  next
    case no_block: False
    show ?thesis
    proof (cases "parseEffectHeader line")
      case (Some f)
      with line no_function no_block have "st' = st\<lparr>cp_block := InLifecycle (new_block ''effect'' f [] n)\<rparr>"
        by (simp add: top_line_def)
      with block [of "''effect''" f] header_names(1) [OF Some] show ?thesis by blast
    next
      case no_effect: None
      show ?thesis
      proof (cases "parseComputedHeader line")
        case (Some r)
        obtain name ty where r: "r = (name, ty)" by force
        have st': "name \<notin> set (cp_seen st)"
          "st' = st\<lparr>cp_seen := name # cp_seen st, cp_block := InLifecycle (new_block ''computed'' name ty n)\<rparr>"
          using line no_function no_block no_effect Some r by (simp_all add: top_line_def split: if_splits)
        have "name \<notin> set (declared_names (cp_program st))" using ok st'(1) by (auto simp: parser_ok_def seen_ok_def)
        then show ?thesis
          unfolding st'(2) using header_names(2) Some r
          by (intro open_block_ok [OF ok]) (auto simp: block_ok_new kind simp del: One_nat_def)
      next
        case None
        with line no_function no_block no_effect have "declaration_line n line st = Inr st'" by (simp add: top_line_def)
        with declaration_line_ok [OF ok out] show ?thesis by blast
      qed
    qed
  qed
qed

lemma parser_ok_later: "parser_ok n st \<Longrightarrow> open_ok (n + 1) st \<Longrightarrow> parser_ok (n + 1) st"
  by (simp add: parser_ok_def functions_before_Suc)

lemma parser_ok_block:
  "parser_ok n st \<Longrightarrow> open_ok (n + 1) (st\<lparr>cp_block := blk\<rparr>) \<Longrightarrow> parser_ok (n + 1) (st\<lparr>cp_block := blk\<rparr>)"
  by (simp add: parser_ok_def functions_before_Suc seen_ok_def)

lemma function_line_ok:
  assumes ok: "parser_ok n st" and blk: "cp_block st = InFunction f" and line: "function_line u n line f st = Inr st'"
  shows "parser_ok (n + 1) st'"
proof -
  from ok blk have f: "signature_ok f" "numbered (StartLine (fn_Span f)) (fn_Statements f) (fn_StatementSpans f) n"
    "fn_Name f \<in> set (cp_seen st)" "fn_Name f \<notin> set (declared_names (cp_program st))"
    "\<forall>g\<in>set (pr_Functions (cp_program st)). EndLine (fn_Span g) < StartLine (fn_Span f)"
    by (auto simp: parser_ok_def open_ok_def)
  consider (close) "validateFunctionReturnShape f = None"
        "st' = st\<lparr>cp_block := Outside, cp_program := (cp_program st)\<lparr>pr_Functions :=
           pr_Functions (cp_program st) @ [f\<lparr>fn_Span := (fn_Span f)\<lparr>EndLine := n\<rparr>\<rparr>]\<rparr>\<rparr>"
    | (skip) "st' = st"
    | (add) "statement_of line \<noteq> []" "st' = st\<lparr>cp_block := InFunction (f\<lparr>fn_Statements := fn_Statements f @ [statement_of line],
          fn_StatementSpans := fn_StatementSpans f @ [line_span n]\<rparr>)\<rparr>"
    using line by (auto simp: function_line_def Let_def split: if_splits option.splits)
  then show ?thesis
  proof cases
    case close
    have "function_ok (f\<lparr>fn_Span := (fn_Span f)\<lparr>EndLine := n\<rparr>\<rparr>)"
      using f(1,2) close(1) by (simp add: function_ok_def signature_ok_def validateFunctionReturnShape_None)
    then show ?thesis
      using ok f close(2) functions_before_Suc [of n "cp_program st"]
      by (auto simp: parser_ok_def open_ok_def program_ok_def declared_names_def sorted_wrt_append seen_ok_def functions_before_def)
  next
    case skip
    then show ?thesis
      using parser_ok_later [OF ok] f blk numbered_wide [OF f(2), of "n + 1"] by (simp add: open_ok_def)
  next
    case add
    have "numbered (StartLine (fn_Span f)) (fn_Statements f @ [statement_of line]) (fn_StatementSpans f @ [line_span n]) (n + 1)"
      by (rule numbered_snoc [OF f(2) add(1)])
    then show ?thesis
      unfolding add(2) using f by (intro parser_ok_block [OF ok]) (simp add: open_ok_def signature_ok_def)
  qed
qed

text \<open>A line of a lifecycle block keeps its kind and its field.\<close>

definition next_block :: "nat \<Rightarrow> lifecycleBlock \<Rightarrow> lifecycleBlock \<Rightarrow> bool" where
  "next_block n b b' \<longleftrightarrow> block_ok (n + 1) b' \<and> lb_Kind b' = lb_Kind b \<and> lb_Field b' = lb_Field b"

lemma numbered_step:
  "numbered lo ss spans n \<Longrightarrow> numbered lo ss spans (Suc n)"
  "numbered lo ss spans n \<Longrightarrow> s \<noteq> [] \<Longrightarrow> numbered lo (ss @ [s]) (spans @ [line_span n]) (Suc n)"
  using numbered_wide [of lo ss spans n "Suc n"] numbered_snoc [of lo ss spans n s] by auto

lemma block_ok_later: "block_ok n b \<Longrightarrow> block_ok (Suc n) b"
  by (auto simp: block_ok_def numbered_step less_SucI split: option.splits)

lemma cleanup_line_ok:
  assumes "block_ok n b" "cleanup_line u n line b = Inr b'"
  shows "next_block n b b'"
proof -
  consider "b' = b\<lparr>lb_Cleanup := False\<rparr>" | "b' = b"
    | "statement_of line \<noteq> []" "b' = b\<lparr>lb_CleanupStatements := lb_CleanupStatements b @ [statement_of line],
         lb_CleanupSpans := lb_CleanupSpans b @ [line_span n]\<rparr>"
    using assms(2) by (auto simp: cleanup_line_def split: if_splits)
  then show ?thesis
    using assms(1) block_ok_later [OF assms(1)]
    by cases (auto simp: next_block_def block_ok_def numbered_step less_SucI split: option.splits)
qed

lemma computed_if_line_ok:
  assumes ok: "block_ok n b" and c: "lb_ComputedIf b = Some c" and line: "computed_if_line u n line c b = Inr b'"
  shows "next_block n b b'"
proof -
  from ok c have num: "numbered (StartLine (lb_Span b)) (lb_Statements b) (lb_StatementSpans b) (StartLine (ci_Span c))"
    "StartLine (ci_Span c) < n"
    by (auto simp: block_ok_def)
  have snoc: "numbered (StartLine (lb_Span b)) (lb_Statements b @ [s]) (lb_StatementSpans b @ [ci_Span c]) (Suc n)"
    if "s \<noteq> []" for s
    using num that by (auto simp: numbered_def sorted_wrt_append)
  consider (close) s where "s \<noteq> []" "b' = b\<lparr>lb_Statements := lb_Statements b @ [s],
        lb_StatementSpans := lb_StatementSpans b @ [ci_Span c], lb_ComputedIf := None\<rparr>"
    | (ret) expr where "b' = b\<lparr>lb_ComputedIf := Some (c\<lparr>ci_Return := expr, ci_ReturnSpan := line_span n\<rparr>)\<rparr>"
    using line by (auto simp: computed_if_line_def Let_def split: if_splits)
  then show ?thesis
  proof cases
    case close
    then show ?thesis using ok snoc [OF close(1)] by (simp add: next_block_def block_ok_def numbered_step)
  next
    case ret
    then show ?thesis using ok num c by (simp add: next_block_def block_ok_def numbered_step)
  qed
qed

lemma body_line_ok:
  assumes ok: "block_ok n b" and c: "lb_ComputedIf b = None" and line: "body_line u n line b = Inr b'"
  shows "next_block n b b'"
proof -
  from ok c have num: "numbered (StartLine (lb_Span b)) (lb_Statements b) (lb_StatementSpans b) n"
    by (simp add: block_ok_def)
  show ?thesis
  proof (cases "if lb_Kind b = ''computed'' then parseComputedIfHeader line else None")
    case (Some cond)
    then have "lb_Kind b = ''computed''" by (simp split: if_splits)
    moreover define ci where
      "ci = \<lparr>ci_Cond = cond, ci_Return = [], ci_ReturnSpan = \<lparr>StartLine = 0, EndLine = 0\<rparr>, ci_Span = line_span n\<rparr>"
    moreover have "b' = b\<lparr>lb_ComputedIf := Some ci\<rparr>"
      using line unfolding body_line_def Some by (simp add: ci_def split: sum.splits if_splits)
    moreover have "StartLine (ci_Span ci) = n" by (simp add: ci_def line_span_def)
    ultimately show ?thesis using ok num by (simp add: next_block_def block_ok_def numbered_step)
  next
    case None
    with line have "b' = b \<or> statement_of line \<noteq> [] \<and> b' = b\<lparr>lb_Statements := lb_Statements b @ [statement_of line],
        lb_StatementSpans := lb_StatementSpans b @ [line_span n]\<rparr>"
      unfolding body_line_def None by (simp split: if_splits)
    then show ?thesis
    proof
      assume "b' = b"
      then show ?thesis using block_ok_later [OF ok] by (simp add: next_block_def)
    next
      assume "statement_of line \<noteq> [] \<and> b' = b\<lparr>lb_Statements := lb_Statements b @ [statement_of line],
        lb_StatementSpans := lb_StatementSpans b @ [line_span n]\<rparr>"
      then show ?thesis using ok num c by (simp add: next_block_def block_ok_def numbered_step)
    qed
  qed
qed

lemma computedReturnExpr_ok:
  assumes "computedReturnExpr b = Inr (expr, span)" and num: "numbered lo (lb_Statements b) (lb_StatementSpans b) hi"
  shows "expr \<noteq> [] \<and> lo < StartLine span \<and> StartLine span < hi"
proof -
  have "lb_Statements b \<noteq> [] \<and> expr \<noteq> [] \<and> span = first_span (lb_StatementSpans b)"
    using assms(1)
    by (auto simp: computedReturnExpr_def if_return_pair_def Let_def split: list.splits option.splits if_splits)
  with num show ?thesis
    by (cases "lb_StatementSpans b") (auto simp: numbered_def first_span_def)
qed

lemma close_block_ok:
  assumes ok: "parser_ok n st" and blk: "cp_block st = InLifecycle b"
    and b: "block_ok n b" "lb_ComputedIf b = None"
    and close: "close_block (b\<lparr>lb_Span := (lb_Span b)\<lparr>EndLine := n\<rparr>\<rparr>) (cp_program st) = Inr p"
  shows "parser_ok (n + 1) (st\<lparr>cp_program := p, cp_block := Outside\<rparr>)"
proof -
  let ?b = "b\<lparr>lb_Span := (lb_Span b)\<lparr>EndLine := n\<rparr>\<rparr>" and ?p = "cp_program st"
  from b have num: "numbered (StartLine (lb_Span b)) (lb_Statements b) (lb_StatementSpans b) n"
    "numbered (StartLine (lb_Span b)) (lb_CleanupStatements b) (lb_CleanupSpans b) n"
    by (simp_all add: block_ok_def)
  have out: "open_ok (Suc n) (st\<lparr>cp_program := p, cp_block := Outside\<rparr>)" for p by (simp add: open_ok_def)
  have later: "functions_before (Suc n) ?p" using ok functions_before_Suc by (simp add: parser_ok_def)
  consider "lb_Kind b = ''mount''" | "lb_Kind b = ''destroy''" | "lb_Kind b = ''effect''" | "lb_Kind b = ''computed''"
    using b(1) by (auto simp: block_ok_def)
  then show ?thesis
  proof cases
    case 1
    with close have "p = ?p\<lparr>pr_Mount := pr_Mount ?p @ lb_Statements b, pr_MountSpans := pr_MountSpans ?p @ lb_StatementSpans b\<rparr>"
      by (simp add: close_block_def)
    with ok later num(1) out show ?thesis
      by (simp add: parser_ok_def program_ok_def seen_ok_def declared_names_def functions_before_def numbered_def)
  next
    case 2
    with close have "p = ?p\<lparr>pr_Destroy := pr_Destroy ?p @ lb_Statements b, pr_DestroySpans := pr_DestroySpans ?p @ lb_StatementSpans b\<rparr>"
      by (simp add: close_block_def)
    with ok later num(1) out show ?thesis
      by (simp add: parser_ok_def program_ok_def seen_ok_def declared_names_def functions_before_def numbered_def)
  next
    case 3
    with close have p: "p = ?p\<lparr>pr_Effects := pr_Effects ?p @ [block_effect ?b]\<rparr>" by (simp add: close_block_def)
    have "effect_ok (block_effect ?b)"
      using num b(1) 3 by (simp add: effect_ok_def block_effect_def block_ok_def)
    with p ok later out show ?thesis
      by (simp add: parser_ok_def program_ok_def seen_ok_def declared_names_def functions_before_def)
  next
    case 4
    from 4 close obtain expr span where expr: "computedReturnExpr ?b = Inr (expr, span)"
      by (cases "computedReturnExpr ?b") (auto simp: close_block_def)
    define c where "c = \<lparr>cm_Name = lb_Field b, cm_Type = lb_Type b, cm_Expr = expr, cm_Span = (lb_Span b)\<lparr>EndLine := n\<rparr>, cm_ExprSpan = span\<rparr>"
    have p: "p = ?p\<lparr>pr_Computed := pr_Computed ?p @ [c]\<rparr>" using 4 close expr by (simp add: close_block_def c_def)
    have num': "numbered (StartLine (lb_Span b)) (lb_Statements ?b) (lb_StatementSpans ?b) n" using num(1) by simp
    have "computed_ok c"
      using computedReturnExpr_ok [OF expr num'] b(1) 4 by (simp add: computed_ok_def block_ok_def c_def)
    moreover have "cm_Name c \<in> set (cp_seen st)" "cm_Name c \<notin> set (declared_names ?p)"
      using ok blk 4 by (simp_all add: parser_ok_def open_ok_def c_def)
    ultimately show ?thesis
      using p ok later out
      by (simp add: parser_ok_def program_ok_def seen_ok_def declared_names_def functions_before_def)
  qed
qed

lemma keep_block_ok:
  assumes ok: "parser_ok n st" and blk: "cp_block st = InLifecycle b" and keep: "keep_block st r = Inr st'"
    and r: "\<And>b'. r = Inr b' \<Longrightarrow> next_block n b b'"
  shows "parser_ok (n + 1) st'"
proof -
  from keep obtain b' where b': "r = Inr b'" "st' = st\<lparr>cp_block := InLifecycle b'\<rparr>"
    by (auto simp: keep_block_def split: sum.splits)
  with r have n: "next_block n b b'" by simp
  have "open_ok (n + 1) (st\<lparr>cp_block := InLifecycle b'\<rparr>)"
    using ok blk n by (auto simp: parser_ok_def open_ok_def next_block_def)
  then show ?thesis unfolding b'(2) by (rule parser_ok_block [OF ok])
qed

lemma lifecycle_line_ok:
  assumes ok: "parser_ok n st" and blk: "cp_block st = InLifecycle b" and line: "lifecycle_line u n line b st = Inr st'"
  shows "parser_ok (n + 1) st'"
proof -
  from ok blk have b: "block_ok n b" by (simp add: parser_ok_def open_ok_def)
  show ?thesis
  proof (cases "lb_Cleanup b")
    case True
    with line have "keep_block st (cleanup_line u n line b) = Inr st'" by (simp add: lifecycle_line_def)
    then show ?thesis by (rule keep_block_ok [OF ok blk]) (rule cleanup_line_ok [OF b])
  next
    case no_cleanup: False
    show ?thesis
    proof (cases "lb_ComputedIf b")
      case (Some c)
      then have "lb_Kind b = ''computed''" using b by (simp add: block_ok_def)
      with line no_cleanup Some have "keep_block st (computed_if_line u n line c b) = Inr st'"
        by (simp add: lifecycle_line_def)
      then show ?thesis by (rule keep_block_ok [OF ok blk]) (rule computed_if_line_ok [OF b Some])
    next
      case no_if: None
      then have none: "(if lb_Kind b = ''computed'' then lb_ComputedIf b else None) = None" by simp
      show ?thesis
      proof (cases "lb_Kind b = ''effect'' \<and> line = ''return {''")
        case True
        with line no_cleanup no_if have st': "st' = st\<lparr>cp_block := InLifecycle (b\<lparr>lb_Cleanup := True\<rparr>)\<rparr>"
          by (simp add: lifecycle_line_def)
        have "block_ok (n + 1) (b\<lparr>lb_Cleanup := True\<rparr>)" using block_ok_later [OF b] no_if by (simp add: block_ok_def)
        then show ?thesis
          unfolding st' using ok blk by (intro parser_ok_block [OF ok]) (simp add: open_ok_def parser_ok_def)
      next
        case no_return: False
        show ?thesis
        proof (cases "line = ''}''")
          case True
          with line no_cleanup no_if no_return obtain p where
            "close_block (b\<lparr>lb_Span := (lb_Span b)\<lparr>EndLine := n\<rparr>\<rparr>) (cp_program st) = Inr p"
            "st' = st\<lparr>cp_program := p, cp_block := Outside\<rparr>"
            by (cases "close_block (b\<lparr>lb_Span := (lb_Span b)\<lparr>EndLine := n\<rparr>\<rparr>) (cp_program st)") (simp_all add: lifecycle_line_def none)
          then show ?thesis using close_block_ok [OF ok blk b no_if] by simp
        next
          case False
          with line no_cleanup no_if no_return have "keep_block st (body_line u n line b) = Inr st'"
            by (simp add: lifecycle_line_def none del: de_Morgan_conj)
          then show ?thesis by (rule keep_block_ok [OF ok blk]) (rule body_line_ok [OF b no_if])
        qed
      qed
    qed
  qed
qed

lemma parse_line_ok:
  assumes ok: "parser_ok n st" and line: "parse_line u n rawLine st = Inr st'"
  shows "parser_ok (n + 1) st'"
proof (cases "TrimSpace rawLine = [] \<or> HasPrefix (TrimSpace rawLine) ''//''")
  case True
  with line have "st' = st" by (auto simp: parse_line_def Let_def)
  moreover have "open_ok (n + 1) st"
    using ok block_ok_later by (auto simp: parser_ok_def open_ok_def numbered_step split: open_block.splits)
  ultimately show ?thesis using parser_ok_later [OF ok] by simp
next
  case False
  show ?thesis
  proof (cases "cp_block st")
    case Outside
    with False line have "top_line n (TrimSpace rawLine) st = Inr st'" by (auto simp: parse_line_def Let_def)
    then show ?thesis by (rule top_line_ok [OF ok Outside])
  next
    case (InFunction f)
    with False line have "function_line u n (TrimSpace rawLine) f st = Inr st'" by (auto simp: parse_line_def Let_def)
    then show ?thesis by (rule function_line_ok [OF ok InFunction])
  next
    case (InLifecycle b)
    with False line have "lifecycle_line u n (TrimSpace rawLine) b st = Inr st'" by (auto simp: parse_line_def Let_def)
    then show ?thesis by (rule lifecycle_line_ok [OF ok InLifecycle])
  qed
qed

lemma parse_lines_ok: "parser_ok n st \<Longrightarrow> parse_lines u n ls st = Inr st' \<Longrightarrow> parser_ok (n + length ls) st'"
proof (induction ls arbitrary: n st)
  case (Cons line rest)
  then show ?case using parse_line_ok [OF Cons.prems(1), of u line] by (auto split: sum.splits) (metis Suc_eq_plus1 add_Suc)
qed simp

subsection \<open>Where statements stand\<close>

text \<open>The span of a statement is the line it stands on: that line, without blanks and semicolon, is the statement.\<close>

definition placed :: "string list \<Rightarrow> string list \<Rightarrow> Span list \<Rightarrow> bool" where
  "placed source ss spans \<longleftrightarrow>
     list_all2 (\<lambda>s sp. EndLine sp = StartLine sp \<and> 0 < StartLine sp \<and> StartLine sp \<le> length source \<and>
       statement_of (TrimSpace (source ! (StartLine sp - 1))) = s) ss spans"

definition increasing :: "Span list \<Rightarrow> bool" where
  "increasing spans \<longleftrightarrow> sorted_wrt (<) (map StartLine spans)"

definition program_placed :: "string list \<Rightarrow> Program \<Rightarrow> bool" where
  "program_placed source p \<longleftrightarrow>
     list_all (\<lambda>f. placed source (fn_Statements f) (fn_StatementSpans f)) (pr_Functions p) \<and>
     list_all (\<lambda>e. placed source (ef_Statements e) (ef_StatementSpans e) \<and> placed source (ef_Cleanup e) (ef_CleanupSpans e)) (pr_Effects p) \<and>
     placed source (pr_Mount p) (pr_MountSpans p) \<and> placed source (pr_Destroy p) (pr_DestroySpans p) \<and>
     increasing (pr_MountSpans p) \<and> increasing (pr_DestroySpans p)"

definition lifecycle_spans :: "Program \<Rightarrow> Span list" where
  "lifecycle_spans p = pr_MountSpans p @ pr_DestroySpans p"

definition open_placed :: "string list \<Rightarrow> client_parser \<Rightarrow> bool" where
  "open_placed source st \<longleftrightarrow>
     (case cp_block st of
        Outside \<Rightarrow> True
      | InFunction f \<Rightarrow> placed source (fn_Statements f) (fn_StatementSpans f)
      | InLifecycle b \<Rightarrow>
          (lb_Kind b \<noteq> ''computed'' \<longrightarrow>
             placed source (lb_Statements b) (lb_StatementSpans b) \<and> placed source (lb_CleanupStatements b) (lb_CleanupSpans b)) \<and>
          (\<forall>sp\<in>set (lifecycle_spans (cp_program st)). StartLine sp < StartLine (lb_Span b)))"

definition placed_ok :: "string list \<Rightarrow> nat \<Rightarrow> client_parser \<Rightarrow> bool" where
  "placed_ok source n st \<longleftrightarrow>
     program_placed source (cp_program st) \<and> open_placed source st \<and>
     (\<forall>sp\<in>set (lifecycle_spans (cp_program st)). StartLine sp < n)"

lemma placed_Nil [simp]: "placed source [] []"
  by (simp add: placed_def)

lemma placed_append: "placed source ss spans \<Longrightarrow> placed source ss' spans' \<Longrightarrow> placed source (ss @ ss') (spans @ spans')"
  unfolding placed_def by (rule list_all2_appendI)

lemma placed_snoc:
  assumes "placed source ss spans" "n \<le> length source" "0 < n" "TrimSpace (source ! (n - 1)) = line"
  shows "placed source (ss @ [statement_of line]) (spans @ [line_span n])"
  using assms by (intro placed_append) (simp_all add: placed_def line_span_def)

lemma increasing_append:
  assumes "increasing spans" "\<forall>sp\<in>set spans. StartLine sp < lo" "numbered lo ss spans' hi"
  shows "increasing (spans @ spans')"
  using assms by (fastforce simp: increasing_def numbered_def sorted_wrt_append)+

lemma placed_ok_later: "placed_ok source n st \<Longrightarrow> placed_ok source (n + 1) st"
  by (auto simp: placed_ok_def)

lemma top_line_placed:
  assumes ok: "placed_ok source n st" and out: "cp_block st = Outside" and line: "top_line n line st = Inr st'"
  shows "placed_ok source (n + 1) st'"
proof -
  have later: "\<forall>sp\<in>set (lifecycle_spans (cp_program st)). StartLine sp < n" "program_placed source (cp_program st)"
    using ok by (simp_all add: placed_ok_def)
  have block: "placed_ok source (n + 1) (st\<lparr>cp_seen := seen, cp_block := InLifecycle (new_block k f ty n)\<rparr>)" for seen k f ty
    using later by (auto simp: placed_ok_def open_placed_def new_block_def line_span_def)
  have block': "placed_ok source (n + 1) (st\<lparr>cp_block := InLifecycle (new_block k f ty n)\<rparr>)" for k f ty
    using later by (auto simp: placed_ok_def open_placed_def new_block_def line_span_def)
  have soon: "\<forall>sp\<in>set (lifecycle_spans (cp_program st)). StartLine sp < Suc n" using later(1) by (simp add: less_SucI)
  have fn: "placed_ok source (n + 1) st'" if "open_function n h st = Inr st'" for h
    using that soon later(2) by (auto simp: open_function_def placed_ok_def open_placed_def Let_def split: if_splits sum.splits)
  have decl: "placed_ok source (n + 1) st'" if "declaration_line n line st = Inr st'"
    using that soon later(2) out
    by (auto simp: declaration_line_def add_ref_def add_use_def placed_ok_def open_placed_def program_placed_def lifecycle_spans_def
        split: option.splits if_splits)
  show ?thesis
    using line fn block block' decl unfolding top_line_def by (auto split: option.splits if_splits)
qed

lemma function_line_placed:
  assumes ok: "placed_ok source n st" and blk: "cp_block st = InFunction f" and line: "function_line u n line f st = Inr st'"
    and at: "n \<le> length source" "0 < n" "TrimSpace (source ! (n - 1)) = line"
  shows "placed_ok source (n + 1) st'"
proof -
  have f: "placed source (fn_Statements f) (fn_StatementSpans f)" using ok blk by (simp add: placed_ok_def open_placed_def)
  have later: "\<forall>sp\<in>set (lifecycle_spans (cp_program st)). StartLine sp < Suc n" "program_placed source (cp_program st)"
    using ok by (auto simp: placed_ok_def)
  show ?thesis
    using line f later blk placed_snoc [OF f at]
    by (auto simp: function_line_def Let_def placed_ok_def open_placed_def program_placed_def lifecycle_spans_def
        split: if_splits option.splits)
qed

lemma close_block_placed:
  assumes ok: "placed_ok source n st" and blk: "cp_block st = InLifecycle b" and b: "block_ok n b" "lb_ComputedIf b = None"
    and close: "close_block (b\<lparr>lb_Span := (lb_Span b)\<lparr>EndLine := n\<rparr>\<rparr>) (cp_program st) = Inr p"
  shows "placed_ok source (n + 1) (st\<lparr>cp_program := p, cp_block := Outside\<rparr>)"
proof -
  let ?p = "cp_program st"
  have num: "numbered (StartLine (lb_Span b)) (lb_Statements b) (lb_StatementSpans b) n" using b by (simp add: block_ok_def)
  have later: "\<forall>sp\<in>set (lifecycle_spans ?p). StartLine sp < Suc n" "program_placed source ?p"
    and before: "\<forall>sp\<in>set (lifecycle_spans ?p). StartLine sp < StartLine (lb_Span b)"
    and here: "lb_Kind b \<noteq> ''computed'' \<Longrightarrow>
      placed source (lb_Statements b) (lb_StatementSpans b) \<and> placed source (lb_CleanupStatements b) (lb_CleanupSpans b)"
    using ok blk by (auto simp: placed_ok_def open_placed_def)
  have mount: "increasing (pr_MountSpans ?p @ lb_StatementSpans b)" "increasing (pr_DestroySpans ?p @ lb_StatementSpans b)"
    using increasing_append [OF _ _ num] later(2) before by (simp_all add: program_placed_def lifecycle_spans_def)
  have own: "\<forall>sp\<in>set (lb_StatementSpans b). StartLine sp < Suc n" using num by (auto simp: numbered_def sorted_wrt_append)
  consider "lb_Kind b = ''mount''" | "lb_Kind b = ''destroy''" | "lb_Kind b = ''effect''" | "lb_Kind b = ''computed''"
    using b(1) by (auto simp: block_ok_def)
  then show ?thesis
  proof cases
    case 4
    with close have "pr_Functions p = pr_Functions ?p" "pr_Effects p = pr_Effects ?p" "pr_Mount p = pr_Mount ?p"
      "pr_MountSpans p = pr_MountSpans ?p" "pr_Destroy p = pr_Destroy ?p" "pr_DestroySpans p = pr_DestroySpans ?p"
      by (auto simp: close_block_def split: sum.splits)
    with later show ?thesis by (auto simp: placed_ok_def open_placed_def program_placed_def lifecycle_spans_def)
  next
    case 1
    with close here later mount own show ?thesis
      by (auto simp: close_block_def placed_ok_def open_placed_def program_placed_def lifecycle_spans_def intro: placed_append)
  next
    case 2
    with close here later mount own show ?thesis
      by (auto simp: close_block_def placed_ok_def open_placed_def program_placed_def lifecycle_spans_def intro: placed_append)
  next
    case 3
    with close here later show ?thesis
      by (auto simp: close_block_def block_effect_def placed_ok_def open_placed_def program_placed_def lifecycle_spans_def)
  qed
qed

lemma keep_block_placed:
  assumes ok: "placed_ok source n st" and blk: "cp_block st = InLifecycle b" and keep: "keep_block st r = Inr st'"
    and r: "\<And>b'. r = Inr b' \<Longrightarrow> lb_Kind b' = lb_Kind b \<and> lb_Span b' = lb_Span b \<and>
      (lb_Kind b \<noteq> ''computed'' \<longrightarrow>
         placed source (lb_Statements b') (lb_StatementSpans b') \<and> placed source (lb_CleanupStatements b') (lb_CleanupSpans b'))"
  shows "placed_ok source (n + 1) st'"
proof -
  from keep obtain b' where b': "r = Inr b'" "st' = st\<lparr>cp_block := InLifecycle b'\<rparr>"
    by (auto simp: keep_block_def split: sum.splits)
  with r have n: "lb_Kind b' = lb_Kind b \<and> lb_Span b' = lb_Span b \<and> (lb_Kind b \<noteq> ''computed'' \<longrightarrow>
         placed source (lb_Statements b') (lb_StatementSpans b') \<and> placed source (lb_CleanupStatements b') (lb_CleanupSpans b'))" by simp
  show ?thesis
    unfolding b'(2) using ok blk n by (auto simp: placed_ok_def open_placed_def)
qed

lemma lifecycle_line_placed:
  assumes ok: "placed_ok source n st" and blk: "cp_block st = InLifecycle b" and b: "block_ok n b"
    and line: "lifecycle_line u n line b st = Inr st'" and at: "n \<le> length source" "0 < n" "TrimSpace (source ! (n - 1)) = line"
  shows "placed_ok source (n + 1) st'"
proof -
  have here: "lb_Kind b \<noteq> ''computed'' \<Longrightarrow>
      placed source (lb_Statements b) (lb_StatementSpans b) \<and> placed source (lb_CleanupStatements b) (lb_CleanupSpans b)"
    using ok blk by (auto simp: placed_ok_def open_placed_def)
  note snoc = placed_snoc [OF _ at]
  have cleanup: "placed_ok source (n + 1) st'" if "keep_block st (cleanup_line u n line b) = Inr st'"
    by (rule keep_block_placed [OF ok blk that]) (use here snoc in \<open>auto simp: cleanup_line_def split: if_splits\<close>)
  have if_line: "placed_ok source (n + 1) st'"
    if "keep_block st (computed_if_line u n line c b) = Inr st'" "lb_Kind b = ''computed''" for c
    by (rule keep_block_placed [OF ok blk that(1)]) (use that(2) in \<open>auto simp: computed_if_line_def Let_def split: if_splits\<close>)
  have body: "placed_ok source (n + 1) st'" if "keep_block st (body_line u n line b) = Inr st'"
    by (rule keep_block_placed [OF ok blk that])
      (use here snoc in \<open>auto simp: body_line_def split: if_splits option.splits sum.splits\<close>)
  have enter: "placed_ok source (n + 1) (st\<lparr>cp_block := InLifecycle (b\<lparr>lb_Cleanup := True\<rparr>)\<rparr>)"
    using ok blk by (auto simp: placed_ok_def open_placed_def)
  show ?thesis
  proof (cases "lb_Cleanup b")
    case True
    with line cleanup show ?thesis by (simp add: lifecycle_line_def)
  next
    case no_cleanup: False
    show ?thesis
    proof (cases "if lb_Kind b = ''computed'' then lb_ComputedIf b else None")
      case (Some c)
      then have "lb_Kind b = ''computed''" by (simp split: if_splits)
      with line no_cleanup Some if_line show ?thesis by (simp add: lifecycle_line_def)
    next
      case None
      then have "lb_ComputedIf b = None" using b by (auto simp: block_ok_def split: option.splits if_splits)
      with line no_cleanup None enter body close_block_placed [OF ok blk b] show ?thesis
        by (auto simp: lifecycle_line_def split: if_splits sum.splits)
    qed
  qed
qed

lemma parse_line_placed:
  assumes ok: "placed_ok source n st" "parser_ok n st" and line: "parse_line u n rawLine st = Inr st'"
    and at: "n \<le> length source" "0 < n" "source ! (n - 1) = rawLine"
  shows "placed_ok source (n + 1) st'"
proof (cases "TrimSpace rawLine = [] \<or> HasPrefix (TrimSpace rawLine) ''//''")
  case True
  with line have "st' = st" by (auto simp: parse_line_def Let_def)
  with placed_ok_later [OF ok(1)] show ?thesis by simp
next
  case False
  have at': "TrimSpace (source ! (n - 1)) = TrimSpace rawLine" using at(3) by simp
  show ?thesis
  proof (cases "cp_block st")
    case Outside
    with False line have "top_line n (TrimSpace rawLine) st = Inr st'" by (auto simp: parse_line_def Let_def)
    then show ?thesis by (rule top_line_placed [OF ok(1) Outside])
  next
    case (InFunction f)
    with False line have "function_line u n (TrimSpace rawLine) f st = Inr st'" by (auto simp: parse_line_def Let_def)
    then show ?thesis by (rule function_line_placed [OF ok(1) InFunction _ at(1,2) at'])
  next
    case (InLifecycle b)
    with False line have "lifecycle_line u n (TrimSpace rawLine) b st = Inr st'" by (auto simp: parse_line_def Let_def)
    moreover have "block_ok n b" using ok(2) InLifecycle by (simp add: parser_ok_def open_ok_def)
    ultimately show ?thesis using lifecycle_line_placed [OF ok(1) InLifecycle _ _ at(1,2) at'] by blast
  qed
qed

lemma parse_lines_placed:
  assumes "placed_ok source n st" "parser_ok n st" "parse_lines u n ls st = Inr st'" "drop (n - 1) source = ls" "0 < n"
  shows "placed_ok source (n + length ls) st'"
  using assms
proof (induction ls arbitrary: n st)
  case (Cons line rest)
  from Cons.prems(3) obtain st1 where st1: "parse_line u n line st = Inr st1" "parse_lines u (n + 1) rest st1 = Inr st'"
    by (auto split: sum.splits)
  have at: "n \<le> length source" "source ! (n - 1) = line" "drop n source = rest"
  proof -
    have "n - 1 < length source" using Cons.prems(4) by (metis drop_eq_Nil linorder_not_less list.distinct(1))
    then show "n \<le> length source" by simp
    show "source ! (n - 1) = line" using Cons.prems(4) \<open>n - 1 < length source\<close> by (simp flip: Cons_nth_drop_Suc)
    show "drop n source = rest" using Cons.prems(4,5) by (metis Suc_pred' drop_Suc list.sel(3) tl_drop)
  qed
  have "placed_ok source (n + 1) st1" by (rule parse_line_placed [OF Cons.prems(1,2) st1(1) at(1) Cons.prems(5) at(2)])
  from Cons.IH [OF this parse_line_ok [OF Cons.prems(2) st1(1)] st1(2)] at(3) show ?case by simp
qed simp

lemma Parse_ok:
  assumes "Parse u source = Inr p"
  shows "program_ok p" "program_placed (Split source CHR 0x0A) p"
    "\<forall>f\<in>set (pr_Functions p). EndLine (fn_Span f) \<le> length (Split source CHR 0x0A)"
proof -
  define st0 where "st0 = \<lparr>cp_program = no_program, cp_block = Outside, cp_seen = [], cp_seenRefs = [], cp_seenUses = []\<rparr>"
  from assms obtain st where st: "parse_lines u 1 (Split source CHR 0x0A) st0 = Inr st" "cp_program st = p"
    by (auto simp: Parse_def st0_def split: sum.splits option.splits)
  have ok: "parser_ok 1 st0"
    by (simp add: parser_ok_def program_ok_def st0_def no_program_def open_ok_def functions_before_def seen_ok_def declared_names_def)
  have "placed_ok (Split source CHR 0x0A) 1 st0"
    by (simp add: placed_ok_def program_placed_def st0_def no_program_def open_placed_def lifecycle_spans_def increasing_def)
  from parse_lines_placed [OF this ok st(1)] st(2) show "program_placed (Split source CHR 0x0A) p"
    by (simp add: placed_ok_def)
  from parse_lines_ok [OF ok st(1)] st(2) show "program_ok p"
    "\<forall>f\<in>set (pr_Functions p). EndLine (fn_Span f) \<le> length (Split source CHR 0x0A)"
    by (auto simp: parser_ok_def functions_before_def)
qed

text \<open>
  C37: a parsed client program is well formed. Functions and computed values share one space of distinct
  names; refs, and uses, have distinct names among themselves. The functions have proper signatures, return
  what their type says, and follow one another in the source. The span of every statement of a function, an
  effect, its cleanup, a mount or a destroy block is the line the statement stands on; the lines increase
  strictly within a function and an effect, and over all mount blocks, and all destroy blocks, of the program.
\<close>

theorem Parse_program_ok:
  assumes "Parse u source = Inr p"
  shows "program_ok p \<and> program_placed (Split source CHR 0x0A) p \<and>
    (\<forall>f\<in>set (pr_Functions p). EndLine (fn_Span f) \<le> length (Split source CHR 0x0A))"
  using Parse_ok [OF assms] by blast

section \<open>What the runtime gets\<close>

record Handler =
  hn_Params :: "string list"
  hn_ParamTypes :: "ValueType list"
  hn_Async :: bool
  hn_Statements :: "string list"

record HelperLocal =
  hl_Name :: string
  hl_Expr :: string
  hl_Type :: ValueType

record Helper =
  hp_Params :: "string list"
  hp_ParamTypes :: "ValueType list"
  hp_ReturnType :: ValueType
  hp_Locals :: "HelperLocal list"
  hp_Return :: string

definition helperLocals :: "Function \<Rightarrow> HelperLocal list" where
  "helperLocals f =
     map (\<lambda>l. \<lparr>hl_Name = lt_Name l, hl_Expr = lt_Expr l, hl_Type = NormalizeType (lt_Type l)\<rparr>)
       (List.map_filter parseLetStatement (butlast (fn_Statements f)))"

definition helperReturnExpr :: "Function \<Rightarrow> string" where
  "helperReturnExpr f =
     (if fn_Statements f = [] then [] else TrimSpace (TrimPrefix (TrimSpace (last (fn_Statements f))) ''return ''))"

definition function_handler :: "Function \<Rightarrow> Handler" where
  "function_handler f =
     \<lparr>hn_Params = map pm_Name (fn_Params f), hn_ParamTypes = map (\<lambda>p. NormalizeType (pm_Type p)) (fn_Params f),
      hn_Async = fn_Async f, hn_Statements = fn_Statements f\<rparr>"

definition function_helper :: "Function \<Rightarrow> Helper" where
  "function_helper f =
     \<lparr>hp_Params = map pm_Name (fn_Params f), hp_ParamTypes = map (\<lambda>p. NormalizeType (pm_Type p)) (fn_Params f),
      hp_ReturnType = NormalizeType (fn_ReturnType f), hp_Locals = helperLocals f, hp_Return = helperReturnExpr f\<rparr>"

text \<open>The entries a loop puts into a map, in order: the last one of a name stays.\<close>

definition last_of :: "(string \<times> 'a) list \<Rightarrow> string \<rightharpoonup> 'a" where
  "last_of entries = map_of (rev entries)"

definition handler_entries :: "Program \<Rightarrow> (string \<times> Handler) list" where
  "handler_entries p = map (\<lambda>f. (fn_Name f, function_handler f)) (filter (\<lambda>f. fn_ReturnType f = []) (pr_Functions p))"

definition HandlerMap :: "Program \<Rightarrow> string \<rightharpoonup> Handler" where
  "HandlerMap p = last_of (handler_entries p)"

definition helper_entries :: "Program \<Rightarrow> (string \<times> Helper) list" where
  "helper_entries p = map (\<lambda>f. (fn_Name f, function_helper f)) (filter (\<lambda>f. fn_ReturnType f \<noteq> []) (pr_Functions p))"

definition HelperMap :: "Program \<Rightarrow> string \<rightharpoonup> Helper" where
  "HelperMap p = last_of (helper_entries p)"

definition RefMap :: "Program \<Rightarrow> string \<rightharpoonup> Ref" where
  "RefMap p = last_of (map (\<lambda>r. (rf_Name r, r)) (pr_Refs p))"

definition UseMap :: "Program \<Rightarrow> string \<rightharpoonup> Use" where
  "UseMap p = last_of (map (\<lambda>u. (us_Name u, u)) (pr_Uses p))"

definition StoreNames :: "Program \<Rightarrow> string list" where
  "StoreNames p = sort (map us_Name (pr_Uses p))"

definition HasLifecycle :: "Program \<Rightarrow> bool" where
  "HasLifecycle p \<longleftrightarrow> pr_Mount p \<noteq> [] \<or> pr_Destroy p \<noteq> [] \<or> pr_Effects p \<noteq> []"

definition NeedsBootstrap :: "Program \<Rightarrow> bool" where
  "NeedsBootstrap p \<longleftrightarrow> HasLifecycle p \<or> pr_Computed p \<noteq> [] \<or> helper_entries p \<noteq> [] \<or> pr_Uses p \<noteq> []"

lemma last_of_distinct: "distinct (map fst entries) \<Longrightarrow> last_of entries k = Some v \<longleftrightarrow> (k, v) \<in> set entries"
  by (simp add: last_of_def map_of_eq_Some_iff rev_map [symmetric])

lemma last_of_None: "last_of entries k = None \<longleftrightarrow> k \<notin> fst ` set entries"
  by (simp add: last_of_def map_of_eq_None_iff)

lemma entries_distinct:
  assumes "distinct (map fn_Name fs)"
  shows "distinct (map fst (map (\<lambda>f. (fn_Name f, h f)) (filter P fs)))"
  using assms by (simp add: o_def distinct_map inj_on_def)

lemma program_ok_names: "program_ok p \<Longrightarrow> distinct (map fn_Name (pr_Functions p))"
  by (simp add: program_ok_def declared_names_def)

text \<open>
  A function of a parsed program is, by its return type, either a handler or a helper of the
  runtime, under its own name and with its own body; a helper has all its locals, in order, and the
  expression of its return; and nothing else is a handler or a helper.
\<close>

theorem Parse_maps:
  assumes "Parse u source = Inr p"
  shows "(\<forall>f\<in>set (pr_Functions p).
      (if fn_ReturnType f = [] then HandlerMap p (fn_Name f) = Some (function_handler f) \<and> HelperMap p (fn_Name f) = None
       else HelperMap p (fn_Name f) = Some (function_helper f) \<and> HandlerMap p (fn_Name f) = None \<and>
         length (helperLocals f) = length (fn_Statements f) - 1 \<and> helperReturnExpr f \<noteq> [])) \<and>
    (\<forall>name. HandlerMap p name \<noteq> None \<or> HelperMap p name \<noteq> None \<longrightarrow> name \<in> fn_Name ` set (pr_Functions p))"
proof -
  have ok: "program_ok p" by (rule Parse_ok(1) [OF assms])
  then have names: "distinct (map fn_Name (pr_Functions p))" by (rule program_ok_names)
  have inj: "f = g" if "f \<in> set (pr_Functions p)" "g \<in> set (pr_Functions p)" "fn_Name f = fn_Name g" for f g
    using names that by (auto simp: distinct_map inj_on_def)
  have handler: "HandlerMap p k = Some v \<longleftrightarrow> (k, v) \<in> set (handler_entries p)" for k v
    unfolding HandlerMap_def by (rule last_of_distinct) (use entries_distinct [OF names] in \<open>simp add: handler_entries_def\<close>)
  have helper: "HelperMap p k = Some v \<longleftrightarrow> (k, v) \<in> set (helper_entries p)" for k v
    unfolding HelperMap_def by (rule last_of_distinct) (use entries_distinct [OF names] in \<open>simp add: helper_entries_def\<close>)
  have none: "HelperMap p (fn_Name f) = None" if "f \<in> set (pr_Functions p)" "fn_ReturnType f = []" for f
    using that inj by (auto simp: HelperMap_def last_of_None helper_entries_def image_image dest: inj)
  have none': "HandlerMap p (fn_Name f) = None" if "f \<in> set (pr_Functions p)" "fn_ReturnType f \<noteq> []" for f
    using that inj by (auto simp: HandlerMap_def last_of_None handler_entries_def image_image dest: inj)
  have locals: "length (helperLocals f) = length (fn_Statements f) - 1 \<and> helperReturnExpr f \<noteq> []"
    if "f \<in> set (pr_Functions p)" "fn_ReturnType f \<noteq> []" for f
  proof -
    have shape: "return_shape (fn_ReturnType f) (fn_Statements f)"
      using ok that(1) by (auto simp: program_ok_def list_all_iff function_ok_def)
    have all: "list_all local_statement ss \<Longrightarrow> length (List.map_filter parseLetStatement ss) = length ss" for ss
    proof (induction ss)
      case (Cons s ss)
      then have "local_statement s" by simp
      then have "parseLetStatement (TrimSpace s) = parseLetStatement s \<and> parseLetStatement s \<noteq> None"
        by (auto simp: local_statement_def parseLetStatement_def split: option.splits)
      with Cons show ?case by (auto simp: map_filter_simps)
    qed (simp add: map_filter_simps)
    from shape that(2) show ?thesis
      using all [of "butlast (fn_Statements f)"]
      by (simp add: return_shape_def helperLocals_def helperReturnExpr_def return_statement_def)
  qed
  have dom: "name \<in> fn_Name ` set (pr_Functions p)" if "HandlerMap p name \<noteq> None \<or> HelperMap p name \<noteq> None" for name
    using that by (auto simp: handler helper handler_entries_def helper_entries_def)
  show ?thesis
    using none none' locals dom by (auto simp: handler helper handler_entries_def helper_entries_def)
qed

definition counter_source :: string where
  "counter_source =
     concat (map (\<lambda>l. l @ [CHR 0x0A])
       [''fn add(n int) {'', ''  count = count + n;'', ''}'', ''fn twice(n int) int {'', ''  let m int = n + n'', ''  return m'', ''}''])"

lemma counter_parsed: "map_sum id (\<lambda>p. map fn_Name (pr_Functions p)) (Parse ascii counter_source) = Inr [''add'', ''twice'']"
  by code_simp

definition lifecycle_source :: string where
  "lifecycle_source =
     concat (map (\<lambda>l. l @ [CHR 0x0A])
       [''on mount {'', ''  a = 1;'', ''  b = 2'', ''}'', ''on destroy {'', ''  a = 0'', ''}'', ''on mount {'', ''  a = 3'', ''}''])"

theorem Parse_program_ok_witness:
  "\<exists>p. Parse ascii lifecycle_source = Inr p \<and> pr_Mount p = [''a = 1'', ''b = 2'', ''a = 3''] \<and> length (pr_MountSpans p) = 3 \<and>
     increasing (pr_MountSpans p) \<and> placed (Split lifecycle_source CHR 0x0A) (pr_Mount p) (pr_MountSpans p)"
proof -
  have "map_sum id (\<lambda>p. pr_Mount p) (Parse ascii lifecycle_source) = Inr [''a = 1'', ''b = 2'', ''a = 3'']" by code_simp
  then obtain p where p: "Parse ascii lifecycle_source = Inr p" "pr_Mount p = [''a = 1'', ''b = 2'', ''a = 3'']"
    by (cases "Parse ascii lifecycle_source") auto
  from Parse_program_ok [OF p(1)] have "program_ok p" "program_placed (Split lifecycle_source CHR 0x0A) p" by simp_all
  with p show ?thesis by (auto simp: program_ok_def program_placed_def)
qed

theorem Parse_maps_witness:
  "\<exists>p. Parse ascii counter_source = Inr p \<and> HandlerMap p ''unknown'' = None"
proof -
  obtain p where p: "Parse ascii counter_source = Inr p" "map fn_Name (pr_Functions p) = [''add'', ''twice'']"
    using counter_parsed by (cases "Parse ascii counter_source") auto
  have "set (map fn_Name (pr_Functions p)) = {''add'', ''twice''}" using p(2) by simp
  then have "''unknown'' \<notin> fn_Name ` set (pr_Functions p)" by simp
  with Parse_maps [OF p(1)] p(1) show ?thesis by blast
qed

end
