(* ===== verification/ClientOrder.thy ===== *)
theory ClientOrder
  imports ClientProgram
begin

text \<open>
  \<open>internal/clientlang/clientlang.go\<close>, the order of computed values and the canonical text of programs.
  The recursive closure of \<open>OrderComputed\<close> has a bound on its depth, which is shown to be enough:
  the names of the open calls are distinct names of computed values.
\<close>

section \<open>The order of computed values\<close>

datatype order_error = ComputedRepeated string | ComputedExpression string parse_error | DependencyCycle string | OrderFuel

fun add_names :: "string list \<Rightarrow> Computed list \<Rightarrow> order_error option" where
  "add_names seen [] = None"
| "add_names seen (c # cs) =
     (if cm_Name c \<in> set seen then Some (ComputedRepeated (cm_Name c)) else add_names (cm_Name c # seen) cs)"

text \<open>The dependencies of each name, with the names of the computed values given.\<close>

fun add_deps :: "unicode \<Rightarrow> string list \<Rightarrow> Computed list \<Rightarrow> order_error + (string \<times> string list) list" where
  "add_deps u names [] = Inr []"
| "add_deps u names (c # cs) =
     (case ExprFields u (cm_Expr c) of
        Inl err \<Rightarrow> Inl (ComputedExpression (cm_Name c) err)
      | Inr flds \<Rightarrow>
          (case add_deps u names cs of
             Inl err \<Rightarrow> Inl err
           | Inr deps \<Rightarrow> Inr ((cm_Name c, sort (filter (\<lambda>f. f \<in> set names) flds)) # deps)))"

definition deps_of :: "(string \<times> string list) list \<Rightarrow> string \<Rightarrow> string list" where
  "deps_of deps name = (case map_of deps name of None \<Rightarrow> [] | Some ds \<Rightarrow> ds)"

text \<open>The index of the first occurrence, or 0.\<close>

definition cycle_start :: "string list \<Rightarrow> string \<Rightarrow> nat" where
  "cycle_start stack repeated = (if repeated \<in> set stack then length (takeWhile (\<lambda>n. n \<noteq> repeated) stack) else 0)"

definition cyclePath :: "string list \<Rightarrow> string \<Rightarrow> string" where
  "cyclePath stack repeated = Join (drop (cycle_start stack repeated) stack @ [repeated]) '' -> ''"

record visit_state =
  vs_state :: "string \<Rightarrow> nat"
  vs_stack :: "string list"
  vs_ordered :: "Computed list"

fun visit_each :: "(string \<Rightarrow> visit_state \<Rightarrow> order_error + visit_state) \<Rightarrow> string list \<Rightarrow> visit_state \<Rightarrow> order_error + visit_state" where
  "visit_each visit [] st = Inr st"
| "visit_each visit (name # rest) st =
     (case visit name st of Inl err \<Rightarrow> Inl err | Inr st' \<Rightarrow> visit_each visit rest st')"

fun visit :: "nat \<Rightarrow> (string \<times> string list) list \<Rightarrow> (string \<rightharpoonup> Computed) \<Rightarrow> string \<Rightarrow> visit_state \<Rightarrow> order_error + visit_state" where
  "visit 0 deps byName name st = Inl OrderFuel"
| "visit (Suc n) deps byName name st =
     (if vs_state st name = 1 then Inl (DependencyCycle (cyclePath (vs_stack st) name))
      else if vs_state st name = 2 then Inr st
      else
        (case visit_each (visit n deps byName) (deps_of deps name)
                (st\<lparr>vs_state := (vs_state st)(name := 1), vs_stack := vs_stack st @ [name]\<rparr>) of
           Inl err \<Rightarrow> Inl err
         | Inr st' \<Rightarrow>
             Inr (st'\<lparr>vs_stack := butlast (vs_stack st'), vs_state := (vs_state st')(name := 2),
                      vs_ordered := vs_ordered st' @ [the (byName name)]\<rparr>)))"

definition OrderComputed :: "unicode \<Rightarrow> Computed list \<Rightarrow> order_error + Computed list" where
  "OrderComputed u computeds =
     (if computeds = [] then Inr []
      else
        (case add_names [] computeds of
           Some err \<Rightarrow> Inl err
         | None \<Rightarrow>
             (case add_deps u (map cm_Name computeds) computeds of
                Inl err \<Rightarrow> Inl err
              | Inr deps \<Rightarrow>
                  (case visit_each (visit (length computeds + 1) deps (map_of (map (\<lambda>c. (cm_Name c, c)) computeds)))
                          (map cm_Name computeds) \<lparr>vs_state = (\<lambda>_. 0), vs_stack = [], vs_ordered = []\<rparr> of
                     Inl err \<Rightarrow> Inl err
                   | Inr st \<Rightarrow> Inr (vs_ordered st)))))"

definition OrderedComputed :: "unicode \<Rightarrow> Program \<Rightarrow> order_error + Computed list" where
  "OrderedComputed u p = OrderComputed u (pr_Computed p)"

section \<open>The search visits names in the order of their dependencies\<close>

lemma add_names_None: "add_names seen cs = None \<longleftrightarrow> distinct (map cm_Name cs) \<and> set (map cm_Name cs) \<inter> set seen = {}"
  by (induction cs arbitrary: seen) auto

text \<open>A name and the computed values its expression reads.\<close>

definition depends :: "unicode \<Rightarrow> Computed list \<Rightarrow> (string \<times> string) set" where
  "depends u cs =
     {(cm_Name c, d) | c d. c \<in> set cs \<and> (case ExprFields u (cm_Expr c) of Inl _ \<Rightarrow> False | Inr flds \<Rightarrow> d \<in> set flds) \<and>
        d \<in> cm_Name ` set cs}"

lemma add_deps_result:
  "add_deps u names cs = Inr deps \<Longrightarrow> distinct (map cm_Name cs) \<Longrightarrow>
   map fst deps = map cm_Name cs \<and> (\<forall>c\<in>set cs. \<exists>flds. ExprFields u (cm_Expr c) = Inr flds \<and>
     set (deps_of deps (cm_Name c)) = {d \<in> set flds. d \<in> set names})"
proof (induction cs arbitrary: deps)
  case (Cons c cs)
  then obtain flds deps' where *: "ExprFields u (cm_Expr c) = Inr flds" "add_deps u names cs = Inr deps'"
    "deps = (cm_Name c, sort (filter (\<lambda>f. f \<in> set names) flds)) # deps'"
    by (auto split: sum.splits)
  from Cons.IH [OF *(2)] Cons.prems(2) have IH: "map fst deps' = map cm_Name cs"
    "\<forall>c\<in>set cs. \<exists>flds. ExprFields u (cm_Expr c) = Inr flds \<and> set (deps_of deps' (cm_Name c)) = {d \<in> set flds. d \<in> set names}"
    by simp_all
  have "deps_of deps (cm_Name b) = deps_of deps' (cm_Name b)" if "b \<in> set cs" for b
    using Cons.prems(2) imageI [OF that, of cm_Name] *(3) by (auto simp: deps_of_def)
  moreover have "set (deps_of deps (cm_Name c)) = {d \<in> set flds. d \<in> set names}" using *(3) by (auto simp: deps_of_def)
  moreover have "map fst deps = cm_Name c # map cm_Name cs" using *(3) IH(1) by simp
  ultimately show ?case using IH(2) *(1) by simp
qed simp

lemma add_deps_error: "add_deps u names cs = Inl err \<Longrightarrow> \<exists>c e. c \<in> set cs \<and> ExprFields u (cm_Expr c) = Inl e \<and> err = ComputedExpression (cm_Name c) e"
  by (induction cs arbitrary: err) (auto split: sum.splits)

text \<open>Every element of the first list is followed by later elements it does not depend on.\<close>

fun in_order :: "(string \<Rightarrow> string list) \<Rightarrow> string list \<Rightarrow> bool" where
  "in_order deps [] \<longleftrightarrow> True"
| "in_order deps (x # earlier) \<longleftrightarrow> set (deps x) \<subseteq> set earlier \<and> in_order deps earlier"

fun chain :: "(string \<Rightarrow> string list) \<Rightarrow> string list \<Rightarrow> bool" where
  "chain deps (x # y # rest) \<longleftrightarrow> y \<in> set (deps x) \<and> chain deps (y # rest)"
| "chain deps _ \<longleftrightarrow> True"

lemma chain_snoc: "chain deps xs \<Longrightarrow> xs = [] \<or> y \<in> set (deps (last xs)) \<Longrightarrow> chain deps (xs @ [y])"
  by (induction deps xs rule: chain.induct) auto

lemma chain_path: "chain deps (x # xs) \<Longrightarrow> y \<in> set xs \<Longrightarrow> (x, y) \<in> {(a, b). b \<in> set (deps a)}\<^sup>+"
proof (induction xs arbitrary: x)
  case (Cons z zs)
  then have xz: "(x, z) \<in> {(a, b). b \<in> set (deps a)}" by simp
  show ?case
  proof (cases "y = z")
    case True
    then show ?thesis using xz by auto
  next
    case False
    then have "(z, y) \<in> {(a, b). b \<in> set (deps a)}\<^sup>+" using Cons by auto
    with xz show ?thesis by (rule trancl_into_trancl2)
  qed
qed simp

lemma chain_cycle:
  assumes "chain deps xs" "xs \<noteq> []" "y \<in> set xs" "y \<in> set (deps (last xs))"
  shows "(y, y) \<in> {(a, b). b \<in> set (deps a)}\<^sup>+"
proof -
  from assms(3) obtain us vs where xs: "xs = us @ y # vs" by (auto simp: in_set_conv_decomp)
  have "chain deps (y # vs @ [y])"
    using chain_snoc [of deps xs y] assms(1,4) xs
  proof -
    have "chain deps (us @ y # vs) \<Longrightarrow> chain deps (y # vs)" for us
      by (induction us) (auto, metis chain.simps(1) append_Cons append_Nil list.exhaust)
    then have "chain deps (y # vs)" using assms(1) xs by blast
    then show ?thesis using chain_snoc [of deps "y # vs" y] assms(4) xs by simp
  qed
  then show ?thesis by (rule chain_path) simp
qed

definition visit_inv :: "(string \<Rightarrow> string list) \<Rightarrow> string set \<Rightarrow> (string \<rightharpoonup> Computed) \<Rightarrow> visit_state \<Rightarrow> bool" where
  "visit_inv deps names byName st \<longleftrightarrow>
     distinct (vs_stack st) \<and> set (vs_stack st) \<subseteq> names \<and> chain deps (vs_stack st) \<and>
     (\<forall>x. vs_state st x = (if x \<in> set (vs_stack st) then 1 else if x \<in> cm_Name ` set (vs_ordered st) then 2 else 0)) \<and>
     set (vs_stack st) \<inter> cm_Name ` set (vs_ordered st) = {} \<and>
     distinct (map cm_Name (vs_ordered st)) \<and> in_order deps (rev (map cm_Name (vs_ordered st))) \<and>
     (\<forall>c\<in>set (vs_ordered st). cm_Name c \<in> names \<and> byName (cm_Name c) = Some c)"

definition visit_ok :: "(string \<Rightarrow> string list) \<Rightarrow> string set \<Rightarrow> (string \<rightharpoonup> Computed) \<Rightarrow> visit_state \<Rightarrow> string list \<Rightarrow> order_error + visit_state \<Rightarrow> bool" where
  "visit_ok deps names byName st done r \<longleftrightarrow>
     (case r of
        Inl err \<Rightarrow> err \<noteq> OrderFuel \<and> (\<exists>p. err = DependencyCycle p) \<and> \<not> acyclic {(a, b). b \<in> set (deps a)}
      | Inr st' \<Rightarrow>
          visit_inv deps names byName st' \<and> vs_stack st' = vs_stack st \<and>
          set (vs_ordered st) \<subseteq> set (vs_ordered st') \<and> set done \<subseteq> cm_Name ` set (vs_ordered st'))"

lemma visit_each_ok:
  assumes "\<And>name st. name \<in> set todo \<Longrightarrow> visit_inv deps names byName st \<Longrightarrow> vs_stack st = stack \<Longrightarrow>
      visit_ok deps names byName st [name] (f name st)"
    and "visit_inv deps names byName st" "vs_stack st = stack"
  shows "visit_ok deps names byName st todo (visit_each f todo st)"
  using assms
proof (induction todo arbitrary: st)
  case Nil
  then show ?case by (simp add: visit_ok_def)
next
  case (Cons name rest)
  have first: "visit_ok deps names byName st [name] (f name st)" using Cons.prems by simp
  show ?case
  proof (cases "f name st")
    case (Inl err)
    with first show ?thesis by (simp add: visit_ok_def)
  next
    case (Inr st1)
    with first have st1: "visit_inv deps names byName st1" "vs_stack st1 = stack" "set (vs_ordered st) \<subseteq> set (vs_ordered st1)"
      "name \<in> cm_Name ` set (vs_ordered st1)"
      using Cons.prems(3) by (auto simp: visit_ok_def)
    have "visit_ok deps names byName st1 rest (visit_each f rest st1)"
      using Cons.IH [OF _ st1(1,2)] Cons.prems(1) by simp
    with Inr st1 Cons.prems(3) show ?thesis by (auto simp: visit_ok_def split: sum.splits)
  qed
qed

lemma visit_correct:
  assumes names: "finite names" "\<forall>x\<in>names. set (deps_of deps x) \<subseteq> names"
    and byName: "\<forall>x\<in>names. \<exists>c. byName x = Some c \<and> cm_Name c = x"
  shows "visit_inv (deps_of deps) names byName st \<Longrightarrow> name \<in> names \<Longrightarrow>
    vs_stack st = [] \<or> name \<in> set (deps_of deps (last (vs_stack st))) \<Longrightarrow> card names < n + length (vs_stack st) \<Longrightarrow>
    visit_ok (deps_of deps) names byName st [name] (visit n deps byName name st)"
proof (induction n arbitrary: name st)
  case 0
  then have "length (vs_stack st) \<le> card names"
    using names(1) by (metis visit_inv_def card_mono distinct_card)
  with 0 show ?case by simp
next
  case (Suc n)
  let ?D = "deps_of deps"
  from Suc.prems(1) have inv: "distinct (vs_stack st)" "set (vs_stack st) \<subseteq> names" "chain ?D (vs_stack st)"
    "\<And>x. vs_state st x = (if x \<in> set (vs_stack st) then 1 else if x \<in> cm_Name ` set (vs_ordered st) then 2 else 0)"
    "set (vs_stack st) \<inter> cm_Name ` set (vs_ordered st) = {}" "distinct (map cm_Name (vs_ordered st))"
    "in_order ?D (rev (map cm_Name (vs_ordered st)))" "\<forall>c\<in>set (vs_ordered st). cm_Name c \<in> names \<and> byName (cm_Name c) = Some c"
    by (simp_all add: visit_inv_def)
  consider (gray) "name \<in> set (vs_stack st)" | (black) "name \<notin> set (vs_stack st)" "name \<in> cm_Name ` set (vs_ordered st)"
    | (white) "name \<notin> set (vs_stack st)" "name \<notin> cm_Name ` set (vs_ordered st)"
    by blast
  then show ?case
  proof cases
    case gray
    then have "vs_stack st \<noteq> []" by auto
    with chain_cycle [OF inv(3) this gray] Suc.prems(3) have "\<not> acyclic {(a, b). b \<in> set (?D a)}"
      by (auto simp: acyclic_def)
    with gray show ?thesis by (simp add: inv(4) visit_ok_def)
  next
    case black
    then show ?thesis using Suc.prems(1) by (simp add: inv(4) visit_ok_def)
  next
    case white
    define st1 where "st1 = st\<lparr>vs_state := (vs_state st)(name := 1), vs_stack := vs_stack st @ [name]\<rparr>"
    have st1: "visit_inv ?D names byName st1" "vs_stack st1 = vs_stack st @ [name]"
      using inv white Suc.prems(2) chain_snoc [OF inv(3) Suc.prems(3)] by (auto simp: visit_inv_def st1_def)
    have each: "visit_ok ?D names byName st1 (?D name) (visit_each (visit n deps byName) (?D name) st1)"
    proof (rule visit_each_ok [OF _ st1])
      fix d st2
      assume "d \<in> set (?D name)" "visit_inv ?D names byName st2" "vs_stack st2 = vs_stack st @ [name]"
      then show "visit_ok ?D names byName st2 [d] (visit n deps byName d st2)"
        using Suc.IH [of st2 d] Suc.prems(2,4) names(2) by auto
    qed
    have step: "visit (Suc n) deps byName name st =
        (case visit_each (visit n deps byName) (?D name) st1 of
           Inl err \<Rightarrow> Inl err
         | Inr st' \<Rightarrow>
             Inr (st'\<lparr>vs_stack := butlast (vs_stack st'), vs_state := (vs_state st')(name := 2),
                      vs_ordered := vs_ordered st' @ [the (byName name)]\<rparr>))"
      using white by (simp add: inv(4) st1_def)
    show ?thesis
    proof (cases "visit_each (visit n deps byName) (?D name) st1")
      case (Inl err)
      with each show ?thesis unfolding step Inl by (simp add: visit_ok_def)
    next
      case (Inr st2)
      with each have st2: "visit_inv ?D names byName st2" "vs_stack st2 = vs_stack st @ [name]"
        "set (vs_ordered st) \<subseteq> set (vs_ordered st2)" "set (?D name) \<subseteq> cm_Name ` set (vs_ordered st2)"
        by (auto simp: visit_ok_def st1(2) st1_def)
      obtain c where c: "byName name = Some c" "cm_Name c = name" using byName Suc.prems(2) by blast
      define st3 where "st3 = st2\<lparr>vs_stack := butlast (vs_stack st2), vs_state := (vs_state st2)(name := 2),
          vs_ordered := vs_ordered st2 @ [the (byName name)]\<rparr>"
      have "visit_inv ?D names byName st3"
        using st2 c inv(1,2,3) white(1) Suc.prems(2)
        by (auto simp: visit_inv_def st3_def)
      then have "visit_ok ?D names byName st [name] (Inr st3)"
        using st2(2,3) c by (auto simp: visit_ok_def st3_def)
      then show ?thesis unfolding step Inr by (simp add: st3_def)
    qed
  qed
qed

lemma in_order_split: "in_order deps (ys @ x # zs) \<Longrightarrow> set (deps x) \<subseteq> set zs"
  by (induction ys) auto

lemma in_order_acyclic:
  assumes "in_order deps xs" "distinct xs" "\<forall>x. x \<notin> set xs \<longrightarrow> deps x = []"
  shows "acyclic {(a, b). b \<in> set (deps a)}"
proof -
  define pos where "pos x = length (dropWhile (\<lambda>y. y \<noteq> x) xs)" for x
  have "pos b < pos a" if "b \<in> set (deps a)" for a b
  proof -
    have "a \<in> set xs" using that assms(3) by (metis empty_iff list.set(1))
    then obtain ys zs where xs: "xs = ys @ a # zs" "a \<notin> set ys" by (meson split_list_first)
    then have "b \<in> set zs" using in_order_split [of deps ys a zs] assms(1) that by auto
    then have "b \<notin> set ys" "b \<noteq> a" using assms(2) xs(1) by auto
    have "pos a = length (a # zs)" using xs by (auto simp: pos_def dropWhile_append3)
    moreover have "pos b \<le> length zs"
    proof -
      have "dropWhile (\<lambda>y. y \<noteq> b) xs = dropWhile (\<lambda>y. y \<noteq> b) zs"
        unfolding xs(1) using \<open>b \<notin> set ys\<close> \<open>b \<noteq> a\<close> by (subst dropWhile_append2) auto
      then show ?thesis by (simp add: pos_def length_dropWhile_le)
    qed
    ultimately show ?thesis by simp
  qed
  then have "{(a, b). b \<in> set (deps a)} \<subseteq> (measure pos)\<inverse>" by auto
  then show ?thesis by (metis acyclic_converse acyclic_subset wf_acyclic wf_measure)
qed

lemma depends_deps:
  assumes "add_deps u (map cm_Name cs) cs = Inr deps" "distinct (map cm_Name cs)"
  shows "depends u cs = {(a, b). b \<in> set (deps_of deps a)}"
proof -
  note deps = add_deps_result [OF assms]
  have out: "deps_of deps a = []" if "a \<notin> cm_Name ` set cs" for a
    using deps that by (metis deps_of_def image_set list.set_map map_of_eq_None_iff option.simps(4))
  show ?thesis
  proof (rule equalityI; rule subrelI)
    fix a b assume "(a, b) \<in> depends u cs"
    then obtain c where c0: "c \<in> set cs" "a = cm_Name c" "b \<in> cm_Name ` set cs"
      "case ExprFields u (cm_Expr c) of Inl _ \<Rightarrow> False | Inr flds \<Rightarrow> b \<in> set flds"
      by (auto simp: depends_def)
    then obtain flds where c: "c \<in> set cs" "a = cm_Name c" "ExprFields u (cm_Expr c) = Inr flds" "b \<in> set flds"
      "b \<in> cm_Name ` set cs"
      by (cases "ExprFields u (cm_Expr c)") auto
    with deps have "set (deps_of deps a) = {d \<in> set flds. d \<in> cm_Name ` set cs}" by fastforce
    with c show "(a, b) \<in> {(a, b). b \<in> set (deps_of deps a)}" by simp
  next
    fix a b assume "(a, b) \<in> {(a, b). b \<in> set (deps_of deps a)}"
    then have b: "b \<in> set (deps_of deps a)" by simp
    then have "a \<in> cm_Name ` set cs" using out by (metis empty_iff list.set(1))
    then obtain c where c: "c \<in> set cs" "a = cm_Name c" by blast
    with deps obtain flds where "ExprFields u (cm_Expr c) = Inr flds" "b \<in> set flds" "b \<in> cm_Name ` set cs" using b by fastforce
    with c show "(a, b) \<in> depends u cs" by (force simp: depends_def)
  qed
qed

lemma OrderComputed_run:
  assumes ne: "cs \<noteq> []" and names: "distinct (map cm_Name cs)" and deps: "add_deps u (map cm_Name cs) cs = Inr deps"
  shows "case OrderComputed u cs of
      Inl err \<Rightarrow> (\<exists>p. err = DependencyCycle p) \<and> \<not> acyclic (depends u cs)
    | Inr out \<Rightarrow> distinct (map cm_Name out) \<and> set out = set cs \<and> in_order (deps_of deps) (rev (map cm_Name out))"
proof -
  define byName where "byName = map_of (map (\<lambda>c. (cm_Name c, c)) cs)"
  define st0 where "st0 = \<lparr>vs_state = (\<lambda>_. 0), vs_stack = [], vs_ordered = []\<rparr>"
  let ?N = "cm_Name ` set cs" and ?D = "deps_of deps"
  note facts = add_deps_result [OF deps names]
  have found: "byName (cm_Name c) = Some c" if "c \<in> set cs" for c
    unfolding byName_def using that names by (subst map_of_eq_Some_iff) (auto simp: o_def)
  have sub: "\<forall>x\<in>?N. set (?D x) \<subseteq> ?N" using facts by fastforce
  have byN: "\<forall>x\<in>?N. \<exists>c. byName x = Some c \<and> cm_Name c = x" using found by blast
  have inv0: "visit_inv ?D ?N byName st0" by (simp add: visit_inv_def st0_def)
  have card: "card ?N \<le> length cs" by (metis card_image_le card_length finite_set le_trans)
  have run: "visit_ok ?D ?N byName st0 (map cm_Name cs) (visit_each (visit (length cs + 1) deps byName) (map cm_Name cs) st0)"
  proof (rule visit_each_ok [OF _ inv0])
    fix name st
    assume "name \<in> set (map cm_Name cs)" "visit_inv ?D ?N byName st" "vs_stack st = vs_stack st0"
    then show "visit_ok ?D ?N byName st [name] (visit (length cs + 1) deps byName name st)"
      using visit_correct [OF _ sub byN, of st name "length cs + 1"] card by (simp add: st0_def)
  qed simp
  have eq: "OrderComputed u cs =
      (case visit_each (visit (length cs + 1) deps byName) (map cm_Name cs) st0 of Inl err \<Rightarrow> Inl err | Inr st \<Rightarrow> Inr (vs_ordered st))"
    using ne names deps add_names_None [of "[]" cs] by (simp add: OrderComputed_def byName_def st0_def)
  show ?thesis
  proof (cases "visit_each (visit (length cs + 1) deps byName) (map cm_Name cs) st0")
    case (Inl err)
    with run eq depends_deps [OF deps names] show ?thesis by (simp add: visit_ok_def)
  next
    case (Inr st)
    with run have st: "visit_inv ?D ?N byName st" "?N \<subseteq> cm_Name ` set (vs_ordered st)" by (auto simp: visit_ok_def)
    have "set (vs_ordered st) = set cs"
    proof
      show "set (vs_ordered st) \<subseteq> set cs" using st(1) by (auto simp: visit_inv_def byName_def dest!: map_of_SomeD)
      show "set cs \<subseteq> set (vs_ordered st)"
      proof
        fix c assume c: "c \<in> set cs"
        with st(2) obtain d where d: "d \<in> set (vs_ordered st)" "cm_Name d = cm_Name c" by (metis imageE imageI subsetD)
        with st(1) have "byName (cm_Name c) = Some d" by (auto simp: visit_inv_def)
        with found [OF c] d(1) show "c \<in> set (vs_ordered st)" by simp
      qed
    qed
    with st(1) Inr eq show ?thesis by (simp add: visit_inv_def)
  qed
qed

text \<open>
  C38: the order of computed values succeeds exactly when their names are distinct, their expressions
  parse and no value depends on itself, directly or through others. The result then has every value
  once, behind the values its expression reads.
\<close>

theorem OrderComputed_topological:
  "((\<exists>out. OrderComputed u cs = Inr out) \<longleftrightarrow>
      cs = [] \<or> distinct (map cm_Name cs) \<and> (\<forall>c\<in>set cs. \<exists>flds. ExprFields u (cm_Expr c) = Inr flds) \<and> acyclic (depends u cs)) \<and>
   (\<forall>out. OrderComputed u cs = Inr out \<longrightarrow>
      distinct (map cm_Name out) \<and> set out = set cs \<and>
      (\<forall>xs c ys. out = xs @ c # ys \<longrightarrow> (\<forall>d. (cm_Name c, d) \<in> depends u cs \<longrightarrow> d \<in> cm_Name ` set xs)))"
proof (cases "cs = [] \<or> \<not> distinct (map cm_Name cs)")
  case True
  then show ?thesis
    using add_names_None [of "[]" cs] by (auto simp: OrderComputed_def split: option.splits)
next
  case False
  then have ne: "cs \<noteq> []" and names: "distinct (map cm_Name cs)" by auto
  show ?thesis
  proof (cases "add_deps u (map cm_Name cs) cs")
    case (Inl err)
    then have "OrderComputed u cs = Inl err" using ne names add_names_None [of "[]" cs] by (simp add: OrderComputed_def)
    with add_deps_error [OF Inl] ne show ?thesis by force
  next
    case (Inr deps)
    note run = OrderComputed_run [OF ne names Inr]
    have parse: "\<forall>c\<in>set cs. \<exists>flds. ExprFields u (cm_Expr c) = Inr flds" using add_deps_result [OF Inr names] by blast
    have dep: "depends u cs = {(a, b). b \<in> set (deps_of deps a)}" by (rule depends_deps [OF Inr names])
    show ?thesis
    proof (cases "OrderComputed u cs")
      case (Inl err)
      with run ne show ?thesis by simp
    next
      case (Inr out)
      with run have out: "distinct (map cm_Name out)" "set out = set cs" "in_order (deps_of deps) (rev (map cm_Name out))" by simp_all
      have "acyclic (depends u cs)"
      proof -
        have "deps_of deps x = []" if "x \<notin> set (rev (map cm_Name out))" for x
        proof -
          have "x \<notin> fst ` set deps"
            using add_deps_result [OF \<open>add_deps u (map cm_Name cs) cs = Inr deps\<close> names] that out(2)
            by (metis image_set list.set_map set_rev)
          then have "map_of deps x = None" by (simp add: map_of_eq_None_iff)
          then show ?thesis by (simp add: deps_of_def)
        qed
        with in_order_acyclic [OF out(3)] out(1) dep show ?thesis by simp
      qed
      moreover have "d \<in> cm_Name ` set xs" if "out = xs @ c # ys" "(cm_Name c, d) \<in> depends u cs" for xs c ys d
        using in_order_split [of "deps_of deps" "rev (map cm_Name ys)" "cm_Name c" "rev (map cm_Name xs)"] out(3) that dep
        by auto
      ultimately show ?thesis using Inr out parse names ne by auto
    qed
  qed
qed

definition example_computed :: "string \<Rightarrow> string \<Rightarrow> Computed" where
  "example_computed name expr =
     \<lparr>cm_Name = name, cm_Type = ''int'', cm_Expr = expr, cm_Span = line_span 1, cm_ExprSpan = line_span 1\<rparr>"

lemma example_order:
  "OrderComputed ascii [example_computed ''total'' ''half + n'', example_computed ''half'' ''n / 2''] =
   Inr [example_computed ''half'' ''n / 2'', example_computed ''total'' ''half + n'']"
  by code_simp

lemma example_cycle:
  "OrderComputed ascii [example_computed ''a'' ''b + 1'', example_computed ''b'' ''c'', example_computed ''c'' ''b''] =
   Inl (DependencyCycle ''b -> c -> b'')"
  by code_simp

theorem OrderComputed_topological_witness:
  "acyclic (depends ascii [example_computed ''total'' ''half + n'', example_computed ''half'' ''n / 2''])"
  using OrderComputed_topological [of ascii "[example_computed ''total'' ''half + n'', example_computed ''half'' ''n / 2'']"]
    example_order by blast

section \<open>Canonical texts\<close>

definition one_space :: "string \<Rightarrow> string" where
  "one_space s = Join (Fields s) '' ''"

definition canonical_or_text :: "(string \<Rightarrow> string) \<Rightarrow> unicode \<Rightarrow> string \<Rightarrow> string \<Rightarrow> string" where
  "canonical_or_text Quote u expr fallback = (case CanonicalExpr Quote u expr of Inr c \<Rightarrow> c | Inl _ \<Rightarrow> one_space fallback)"

definition CanonicalStatement :: "(string \<Rightarrow> string) \<Rightarrow> unicode \<Rightarrow> string \<Rightarrow> string" where
  "CanonicalStatement Quote u statement0 =
     (let statement = TrimSpace (TrimSuffix statement0 '';'')
      in if statement = [] then []
         else
           (case CutPrefix statement ''return '' of
              Some expr \<Rightarrow> ''return '' @ canonical_or_text Quote u expr (TrimSpace expr)
            | None \<Rightarrow>
                (case parseLetStatement statement of
                   Some l \<Rightarrow>
                     ''let '' @ lt_Name l @ '' '' @ lt_Type l @ '' = '' @
                       canonical_or_text Quote u (TrimSpace (lt_Expr l)) (TrimSpace (lt_Expr l))
                 | None \<Rightarrow>
                     (case parseIncDecStatement statement of
                        Some (target, op) \<Rightarrow> target @ op
                      | None \<Rightarrow>
                          (case parseAssignStatement statement of
                             Some (target, expr) \<Rightarrow>
                               target @ '' = '' @ canonical_or_text Quote u (TrimSpace expr) (TrimSpace expr)
                           | None \<Rightarrow>
                               (case ParseCall statement of
                                  Some call \<Rightarrow>
                                    cl_Name call @ ''('' @
                                      Join (map (\<lambda>arg. canonical_or_text Quote u arg arg) (cl_Args call)) '','' @ '')''
                                | None \<Rightarrow> one_space statement))))))"

definition canonicalStatements :: "(string \<Rightarrow> string) \<Rightarrow> unicode \<Rightarrow> string list \<Rightarrow> string" where
  "canonicalStatements Quote u statements = Join (map (CanonicalStatement Quote u) statements) '';''"

definition canonical_function :: "Function \<Rightarrow> string" where
  "canonical_function f =
     (let params = Join (map (\<lambda>p. pm_Name p @ '':'' @ pm_Type p) (fn_Params f)) '','';
          body = Join (map one_space (fn_Statements f)) '';''
      in if fn_ReturnType f \<noteq> [] then fn_Name f @ ''('' @ params @ '')'' @ fn_ReturnType f @ ''{'' @ body @ ''}''
         else (if fn_Async f then ''async '' else []) @ fn_Name f @ ''('' @ params @ ''){'' @ body @ ''}'')"

definition canonical_computed :: "(string \<Rightarrow> string) \<Rightarrow> unicode \<Rightarrow> Computed \<Rightarrow> string" where
  "canonical_computed Quote u c =
     ''computed '' @ cm_Name c @ '' '' @ cm_Type c @ ''{return '' @ canonical_or_text Quote u (cm_Expr c) (cm_Expr c) @ ''}''"

definition canonical_effect :: "(string \<Rightarrow> string) \<Rightarrow> unicode \<Rightarrow> Effect \<Rightarrow> string" where
  "canonical_effect Quote u e =
     ''effect('' @ ef_Field e @ ''){'' @ canonicalStatements Quote u (ef_Statements e) @ ''}'' @
     (if ef_Cleanup e \<noteq> [] then ''cleanup{'' @ canonicalStatements Quote u (ef_Cleanup e) @ ''}'' else [])"

text \<open>The names of a parsed program are distinct, so that the order of the sorted parts is determined.\<close>

definition Canonical :: "(string \<Rightarrow> string) \<Rightarrow> unicode \<Rightarrow> Program \<Rightarrow> string" where
  "Canonical Quote u p =
     (if pr_Functions p = [] \<and> pr_Mount p = [] \<and> pr_Destroy p = [] \<and> pr_Effects p = [] \<and> pr_Refs p = [] \<and> pr_Computed p = []
      then []
      else
        Join
          (map canonical_function (sort_key fn_Name (pr_Functions p)) @
           map (\<lambda>r. ''ref '' @ rf_Name r @ '' '' @ rf_Kind r) (sort_key rf_Name (pr_Refs p)) @
           map (canonical_computed Quote u) (sort_key cm_Name (pr_Computed p)) @
           (if pr_Mount p \<noteq> [] then [''mount{'' @ canonicalStatements Quote u (pr_Mount p) @ ''}''] else []) @
           (if pr_Destroy p \<noteq> [] then [''destroy{'' @ canonicalStatements Quote u (pr_Destroy p) @ ''}''] else []) @
           map (canonical_effect Quote u)
             (sort_key ef_Field (sort_key (\<lambda>e. canonicalStatements Quote u (ef_Statements e)) (pr_Effects p))))
          ''|'')"

lemma map_sort_key: "map f (sort_key f xs) = sort (map f xs)"
  by (rule properties_for_sort [symmetric]) (simp_all add: mset_map)

lemma sort_key_permuted:
  assumes "mset xs = mset ys" "distinct (map f xs)"
  shows "sort_key f xs = sort_key f ys"
proof (rule map_inj_on)
  show "map f (sort_key f xs) = map f (sort_key f ys)"
    unfolding map_sort_key using assms(1) by (metis mset_map mset_sort sorted_sort properties_for_sort)
  have "set ys = set xs" using assms(1) by (metis set_mset_mset)
  then show "inj_on f (set (sort_key f xs) \<union> set (sort_key f ys))" using assms(2) by (simp add: distinct_map)
qed

text \<open>
  The canonical text of a program does not depend on the order in which its functions, references
  and computed values are declared.
\<close>

theorem Canonical_permuted:
  assumes "program_ok p" "mset (pr_Functions q) = mset (pr_Functions p)" "mset (pr_Refs q) = mset (pr_Refs p)"
    "mset (pr_Computed q) = mset (pr_Computed p)"
    "pr_Mount q = pr_Mount p" "pr_Destroy q = pr_Destroy p" "pr_Effects q = pr_Effects p"
  shows "Canonical Quote u q = Canonical Quote u p"
proof -
  from assms(1) have "distinct (map fn_Name (pr_Functions p))" "distinct (map rf_Name (pr_Refs p))"
    "distinct (map cm_Name (pr_Computed p))"
    by (simp_all add: program_ok_def declared_names_def)
  then have "sort_key fn_Name (pr_Functions q) = sort_key fn_Name (pr_Functions p)"
    "sort_key rf_Name (pr_Refs q) = sort_key rf_Name (pr_Refs p)"
    "sort_key cm_Name (pr_Computed q) = sort_key cm_Name (pr_Computed p)"
    using assms(2-4) sort_key_permuted by metis+
  moreover have "pr_Functions q = [] \<longleftrightarrow> pr_Functions p = []" "pr_Refs q = [] \<longleftrightarrow> pr_Refs p = []"
    "pr_Computed q = [] \<longleftrightarrow> pr_Computed p = []"
    using assms(2-4) by (metis mset_zero_iff)+
  ultimately show ?thesis using assms(5-7) by (simp add: Canonical_def)
qed

text \<open>Boundary cases: the stores a program uses, and blanks within strings, are not part of the text.\<close>

lemma canonical_ignores_stores:
  "map_sum id (Canonical (\<lambda>s. s) ascii) (Parse ascii (''use cart'' @ [CHR 0x0A] @ ''ref box div'')) =
   map_sum id (Canonical (\<lambda>s. s) ascii) (Parse ascii (''use shop.basket'' @ [CHR 0x0A] @ ''ref box div''))"
  by code_simp

lemma canonical_joins_blanks:
  "canonical_function \<lparr>fn_Name = ''f'', fn_Async = False, fn_Params = [], fn_ReturnType = [],
     fn_Statements = [''x = '' @ [CHR 0x22] @ ''a  b'' @ [CHR 0x22]], fn_StatementSpans = [line_span 2],
     fn_Span = \<lparr>StartLine = 1, EndLine = 3\<rparr>\<rparr> =
   canonical_function \<lparr>fn_Name = ''f'', fn_Async = False, fn_Params = [], fn_ReturnType = [],
     fn_Statements = [''x = '' @ [CHR 0x22] @ ''a b'' @ [CHR 0x22]], fn_StatementSpans = [line_span 2],
     fn_Span = \<lparr>StartLine = 1, EndLine = 3\<rparr>\<rparr>"
  by code_simp

text \<open>An expression statement with a comparison is read as an assignment of the rest behind its first equals sign.\<close>

lemma comparison_as_assignment: "parseAssignStatement ''a == b'' = Some (''a'', ''= b'')"
  by code_simp

end
