(* ===== verification/ClientIsland.thy ===== *)
theory ClientIsland
  imports ClientProgram
begin

text \<open>
  \<open>internal/clientlang/island_validation.go\<close>: the checks of client statements and of event expressions
  against the state, the locals, the references, events and stores of a component, and the fields they
  mention. A nil map of symbols, against which no field is looked up, is \<open>None\<close>. The fields of an
  object literal are checked in the order of the source, where the code ranges over a map: the order
  only decides which of several errors is reported.
\<close>

section \<open>Statements\<close>

fun island_inc_dec_loop :: "string list \<Rightarrow> string \<Rightarrow> (string \<times> string) option" where
  "island_inc_dec_loop [] source = None"
| "island_inc_dec_loop (op # ops) source =
     (if HasSuffix source op \<and> isIdentifier (TrimSuffix source op) then Some (TrimSuffix source op, op)
      else island_inc_dec_loop ops source)"

definition parseIslandIncDec :: "string \<Rightarrow> (string \<times> string) option" where
  "parseIslandIncDec source = island_inc_dec_loop [''++'', ''--''] source"

definition nextIslandIdent :: "string \<Rightarrow> (string \<times> string) option" where
  "nextIslandIdent source =
     (case source of [] \<Rightarrow> None
      | c # _ \<Rightarrow> if isIdentStart c then Some (takeWhile isIdentPart source, dropWhile isIdentPart source) else None)"

definition parseIslandAssign :: "string \<Rightarrow> (string \<times> string) option" where
  "parseIslandAssign source =
     (case nextIslandIdent source of
        None \<Rightarrow> None
      | Some (name, rest) \<Rightarrow>
          (case dropWhile isSpace rest of
             [] \<Rightarrow> None
           | c # rest' \<Rightarrow>
               if c \<noteq> CHR ''='' \<or> dropWhile isSpace rest' = [] then None
               else Some (name, TrimSpace (dropWhile isSpace rest'))))"

definition parseIslandRefCall :: "string \<Rightarrow> string option" where
  "parseIslandRefCall source =
     (case Cut source CHR ''.'' of
        (name, rest, ok) \<Rightarrow>
          if \<not> ok \<or> \<not> isIdentifier name then None
          else if \<not> HasSuffix rest ''()'' then None
          else if TrimSuffix rest ''()'' \<in> set [''Focus'', ''Blur'', ''ScrollIntoView'', ''Select''] then Some name
          else None)"

definition parseIslandLet :: "string \<Rightarrow> (string \<times> string \<times> string) option" where
  "parseIslandLet source =
     (case CutPrefix source ''let'' of
        None \<Rightarrow> None
      | Some rest0 \<Rightarrow>
          if rest0 = [] \<or> \<not> isSpace (hd rest0) then None
          else
            (case nextIslandIdent (TrimSpace rest0) of
               None \<Rightarrow> None
             | Some (name, rest1) \<Rightarrow>
                 (case nextIslandIdent (dropWhile isSpace rest1) of
                    None \<Rightarrow> None
                  | Some (ty, rest2) \<Rightarrow>
                      (case CutPrefix (dropWhile isSpace rest2) ''='' of
                         None \<Rightarrow> None
                       | Some rest3 \<Rightarrow> if TrimSpace rest3 = [] then None else Some (name, ty, TrimSpace rest3)))))"

text \<open>\<open>strings.LastIndex\<close>.\<close>

definition last_str_index :: "string \<Rightarrow> string \<Rightarrow> nat option" where
  "last_str_index s p = map_option (\<lambda>i. length s - i - length p) (str_index (rev s) (rev p))"

definition parseIslandFetchJSON :: "string \<Rightarrow> (ValueType \<times> string) option" where
  "parseIslandFetchJSON source =
     (case CutPrefix source ''fetchJSON['' of
        None \<Rightarrow> None
      | Some rest \<Rightarrow>
          (case last_str_index rest '']('' of
             None \<Rightarrow> None
           | Some closeType \<Rightarrow>
               let ty = take closeType rest; args = drop (closeType + 1) rest
               in if \<not> HasPrefix args ''('' \<or> \<not> HasSuffix args '')'' \<or> ty = [] then None
                  else Some (NormalizeType (TrimSpace ty), TrimSpace (butlast (tl args)))))"

definition parseIslandAwaitFetch :: "string \<Rightarrow> (ValueType \<times> string) option" where
  "parseIslandAwaitFetch source =
     (case CutPrefix source ''await'' of
        None \<Rightarrow> None
      | Some rest \<Rightarrow> if rest = [] \<or> \<not> isSpace (hd rest) then None else parseIslandFetchJSON (TrimSpace rest))"

definition ParseAwaitFetchExpression :: "string \<Rightarrow> (ValueType \<times> string) option" where
  "ParseAwaitFetchExpression source = parseIslandFetchJSON (TrimSpace source)"

definition IslandRefStatement :: "string \<Rightarrow> string option" where
  "IslandRefStatement expr = parseIslandRefCall (TrimSpace expr)"

definition isArrayMutationCall :: "string \<Rightarrow> bool" where
  "isArrayMutationCall name \<longleftrightarrow> name \<in> set [''append'', ''remove'', ''move'']"

section \<open>Object literals and symbols\<close>

datatype item_error =
  ItemBraces | ItemsMissing | ItemList list_error | ItemSyntax string | ItemName string | ItemNoExpression string | ItemTwice string

fun object_fields :: "string list \<Rightarrow> string list \<Rightarrow> item_error + (string \<times> string) list" where
  "object_fields [] seen = Inr []"
| "object_fields (part # parts) seen =
     (case Cut part CHR '':'' of
        (name0, expr0, ok) \<Rightarrow>
          if \<not> ok then Inl (ItemSyntax part)
          else if \<not> isIdentifier (TrimSpace name0) then Inl (ItemName (TrimSpace name0))
          else if TrimSpace expr0 = [] then Inl (ItemNoExpression (TrimSpace name0))
          else if TrimSpace name0 \<in> set seen then Inl (ItemTwice (TrimSpace name0))
          else (case object_fields parts (TrimSpace name0 # seen) of
                  Inl err \<Rightarrow> Inl err
                | Inr items \<Rightarrow> Inr ((TrimSpace name0, TrimSpace expr0) # items)))"

definition parseObjectLiteral :: "string \<Rightarrow> item_error + (string \<times> string) list" where
  "parseObjectLiteral source0 =
     (let source = TrimSpace source0
      in if \<not> HasPrefix source ''{'' \<or> \<not> HasSuffix source ''}'' then Inl ItemBraces
         else
           let body = TrimSpace (butlast (tl source))
           in if body = [] then Inl ItemsMissing
              else (case splitCommaList body of Inl err \<Rightarrow> Inl (ItemList err) | Inr parts \<Rightarrow> object_fields parts []))"

type_synonym symbol_map = "symbols option"

definition look_up :: "symbol_map \<Rightarrow> symbols" where
  "look_up m = (case m of None \<Rightarrow> Map.empty | Some f \<Rightarrow> f)"

definition boolFieldSymbols :: "(string \<Rightarrow> bool) option \<Rightarrow> symbol_map" where
  "boolFieldSymbols flds = map_option (\<lambda>f name. if f name then Some TypeUnknown else None) flds"

definition itemFieldSymbols :: "string \<Rightarrow> symbols \<Rightarrow> symbols" where
  "itemFieldSymbols arrayField symbols = (\<lambda>name. symbols (arrayField @ ''[].'' @ name))"

definition compatibleIslandNumericType :: "ValueType \<Rightarrow> ValueType \<Rightarrow> bool" where
  "compatibleIslandNumericType actual expected \<longleftrightarrow>
     actual = TypeUnknown \<or> expected = TypeUnknown \<or>
     (actual = TypeInt \<or> actual = TypeFloat) \<and> (expected = TypeInt \<or> expected = TypeFloat)"

definition not_scalar :: "ValueType \<Rightarrow> bool" where
  "not_scalar t \<longleftrightarrow> t = TypeObject \<or> t = TypeArray"

record Emit =
  em_Name :: string
  em_Params :: "string list"
  em_ParamTypes :: "ValueType list"

section \<open>Checks\<close>

datatype island_error =
  EmptyIslandExpression | UnknownClientFunction string | ClientFunctionCount string nat nat
| ClientFunctionArg string nat ValueType ValueType | IslandExpr expr_error | UnknownEvent string | EventCount string nat nat
| EventArg string nat ValueType ValueType | UnsupportedIsland string | OperatorNumeric string string | AssignNonScalar string
| AssignExpression ValueType string | AssignMismatch ValueType ValueType string | InvalidField string | UnknownIslandField string
| BoolRequired ValueType | UnknownRef string | ClearUnknown string | LetSyntax | AwaitInLet | LocalConflict string
| LocalTwice string | LocalType string string | LocalExpression string ValueType | LocalMismatch string ValueType ValueType
| AwaitOutside | AwaitAssign | AwaitFetchOnly | FetchMismatch ValueType ValueType string | FetchURL expr_error
| FetchURLType ValueType | MutationCount string nat nat | MutationTarget string string ValueType | AppendItem item_error
| AppendUnknown string | AppendExpr string expr_error | AppendScalar string | AppendExpression string ValueType
| AppendMismatch string ValueType ValueType | MutationIndex string expr_error | MutationIndexType string ValueType
| UnsupportedMutation string

definition validateIslandSymbol :: "string \<Rightarrow> symbol_map \<Rightarrow> island_error + ValueType" where
  "validateIslandSymbol field symbols =
     (if \<not> isIdentifier field then Inl (InvalidField field)
      else
        (case symbols of
           None \<Rightarrow> Inr TypeUnknown
         | Some f \<Rightarrow> (case f field of None \<Rightarrow> Inl (UnknownIslandField field) | Some t \<Rightarrow> Inr t)))"

definition check_type :: "unicode \<Rightarrow> string \<Rightarrow> symbols \<Rightarrow> helpers \<Rightarrow> expr_error + ValueType" where
  "check_type u expr symbols funs = map_sum id fst (CheckExprWithFunctions u expr symbols funs)"

definition ValidateIslandBoolExpressionTyped :: "unicode \<Rightarrow> string \<Rightarrow> symbol_map \<Rightarrow> island_error option" where
  "ValidateIslandBoolExpressionTyped u expr symbols =
     (case CheckExpr u expr (look_up symbols) of
        Inl err \<Rightarrow> Some (IslandExpr err)
      | Inr (t, _) \<Rightarrow> if t \<noteq> TypeBool \<and> t \<noteq> TypeUnknown then Some (BoolRequired t) else None)"

definition ValidateIslandBoolExpression :: "unicode \<Rightarrow> string \<Rightarrow> (string \<Rightarrow> bool) option \<Rightarrow> island_error option" where
  "ValidateIslandBoolExpression u expr flds = ValidateIslandBoolExpressionTyped u expr (boolFieldSymbols flds)"

definition param_type :: "ValueType list \<Rightarrow> nat \<Rightarrow> ValueType" where
  "param_type types i = (if i < length types then types ! i else TypeUnknown)"

definition handlerParamType :: "Handler \<Rightarrow> nat \<Rightarrow> ValueType" where
  "handlerParamType h i = param_type (hn_ParamTypes h) i"

text \<open>The arguments of a call of a handler or of an event, from an index.\<close>

fun check_call_args ::
    "unicode \<Rightarrow> symbols \<Rightarrow> helpers \<Rightarrow> (nat \<Rightarrow> ValueType) \<Rightarrow> (nat \<Rightarrow> ValueType \<Rightarrow> ValueType \<Rightarrow> island_error) \<Rightarrow> nat \<Rightarrow> string list \<Rightarrow>
     island_error option" where
  "check_call_args u symbols funs expected mismatch i [] = None"
| "check_call_args u symbols funs expected mismatch i (arg # args) =
     (case check_type u arg symbols funs of
        Inl err \<Rightarrow> Some (IslandExpr err)
      | Inr t \<Rightarrow>
          if expected i \<noteq> TypeUnknown \<and> t \<noteq> expected i \<and> \<not> compatibleIslandNumericType t (expected i)
          then Some (mismatch (i + 1) (expected i) t)
          else check_call_args u symbols funs expected mismatch (i + 1) args)"

definition validateEmitCall :: "unicode \<Rightarrow> Call \<Rightarrow> symbols \<Rightarrow> helpers \<Rightarrow> (string \<rightharpoonup> Emit) \<Rightarrow> island_error option" where
  "validateEmitCall u call reads funs emits =
     (case emits (cl_Name call) of
        None \<Rightarrow> Some (UnknownEvent (cl_Name call))
      | Some event \<Rightarrow>
          if length (cl_Args call) \<noteq> length (em_Params event)
          then Some (EventCount (cl_Name call) (length (em_Params event)) (length (cl_Args call)))
          else check_call_args u reads funs (param_type (em_ParamTypes event)) (EventArg (cl_Name call)) 0 (cl_Args call))"

fun check_items :: "unicode \<Rightarrow> symbols \<Rightarrow> symbols \<Rightarrow> helpers \<Rightarrow> (string \<times> string) list \<Rightarrow> island_error option" where
  "check_items u items reads funs [] = None"
| "check_items u items reads funs ((name, expr) # rest) =
     (case items name of
        None \<Rightarrow> Some (AppendUnknown name)
      | Some expected \<Rightarrow>
          (case check_type u expr reads funs of
             Inl err \<Rightarrow> Some (AppendExpr name err)
           | Inr actual \<Rightarrow>
               if not_scalar expected then Some (AppendScalar name)
               else if not_scalar actual then Some (AppendExpression name actual)
               else if expected \<noteq> TypeUnknown \<and> actual \<noteq> TypeUnknown \<and> expected \<noteq> actual \<and>
                       \<not> compatibleIslandNumericType actual expected
                 then Some (AppendMismatch name expected actual)
               else check_items u items reads funs rest))"

definition validateArrayIndexExpr :: "unicode \<Rightarrow> string \<Rightarrow> string \<Rightarrow> symbols \<Rightarrow> helpers \<Rightarrow> island_error option" where
  "validateArrayIndexExpr u name expr reads funs =
     (case check_type u expr reads funs of
        Inl err \<Rightarrow> Some (MutationIndex name err)
      | Inr t \<Rightarrow> if t \<noteq> TypeInt \<and> t \<noteq> TypeUnknown then Some (MutationIndexType name t) else None)"

definition mutation_target :: "string \<Rightarrow> string \<Rightarrow> symbol_map \<Rightarrow> island_error option" where
  "mutation_target name field writes =
     (case validateIslandSymbol field writes of
        Inl err \<Rightarrow> Some err
      | Inr t \<Rightarrow> if t \<noteq> TypeArray \<and> t \<noteq> TypeUnknown then Some (MutationTarget name field t) else None)"

definition validateArrayMutationCall :: "unicode \<Rightarrow> Call \<Rightarrow> symbol_map \<Rightarrow> symbols \<Rightarrow> helpers \<Rightarrow> island_error option" where
  "validateArrayMutationCall u call writes reads funs =
     (let name = cl_Name call; args = cl_Args call; field = TrimSpace (hd args)
      in if name = ''append'' then
           (if length args \<noteq> 2 then Some (MutationCount name 2 (length args))
            else
              (case mutation_target name field writes of
                 Some err \<Rightarrow> Some err
               | None \<Rightarrow>
                   (case parseObjectLiteral (args ! 1) of
                      Inl err \<Rightarrow> Some (AppendItem err)
                    | Inr items \<Rightarrow> check_items u (itemFieldSymbols field reads) reads funs items)))
         else if name = ''remove'' then
           (if length args \<noteq> 2 then Some (MutationCount name 2 (length args))
            else
              (case mutation_target name field writes of
                 Some err \<Rightarrow> Some err
               | None \<Rightarrow> validateArrayIndexExpr u name (args ! 1) reads funs))
         else if name = ''move'' then
           (if length args \<noteq> 3 then Some (MutationCount name 3 (length args))
            else
              (case mutation_target name field writes of
                 Some err \<Rightarrow> Some err
               | None \<Rightarrow>
                   (case validateArrayIndexExpr u name (args ! 1) reads funs of
                      Some err \<Rightarrow> Some err
                    | None \<Rightarrow> validateArrayIndexExpr u name (args ! 2) reads funs)))
         else Some (UnsupportedMutation name))"

definition check_assign :: "unicode \<Rightarrow> string \<Rightarrow> string \<Rightarrow> symbol_map \<Rightarrow> symbols \<Rightarrow> helpers \<Rightarrow> island_error option" where
  "check_assign u target expr writes reads funs =
     (case validateIslandSymbol target writes of
        Inl err \<Rightarrow> Some err
      | Inr leftType \<Rightarrow>
          if not_scalar leftType then Some (AssignNonScalar target)
          else
            (case check_type u expr reads funs of
               Inl err \<Rightarrow> Some (IslandExpr err)
             | Inr rightType \<Rightarrow>
                 if not_scalar rightType then Some (AssignExpression rightType target)
                 else if leftType \<noteq> TypeUnknown \<and> rightType \<noteq> leftType \<and> \<not> compatibleIslandNumericType rightType leftType
                   then Some (AssignMismatch rightType leftType target)
                 else None))"

definition ValidateIslandStateStatement ::
    "unicode \<Rightarrow> string \<Rightarrow> symbol_map \<Rightarrow> symbol_map \<Rightarrow> helpers \<Rightarrow> island_error option" where
  "ValidateIslandStateStatement u expr0 writes reads funs =
     (let expr = TrimSpace expr0
      in if expr = [] then Some EmptyIslandExpression
         else
           (case ParseCall expr of
              Some call \<Rightarrow>
                if isArrayMutationCall (cl_Name call) then validateArrayMutationCall u call writes (look_up reads) funs
                else Some (UnsupportedIsland expr)
            | None \<Rightarrow>
                (case parseIslandIncDec expr of
                   Some (name, op) \<Rightarrow>
                     (case validateIslandSymbol name writes of
                        Inl err \<Rightarrow> Some err
                      | Inr t \<Rightarrow> if \<not> compatibleIslandNumericType t TypeInt then Some (OperatorNumeric op name) else None)
                 | None \<Rightarrow>
                     if isIdentifier expr then
                       (case validateIslandSymbol expr reads of Inl err \<Rightarrow> Some err | Inr _ \<Rightarrow> None)
                     else
                       (case parseIslandAssign expr of
                          Some (target, right_side) \<Rightarrow> check_assign u target right_side writes (look_up reads) funs
                        | None \<Rightarrow> Some (UnsupportedIsland expr)))))"

definition ValidateIslandEventExpression ::
    "unicode \<Rightarrow> string \<Rightarrow> symbol_map \<Rightarrow> symbol_map \<Rightarrow> (string \<rightharpoonup> Handler) \<Rightarrow> helpers \<Rightarrow> (string \<rightharpoonup> Emit) \<Rightarrow> island_error option" where
  "ValidateIslandEventExpression u expr0 reads writes handlers funs emits =
     (let expr = TrimSpace expr0
      in if expr = [] then Some EmptyIslandExpression
         else
           (case ParseEmitCall expr of
              Some call \<Rightarrow> validateEmitCall u call (look_up reads) funs emits
            | None \<Rightarrow>
                (case ParseCall expr of
                   Some call \<Rightarrow>
                     if isArrayMutationCall (cl_Name call) then validateArrayMutationCall u call writes (look_up reads) funs
                     else
                       (case handlers (cl_Name call) of
                          None \<Rightarrow> Some (UnknownClientFunction (cl_Name call))
                        | Some h \<Rightarrow>
                            if length (cl_Args call) \<noteq> length (hn_Params h)
                            then Some (ClientFunctionCount (cl_Name call) (length (hn_Params h)) (length (cl_Args call)))
                            else check_call_args u (look_up reads) funs (handlerParamType h) (ClientFunctionArg (cl_Name call)) 0
                                   (cl_Args call))
                 | None \<Rightarrow> ValidateIslandStateStatement u expr writes reads funs)))"

definition ValidateIslandClientStatement ::
    "unicode \<Rightarrow> string \<Rightarrow> symbol_map \<Rightarrow> symbol_map \<Rightarrow> (string \<rightharpoonup> Ref) \<Rightarrow> helpers \<Rightarrow> (string \<rightharpoonup> Emit) \<Rightarrow> (string \<Rightarrow> bool) \<Rightarrow>
     island_error option" where
  "ValidateIslandClientStatement u expr writes reads refs funs emits stores =
     (case IslandRefStatement expr of
        Some r \<Rightarrow> if refs r = None then Some (UnknownRef r) else None
      | None \<Rightarrow>
          (case ParseClearStatement expr of
             Some store \<Rightarrow> if \<not> stores store then Some (ClearUnknown store) else None
           | None \<Rightarrow>
               (case ParseEmitCall expr of
                  Some call \<Rightarrow> validateEmitCall u call (look_up reads) funs emits
                | None \<Rightarrow> ValidateIslandStateStatement u expr writes reads funs)))"

section \<open>Blocks of statements\<close>

definition url_check :: "unicode \<Rightarrow> string \<Rightarrow> symbols \<Rightarrow> helpers \<Rightarrow> island_error option" where
  "url_check u urlExpr reads funs =
     (case check_type u urlExpr reads funs of
        Inl err \<Rightarrow> Some (FetchURL err)
      | Inr t \<Rightarrow> if t \<noteq> TypeString \<and> t \<noteq> TypeUnknown then Some (FetchURLType t) else None)"

definition validateAwaitFetchAssignment :: "unicode \<Rightarrow> string \<Rightarrow> symbol_map \<Rightarrow> symbols \<Rightarrow> helpers \<Rightarrow> island_error option" where
  "validateAwaitFetchAssignment u statement writes reads funs =
     (case parseIslandAssign (TrimSpace statement) of
        None \<Rightarrow> Some AwaitAssign
      | Some (target, right_side) \<Rightarrow>
          (case validateIslandSymbol target writes of
             Inl err \<Rightarrow> Some err
           | Inr leftType \<Rightarrow>
               (case parseIslandAwaitFetch right_side of
                  None \<Rightarrow> Some AwaitFetchOnly
                | Some (fetchType, urlExpr) \<Rightarrow>
                    if fetchType \<noteq> TypeUnknown \<and> leftType \<noteq> TypeUnknown \<and> fetchType \<noteq> leftType \<and>
                       \<not> compatibleIslandNumericType fetchType leftType
                    then Some (FetchMismatch fetchType leftType target)
                    else url_check u urlExpr reads funs)))"

definition ValidateAwaitFetchExpression :: "unicode \<Rightarrow> string \<Rightarrow> symbols \<Rightarrow> helpers \<Rightarrow> island_error + ValueType" where
  "ValidateAwaitFetchExpression u source reads funs =
     (case ParseAwaitFetchExpression source of
        None \<Rightarrow> Inl AwaitFetchOnly
      | Some (fetchType, urlExpr) \<Rightarrow>
          (case url_check u urlExpr reads funs of Some err \<Rightarrow> Inl err | None \<Rightarrow> Inr fetchType))"

definition parseIslandLetStatement :: "string \<Rightarrow> island_error + letStatement option" where
  "parseIslandLetStatement statement =
     (case parseIslandLet (TrimSpace statement) of
        None \<Rightarrow> if HasPrefix (TrimSpace statement) ''let '' then Inl LetSyntax else Inr None
      | Some (name, ty, expr) \<Rightarrow> Inr (Some \<lparr>lt_Name = name, lt_Type = ty, lt_Expr = expr\<rparr>))"

text \<open>The type of a new local.\<close>

definition check_local :: "unicode \<Rightarrow> letStatement \<Rightarrow> symbol_map \<Rightarrow> symbols \<Rightarrow> helpers \<Rightarrow> island_error + ValueType" where
  "check_local u l writes locals funs =
     (let name = lt_Name l; ty = NormalizeType (lt_Type l)
      in if Contains (lt_Expr l) ''await '' then Inl AwaitInLet
         else if look_up writes name \<noteq> None then Inl (LocalConflict name)
         else if locals name \<noteq> None then Inl (LocalTwice name)
         else if \<not> isSupportedLocalType ty then Inl (LocalType name (lt_Type l))
         else
           (case check_type u (lt_Expr l) locals funs of
              Inl err \<Rightarrow> Inl (IslandExpr err)
            | Inr actual \<Rightarrow>
                if not_scalar actual then Inl (LocalExpression name actual)
                else if ty \<noteq> TypeUnknown \<and> actual \<noteq> TypeUnknown \<and> ty \<noteq> actual \<and> \<not> compatibleIslandNumericType actual ty
                  then Inl (LocalMismatch name ty actual)
                else Inr ty))"

record island_context =
  ic_writes :: symbol_map
  ic_refs :: "string \<rightharpoonup> Ref"
  ic_helpers :: helpers
  ic_async :: bool
  ic_emits :: "string \<rightharpoonup> Emit"
  ic_stores :: "string \<Rightarrow> bool"

text \<open>One statement: the locals behind it.\<close>

definition check_statement :: "unicode \<Rightarrow> island_context \<Rightarrow> string \<Rightarrow> symbols \<Rightarrow> island_error + symbols" where
  "check_statement u ctx statement locals =
     (case parseIslandLetStatement statement of
        Inl err \<Rightarrow> Inl err
      | Inr (Some l) \<Rightarrow>
          (case check_local u l (ic_writes ctx) locals (ic_helpers ctx) of
             Inl err \<Rightarrow> Inl err
           | Inr ty \<Rightarrow> Inr (locals(lt_Name l \<mapsto> ty)))
      | Inr None \<Rightarrow>
          if Contains statement ''await '' then
            (if \<not> ic_async ctx then Inl AwaitOutside
             else (case validateAwaitFetchAssignment u statement (ic_writes ctx) locals (ic_helpers ctx) of
                     Some err \<Rightarrow> Inl err | None \<Rightarrow> Inr locals))
          else
            (case ValidateIslandClientStatement u statement (ic_writes ctx) (Some locals) (ic_refs ctx) (ic_helpers ctx)
                    (ic_emits ctx) (ic_stores ctx) of
               Some err \<Rightarrow> Inl err | None \<Rightarrow> Inr locals))"

text \<open>The references used so far, and the index and error of the first statement that fails.\<close>

fun check_block ::
    "unicode \<Rightarrow> island_context \<Rightarrow> nat \<Rightarrow> string list \<Rightarrow> symbols \<Rightarrow> string list \<Rightarrow> string list \<times> (nat \<times> island_error) option" where
  "check_block u ctx i [] locals used = (used, None)"
| "check_block u ctx i (s # ss) locals used =
     (let used' = (case IslandRefStatement s of Some r \<Rightarrow> List.insert r used | None \<Rightarrow> used)
      in case check_statement u ctx s locals of
           Inl err \<Rightarrow> (used', Some (i, err))
         | Inr locals' \<Rightarrow> check_block u ctx (i + 1) ss locals' used')"

definition ValidateIslandClientStatements ::
    "unicode \<Rightarrow> island_context \<Rightarrow> string list \<Rightarrow> symbols \<Rightarrow> string list \<times> (nat \<times> island_error) option" where
  "ValidateIslandClientStatements u ctx statements reads = check_block u ctx 0 statements reads []"

section \<open>The fields of an expression\<close>

definition add_names :: "string list \<Rightarrow> string list \<Rightarrow> string list" where
  "add_names new seen = fold List.insert new seen"

definition expr_names :: "unicode \<Rightarrow> string \<Rightarrow> string list" where
  "expr_names u expr = (case ExprFields u expr of Inl _ \<Rightarrow> [] | Inr names \<Rightarrow> names)"

definition isIslandNumber :: "string \<Rightarrow> bool" where
  "isIslandNumber source =
     (if source = [] then False
      else
        let body = (if hd source = CHR ''-'' then tl source else source);
            rest = dropWhile is_digit body
        in if takeWhile is_digit body = [] then False
           else (case rest of
                   [] \<Rightarrow> True
                 | c # fraction \<Rightarrow> c = CHR ''.'' \<and> fraction \<noteq> [] \<and> list_all is_digit fraction))"

definition isIslandScalarLiteral :: "string \<Rightarrow> bool" where
  "isIslandScalarLiteral v \<longleftrightarrow>
     v \<in> set [''true'', ''false'', ''null''] \<or> isIslandNumber v \<or> (HasPrefix v [CHR 0x22] \<and> Unquote v \<noteq> None)"

definition islandCallFields :: "Call \<Rightarrow> string list" where
  "islandCallFields call =
     sortedStringKeys
       (add_names (filter (\<lambda>a. isIdentifier a \<and> \<not> isIslandScalarLiteral a) (map TrimSpace (cl_Args call))) [])"

definition mutation_arg_names :: "unicode \<Rightarrow> string \<Rightarrow> string list" where
  "mutation_arg_names u arg =
     (case parseObjectLiteral arg of
        Inr items \<Rightarrow> concat (map (\<lambda>item. expr_names u (snd item)) items)
      | Inl _ \<Rightarrow> expr_names u arg)"

text \<open>\<open>None\<close> is the panic of slicing an empty list of arguments.\<close>

definition arrayMutationFields :: "unicode \<Rightarrow> Call \<Rightarrow> string list option" where
  "arrayMutationFields u call =
     (case cl_Args call of
        [] \<Rightarrow> None
      | first # rest \<Rightarrow>
          Some (sortedStringKeys
            (add_names (concat (map (mutation_arg_names u) rest))
              (if TrimSpace first \<noteq> [] then [TrimSpace first] else []))))"

definition IslandExpressionFields :: "unicode \<Rightarrow> string \<Rightarrow> string list option" where
  "IslandExpressionFields u expr0 =
     (let expr = TrimSpace expr0
      in case ParseCall expr of
           Some call \<Rightarrow>
             if isArrayMutationCall (cl_Name call) then arrayMutationFields u call else Some (islandCallFields call)
         | None \<Rightarrow>
             (case parseIslandIncDec expr of
                Some (name, _) \<Rightarrow> Some (sortedStringKeys [name])
              | None \<Rightarrow>
                  if isIdentifier expr then Some (sortedStringKeys [expr])
                  else
                    (case parseIslandAssign expr of
                       Some (target, right_side) \<Rightarrow> Some (sortedStringKeys (add_names (expr_names u right_side) [target]))
                     | None \<Rightarrow> Some (sortedStringKeys []))))"

section \<open>The names of checked expressions are symbols\<close>

lemma check_args_keeps:
  assumes "check_args check test n args fs = (Inr r, fs')" "P fs"
    and "\<And>a fs t fs'. a \<in> set args \<Longrightarrow> check a fs = (Inr t, fs') \<Longrightarrow> P fs \<Longrightarrow> P fs'"
  shows "P fs'"
  using assms
proof (induction args arbitrary: n fs)
  case (Cons a args)
  from Cons.prems(1) obtain t fs1 where s: "check a fs = (Inr t, fs1)" "check_args check test (Suc n) args fs1 = (Inr r, fs')"
    by (rule check_args_ConsE)
  have "P fs1" by (rule Cons.prems(3) [OF _ s(1) Cons.prems(2)]) simp
  show ?case by (rule Cons.IH [OF s(2) \<open>P fs1\<close>]) (rule Cons.prems(3), simp_all)
qed simp

lemma check_cases_keeps:
  assumes "check_cases check keyword t b cases fs = (Inr r, fs')" "P fs"
    and "\<And>m v e fs t fs'. (m, v) \<in> set cases \<Longrightarrow> e = m \<or> e = v \<Longrightarrow> check e fs = (Inr t, fs') \<Longrightarrow> P fs \<Longrightarrow> P fs'"
  shows "P fs'"
  using assms
proof (induction cases arbitrary: b fs)
  case (Cons c cases)
  obtain m v where c: "c = (m, v)" by fastforce
  from Cons.prems(1) obtain tm fs1 tv fs2 b' where s: "check m fs = (Inr tm, fs1)" "check v fs1 = (Inr tv, fs2)"
      "check_cases check keyword t (Some b') cases fs2 = (Inr r, fs')"
    unfolding c by (rule check_cases_ConsE)
  have "P fs1" by (rule Cons.prems(3) [OF _ _ s(1) Cons.prems(2), of m v]) (simp_all add: c)
  have "P fs2" by (rule Cons.prems(3) [OF _ _ s(2) \<open>P fs1\<close>, of m v]) (simp_all add: c)
  show ?case by (rule Cons.IH [OF s(3) \<open>P fs2\<close>]) (meson Cons.prems(3) list.set_intros(2))
qed simp

definition known :: "symbols \<Rightarrow> string list \<Rightarrow> bool" where
  "known symbols names \<longleftrightarrow> set names \<subseteq> dom symbols"

lemma known_insert: "symbols name = Some t \<Longrightarrow> known symbols names \<Longrightarrow> known symbols (List.insert name names)"
  by (auto simp: known_def)

lemma checkExpr_names: "checkExpr symbols funs e fs = (Inr t, fs') \<Longrightarrow> known symbols fs \<Longrightarrow> known symbols fs'"
proof (induction e arbitrary: fs t fs')
  case (CallExpr name args s)
  have keeps: "known symbols fs'"
    if "check_args (checkExpr symbols funs) test n args fs = (Inr r, fs')" "known symbols fs" for test n fs fs' r
    by (rule check_args_keeps [OF that(1), where P = "known symbols"]) (use that(2) CallExpr.IH in blast)+
  show ?case
  proof (cases "builtin name")
    case None
    with CallExpr.prems(1) obtain f :: ExprFunction where
      "check_args (checkExpr symbols funs) (helper_test name (ef_Params f)) 0 args fs = (Inr (), fs')"
      by (auto simp: check_success split: option.splits if_splits)
    then show ?thesis using keeps CallExpr.prems(2) by blast
  next
    case (Some b)
    obtain arity ok result where b: "b = (arity, ok, result)" by (cases b)
    with Some CallExpr.prems(1) have "check_args (checkExpr symbols funs) (builtin_test name ok) 0 args fs = (Inr (), fs')"
      by (auto simp: wrapped_Inr split: if_splits prod.splits sum.splits)
    then show ?thesis using keeps CallExpr.prems(2) by blast
  qed
next
  case (SwitchExpr keyword v cases d s)
  from SwitchExpr.prems obtain vt fs1 bt fs2 dt fs3 where e: "checkExpr symbols funs v fs = (Inr vt, fs1)"
      "check_cases (checkExpr symbols funs) keyword vt None cases fs1 = (Inr bt, fs2)"
      "checkExpr symbols funs d fs2 = (Inr dt, fs3)" "fs' = fs3"
    by (auto simp: check_success)
  have "known symbols fs1" using SwitchExpr.IH(1) [OF e(1)] SwitchExpr.prems(2) by blast
  moreover have "known symbols fs2" if "known symbols fs1"
    by (rule check_cases_keeps [OF e(2), where P = "known symbols"]) (use that SwitchExpr.IH(2,3) in \<open>fastforce+\<close>)
  ultimately show ?case using SwitchExpr.IH(4) [OF e(3)] e(4) by blast
next
  case (MemberExpr x name s)
  then obtain t1 where "checkExpr symbols funs x fs = (Inr t1, fs')" by (auto simp: bindc_Inr)
  then show ?case using MemberExpr by blast
next
  case (IndexExpr x i s)
  then obtain t1 fs1 t2 where "checkExpr symbols funs x fs = (Inr t1, fs1)" "checkExpr symbols funs i fs1 = (Inr t2, fs')"
    by (auto simp: bindc_Inr)
  then show ?case using IndexExpr.IH IndexExpr.prems(2) by blast
next
  case (UnaryExpr op x s)
  then obtain t1 where "checkExpr symbols funs x fs = (Inr t1, fs')" by (auto simp: bindc_Inr)
  then show ?case using UnaryExpr by blast
next
  case (BinaryExpr op l r s)
  then obtain t1 fs1 t2 where "checkExpr symbols funs l fs = (Inr t1, fs1)" "checkExpr symbols funs r fs1 = (Inr t2, fs')"
    by (auto simp: bindc_Inr)
  then show ?case using BinaryExpr.IH BinaryExpr.prems(2) by blast
next
  case (ConditionalExpr c t1 e s)
  from ConditionalExpr.prems(1) obtain tc fs1 tt fs2 te where "checkExpr symbols funs c fs = (Inr tc, fs1)"
      "checkExpr symbols funs t1 fs1 = (Inr tt, fs2)" "checkExpr symbols funs e fs2 = (Inr te, fs')"
    by (auto simp: check_success split: if_splits)
  then show ?case using ConditionalExpr.IH ConditionalExpr.prems(2) by blast
qed (auto simp: known_insert split: option.splits)

lemma check_type_names:
  assumes "check_type u expr symbols funs = Inr t"
  shows "set (expr_names u expr) \<subseteq> dom symbols"
proof -
  from assms obtain e fs where e: "ParseExpr u expr = Inr e" "checkExpr symbols funs e [] = (Inr t, fs)"
    by (auto simp: check_type_def CheckExprWithFunctions_def split: sum.splits prod.splits)
  then have "set (collectExprFields e []) \<subseteq> dom symbols"
    using checkExpr_names [OF e(2)] checkExpr_collects [OF e(2)] by (simp add: known_def)
  with e(1) show ?thesis
    by (simp add: expr_names_def ExprFields_def sortedStringKeys_def sortStrings_sort)
qed

section \<open>Accepted statements are scoped\<close>

lemma add_names_set: "set (add_names new seen) = set new \<union> set seen"
  by (induction new arbitrary: seen) (auto simp: add_names_def)

lemma sortedStringKeys_set [simp]: "set (sortedStringKeys xs) = set xs"
  by (simp add: sortedStringKeys_def sortStrings_sort)

lemma comma_loop_trimmed: "comma_loop s depth inString escaped item = Inr items \<Longrightarrow> a \<in> set items \<Longrightarrow> TrimSpace a = a"
proof (induction s depth inString escaped item arbitrary: items rule: comma_loop.induct)
  case (2 c t depth inString escaped item)
  show ?case
  proof (cases "\<not> escaped \<and> \<not> inString \<and> c \<noteq> CHR 0x22 \<and> \<not> opens c \<and> \<not> closes c \<and> c = CHR '','' \<and> depth = 0")
    case True
    with "2.prems"(1) obtain rest where "comma_loop t 0 False False [] = Inr rest"
      "items = TrimSpace (rev item) # rest" "TrimSpace (rev item) \<noteq> []"
      by (auto split: if_splits sum.splits)
    with True "2.IH"(6) "2.prems"(2) show ?thesis by (cases "a = TrimSpace (rev item)") (auto split: if_splits)
  next
    case False
    with 2 show ?thesis by (auto split: if_splits)
  qed
qed (auto split: if_splits)

lemma call_args_trimmed: "ParseCall expr = Some call \<Longrightarrow> a \<in> set (cl_Args call) \<Longrightarrow> TrimSpace a = a"
  using comma_loop_trimmed
  by (auto simp: ParseCall_def splitCommaList_def Let_def split: option.splits if_splits sum.splits)

text \<open>An object literal is no expression, as long as the brace is no letter.\<close>

lemma brace_no_expression:
  assumes "\<not> IsLetter u 0x7B" "\<not> IsDigit u 0x7B"
  shows "\<exists>err. ParseExpr u (CHR ''{'' # t) = Inl err"
proof -
  obtain rs where rs: "runes (CHR ''{'' # t) = 0x7B # rs"
    by (simp add: runes_def decode_runes.simps decode_rune_def)
  define st0 where "st0 = \<lparr>ps_source = 0x7B # rs, ps_index = 0, ps_buffer = None, ps_err = None\<rparr>"
  define tk where "tk = token tokenLBrace ''{'' 0 1"
  define st1 where "st1 = st0\<lparr>ps_index := 1, ps_buffer := Some tk\<rparr>"
  have peek0: "peek u st0 = (tk, st1)"
    using assms
    by (simp add: peek_def st0_def st1_def tk_def lex_next_def scan_def IsSpace_def isExprIdentStart_def punctuation_def)
  have peek1: "peek u st1 = (tk, st1)" by (simp add: peek_def st1_def)
  have kind: "tk_kind tk = tokenLBrace" "tk_value tk = ''{''" by (simp_all add: tk_def token_def)
  have primary: "parsePrimary u f st1 = (Inl (UnexpectedToken ''{''), st1\<lparr>ps_buffer := None\<rparr>)" for f
    by (simp add: parsePrimary_def consume_def peek1 kind)
  have conditional: "parseConditional (Suc n) u st0 = (Inl (UnexpectedToken ''{''), st1\<lparr>ps_buffer := None\<rparr>)" for n
    by (simp add: peek0 peek1 kind primary parseOr_def parseAnd_def parseCompare_def parseAdd_def parseMul_def parseBinary_def
        bindp_def parsePostfix_def)
  have "parseConditional (length (0x7B # rs) + 2) u st0 = (Inl (UnexpectedToken ''{''), st1\<lparr>ps_buffer := None\<rparr>)"
    using conditional [of "length (0x7B # rs) + 1"] by (simp del: parseConditional.simps)
  then show ?thesis by (simp add: ParseExpr_def ParseExprWithSpans_def rs del: parseConditional.simps flip: st0_def)
qed

text \<open>The types of the locals in front of a statement.\<close>

fun block_locals :: "symbols \<Rightarrow> string list \<Rightarrow> symbols" where
  "block_locals locals [] = locals"
| "block_locals locals (s # ss) =
     (case parseIslandLetStatement s of
        Inr (Some l) \<Rightarrow> block_locals (locals(lt_Name l \<mapsto> NormalizeType (lt_Type l))) ss
      | _ \<Rightarrow> block_locals locals ss)"

lemma check_statement_locals: "check_statement u ctx s locals = Inr locals' \<Longrightarrow> locals' = block_locals locals [s]"
  by (auto simp: check_statement_def check_local_def Let_def split: sum.splits option.splits if_splits)

lemma block_locals_step: "block_locals locals (s # ss) = block_locals (block_locals locals [s]) ss"
  by (simp split: sum.splits option.splits)

lemma check_block_accepts:
  "check_block u ctx i (xs @ s # ys) locals used = (used', None) \<Longrightarrow>
   \<exists>locals'. check_statement u ctx s (block_locals locals xs) = Inr locals'"
proof (induction xs arbitrary: i locals used)
  case Nil
  then show ?case by (auto simp: Let_def split: sum.splits)
next
  case (Cons x xs)
  then obtain l1 used1 where l1: "check_statement u ctx x locals = Inr l1"
    "check_block u ctx (i + 1) (xs @ s # ys) l1 used1 = (used', None)"
    by (auto simp: Let_def split: sum.splits)
  show ?case
    using Cons.IH [OF l1(2)] check_statement_locals [OF l1(1)] block_locals_step [of locals x xs] by simp
qed

lemma symbol_known: "validateIslandSymbol name (Some f) = Inr t \<Longrightarrow> name \<in> dom f"
  by (auto simp: validateIslandSymbol_def split: if_splits option.splits)

lemma check_items_names:
  "check_items u items reads funs its = None \<Longrightarrow> it \<in> set its \<Longrightarrow> set (expr_names u (snd it)) \<subseteq> dom reads"
proof (induction u items reads funs its rule: check_items.induct)
  case (2 u items reads funs name expr rest)
  then obtain expected actual where typed: "items name = Some expected" "check_type u expr reads funs = Inr actual"
    and rest: "check_items u items reads funs rest = None"
    by (auto split: option.splits sum.splits if_splits)
  show ?case
  proof (cases "it = (name, expr)")
    case True
    with check_type_names [OF typed(2)] show ?thesis by simp
  next
    case False
    with "2.prems"(2) have "it \<in> set rest" by simp
    moreover have "\<not> not_scalar expected" "\<not> not_scalar actual"
      "\<not> (expected \<noteq> TypeUnknown \<and> actual \<noteq> TypeUnknown \<and> expected \<noteq> actual \<and>
          \<not> compatibleIslandNumericType actual expected)"
      using "2.prems"(1) typed by (auto split: if_splits)
    ultimately show ?thesis using "2.IH" [OF typed] rest by blast
  qed
qed simp

lemma index_names: "validateArrayIndexExpr u name expr reads funs = None \<Longrightarrow> set (expr_names u expr) \<subseteq> dom reads \<and> (\<exists>e. ParseExpr u expr = Inr e)"
  using check_type_names [of u expr reads funs]
  by (auto simp: validateArrayIndexExpr_def check_type_def CheckExprWithFunctions_def split: sum.splits)

lemma mutation_target_known: "mutation_target name field (Some f) = None \<Longrightarrow> field \<in> dom f"
  using symbol_known by (auto simp: mutation_target_def split: sum.splits if_splits)

lemma index_arg_names:
  assumes "validateArrayIndexExpr u name a reads funs = None" "TrimSpace a = a" "\<not> IsLetter u 0x7B" "\<not> IsDigit u 0x7B"
  shows "set (mutation_arg_names u a) \<subseteq> dom reads"
proof -
  have "\<exists>err. parseObjectLiteral a = Inl err"
  proof (cases "HasPrefix a ''{''")
    case True
    then obtain t where "a = CHR ''{'' # t" by (auto simp: prefix_def)
    with brace_no_expression [OF assms(3,4), of t] index_names [OF assms(1)] show ?thesis by auto
  next
    case False
    then show ?thesis by (simp add: parseObjectLiteral_def assms(2) Let_def)
  qed
  with index_names [OF assms(1)] show ?thesis by (auto simp: mutation_arg_names_def)
qed

lemma mutation_fields_known:
  assumes ok: "validateArrayMutationCall u call (Some writes) reads funs = None"
    and call: "ParseCall expr = Some call" and u: "\<not> IsLetter u 0x7B" "\<not> IsDigit u 0x7B"
  shows "\<exists>fs. arrayMutationFields u call = Some fs \<and> set fs \<subseteq> dom writes \<union> dom reads"
proof -
  have trimmed: "TrimSpace a = a" if "a \<in> set (cl_Args call)" for a using call_args_trimmed [OF call that] .
  from ok have target: "mutation_target (cl_Name call) (TrimSpace (hd (cl_Args call))) (Some writes) = None"
    and len: "length (cl_Args call) = 2 \<or> length (cl_Args call) = 3"
    by (auto simp: validateArrayMutationCall_def Let_def split: if_splits option.splits)
  then obtain a rest where args: "cl_Args call = a # rest" by (cases "cl_Args call") auto
  have a: "TrimSpace a \<in> dom writes" using mutation_target_known [OF target] args by simp
  have rest: "set (mutation_arg_names u b) \<subseteq> dom reads" if "b \<in> set rest" for b
  proof (cases "cl_Name call = ''append''")
    case True
    with ok target args len obtain items where items: "parseObjectLiteral (cl_Args call ! 1) = Inr items"
      "check_items u (itemFieldSymbols (TrimSpace a) reads) reads funs items = None" "length (cl_Args call) = 2"
      by (auto simp: validateArrayMutationCall_def Let_def split: if_splits option.splits sum.splits)
    then have "rest = [cl_Args call ! 1]" using args by (cases rest) auto
    with that items check_items_names [OF items(2)] show ?thesis by (auto simp: mutation_arg_names_def)
  next
    case False
    with ok args len have "\<forall>b\<in>set rest. validateArrayIndexExpr u (cl_Name call) b reads funs = None"
      by (auto simp: validateArrayMutationCall_def Let_def length_Suc_conv numeral_2_eq_2 numeral_3_eq_3
          split: if_splits option.splits)
    with that have "validateArrayIndexExpr u (cl_Name call) b reads funs = None" by blast
    moreover have "TrimSpace b = b" using that trimmed args by simp
    ultimately show ?thesis by (rule index_arg_names [OF _ _ u])
  qed
  from a rest show ?thesis by (auto simp: arrayMutationFields_def args add_names_set)
qed

lemma state_statement_fields:
  assumes ok: "ValidateIslandStateStatement u expr (Some writes) (Some reads) funs = None"
    and u: "\<not> IsLetter u 0x7B" "\<not> IsDigit u 0x7B"
  shows "\<exists>fs. IslandExpressionFields u expr = Some fs \<and> set fs \<subseteq> dom writes \<union> dom reads"
proof -
  define e where "e = TrimSpace expr"
  show ?thesis
  proof (cases "ParseCall e")
    case (Some call)
    with ok have "isArrayMutationCall (cl_Name call) \<and> validateArrayMutationCall u call (Some writes) reads funs = None"
      by (auto simp: ValidateIslandStateStatement_def look_up_def Let_def simp flip: e_def split: if_splits)
    with mutation_fields_known [OF _ Some u] Some show ?thesis
      by (auto simp: IslandExpressionFields_def simp flip: e_def)
  next
    case no_call: None
    show ?thesis
    proof (cases "parseIslandIncDec e")
      case (Some r)
      with no_call ok show ?thesis
        using symbol_known
        by (auto simp: ValidateIslandStateStatement_def IslandExpressionFields_def Let_def simp flip: e_def
            split: if_splits sum.splits prod.splits)
    next
      case no_inc: None
      show ?thesis
      proof (cases "isIdentifier e")
        case True
        with no_call no_inc ok show ?thesis
          using symbol_known
          by (auto simp: ValidateIslandStateStatement_def IslandExpressionFields_def Let_def simp flip: e_def
              split: if_splits sum.splits)
      next
        case False
        with no_call no_inc ok obtain target right_side where assign: "parseIslandAssign e = Some (target, right_side)"
          "check_assign u target right_side (Some writes) reads funs = None"
          by (auto simp: ValidateIslandStateStatement_def look_up_def Let_def simp flip: e_def split: if_splits option.splits)
        then have "target \<in> dom writes" "set (expr_names u right_side) \<subseteq> dom reads"
          using symbol_known check_type_names by (auto simp: check_assign_def split: sum.splits if_splits)
        with no_call no_inc False assign(1) show ?thesis
          by (auto simp: IslandExpressionFields_def add_names_set simp flip: e_def)
      qed
    qed
  qed
qed

text \<open>A statement that is no declaration, request, reference, clear or event: it reads and writes state.\<close>

definition state_statement :: "string \<Rightarrow> bool" where
  "state_statement s \<longleftrightarrow>
     parseIslandLetStatement s = Inr None \<and> \<not> Contains s ''await '' \<and> IslandRefStatement s = None \<and>
     ParseClearStatement s = None \<and> ParseEmitCall s = None"

text \<open>
  C39: in an accepted block, a new local is neither a field of the state nor declared before, and its
  expression reads declared names only; and the fields the compiler collects from a statement on the
  state are fields of the state that may be written, or names that may be read there. The collection
  does not panic on them. The brace is no letter and no digit.
\<close>

theorem accepted_block_scoped:
  assumes "ValidateIslandClientStatements u ctx (xs @ s # ys) reads = (used, None)" "ic_writes ctx = Some writes"
    and u: "\<not> IsLetter u 0x7B" "\<not> IsDigit u 0x7B"
  shows "(\<forall>l. parseIslandLetStatement s = Inr (Some l) \<longrightarrow>
      lt_Name l \<notin> dom writes \<and> lt_Name l \<notin> dom (block_locals reads xs) \<and>
      set (expr_names u (lt_Expr l)) \<subseteq> dom (block_locals reads xs)) \<and>
    (state_statement s \<longrightarrow>
      (\<exists>fs. IslandExpressionFields u s = Some fs \<and> set fs \<subseteq> dom writes \<union> dom (block_locals reads xs)))"
proof -
  let ?L = "block_locals reads xs"
  from assms(1) obtain locals' where ok: "check_statement u ctx s ?L = Inr locals'"
    using check_block_accepts unfolding ValidateIslandClientStatements_def by blast
  have "lt_Name l \<notin> dom writes \<and> lt_Name l \<notin> dom ?L \<and> set (expr_names u (lt_Expr l)) \<subseteq> dom ?L"
    if "parseIslandLetStatement s = Inr (Some l)" for l
  proof -
    from ok that obtain ty where "check_local u l (Some writes) ?L (ic_helpers ctx) = Inr ty"
      by (auto simp: check_statement_def assms(2) split: sum.splits)
    then show ?thesis
      using check_type_names by (auto simp: check_local_def look_up_def Let_def domIff split: if_splits sum.splits)
  qed
  moreover have "\<exists>fs. IslandExpressionFields u s = Some fs \<and> set fs \<subseteq> dom writes \<union> dom ?L" if "state_statement s"
  proof -
    from ok that have "ValidateIslandStateStatement u s (Some writes) (Some ?L) (ic_helpers ctx) = None"
      by (auto simp: check_statement_def state_statement_def ValidateIslandClientStatement_def assms(2) split: option.splits)
    then show ?thesis by (rule state_statement_fields [OF _ u])
  qed
  ultimately show ?thesis by blast
qed

definition example_context :: island_context where
  "example_context =
     \<lparr>ic_writes = Some [''Count'' \<mapsto> TypeInt], ic_refs = Map.empty, ic_helpers = Map.empty, ic_async = False,
      ic_emits = Map.empty, ic_stores = (\<lambda>_. False)\<rparr>"

lemma example_accepted:
  "ValidateIslandClientStatements ascii example_context ([''let n int = Count + 1''] @ ''Count = n'' # []) [''Count'' \<mapsto> TypeInt] =
   ([], None)"
  by code_simp

theorem accepted_block_scoped_witness:
  "\<exists>fs. IslandExpressionFields ascii ''Count = n'' = Some fs \<and>
     set fs \<subseteq> dom [''Count'' \<mapsto> TypeInt] \<union> dom (block_locals [''Count'' \<mapsto> TypeInt] [''let n int = Count + 1''])"
proof -
  have "state_statement ''Count = n''" by code_simp
  then show ?thesis
    using accepted_block_scoped [OF example_accepted, of "[''Count'' \<mapsto> TypeInt]"]
    by (simp add: example_context_def ascii_def)
qed

subsection \<open>Calls of array mutations without arguments\<close>

text \<open>The bytes of white space, and what \<open>TrimSpace\<close> removes behind a text that starts with none.\<close>

definition space_bytes :: "char set" where
  "space_bytes = set (concat space_encodings)"

lemma trim_front_removed: "\<exists>p. s = p @ trim_front sps s \<and> set p \<subseteq> set (concat sps)"
proof (induction sps s rule: trim_front.induct)
  case (1 sps s)
  show ?case
  proof (cases "leading_space sps s")
    case None
    then show ?thesis by (simp add: trim_front.simps [of sps s])
  next
    case (Some sp)
    then have sp: "s = sp @ drop (length sp) s" "sp \<in> set sps" by (auto simp: leading_space_def find_Some_iff prefix_def)
    from 1 [OF Some] obtain p where p: "drop (length sp) s = p @ trim_front sps (drop (length sp) s)" "set p \<subseteq> set (concat sps)" by blast
    have "s = (sp @ p) @ trim_front sps s" using sp(1) p(1) Some by (simp add: trim_front.simps [of sps s])
    moreover have "set (sp @ p) \<subseteq> set (concat sps)" using sp(2) p(2) by auto
    ultimately show ?thesis by blast
  qed
qed

lemma TrimSpace_tail:
  assumes "leading_space space_encodings s = None"
  shows "\<exists>q. s = TrimSpace s @ q \<and> set q \<subseteq> space_bytes"
proof -
  obtain p where "rev s = p @ trim_front (map rev space_encodings) (rev s)" "set p \<subseteq> set (concat (map rev space_encodings))"
    using trim_front_removed by blast
  then have "s = TrimSpace s @ rev p \<and> set (rev p) \<subseteq> space_bytes"
    using assms by (auto simp: TrimSpace_def trim_front_id space_bytes_def) (metis rev_append rev_rev_ident)
  then show ?thesis by blast
qed

lemma TrimSpace_leading: "leading_space space_encodings (TrimSpace s) = None"
proof -
  define f where "f = trim_front space_encodings s"
  obtain p where "rev f = p @ trim_front (map rev space_encodings) (rev f)"
    using trim_front_prefix [of "rev f" "map rev space_encodings"] by blast
  then have "f = TrimSpace s @ rev p" by (metis f_def TrimSpace_def rev_append rev_rev_ident)
  then show ?thesis using leading_space_trim_front [of space_encodings s] leading_space_prefix f_def by metis
qed

lemma index_byte_split: "index_byte s c = Some i \<Longrightarrow> s = take i s @ c # drop (i + 1) s"
  by (induction s arbitrary: i) (auto split: if_splits)

lemma space_bytes_other:
  assumes "c \<in> space_bytes"
  shows "\<not> isIdentPart c" "c \<noteq> CHR ''=''" "c \<noteq> CHR ''.''"
proof -
  have "list_all (\<lambda>c. \<not> isIdentPart c \<and> c \<noteq> CHR ''='' \<and> c \<noteq> CHR ''.'') (concat space_encodings)" by code_simp
  with assms show "\<not> isIdentPart c" "c \<noteq> CHR ''=''" "c \<noteq> CHR ''.''" by (auto simp: space_bytes_def list_all_iff)
qed

lemma call_shape:
  assumes "ParseCall expr = Some call"
  obtains ws rest where "TrimSpace expr = cl_Name call @ ws @ CHR ''('' # rest" "set ws \<subseteq> space_bytes"
    "HasSuffix (TrimSpace expr) '')''"
proof -
  let ?e = "TrimSpace expr"
  from assms obtain i where op: "index_byte ?e CHR ''('' = Some i" "HasSuffix ?e '')''" "cl_Name call = TrimSpace (take i ?e)"
    by (auto simp: ParseCall_def Let_def split: option.splits if_splits sum.splits)
  have e: "?e = take i ?e @ CHR ''('' # drop (i + 1) ?e" by (rule index_byte_split [OF op(1)])
  have "leading_space space_encodings (take i ?e) = None"
    using TrimSpace_leading [of expr] leading_space_prefix [of space_encodings "take i ?e" "drop i ?e"] by simp
  then obtain q where q: "take i ?e = cl_Name call @ q" "set q \<subseteq> space_bytes"
    using TrimSpace_tail [of "take i ?e"] op(3) by auto
  have "?e = cl_Name call @ q @ CHR ''('' # drop (i + 1) ?e" using e unfolding q(1) by simp
  then show ?thesis using q(2) op(2) by (rule that)
qed

text \<open>Such a call is no statement of any other kind.\<close>

lemma mutation_no_other_statement:
  assumes call: "ParseCall (TrimSpace expr) = Some call" "isArrayMutationCall (cl_Name call)"
  shows "ParseEmitCall expr = None" "IslandRefStatement expr = None" "ParseClearStatement expr = None"
    "parseIslandLetStatement expr = Inr None" "parseIslandAssign (TrimSpace expr) = None"
proof -
  define e where "e = TrimSpace expr"
  obtain ws rest where shape: "e = cl_Name call @ ws @ CHR ''('' # rest" "set ws \<subseteq> space_bytes" "HasSuffix e '')''"
    using call_shape [OF call(1)] unfolding e_def TrimSpace_idem by blast
  have name: "cl_Name call \<in> {''append'', ''remove'', ''move''}" using call(2) by (simp add: isArrayMutationCall_def)
  then have first: "hd e \<in> {CHR ''a'', CHR ''r'', CHR ''m''}" "e \<noteq> []" by (auto simp: shape(1))
  then have no: "\<not> HasPrefix e (c # cs)" if "c \<notin> {CHR ''a'', CHR ''r'', CHR ''m''}" for c cs
    using that by (auto simp: prefix_def)
  have trimmed: "TrimSpace e = e" by (simp add: e_def)
  have "\<not> HasSuffix e '';''" using shape(3) by (auto simp: suffix_def)
  then have semi: "TrimSuffix e '';'' = e" by (simp add: TrimSuffix_def)
  show "ParseEmitCall expr = None" unfolding ParseEmitCall_def e_def [symmetric] by (simp add: no)
  show "ParseClearStatement expr = None"
    unfolding ParseClearStatement_def e_def [symmetric] semi trimmed by (simp add: CutPrefix_def no)
  show "parseIslandLetStatement expr = Inr None"
    unfolding parseIslandLetStatement_def e_def [symmetric] parseIslandLet_def by (simp add: CutPrefix_def no)
  show "IslandRefStatement expr = None"
  proof (rule ccontr)
    assume "IslandRefStatement expr \<noteq> None"
    then obtain b a where cut: "Cut e CHR ''.'' = (b, a, True)" and ident: "isIdentifier b"
      by (auto simp: IslandRefStatement_def parseIslandRefCall_def e_def split: prod.splits if_splits)
    from Cut_result [OF cut] have e: "e = b @ CHR ''.'' # a" by simp
    have "list_all isIdentPart b" using ident by (cases b) (simp_all add: isIdentifier_def isIdentPart_def)
    moreover have "\<not> isIdentPart CHR ''(''" by code_simp
    ultimately have paren: "CHR ''('' \<notin> set b" by (auto simp only: list_all_iff)
    have dot: "CHR ''.'' \<notin> set (cl_Name call @ ws)" using name shape(2) space_bytes_other(3) by auto
    have "(cl_Name call @ ws) @ CHR ''('' # rest = b @ CHR ''.'' # a" using e shape(1) by simp
    then consider us where "cl_Name call @ ws = b @ us" "us @ CHR ''('' # rest = CHR ''.'' # a"
      | us where "(cl_Name call @ ws) @ us = b" "CHR ''('' # rest = us @ CHR ''.'' # a"
      unfolding append_eq_append_conv2 by metis
    then show False
    proof cases
      case 1
      then have "us = [] \<or> CHR ''.'' \<in> set us" by (cases us) simp_all
      moreover have "set us \<subseteq> set (cl_Name call @ ws)" unfolding 1(1) by simp
      ultimately show False using dot 1(2) by auto
    next
      case 2
      then have "us = [] \<or> CHR ''('' \<in> set us" by (cases us) simp_all
      moreover have "set us \<subseteq> set b" unfolding 2(1) [symmetric] by auto
      ultimately show False using paren 2(2) by auto
    qed
  qed
  have part: "takeWhile isIdentPart e = cl_Name call" "dropWhile isIdentPart e = ws @ CHR ''('' # rest"
  proof -
    have "list_all isIdentPart ''append''" "list_all isIdentPart ''remove''" "list_all isIdentPart ''move''" by code_simp+
    then have "list_all isIdentPart (cl_Name call)" using name by (metis empty_iff insert_iff)
    moreover have "\<not> isIdentPart CHR ''(''" by code_simp
    then have "\<not> isIdentPart (hd (ws @ CHR ''('' # rest))" using shape(2) space_bytes_other(1) by (cases ws) auto
    moreover obtain c t where tail: "ws @ CHR ''('' # rest = c # t" by (cases ws) auto
    ultimately have "list_all isIdentPart (cl_Name call)" "\<not> isIdentPart c" by simp_all
    then show "takeWhile isIdentPart e = cl_Name call" "dropWhile isIdentPart e = ws @ CHR ''('' # rest"
      unfolding shape(1) tail by (auto simp: list_all_iff)
  qed
  have behind: "\<exists>c t. dropWhile isSpace (ws @ CHR ''('' # rest) = c # t \<and> c \<noteq> CHR ''=''"
    using shape(2) space_bytes_other(2) by (induction ws) (auto simp: isSpace_def)
  show "parseIslandAssign (TrimSpace expr) = None"
    using behind unfolding parseIslandAssign_def nextIslandIdent_def e_def [symmetric] part
    by (auto split: option.splits list.splits)
qed

lemma mutation_rejected:
  assumes "ParseCall (TrimSpace expr) = Some call" "isArrayMutationCall (cl_Name call)" "cl_Args call = []"
  shows "ValidateIslandStateStatement u expr writes reads funs \<noteq> None"
    "ValidateIslandEventExpression u expr reads writes handlers funs emits \<noteq> None"
    "ValidateIslandClientStatement u expr writes reads refs funs emits stores \<noteq> None"
    "\<exists>err. check_statement u ctx expr locals = Inl err"
proof -
  note other = mutation_no_other_statement [OF assms(1,2)]
  have emit: "ParseEmitCall (TrimSpace expr) = None" using other(1) by (simp add: ParseEmitCall_def)
  have state: "ValidateIslandStateStatement u expr writes reads funs \<noteq> None" for writes reads funs
    using assms by (auto simp: ValidateIslandStateStatement_def validateArrayMutationCall_def Let_def)
  then show "ValidateIslandStateStatement u expr writes reads funs \<noteq> None" .
  show "ValidateIslandEventExpression u expr reads writes handlers funs emits \<noteq> None"
    using assms by (auto simp: ValidateIslandEventExpression_def validateArrayMutationCall_def Let_def emit)
  have client: "ValidateIslandClientStatement u expr writes reads refs funs emits stores \<noteq> None" for writes reads refs funs emits stores
    using state by (simp add: ValidateIslandClientStatement_def other)
  then show "ValidateIslandClientStatement u expr writes reads refs funs emits stores \<noteq> None" .
  show "\<exists>err. check_statement u ctx expr locals = Inl err"
  proof (cases "ValidateIslandClientStatement u expr (ic_writes ctx) (Some locals) (ic_refs ctx) (ic_helpers ctx) (ic_emits ctx) (ic_stores ctx)")
    case None
    then show ?thesis using client by blast
  next
    case (Some err)
    then show ?thesis by (simp add: check_statement_def other validateAwaitFetchAssignment_def)
  qed
qed

text \<open>
  C40: collecting the fields of an expression panics exactly on a call of \<open>append\<close>, \<open>remove\<close> or \<open>move\<close>
  without arguments, and no check accepts such an expression: not the check of a state statement, of an
  event expression, of a client statement, nor that of a block of statements that holds it anywhere.
\<close>

theorem IslandExpressionFields_panics:
  "(IslandExpressionFields u expr = None \<longleftrightarrow>
      (\<exists>call. ParseCall (TrimSpace expr) = Some call \<and> isArrayMutationCall (cl_Name call) \<and> cl_Args call = [])) \<and>
   IslandExpressionFields u ''append()'' = None \<and>
   (IslandExpressionFields u expr = None \<longrightarrow>
      ValidateIslandStateStatement u expr writes reads funs \<noteq> None \<and>
      ValidateIslandEventExpression u expr reads writes handlers funs emits \<noteq> None \<and>
      ValidateIslandClientStatement u expr writes reads refs funs emits stores \<noteq> None \<and>
      snd (ValidateIslandClientStatements u ctx (before @ expr # after) locals) \<noteq> None)"
proof -
  have iff: "IslandExpressionFields u expr = None \<longleftrightarrow>
      (\<exists>call. ParseCall (TrimSpace expr) = Some call \<and> isArrayMutationCall (cl_Name call) \<and> cl_Args call = [])" for expr
    by (auto simp: IslandExpressionFields_def arrayMutationFields_def Let_def split: option.splits list.splits if_splits prod.splits)
  have "ParseCall (TrimSpace ''append()'') = Some \<lparr>cl_Name = ''append'', cl_Args = []\<rparr>" by code_simp
  then have "IslandExpressionFields u ''append()'' = None" by (simp add: iff isArrayMutationCall_def)
  moreover have "ValidateIslandStateStatement u expr writes reads funs \<noteq> None \<and>
      ValidateIslandEventExpression u expr reads writes handlers funs emits \<noteq> None \<and>
      ValidateIslandClientStatement u expr writes reads refs funs emits stores \<noteq> None \<and>
      snd (ValidateIslandClientStatements u ctx (before @ expr # after) locals) \<noteq> None"
    if none: "IslandExpressionFields u expr = None"
  proof -
    from none obtain call where call: "ParseCall (TrimSpace expr) = Some call" "isArrayMutationCall (cl_Name call)" "cl_Args call = []"
      using iff by blast
    note rejected = mutation_rejected [OF call]
    have "snd (check_block u ctx 0 (before @ expr # after) locals []) \<noteq> None"
    proof
      assume "snd (check_block u ctx 0 (before @ expr # after) locals []) = None"
      then obtain used' where "check_block u ctx 0 (before @ expr # after) locals [] = (used', None)" by (metis prod.collapse)
      with rejected(4) [where u = u and ctx = ctx and locals = "block_locals locals before"] show False
        by (auto dest: check_block_accepts)
    qed
    with rejected(1-3) show ?thesis by (simp add: ValidateIslandClientStatements_def)
  qed
  ultimately show ?thesis using iff by blast
qed

theorem IslandExpressionFields_panics_witness:
  "ValidateIslandStateStatement ascii ''append()'' None None Map.empty \<noteq> None \<and>
   ValidateIslandEventExpression ascii ''append()'' None None Map.empty Map.empty Map.empty \<noteq> None \<and>
   snd (ValidateIslandClientStatements ascii example_context [''Count++'', ''append()''] [''Count'' \<mapsto> TypeInt]) \<noteq> None"
  using IslandExpressionFields_panics [where u = ascii and expr = "''append()''" and writes = None and reads = None
      and funs = Map.empty and handlers = Map.empty and emits = Map.empty and ctx = example_context and before = "[''Count++'']"
      and after = "[]" and locals = "[''Count'' \<mapsto> TypeInt]"]
  by simp

text \<open>Boundary case: the names within an argument of a handler call are not collected.\<close>

lemma handler_arguments_not_collected:
  "IslandExpressionFields ascii ''save(Count)'' = Some [''Count'']"
  "IslandExpressionFields ascii ''save(Count + 1)'' = Some []"
  by code_simp+

end
