(* ===== verification/Spec2Isabelle.thy ===== *)
theory Spec2Isabelle
  imports Pattern RateLimit TraceSnapshot TraceExport Worker ExprEval RouteCheck Cors I18n Backend Csrf Sessions Password ViewParse ClientOrder ClientIsland
begin

text \<open>
  A model of the core of GoWDK, a framework that compiles pages with markup, client code and backend routes
  into Go web applications, with the theorems about it. Paths are relative to the root of the repository.

  \<^bold>\<open>The program.\<close> The compiler (\<open>internal/\<close>) reads pages: their routes, their markup, and the client blocks
  with their expressions; it checks the routes of all pages against each other and gives every route and
  endpoint an identity. The generated application calls the runtime (\<open>runtime/\<close>, \<open>addons/auth\<close>): the backend
  router finds the handler of a request, guards and sessions decide who may call it, CSRF tokens who sent it,
  responses and error pages are written under a panic boundary, cross-origin headers are added; commands and
  events go through the registry of contracts to workers; limiters, message catalogs and traces serve all of
  these. What the compiler accepts and what the runtime does meet in several properties: a declared route is
  matched by exactly its paths, a checked expression evaluates, the checked routes have one handler.

  \<^bold>\<open>Theories, in the order of their dependencies.\<close>
  \<^item> \<open>Prelude\<close>, \<open>GoStrings\<close>, \<open>Http\<close>, \<open>Paths\<close>, \<open>Base64\<close>: what the code uses of the language and its library.
    Go strings are byte strings; a \<open>[]rune\<close> is a list of integers and \<open>runes\<close> decodes UTF-8. An \<open>int\<close> that can
    overflow is wrapped by \<open>int64\<close> or is a word; one that a length or a guard of the code bounds, or that counts
    calls of one process, is an integer.
  \<^item> \<open>Pattern\<close> (\<open>runtime/validation/pattern.go\<close>): the parser and the matcher of form patterns, against regular
    languages.
  \<^item> \<open>RateLimit\<close> (\<open>runtime/ratelimit\<close>): the stores and the limiter, against a fixed window over the history.
  \<^item> \<open>TraceContext\<close>, \<open>TraceSnapshot\<close>, \<open>TraceExport\<close> (\<open>runtime/trace\<close>): headers and sampling; the limits and
    lines of snapshots; the ring and the export queue, whose goroutines are an inductive step relation.
  \<^item> \<open>Contracts\<close>, \<open>Worker\<close> (\<open>runtime/contracts\<close>, \<open>membroker\<close>): the registry, commands, queries and events; the
    worker loop over an event source, the bounded store of seen identifiers, the broker in memory.
  \<^item> \<open>ExprParse\<close>, \<open>ExprCheck\<close>, \<open>ExprFormat\<close>, \<open>ExprEval\<close> (\<open>internal/clientlang/expr*.go\<close>): lexer and parser, type
    checker, formatting and calendar, evaluator of client expressions.
  \<^item> \<open>Route\<close> (\<open>runtime/route\<close>), \<open>RouteDecl\<close>, \<open>Source\<close> (\<open>internal/source\<close>), \<open>Locales\<close> (\<open>gowdk.go\<close>), \<open>Identity\<close>
    (\<open>internal/gwdkir\<close>), \<open>RouteCheck\<close> (\<open>internal/compiler/routes.go\<close>): matching, declarations, positions, locale
    variants, identities, and the checks between routes.
  \<^item> \<open>Cors\<close> (\<open>runtime/corsorigin\<close>, \<open>runtime/app/cors.go\<close>), \<open>I18n\<close> (\<open>runtime/i18n\<close>), \<open>Response\<close>
    (\<open>runtime/response\<close>), \<open>ErrorPages\<close> and \<open>Backend\<close> (\<open>runtime/app\<close>): policies and their headers, catalogs,
    envelopes and writers, error documents, the router and its boundary.
  \<^item> \<open>Guard\<close> (\<open>runtime/guard\<close>, \<open>runtime/auth\<close>), \<open>Csrf\<close> (\<open>runtime/actions\<close>), \<open>Sessions\<close>, \<open>Password\<close>
    (\<open>addons/auth\<close>): who may call what.
  \<^item> \<open>ViewNames\<close>, \<open>ViewParse\<close> (\<open>internal/viewparse\<close>): names and values of attributes; the parser of markup.
  \<^item> \<open>ClientLang\<close>, \<open>ClientProgram\<close>, \<open>ClientOrder\<close>, \<open>ClientIsland\<close> (\<open>internal/clientlang/clientlang.go\<close>,
    \<open>island_validation.go\<close>): statements and headers; the parser of a block; the order of computed values; the
    checks of statements and event expressions.

  Within a theory come the data (a record per struct, a datatype per tagged union), the operations in the order
  of the code and under its names, then lemmas, and at the end examples. A loop of the code is an auxiliary
  function with the suffix \<open>loop\<close>; accumulators keep the order of the code. Errors are the left of a sum, one
  constructor per message of the code, a panic is \<open>None\<close> or an ending of its own, and an effect on shared state
  is the state passed on: the writer of a response, a store, a queue.

  \<^bold>\<open>Interfaces.\<close> A locale states what a client relies on, and is interpreted on the model of the provider.
  \<open>rate_store\<close>: an invalid call is refused, and the fields of a decision agree with each other (the store in
  memory, and the one on a Redis server, whose script is a parameter). \<open>seen_store\<close>: what was marked is seen, and
  nothing is forgotten below the capacity (the bounded store in memory). \<open>event_source\<close> and its extension \<open>nackless_source\<close>: what is received is pending and what is
  acknowledged is not any more (the broker in memory). \<open>deduplicating_worker\<close> joins the two. \<open>session_store\<close>:
  a lookup shows the record that is kept, and no operation brings a revoked session back (the store in memory).

  \<^bold>\<open>What is shown.\<close>
  \<^item> Reference semantics: patterns match their language; the limiter is the fixed window with its exact reset
    time; the seen store is the list of the most recently used; the calendar is the Gregorian one; guards, CSRF
    tokens and the completeness report decide exactly what they should.
  \<^item> Compiler against runtime: type soundness of expressions, with integers for the integer types; routes.
  \<^item> Invariants over all interleavings or sequences of operations: the export queue, the ring with its limits,
    revoked sessions, the memory broker.
  \<^item> Round trips: trace headers, source positions, password hashes, identities.
  \<^item> Syntax: parsers end, their trees and spans lie in the source in order, statements have the lines they stand
    on, and what a browser would run is rejected.
  \<^item> Boundary cases the code does not handle are lemmas beside the theorem they limit.

  \<^bold>\<open>Termination and fuel.\<close> Recursion that is not structural has a measure. Parsers that call each other through
  a shared state run on fuel, and running out is an error of its own that the theorems exclude: a pattern of
  length \<open>n\<close> needs \<open>4 * n + 3\<close> (\<open>parse_fuel_enough\<close>), since each of the four mutual functions passes on a shorter
  rest or the next lower function; the expression parser gets the length of the source plus two and each round
  consumes a token (\<open>ParseExpr_total\<close>); the markup parser likewise (\<open>Parse_total\<close>); the order of computed values
  gets one unit more than there are names, since the chain of names being visited has no repetition (\<open>OrderComputed_topological\<close>).
  The worker loop, which the code leaves only when its context or its source ends, has a bound on its rounds:
  one more than the events that wait are enough to empty the memory broker.

  \<^bold>\<open>Parameters.\<close> Code that is not in the repository is an argument: floating-point arithmetic and printing, the
  Unicode tables and case mappings beyond ASCII, the JSON encoder and decoder, HMAC-SHA256 and PBKDF2, random
  bytes, the clock (an operation reads it where the code does, or once where the code reads it twice in a row),
  URL and IP address parsers, \<open>html.UnescapeString\<close>, the file system, and a Redis server. A theorem that needs a
  law of one of them states it as a hypothesis, with an instance that satisfies it in the example that follows:
  the JSON codec, for instance, is only assumed to read back payloads whose strings are valid UTF-8.

  \<^bold>\<open>Not modelled.\<close> Mutexes: an operation under a lock is one step. Panics of \<open>net/http\<close> on impossible status codes
  and its informational responses. Spans and metrics around handlers and guards, which leave the outcome as it
  is. Texts of error messages where only their kind matters. Of the rest of the program: the command line tool,
  the generators of Go, HTML and JavaScript, the page parser and the editor services, the renderer of markup
  (which repeats the checks of URLs on interpolated values), the scanners of projects, report formats, clients
  of message brokers and of OpenTelemetry, adapters of other routers, form decoding by reflection, and the
  environment files.
\<close>

end
